(* ===== verification/Kryon_Prelude.thy ===== *)
theory Kryon_Prelude
  imports
    Main
    "HOL-Library.Signed_Division"
    "HOL-Library.Char_ord"
    "HOL-Library.List_Lexorder"
    "HOL-Library.Multiset"
begin

text \<open>
  Vocabulary shared by every component: the types the TypeScript code names, the standard
  library operations it uses (truncating \<open>bigint\<close> division, the stable
  \<open>Array.prototype.sort\<close>, \<open>Map.get\<close> with a default, \<open>toLowerCase\<close>), and the facts
  about them that the component proofs share.

  A \<open>bigint\<close> is an \<open>int\<close>. A JavaScript number that the code uses for a count, a time in
  seconds or milliseconds, or an identifier is an \<open>int\<close> too: all of these are integers
  below \<open>2 ^ 53\<close>. A hex string or an address is a \<open>string\<close>; the order on strings is
  JavaScript's, the lexicographic order of the character codes.
\<close>

type_synonym hex = string
type_synonym address = string

named_theorems js_simps \<open>rewrite rules for the standard library operations\<close>
named_theorems js_bounds \<open>bounds on truncating division\<close>

section \<open>Definitions\<close>

subsection \<open>Stable sorting by a comparator\<close>

text \<open>
  \<open>xs.sort(cmp)\<close>: a comparator returns a negative number, zero or a positive number.
  The sort is stable, so an element goes before those that compare equal and came later.
\<close>

fun sort_insert :: "('a \<Rightarrow> 'a \<Rightarrow> int) \<Rightarrow> 'a \<Rightarrow> 'a list \<Rightarrow> 'a list" where
  "sort_insert cmp x [] = [x]"
| "sort_insert cmp x (y # ys) =
     (if cmp x y \<le> 0 then x # y # ys else y # sort_insert cmp x ys)"

fun js_sort :: "('a \<Rightarrow> 'a \<Rightarrow> int) \<Rightarrow> 'a list \<Rightarrow> 'a list" where
  "js_sort cmp [] = []"
| "js_sort cmp (x # xs) = sort_insert cmp x (js_sort cmp xs)"

subsection \<open>Maps with a default\<close>

text \<open>\<open>m.get(k) ?? d\<close>\<close>

definition get_or :: "('k \<Rightarrow> 'v option) \<Rightarrow> 'k \<Rightarrow> 'v \<Rightarrow> 'v" where
  "get_or m k d = (case m k of None \<Rightarrow> d | Some v \<Rightarrow> v)"

subsection \<open>Strings\<close>

text \<open>\<open>toLowerCase\<close> on the ASCII strings the code keys by (hashes, ids, addresses).\<close>

definition lower_char :: "char \<Rightarrow> char" where
  "lower_char c =
     (let n = (of_char c :: nat) in if 65 \<le> n \<and> n \<le> 90 then char_of (n + 32) else c)"

definition lower :: "string \<Rightarrow> string" where
  "lower s = map lower_char s"

subsection \<open>Three-way comparison\<close>

text \<open>\<open>a < b ? -1 : a > b ? 1 : 0\<close>\<close>

definition cmp3 :: "'a::linorder \<Rightarrow> 'a \<Rightarrow> int" where
  "cmp3 a b = (if a < b then -1 else if a > b then 1 else 0)"

text \<open>\<open>c1 !== 0 ? c1 : c2\<close>, or \<open>c1 || c2\<close>: the second comparison breaks ties.\<close>

definition cmp_then :: "int \<Rightarrow> int \<Rightarrow> int" where
  "cmp_then c1 c2 = (if c1 \<noteq> 0 then c1 else c2)"

section \<open>Comparators and the stable sort\<close>

lemma set_sort_insert [simp]: "set (sort_insert cmp x ys) = insert x (set ys)"
  by (induction ys) auto

lemma mset_sort_insert [simp]: "mset (sort_insert cmp x ys) = add_mset x (mset ys)"
  by (induction ys) auto

lemma mset_js_sort [simp]: "mset (js_sort cmp xs) = mset xs"
  by (induction xs) auto

lemma set_js_sort [simp]: "set (js_sort cmp xs) = set xs"
  by (induction xs) auto

lemma length_js_sort [simp]: "length (js_sort cmp xs) = length xs"
  using mset_js_sort size_mset by metis

lemma distinct_js_sort [simp]: "distinct (js_sort cmp xs) = distinct xs"
  by (metis mset_js_sort mset_eq_imp_distinct_iff)

text \<open>
  The contract a comparator must meet for \<open>js_sort\<close> to sort: a total preorder. Every
  comparator of the program interprets it.
\<close>

locale comparator =
  fixes cmp :: "'a \<Rightarrow> 'a \<Rightarrow> int"
  assumes cmp_total: "0 < cmp x y \<Longrightarrow> cmp y x \<le> 0"
    and cmp_trans: "cmp x y \<le> 0 \<Longrightarrow> cmp y z \<le> 0 \<Longrightarrow> cmp x z \<le> 0"
begin

lemma sort_insert_sorted:
  "sorted_wrt (\<lambda>x y. cmp x y \<le> 0) ys \<Longrightarrow>
   sorted_wrt (\<lambda>x y. cmp x y \<le> 0) (sort_insert cmp x ys)"
proof (induction ys)
  case Nil
  then show ?case by simp
next
  case (Cons y ys)
  show ?case
  proof (cases "cmp x y \<le> 0")
    case True
    with Cons.prems show ?thesis by (auto intro: cmp_trans)
  next
    case False
    then have "cmp y x \<le> 0" using cmp_total by force
    with False Cons show ?thesis by simp
  qed
qed

lemma js_sort_sorted: "sorted_wrt (\<lambda>x y. cmp x y \<le> 0) (js_sort cmp xs)"
  by (induction xs) (simp_all add: sort_insert_sorted)

end

text \<open>
  A comparator whose ties are between elements with the same key. Where the keys are
  distinct the sorted list depends on the elements alone, not on the order they came in.
\<close>

locale keyed_comparator = comparator cmp for cmp :: "'a \<Rightarrow> 'a \<Rightarrow> int" +
  fixes key :: "'a \<Rightarrow> 'k"
  assumes cmp_key: "cmp x y \<le> 0 \<Longrightarrow> cmp y x \<le> 0 \<Longrightarrow> key x = key y"
begin

lemma sorted_unique:
  assumes "sorted_wrt (\<lambda>x y. cmp x y \<le> 0) xs" and "sorted_wrt (\<lambda>x y. cmp x y \<le> 0) ys"
    and "mset xs = mset ys" and "inj_on key (set xs)"
  shows "xs = ys"
  using assms
proof (induction xs arbitrary: ys)
  case Nil
  then show ?case by simp
next
  case (Cons x xs)
  then obtain y ys' where ys: "ys = y # ys'" by (cases ys) auto
  have sets: "set (x # xs) = set ys" using Cons.prems(3) by (rule mset_eq_setD)
  have "cmp x y \<le> 0 \<or> x = y" and "cmp y x \<le> 0 \<or> x = y"
    using Cons.prems(1,2) sets ys by auto
  then have "key x = key y" using cmp_key by blast
  then have "x = y" using Cons.prems(4) sets ys by (metis inj_on_eq_iff list.set_intros(1))
  with Cons ys show ?case by auto
qed

lemma js_sort_perm:
  "mset xs = mset ys \<Longrightarrow> inj_on key (set xs) \<Longrightarrow> js_sort cmp xs = js_sort cmp ys"
  by (rule sorted_unique) (simp_all add: js_sort_sorted)

end

section \<open>Facts shared by the components\<close>

lemma get_or_None [js_simps]: "m k = None \<Longrightarrow> get_or m k d = d"
  by (simp add: get_or_def)

lemma get_or_Some [js_simps]: "m k = Some v \<Longrightarrow> get_or m k d = v"
  by (simp add: get_or_def)

lemma get_or_empty [simp]: "get_or Map.empty k d = d"
  by (simp add: get_or_def)

lemma get_or_upd [simp]: "get_or (m(k \<mapsto> v)) k' d = (if k' = k then v else get_or m k' d)"
  by (simp add: get_or_def)

lemma lower_char_idem: "lower_char (lower_char c) = lower_char c"
  by (auto simp: lower_char_def Let_def)

lemma lower_idem [simp]: "lower (lower s) = lower s"
  by (simp add: lower_def lower_char_idem comp_def)

lemma length_lower [simp]: "length (lower s) = length s"
  by (simp add: lower_def)

subsection \<open>Comparisons\<close>

lemma cmp3_le [simp]: "cmp3 a b \<le> 0 \<longleftrightarrow> a \<le> b"
  by (auto simp: cmp3_def)

lemma cmp3_pos [simp]: "0 < cmp3 a b \<longleftrightarrow> b < a"
  by (auto simp: cmp3_def)

lemma cmp3_zero [simp]: "cmp3 a b = 0 \<longleftrightarrow> a = b"
  by (auto simp: cmp3_def)

lemma cmp3_neg [simp]: "cmp3 a b < 0 \<longleftrightarrow> a < b"
  by (auto simp: cmp3_def)

lemma cmp_then_le [simp]: "cmp_then c1 c2 \<le> 0 \<longleftrightarrow> c1 < 0 \<or> c1 = 0 \<and> c2 \<le> 0"
  by (auto simp: cmp_then_def)

lemma cmp_then_pos [simp]: "0 < cmp_then c1 c2 \<longleftrightarrow> 0 < c1 \<or> c1 = 0 \<and> 0 < c2"
  by (auto simp: cmp_then_def)

subsection \<open>Truncating division\<close>

text \<open>
  \<open>bigint\<close> division truncates toward zero: it is \<open>sdiv\<close> of the library. On non-negative
  operands it is the flooring \<open>div\<close>, which the arithmetic methods know.
\<close>

lemma sdiv_nonneg [js_simps]: "0 \<le> a \<Longrightarrow> 0 \<le> b \<Longrightarrow> a sdiv b = a div b" for a b :: int
  by (cases "a = 0"; cases "b = 0") (auto simp: signed_divide_int_def)

lemma sdiv_nonpos [js_simps]: "a \<le> 0 \<Longrightarrow> 0 \<le> b \<Longrightarrow> a sdiv b = - (- a div b)" for a b :: int
  by (cases "a = 0"; cases "b = 0") (auto simp: signed_divide_int_def)

lemma sdiv_ge_0 [js_bounds]: "0 \<le> a \<Longrightarrow> 0 \<le> b \<Longrightarrow> 0 \<le> a sdiv b" for a b :: int
  by (cases "b = 0") (simp_all add: js_simps pos_imp_zdiv_nonneg_iff)

lemma sdiv_le_0 [js_bounds]: "a \<le> 0 \<Longrightarrow> 0 \<le> b \<Longrightarrow> a sdiv b \<le> 0" for a b :: int
  by (cases "b = 0") (simp_all add: js_simps pos_imp_zdiv_nonneg_iff)

lemma sdiv_mult_le [js_bounds]:
  fixes a b :: int
  assumes "0 \<le> a" and "0 < b"
  shows "(a sdiv b) * b \<le> a"
proof -
  have "a sdiv b * b + a mod b = a" using assms by (simp add: js_simps)
  moreover have "0 \<le> a mod b" using assms(2) by simp
  ultimately show ?thesis by linarith
qed

lemma sdiv_mult_gt [js_bounds]:
  fixes a b :: int
  assumes "0 \<le> a" and "0 < b"
  shows "a < (a sdiv b + 1) * b"
proof -
  have "a sdiv b * b + a mod b = a" using assms by (simp add: js_simps)
  moreover have "a mod b < b" using assms(2) by simp
  ultimately show ?thesis by (simp add: distrib_right)
qed

lemma sdiv_mono [js_bounds]: "a \<le> b \<Longrightarrow> 0 < c \<Longrightarrow> 0 \<le> a \<Longrightarrow> a sdiv c \<le> b sdiv c" for a b c :: int
  by (simp add: js_simps zdiv_mono1)

lemma sdiv_le_iff:
  fixes a b q :: int
  assumes "0 \<le> a" and "0 < b"
  shows "q \<le> a sdiv b \<longleftrightarrow> q * b \<le> a"
proof
  assume "q \<le> a sdiv b"
  then have "q * b \<le> (a sdiv b) * b" using assms(2) by (simp add: mult_right_mono)
  with sdiv_mult_le [OF assms] show "q * b \<le> a" by linarith
next
  assume "q * b \<le> a"
  with sdiv_mult_gt [OF assms] have "q * b < (a sdiv b + 1) * b" by linarith
  with assms(2) show "q \<le> a sdiv b" by (simp add: mult_less_cancel_right)
qed

lemma sdiv_self_bound [js_bounds]:
  "0 \<le> n \<Longrightarrow> 0 \<le> q \<Longrightarrow> q \<le> d \<Longrightarrow> 0 < d \<Longrightarrow> (n * q) sdiv d \<le> n" for n q d :: int
proof -
  assume a: "0 \<le> n" "0 \<le> q" "q \<le> d" "0 < d"
  then have "n * q \<le> n * d" by (simp add: mult_left_mono)
  then have "(n * q) div d \<le> (n * d) div d" using a(4) by (rule zdiv_mono1)
  with a show ?thesis by (simp add: js_simps)
qed

end
