(* ===== verification/Kryon_Math.thy ===== *)
theory Kryon_Math
  imports Kryon_Prelude
begin

text \<open>
  Position arithmetic, \<open>client/lib/math.ts\<close>. All amounts are \<open>bigint\<close> at \<open>1e18\<close>; sizes
  and the open notional (the cost basis) are signed, positive for a long. The first part
  holds the functions of the file in its order, the second their correctness: rounding
  directions of the fee, exact conservation of basis, realized profit and fill value by
  \<open>applyFill\<close>, the position invariant, and the exact threshold that \<open>liquidationPrice\<close>
  computes. Division by zero would throw; every divisor below is a positive constant or
  is tested by its caller, which the lemmas on those callers rely on.
\<close>

section \<open>The functions of math.ts\<close>

definition E18 :: int where "E18 = 10 ^ 18"
definition RATE_DENOMINATOR :: int where "RATE_DENOMINATOR = 1000000"
definition BPS :: int where "BPS = 10000"

definition mulDiv :: "int \<Rightarrow> int \<Rightarrow> int \<Rightarrow> int" where
  "mulDiv a b d = (a * b) sdiv d"

definition notional :: "int \<Rightarrow> int \<Rightarrow> int" where
  "notional sz price = mulDiv \<bar>sz\<bar> price E18"

definition feeFor :: "int \<Rightarrow> int \<Rightarrow> int" where
  "feeFor fillNotional rateMillionths =
     (if fillNotional \<le> 0 \<or> rateMillionths = 0 then 0
      else if rateMillionths < 0 then - mulDiv fillNotional (- rateMillionths) RATE_DENOMINATOR
      else (fillNotional * rateMillionths - 1) sdiv RATE_DENOMINATOR + 1)"

definition entryPrice :: "int \<Rightarrow> int \<Rightarrow> int" where
  "entryPrice sz openNotional =
     (if sz = 0 then 0
      else let e = mulDiv \<bar>openNotional\<bar> E18 \<bar>sz\<bar> in if e > 0 then e else 1)"

definition unrealizedPnl :: "int \<Rightarrow> int \<Rightarrow> int \<Rightarrow> int" where
  "unrealizedPnl sz openNotional price =
     (if sz = 0 then 0
      else let value = (if sz < 0 then - mulDiv (- sz) price E18 else mulDiv sz price E18)
           in value - openNotional)"

definition marginAt :: "int \<Rightarrow> int \<Rightarrow> int \<Rightarrow> int" where
  "marginAt sz price bps = mulDiv (notional sz price) bps BPS"

record position_state =
  ps_size :: int
  ps_openNotional :: int

record fill_result = position_state +
  fr_realized :: int
  fr_increased :: bool

definition applyFill :: "position_state \<Rightarrow> int \<Rightarrow> int \<Rightarrow> fill_result" where
  "applyFill p delta price =
     (if delta = 0
      then \<lparr>ps_size = ps_size p, ps_openNotional = ps_openNotional p,
            fr_realized = 0, fr_increased = False\<rparr>
      else
        let fill = notional delta price; s = ps_size p in
        if s = 0 \<or> (s > 0) = (delta > 0)
        then \<lparr>ps_size = s + delta,
              ps_openNotional = ps_openNotional p + (if delta > 0 then fill else - fill),
              fr_realized = 0, fr_increased = True\<rparr>
        else
          let absS = \<bar>s\<bar>; absD = \<bar>delta\<bar>;
              closeQty = (if absD < absS then absD else absS);
              residual = absD - closeQty;
              closeNotional = (if residual = 0 then fill else notional closeQty price);
              removedBasis = (if closeQty = absS then ps_openNotional p
                              else mulDiv (ps_openNotional p) closeQty absS);
              realized = (if s > 0 then closeNotional else - closeNotional) - removedBasis;
              size0 = (if s > 0 then s - closeQty else s + closeQty);
              openNotional0 = ps_openNotional p - removedBasis;
              rest = fill - closeNotional
          in \<lparr>ps_size = (if residual > 0 then size0 + (if delta > 0 then residual else - residual)
                         else size0),
              ps_openNotional = (if residual > 0 then openNotional0 + (if delta > 0 then rest else - rest)
                                 else openNotional0),
              fr_realized = realized, fr_increased = residual > 0\<rparr>)"

record liquidation_inputs =
  li_size :: int
  li_equity :: int
  li_price :: int
  li_maintenanceMarginBps :: int
  li_otherMaintenance :: "int option"

definition liquidationPrice :: "liquidation_inputs \<Rightarrow> int option" where
  "liquidationPrice x =
     (let other = (case li_otherMaintenance x of None \<Rightarrow> 0 | Some v \<Rightarrow> v);
          sz = li_size x; m = li_maintenanceMarginBps x
      in if sz = 0 then None
         else let a = \<bar>sz\<bar>;
                  positionValue = mulDiv a (li_price x) E18;
                  numerator = (if sz > 0 then other + positionValue - li_equity x
                               else li_equity x + positionValue - other);
                  denominator = a * (if sz > 0 then BPS - m else BPS + m)
              in if numerator \<le> 0 \<or> denominator \<le> 0 then None
                 else Some ((numerator * E18 * BPS) sdiv denominator))"

section \<open>Arithmetic facts\<close>

lemmas math_consts = E18_def RATE_DENOMINATOR_def BPS_def

lemma const_pos [simp]: "0 < E18" "0 < RATE_DENOMINATOR" "0 < BPS"
  by (simp_all add: math_consts)

lemma const_nonneg [simp]: "0 \<le> E18" "0 \<le> RATE_DENOMINATOR" "0 \<le> BPS"
  by (simp_all add: math_consts)

lemma notional_nonneg [simp]: "0 \<le> price \<Longrightarrow> 0 \<le> notional sz price"
  by (simp add: notional_def mulDiv_def sdiv_ge_0)

lemma notional_minus [simp]: "notional (- q) price = notional q price"
  by (simp add: notional_def)

lemma notional_abs [simp]: "notional \<bar>q\<bar> price = notional q price"
  by (simp add: notional_def)

lemma notional_mono: "0 \<le> price \<Longrightarrow> \<bar>a\<bar> \<le> \<bar>b\<bar> \<Longrightarrow> notional a price \<le> notional b price"
  by (auto simp: notional_def mulDiv_def intro!: sdiv_mono mult_right_mono)

lemma mulDiv_part_bounds:
  fixes n q d :: int
  assumes "0 \<le> q" "q \<le> d" "0 < d"
  shows "0 \<le> n \<Longrightarrow> 0 \<le> mulDiv n q d \<and> mulDiv n q d \<le> n"
    and "n \<le> 0 \<Longrightarrow> n \<le> mulDiv n q d \<and> mulDiv n q d \<le> 0"
proof -
  show pos: "0 \<le> mulDiv n q d \<and> mulDiv n q d \<le> n" if "0 \<le> n" for n
    using assms that by (auto simp: mulDiv_def sdiv_ge_0 sdiv_self_bound)
  show "n \<le> mulDiv n q d \<and> mulDiv n q d \<le> 0" if "n \<le> 0"
    using pos [of "- n"] that by (simp add: mulDiv_def)
qed

section \<open>Fees\<close>

text \<open>
  The fee of a fill is the exact ceiling of notional times rate over a million, for a
  debit and for a rebate alike: the fee is never below the exact amount and exceeds it by
  less than one unit of the last place, so rounding is always against the trader.
\<close>

theorem feeFor_rounds_up:
  assumes "0 < n"
  shows "n * r \<le> feeFor n r * RATE_DENOMINATOR
       \<and> feeFor n r * RATE_DENOMINATOR < n * r + RATE_DENOMINATOR"
proof -
  consider "r = 0" | "r < 0" | "0 < r" by linarith
  then show ?thesis
  proof cases
    case 1
    then show ?thesis by (simp add: feeFor_def)
  next
    case 2
    let ?q = "(n * - r) sdiv RATE_DENOMINATOR"
    have "0 \<le> n * - r" using assms 2 by (simp add: mult_pos_neg less_imp_le)
    then have "?q * RATE_DENOMINATOR \<le> n * - r" and "n * - r < (?q + 1) * RATE_DENOMINATOR"
      using sdiv_mult_le sdiv_mult_gt const_pos(2) by blast+
    moreover have "feeFor n r = - ?q" using assms 2 by (simp add: feeFor_def mulDiv_def)
    ultimately show ?thesis by (simp only: distrib_right mult_minus_left mult_minus_right) linarith
  next
    case 3
    let ?q = "(n * r - 1) sdiv RATE_DENOMINATOR"
    have "0 < n * r" using assms 3 by simp
    then have "0 \<le> n * r - 1" by simp
    then have "?q * RATE_DENOMINATOR \<le> n * r - 1" and "n * r - 1 < (?q + 1) * RATE_DENOMINATOR"
      using sdiv_mult_le sdiv_mult_gt const_pos(2) by blast+
    moreover have "feeFor n r = ?q + 1" using assms 3 by (simp add: feeFor_def)
    ultimately show ?thesis by (simp only: distrib_right) linarith
  qed
qed

theorem feeFor_rounds_up_witness:
  "(0::int) < 1000001 \<and> 1000001 * 350 \<le> feeFor 1000001 350 * RATE_DENOMINATOR
     \<and> feeFor 1000001 350 = 351"
  using feeFor_rounds_up [of 1000001 350] by (simp add: feeFor_def RATE_DENOMINATOR_def)

section \<open>Applying a fill\<close>

text \<open>
  A position is well formed when its basis has the sign of its size, and a flat position
  has no basis.
\<close>

definition position_ok :: "'a position_state_scheme \<Rightarrow> bool" where
  "position_ok p \<longleftrightarrow>
     (ps_size p = 0 \<longrightarrow> ps_openNotional p = 0) \<and>
     (0 < ps_size p \<longrightarrow> 0 \<le> ps_openNotional p) \<and>
     (ps_size p < 0 \<longrightarrow> ps_openNotional p \<le> 0)"

lemmas applyFill_unfold = applyFill_def Let_def abs_if

lemma applyFill_closing:
  assumes "ps_size p * delta < 0" and "\<bar>delta\<bar> \<le> \<bar>ps_size p\<bar>"
  shows "ps_openNotional (applyFill p delta price) = ps_openNotional p
       - (if \<bar>delta\<bar> = \<bar>ps_size p\<bar> then ps_openNotional p
          else mulDiv (ps_openNotional p) \<bar>delta\<bar> \<bar>ps_size p\<bar>)"
  using assms by (auto simp: applyFill_unfold mult_less_0_iff split: if_splits)

lemma applyFill_flipping:
  assumes "ps_size p * delta < 0" and "\<bar>ps_size p\<bar> < \<bar>delta\<bar>"
  shows "ps_openNotional (applyFill p delta price)
       = sgn delta * (notional delta price - notional (ps_size p) price)"
  using assms by (auto simp: applyFill_unfold mult_less_0_iff split: if_splits)

lemma applyFill_opening:
  assumes "delta \<noteq> 0" and "\<not> ps_size p * delta < 0"
  shows "ps_openNotional (applyFill p delta price)
       = ps_openNotional p + sgn delta * notional delta price"
  using assms by (auto simp: applyFill_unfold mult_less_0_iff split: if_splits)

text \<open>
  C6. A fill moves the size by exactly its signed quantity, and its value is conserved to
  the last unit: the new basis is the old basis plus the signed fill notional plus the
  profit realized, whatever the closing part and the residual were rounded to. Which basis
  is left is fixed on every path: an opening or increasing fill adds its signed notional
  and realizes nothing; a fill against the position that is no larger than it removes the
  pro-rata share of the basis, truncated, and a full close all of it; a fill that flips
  the side leaves the notional of the fill beyond the old size.
\<close>

theorem applyFill_conserves:
  "ps_size (applyFill p delta price) = ps_size p + delta
   \<and> ps_openNotional (applyFill p delta price)
     = ps_openNotional p + sgn delta * notional delta price + fr_realized (applyFill p delta price)
   \<and> (\<not> ps_size p * delta < 0 \<longrightarrow> fr_realized (applyFill p delta price) = 0)
   \<and> (ps_size p * delta < 0 \<and> \<bar>delta\<bar> \<le> \<bar>ps_size p\<bar> \<longrightarrow>
        ps_openNotional (applyFill p delta price) = ps_openNotional p
          - (if \<bar>delta\<bar> = \<bar>ps_size p\<bar> then ps_openNotional p
             else (ps_openNotional p * \<bar>delta\<bar>) sdiv \<bar>ps_size p\<bar>))
   \<and> (ps_size p * delta < 0 \<and> \<bar>ps_size p\<bar> < \<bar>delta\<bar> \<longrightarrow>
        ps_openNotional (applyFill p delta price) = sgn delta * (notional delta price - notional (ps_size p) price))"
proof (intro conjI impI)
  show "fr_realized (applyFill p delta price) = 0" if "\<not> ps_size p * delta < 0"
    using that by (auto simp: applyFill_unfold mult_less_0_iff split: if_splits)
qed (auto simp: applyFill_closing applyFill_flipping mulDiv_def, auto simp: applyFill_unfold)

text \<open>Closing half of a long of two at a basis of three, at a price of two: it realizes half a unit.\<close>

theorem applyFill_conserves_witness:
  "ps_openNotional (applyFill \<lparr>ps_size = 2 * E18, ps_openNotional = 3 * E18\<rparr> (- E18) (2 * E18)) = 3 * E18 - (3 * E18) div 2
   \<and> ps_size (applyFill \<lparr>ps_size = 2 * E18, ps_openNotional = 3 * E18\<rparr> (- E18) (2 * E18)) = E18"
  using applyFill_conserves [of "\<lparr>ps_size = 2 * E18, ps_openNotional = 3 * E18\<rparr>" "- E18" "2 * E18"]
  by (simp add: E18_def sdiv_nonneg)

lemma applyFill_size [simp]: "ps_size (applyFill p delta price) = ps_size p + delta"
  by (auto simp: applyFill_unfold)

text \<open>
  A fill at a non-negative price keeps a position well formed on every path: opening,
  increasing, a pro rata partial close, a full close and a close that flips the side.
\<close>

theorem applyFill_position_ok:
  assumes "position_ok p" and "0 \<le> price"
  shows "position_ok (applyFill p delta price)"
proof (cases "ps_size p * delta < 0")
  case False
  show ?thesis
  proof (cases "delta = 0")
    case True
    with assms(1) show ?thesis by (simp add: position_ok_def applyFill_def)
  next
    case nz: False
    have v: "0 \<le> notional delta price" using assms(2) by simp
    note on = applyFill_opening [OF nz False, of price]
    consider "ps_size p = 0" "0 < delta" | "ps_size p = 0" "delta < 0"
      | "0 < ps_size p" "0 < delta" | "ps_size p < 0" "delta < 0"
      using nz False by (force simp: mult_less_0_iff)
    then show ?thesis using assms(1) v
      by cases (simp_all add: position_ok_def on)
  qed
next
  case True
  show ?thesis
  proof (cases "\<bar>ps_size p\<bar> < \<bar>delta\<bar>")
    case flip: True
    then have "0 \<le> notional delta price - notional (ps_size p) price"
      using notional_mono [OF assms(2)] by simp
    then show ?thesis using True flip applyFill_flipping [OF True flip]
      by (auto simp: position_ok_def mult_less_0_iff sgn_if)
  next
    case False
    then have le: "\<bar>delta\<bar> \<le> \<bar>ps_size p\<bar>" by simp
    have "0 < \<bar>ps_size p\<bar>" using True by auto
    note parts = mulDiv_part_bounds [OF abs_ge_zero le this, of "ps_openNotional p"]
    show ?thesis using True le assms(1) parts applyFill_closing [OF True le]
      by (auto simp: position_ok_def mult_less_0_iff split: if_splits)
  qed
qed

theorem applyFill_position_ok_witness:
  "position_ok (applyFill \<lparr>ps_size = 3 * E18, ps_openNotional = 300 * E18\<rparr> (- 5 * E18) (110 * E18))"
proof -
  have "position_ok \<lparr>ps_size = 3 * E18, ps_openNotional = 300 * E18\<rparr>"
    by (simp add: position_ok_def)
  moreover have "0 \<le> 110 * E18" by simp
  ultimately show ?thesis by (rule applyFill_position_ok)
qed

text \<open>
  The \<open>increased\<close> flag, which decides whether initial margin is needed and what
  reduce-only forbids, is exact: it is set if and only if the fill enlarged the exposure or
  left the account on the other side.
\<close>

theorem applyFill_increased_iff:
  "fr_increased (applyFill p delta price) \<longleftrightarrow>
     \<bar>ps_size p\<bar> < \<bar>ps_size (applyFill p delta price)\<bar>
     \<or> ps_size p * ps_size (applyFill p delta price) < 0"
  by (auto simp: applyFill_unfold mult_less_0_iff split: if_splits)

section \<open>The liquidation price\<close>

text \<open>
  Equity minus the maintenance requirement at index price \<open>q\<close>, in units of
  \<open>1 / (1e18 * 10000)\<close> so that it is an integer: equity moves by \<open>size * (q - price)\<close>
  (the code values the position at \<open>price\<close> truncated), maintenance by
  \<open>|size| * q * bps\<close>; the collateral and the other positions are held.
\<close>

definition surplus_at :: "liquidation_inputs \<Rightarrow> int \<Rightarrow> int" where
  "surplus_at x q =
     (let s = li_size x; pv = mulDiv \<bar>s\<bar> (li_price x) E18;
          other = (case li_otherMaintenance x of None \<Rightarrow> 0 | Some v \<Rightarrow> v)
      in (li_equity x - sgn s * pv - other) * E18 * BPS
         + s * q * BPS - \<bar>s\<bar> * q * li_maintenanceMarginBps x)"

lemma surplus_at_long:
  assumes "0 < li_size x"
  shows "surplus_at x q
       = li_size x * (BPS - li_maintenanceMarginBps x) * q
         - ((case li_otherMaintenance x of None \<Rightarrow> 0 | Some v \<Rightarrow> v)
            + mulDiv (li_size x) (li_price x) E18 - li_equity x) * E18 * BPS"
  using assms by (simp add: surplus_at_def Let_def algebra_simps)

lemma surplus_at_short:
  assumes "li_size x < 0"
  shows "surplus_at x q
       = (li_equity x + mulDiv (- li_size x) (li_price x) E18
          - (case li_otherMaintenance x of None \<Rightarrow> 0 | Some v \<Rightarrow> v)) * E18 * BPS
         - (- li_size x) * (BPS + li_maintenanceMarginBps x) * q"
  using assms by (simp add: surplus_at_def Let_def algebra_simps)

lemma threshold_iff:
  fixes n d q :: int
  assumes "0 < n" and "0 < d"
  shows "d * q - n * E18 * BPS \<le> 0 \<longleftrightarrow> q \<le> (n * E18 * BPS) sdiv d"
  using sdiv_le_iff [of "n * E18 * BPS" d q] assms by (simp add: mult.commute [of d])

lemma threshold_ge_iff:
  fixes n d q :: int
  assumes "0 < n" and "0 < d"
  shows "0 \<le> n * E18 * BPS - d * q \<longleftrightarrow> q \<le> (n * E18 * BPS) sdiv d"
  using threshold_iff [OF assms, of q] by linarith

text \<open>
  C7. The liquidation price is the exact integer threshold. For a long, the account is at
  or below its maintenance requirement at index price \<open>q\<close> if and only if \<open>q\<close> is at most
  the returned price; for a short, it still meets its requirement exactly up to that price.
  When a long gets no price although its maintenance ratio is below one, the account stays
  above its requirement at every positive price.
\<close>

theorem liquidationPrice_threshold:
  "(liquidationPrice x = Some p \<and> 0 < li_size x \<longrightarrow> (surplus_at x q \<le> 0 \<longleftrightarrow> q \<le> p))
   \<and> (liquidationPrice x = Some p \<and> li_size x < 0 \<longrightarrow> (0 \<le> surplus_at x q \<longleftrightarrow> q \<le> p))
   \<and> (liquidationPrice x = None \<and> 0 < li_size x \<and> li_maintenanceMarginBps x < BPS \<and> 0 < q
        \<longrightarrow> 0 < surplus_at x q)"
proof (intro conjI impI)
  let ?o = "case li_otherMaintenance x of None \<Rightarrow> 0 | Some v \<Rightarrow> v"
  let ?m = "li_maintenanceMarginBps x"
  let ?nl = "?o + mulDiv (li_size x) (li_price x) E18 - li_equity x"
  let ?dl = "li_size x * (BPS - ?m)"
  {
    assume "liquidationPrice x = Some p \<and> 0 < li_size x"
    then have "0 < ?nl" "0 < ?dl" "p = (?nl * E18 * BPS) sdiv ?dl" "0 < li_size x"
      by (auto simp: liquidationPrice_def Let_def split: if_splits)
    then show "surplus_at x q \<le> 0 \<longleftrightarrow> q \<le> p"
      by (simp only: surplus_at_long threshold_iff)
  next
    let ?ns = "li_equity x + mulDiv (- li_size x) (li_price x) E18 - ?o"
    let ?ds = "- li_size x * (BPS + ?m)"
    assume "liquidationPrice x = Some p \<and> li_size x < 0"
    then have "0 < ?ns" "0 < ?ds" "p = (?ns * E18 * BPS) sdiv ?ds" "li_size x < 0"
      by (auto simp: liquidationPrice_def Let_def split: if_splits)
    then show "0 \<le> surplus_at x q \<longleftrightarrow> q \<le> p"
      by (simp only: surplus_at_short threshold_ge_iff)
  next
    assume a: "liquidationPrice x = None \<and> 0 < li_size x \<and> ?m < BPS \<and> 0 < q"
    then have "0 < ?dl" by simp
    moreover from a this have "?nl \<le> 0"
      by (auto simp: liquidationPrice_def Let_def mult_le_0_iff split: if_splits)
    ultimately have "0 < ?dl * q" and "?nl * E18 * BPS \<le> 0"
      using a by (simp_all add: mult_nonpos_nonneg)
    then show "0 < surplus_at x q" using a by (simp only: surplus_at_long)
  }
qed

definition long_example :: liquidation_inputs where
  "long_example = \<lparr>li_size = 2 * E18, li_equity = 30 * E18, li_price = 100 * E18,
     li_maintenanceMarginBps = 500, li_otherMaintenance = None\<rparr>"

theorem liquidationPrice_threshold_witness:
  "liquidationPrice long_example = Some 89473684210526315789
   \<and> surplus_at long_example 89473684210526315789 \<le> 0
   \<and> \<not> surplus_at long_example 89473684210526315790 \<le> 0"
proof -
  have price: "liquidationPrice long_example = Some 89473684210526315789"
    by (simp add: long_example_def liquidationPrice_def mulDiv_def math_consts)
  moreover have "0 < li_size long_example" by (simp add: long_example_def)
  ultimately show ?thesis
    using liquidationPrice_threshold [of long_example 89473684210526315789] by simp
qed

end
