(* ===== verification/Matching_Engine.thy ===== *)
theory Matching_Engine
  imports Kryon_Math
begin

text \<open>
  The price-time matching engine, \<open>client/lib/market/matching-engine.ts\<close>: the eligibility
  filter, the ledger of what a run has committed, and the double loop over bids and asks.
  \<open>EngineInput\<close> is a record with the code's fields; the optional \<open>acceptPrice\<close> callback is
  an optional predicate. The mutable \<open>Ledger\<close>, the \<open>sequences\<close> map and the two result
  arrays are the state record \<open>match_state\<close> that the loops thread. The ledger's
  \<open>closed\<close> map is keyed by the pair that the code joins into one string.
\<close>

section \<open>Orders, inputs and results\<close>

definition PRECISION :: int where "PRECISION = 10 ^ 18"
definition MAX_ORDER_TTL_SECONDS :: int where "MAX_ORDER_TTL_SECONDS = 7 * 24 * 60 * 60"

record engine_order =
  eo_orderHash :: hex
  eo_owner :: address
  eo_marketId :: int
  eo_isLong :: bool
  eo_size :: int
  eo_limitPrice :: int
  eo_reduceOnly :: bool
  eo_nonce :: int
  eo_expiry :: int
  eo_filledSize :: int
  eo_createdAt :: int

record engine_input =
  ei_marketId :: int
  ei_nowSec :: int
  ei_orders :: "engine_order list"
  ei_positions :: "address \<Rightarrow> int option"
  ei_minValidNonce :: "address \<Rightarrow> int option"
  ei_minFillNotional :: int
  ei_acceptPrice :: "(int \<Rightarrow> bool) option"

record engine_match =
  em_maker :: engine_order
  em_taker :: engine_order
  em_size :: int
  em_price :: int
  em_notional :: int
  em_sequence :: int

datatype skip_reason = Expired | Stale_nonce | Fully_filled | Self_trade
  | Reduce_only_no_position | Below_min_notional | Price_not_acceptable

record engine_skip =
  es_reason :: skip_reason
  es_orderHash :: hex
  es_counterpartyHash :: "hex option"

record engine_result =
  er_matches :: "engine_match list"
  er_skipped :: "engine_skip list"

definition notionalOf :: "int \<Rightarrow> int \<Rightarrow> int" where
  "notionalOf sz price = (sz * price) sdiv PRECISION"

section \<open>Priority\<close>

definition compare :: "engine_order \<Rightarrow> engine_order \<Rightarrow> bool \<Rightarrow> int" where
  "compare a b priceAscending =
     (if eo_limitPrice a \<noteq> eo_limitPrice b
      then let cheaperFirst = (if eo_limitPrice a < eo_limitPrice b then -1 else 1)
           in if priceAscending then cheaperFirst else - cheaperFirst
      else if eo_createdAt a \<noteq> eo_createdAt b then eo_createdAt a - eo_createdAt b
      else cmp3 (eo_orderHash a) (eo_orderHash b))"

definition compareArrival :: "engine_order \<Rightarrow> engine_order \<Rightarrow> int" where
  "compareArrival a b =
     (if eo_createdAt a \<noteq> eo_createdAt b then eo_createdAt a - eo_createdAt b
      else cmp3 (eo_orderHash a) (eo_orderHash b))"

section \<open>The ledger\<close>

record ledger =
  lg_reserved :: "hex \<Rightarrow> int option"
  lg_closed :: "address \<times> int \<Rightarrow> int option"
  lg_positions :: "address \<Rightarrow> int option"

definition new_ledger :: "(address \<Rightarrow> int option) \<Rightarrow> ledger" where
  "new_ledger positions =
     \<lparr>lg_reserved = Map.empty, lg_closed = Map.empty, lg_positions = positions\<rparr>"

definition remaining :: "ledger \<Rightarrow> engine_order \<Rightarrow> int" where
  "remaining l x = eo_size x - eo_filledSize x - get_or (lg_reserved l) (eo_orderHash x) 0"

definition fillable :: "ledger \<Rightarrow> engine_order \<Rightarrow> int" where
  "fillable l x =
     (let r = remaining l x
      in if \<not> eo_reduceOnly x \<or> r \<le> 0 then r
         else let position = get_or (lg_positions l) (eo_owner x) 0
              in if position = 0 \<or> eo_isLong x = (position > 0) then 0
                 else let headroom = \<bar>position\<bar> - get_or (lg_closed l) (eo_owner x, eo_marketId x) 0
                      in if headroom \<le> 0 then 0 else min r headroom)"

definition book :: "ledger \<Rightarrow> engine_order \<Rightarrow> int \<Rightarrow> ledger" where
  "book l x sz =
     (let l1 = l\<lparr>lg_reserved := (lg_reserved l)(eo_orderHash x \<mapsto>
                   get_or (lg_reserved l) (eo_orderHash x) 0 + sz)\<rparr>;
          key = (eo_owner x, eo_marketId x)
      in if \<not> eo_reduceOnly x then l1
         else l1\<lparr>lg_closed := (lg_closed l1)(key \<mapsto> get_or (lg_closed l1) key 0 + sz)\<rparr>)"

section \<open>Matching\<close>

text \<open>Why an order is left out before matching, in the order of the tests; \<open>None\<close> keeps it.\<close>

definition ineligible :: "engine_input \<Rightarrow> ledger \<Rightarrow> engine_order \<Rightarrow> skip_reason option" where
  "ineligible i l x =
     (if eo_expiry x \<le> ei_nowSec i \<or> eo_expiry x > ei_nowSec i + MAX_ORDER_TTL_SECONDS then Some Expired
      else if eo_nonce x < get_or (ei_minValidNonce i) (eo_owner x) 0 then Some Stale_nonce
      else if eo_size x - eo_filledSize x \<le> 0 then Some Fully_filled
      else if eo_reduceOnly x \<and> fillable l x \<le> 0 then Some Reduce_only_no_position
      else None)"

fun eligible :: "engine_input \<Rightarrow> ledger \<Rightarrow> engine_order list \<Rightarrow> engine_order list \<times> engine_skip list" where
  "eligible i l [] = ([], [])"
| "eligible i l (x # xs) =
     (let (keep, skip) = eligible i l xs
      in if eo_marketId x \<noteq> ei_marketId i then (keep, skip)
         else case ineligible i l x of
                Some r \<Rightarrow> (keep, \<lparr>es_reason = r, es_orderHash = eo_orderHash x,
                                  es_counterpartyHash = None\<rparr> # skip)
              | None \<Rightarrow> (x # keep, skip))"

record match_state =
  ms_ledger :: ledger
  ms_sequences :: "hex \<times> hex \<times> int \<times> int \<Rightarrow> int option"
  ms_matches :: "engine_match list"
  ms_skipped :: "engine_skip list"

definition skip_pair :: "skip_reason \<Rightarrow> hex \<Rightarrow> hex \<Rightarrow> match_state \<Rightarrow> match_state" where
  "skip_pair r h c st = st\<lparr>ms_skipped := ms_skipped st @
     [\<lparr>es_reason = r, es_orderHash = h, es_counterpartyHash = Some c\<rparr>]\<rparr>"

text \<open>The body of the inner loop after its two \<open>break\<close> tests.\<close>

definition match_pair :: "engine_input \<Rightarrow> engine_order \<Rightarrow> engine_order \<Rightarrow> match_state \<Rightarrow> match_state" where
  "match_pair i bid ask st =
     (if eo_owner bid = eo_owner ask
      then skip_pair Self_trade (eo_orderHash bid) (eo_orderHash ask) st
      else
        let l = ms_ledger st; bidFillable = fillable l bid; askFillable = fillable l ask
        in if bidFillable \<le> 0 \<or> askFillable \<le> 0 then st
        else
          let bidFirst = compareArrival bid ask \<le> 0;
              maker = (if bidFirst then bid else ask);
              taker = (if bidFirst then ask else bid);
              price = eo_limitPrice maker
          in if (case ei_acceptPrice i of None \<Rightarrow> False | Some f \<Rightarrow> \<not> f price)
             then skip_pair Price_not_acceptable (eo_orderHash maker) (eo_orderHash taker) st
          else
            let sz = min bidFillable askFillable
            in if notionalOf sz price < ei_minFillNotional i
               then skip_pair Below_min_notional (eo_orderHash maker) (eo_orderHash taker) st
            else
              let key = (eo_orderHash maker, eo_orderHash taker, sz, price);
                  sequence = get_or (ms_sequences st) key 0
              in st\<lparr>ms_sequences := (ms_sequences st)(key \<mapsto> sequence + 1),
                    ms_ledger := book (book l bid sz) ask sz,
                    ms_matches := ms_matches st @
                      [\<lparr>em_maker = maker, em_taker = taker, em_size = sz, em_price = price,
                        em_notional = notionalOf sz price, em_sequence = sequence\<rparr>]\<rparr>)"

fun match_asks :: "engine_input \<Rightarrow> engine_order \<Rightarrow> engine_order list \<Rightarrow> match_state \<Rightarrow> match_state" where
  "match_asks i bid [] st = st"
| "match_asks i bid (ask # asks) st =
     (if eo_limitPrice bid < eo_limitPrice ask then st
      else if remaining (ms_ledger st) bid \<le> 0 then st
      else match_asks i bid asks (match_pair i bid ask st))"

fun match_bids :: "engine_input \<Rightarrow> engine_order list \<Rightarrow> engine_order list \<Rightarrow> match_state \<Rightarrow> match_state" where
  "match_bids i [] asks st = st"
| "match_bids i (bid # bids) asks st = match_bids i bids asks (match_asks i bid asks st)"

definition sorted_bids :: "engine_order list \<Rightarrow> engine_order list" where
  "sorted_bids xs = js_sort (\<lambda>a b. compare a b False) (filter eo_isLong xs)"

definition sorted_asks :: "engine_order list \<Rightarrow> engine_order list" where
  "sorted_asks xs = js_sort (\<lambda>a b. compare a b True) (filter (\<lambda>x. \<not> eo_isLong x) xs)"

definition run_match :: "engine_input \<Rightarrow> match_state" where
  "run_match i =
     (let l = new_ledger (ei_positions i);
          (keep, skip) = eligible i l (ei_orders i)
      in match_bids i (sorted_bids keep) (sorted_asks keep)
           \<lparr>ms_ledger = l, ms_sequences = Map.empty, ms_matches = [], ms_skipped = skip\<rparr>)"

definition matchOrders :: "engine_input \<Rightarrow> engine_result" where
  "matchOrders i = \<lparr>er_matches = ms_matches (run_match i), er_skipped = ms_skipped (run_match i)\<rparr>"

section \<open>Specification vocabulary\<close>

definition bid_of :: "engine_match \<Rightarrow> engine_order" where
  "bid_of m = (if eo_isLong (em_maker m) then em_maker m else em_taker m)"

definition ask_of :: "engine_match \<Rightarrow> engine_order" where
  "ask_of m = (if eo_isLong (em_maker m) then em_taker m else em_maker m)"

text \<open>The ledger that a list of matches amounts to.\<close>

definition replay :: "(address \<Rightarrow> int option) \<Rightarrow> engine_match list \<Rightarrow> ledger" where
  "replay positions ms =
     fold (\<lambda>m l. book (book l (bid_of m) (em_size m)) (ask_of m) (em_size m)) ms (new_ledger positions)"

text \<open>What of an order's size a list of matches uses, and what of a position it closes.\<close>

definition matched_size :: "engine_match list \<Rightarrow> hex \<Rightarrow> int" where
  "matched_size ms h =
     (\<Sum>m\<leftarrow>ms. (if eo_orderHash (bid_of m) = h then em_size m else 0)
              + (if eo_orderHash (ask_of m) = h then em_size m else 0))"

definition reduce_only_part :: "engine_order \<Rightarrow> address \<Rightarrow> int \<Rightarrow> int \<Rightarrow> int" where
  "reduce_only_part x a mid sz =
     (if eo_reduceOnly x \<and> eo_owner x = a \<and> eo_marketId x = mid then sz else 0)"

definition closed_size :: "engine_match list \<Rightarrow> address \<Rightarrow> int \<Rightarrow> int" where
  "closed_size ms a mid =
     (\<Sum>m\<leftarrow>ms. reduce_only_part (bid_of m) a mid (em_size m)
              + reduce_only_part (ask_of m) a mid (em_size m))"

definition maker_of :: "engine_order \<Rightarrow> engine_order \<Rightarrow> engine_order" where
  "maker_of bid ask = (if compareArrival bid ask \<le> 0 then bid else ask)"

definition price_accepted :: "engine_input \<Rightarrow> int \<Rightarrow> bool" where
  "price_accepted i price = (case ei_acceptPrice i of None \<Rightarrow> True | Some f \<Rightarrow> f price)"

text \<open>A bid and an ask that cross and could trade, given what is already committed.\<close>

definition tradable :: "engine_input \<Rightarrow> ledger \<Rightarrow> engine_order \<Rightarrow> engine_order \<Rightarrow> bool" where
  "tradable i l bid ask \<longleftrightarrow>
     eo_limitPrice ask \<le> eo_limitPrice bid \<and> eo_owner bid \<noteq> eo_owner ask
     \<and> 0 < fillable l bid \<and> 0 < fillable l ask
     \<and> price_accepted i (eo_limitPrice (maker_of bid ask))
     \<and> ei_minFillNotional i
         \<le> notionalOf (min (fillable l bid) (fillable l ask)) (eo_limitPrice (maker_of bid ask))"

definition eligible_orders :: "engine_input \<Rightarrow> engine_order list" where
  "eligible_orders i = fst (eligible i (new_ledger (ei_positions i)) (ei_orders i))"

text \<open>What the database guarantees of an input: unique order hashes, positive limits.\<close>

definition input_ok :: "engine_input \<Rightarrow> bool" where
  "input_ok i \<longleftrightarrow> distinct (map eo_orderHash (ei_orders i)) \<and> (\<forall>x \<in> set (ei_orders i). 0 < eo_limitPrice x)"

section \<open>The comparators\<close>

interpretation bid_priority: keyed_comparator "\<lambda>a b. compare a b False" eo_orderHash
  by unfold_locales (auto simp: compare_def Let_def split: if_splits)

interpretation ask_priority: keyed_comparator "\<lambda>a b. compare a b True" eo_orderHash
  by unfold_locales (auto simp: compare_def Let_def split: if_splits)

interpretation arrival: keyed_comparator compareArrival eo_orderHash
  by unfold_locales (auto simp: compareArrival_def split: if_splits)

section \<open>Ledger facts\<close>

lemma remaining_book:
  "remaining (book l y sz) x = remaining l x - (if eo_orderHash x = eo_orderHash y then sz else 0)"
  by (simp add: remaining_def book_def Let_def)

lemma closed_book:
  "get_or (lg_closed (book l y sz)) (a, mid) 0 = get_or (lg_closed l) (a, mid) 0 + reduce_only_part y a mid sz"
  by (auto simp: book_def Let_def reduce_only_part_def)

lemma positions_book [simp]: "lg_positions (book l y sz) = lg_positions l"
  by (simp add: book_def Let_def)

lemma positions_new [simp]: "lg_positions (new_ledger p) = p"
  by (simp add: new_ledger_def)

lemma fillable_le_remaining: "fillable l x \<le> remaining l x \<or> remaining l x \<le> 0"
  by (simp add: fillable_def Let_def)

lemma fillable_nonpos: "remaining l x \<le> 0 \<Longrightarrow> fillable l x \<le> 0"
  by (simp add: fillable_def Let_def)

lemma fillable_pos_remaining: "0 < fillable l x \<Longrightarrow> fillable l x \<le> remaining l x"
  using fillable_le_remaining [of l x] fillable_nonpos [of l x] by linarith

lemma fillable_reduce_only:
  assumes "0 < fillable l x" and "eo_reduceOnly x"
  defines "position \<equiv> get_or (lg_positions l) (eo_owner x) 0"
  shows "position \<noteq> 0 \<and> eo_isLong x \<noteq> (position > 0)
       \<and> fillable l x \<le> \<bar>position\<bar> - get_or (lg_closed l) (eo_owner x, eo_marketId x) 0"
  using assms(1,2) unfolding position_def
  by (auto simp: fillable_def Let_def split: if_splits)

text \<open>\<open>ledger_grows l l'\<close>: \<open>l'\<close> has committed at least what \<open>l\<close> has.\<close>

definition ledger_grows :: "ledger \<Rightarrow> ledger \<Rightarrow> bool" where
  "ledger_grows l l' \<longleftrightarrow> lg_positions l' = lg_positions l
     \<and> (\<forall>x. remaining l' x \<le> remaining l x)
     \<and> (\<forall>k. get_or (lg_closed l) k 0 \<le> get_or (lg_closed l') k 0)"

lemma ledger_grows_refl [simp]: "ledger_grows l l"
  by (simp add: ledger_grows_def)

lemma ledger_grows_trans: "ledger_grows l l' \<Longrightarrow> ledger_grows l' l'' \<Longrightarrow> ledger_grows l l''"
  unfolding ledger_grows_def by (metis order_trans)

lemma ledger_grows_book: "0 \<le> sz \<Longrightarrow> ledger_grows l (book l x sz)"
  by (auto simp: ledger_grows_def remaining_book closed_book reduce_only_part_def)

lemma fillable_antimono: "ledger_grows l l' \<Longrightarrow> fillable l' x \<le> fillable l x"
proof -
  assume g: "ledger_grows l l'"
  then have "remaining l' x \<le> remaining l x"
    and "get_or (lg_closed l) (eo_owner x, eo_marketId x) 0 \<le> get_or (lg_closed l') (eo_owner x, eo_marketId x) 0"
    and "lg_positions l' = lg_positions l"
    by (simp_all add: ledger_grows_def)
  then show ?thesis by (auto simp: fillable_def Let_def)
qed

lemma fillable_exhausted:
  assumes "0 < fillable l x"
  shows "fillable (book l x (fillable l x)) x \<le> 0"
  using assms by (auto simp: fillable_def Let_def remaining_book closed_book reduce_only_part_def min_def)

section \<open>One pair\<close>

text \<open>The match a tradable pair produces; \<open>n\<close> is its sequence number.\<close>

definition trade_of :: "ledger \<Rightarrow> engine_order \<Rightarrow> engine_order \<Rightarrow> int \<Rightarrow> engine_match" where
  "trade_of l bid ask n =
     (let sz = min (fillable l bid) (fillable l ask); maker = maker_of bid ask;
          taker = (if compareArrival bid ask \<le> 0 then ask else bid); price = eo_limitPrice maker
      in \<lparr>em_maker = maker, em_taker = taker, em_size = sz, em_price = price,
          em_notional = notionalOf sz price, em_sequence = n\<rparr>)"

definition pair_key :: "ledger \<Rightarrow> engine_order \<Rightarrow> engine_order \<Rightarrow> hex \<times> hex \<times> int \<times> int" where
  "pair_key l bid ask = (let m = trade_of l bid ask 0
     in (eo_orderHash (em_maker m), eo_orderHash (em_taker m), em_size m, em_price m))"

lemma match_pair_traded:
  assumes "tradable i (ms_ledger st) bid ask"
  defines "l \<equiv> ms_ledger st"
  defines "n \<equiv> get_or (ms_sequences st) (pair_key l bid ask) 0"
  shows "ms_ledger (match_pair i bid ask st)
           = book (book l bid (em_size (trade_of l bid ask n))) ask (em_size (trade_of l bid ask n))"
    and "ms_matches (match_pair i bid ask st) = ms_matches st @ [trade_of l bid ask n]"
    and "ms_sequences (match_pair i bid ask st) = (ms_sequences st)(pair_key l bid ask \<mapsto> n + 1)"
  using assms(1) unfolding n_def l_def
  by (auto simp: match_pair_def trade_of_def pair_key_def tradable_def maker_of_def price_accepted_def
      Let_def skip_pair_def split: option.splits)

lemma match_pair_idle:
  assumes "\<not> tradable i (ms_ledger st) bid ask" and "eo_limitPrice ask \<le> eo_limitPrice bid"
  shows "ms_ledger (match_pair i bid ask st) = ms_ledger st"
    and "ms_matches (match_pair i bid ask st) = ms_matches st"
    and "ms_sequences (match_pair i bid ask st) = ms_sequences st"
  using assms
  by (auto simp: match_pair_def tradable_def maker_of_def price_accepted_def Let_def skip_pair_def
      split: option.splits)

lemma trade_of_sides:
  assumes "eo_isLong bid" and "\<not> eo_isLong ask"
  shows "bid_of (trade_of l bid ask n) = bid" and "ask_of (trade_of l bid ask n) = ask"
  using assms by (simp_all add: trade_of_def bid_of_def ask_of_def maker_of_def Let_def)

lemma trade_of_size: "em_size (trade_of l bid ask n) = min (fillable l bid) (fillable l ask)"
  by (simp add: trade_of_def Let_def)

lemma notionalOf_mono:
  "0 \<le> a \<Longrightarrow> a \<le> b \<Longrightarrow> 0 \<le> price \<Longrightarrow> notionalOf a price \<le> notionalOf b price"
  by (simp add: notionalOf_def PRECISION_def mult_right_mono sdiv_mono)

lemma tradable_antimono:
  assumes "ledger_grows l l'" and "tradable i l' bid ask"
    and "0 < eo_limitPrice bid" and "0 < eo_limitPrice ask"
  shows "tradable i l bid ask"
proof -
  let ?price = "eo_limitPrice (maker_of bid ask)"
  note f = fillable_antimono [OF assms(1)]
  have "0 \<le> ?price" using assms(3,4) by (simp add: maker_of_def)
  moreover have "0 \<le> min (fillable l' bid) (fillable l' ask)" using assms(2) by (simp add: tradable_def)
  moreover have "min (fillable l' bid) (fillable l' ask) \<le> min (fillable l bid) (fillable l ask)"
    using f [of bid] f [of ask] by linarith
  ultimately have "notionalOf (min (fillable l' bid) (fillable l' ask)) ?price
                 \<le> notionalOf (min (fillable l bid) (fillable l ask)) ?price"
    by (intro notionalOf_mono)
  then show ?thesis using assms(2) f [of bid] f [of ask] by (auto simp: tradable_def)
qed

lemma book_grows2: "0 \<le> sz \<Longrightarrow> ledger_grows l (book (book l x sz) y sz)"
  by (blast intro: ledger_grows_book ledger_grows_trans)

lemma match_pair_grows:
  assumes "eo_limitPrice ask \<le> eo_limitPrice bid"
  shows "ledger_grows (ms_ledger st) (ms_ledger (match_pair i bid ask st))"
proof (cases "tradable i (ms_ledger st) bid ask")
  case True
  then have "0 \<le> min (fillable (ms_ledger st) bid) (fillable (ms_ledger st) ask)"
    by (simp add: tradable_def)
  with True show ?thesis by (simp add: match_pair_traded trade_of_size book_grows2)
qed (simp add: match_pair_idle assms)

text \<open>After a pair has been visited it can trade no more: one side is exhausted.\<close>

lemma match_pair_settles:
  assumes "eo_limitPrice ask \<le> eo_limitPrice bid" and "eo_orderHash bid \<noteq> eo_orderHash ask"
  shows "\<not> tradable i (ms_ledger (match_pair i bid ask st)) bid ask"
proof (cases "tradable i (ms_ledger st) bid ask")
  case True
  let ?l = "ms_ledger st"
  let ?sz = "min (fillable ?l bid) (fillable ?l ask)"
  have pos: "0 < fillable ?l bid" "0 < fillable ?l ask" using True by (simp_all add: tradable_def)
  then have grow: "ledger_grows (book ?l bid ?sz) (book (book ?l bid ?sz) ask ?sz)"
    by (simp add: ledger_grows_book)
  have owner: "eo_owner bid \<noteq> eo_owner ask" using True by (simp add: tradable_def)
  then have ask_same: "fillable (book ?l bid sz) ask = fillable ?l ask" for sz
    using assms(2) by (simp add: fillable_def Let_def remaining_book closed_book reduce_only_part_def)
  have "fillable (book (book ?l bid ?sz) ask ?sz) bid \<le> 0
      \<or> fillable (book (book ?l bid ?sz) ask ?sz) ask \<le> 0"
  proof (cases "fillable ?l bid \<le> fillable ?l ask")
    case True
    then have "?sz = fillable ?l bid" by simp
    then show ?thesis using fillable_antimono [OF grow, of bid] fillable_exhausted [OF pos(1)] by simp
  next
    case False
    then have sz: "?sz = fillable (book ?l bid ?sz) ask" by (simp add: ask_same)
    show ?thesis
      using fillable_exhausted [of "book ?l bid ?sz" ask] sz pos(2) by (simp add: ask_same)
  qed
  with True show ?thesis by (auto simp: match_pair_traded trade_of_size tradable_def)
qed (simp add: match_pair_idle assms)

section \<open>The loops\<close>

lemma match_asks_invariant:
  assumes "\<And>ask st. ask \<in> set asks \<Longrightarrow> eo_limitPrice ask \<le> eo_limitPrice bid \<Longrightarrow> P st
             \<Longrightarrow> P (match_pair i bid ask st)"
    and "P st"
  shows "P (match_asks i bid asks st)"
  using assms by (induction asks arbitrary: st) auto

lemma match_bids_invariant:
  assumes "\<And>bid ask st. bid \<in> set bids \<Longrightarrow> ask \<in> set asks \<Longrightarrow> eo_limitPrice ask \<le> eo_limitPrice bid
             \<Longrightarrow> P st \<Longrightarrow> P (match_pair i bid ask st)"
    and "P st"
  shows "P (match_bids i bids asks st)"
  using assms
proof (induction bids arbitrary: st)
  case Nil
  then show ?case by simp
next
  case (Cons bid bids)
  have "P (match_asks i bid asks st)"
    by (rule match_asks_invariant) (use Cons.prems in auto)
  with Cons show ?case by simp
qed

lemma match_asks_grows: "ledger_grows (ms_ledger st) (ms_ledger (match_asks i bid asks st))"
  by (rule match_asks_invariant [where P = "\<lambda>s. ledger_grows (ms_ledger st) (ms_ledger s)"])
    (auto intro: ledger_grows_trans match_pair_grows)

lemma match_bids_grows: "ledger_grows (ms_ledger st) (ms_ledger (match_bids i bids asks st))"
  by (rule match_bids_invariant [where P = "\<lambda>s. ledger_grows (ms_ledger st) (ms_ledger s)"])
    (auto intro: ledger_grows_trans match_pair_grows)

subsection \<open>The eligible orders\<close>

lemma eligible_filter:
  "fst (eligible i l xs) = filter (\<lambda>x. eo_marketId x = ei_marketId i \<and> ineligible i l x = None) xs"
  by (induction xs) (auto simp: Let_def split: prod.splits option.splits)

lemma eligible_orders_eq:
  "eligible_orders i = filter (\<lambda>x. eo_marketId x = ei_marketId i
     \<and> ineligible i (new_ledger (ei_positions i)) x = None) (ei_orders i)"
  by (simp add: eligible_orders_def eligible_filter)

lemma set_sorted_bids [simp]: "set (sorted_bids xs) = {x \<in> set xs. eo_isLong x}"
  by (simp add: sorted_bids_def)

lemma set_sorted_asks [simp]: "set (sorted_asks xs) = {x \<in> set xs. \<not> eo_isLong x}"
  by (simp add: sorted_asks_def)

definition start_state :: "engine_input \<Rightarrow> match_state" where
  "start_state i = \<lparr>ms_ledger = new_ledger (ei_positions i), ms_sequences = Map.empty, ms_matches = [],
     ms_skipped = snd (eligible i (new_ledger (ei_positions i)) (ei_orders i))\<rparr>"

lemma run_match_eq:
  "run_match i = match_bids i (sorted_bids (eligible_orders i)) (sorted_asks (eligible_orders i)) (start_state i)"
  by (simp add: run_match_def eligible_orders_def start_state_def Let_def split: prod.splits)

lemma matches_eq: "er_matches (matchOrders i) = ms_matches (run_match i)"
  by (simp add: matchOrders_def)

lemma eligible_hash_inj:
  assumes "input_ok i"
  shows "inj_on eo_orderHash (set (eligible_orders i))"
  using assms by (auto simp: input_ok_def distinct_map eligible_orders_eq intro: inj_on_subset)

lemma sides_differ:
  assumes "input_ok i" "bid \<in> set (sorted_bids (eligible_orders i))" "ask \<in> set (sorted_asks (eligible_orders i))"
  shows "eo_orderHash bid \<noteq> eo_orderHash ask"
  using assms eligible_hash_inj by (fastforce dest: inj_onD)

lemma eligible_limit_pos: "input_ok i \<Longrightarrow> x \<in> set (eligible_orders i) \<Longrightarrow> 0 < eo_limitPrice x"
  by (auto simp: input_ok_def eligible_orders_eq)

lemma eligible_remaining_pos:
  "x \<in> set (eligible_orders i) \<Longrightarrow> 0 < remaining (new_ledger (ei_positions i)) x"
  by (auto simp: eligible_orders_eq ineligible_def remaining_def new_ledger_def split: if_splits)

subsection \<open>The invariant of a run\<close>

definition good_match :: "engine_input \<Rightarrow> engine_match \<Rightarrow> bool" where
  "good_match i m \<longleftrightarrow>
     {em_maker m, em_taker m} = {bid_of m, ask_of m}
     \<and> bid_of m \<in> set (eligible_orders i) \<and> eo_isLong (bid_of m)
     \<and> ask_of m \<in> set (eligible_orders i) \<and> \<not> eo_isLong (ask_of m)
     \<and> eo_owner (em_maker m) \<noteq> eo_owner (em_taker m)
     \<and> compareArrival (em_maker m) (em_taker m) \<le> 0
     \<and> 0 < em_size m
     \<and> em_price m = eo_limitPrice (em_maker m)
     \<and> eo_limitPrice (ask_of m) \<le> em_price m \<and> em_price m \<le> eo_limitPrice (bid_of m)
     \<and> price_accepted i (em_price m)
     \<and> em_notional m = notionalOf (em_size m) (em_price m)
     \<and> ei_minFillNotional i \<le> em_notional m
     \<and> (eo_reduceOnly (bid_of m) \<longrightarrow> get_or (ei_positions i) (eo_owner (bid_of m)) 0 < 0)
     \<and> (eo_reduceOnly (ask_of m) \<longrightarrow> 0 < get_or (ei_positions i) (eo_owner (ask_of m)) 0)"

definition run_inv :: "engine_input \<Rightarrow> match_state \<Rightarrow> bool" where
  "run_inv i st \<longleftrightarrow>
     ms_ledger st = replay (ei_positions i) (ms_matches st)
     \<and> (\<forall>m \<in> set (ms_matches st). good_match i m)
     \<and> (\<forall>x \<in> set (eligible_orders i). 0 \<le> remaining (ms_ledger st) x)
     \<and> (\<forall>a mid. get_or (lg_closed (ms_ledger st)) (a, mid) 0 \<le> \<bar>get_or (ei_positions i) a 0\<bar>)"

lemma replay_snoc [simp]:
  "replay p (ms @ [m]) = book (book (replay p ms) (bid_of m) (em_size m)) (ask_of m) (em_size m)"
  by (simp add: replay_def)

lemma positions_replay [simp]: "lg_positions (replay p ms) = p"
proof (induction ms rule: rev_induct)
  case Nil
  then show ?case by (simp add: replay_def)
qed simp

lemma remaining_replay:
  "remaining (replay p ms) x = eo_size x - eo_filledSize x - matched_size ms (eo_orderHash x)"
proof (induction ms rule: rev_induct)
  case Nil
  then show ?case by (simp add: replay_def new_ledger_def remaining_def matched_size_def)
next
  case (snoc m ms)
  then show ?case by (auto simp: remaining_book matched_size_def)
qed

lemma closed_replay: "get_or (lg_closed (replay p ms)) (a, mid) 0 = closed_size ms a mid"
proof (induction ms rule: rev_induct)
  case Nil
  then show ?case by (simp add: replay_def new_ledger_def closed_size_def)
next
  case (snoc m ms)
  then show ?case by (simp add: closed_book closed_size_def)
qed

lemma trade_of_good:
  assumes "tradable i l bid ask" and "lg_positions l = ei_positions i"
    and "bid \<in> set (eligible_orders i)" "eo_isLong bid"
    and "ask \<in> set (eligible_orders i)" "\<not> eo_isLong ask"
  shows "good_match i (trade_of l bid ask n)"
proof -
  have b: "bid_of (trade_of l bid ask n) = bid" and a: "ask_of (trade_of l bid ask n) = ask"
    using assms by (simp_all add: trade_of_sides)
  have flip: "compareArrival ask bid \<le> 0" if "\<not> compareArrival bid ask \<le> 0"
    using that arrival.cmp_total by force
  have "eo_reduceOnly bid \<Longrightarrow> get_or (ei_positions i) (eo_owner bid) 0 < 0"
    and "eo_reduceOnly ask \<Longrightarrow> 0 < get_or (ei_positions i) (eo_owner ask) 0"
    using assms fillable_reduce_only [of l bid] fillable_reduce_only [of l ask]
    by (auto simp: tradable_def)
  with assms flip show ?thesis
    unfolding good_match_def b a
    by (auto simp: tradable_def trade_of_def Let_def maker_of_def)
qed

lemma closed_after_trade:
  assumes "tradable i l bid ask"
    and "\<forall>a mid. get_or (lg_closed l) (a, mid) 0 \<le> \<bar>get_or (lg_positions l) a 0\<bar>"
  defines "sz \<equiv> min (fillable l bid) (fillable l ask)"
  shows "get_or (lg_closed (book (book l bid sz) ask sz)) (a, mid) 0 \<le> \<bar>get_or (lg_positions l) a 0\<bar>"
proof -
  have "sz \<le> fillable l bid" "sz \<le> fillable l ask" by (simp_all add: sz_def)
  moreover have "eo_owner bid \<noteq> eo_owner ask" "0 < fillable l bid" "0 < fillable l ask"
    using assms(1) by (simp_all add: tradable_def)
  ultimately show ?thesis
    using assms(2) fillable_reduce_only [of l bid] fillable_reduce_only [of l ask]
    by (auto simp: closed_book reduce_only_part_def)
qed

lemma run_inv_closed:
  "run_inv i st \<Longrightarrow> get_or (lg_closed (ms_ledger st)) (a, mid) 0 \<le> \<bar>get_or (ei_positions i) a 0\<bar>"
  unfolding run_inv_def by blast

lemma run_inv_remaining:
  "run_inv i st \<Longrightarrow> x \<in> set (eligible_orders i) \<Longrightarrow> 0 \<le> remaining (ms_ledger st) x"
  unfolding run_inv_def by blast

lemma run_inv_ledger: "run_inv i st \<Longrightarrow> ms_ledger st = replay (ei_positions i) (ms_matches st)"
  unfolding run_inv_def by blast

lemma run_inv_step:
  assumes ok: "input_ok i" and inv: "run_inv i st"
    and bid: "bid \<in> set (sorted_bids (eligible_orders i))"
    and ask: "ask \<in> set (sorted_asks (eligible_orders i))"
    and crossed: "eo_limitPrice ask \<le> eo_limitPrice bid"
  shows "run_inv i (match_pair i bid ask st)"
proof (cases "tradable i (ms_ledger st) bid ask")
  case False
  show ?thesis using inv unfolding run_inv_def match_pair_idle [OF False crossed] .
next
  case True
  let ?l = "ms_ledger st" and ?st = "match_pair i bid ask st"
  let ?m = "trade_of ?l bid ask (get_or (ms_sequences st) (pair_key ?l bid ask) 0)"
  let ?sz = "min (fillable ?l bid) (fillable ?l ask)"
  have pos: "lg_positions ?l = ei_positions i" using inv by (simp add: run_inv_def)
  have sides: "eo_isLong bid" "\<not> eo_isLong ask" using bid ask by simp_all
  have ledger: "ms_ledger ?st = book (book ?l bid ?sz) ask ?sz"
    using True by (simp add: match_pair_traded trade_of_size)
  have same: "x = y" if "eo_orderHash x = eo_orderHash y" "x \<in> set (eligible_orders i)"
    "y \<in> set (eligible_orders i)" for x y
    using that inj_onD [OF eligible_hash_inj [OF ok]] by blast
  have "0 \<le> remaining (ms_ledger ?st) x" if x: "x \<in> set (eligible_orders i)" for x
  proof -
    have "?sz \<le> remaining ?l bid" "?sz \<le> remaining ?l ask"
      using True fillable_pos_remaining [of ?l bid] fillable_pos_remaining [of ?l ask]
      by (auto simp: tradable_def)
    moreover have "0 \<le> remaining ?l x" using inv x by (rule run_inv_remaining)
    ultimately show ?thesis
      using same [of x bid] same [of x ask] x bid ask sides_differ [OF ok bid ask]
      by (auto simp: ledger remaining_book)
  qed
  moreover have "ms_matches ?st = ms_matches st @ [?m]" using True by (simp add: match_pair_traded)
  moreover have "good_match i ?m" using True pos bid ask sides by (intro trade_of_good) auto
  moreover have "ms_ledger ?st = replay (ei_positions i) (ms_matches st @ [?m])"
    using inv sides True by (simp add: match_pair_traded run_inv_def trade_of_sides)
  moreover have "get_or (lg_closed (ms_ledger ?st)) (a, mid) 0 \<le> \<bar>get_or (ei_positions i) a 0\<bar>" for a mid
    using closed_after_trade [OF True, of a mid] run_inv_closed [OF inv] pos by (simp add: ledger)
  ultimately show ?thesis using inv unfolding run_inv_def by auto
qed

lemma run_inv_start: "run_inv i (start_state i)"
  using eligible_remaining_pos [of _ i]
  by (auto simp: run_inv_def start_state_def replay_def new_ledger_def less_imp_le)

lemma run_inv_run: "input_ok i \<Longrightarrow> run_inv i (run_match i)"
  unfolding run_match_eq by (rule match_bids_invariant) (auto intro: run_inv_step run_inv_start)

section \<open>What a run guarantees\<close>

definition sample_order :: "hex \<Rightarrow> address \<Rightarrow> bool \<Rightarrow> int \<Rightarrow> int \<Rightarrow> bool \<Rightarrow> int \<Rightarrow> engine_order" where
  "sample_order h owner isLong sz limitPrice reduceOnly createdAt =
     \<lparr>eo_orderHash = h, eo_owner = owner, eo_marketId = 1, eo_isLong = isLong, eo_size = sz,
      eo_limitPrice = limitPrice, eo_reduceOnly = reduceOnly, eo_nonce = 0, eo_expiry = 2000,
      eo_filledSize = 0, eo_createdAt = createdAt\<rparr>"

definition sample_input :: "engine_order list \<Rightarrow> engine_input" where
  "sample_input xs = \<lparr>ei_marketId = 1, ei_nowSec = 1000, ei_orders = xs, ei_positions = [''c'' \<mapsto> 5 * PRECISION],
     ei_minValidNonce = Map.empty, ei_minFillNotional = 1, ei_acceptPrice = None\<rparr>"

lemmas sample_defs = sample_order_def sample_input_def input_ok_def

lemmas engine_eval = matchOrders_def run_match_def new_ledger_def eligible.simps ineligible_def
  fillable_def remaining_def sorted_bids_def sorted_asks_def compare_def match_pair_def book_def
  compareArrival_def skip_pair_def notionalOf_def PRECISION_def MAX_ORDER_TTL_SECONDS_def
  Let_def cmp3_def

text \<open>
  C1. Every match the engine emits is one the gateway accepts: a bid and an ask, both
  eligible, of different owners; the maker is the order that arrived first and sets the
  price; the price lies within both limits and is accepted by the price test; the size is
  positive, the notional is \<open>size * price\<close> and reaches the floor; a reduce-only side trades
  against the owner's position.
\<close>

theorem matches_are_valid:
  assumes "input_ok i" and "m \<in> set (er_matches (matchOrders i))"
  shows "good_match i m"
  using run_inv_run [OF assms(1)] assms(2) by (simp add: matches_eq run_inv_def)

definition sample_book :: "engine_order list" where
  "sample_book = [sample_order ''h1'' ''a'' True (3 * PRECISION) (101 * PRECISION) False 10,
                  sample_order ''h2'' ''b'' False (2 * PRECISION) (100 * PRECISION) False 5,
                  sample_order ''h3'' ''c'' False (9 * PRECISION) (100 * PRECISION) True 7]"

lemma sample_book_ok: "input_ok (sample_input sample_book)"
  by (simp add: sample_book_def sample_defs PRECISION_def)

lemma sample_book_matches:
  "map (\<lambda>m. (eo_orderHash (em_maker m), eo_orderHash (em_taker m), em_size m, em_price m))
     (er_matches (matchOrders (sample_input sample_book)))
   = [(''h2'', ''h1'', 2 * PRECISION, 100 * PRECISION), (''h3'', ''h1'', PRECISION, 100 * PRECISION)]"
  by (simp add: sample_book_def sample_defs engine_eval)

theorem matches_are_valid_witness:
  "\<exists>m \<in> set (er_matches (matchOrders (sample_input sample_book))). good_match (sample_input sample_book) m"
proof -
  have "er_matches (matchOrders (sample_input sample_book)) \<noteq> []"
    using sample_book_matches by auto
  then obtain m where "m \<in> set (er_matches (matchOrders (sample_input sample_book)))"
    using last_in_set by blast
  with matches_are_valid [OF sample_book_ok this] show ?thesis by blast
qed

text \<open>
  C2. Liquidity is never sold twice: over a whole run, the sizes matched on an order add up
  to at most what was left of it (its size less what is settled or reserved).
\<close>

theorem no_order_overfilled:
  assumes "input_ok i" and "x \<in> set (eligible_orders i)"
  shows "matched_size (er_matches (matchOrders i)) (eo_orderHash x) \<le> eo_size x - eo_filledSize x"
  using run_inv_remaining [OF run_inv_run [OF assms(1)] assms(2)] run_inv_ledger [OF run_inv_run [OF assms(1)]]
  by (simp add: matches_eq remaining_replay)

theorem no_order_overfilled_witness:
  "matched_size (er_matches (matchOrders (sample_input sample_book))) ''h1'' \<le> 3 * PRECISION"
proof -
  have "sample_order ''h1'' ''a'' True (3 * PRECISION) (101 * PRECISION) False 10
        \<in> set (eligible_orders (sample_input sample_book))"
    by (simp add: eligible_orders_eq sample_book_def sample_defs engine_eval)
  from no_order_overfilled [OF sample_book_ok this] show ?thesis by (simp add: sample_defs)
qed

text \<open>
  C3. Reduce-only orders together close at most the owner's position: for every owner, the
  sizes of their reduce-only orders matched in the run add up to at most the size of the
  position the run was given.
\<close>

theorem reduce_only_within_position:
  assumes "input_ok i"
  shows "closed_size (er_matches (matchOrders i)) a mid \<le> \<bar>get_or (ei_positions i) a 0\<bar>"
  using run_inv_closed [OF run_inv_run [OF assms], of a mid] run_inv_ledger [OF run_inv_run [OF assms]]
  by (simp add: matches_eq closed_replay)

theorem reduce_only_within_position_witness:
  "closed_size (er_matches (matchOrders (sample_input sample_book))) ''c'' 1 \<le> 5 * PRECISION"
  using reduce_only_within_position [OF sample_book_ok, of "''c''" 1]
  by (simp add: sample_input_def get_or_def PRECISION_def)

subsection \<open>Nothing tradable is left, and priority is respected\<close>

lemma match_asks_complete:
  assumes "sorted_wrt (\<lambda>x y. eo_limitPrice x \<le> eo_limitPrice y) asks"
    and "\<forall>ask \<in> set asks. eo_orderHash bid \<noteq> eo_orderHash ask \<and> 0 < eo_limitPrice ask"
    and "0 < eo_limitPrice bid" and "ask \<in> set asks"
  shows "\<not> tradable i (ms_ledger (match_asks i bid asks st)) bid ask"
  using assms
proof (induction asks arbitrary: st)
  case Nil
  then show ?case by simp
next
  case (Cons a asks)
  show ?case
  proof (cases "eo_limitPrice bid < eo_limitPrice a")
    case True
    with Cons.prems have "eo_limitPrice bid < eo_limitPrice ask" by auto
    then show ?thesis by (simp add: tradable_def)
  next
    case crossed: False
    show ?thesis
    proof (cases "remaining (ms_ledger st) bid \<le> 0")
      case True
      then show ?thesis using fillable_nonpos [OF True] by (auto simp: tradable_def)
    next
      case False
      let ?st = "match_pair i bid a st"
      have run: "match_asks i bid (a # asks) st = match_asks i bid asks ?st" using False crossed by simp
      show ?thesis
      proof (cases "ask = a")
        case True
        have "\<not> tradable i (ms_ledger ?st) bid a"
          using crossed Cons.prems(2) by (intro match_pair_settles) auto
        then have "\<not> tradable i (ms_ledger ?st) bid ask" using True by simp
        then show ?thesis unfolding run
          using tradable_antimono [OF match_asks_grows] Cons.prems by blast
      next
        case False
        then show ?thesis unfolding run using Cons by auto
      qed
    qed
  qed
qed

lemma match_bids_complete:
  assumes "sorted_wrt (\<lambda>x y. eo_limitPrice x \<le> eo_limitPrice y) asks"
    and "\<forall>bid \<in> set bids. \<forall>ask \<in> set asks. eo_orderHash bid \<noteq> eo_orderHash ask"
    and "\<forall>x \<in> set bids \<union> set asks. 0 < eo_limitPrice x"
    and "bid \<in> set bids" and "ask \<in> set asks"
  shows "\<not> tradable i (ms_ledger (match_bids i bids asks st)) bid ask"
  using assms
proof (induction bids arbitrary: st)
  case Nil
  then show ?case by simp
next
  case (Cons b bids)
  show ?case
  proof (cases "bid = b")
    case True
    have "\<not> tradable i (ms_ledger (match_asks i b asks st)) b ask"
      using Cons.prems by (intro match_asks_complete) auto
    then show ?thesis
      using tradable_antimono [OF match_bids_grows] Cons.prems True by fastforce
  next
    case False
    then show ?thesis using Cons by auto
  qed
qed

lemma compare_ask_price: "compare a b True \<le> 0 \<Longrightarrow> eo_limitPrice a \<le> eo_limitPrice b"
  by (auto simp: compare_def Let_def split: if_splits)

lemma sorted_asks_price:
  "sorted_wrt (\<lambda>x y. eo_limitPrice x \<le> eo_limitPrice y) (sorted_asks xs)"
  unfolding sorted_asks_def
  by (rule sorted_wrt_mono_rel [OF _ ask_priority.js_sort_sorted]) (rule compare_ask_price)

text \<open>
  C4. The run is complete: when it ends, no eligible bid and ask that cross, belong to
  different owners and have a price the test accepts could still trade a size whose notional
  reaches the floor, on top of what the run matched.
\<close>

theorem no_tradable_pair_left:
  assumes "input_ok i"
    and "bid \<in> set (eligible_orders i)" "eo_isLong bid"
    and "ask \<in> set (eligible_orders i)" "\<not> eo_isLong ask"
  shows "\<not> tradable i (replay (ei_positions i) (er_matches (matchOrders i))) bid ask"
proof -
  have "\<not> tradable i (ms_ledger (run_match i)) bid ask"
    unfolding run_match_eq
    using assms sides_differ [OF assms(1)] eligible_limit_pos [OF assms(1)]
    by (intro match_bids_complete) (auto simp: sorted_asks_price)
  then show ?thesis using run_inv_ledger [OF run_inv_run [OF assms(1)]] by (simp add: matches_eq)
qed

theorem no_tradable_pair_left_witness:
  "\<not> tradable (sample_input sample_book)
       (replay [''c'' \<mapsto> 5 * PRECISION] (er_matches (matchOrders (sample_input sample_book))))
       (sample_order ''h1'' ''a'' True (3 * PRECISION) (101 * PRECISION) False 10)
       (sample_order ''h3'' ''c'' False (9 * PRECISION) (100 * PRECISION) True 7)"
proof -
  let ?b = "sample_order ''h1'' ''a'' True (3 * PRECISION) (101 * PRECISION) False 10"
  let ?a = "sample_order ''h3'' ''c'' False (9 * PRECISION) (100 * PRECISION) True 7"
  have "?b \<in> set (eligible_orders (sample_input sample_book))" "eo_isLong ?b"
    "?a \<in> set (eligible_orders (sample_input sample_book))" "\<not> eo_isLong ?a"
    by (simp_all add: eligible_orders_eq sample_book_def sample_defs engine_eval)
  from no_tradable_pair_left [OF sample_book_ok this] show ?thesis by (simp add: sample_input_def)
qed

text \<open>
  Priority of one match: when it is made, no better-placed ask could still trade with its
  bid, and no bid placed before its bid could trade with anything.
\<close>

definition in_priority :: "engine_input \<Rightarrow> engine_order list \<Rightarrow> engine_order list \<Rightarrow> ledger \<Rightarrow> engine_match \<Rightarrow> bool" where
  "in_priority i bids asks l m \<longleftrightarrow>
     (\<forall>a \<in> set asks. compare a (ask_of m) True < 0 \<longrightarrow> \<not> tradable i l (bid_of m) a)
     \<and> (\<forall>b \<in> set bids. compare b (bid_of m) False < 0 \<longrightarrow> (\<forall>a \<in> set asks. \<not> tradable i l b a))"

definition all_in_priority :: "engine_input \<Rightarrow> engine_order list \<Rightarrow> engine_order list \<Rightarrow> engine_match list \<Rightarrow> bool" where
  "all_in_priority i bids asks ms \<longleftrightarrow>
     (\<forall>ms1 m ms2. ms = ms1 @ m # ms2 \<longrightarrow> in_priority i bids asks (replay (ei_positions i) ms1) m)"

lemma all_in_priority_snoc:
  assumes "all_in_priority i bids asks ms" and "in_priority i bids asks (replay (ei_positions i) ms) m"
  shows "all_in_priority i bids asks (ms @ [m])"
proof -
  have "in_priority i bids asks (replay (ei_positions i) ms1) m'" if "ms @ [m] = ms1 @ m' # ms2" for ms1 m' ms2
  proof (cases ms2 rule: rev_cases)
    case Nil
    then show ?thesis using that assms(2) by simp
  next
    case (snoc xs x)
    then have "ms = ms1 @ m' # xs" using that by simp
    then show ?thesis using assms(1) by (simp add: all_in_priority_def)
  qed
  then show ?thesis by (simp add: all_in_priority_def)
qed

lemma compare_flip: "compare a b asc < 0 \<Longrightarrow> \<not> compare b a asc \<le> 0"
  by (auto simp: compare_def Let_def split: if_splits)

text \<open>Elements that come strictly before a position in priority stand before it in the list.\<close>

lemma before_in_prefix:
  assumes "sorted_wrt (\<lambda>x y. compare x y asc \<le> 0) (pre @ z # post)"
    and "y \<in> set (pre @ z # post)" and "compare y z asc < 0"
  shows "y \<in> set pre"
  using assms compare_flip [OF assms(3)] by (auto simp: sorted_wrt_append)

lemma match_asks_priority:
  fixes i :: engine_input
  defines "bids \<equiv> sorted_bids (eligible_orders i)" and "asks \<equiv> sorted_asks (eligible_orders i)"
  assumes ok: "input_ok i" and bid: "bid \<in> set bids"
    and "asks = pre @ rest" and "run_inv i st"
    and "\<forall>a \<in> set pre. \<not> tradable i (ms_ledger st) bid a"
    and "\<forall>b \<in> set bids. compare b bid False < 0 \<longrightarrow> (\<forall>a \<in> set asks. \<not> tradable i (ms_ledger st) b a)"
    and "all_in_priority i bids asks (ms_matches st)"
  shows "all_in_priority i bids asks (ms_matches (match_asks i bid rest st))"
  using assms(5-)
proof (induction rest arbitrary: pre st)
  case Nil
  then show ?case by simp
next
  case (Cons a rest)
  let ?st = "match_pair i bid a st"
  have a: "a \<in> set asks" using Cons.prems(1) by simp
  have sorted: "sorted_wrt (\<lambda>x y. compare x y True \<le> 0) asks"
    by (simp add: asks_def sorted_asks_def ask_priority.js_sort_sorted)
  have pos: "0 < eo_limitPrice x" if "x \<in> set bids \<union> set asks" for x
    using that eligible_limit_pos [OF ok] by (auto simp: bids_def asks_def)
  show ?case
  proof (cases "eo_limitPrice bid < eo_limitPrice a \<or> remaining (ms_ledger st) bid \<le> 0")
    case True
    then show ?thesis using Cons.prems(5) by auto
  next
    case False
    then have crossed: "eo_limitPrice a \<le> eo_limitPrice bid" by simp
    have "all_in_priority i bids asks (ms_matches ?st)"
    proof (cases "tradable i (ms_ledger st) bid a")
      case True
      let ?m = "trade_of (ms_ledger st) bid a (get_or (ms_sequences st) (pair_key (ms_ledger st) bid a) 0)"
      have "eo_isLong bid" "\<not> eo_isLong a" using bid a by (simp_all add: bids_def asks_def)
      then have "bid_of ?m = bid" "ask_of ?m = a" by (simp_all add: trade_of_sides)
      moreover have "y \<in> set pre" if "y \<in> set asks" "compare y a True < 0" for y
        using before_in_prefix [of True pre a rest y] that sorted Cons.prems(1) by simp
      ultimately have "in_priority i bids asks (replay (ei_positions i) (ms_matches st)) ?m"
        using Cons.prems(3,4) run_inv_ledger [OF Cons.prems(2)] by (auto simp: in_priority_def)
      with Cons.prems(5) True show ?thesis by (simp add: match_pair_traded all_in_priority_snoc)
    qed (simp add: match_pair_idle crossed Cons.prems(5))
    moreover have "run_inv i ?st"
      using run_inv_step [OF ok Cons.prems(2) _ _ crossed] bid a by (simp add: bids_def asks_def)
    moreover have anti: "\<not> tradable i (ms_ledger ?st) b y"
      if "\<not> tradable i (ms_ledger st) b y" "b \<in> set bids" "y \<in> set asks" for b y
      using tradable_antimono [OF match_pair_grows [OF crossed]] that pos by blast
    have "\<not> tradable i (ms_ledger ?st) bid a"
      using match_pair_settles [OF crossed] sides_differ [OF ok] bid a by (simp add: bids_def asks_def)
    then have "\<forall>y \<in> set (pre @ [a]). \<not> tradable i (ms_ledger ?st) bid y"
      using Cons.prems(1,3) anti bid by auto
    moreover have "\<forall>b \<in> set bids. compare b bid False < 0 \<longrightarrow> (\<forall>y \<in> set asks. \<not> tradable i (ms_ledger ?st) b y)"
      using Cons.prems(4) anti by blast
    moreover have "match_asks i bid (a # rest) st = match_asks i bid rest ?st" using False by simp
    ultimately show ?thesis using Cons.IH [of "pre @ [a]" ?st] Cons.prems(1) by simp
  qed
qed

lemma match_bids_priority:
  fixes i :: engine_input
  defines "bids \<equiv> sorted_bids (eligible_orders i)" and "asks \<equiv> sorted_asks (eligible_orders i)"
  assumes ok: "input_ok i" and "bids = seen @ rest" and "run_inv i st"
    and "\<forall>b \<in> set seen. \<forall>a \<in> set asks. \<not> tradable i (ms_ledger st) b a"
    and "all_in_priority i bids asks (ms_matches st)"
  shows "all_in_priority i bids asks (ms_matches (match_bids i rest asks st))"
  using assms(4-)
proof (induction rest arbitrary: seen st)
  case Nil
  then show ?case by simp
next
  case (Cons bid rest)
  let ?st = "match_asks i bid asks st"
  have bid: "bid \<in> set bids" using Cons.prems(1) by simp
  have sorted: "sorted_wrt (\<lambda>x y. compare x y False \<le> 0) bids"
    by (simp add: bids_def sorted_bids_def bid_priority.js_sort_sorted)
  have limits: "\<forall>x \<in> set bids \<union> set asks. 0 < eo_limitPrice x"
    using eligible_limit_pos [OF ok] by (auto simp: bids_def asks_def)
  have "b \<in> set seen" if "b \<in> set bids" "compare b bid False < 0" for b
    using before_in_prefix [of False seen bid rest b] that sorted Cons.prems(1) by simp
  then have earlier: "\<forall>b \<in> set bids. compare b bid False < 0 \<longrightarrow> (\<forall>a \<in> set asks. \<not> tradable i (ms_ledger st) b a)"
    using Cons.prems(3) by blast
  have "all_in_priority i bids asks (ms_matches ?st)"
    using match_asks_priority [OF ok, of bid "[]" asks st] bid Cons.prems(2,4) earlier
    by (simp add: bids_def asks_def)
  moreover have "run_inv i ?st"
    using ok bid Cons.prems(2)
    by (intro match_asks_invariant [where P = "run_inv i"]) (auto simp: bids_def asks_def intro: run_inv_step)
  moreover have "\<not> tradable i (ms_ledger ?st) b a" if "b \<in> set (seen @ [bid])" "a \<in> set asks" for b a
  proof (cases "b = bid")
    case True
    have "\<not> tradable i (ms_ledger ?st) bid a"
      using that(2) limits bid sides_differ [OF ok]
      by (intro match_asks_complete) (auto simp: asks_def bids_def sorted_asks_price)
    with True show ?thesis by simp
  next
    case False
    then have "\<not> tradable i (ms_ledger st) b a" using that Cons.prems(3) by auto
    then show ?thesis
      using tradable_antimono [OF match_asks_grows] limits that Cons.prems(1) False by auto
  qed
  ultimately show ?case using Cons.IH [of "seen @ [bid]" ?st] Cons.prems(1) by simp
qed



section \<open>Determinism\<close>

lemma match_pair_orders [simp]: "match_pair (i\<lparr>ei_orders := xs\<rparr>) bid ask st = match_pair i bid ask st"
  by (simp add: match_pair_def Let_def)

lemma match_asks_orders [simp]: "match_asks (i\<lparr>ei_orders := xs\<rparr>) bid asks st = match_asks i bid asks st"
  by (induction asks arbitrary: st) simp_all

lemma match_bids_orders [simp]: "match_bids (i\<lparr>ei_orders := xs\<rparr>) bids asks st = match_bids i bids asks st"
  by (induction bids arbitrary: st) simp_all

lemma ineligible_orders [simp]: "ineligible (i\<lparr>ei_orders := xs\<rparr>) l x = ineligible i l x"
  by (simp add: ineligible_def)

definition same_book :: "match_state \<Rightarrow> match_state \<Rightarrow> bool" where
  "same_book s t \<longleftrightarrow> ms_ledger s = ms_ledger t \<and> ms_matches s = ms_matches t \<and> ms_sequences s = ms_sequences t"

lemma match_pair_same:
  assumes "same_book s t" and "eo_limitPrice ask \<le> eo_limitPrice bid"
  shows "same_book (match_pair i bid ask s) (match_pair i bid ask t)"
proof (cases "tradable i (ms_ledger t) bid ask")
  case True
  then have "tradable i (ms_ledger s) bid ask" using assms(1) by (simp add: same_book_def)
  with True assms(1) show ?thesis by (simp add: same_book_def match_pair_traded)
next
  case False
  then have "\<not> tradable i (ms_ledger s) bid ask" using assms(1) by (simp add: same_book_def)
  with False assms show ?thesis by (simp add: same_book_def match_pair_idle)
qed

lemma match_asks_same: "same_book s t \<Longrightarrow> same_book (match_asks i bid asks s) (match_asks i bid asks t)"
proof (induction asks arbitrary: s t)
  case (Cons ask asks)
  then have "ms_ledger s = ms_ledger t" by (simp add: same_book_def)
  with Cons show ?case by (simp add: match_pair_same)
qed simp

lemma match_bids_same: "same_book s t \<Longrightarrow> same_book (match_bids i bids asks s) (match_bids i bids asks t)"
  by (induction bids arbitrary: s t) (simp_all add: match_asks_same)

lemma sorted_sides_perm:
  assumes "mset xs = mset ys" and "inj_on eo_orderHash (set xs)"
  shows "sorted_bids xs = sorted_bids ys" and "sorted_asks xs = sorted_asks ys"
  unfolding sorted_bids_def sorted_asks_def using assms
  by (auto intro!: bid_priority.js_sort_perm ask_priority.js_sort_perm simp: inj_on_def)

text \<open>
  The matches are a function of the set of orders: in whatever order the rows arrive from
  the database, the same matches come out in the same sequence, so a replay after a crash
  derives the same fills.
\<close>

theorem matches_ignore_row_order:
  assumes "input_ok i" and "mset xs = mset (ei_orders i)"
  shows "er_matches (matchOrders (i\<lparr>ei_orders := xs\<rparr>)) = er_matches (matchOrders i)"
proof -
  let ?j = "i\<lparr>ei_orders := xs\<rparr>"
  have "mset (eligible_orders ?j) = mset (eligible_orders i)"
    using assms(2) by (simp add: eligible_orders_eq)
  moreover from this have "set (eligible_orders ?j) = set (eligible_orders i)" by (rule mset_eq_setD)
  ultimately have "sorted_bids (eligible_orders ?j) = sorted_bids (eligible_orders i)"
    "sorted_asks (eligible_orders ?j) = sorted_asks (eligible_orders i)"
    using eligible_hash_inj [OF assms(1)] by (auto intro: sorted_sides_perm)
  moreover have "same_book (start_state ?j) (start_state i)" by (simp add: same_book_def start_state_def)
  ultimately have "same_book (run_match ?j) (run_match i)"
    unfolding run_match_eq by (simp add: match_bids_same)
  then show ?thesis by (simp add: matches_eq same_book_def)
qed

theorem matches_ignore_row_order_witness:
  "er_matches (matchOrders (sample_input (rev sample_book))) = er_matches (matchOrders (sample_input sample_book))"
  using matches_ignore_row_order [OF sample_book_ok, of "rev sample_book"]
  by (simp add: sample_input_def)

text \<open>
  The sequence number of a match counts earlier matches with the same orders, size and price.
  A run visits every pair of orders at most once, so all of its matches have sequence zero and
  no two of them are between the same orders.
\<close>

definition pair_of :: "engine_match \<Rightarrow> hex \<times> hex" where
  "pair_of m = (eo_orderHash (bid_of m), eo_orderHash (ask_of m))"

definition seq_inv :: "match_state \<Rightarrow> bool" where
  "seq_inv st \<longleftrightarrow> distinct (map pair_of (ms_matches st))
     \<and> (\<forall>m \<in> set (ms_matches st). em_sequence m = 0)
     \<and> (\<forall>h1 h2 sz price. ms_sequences st (h1, h2, sz, price) \<noteq> None
          \<longrightarrow> (h1, h2) \<in> pair_of ` set (ms_matches st) \<or> (h2, h1) \<in> pair_of ` set (ms_matches st))"

text \<open>Pairs are visited in the order of the double loop; \<open>unseen\<close> says a pair has not traded yet.\<close>

definition unseen :: "engine_order \<Rightarrow> engine_order \<Rightarrow> match_state \<Rightarrow> bool" where
  "unseen bid ask st \<longleftrightarrow>
     (eo_orderHash bid, eo_orderHash ask) \<notin> pair_of ` set (ms_matches st)
     \<and> (eo_orderHash ask, eo_orderHash bid) \<notin> pair_of ` set (ms_matches st)"

lemma match_pair_seq:
  assumes "seq_inv st" and "unseen bid ask st" and "eo_limitPrice ask \<le> eo_limitPrice bid"
    and "eo_isLong bid" and "\<not> eo_isLong ask"
  shows "seq_inv (match_pair i bid ask st)"
    and "pair_of ` set (ms_matches (match_pair i bid ask st))
         \<subseteq> insert (eo_orderHash bid, eo_orderHash ask) (pair_of ` set (ms_matches st))"
proof -
  let ?l = "ms_ledger st"
  let ?k = "pair_key ?l bid ask"
  let ?m = "trade_of ?l bid ask (get_or (ms_sequences st) ?k 0)"
  have pair: "pair_of (trade_of ?l bid ask n) = (eo_orderHash bid, eo_orderHash ask)" for n
    using assms(4,5) by (simp add: pair_of_def trade_of_sides)
  have key: "?k = (eo_orderHash bid, eo_orderHash ask, em_size ?m, em_price ?m)
           \<or> ?k = (eo_orderHash ask, eo_orderHash bid, em_size ?m, em_price ?m)"
    by (simp add: pair_key_def trade_of_def maker_of_def Let_def)
  have "ms_sequences st ?k = None"
    using key assms(1,2) unfolding seq_inv_def unseen_def by metis
  then have zero: "get_or (ms_sequences st) ?k 0 = 0" by (simp add: js_simps)
  have "seq_inv (match_pair i bid ask st) \<and> pair_of ` set (ms_matches (match_pair i bid ask st))
         \<subseteq> insert (eo_orderHash bid, eo_orderHash ask) (pair_of ` set (ms_matches st))"
  proof (cases "tradable i ?l bid ask")
    case True
    let ?st = "match_pair i bid ask st"
    have ms: "ms_matches ?st = ms_matches st @ [?m]" using True by (rule match_pair_traded)
    have "em_sequence ?m = 0" using zero by (simp add: trade_of_def Let_def)
    then have "distinct (map pair_of (ms_matches ?st)) \<and> (\<forall>m \<in> set (ms_matches ?st). em_sequence m = 0)"
      using assms(1,2) pair by (auto simp: ms seq_inv_def unseen_def)
    moreover have "(h1, h2) \<in> pair_of ` set (ms_matches ?st) \<or> (h2, h1) \<in> pair_of ` set (ms_matches ?st)"
      if "ms_sequences ?st (h1, h2, sz, price) \<noteq> None" for h1 h2 sz price
    proof (cases "(h1, h2, sz, price) = ?k")
      case True
      then have "(h1, h2) = (eo_orderHash bid, eo_orderHash ask) \<or> (h1, h2) = (eo_orderHash ask, eo_orderHash bid)"
        using key by (metis prod.inject)
      then show ?thesis using pair [of "get_or (ms_sequences st) ?k 0"]
        by (elim disjE) (simp_all add: ms)
    next
      case False
      then have "ms_sequences st (h1, h2, sz, price) \<noteq> None"
        using that match_pair_traded(3) [OF True] by simp
      then have "(h1, h2) \<in> pair_of ` set (ms_matches st) \<or> (h2, h1) \<in> pair_of ` set (ms_matches st)"
        using assms(1) unfolding seq_inv_def by blast
      then show ?thesis by (auto simp: ms)
    qed
    moreover have "pair_of ` set (ms_matches ?st)
        = insert (eo_orderHash bid, eo_orderHash ask) (pair_of ` set (ms_matches st))"
      using pair by (simp add: ms)
    ultimately show ?thesis unfolding seq_inv_def by blast
  next
    case False
    with assms(1,3) show ?thesis by (auto simp: seq_inv_def match_pair_idle)
  qed
  then show "seq_inv (match_pair i bid ask st)"
    and "pair_of ` set (ms_matches (match_pair i bid ask st))
         \<subseteq> insert (eo_orderHash bid, eo_orderHash ask) (pair_of ` set (ms_matches st))" by blast+
qed

lemma unseen_extend:
  assumes "unseen b a st" and "pair_of ` set (ms_matches st') \<subseteq> S \<union> pair_of ` set (ms_matches st)"
    and "(eo_orderHash b, eo_orderHash a) \<notin> S" and "(eo_orderHash a, eo_orderHash b) \<notin> S"
  shows "unseen b a st'"
  using assms unfolding unseen_def by (meson UnE subsetD)

lemma pairs_step:
  "A \<subseteq> ({h} \<times> H) \<union> B \<Longrightarrow> B \<subseteq> insert (h, k) C \<Longrightarrow> A \<subseteq> ({h} \<times> insert k H) \<union> C"
  by blast

lemma match_asks_seq:
  assumes "seq_inv st" and "\<forall>a \<in> set asks. unseen bid a st"
    and "eo_isLong bid" and "\<forall>a \<in> set asks. \<not> eo_isLong a \<and> eo_orderHash bid \<noteq> eo_orderHash a"
    and "distinct (map eo_orderHash asks)"
  shows "seq_inv (match_asks i bid asks st)
    \<and> pair_of ` set (ms_matches (match_asks i bid asks st))
      \<subseteq> ({eo_orderHash bid} \<times> eo_orderHash ` set asks) \<union> pair_of ` set (ms_matches st)"
  using assms
proof (induction asks arbitrary: st)
  case Nil
  then show ?case by simp
next
  case (Cons a asks)
  show ?case
  proof (cases "eo_limitPrice bid < eo_limitPrice a \<or> remaining (ms_ledger st) bid \<le> 0")
    case True
    then show ?thesis using Cons.prems(1) by auto
  next
    case False
    let ?st = "match_pair i bid a st"
    have seq: "seq_inv ?st" and sub: "pair_of ` set (ms_matches ?st)
         \<subseteq> insert (eo_orderHash bid, eo_orderHash a) (pair_of ` set (ms_matches st))"
      using match_pair_seq [of st bid a i] Cons.prems False by auto
    have "unseen bid y ?st" if y: "y \<in> set asks" for y
    proof -
      have "eo_orderHash a \<notin> eo_orderHash ` set asks" using Cons.prems(5) by simp
      then have "eo_orderHash y \<noteq> eo_orderHash a" using y by (metis imageI)
      moreover have "unseen bid y st" "eo_orderHash bid \<noteq> eo_orderHash y" using y Cons.prems by simp_all
      ultimately show ?thesis
        using unseen_extend [of bid y st ?st "{(eo_orderHash bid, eo_orderHash a)}"] sub by simp
    qed
    then have rest: "seq_inv (match_asks i bid asks ?st)
      \<and> pair_of ` set (ms_matches (match_asks i bid asks ?st))
        \<subseteq> ({eo_orderHash bid} \<times> eo_orderHash ` set asks) \<union> pair_of ` set (ms_matches ?st)"
      using seq Cons.prems by (intro Cons.IH) auto
    then show ?thesis using pairs_step [OF conjunct2 [OF rest] sub] False by simp
  qed
qed

lemma match_bids_seq:
  assumes "seq_inv st" and "\<forall>b \<in> set bids. \<forall>a \<in> set asks. unseen b a st"
    and "\<forall>b \<in> set bids. eo_isLong b" and "\<forall>a \<in> set asks. \<not> eo_isLong a"
    and "\<forall>b \<in> set bids. \<forall>a \<in> set asks. eo_orderHash b \<noteq> eo_orderHash a"
    and "distinct (map eo_orderHash bids)" and "distinct (map eo_orderHash asks)"
  shows "seq_inv (match_bids i bids asks st)"
  using assms
proof (induction bids arbitrary: st)
  case Nil
  then show ?case by simp
next
  case (Cons b bids)
  let ?st = "match_asks i b asks st"
  have seq: "seq_inv ?st" and sub: "pair_of ` set (ms_matches ?st)
      \<subseteq> ({eo_orderHash b} \<times> eo_orderHash ` set asks) \<union> pair_of ` set (ms_matches st)"
    using match_asks_seq [of st asks b i] Cons.prems by auto
  have "unseen b' a ?st" if "b' \<in> set bids" "a \<in> set asks" for b' a
  proof -
    have "eo_orderHash b \<notin> eo_orderHash ` set bids" using Cons.prems(6) by simp
    then have "eo_orderHash b' \<noteq> eo_orderHash b" using that by (metis imageI)
    moreover have "eo_orderHash b \<noteq> eo_orderHash a" "unseen b' a st"
      "eo_orderHash b \<notin> eo_orderHash ` set asks"
      using that Cons.prems by auto
    ultimately show ?thesis using unseen_extend [OF _ sub, of b' a] by auto
  qed
  then have "seq_inv (match_bids i bids asks ?st)"
    using seq Cons.prems by (intro Cons.IH) auto
  then show ?case by simp
qed

text \<open>
  A run matches a pair of orders at most once, and every match has sequence number zero.
\<close>

theorem pairs_match_once:
  assumes "input_ok i"
  shows "distinct (map pair_of (er_matches (matchOrders i)))
       \<and> (\<forall>m \<in> set (er_matches (matchOrders i)). em_sequence m = 0)"
proof -
  have "distinct (map eo_orderHash (eligible_orders i))"
    using assms by (simp add: input_ok_def eligible_orders_eq distinct_map_filter)
  then have "distinct (map eo_orderHash (sorted_bids (eligible_orders i)))"
    "distinct (map eo_orderHash (sorted_asks (eligible_orders i)))"
    by (simp_all add: sorted_bids_def sorted_asks_def distinct_map inj_on_def)
  moreover have "seq_inv (start_state i)" by (simp add: seq_inv_def start_state_def)
  moreover have "unseen b a (start_state i)" for b a by (simp add: unseen_def start_state_def)
  ultimately have "seq_inv (run_match i)"
    unfolding run_match_eq using sides_differ [OF assms] by (intro match_bids_seq) auto
  then show ?thesis by (simp add: seq_inv_def matches_eq)
qed

theorem pairs_match_once_witness:
  "distinct (map pair_of (er_matches (matchOrders (sample_input sample_book))))"
  using pairs_match_once [OF sample_book_ok] by blast

section \<open>A limit of the reduce-only ledger\<close>

text \<open>A book with one buyer, and one seller resting a plain and a reduce-only sell.\<close>

definition mixed_close_book :: "engine_order list" where
  "mixed_close_book = [sample_order ''h1'' ''a'' True (10 * PRECISION) (100 * PRECISION) False 1,
     sample_order ''h2'' ''c'' False (5 * PRECISION) (100 * PRECISION) False 2,
     sample_order ''h3'' ''c'' False (5 * PRECISION) (100 * PRECISION) True 3]"

text \<open>
  The ledger counts only closes booked by reduce-only orders. An owner whose position is
  long five units and who rests both a plain sell and a reduce-only sell of five can have both
  filled in one run: ten units are sold against a position of five, so the same position is
  committed twice and the gateway can settle only one of the two fills as a close.
\<close>

theorem plain_and_reduce_only_oversell:
  "get_or (ei_positions (sample_input mixed_close_book)) ''c'' 0 = 5 * PRECISION
   \<and> (\<Sum>m\<leftarrow>er_matches (matchOrders (sample_input mixed_close_book)).
        if eo_owner (ask_of m) = ''c'' then em_size m else 0) = 10 * PRECISION
   \<and> closed_size (er_matches (matchOrders (sample_input mixed_close_book))) ''c'' 1 = 5 * PRECISION"
  by (simp add: mixed_close_book_def sample_defs engine_eval ask_of_def bid_of_def closed_size_def
      reduce_only_part_def)

end
