(* ===== verification/Tx_Store.thy ===== *)
theory Tx_Store
  imports Kryon_Prelude
begin

text \<open>
  The durable record of every transaction a service key signs,
  \<open>client/lib/chain/tx-store.ts\<close>. \<open>MemoryTxJobStore\<close> keeps its jobs in an
  insertion-ordered \<open>Map\<close>; here the map is the list of its values, in that order, with
  distinct ids. Dates are milliseconds. A patch has one optional field per field that the
  code lets a caller change; an absent field leaves the job's own value.
\<close>

section \<open>Jobs\<close>

datatype tx_status = Pending | Submitted | Replaced | Confirmed | Reverted | Dropped | Failed

definition OPEN_TX_STATUSES :: "tx_status list" where
  "OPEN_TX_STATUSES = [Pending, Submitted]"

record tx_job =
  tj_id :: string
  tj_network :: string
  tj_service :: string
  tj_label :: string
  tj_fromAddress :: address
  tj_toAddress :: address
  tj_nonce :: int
  tj_data :: hex
  tj_value :: int
  tj_gasLimit :: int
  tj_maxFeePerGas :: int
  tj_maxPriorityFeePerGas :: int
  tj_rawTx :: hex
  tj_submittedHash :: hex
  tj_replacedByHash :: "hex option"
  tj_status :: tx_status
  tj_gasUsed :: "int option"
  tj_effectiveGasPrice :: "int option"
  tj_blockNumber :: "int option"
  tj_error :: "string option"
  tj_createdAt :: int
  tj_updatedAt :: int

record tx_patch =
  tp_status :: "tx_status option"
  tp_replacedByHash :: "hex option"
  tp_gasUsed :: "int option"
  tp_effectiveGasPrice :: "int option"
  tp_blockNumber :: "int option"
  tp_error :: "string option"

definition status_patch :: "tx_status \<Rightarrow> tx_patch" where
  "status_patch s = \<lparr>tp_status = Some s, tp_replacedByHash = None, tp_gasUsed = None,
     tp_effectiveGasPrice = None, tp_blockNumber = None, tp_error = None\<rparr>"

text \<open>A present field of a patch replaces the job's: \<open>{ ...job, ...patch }\<close>.\<close>

definition over :: "'a option \<Rightarrow> 'a option \<Rightarrow> 'a option" where
  "over new old = (case new of None \<Rightarrow> old | Some v \<Rightarrow> Some v)"

definition apply_patch :: "tx_patch \<Rightarrow> int \<Rightarrow> tx_job \<Rightarrow> tx_job" where
  "apply_patch p now j = j\<lparr>
     tj_status := (case tp_status p of None \<Rightarrow> tj_status j | Some s \<Rightarrow> s),
     tj_replacedByHash := over (tp_replacedByHash p) (tj_replacedByHash j),
     tj_gasUsed := over (tp_gasUsed p) (tj_gasUsed j),
     tj_effectiveGasPrice := over (tp_effectiveGasPrice p) (tj_effectiveGasPrice j),
     tj_blockNumber := over (tp_blockNumber p) (tj_blockNumber j),
     tj_error := over (tp_error p) (tj_error j),
     tj_updatedAt := now\<rparr>"

section \<open>The in-memory store\<close>

type_synonym tx_store = "tx_job list"

datatype store_error = Job_exists string | Job_not_found string

definition has_job :: "tx_store \<Rightarrow> string \<Rightarrow> bool" where
  "has_job s i \<longleftrightarrow> i \<in> set (map tj_id s)"

definition job_insert :: "tx_job \<Rightarrow> tx_store \<Rightarrow> store_error + tx_store" where
  "job_insert j s = (if has_job s (tj_id j) then Inl (Job_exists (tj_id j)) else Inr (s @ [j]))"

definition job_update :: "string \<Rightarrow> tx_patch \<Rightarrow> int \<Rightarrow> tx_store \<Rightarrow> store_error + tx_store" where
  "job_update i p now s =
     (if \<not> has_job s i then Inl (Job_not_found i)
      else Inr (map (\<lambda>j. if tj_id j = i then apply_patch p now j else j) s))"

definition sameAddress :: "address \<Rightarrow> address \<Rightarrow> bool" where
  "sameAddress a b \<longleftrightarrow> lower a = lower b"

definition is_open :: "tx_job \<Rightarrow> bool" where
  "is_open j \<longleftrightarrow> tj_status j \<in> set OPEN_TX_STATUSES"

definition by_nonce_then_age :: "tx_job \<Rightarrow> tx_job \<Rightarrow> int" where
  "by_nonce_then_age a b = cmp_then (tj_nonce a - tj_nonce b) (tj_createdAt a - tj_createdAt b)"

definition by_age :: "tx_job \<Rightarrow> tx_job \<Rightarrow> int" where
  "by_age a b = tj_createdAt a - tj_createdAt b"

definition openJobs :: "tx_store \<Rightarrow> string \<Rightarrow> address \<Rightarrow> tx_job list" where
  "openJobs s network from = js_sort by_nonce_then_age
     (filter (\<lambda>j. tj_network j = network \<and> sameAddress (tj_fromAddress j) from \<and> is_open j) s)"

definition byNonce :: "tx_store \<Rightarrow> string \<Rightarrow> address \<Rightarrow> int \<Rightarrow> tx_job list" where
  "byNonce s network from nonce = js_sort by_age
     (filter (\<lambda>j. tj_network j = network \<and> sameAddress (tj_fromAddress j) from \<and> tj_nonce j = nonce) s)"

section \<open>The store as its callers see it\<close>

definition store_ok :: "tx_store \<Rightarrow> bool" where
  "store_ok s \<longleftrightarrow> distinct (map tj_id s)"

definition job_row :: "tx_store \<Rightarrow> string \<Rightarrow> tx_job option" where
  "job_row s i = find (\<lambda>j. tj_id j = i) s"

text \<open>
  The contract of \<open>interface TxJobStore\<close>: a partial map from ids to jobs, where \<open>insert\<close>
  adds a fresh id, \<open>update\<close> changes one row and nothing else, and the two queries return
  exactly the rows they name. A store may keep a job, and a patch, in a normal form of its own
  (\<open>norm\<close>, \<open>pnorm\<close>) that changes neither the id nor the status: the database lowers hex text.
\<close>

locale tx_job_store =
  fixes ins :: "tx_job \<Rightarrow> 's \<Rightarrow> store_error + 's"
    and upd :: "string \<Rightarrow> tx_patch \<Rightarrow> int \<Rightarrow> 's \<Rightarrow> store_error + 's"
    and opens :: "'s \<Rightarrow> string \<Rightarrow> address \<Rightarrow> tx_job list"
    and attempts :: "'s \<Rightarrow> string \<Rightarrow> address \<Rightarrow> int \<Rightarrow> tx_job list"
    and row :: "'s \<Rightarrow> string \<Rightarrow> tx_job option"
    and ok :: "'s \<Rightarrow> bool"
    and norm :: "tx_job \<Rightarrow> tx_job"
    and pnorm :: "tx_patch \<Rightarrow> tx_patch"
  assumes insert_law: "ok s \<Longrightarrow> row s (tj_id j) = None \<Longrightarrow>
      \<exists>s'. ins j s = Inr s' \<and> ok s' \<and> row s' = (row s)(tj_id j \<mapsto> norm j)"
    and insert_taken: "ok s \<Longrightarrow> row s (tj_id j) \<noteq> None \<Longrightarrow> ins j s = Inl (Job_exists (tj_id j))"
    and update_law: "ok s \<Longrightarrow> row s i = Some j \<Longrightarrow>
      \<exists>s'. upd i p now s = Inr s' \<and> ok s' \<and> row s' = (row s)(i \<mapsto> apply_patch (pnorm p) now j)"
    and update_missing: "ok s \<Longrightarrow> row s i = None \<Longrightarrow> upd i p now s = Inl (Job_not_found i)"
    and row_id: "ok s \<Longrightarrow> row s i = Some j \<Longrightarrow> tj_id j = i"
    and opens_law: "ok s \<Longrightarrow> set (opens s n a) =
      {j. row s (tj_id j) = Some j \<and> tj_network j = n \<and> sameAddress (tj_fromAddress j) a \<and> is_open j}"
    and attempts_law: "ok s \<Longrightarrow> set (attempts s n a k) =
      {j. row s (tj_id j) = Some j \<and> tj_network j = n \<and> sameAddress (tj_fromAddress j) a \<and> tj_nonce j = k}"
    and norm_law: "tj_id (norm j) = tj_id j \<and> tj_network (norm j) = tj_network j \<and> tj_status (norm j) = tj_status j
      \<and> sameAddress (tj_fromAddress (norm j)) (tj_fromAddress j)"
    and pnorm_law: "tp_status (pnorm p) = tp_status p"
begin

lemma insert_cases:
  assumes "ok s"
  obtains (taken) "ins j s = Inl (Job_exists (tj_id j))" "row s (tj_id j) \<noteq> None"
  | (fresh) s' where "ins j s = Inr s'" "ok s'" "row s' = (row s)(tj_id j \<mapsto> norm j)" "row s (tj_id j) = None"
  using insert_law [OF assms, of j] insert_taken [OF assms, of j] by (cases "row s (tj_id j)") blast+

lemma update_cases:
  assumes "ok s"
  obtains (missing) "upd i p now s = Inl (Job_not_found i)" "row s i = None"
  | (present) s' j where "upd i p now s = Inr s'" "ok s'" "row s i = Some j"
      "row s' = (row s)(i \<mapsto> apply_patch (pnorm p) now j)"
  using update_law [OF assms] update_missing [OF assms] by (cases "row s i") blast+

lemma insert_result:
  "ok s \<Longrightarrow> ins j s = Inr s' \<Longrightarrow> ok s' \<and> row s' = (row s)(tj_id j \<mapsto> norm j) \<and> row s (tj_id j) = None"
  by (erule insert_cases [of s j]) auto

lemma update_result:
  "ok s \<Longrightarrow> upd i p now s = Inr s' \<Longrightarrow>
   ok s' \<and> (\<exists>j. row s i = Some j \<and> row s' = (row s)(i \<mapsto> apply_patch (pnorm p) now j))"
  by (erule update_cases [of s i p now]) auto

text \<open>A crash after \<open>insert\<close> loses nothing: an inserted open job is found again.\<close>

lemma inserted_job_is_found:
  assumes "ok s" and "ins j s = Inr s'" and "is_open j"
  shows "norm j \<in> set (opens s' (tj_network j) (tj_fromAddress j))"
  using insert_result [OF assms(1,2)] assms(3) norm_law [of j] by (simp add: opens_law is_open_def)

lemma closed_job_is_gone:
  assumes "ok s" and "upd i p now s = Inr s'" and "tp_status p = Some st" "st \<notin> set OPEN_TX_STATUSES"
  shows "i \<notin> tj_id ` set (opens s' n a)"
proof
  assume "i \<in> tj_id ` set (opens s' n a)"
  then obtain j where j: "j \<in> set (opens s' n a)" "tj_id j = i" by auto
  from update_result [OF assms(1,2)] obtain j0
    where "ok s'" "row s' = (row s)(i \<mapsto> apply_patch (pnorm p) now j0)" by auto
  with j assms(3,4) show False by (auto simp: opens_law is_open_def apply_patch_def pnorm_law)
qed

lemma update_preserves_others:
  "ok s \<Longrightarrow> upd i p now s = Inr s' \<Longrightarrow> k \<noteq> i \<Longrightarrow> row s' k = row s k"
  using update_result by fastforce

end

interpretation nonce_age: comparator by_nonce_then_age
  by unfold_locales (auto simp: by_nonce_then_age_def cmp_then_def split: if_splits)

interpretation age: comparator by_age
  by unfold_locales (auto simp: by_age_def)

lemma job_row_Some: "store_ok s \<Longrightarrow> job_row s i = Some j \<longleftrightarrow> j \<in> set s \<and> tj_id j = i"
  unfolding job_row_def store_ok_def by (induction s) auto

lemma job_row_None: "job_row s i = None \<longleftrightarrow> i \<notin> tj_id ` set s"
  unfolding job_row_def by (induction s) auto

lemma job_row_append: "job_row (s @ t) i = (case job_row s i of None \<Rightarrow> job_row t i | Some j \<Rightarrow> Some j)"
  unfolding job_row_def by (induction s) auto

lemma job_row_single: "job_row [j] i = (if tj_id j = i then Some j else None)"
  by (simp add: job_row_def)

lemma job_row_snoc: "job_row s (tj_id j) = None \<Longrightarrow> job_row (s @ [j]) = (job_row s)(tj_id j \<mapsto> j)"
  by (auto simp: job_row_append fun_eq_iff job_row_single split: option.splits)

lemma job_row_map:
  assumes "\<And>j. tj_id (f j) = tj_id j"
  shows "job_row (map f s) i = map_option f (job_row s i)"
  unfolding job_row_def using assms by (induction s) auto

lemma tj_id_apply_patch [simp]: "tj_id (apply_patch p now j) = tj_id j"
  by (simp add: apply_patch_def)

text \<open>Patching the row of one id.\<close>

lemma patched_store:
  assumes ok: "store_ok s" and row: "job_row s i = Some j"
  shows "store_ok (map (\<lambda>j. if tj_id j = i then apply_patch p now j else j) s)
    \<and> job_row (map (\<lambda>j. if tj_id j = i then apply_patch p now j else j) s) = (job_row s)(i \<mapsto> apply_patch p now j)"
proof -
  let ?f = "\<lambda>j. if tj_id j = i then apply_patch p now j else j"
  have "store_ok (map ?f s)" using ok by (simp add: store_ok_def comp_def if_distrib cong: if_cong)
  moreover have "job_row (map ?f s) k = ((job_row s)(i \<mapsto> apply_patch p now j)) k" for k
  proof (cases "k = i")
    case True
    then show ?thesis using row job_row_Some [OF ok, of i j] by (simp add: job_row_map)
  next
    case False
    then have "tj_id x \<noteq> i" if "job_row s k = Some x" for x
      using that job_row_Some [OF ok, of k x] by simp
    with False show ?thesis by (cases "job_row s k") (simp_all add: job_row_map)
  qed
  ultimately show ?thesis by (simp add: fun_eq_iff)
qed

interpretation mem: tx_job_store job_insert job_update openJobs byNonce job_row store_ok "\<lambda>j. j" "\<lambda>p. p"
proof unfold_locales
  fix s :: tx_store and j i p now
  show "store_ok s \<Longrightarrow> job_row s (tj_id j) = None \<Longrightarrow>
      \<exists>s'. job_insert j s = Inr s' \<and> store_ok s' \<and> job_row s' = (job_row s)(tj_id j \<mapsto> j)"
    by (rule exI [of _ "s @ [j]"])
      (simp add: job_row_snoc, simp add: job_insert_def has_job_def store_ok_def job_row_None)
  show "store_ok s \<Longrightarrow> job_row s (tj_id j) \<noteq> None \<Longrightarrow> job_insert j s = Inl (Job_exists (tj_id j))"
    by (simp only: job_row_None not_not) (simp add: job_insert_def has_job_def)
  assume ok: "store_ok s"
  show "job_update i p now s = Inl (Job_not_found i)" if "job_row s i = None"
    using that by (simp add: job_row_None job_update_def has_job_def)
  show "\<exists>s'. job_update i p now s = Inr s' \<and> store_ok s' \<and> job_row s' = (job_row s)(i \<mapsto> apply_patch p now j)"
    if row: "job_row s i = Some j"
  proof -
    have "has_job s i" using row ok by (auto simp: job_row_Some has_job_def)
    with patched_store [OF ok row] show ?thesis by (simp add: job_update_def)
  qed
qed (auto simp: job_row_Some openJobs_def byNonce_def sameAddress_def)

end
