(* ===== verification/Matcher_Book.thy ===== *)
theory Matcher_Book
  imports Matching_Engine Tx_Store
begin

text \<open>
  Loading one market's book, \<open>client/lib/matcher/book.ts\<close>, with the reservation query of
  \<open>client/lib/queries/orders.ts\<close>. The database is a record of tables, each a list of rows
  with the columns the code reads and writes; a query is the list operation its SQL text
  denotes. Amounts are integers (the \<open>Decimal(78, 0)\<close> columns the code reads as text), dates
  are milliseconds.

  A market's \<open>params\<close> is the JSON object the indexer stored: a partial map from its keys to
  their integer values. \<open>getAddress\<close> (the checksum form of an address) is a parameter.
\<close>

section \<open>Tables\<close>

datatype order_status = OPEN | PARTIALLY_FILLED | FILLED | CANCELLED | EXPIRED
datatype fill_status = PENDING | SETTLED | REJECTED

record market_row =
  mr_network :: string
  mr_id :: int
  mr_symbol :: string
  mr_oracleId :: hex
  mr_active :: bool
  mr_params :: "string \<Rightarrow> int option"
  mr_paramsOracleId :: "hex option"

record order_row =
  ow_network :: string
  ow_orderHash :: hex
  ow_owner :: address
  ow_marketId :: int
  ow_isLong :: bool
  ow_size :: int
  ow_limitPrice :: int
  ow_reduceOnly :: bool
  ow_nonce :: int
  ow_expiry :: int
  ow_referrer :: "address option"
  ow_signature :: hex
  ow_status :: order_status
  ow_filledSize :: int
  ow_createdAt :: int

record fill_row =
  fl_network :: string
  fl_fillId :: hex
  fl_status :: fill_status
  fl_rejectReason :: "string option"
  fl_marketId :: int
  fl_maker :: address
  fl_taker :: address
  fl_makerOrderHash :: hex
  fl_takerOrderHash :: hex
  fl_takerIsBuy :: bool
  fl_size :: int
  fl_price :: int
  fl_txJobId :: "string option"
  fl_createdAt :: int

record position_row =
  pr_network :: string
  pr_trader :: address
  pr_marketId :: int
  pr_size :: int

record account_row =
  ac_network :: string
  ac_address :: address
  ac_minValidNonce :: int

record db =
  db_markets :: "market_row list"
  db_orders :: "order_row list"
  db_fills :: "fill_row list"
  db_positions :: "position_row list"
  db_accounts :: "account_row list"

section \<open>Market parameters\<close>

record market_config =
  mc_marketId :: int
  mc_symbol :: string
  mc_oracleId :: hex
  mc_active :: bool
  mc_minFillNotional :: int
  mc_maxExecutionDeviationBps :: int
  mc_maxOracleAge :: int
  mc_maxOracleConfidenceBps :: int

datatype not_configured = No_market_row | No_param string | Negative_notional int | Zero_deviation

definition param :: "market_row \<Rightarrow> string \<Rightarrow> not_configured + int" where
  "param r k = (case mr_params r k of None \<Rightarrow> Inl (No_param k) | Some v \<Rightarrow> Inr v)"

definition loadMarket :: "db \<Rightarrow> string \<Rightarrow> int \<Rightarrow> not_configured + market_config" where
  "loadMarket d network marketId =
     (case find (\<lambda>r. mr_network r = network \<and> mr_id r = marketId) (db_markets d) of
        None \<Rightarrow> Inl No_market_row
      | Some r \<Rightarrow>
          case param r ''minFillNotional'' of Inl e \<Rightarrow> Inl e | Inr minFillNotional \<Rightarrow>
          if minFillNotional < 0 then Inl (Negative_notional minFillNotional) else
          case param r ''maxExecutionDeviationBps'' of Inl e \<Rightarrow> Inl e | Inr bps \<Rightarrow>
          if bps \<le> 0 then Inl Zero_deviation else
          case param r ''maxOracleAge'' of Inl e \<Rightarrow> Inl e | Inr age \<Rightarrow>
          case param r ''maxOracleConfidenceBps'' of Inl e \<Rightarrow> Inl e | Inr conf \<Rightarrow>
          Inr \<lparr>mc_marketId = marketId, mc_symbol = mr_symbol r,
               mc_oracleId = (case mr_paramsOracleId r of Some x \<Rightarrow> x | None \<Rightarrow> mr_oracleId r),
               mc_active = mr_active r, mc_minFillNotional = minFillNotional,
               mc_maxExecutionDeviationBps = bps, mc_maxOracleAge = age,
               mc_maxOracleConfidenceBps = conf\<rparr>)"

section \<open>The resting book\<close>

definition TRADEABLE :: "order_status list" where
  "TRADEABLE = [OPEN, PARTIALLY_FILLED]"

text \<open>
  \<open>pendingReservationSql\<close>: the size held on an order hash by pending fills that have no reject
  reason and satisfy the extra predicate; a fill counts on its maker and on its taker order.
\<close>

definition reserving :: "string \<Rightarrow> (fill_row \<Rightarrow> bool) \<Rightarrow> fill_row \<Rightarrow> bool" where
  "reserving network extra f \<longleftrightarrow> fl_network f = network \<and> fl_status f = PENDING
     \<and> fl_rejectReason f = None \<and> extra f"

definition fill_uses :: "hex \<Rightarrow> fill_row \<Rightarrow> int" where
  "fill_uses h f = (if fl_makerOrderHash f = h then fl_size f else 0)
                 + (if fl_takerOrderHash f = h then fl_size f else 0)"

definition pendingReservation :: "db \<Rightarrow> string \<Rightarrow> (fill_row \<Rightarrow> bool) \<Rightarrow> hex \<Rightarrow> int" where
  "pendingReservation d network extra h =
     sum_list (map (fill_uses h) (filter (reserving network extra) (db_fills d)))"

text \<open>\<open>remainingSize\<close> of \<open>queries/orders.ts\<close>, which the order and book views show.\<close>

definition remainingSize :: "int \<Rightarrow> int \<Rightarrow> int \<Rightarrow> int" where
  "remainingSize sz filledSize reserved = (let r = sz - filledSize - reserved in if r > 0 then r else 0)"

definition toEngineOrder :: "order_row \<Rightarrow> int \<Rightarrow> engine_order" where
  "toEngineOrder r reserved =
     \<lparr>eo_orderHash = ow_orderHash r, eo_owner = ow_owner r, eo_marketId = ow_marketId r,
      eo_isLong = ow_isLong r, eo_size = ow_size r, eo_limitPrice = ow_limitPrice r,
      eo_reduceOnly = ow_reduceOnly r, eo_nonce = ow_nonce r, eo_expiry = ow_expiry r,
      eo_filledSize = ow_filledSize r + reserved, eo_createdAt = ow_createdAt r\<rparr>"

definition row_arrival :: "order_row \<Rightarrow> order_row \<Rightarrow> int" where
  "row_arrival a b = cmp_then (ow_createdAt a - ow_createdAt b) (cmp3 (ow_orderHash a) (ow_orderHash b))"

definition loadOrders :: "db \<Rightarrow> string \<Rightarrow> int \<Rightarrow> int \<Rightarrow> engine_order list" where
  "loadOrders d network marketId nowSec =
     map (\<lambda>r. toEngineOrder r
            (pendingReservation d network (\<lambda>f. fl_marketId f = marketId) (ow_orderHash r)))
       (js_sort row_arrival
         (filter (\<lambda>r. ow_network r = network \<and> ow_marketId r = marketId
                      \<and> ow_status r \<in> set TRADEABLE \<and> ow_expiry r > nowSec) (db_orders d)))"

text \<open>\<open>out.set(k, v)\<close> for each row in turn: a later row overwrites an earlier one.\<close>

definition map_of_rows :: "('k \<times> 'v) list \<Rightarrow> 'k \<Rightarrow> 'v option" where
  "map_of_rows rows = fold (\<lambda>(k, v) m. m(k \<mapsto> v)) rows Map.empty"

definition loadPositions :: "db \<Rightarrow> string \<Rightarrow> int \<Rightarrow> address list \<Rightarrow> address \<Rightarrow> int option" where
  "loadPositions d network marketId owners =
     map_of_rows (map (\<lambda>r. (pr_trader r, pr_size r))
       (filter (\<lambda>r. pr_network r = network \<and> pr_marketId r = marketId \<and> pr_trader r \<in> set owners)
          (db_positions d)))"

definition loadMinValidNonces :: "db \<Rightarrow> string \<Rightarrow> address list \<Rightarrow> address \<Rightarrow> int option" where
  "loadMinValidNonces d network owners =
     map_of_rows (map (\<lambda>r. (ac_address r, ac_minValidNonce r))
       (filter (\<lambda>r. ac_network r = network \<and> ac_address r \<in> set owners) (db_accounts d)))"

record book_data =
  bk_market :: market_config
  bk_orders :: "engine_order list"
  bk_positions :: "address \<Rightarrow> int option"
  bk_minValidNonce :: "address \<Rightarrow> int option"

definition loadBook :: "db \<Rightarrow> string \<Rightarrow> int \<Rightarrow> int \<Rightarrow> not_configured + book_data" where
  "loadBook d network marketId nowSec =
     (case loadMarket d network marketId of Inl e \<Rightarrow> Inl e
      | Inr market \<Rightarrow>
          let orders = loadOrders d network marketId nowSec; owners = map eo_owner orders
          in Inr \<lparr>bk_market = market, bk_orders = orders,
                  bk_positions = loadPositions d network marketId owners,
                  bk_minValidNonce = loadMinValidNonces d network owners\<rparr>)"

section \<open>Signed orders\<close>

record order =
  od_owner :: address
  od_marketId :: int
  od_isLong :: bool
  od_size :: int
  od_limitPrice :: int
  od_reduceOnly :: bool
  od_nonce :: int
  od_expiry :: int
  od_referrer :: address

record signed_order_row = order +
  sr_orderHash :: hex
  sr_signature :: hex

definition ZERO_ADDRESS :: address where
  "ZERO_ADDRESS = ''0x'' @ replicate 40 (CHR ''0'')"

definition toSignedOrder :: "(address \<Rightarrow> address) \<Rightarrow> order_row \<Rightarrow> signed_order_row" where
  "toSignedOrder getAddress r =
     \<lparr>od_owner = getAddress (ow_owner r), od_marketId = ow_marketId r, od_isLong = ow_isLong r,
      od_size = ow_size r, od_limitPrice = ow_limitPrice r, od_reduceOnly = ow_reduceOnly r,
      od_nonce = ow_nonce r, od_expiry = ow_expiry r,
      od_referrer = (case ow_referrer r of None \<Rightarrow> ZERO_ADDRESS
                     | Some a \<Rightarrow> if a = [] then ZERO_ADDRESS else getAddress a),
      sr_orderHash = ow_orderHash r, sr_signature = ow_signature r\<rparr>"

definition loadSignedOrders ::
  "(address \<Rightarrow> address) \<Rightarrow> db \<Rightarrow> string \<Rightarrow> hex list \<Rightarrow> hex \<Rightarrow> signed_order_row option" where
  "loadSignedOrders getAddress d network hashes =
     map_of_rows (map (\<lambda>r. (ow_orderHash r, toSignedOrder getAddress r))
       (filter (\<lambda>r. ow_network r = network \<and> ow_orderHash r \<in> set hashes) (db_orders d)))"

section \<open>Facts about the queries\<close>

interpretation row_order: keyed_comparator row_arrival ow_orderHash
  by unfold_locales (auto simp: row_arrival_def cmp_then_def cmp3_def split: if_splits)

lemma map_of_rows_snoc [simp]: "map_of_rows (rows @ [(k, v)]) = (map_of_rows rows)(k \<mapsto> v)"
  by (simp add: map_of_rows_def)

lemma map_of_rows_Nil [simp]: "map_of_rows [] = Map.empty"
  by (simp add: map_of_rows_def)

lemma map_of_rows_None: "map_of_rows rows k = None \<longleftrightarrow> k \<notin> fst ` set rows"
  by (induction rows rule: rev_induct) (auto split: if_splits)

lemma map_of_rows_Some: "map_of_rows rows k = Some v \<Longrightarrow> (k, v) \<in> set rows"
  by (induction rows rule: rev_induct) (auto split: if_splits)

lemma map_of_rows_distinct:
  "distinct (map fst rows) \<Longrightarrow> map_of_rows rows k = Some v \<longleftrightarrow> (k, v) \<in> set rows"
  by (induction rows rule: rev_induct) force+

text \<open>What the schema's keys guarantee: order hashes and fill ids are
  unique, hashes are stored in lower case, and a limit price is positive.\<close>

definition db_ok :: "db \<Rightarrow> bool" where
  "db_ok d \<longleftrightarrow> distinct (map ow_orderHash (db_orders d))
     \<and> distinct (map (\<lambda>f. (fl_network f, fl_fillId f)) (db_fills d))
     \<and> (\<forall>r \<in> set (db_orders d). lower (ow_orderHash r) = ow_orderHash r \<and> 0 < ow_limitPrice r)"

lemma set_loadOrders:
  "x \<in> set (loadOrders d network mid now) \<longleftrightarrow> (\<exists>r \<in> set (db_orders d).
     ow_network r = network \<and> ow_marketId r = mid \<and> ow_status r \<in> set TRADEABLE \<and> now < ow_expiry r
     \<and> x = toEngineOrder r (pendingReservation d network (\<lambda>f. fl_marketId f = mid) (ow_orderHash r)))"
  by (auto simp: loadOrders_def)

lemma loadOrders_hashes:
  "map eo_orderHash (loadOrders d network mid now) = map ow_orderHash
     (js_sort row_arrival (filter (\<lambda>r. ow_network r = network \<and> ow_marketId r = mid
                      \<and> ow_status r \<in> set TRADEABLE \<and> ow_expiry r > now) (db_orders d)))"
  by (simp add: loadOrders_def toEngineOrder_def comp_def)

lemma loadOrders_distinct:
  assumes "db_ok d"
  shows "distinct (map eo_orderHash (loadOrders d network mid now))"
proof -
  have "distinct (map ow_orderHash (db_orders d))" using assms by (simp add: db_ok_def)
  then have "distinct (db_orders d)" "inj_on ow_orderHash (set (db_orders d))"
    by (simp_all add: distinct_map)
  then show ?thesis
    unfolding loadOrders_hashes by (auto simp: distinct_map intro: inj_on_subset)
qed

lemma reservation_append:
  "pendingReservation (d\<lparr>db_fills := db_fills d @ fs\<rparr>) network extra h
     = pendingReservation d network extra h + sum_list (map (fill_uses h) (filter (reserving network extra) fs))"
  by (simp add: pendingReservation_def)

end
