(* ===== verification/Settlement.thy ===== *)
theory Settlement
  imports Matcher_Book
begin

text \<open>
  Encoding a settlement batch and reading its receipt, \<open>client/lib/chain/settlement.ts\<close>. The ABI
  encoder is a parameter. A log is a decoded event with the address that emitted it; the
  decoding of revert data against the contracts' error ABI is a parameter too.
\<close>

definition MAX_FILLS_PER_BATCH :: nat where "MAX_FILLS_PER_BATCH = 40"

record signed_fill =
  sf_fillId :: hex
  sf_maker :: order
  sf_makerSignature :: hex
  sf_taker :: order
  sf_takerSignature :: hex
  sf_size :: int
  sf_price :: int

text \<open>\<open>isHex\<close> and the hash of the text are viem's.\<close>

definition fillIdFor :: "(string \<Rightarrow> bool) \<Rightarrow> (string \<Rightarrow> hex) \<Rightarrow> string \<Rightarrow> hex" where
  "fillIdFor isHex keccak256 offChainId =
     (if isHex offChainId \<and> length offChainId = 66 then offChainId else keccak256 offChainId)"

datatype encode_error = Empty_batch | Batch_too_large nat | Duplicate_fill_id

text \<open>\<open>ids.size !== fills.length\<close> compares a set of lower-case ids with the number of fills.\<close>

definition encodeSettleFills :: "('f signed_fill_scheme list \<Rightarrow> hex) \<Rightarrow> 'f signed_fill_scheme list \<Rightarrow> encode_error + hex" where
  "encodeSettleFills encode fills =
     (if length fills = 0 then Inl Empty_batch
      else if length fills > MAX_FILLS_PER_BATCH then Inl (Batch_too_large (length fills))
      else if length (remdups (map (\<lambda>f. lower (sf_fillId f)) fills)) \<noteq> length fills then Inl Duplicate_fill_id
      else Inr (encode fills))"

text \<open>
  \<open>chunkFills\<close> cuts off \<open>size\<close> fills at a time. A size of zero would not advance; the code's
  sizes are positive constants, and the model stops there.
\<close>

function chunkFills :: "nat \<Rightarrow> 'a list \<Rightarrow> 'a list list" where
  "chunkFills n fills = (if fills = [] \<or> n = 0 then [] else take n fills # chunkFills n (drop n fills))"
  by pat_completeness auto
termination by (relation "measure (\<lambda>(_, fills). length fills)") auto

declare chunkFills.simps [simp del]

section \<open>Receipts\<close>

text \<open>The arguments of a \<open>FillSettled\<close> event; a settled fill adds the position of the log.\<close>

record fill_settled =
  st_fillId :: hex
  st_makerOrderHash :: hex
  st_takerOrderHash :: hex
  st_marketId :: int
  st_maker :: address
  st_taker :: address
  st_takerIsBuy :: bool
  st_size :: int
  st_price :: int
  st_makerFee :: int
  st_takerFee :: int
  st_makerTier :: int
  st_takerTier :: int

record settled_fill = fill_settled +
  st_logIndex :: int

text \<open>A decoded revert: the name of the error, if it is known, and its arguments as text.\<close>

record decoded_error =
  de_errorName :: "string option"
  de_errorArgs :: "string list"

record rejected_fill =
  rj_fillId :: hex
  rj_reason :: hex
  rj_errorName :: "string option"
  rj_errorArgs :: "string list"
  rj_logIndex :: int

record batch_result =
  br_settled :: "settled_fill list"
  br_rejected :: "rejected_fill list"

datatype gateway_event = FillSettled fill_settled | FillRejected hex hex | OtherEvent

record chain_log =
  ll_address :: address
  ll_event :: gateway_event
  ll_logIndex :: "int option"

type_synonym error_abi = "hex \<Rightarrow> (string \<times> string list) option"

definition no_error :: decoded_error where
  "no_error = \<lparr>de_errorName = None, de_errorArgs = []\<rparr>"

definition decodeRevert :: "error_abi \<Rightarrow> hex \<Rightarrow> decoded_error" where
  "decodeRevert decodeError reason =
     (if reason = ''0x'' then no_error
      else case decodeError reason of None \<Rightarrow> no_error
           | Some (name, args) \<Rightarrow> \<lparr>de_errorName = Some name, de_errorArgs = args\<rparr>)"

fun decode_events :: "error_abi \<Rightarrow> chain_log list \<Rightarrow> batch_result \<Rightarrow> batch_result" where
  "decode_events decodeError [] r = r"
| "decode_events decodeError (l # ls) r =
     (let logIndex = (case ll_logIndex l of None \<Rightarrow> -1 | Some i \<Rightarrow> i)
      in decode_events decodeError ls
          (case ll_event l of
             FillSettled e \<Rightarrow> r\<lparr>br_settled := br_settled r @ [fill_settled.extend e (settled_fill.fields logIndex)]\<rparr>
           | FillRejected i reason \<Rightarrow> r\<lparr>br_rejected := br_rejected r @
               [\<lparr>rj_fillId = i, rj_reason = reason, rj_errorName = de_errorName (decodeRevert decodeError reason),
                 rj_errorArgs = de_errorArgs (decodeRevert decodeError reason), rj_logIndex = logIndex\<rparr>]\<rparr>
           | OtherEvent \<Rightarrow> r))"

definition decodeBatchLogs :: "error_abi \<Rightarrow> chain_log list \<Rightarrow> address \<Rightarrow> batch_result" where
  "decodeBatchLogs decodeError logs gateway =
     decode_events decodeError (filter (\<lambda>l. lower (ll_address l) = lower gateway) logs)
       \<lparr>br_settled = [], br_rejected = []\<rparr>"

definition result_ids :: "batch_result \<Rightarrow> hex list" where
  "result_ids r = map st_fillId (br_settled r) @ map rj_fillId (br_rejected r)"

definition unaccountedFills :: "'f signed_fill_scheme list \<Rightarrow> batch_result \<Rightarrow> hex list" where
  "unaccountedFills batch r =
     filter (\<lambda>i. lower i \<notin> set (map lower (result_ids r))) (map sf_fillId batch)"

section \<open>Facts\<close>

lemma encodeSettleFills_ok:
  "encodeSettleFills encode fills = Inr data \<longleftrightarrow>
     fills \<noteq> [] \<and> length fills \<le> MAX_FILLS_PER_BATCH
     \<and> distinct (map (\<lambda>f. lower (sf_fillId f)) fills) \<and> data = encode fills"
  using distinct_card [of "map (\<lambda>f. lower (sf_fillId f)) fills"] card_distinct [of "map (\<lambda>f. lower (sf_fillId f)) fills"]
  by (auto simp: encodeSettleFills_def length_remdups_card_conv)

lemma concat_chunkFills: "0 < n \<Longrightarrow> concat (chunkFills n fills) = fills"
  by (induction n fills rule: chunkFills.induct) (simp add: chunkFills.simps [of _ "_ :: 'a list"])

lemma chunkFills_sizes: "c \<in> set (chunkFills n fills) \<Longrightarrow> 0 < length c \<and> length c \<le> n"
proof (induction n fills rule: chunkFills.induct)
  case (1 n fills)
  then show ?case
    by (cases "fills = [] \<or> n = 0") (auto simp: chunkFills.simps [of n fills])
qed

text \<open>Every fill of a batch settled, was rejected, or is reported as unaccounted for.\<close>

lemma fill_accounted:
  "f \<in> set batch \<Longrightarrow> sf_fillId f \<in> set (unaccountedFills batch r)
     \<longleftrightarrow> lower (sf_fillId f) \<notin> set (map lower (result_ids r))"
  by (auto simp: unaccountedFills_def)

lemma decode_events_ids:
  "set (result_ids (decode_events decodeError ls r)) = set (result_ids r) \<union>
     {i. \<exists>l \<in> set ls. (\<exists>e. ll_event l = FillSettled e \<and> st_fillId e = i) \<or> (\<exists>w. ll_event l = FillRejected i w)}"
  by (induction ls arbitrary: r)
    (auto simp: result_ids_def Let_def fill_settled.defs settled_fill.defs split: gateway_event.splits)

end
