(* ===== verification/Matcher_Batch.thy ===== *)
theory Matcher_Batch
  imports Settlement
begin

text \<open>
  Turning matches into settleable batches, \<open>client/lib/matcher/batch.ts\<close>: ids, signed orders and
  the removal of duplicates in \<open>buildFills\<close>, and the gas sizing of \<open>sizeBatches\<close>. The hash
  over the ABI encoding of a fill's shape and sequence is the parameter \<open>keccak\<close>; the gas
  estimator is a parameter that may fail. The queue of \<open>sizeBatches\<close> is a loop that need not
  end, so it is a partial function whose value is \<open>None\<close> when it does not.
\<close>

definition MIN_GAS_PER_FILL :: int where "MIN_GAS_PER_FILL = 900000"
definition BLOCK_GAS_LIMIT :: int where "BLOCK_GAS_LIMIT = 30000000"
definition MAX_BATCH_GAS :: int where "MAX_BATCH_GAS = (BLOCK_GAS_LIMIT * 60) sdiv 100"
definition MIN_BATCH_FILLS :: nat where "MIN_BATCH_FILLS = 1"

section \<open>Fills\<close>

record planned_fill = signed_fill +
  pf_marketId :: int
  pf_makerOrderHash :: hex
  pf_takerOrderHash :: hex
  pf_takerIsBuy :: bool
  pf_notional :: int

type_synonym fill_hash = "hex \<times> hex \<times> int \<times> int \<times> int \<Rightarrow> hex"
type_synonym shape = "hex \<times> hex \<times> int \<times> int"

definition deriveFillId :: "fill_hash \<Rightarrow> hex \<Rightarrow> hex \<Rightarrow> int \<Rightarrow> int \<Rightarrow> int \<Rightarrow> hex" where
  "deriveFillId keccak maker taker sz price sequence = keccak (maker, taker, sz, price, sequence)"

definition toOrder :: "signed_order_row \<Rightarrow> order" where
  "toOrder r = \<lparr>od_owner = od_owner r, od_marketId = od_marketId r, od_isLong = od_isLong r,
     od_size = od_size r, od_limitPrice = od_limitPrice r, od_reduceOnly = od_reduceOnly r,
     od_nonce = od_nonce r, od_expiry = od_expiry r, od_referrer = od_referrer r\<rparr>"

definition shapeKey :: "hex \<Rightarrow> hex \<Rightarrow> int \<Rightarrow> int \<Rightarrow> shape" where
  "shapeKey maker taker sz price = (maker, taker, sz, price)"

definition row_shape :: "fill_row \<Rightarrow> shape" where
  "row_shape f = shapeKey (fl_makerOrderHash f) (fl_takerOrderHash f) (fl_size f) (fl_price f)"

definition match_shape :: "engine_match \<Rightarrow> shape" where
  "match_shape m = shapeKey (eo_orderHash (em_maker m)) (eo_orderHash (em_taker m)) (em_size m) (em_price m)"

text \<open>The grouped count of the rows, in any status, for the shapes of these makers and takers.\<close>

definition priorFillCounts :: "db \<Rightarrow> string \<Rightarrow> engine_match list \<Rightarrow> shape \<Rightarrow> int option" where
  "priorFillCounts d network matches key =
     (let rows = filter (\<lambda>f. fl_network f = network
                  \<and> fl_makerOrderHash f \<in> set (map (\<lambda>m. eo_orderHash (em_maker m)) matches)
                  \<and> fl_takerOrderHash f \<in> set (map (\<lambda>m. eo_orderHash (em_taker m)) matches)
                  \<and> row_shape f = key) (db_fills d)
      in if rows = [] then None else Some (int (length rows)))"

datatype build_error = Missing_order hex

fun build_loop ::
  "fill_hash \<Rightarrow> (hex \<Rightarrow> signed_order_row option) \<Rightarrow> (shape \<Rightarrow> int option) \<Rightarrow> engine_match list
     \<Rightarrow> hex set \<Rightarrow> planned_fill list \<Rightarrow> build_error + planned_fill list" where
  "build_loop keccak orders prior [] seen out = Inr out"
| "build_loop keccak orders prior (m # ms) seen out =
     (let mh = eo_orderHash (em_maker m); th = eo_orderHash (em_taker m) in
      case orders mh of None \<Rightarrow> Inl (Missing_order mh) | Some maker \<Rightarrow>
      case orders th of None \<Rightarrow> Inl (Missing_order th) | Some taker \<Rightarrow>
      let sequence = get_or prior (shapeKey mh th (em_size m) (em_price m)) 0 + em_sequence m;
          fillId = deriveFillId keccak mh th (em_size m) (em_price m) sequence
      in if lower fillId \<in> seen then build_loop keccak orders prior ms seen out
         else build_loop keccak orders prior ms (insert (lower fillId) seen)
           (out @ [\<lparr>sf_fillId = fillId, sf_maker = toOrder maker, sf_makerSignature = sr_signature maker,
                    sf_taker = toOrder taker, sf_takerSignature = sr_signature taker,
                    sf_size = em_size m, sf_price = em_price m, pf_marketId = od_marketId maker,
                    pf_makerOrderHash = mh, pf_takerOrderHash = th, pf_takerIsBuy = od_isLong taker,
                    pf_notional = em_notional m\<rparr>]))"

definition buildFills ::
  "fill_hash \<Rightarrow> (address \<Rightarrow> address) \<Rightarrow> db \<Rightarrow> string \<Rightarrow> engine_match list \<Rightarrow> build_error + planned_fill list" where
  "buildFills keccak getAddress d network matches =
     (if matches = [] then Inr []
      else let hashes = concat (map (\<lambda>m. [eo_orderHash (em_maker m), eo_orderHash (em_taker m)]) matches)
           in build_loop keccak (loadSignedOrders getAddress d network hashes)
                (priorFillCounts d network matches) matches {} [])"

section \<open>Sizing\<close>

definition withHeadroom :: "int \<Rightarrow> int \<Rightarrow> int" where
  "withHeadroom estimate percent =
     (let bumped = (estimate * percent) sdiv 100
      in if bumped < MIN_GAS_PER_FILL then MIN_GAS_PER_FILL else bumped)"

record 'f sized_batch =
  sb_fills :: "'f list"
  sb_gas :: int
  sb_estimate :: int

record size_options =
  zo_maxBatchGas :: int
  zo_headroomPercent :: int
  zo_maxFills :: nat
  zo_minBatchFills :: nat

definition default_size_options :: "nat \<Rightarrow> size_options" where
  "default_size_options minBatchFills =
     \<lparr>zo_maxBatchGas = MAX_BATCH_GAS, zo_headroomPercent = 120, zo_maxFills = MAX_FILLS_PER_BATCH,
      zo_minBatchFills = minBatchFills\<rparr>"

text \<open>\<open>Math.ceil(n / 2)\<close>\<close>

definition ceil_half :: "nat \<Rightarrow> nat" where "ceil_half n = (n + 1) div 2"

partial_function (option) size_loop ::
  "('f list \<Rightarrow> 'e + int) \<Rightarrow> size_options \<Rightarrow> 'f list list \<Rightarrow> 'f sized_batch list \<Rightarrow> ('e + 'f sized_batch list) option" where
  "size_loop estimate opts queue out =
     (case queue of [] \<Rightarrow> Some (Inr out)
      | chunk # rest \<Rightarrow>
          if chunk = [] then size_loop estimate opts rest out
          else (case estimate chunk of Inl e \<Rightarrow> Some (Inl e)
            | Inr used \<Rightarrow>
                if used > zo_maxBatchGas opts \<and> length chunk > zo_minBatchFills opts
                then let half = ceil_half (length chunk)
                     in size_loop estimate opts (take half chunk # drop half chunk # rest) out
                else size_loop estimate opts rest
                       (out @ [\<lparr>sb_fills = chunk, sb_gas = withHeadroom used (zo_headroomPercent opts),
                                sb_estimate = used\<rparr>])))"

declare size_loop.simps [code]

definition sizeBatches ::
  "'f list \<Rightarrow> ('f list \<Rightarrow> 'e + int) \<Rightarrow> size_options \<Rightarrow> ('e + 'f sized_batch list) option" where
  "sizeBatches fills estimate opts = size_loop estimate opts (chunkFills (zo_maxFills opts) fills) []"

definition halveAfterGasRevert :: "'a list \<Rightarrow> nat \<Rightarrow> 'a list list" where
  "halveAfterGasRevert fills minBatchFills =
     (if length fills \<le> minBatchFills \<or> length fills < 2 then []
      else let half = ceil_half (length fills)
           in filter (\<lambda>part. length part > 0) [take half fills, drop half fills])"

section \<open>Sizing ends and loses nothing\<close>

definition batch_fits :: "('f list \<Rightarrow> 'e + int) \<Rightarrow> size_options \<Rightarrow> 'f sized_batch \<Rightarrow> bool" where
  "batch_fits estimate opts b \<longleftrightarrow>
     sb_fills b \<noteq> [] \<and> length (sb_fills b) \<le> zo_maxFills opts
     \<and> estimate (sb_fills b) = Inr (sb_estimate b)
     \<and> (sb_estimate b \<le> zo_maxBatchGas opts \<or> length (sb_fills b) \<le> zo_minBatchFills opts)
     \<and> sb_gas b = withHeadroom (sb_estimate b) (zo_headroomPercent opts) \<and> MIN_GAS_PER_FILL \<le> sb_gas b"

text \<open>What sizing may answer: an error of the estimator, or fitting batches that are the fills.\<close>

definition sized_ok :: "('f list \<Rightarrow> 'e + int) \<Rightarrow> size_options \<Rightarrow> 'f list \<Rightarrow> ('e + 'f sized_batch list) \<Rightarrow> bool" where
  "sized_ok estimate opts fills r \<longleftrightarrow>
     (case r of Inl e \<Rightarrow> \<exists>c. estimate c = Inl e
      | Inr bs \<Rightarrow> concat (map sb_fills bs) = fills \<and> (\<forall>b \<in> set bs. batch_fits estimate opts b))"

lemma withHeadroom_floor: "MIN_GAS_PER_FILL \<le> withHeadroom g p"
  by (simp add: withHeadroom_def Let_def)

definition weight :: "'a list \<Rightarrow> nat" where
  "weight c = (if c = [] then 1 else 4 * length c - 2)"

lemma weight_pos: "0 < weight c"
  by (cases c) (simp_all add: weight_def)

lemma weight_halves:
  assumes "1 < length c"
  shows "weight (take (ceil_half (length c)) c) + weight (drop (ceil_half (length c)) c) < weight c"
proof -
  have "c \<noteq> []" "ceil_half (length c) < length c" "0 < ceil_half (length c)"
    using assms by (auto simp: ceil_half_def)
  then show ?thesis by (simp add: weight_def)
qed

lemma size_loop_step:
  "size_loop estimate opts [] out = Some (Inr out)"
  "size_loop estimate opts ([] # rest) out = size_loop estimate opts rest out"
  "chunk \<noteq> [] \<Longrightarrow> estimate chunk = Inl e \<Longrightarrow> size_loop estimate opts (chunk # rest) out = Some (Inl e)"
  "chunk \<noteq> [] \<Longrightarrow> estimate chunk = Inr used \<Longrightarrow> used > zo_maxBatchGas opts \<and> length chunk > zo_minBatchFills opts \<Longrightarrow>
   size_loop estimate opts (chunk # rest) out = size_loop estimate opts
     (take (ceil_half (length chunk)) chunk # drop (ceil_half (length chunk)) chunk # rest) out"
  "chunk \<noteq> [] \<Longrightarrow> estimate chunk = Inr used \<Longrightarrow> \<not> (used > zo_maxBatchGas opts \<and> length chunk > zo_minBatchFills opts) \<Longrightarrow>
   size_loop estimate opts (chunk # rest) out = size_loop estimate opts rest
     (out @ [\<lparr>sb_fills = chunk, sb_gas = withHeadroom used (zo_headroomPercent opts), sb_estimate = used\<rparr>])"
  by (subst size_loop.simps, auto simp: Let_def)+

lemma size_loop_result:
  assumes min: "1 \<le> zo_minBatchFills opts"
    and "\<forall>c \<in> set queue. length c \<le> zo_maxFills opts" and "\<forall>b \<in> set out. batch_fits estimate opts b"
  shows "\<exists>r. size_loop estimate opts queue out = Some r
    \<and> sized_ok estimate opts (concat (map sb_fills out) @ concat queue) r"
  using assms(2,3)
proof (induction "sum_list (map weight queue)" arbitrary: queue out rule: less_induct)
  case less
  consider (Nil) "queue = []" | (Empty) rest where "queue = [] # rest"
    | (Err) chunk rest e where "queue = chunk # rest" "chunk \<noteq> []" "estimate chunk = Inl e"
    | (Chunk) chunk rest used where "queue = chunk # rest" "chunk \<noteq> []" "estimate chunk = Inr used"
    by (metis list.exhaust sum.exhaust)
  then show ?case
  proof cases
    case Nil
    with less.prems show ?thesis by (simp add: size_loop_step sized_ok_def)
  next
    case (Empty rest)
    then have "sum_list (map weight rest) < sum_list (map weight queue)" using weight_pos by simp
    from less.hyps [OF this] less.prems show ?thesis unfolding Empty
      by (simp add: size_loop_step)
  next
    case (Err chunk rest e)
    then show ?thesis by (auto simp: size_loop_step sized_ok_def)
  next
    case (Chunk chunk rest used)
    show ?thesis
    proof (cases "used > zo_maxBatchGas opts \<and> length chunk > zo_minBatchFills opts")
      case True
      let ?h = "ceil_half (length chunk)"
      have "1 < length chunk" using True min by linarith
      then have "sum_list (map weight (take ?h chunk # drop ?h chunk # rest)) < sum_list (map weight queue)"
        using weight_halves [of chunk] by (simp add: Chunk)
      moreover have "\<forall>c \<in> set (take ?h chunk # drop ?h chunk # rest). length c \<le> zo_maxFills opts"
        using less.prems(1) Chunk(1) by auto
      moreover have join: "take ?h chunk @ drop ?h chunk @ concat rest = chunk @ concat rest"
        by (metis append.assoc append_take_drop_id)
      ultimately show ?thesis
        using less.hyps [of "take ?h chunk # drop ?h chunk # rest" out] less.prems(2)
        unfolding Chunk(1) size_loop_step(4) [of chunk estimate used, OF Chunk(2,3) True] by (simp add: join)
    next
      case False
      let ?b = "\<lparr>sb_fills = chunk, sb_gas = withHeadroom used (zo_headroomPercent opts), sb_estimate = used\<rparr>"
      have "batch_fits estimate opts ?b"
        using False Chunk less.prems(1) withHeadroom_floor by (auto simp: batch_fits_def)
      moreover have "sum_list (map weight rest) < sum_list (map weight queue)" using Chunk weight_pos by simp
      ultimately show ?thesis
        using less.hyps [of rest "out @ [?b]"] less.prems unfolding Chunk(1)
        by (simp add: size_loop_step(5) [of chunk estimate used, OF Chunk(2,3) False])
    qed
  qed
qed

lemma sizeBatches_result:
  assumes "0 < zo_maxFills opts" and "1 \<le> zo_minBatchFills opts"
  shows "\<exists>r. sizeBatches fills estimate opts = Some r \<and> sized_ok estimate opts fills r"
proof -
  have "\<forall>c \<in> set (chunkFills (zo_maxFills opts) fills). length c \<le> zo_maxFills opts"
    using chunkFills_sizes by blast
  from size_loop_result [OF assms(2) this, of "[]" estimate] show ?thesis
    by (simp add: sizeBatches_def concat_chunkFills [OF assms(1)])
qed

text \<open>
  C11. Sizing always ends, and loses nothing. With a positive batch cap and a floor of at least one
  fill, \<open>sizeBatches\<close> returns for every estimator: either an error the estimator raised, or
  batches that together are exactly the fills in their order, none empty, none above the
  fill cap, each within the gas budget unless it is already at the floor, and each sent with
  its own estimate plus headroom, never below the gateway's minimum.
\<close>

theorem sizeBatches_partition:
  assumes "0 < zo_maxFills opts" and "1 \<le> zo_minBatchFills opts"
  shows "\<exists>r. sizeBatches fills estimate opts = Some r
    \<and> sized_ok estimate opts fills r"
  using assms by (rule sizeBatches_result)

theorem sizeBatches_partition_witness:
  "\<exists>r. sizeBatches [1, 2, 3::nat] (\<lambda>c. Inr (int (length c) * 10000000) :: string + int) (default_size_options 1) = Some r
    \<and> sized_ok (\<lambda>c. Inr (int (length c) * 10000000) :: string + int) (default_size_options 1) [1, 2, 3] r"
  by (rule sizeBatches_partition) (simp_all add: default_size_options_def MAX_FILLS_PER_BATCH_def)

section \<open>Halving after a gas revert\<close>

lemma halve_result:
  assumes "halveAfterGasRevert fills n = parts"
  shows "parts = [] \<and> length fills \<le> max n 1
    \<or> concat parts = fills \<and> (\<forall>p \<in> set parts. p \<noteq> [] \<and> length p < length fills)"
proof (cases "length fills \<le> n \<or> length fills < 2")
  case False
  then have "0 < ceil_half (length fills)" "ceil_half (length fills) < length fills" by (auto simp: ceil_half_def)
  moreover from this have "parts = [take (ceil_half (length fills)) fills, drop (ceil_half (length fills)) fills]"
    using False assms by (cases fills) (auto simp: halveAfterGasRevert_def Let_def)
  ultimately show ?thesis by auto
qed (use assms in \<open>auto simp: halveAfterGasRevert_def\<close>)

section \<open>What is built\<close>

text \<open>What a planned fill, and a match, take of an order.\<close>

definition planned_uses :: "hex \<Rightarrow> planned_fill \<Rightarrow> int" where
  "planned_uses h f = (if pf_makerOrderHash f = h then sf_size f else 0)
                    + (if pf_takerOrderHash f = h then sf_size f else 0)"

definition match_uses :: "hex \<Rightarrow> engine_match \<Rightarrow> int" where
  "match_uses h m = (if eo_orderHash (em_maker m) = h then em_size m else 0)
                  + (if eo_orderHash (em_taker m) = h then em_size m else 0)"

text \<open>A fill carries out a match: the same two orders, as signed, at the match's size and price.\<close>

definition carries :: "fill_hash \<Rightarrow> (hex \<Rightarrow> signed_order_row option) \<Rightarrow> (shape \<Rightarrow> int option) \<Rightarrow> engine_match \<Rightarrow> planned_fill \<Rightarrow> bool" where
  "carries keccak orders prior m f \<longleftrightarrow>
     pf_makerOrderHash f = eo_orderHash (em_maker m) \<and> pf_takerOrderHash f = eo_orderHash (em_taker m)
     \<and> sf_size f = em_size m \<and> sf_price f = em_price m \<and> pf_notional f = em_notional m
     \<and> sf_fillId f = deriveFillId keccak (pf_makerOrderHash f) (pf_takerOrderHash f) (em_size m) (em_price m)
         (get_or prior (match_shape m) 0 + em_sequence m)
     \<and> (\<exists>mk tk. orders (pf_makerOrderHash f) = Some mk \<and> orders (pf_takerOrderHash f) = Some tk
         \<and> sf_maker f = toOrder mk \<and> sf_makerSignature f = sr_signature mk
         \<and> sf_taker f = toOrder tk \<and> sf_takerSignature f = sr_signature tk
         \<and> pf_marketId f = od_marketId mk \<and> pf_takerIsBuy f = od_isLong tk)"

lemma build_loop_result:
  assumes "build_loop keccak orders prior ms seen out = Inr fills"
    and "seen = set (map (\<lambda>f. lower (sf_fillId f)) out)" and "distinct (map (\<lambda>f. lower (sf_fillId f)) out)"
  shows "distinct (map (\<lambda>f. lower (sf_fillId f)) fills)
    \<and> (\<forall>f \<in> set fills. f \<in> set out \<or> (\<exists>m \<in> set ms. carries keccak orders prior m f))
    \<and> ((\<forall>m \<in> set ms. 0 \<le> em_size m) \<longrightarrow> (\<forall>h. sum_list (map (planned_uses h) fills)
          \<le> sum_list (map (planned_uses h) out) + sum_list (map (match_uses h) ms)))"
  using assms
proof (induction ms arbitrary: seen out)
  case Nil
  then show ?case by simp
next
  case (Cons m ms)
  let ?mh = "eo_orderHash (em_maker m)" and ?th = "eo_orderHash (em_taker m)"
  obtain maker taker where orders: "orders ?mh = Some maker" "orders ?th = Some taker"
    using Cons.prems(1) by (auto simp: Let_def split: option.splits)
  let ?id = "deriveFillId keccak ?mh ?th (em_size m) (em_price m)
        (get_or prior (shapeKey ?mh ?th (em_size m) (em_price m)) 0 + em_sequence m)"
  let ?f = "\<lparr>sf_fillId = ?id, sf_maker = toOrder maker, sf_makerSignature = sr_signature maker,
                    sf_taker = toOrder taker, sf_takerSignature = sr_signature taker,
                    sf_size = em_size m, sf_price = em_price m, pf_marketId = od_marketId maker,
                    pf_makerOrderHash = ?mh, pf_takerOrderHash = ?th, pf_takerIsBuy = od_isLong taker,
                    pf_notional = em_notional m\<rparr>"
  show ?case
  proof (cases "lower ?id \<in> seen")
    case True
    then have "build_loop keccak orders prior ms seen out = Inr fills"
      using Cons.prems(1) orders by (simp add: Let_def)
    note IH = Cons.IH [OF this Cons.prems(2,3)]
    have "0 \<le> em_size m \<Longrightarrow> 0 \<le> match_uses h m" for h by (simp add: match_uses_def)
    with IH show ?thesis by (auto intro: order_trans [OF _ add_left_mono])
  next
    case False
    then have *: "build_loop keccak orders prior ms (insert (lower ?id) seen) (out @ [?f]) = Inr fills"
      using Cons.prems(1) orders by (simp add: Let_def)
    have c: "carries keccak orders prior m ?f"
      using orders by (simp add: carries_def match_shape_def)
    have u: "planned_uses h ?f = match_uses h m" for h
      by (simp add: planned_uses_def match_uses_def)
    have "insert (lower ?id) seen = set (map (\<lambda>f. lower (sf_fillId f)) (out @ [?f]))"
      and "distinct (map (\<lambda>f. lower (sf_fillId f)) (out @ [?f]))"
      using Cons.prems(2,3) False by auto
    note IH = Cons.IH [OF * this]
    have "f \<in> set out \<or> (\<exists>m \<in> set (m # ms). carries keccak orders prior m f)" if "f \<in> set fills" for f
    proof -
      have "f \<in> set (out @ [?f]) \<or> (\<exists>m \<in> set ms. carries keccak orders prior m f)" using IH that by blast
      then consider "f \<in> set out" | "f = ?f" | "\<exists>m \<in> set ms. carries keccak orders prior m f" by auto
      then show ?thesis by cases (use c in auto)
    qed
    moreover have sums: "sum_list (map (planned_uses h) (out @ [?f])) + sum_list (map (match_uses h) ms)
        = sum_list (map (planned_uses h) out) + sum_list (map (match_uses h) (m # ms))" for h
      using u [of h] by simp
    have "\<forall>h. sum_list (map (planned_uses h) fills)
          \<le> sum_list (map (planned_uses h) out) + sum_list (map (match_uses h) (m # ms))"
      if "\<forall>m \<in> set (m # ms). 0 \<le> em_size m"
      using IH that unfolding sums by simp
    ultimately show ?thesis using IH by blast
  qed
qed

lemma buildFills_result:
  assumes "buildFills keccak getAddress d network ms = Inr fills"
  defines "orders \<equiv> loadSignedOrders getAddress d network
             (concat (map (\<lambda>m. [eo_orderHash (em_maker m), eo_orderHash (em_taker m)]) ms))"
  shows "distinct (map (\<lambda>f. lower (sf_fillId f)) fills)"
    and "\<forall>f \<in> set fills. \<exists>m \<in> set ms. carries keccak orders (priorFillCounts d network ms) m f"
    and "\<forall>m \<in> set ms. 0 \<le> em_size m \<Longrightarrow>
           sum_list (map (planned_uses h) fills) \<le> sum_list (map (match_uses h) ms)"
proof -
  have "ms = [] \<and> fills = [] \<or> build_loop keccak orders (priorFillCounts d network ms) ms {} [] = Inr fills"
    using assms(1) unfolding buildFills_def orders_def Let_def by (auto split: if_splits)
  then have *: "distinct (map (\<lambda>f. lower (sf_fillId f)) fills)
    \<and> (\<forall>f \<in> set fills. \<exists>m \<in> set ms. carries keccak orders (priorFillCounts d network ms) m f)
    \<and> ((\<forall>m \<in> set ms. 0 \<le> em_size m) \<longrightarrow> (\<forall>h. sum_list (map (planned_uses h) fills) \<le> sum_list (map (match_uses h) ms)))"
    using build_loop_result [of keccak orders "priorFillCounts d network ms" ms "{}" "[]" fills] by auto
  then show "distinct (map (\<lambda>f. lower (sf_fillId f)) fills)"
    and "\<forall>f \<in> set fills. \<exists>m \<in> set ms. carries keccak orders (priorFillCounts d network ms) m f"
    by blast+
  show "sum_list (map (planned_uses h) fills) \<le> sum_list (map (match_uses h) ms)" if "\<forall>m \<in> set ms. 0 \<le> em_size m"
    using * that by blast
qed

lemma matched_size_uses:
  "\<forall>m \<in> set ms. {em_maker m, em_taker m} = {bid_of m, ask_of m} \<Longrightarrow>
   matched_size ms h = sum_list (map (match_uses h) ms)"
  unfolding matched_size_def
  by (intro arg_cong [where f = sum_list] map_cong) (auto simp: match_uses_def doubleton_eq_iff)

end
