(* ===== verification/Kryon_Actions.thy ===== *)
theory Kryon_Actions
  imports Kryon_Prelude
begin

text \<open>
  Effects of the services. An \<open>async\<close> method that reads and writes a state and may throw is
  an \<open>act\<close>: it takes the state and returns either the error thrown or the value returned,
  and the state it leaves behind. An exception does not undo what was written before it,
  just as in the code; a database transaction, which does, is \<open>act_atomic\<close>.

  Properties are stated with \<open>wp\<close>: \<open>wp m Q E s\<close> says that \<open>m\<close>, started in \<open>s\<close>, ends
  with a value and state satisfying \<open>Q\<close> or throws an error and leaves a state satisfying \<open>E\<close>.
  The rules of the collection \<open>act_wp\<close> compute it over the sequencing constructs.
\<close>

named_theorems act_wp \<open>weakest preconditions of the sequencing constructs\<close>

type_synonym ('s, 'e, 'a) act = "'s \<Rightarrow> ('e + 'a) \<times> 's"

definition act_ret :: "'a \<Rightarrow> ('s, 'e, 'a) act" where
  "act_ret x = (\<lambda>s. (Inr x, s))"

definition act_throw :: "'e \<Rightarrow> ('s, 'e, 'a) act" where
  "act_throw e = (\<lambda>s. (Inl e, s))"

definition act_bind :: "('s, 'e, 'a) act \<Rightarrow> ('a \<Rightarrow> ('s, 'e, 'b) act) \<Rightarrow> ('s, 'e, 'b) act" where
  "act_bind m f = (\<lambda>s. case m s of (Inl e, t) \<Rightarrow> (Inl e, t) | (Inr x, t) \<Rightarrow> f x t)"

text \<open>\<open>try { m } catch (e) { h(e) }\<close>\<close>

definition act_catch :: "('s, 'e, 'a) act \<Rightarrow> ('e \<Rightarrow> ('s, 'e, 'a) act) \<Rightarrow> ('s, 'e, 'a) act" where
  "act_catch m h = (\<lambda>s. case m s of (Inl e, t) \<Rightarrow> h e t | (Inr x, t) \<Rightarrow> (Inr x, t))"

definition act_get :: "('s \<Rightarrow> 'a) \<Rightarrow> ('s, 'e, 'a) act" where
  "act_get f = (\<lambda>s. (Inr (f s), s))"

definition act_mod :: "('s \<Rightarrow> 's) \<Rightarrow> ('s, 'e, unit) act" where
  "act_mod f = (\<lambda>s. (Inr (), f s))"

definition act_lift :: "'e + 'a \<Rightarrow> ('s, 'e, 'a) act" where
  "act_lift r = (\<lambda>s. (r, s))"

text \<open>A database transaction: an error rolls the state back.\<close>

definition act_atomic :: "('s, 'e, 'a) act \<Rightarrow> ('s, 'e, 'a) act" where
  "act_atomic m = (\<lambda>s. case m s of (Inl e, t) \<Rightarrow> (Inl e, s) | (Inr x, t) \<Rightarrow> (Inr x, t))"

definition act_then :: "('s, 'e, 'a) act \<Rightarrow> ('s, 'e, 'b) act \<Rightarrow> ('s, 'e, 'b) act" where
  "act_then m k = act_bind m (\<lambda>_. k)"

definition act_when :: "bool \<Rightarrow> ('s, 'e, unit) act \<Rightarrow> ('s, 'e, unit) act" where
  "act_when b m = (if b then m else act_ret ())"

text \<open>\<open>for (const x of xs) await f(x)\<close>\<close>

fun act_each :: "('a \<Rightarrow> ('s, 'e, unit) act) \<Rightarrow> 'a list \<Rightarrow> ('s, 'e, unit) act" where
  "act_each f [] = act_ret ()"
| "act_each f (x # xs) = act_then (f x) (act_each f xs)"

lemmas act_defs = act_ret_def act_throw_def act_bind_def act_catch_def act_get_def act_mod_def
  act_lift_def act_atomic_def act_then_def act_when_def

section \<open>Weakest preconditions\<close>

definition wp :: "('s, 'e, 'a) act \<Rightarrow> ('a \<Rightarrow> 's \<Rightarrow> bool) \<Rightarrow> ('e \<Rightarrow> 's \<Rightarrow> bool) \<Rightarrow> 's \<Rightarrow> bool" where
  "wp m Q E s = (case m s of (Inl e, t) \<Rightarrow> E e t | (Inr x, t) \<Rightarrow> Q x t)"

lemma wp_ret [act_wp]: "wp (act_ret x) Q E = Q x"
  by (simp add: wp_def act_ret_def fun_eq_iff)

lemma wp_throw [act_wp]: "wp (act_throw e) Q E = E e"
  by (simp add: wp_def act_throw_def fun_eq_iff)

lemma wp_bind [act_wp]: "wp (act_bind m f) Q E = wp m (\<lambda>x. wp (f x) Q E) E"
  by (simp add: wp_def act_bind_def fun_eq_iff split: prod.splits sum.splits)

lemma wp_then [act_wp]: "wp (act_then m k) Q E = wp m (\<lambda>_. wp k Q E) E"
  by (simp add: act_then_def wp_bind)

lemma wp_catch [act_wp]: "wp (act_catch m h) Q E = wp m Q (\<lambda>e. wp (h e) Q E)"
  by (simp add: wp_def act_catch_def fun_eq_iff split: prod.splits sum.splits)

lemma wp_get [act_wp]: "wp (act_get f) Q E = (\<lambda>s. Q (f s) s)"
  by (simp add: wp_def act_get_def fun_eq_iff)

lemma wp_mod [act_wp]: "wp (act_mod f) Q E = (\<lambda>s. Q () (f s))"
  by (simp add: wp_def act_mod_def fun_eq_iff)

lemma wp_lift [act_wp]: "wp (act_lift r) Q E = (case r of Inl e \<Rightarrow> E e | Inr x \<Rightarrow> Q x)"
  by (simp add: wp_def act_lift_def fun_eq_iff split: sum.splits)

lemma wp_atomic [act_wp]: "wp (act_atomic m) Q E = (\<lambda>s. wp m Q (\<lambda>e _. E e s) s)"
  by (simp add: wp_def act_atomic_def fun_eq_iff split: prod.splits sum.splits)

lemma wp_when [act_wp]: "wp (act_when b m) Q E = (if b then wp m Q E else Q ())"
  by (simp add: act_when_def wp_ret)

lemma wp_if [act_wp]: "wp (if b then m else k) Q E = (if b then wp m Q E else wp k Q E)"
  by simp

lemma wp_option [act_wp]:
  "wp (case r of None \<Rightarrow> m | Some x \<Rightarrow> f x) Q E = (case r of None \<Rightarrow> wp m Q E | Some x \<Rightarrow> wp (f x) Q E)"
  by (simp split: option.splits)

lemma wp_sum [act_wp]:
  "wp (case r of Inl e \<Rightarrow> f e | Inr x \<Rightarrow> g x) Q E = (case r of Inl e \<Rightarrow> wp (f e) Q E | Inr x \<Rightarrow> wp (g x) Q E)"
  by (simp split: sum.splits)

lemma wp_pair [act_wp]:
  "wp (case r of (x, y) \<Rightarrow> f x y) Q E = (case r of (x, y) \<Rightarrow> wp (f x y) Q E)"
  by (simp split: prod.splits)

lemma wp_mono:
  "wp m Q E s \<Longrightarrow> (\<And>x t. Q x t \<Longrightarrow> Q' x t) \<Longrightarrow> (\<And>e t. E e t \<Longrightarrow> E' e t) \<Longrightarrow> wp m Q' E' s"
  by (auto simp: wp_def split: prod.splits sum.splits)

lemma wp_conj:
  "wp m (\<lambda>x t. Q x t \<and> Q' x t) (\<lambda>e t. E e t \<and> E' e t) s \<longleftrightarrow> wp m Q E s \<and> wp m Q' E' s"
  by (auto simp: wp_def split: prod.splits sum.splits)

lemma wp_value: "wp m Q E s \<Longrightarrow> m s = (Inr x, t) \<Longrightarrow> Q x t"
  by (simp add: wp_def)

lemma wp_error: "wp m Q E s \<Longrightarrow> m s = (Inl e, t) \<Longrightarrow> E e t"
  by (simp add: wp_def)

lemma wp_any: "(\<And>x t. Q x t) \<Longrightarrow> (\<And>e t. E e t) \<Longrightarrow> wp m Q E s"
  by (simp add: wp_def split: prod.splits sum.splits)

lemma wp_final: "wp m (\<lambda>_. I) (\<lambda>_. I) s = I (snd (m s))"
  by (simp add: wp_def split: prod.splits sum.splits)

text \<open>An invariant of a loop body is an invariant of the loop.\<close>

lemma wp_each:
  assumes "I s"
    and "\<And>x t. x \<in> set xs \<Longrightarrow> I t \<Longrightarrow> wp (f x) (\<lambda>_. I) E t"
    and "\<And>t. I t \<Longrightarrow> Q () t"
  shows "wp (act_each f xs) Q E s"
proof -
  have "wp (act_each f xs) (\<lambda>_. I) E s"
    using assms(1,2)
  proof (induction xs arbitrary: s)
    case Nil
    then show ?case by (simp add: wp_ret)
  next
    case (Cons x xs)
    have "wp (f x) (\<lambda>_. I) E s" using Cons.prems by simp
    then have "wp (f x) (\<lambda>_. wp (act_each f xs) (\<lambda>_. I) E) E s"
      by (rule wp_mono) (use Cons in auto)
    then show ?case by (simp add: wp_then)
  qed
  then show ?thesis by (rule wp_mono) (use assms(3) in auto)
qed

text \<open>A loop establishes for each element what its body establishes and later bodies keep.\<close>

lemma wp_each_all:
  assumes "I s"
    and "\<And>x t. x \<in> set xs \<Longrightarrow> I t \<Longrightarrow> wp (f x) (\<lambda>_ u. I u \<and> P x u \<and> (\<forall>y. P y t \<longrightarrow> P y u)) E t"
    and "\<And>t. I t \<Longrightarrow> \<forall>x \<in> set xs. P x t \<Longrightarrow> Q () t"
  shows "wp (act_each f xs) Q E s"
proof -
  have "wp (act_each f xs) (\<lambda>_ u. I u \<and> (\<forall>x \<in> set xs. P x u) \<and> (\<forall>y. P y s \<longrightarrow> P y u)) E s"
    using assms(1,2)
  proof (induction xs arbitrary: s)
    case Nil
    then show ?case by (simp add: wp_ret)
  next
    case (Cons x xs)
    have "wp (f x) (\<lambda>_ u. I u \<and> P x u \<and> (\<forall>y. P y s \<longrightarrow> P y u)) E s" using Cons.prems by simp
    then show ?case
      unfolding act_each.simps wp_then
    proof (rule wp_mono)
      fix t
      assume t: "I t \<and> P x t \<and> (\<forall>y. P y s \<longrightarrow> P y t)"
      then have "wp (act_each f xs) (\<lambda>_ u. I u \<and> (\<forall>x \<in> set xs. P x u) \<and> (\<forall>y. P y t \<longrightarrow> P y u)) E t"
        using Cons by simp
      then show "wp (act_each f xs)
         (\<lambda>_ u. I u \<and> (\<forall>x \<in> set (x # xs). P x u) \<and> (\<forall>y. P y s \<longrightarrow> P y u)) E t"
        by (rule wp_mono) (use t in auto)
    qed
  qed
  then show ?thesis by (rule wp_mono) (use assms(3) in auto)
qed

section \<open>Invariants of an action\<close>

text \<open>
  \<open>keeps I m\<close>: \<open>m\<close> preserves \<open>I\<close>, whether it returns or throws. The collection \<open>act_keeps\<close> has a
  rule per construct, so that the invariant of a handler follows from those of what it calls.
\<close>

named_theorems act_keeps \<open>invariants of the sequencing constructs\<close>

definition keeps :: "('s \<Rightarrow> bool) \<Rightarrow> ('s, 'e, 'a) act \<Rightarrow> bool" where
  "keeps I m \<longleftrightarrow> (\<forall>s. I s \<longrightarrow> wp m (\<lambda>_. I) (\<lambda>_. I) s)"

lemma keepsD: "keeps I m \<Longrightarrow> I s \<Longrightarrow> I (snd (m s))"
  by (simp add: keeps_def wp_final)

lemma keeps_ret [act_keeps]: "keeps I (act_ret x)"
  by (simp add: keeps_def wp_ret)

lemma keeps_throw [act_keeps]: "keeps I (act_throw e)"
  by (simp add: keeps_def wp_throw)

lemma keeps_get [act_keeps]: "keeps I (act_get f)"
  by (simp add: keeps_def wp_get)

lemma keeps_lift [act_keeps]: "keeps I (act_lift r)"
  by (simp add: keeps_def wp_lift split: sum.splits)

lemma keeps_mod: "(\<And>s. I s \<Longrightarrow> I (f s)) \<Longrightarrow> keeps I (act_mod f)"
  by (simp add: keeps_def wp_mod)

text \<open>A value the rest depends on: \<open>P\<close> is what is known of it.\<close>

lemma keeps_bind_value:
  assumes "\<And>s. I s \<Longrightarrow> wp m (\<lambda>x t. I t \<and> P x) (\<lambda>_. I) s" and "\<And>x. P x \<Longrightarrow> keeps I (f x)"
  shows "keeps I (act_bind m f)"
  unfolding keeps_def wp_bind
proof (intro allI impI)
  fix s
  assume "I s"
  then show "wp m (\<lambda>x. wp (f x) (\<lambda>_. I) (\<lambda>_. I)) (\<lambda>_. I) s"
    by (rule wp_mono [OF assms(1)]) (use assms(2) in \<open>auto simp: keeps_def\<close>)
qed

lemma keeps_bind [act_keeps]: "keeps I m \<Longrightarrow> (\<And>x. keeps I (f x)) \<Longrightarrow> keeps I (act_bind m f)"
  by (rule keeps_bind_value [where P = "\<lambda>_. True"]) (simp_all add: keeps_def)

lemma keeps_then [act_keeps]: "keeps I m \<Longrightarrow> keeps I k \<Longrightarrow> keeps I (act_then m k)"
  unfolding act_then_def by (rule keeps_bind)

lemma keeps_catch [act_keeps]:
  assumes "keeps I m" and "\<And>e. keeps I (h e)"
  shows "keeps I (act_catch m h)"
  unfolding keeps_def wp_catch
proof (intro allI impI)
  fix s
  assume "I s"
  then have "wp m (\<lambda>_. I) (\<lambda>_. I) s" using assms(1) by (simp add: keeps_def)
  then show "wp m (\<lambda>_. I) (\<lambda>e. wp (h e) (\<lambda>_. I) (\<lambda>_. I)) s"
    by (rule wp_mono) (use assms(2) in \<open>auto simp: keeps_def\<close>)
qed

lemma keeps_when [act_keeps]: "(b \<Longrightarrow> keeps I m) \<Longrightarrow> keeps I (act_when b m)"
  by (simp add: act_when_def keeps_ret)

lemma keeps_each [act_keeps]: "(\<And>x. x \<in> set xs \<Longrightarrow> keeps I (f x)) \<Longrightarrow> keeps I (act_each f xs)"
  by (induction xs) (simp_all add: keeps_ret keeps_then)

lemma keeps_if [act_keeps]: "(b \<Longrightarrow> keeps I m) \<Longrightarrow> (\<not> b \<Longrightarrow> keeps I k) \<Longrightarrow> keeps I (if b then m else k)"
  by simp

lemma keeps_option [act_keeps]:
  "(r = None \<Longrightarrow> keeps I m) \<Longrightarrow> (\<And>x. r = Some x \<Longrightarrow> keeps I (f x)) \<Longrightarrow> keeps I (case r of None \<Rightarrow> m | Some x \<Rightarrow> f x)"
  by (simp split: option.splits)

lemma keeps_sum [act_keeps]:
  "(\<And>e. r = Inl e \<Longrightarrow> keeps I (f e)) \<Longrightarrow> (\<And>x. r = Inr x \<Longrightarrow> keeps I (g x)) \<Longrightarrow> keeps I (case r of Inl e \<Rightarrow> f e | Inr x \<Rightarrow> g x)"
  by (simp split: sum.splits)

end
