(* ===== verification/Tx_Sender.thy ===== *)
theory Tx_Sender
  imports Kryon_Actions Tx_Store
begin

text \<open>
  \<open>TxSender\<close>, the only path by which a service key sends a transaction,
  \<open>client/lib/chain/tx-sender.ts\<close>.

  The node is not part of the source: what it answers is a parameter. \<open>submit_view\<close> holds
  its answers during one attempt of \<open>submit\<close>, \<open>wait_view\<close> its answers during one pass of
  the loop of \<open>wait\<close>, one field per call the code makes, so that two calls of one pass may
  disagree (a receipt that appears between two reads). The signer, the hash and the id
  generator are parameters of the options. The state is the cursor \<open>nextNonce\<close>, the job
  store, the number of ids drawn, and a log of the raw transactions handed to the node, each
  with what the store held at that moment.
\<close>

section \<open>Options and errors\<close>

record arc_network =
  an_id :: string
  an_chainId :: int
  an_minBaseFeeGwei :: int

record unsigned_tx =
  ut_chainId :: int
  ut_nonce :: int
  ut_to :: address
  ut_data :: hex
  ut_value :: int
  ut_gas :: int
  ut_maxFeePerGas :: int
  ut_maxPriorityFeePerGas :: int

record sender_options =
  so_network :: arc_network
  so_service :: string
  so_address :: address
  so_sign :: "unsigned_tx \<Rightarrow> hex"
  so_keccak :: "hex \<Rightarrow> hex"
  so_newId :: "nat \<Rightarrow> string"
  so_pollMs :: int
  so_rebroadcastAfterMs :: int
  so_replaceAfterMs :: int
  so_bumpPercent :: int
  so_maxFeeCapWei :: int
  so_waitTimeoutMs :: int
  so_gasHeadroomPercent :: int

record tx_request =
  tr_to :: address
  tr_data :: hex
  tr_value :: "int option"
  tr_gas :: "int option"
  tr_label :: string

record chain_fault =
  cf_name :: string
  cf_message :: string
  cf_details :: "string option"

record tx_receipt =
  rc_hash :: hex
  rc_success :: bool
  rc_gasUsed :: int
  rc_effectiveGasPrice :: int
  rc_blockNumber :: int

record tx_outcome =
  oc_job :: tx_job
  oc_receipt :: tx_receipt

datatype tx_error = Tx_timeout int hex | Tx_dropped int | Tx_reverted tx_outcome
  | Below_floor int | Store_fault store_error | Chain_fault chain_fault

text \<open>\<open>/a|b|c/.test(text)\<close> on literal patterns.\<close>

fun contains_text :: "string \<Rightarrow> string \<Rightarrow> bool" where
  "contains_text pat [] = (pat = [])"
| "contains_text pat (c # cs) = (take (length pat) (c # cs) = pat \<or> contains_text pat cs)"

definition errorText :: "chain_fault \<Rightarrow> string" where
  "errorText e = lower (case cf_details e of None \<Rightarrow> cf_message e
     | Some d \<Rightarrow> if d = [] then cf_message e else cf_message e @ '' '' @ d)"

definition text_matches :: "string list \<Rightarrow> chain_fault \<Rightarrow> bool" where
  "text_matches pats e = list_ex (\<lambda>p. contains_text p (errorText e)) pats"

definition isAlreadyKnown :: "chain_fault \<Rightarrow> bool" where
  "isAlreadyKnown = text_matches [''already known'', ''known transaction'', ''already imported'']"

definition isNonceTooLow :: "chain_fault \<Rightarrow> bool" where
  "isNonceTooLow = text_matches [''nonce too low'', ''nonce is too low'', ''invalid nonce'']"

definition isUnderpriced :: "chain_fault \<Rightarrow> bool" where
  "isUnderpriced = text_matches [''underpriced'', ''fee too low'']"

definition isNotFound :: "chain_fault \<Rightarrow> bool" where
  "isNotFound e \<longleftrightarrow> cf_name e = ''TransactionReceiptNotFoundError''
     \<or> cf_name e = ''TransactionNotFoundError''
     \<or> text_matches [''could not be found'', ''not found''] e"

section \<open>Fees\<close>

definition parseGwei :: "int \<Rightarrow> int" where "parseGwei g = g * 10 ^ 9"
definition MIN_MAX_FEE :: int where "MIN_MAX_FEE = parseGwei 40"
definition PRIORITY_FEE :: int where "PRIORITY_FEE = parseGwei 1"

definition base_floor :: "arc_network \<Rightarrow> int" where
  "base_floor n = parseGwei (an_minBaseFeeGwei n)"

text \<open>The pair \<open>maxFeePerGas\<close>, \<open>maxPriorityFeePerGas\<close>.\<close>

definition initialFees :: "int option \<Rightarrow> arc_network \<Rightarrow> int \<times> int" where
  "initialFees baseFee network =
     (let floor = base_floor network;
          base = (case baseFee of None \<Rightarrow> floor | Some b \<Rightarrow> if b > floor then b else floor);
          doubled = base * 2
      in (if doubled > MIN_MAX_FEE then doubled else MIN_MAX_FEE, PRIORITY_FEE))"

definition bump :: "int \<Rightarrow> int \<Rightarrow> int" where
  "bump value percent = (value * (100 + percent) + 99) sdiv 100"

text \<open>The constructor refuses a bump the node would not accept as a replacement.\<close>

definition new_sender_ok :: "sender_options \<Rightarrow> bool" where
  "new_sender_ok opts \<longleftrightarrow> \<not> so_bumpPercent opts < 10"

section \<open>Signing and broadcasting\<close>

record sender =
  sn_nextNonce :: "int option"
  sn_store :: tx_store
  sn_ids :: nat
  sn_sent :: "(hex \<times> tx_store) list"

type_synonym 'a sender_act = "(sender, tx_error, 'a) act"

definition store_update :: "string \<Rightarrow> tx_patch \<Rightarrow> int \<Rightarrow> unit sender_act" where
  "store_update i p now = (\<lambda>s. case job_update i p now (sn_store s) of
     Inl e \<Rightarrow> (Inl (Store_fault e), s) | Inr st \<Rightarrow> (Inr (), s\<lparr>sn_store := st\<rparr>))"

definition store_insert :: "tx_job \<Rightarrow> unit sender_act" where
  "store_insert j = (\<lambda>s. case job_insert j (sn_store s) of
     Inl e \<Rightarrow> (Inl (Store_fault e), s) | Inr st \<Rightarrow> (Inr (), s\<lparr>sn_store := st\<rparr>))"

record sign_request =
  sq_to :: address
  sq_data :: hex
  sq_value :: int
  sq_label :: string
  sq_nonce :: int
  sq_gasLimit :: int
  sq_maxFeePerGas :: int
  sq_maxPriorityFeePerGas :: int

definition job_for :: "sender_options \<Rightarrow> int \<Rightarrow> string \<Rightarrow> sign_request \<Rightarrow> tx_job" where
  "job_for opts now i p =
     (let rawTx = so_sign opts \<lparr>ut_chainId = an_chainId (so_network opts), ut_nonce = sq_nonce p,
            ut_to = sq_to p, ut_data = sq_data p, ut_value = sq_value p, ut_gas = sq_gasLimit p,
            ut_maxFeePerGas = sq_maxFeePerGas p, ut_maxPriorityFeePerGas = sq_maxPriorityFeePerGas p\<rparr>
      in \<lparr>tj_id = i, tj_network = an_id (so_network opts), tj_service = so_service opts, tj_label = sq_label p,
          tj_fromAddress = so_address opts, tj_toAddress = sq_to p, tj_nonce = sq_nonce p, tj_data = sq_data p,
          tj_value = sq_value p, tj_gasLimit = sq_gasLimit p, tj_maxFeePerGas = sq_maxFeePerGas p,
          tj_maxPriorityFeePerGas = sq_maxPriorityFeePerGas p, tj_rawTx = rawTx,
          tj_submittedHash = so_keccak opts rawTx, tj_replacedByHash = None, tj_status = Pending,
          tj_gasUsed = None, tj_effectiveGasPrice = None, tj_blockNumber = None, tj_error = None,
          tj_createdAt = now, tj_updatedAt = now\<rparr>)"

definition signAndPersist :: "sender_options \<Rightarrow> int \<Rightarrow> sign_request \<Rightarrow> tx_job sender_act" where
  "signAndPersist opts now p =
     (if sq_maxFeePerGas p < base_floor (so_network opts) then act_throw (Below_floor (sq_maxFeePerGas p))
      else act_bind (act_get sn_ids) (\<lambda>k.
        act_then (act_mod (\<lambda>s. s\<lparr>sn_ids := Suc k\<rparr>))
          (let job = job_for opts now (so_newId opts k) p
           in act_then (store_insert job) (act_ret job))))"

text \<open>\<open>sendRawTransaction\<close>: the node sees the bytes, then accepts or refuses them.\<close>

definition sendRaw :: "(hex \<Rightarrow> chain_fault option) \<Rightarrow> hex \<Rightarrow> chain_fault option sender_act" where
  "sendRaw node raw = (\<lambda>s. (Inr (node raw), s\<lparr>sn_sent := sn_sent s @ [(raw, sn_store s)]\<rparr>))"

definition broadcast :: "(hex \<Rightarrow> chain_fault option) \<Rightarrow> int \<Rightarrow> tx_job \<Rightarrow> tx_job sender_act" where
  "broadcast node now job =
     act_bind (sendRaw node (tj_rawTx job)) (\<lambda>answer.
       case answer of
         Some err \<Rightarrow>
           if \<not> isAlreadyKnown err
           then let status = (if isNonceTooLow err then Dropped else Failed)
                in act_then (store_update (tj_id job)
                     ((status_patch status)\<lparr>tp_error := Some (take 500 (errorText err))\<rparr>) now)
                   (act_throw (Chain_fault err))
           else act_then (store_update (tj_id job) (status_patch Submitted) now)
                  (act_ret (job\<lparr>tj_status := Submitted\<rparr>))
       | None \<Rightarrow> act_then (store_update (tj_id job) (status_patch Submitted) now)
                   (act_ret (job\<lparr>tj_status := Submitted\<rparr>)))"

definition rebroadcast :: "(hex \<Rightarrow> chain_fault option) \<Rightarrow> tx_job \<Rightarrow> unit sender_act" where
  "rebroadcast node job =
     act_bind (sendRaw node (tj_rawTx job)) (\<lambda>answer.
       case answer of
         None \<Rightarrow> act_ret ()
       | Some err \<Rightarrow> if \<not> isAlreadyKnown err \<and> \<not> isNonceTooLow err \<and> \<not> isUnderpriced err
                     then act_throw (Chain_fault err) else act_ret ())"

section \<open>Allocating a nonce and submitting\<close>

text \<open>The lowest nonce in \<open>[n, next)\<close> that no open job holds.\<close>

function first_gap :: "int set \<Rightarrow> int \<Rightarrow> int \<Rightarrow> int option" where
  "first_gap taken n next = (if n \<ge> next then None
     else if n \<notin> taken then Some n else first_gap taken (n + 1) next)"
  by pat_completeness auto
termination by (relation "measure (\<lambda>(_, n, next). nat (next - n))") auto

declare first_gap.simps [simp del]

definition allocateNonce :: "sender_options \<Rightarrow> int \<Rightarrow> int sender_act" where
  "allocateNonce opts pending = (\<lambda>s.
     case sn_nextNonce s of
       None \<Rightarrow> (Inr pending, s\<lparr>sn_nextNonce := Some pending\<rparr>)
     | Some next \<Rightarrow>
         if pending > next then (Inr pending, s\<lparr>sn_nextNonce := Some pending\<rparr>)
         else if pending < next
         then let taken = set (map tj_nonce (openJobs (sn_store s) (an_id (so_network opts)) (so_address opts)))
              in (Inr (case first_gap taken pending next of Some n \<Rightarrow> n | None \<Rightarrow> next), s)
         else (Inr next, s))"

record submit_view =
  sv_pending :: "chain_fault + int"
  sv_baseFee :: "chain_fault + int option"
  sv_send :: "hex \<Rightarrow> chain_fault option"
  sv_now :: int

definition chain_read :: "chain_fault + 'a \<Rightarrow> 'a sender_act" where
  "chain_read r = act_lift (case r of Inl e \<Rightarrow> Inl (Chain_fault e) | Inr x \<Rightarrow> Inr x)"

text \<open>
  One attempt of the loop in \<open>submit\<close>: \<open>Inl\<close> asks for another one (the nonce was stale and
  fewer than two retries were made), \<open>Inr\<close> is the submitted job.
\<close>

definition submit_attempt ::
  "sender_options \<Rightarrow> tx_request \<Rightarrow> int \<Rightarrow> nat \<Rightarrow> submit_view \<Rightarrow> (unit + tx_job) sender_act" where
  "submit_attempt opts req gasLimit attempt v =
     act_bind (chain_read (sv_pending v)) (\<lambda>pending.
     act_bind (allocateNonce opts pending) (\<lambda>nonce.
     act_bind (chain_read (sv_baseFee v)) (\<lambda>baseFee.
     let (maxFee, tip) = initialFees baseFee (so_network opts) in
     act_bind (signAndPersist opts (sv_now v)
        \<lparr>sq_to = tr_to req, sq_data = tr_data req,
         sq_value = (case tr_value req of None \<Rightarrow> 0 | Some x \<Rightarrow> x), sq_label = tr_label req,
         sq_nonce = nonce, sq_gasLimit = gasLimit, sq_maxFeePerGas = maxFee,
         sq_maxPriorityFeePerGas = tip\<rparr>) (\<lambda>job.
     act_bind
       (act_catch (act_bind (broadcast (sv_send v) (sv_now v) job) (\<lambda>j. act_ret (Inr j)))
          (\<lambda>err. if (case err of Chain_fault f \<Rightarrow> isNonceTooLow f | _ \<Rightarrow> False) \<and> attempt < 2
                 then act_then (act_mod (\<lambda>s. s\<lparr>sn_nextNonce := None\<rparr>)) (act_ret (Inl ()))
                 else act_throw err))
       (\<lambda>r. case r of
          Inl _ \<Rightarrow> act_ret (Inl ())
        | Inr j \<Rightarrow>
            act_then (act_mod (\<lambda>s. case sn_nextNonce s of
                         None \<Rightarrow> s\<lparr>sn_nextNonce := Some (nonce + 1)\<rparr>
                       | Some next \<Rightarrow> if nonce + 1 > next then s\<lparr>sn_nextNonce := Some (nonce + 1)\<rparr> else s))
              (act_ret (Inr j)))))))"

function submit_from ::
  "sender_options \<Rightarrow> tx_request \<Rightarrow> int \<Rightarrow> (nat \<Rightarrow> submit_view) \<Rightarrow> nat \<Rightarrow> tx_job sender_act" where
  "submit_from opts req gasLimit env attempt =
     act_bind (submit_attempt opts req gasLimit attempt (env attempt)) (\<lambda>r.
       case r of Inr j \<Rightarrow> act_ret j
       | Inl _ \<Rightarrow> if attempt < 2 then submit_from opts req gasLimit env (Suc attempt)
                 else act_throw (Tx_dropped 0))"
  by pat_completeness auto
termination by (relation "measure (\<lambda>(_, _, _, _, attempt). 3 - attempt)") auto

declare submit_from.simps [simp del]

definition submit ::
  "sender_options \<Rightarrow> (chain_fault + int) \<Rightarrow> (nat \<Rightarrow> submit_view) \<Rightarrow> tx_request \<Rightarrow> tx_job sender_act" where
  "submit opts estimate env req =
     act_bind (case tr_gas req of
         Some g \<Rightarrow> act_ret g
       | None \<Rightarrow> act_bind (chain_read estimate) (\<lambda>e. act_ret ((e * so_gasHeadroomPercent opts) sdiv 100)))
       (\<lambda>gasLimit. submit_from opts req gasLimit env 0)"

section \<open>Observing and waiting\<close>

definition job_attempts :: "sender_options \<Rightarrow> int \<Rightarrow> sender \<Rightarrow> tx_job list" where
  "job_attempts opts nonce s = byNonce (sn_store s) (an_id (so_network opts)) (so_address opts) nonce"

text \<open>The first attempt with a receipt; a fault other than "not found" stops the search.\<close>

fun first_mined :: "(hex \<Rightarrow> chain_fault + tx_receipt) \<Rightarrow> tx_job list \<Rightarrow> chain_fault + (tx_job \<times> tx_receipt) option" where
  "first_mined node [] = Inr None"
| "first_mined node (a # rest) = (case node (tj_submittedHash a) of
     Inr r \<Rightarrow> Inr (Some (a, r))
   | Inl e \<Rightarrow> if isNotFound e then first_mined node rest else Inl e)"

definition mined_patch :: "tx_receipt \<Rightarrow> tx_patch" where
  "mined_patch r = \<lparr>tp_status = Some (if rc_success r then Confirmed else Reverted), tp_replacedByHash = None,
     tp_gasUsed = Some (rc_gasUsed r), tp_effectiveGasPrice = Some (rc_effectiveGasPrice r),
     tp_blockNumber = Some (rc_blockNumber r), tp_error = None\<rparr>"

definition drop_job :: "int \<Rightarrow> tx_job \<Rightarrow> unit sender_act" where
  "drop_job now j = act_when (is_open j) (store_update (tj_id j) (status_patch Dropped) now)"

definition findMined ::
  "sender_options \<Rightarrow> (hex \<Rightarrow> chain_fault + tx_receipt) \<Rightarrow> int \<Rightarrow> int \<Rightarrow> tx_outcome option sender_act" where
  "findMined opts node now nonce =
     act_bind (act_get (job_attempts opts nonce)) (\<lambda>attempts.
     act_bind (chain_read (first_mined node attempts)) (\<lambda>hit.
       case hit of
         None \<Rightarrow> act_ret None
       | Some (attempt, receipt) \<Rightarrow>
           act_then (store_update (tj_id attempt) (mined_patch receipt) now)
          (act_then (act_each (drop_job now) (filter (\<lambda>j. tj_id j \<noteq> tj_id attempt) attempts))
             (act_ret (Some \<lparr>oc_job = apply_patch (mined_patch receipt) (tj_updatedAt attempt) attempt,
                             oc_receipt = receipt\<rparr>)))))"

record wait_view =
  wv_now :: int
  wv_receipt :: "hex \<Rightarrow> chain_fault + tx_receipt"
  wv_receipt_again :: "hex \<Rightarrow> chain_fault + tx_receipt"
  wv_latest :: "chain_fault + int"
  wv_tx :: "hex \<Rightarrow> chain_fault option"
  wv_baseFee :: "chain_fault + int option"
  wv_send :: "hex \<Rightarrow> chain_fault option"

definition assertNonceNotTaken :: "sender_options \<Rightarrow> wait_view \<Rightarrow> int \<Rightarrow> unit sender_act" where
  "assertNonceNotTaken opts v nonce =
     act_bind (chain_read (wv_latest v)) (\<lambda>mined.
       if mined \<le> nonce then act_ret ()
       else act_bind (findMined opts (wv_receipt_again v) (wv_now v) nonce) (\<lambda>hit.
         case hit of Some _ \<Rightarrow> act_ret ()
         | None \<Rightarrow>
             act_bind (act_get (job_attempts opts nonce)) (\<lambda>attempts.
               act_then (act_each (drop_job (wv_now v)) attempts) (act_throw (Tx_dropped nonce)))))"

definition inMempool :: "wait_view \<Rightarrow> hex \<Rightarrow> bool sender_act" where
  "inMempool v h = (case wv_tx v h of
     None \<Rightarrow> act_ret True
   | Some e \<Rightarrow> if isNotFound e then act_ret False else act_throw (Chain_fault e))"

definition replace :: "sender_options \<Rightarrow> wait_view \<Rightarrow> tx_job \<Rightarrow> tx_job option sender_act" where
  "replace opts v job =
     act_bind (chain_read (wv_baseFee v)) (\<lambda>baseFee.
     let fresh = fst (initialFees baseFee (so_network opts));
         bumpedMax = bump (tj_maxFeePerGas job) (so_bumpPercent opts);
         maxFee = (if bumpedMax > fresh then bumpedMax else fresh);
         tip = bump (tj_maxPriorityFeePerGas job) (so_bumpPercent opts)
     in if maxFee > so_maxFeeCapWei opts then act_ret None
        else
          act_bind (signAndPersist opts (wv_now v)
            \<lparr>sq_to = tj_toAddress job, sq_data = tj_data job, sq_value = tj_value job,
             sq_label = tj_label job, sq_nonce = tj_nonce job, sq_gasLimit = tj_gasLimit job,
             sq_maxFeePerGas = maxFee, sq_maxPriorityFeePerGas = tip\<rparr>) (\<lambda>next.
          act_then (store_update (tj_id job)
              ((status_patch Replaced)\<lparr>tp_replacedByHash := Some (tj_submittedHash next)\<rparr>) (wv_now v))
          (act_catch
            (act_bind (broadcast (wv_send v) (wv_now v) next) (\<lambda>j. act_ret (Some j)))
            (\<lambda>err. case err of
               Chain_fault f \<Rightarrow>
                 if \<not> isUnderpriced f \<and> \<not> isNonceTooLow f then act_throw err
                 else act_ret (Some (next\<lparr>tj_status := (if isNonceTooLow f then Dropped else Failed)\<rparr>))
             | _ \<Rightarrow> act_throw err))))"

text \<open>
  One pass of the loop of \<open>wait\<close>, up to the sleep. The loop's variables are the current
  attempt and the times of the last submission and rebroadcast.
\<close>

record wait_loop =
  wl_current :: tx_job
  wl_lastSubmit :: int
  wl_lastRebroadcast :: int

definition wait_pass ::
  "sender_options \<Rightarrow> int \<Rightarrow> wait_view \<Rightarrow> wait_loop \<Rightarrow> (wait_loop + tx_outcome) sender_act" where
  "wait_pass opts started v l =
     act_bind (findMined opts (wv_receipt v) (wv_now v) (tj_nonce (wl_current l))) (\<lambda>mined.
       case mined of Some outcome \<Rightarrow> act_ret (Inr outcome)
       | None \<Rightarrow>
         let now = wv_now v; current = wl_current l in
         if now - started \<ge> so_waitTimeoutMs opts
         then act_throw (Tx_timeout (tj_nonce current) (tj_submittedHash current))
         else if now - wl_lastSubmit l \<ge> so_replaceAfterMs opts
         then act_bind (replace opts v current) (\<lambda>replacement.
           case replacement of
             Some next \<Rightarrow> act_ret (Inl \<lparr>wl_current = next, wl_lastSubmit = now, wl_lastRebroadcast = now\<rparr>)
           | None \<Rightarrow> act_then (rebroadcast (wv_send v) current)
               (act_ret (Inl (l\<lparr>wl_lastSubmit := now, wl_lastRebroadcast := now\<rparr>))))
         else if now - wl_lastRebroadcast l \<ge> so_rebroadcastAfterMs opts
         then act_then (assertNonceNotTaken opts v (tj_nonce current))
             (act_bind (inMempool v (tj_submittedHash current)) (\<lambda>there.
               act_then (act_when (\<not> there) (rebroadcast (wv_send v) current))
                 (act_ret (Inl (l\<lparr>wl_lastRebroadcast := now\<rparr>)))))
         else act_ret (Inl l))"

text \<open>The loop, for at most \<open>fuel\<close> passes; \<open>None\<close> when they were not enough.\<close>

fun wait_from ::
  "sender_options \<Rightarrow> int \<Rightarrow> (nat \<Rightarrow> wait_view) \<Rightarrow> nat \<Rightarrow> nat \<Rightarrow> wait_loop \<Rightarrow> tx_outcome option sender_act" where
  "wait_from opts started env 0 k l = act_ret None"
| "wait_from opts started env (Suc fuel) k l =
     act_bind (wait_pass opts started (env k) l) (\<lambda>r.
       case r of Inr outcome \<Rightarrow> act_ret (Some outcome)
       | Inl l' \<Rightarrow> wait_from opts started env fuel (Suc k) l')"

definition wait ::
  "sender_options \<Rightarrow> int \<Rightarrow> (nat \<Rightarrow> wait_view) \<Rightarrow> nat \<Rightarrow> tx_job \<Rightarrow> tx_outcome option sender_act" where
  "wait opts started env fuel job =
     wait_from opts started env fuel 0 \<lparr>wl_current = job, wl_lastSubmit = started, wl_lastRebroadcast = started\<rparr>"

text \<open>\<open>submit\<close> then \<open>wait\<close>; a reverted receipt is an error.\<close>

definition send ::
  "sender_options \<Rightarrow> (chain_fault + int) \<Rightarrow> (nat \<Rightarrow> submit_view) \<Rightarrow> int \<Rightarrow> (nat \<Rightarrow> wait_view) \<Rightarrow> nat
     \<Rightarrow> tx_request \<Rightarrow> tx_outcome option sender_act" where
  "send opts estimate senv started wenv fuel req =
     act_bind (submit opts estimate senv req) (\<lambda>job.
     act_bind (wait opts started wenv fuel job) (\<lambda>r.
       case r of None \<Rightarrow> act_ret None
       | Some outcome \<Rightarrow> if \<not> rc_success (oc_receipt outcome) then act_throw (Tx_reverted outcome)
                        else act_ret (Some outcome)))"

section \<open>Rules for the operations\<close>

lemma wp_store_update [act_wp]:
  "wp (store_update i p now) Q E = (\<lambda>s.
     case job_update i p now (sn_store s) of Inl e \<Rightarrow> E (Store_fault e) s | Inr st \<Rightarrow> Q () (s\<lparr>sn_store := st\<rparr>))"
  by (simp add: wp_def store_update_def fun_eq_iff split: sum.splits)

lemma wp_store_insert [act_wp]:
  "wp (store_insert j) Q E = (\<lambda>s.
     case job_insert j (sn_store s) of Inl e \<Rightarrow> E (Store_fault e) s | Inr st \<Rightarrow> Q () (s\<lparr>sn_store := st\<rparr>))"
  by (simp add: wp_def store_insert_def fun_eq_iff split: sum.splits)

lemma wp_sendRaw [act_wp]:
  "wp (sendRaw node raw) Q E = (\<lambda>s. Q (node raw) (s\<lparr>sn_sent := sn_sent s @ [(raw, sn_store s)]\<rparr>))"
  by (simp add: wp_def sendRaw_def fun_eq_iff)

lemma wp_chain_read [act_wp]:
  "wp (chain_read r) Q E = (case r of Inl e \<Rightarrow> E (Chain_fault e) | Inr x \<Rightarrow> Q x)"
  by (simp add: chain_read_def act_wp split: sum.splits)

text \<open>
  What holds of a sender in every state: ids are unique; every job of this key on this network
  carries the signature of exactly its own fields and was priced at or above the network's floor;
  every transaction handed to the node had such a job in the store, under the key's address and
  the network, before it was sent; and the first time its bytes were handed over that job was
  among the \<open>openJobs\<close> of the key, which is what a restarted process resumes from.
\<close>

definition own_job :: "sender_options \<Rightarrow> tx_job \<Rightarrow> bool" where
  "own_job opts j \<longleftrightarrow> tj_network j = an_id (so_network opts) \<and> tj_fromAddress j = so_address opts"

definition job_signed :: "sender_options \<Rightarrow> tx_job \<Rightarrow> bool" where
  "job_signed opts j \<longleftrightarrow>
     tj_rawTx j = so_sign opts \<lparr>ut_chainId = an_chainId (so_network opts), ut_nonce = tj_nonce j,
        ut_to = tj_toAddress j, ut_data = tj_data j, ut_value = tj_value j, ut_gas = tj_gasLimit j,
        ut_maxFeePerGas = tj_maxFeePerGas j, ut_maxPriorityFeePerGas = tj_maxPriorityFeePerGas j\<rparr>
     \<and> tj_submittedHash j = so_keccak opts (tj_rawTx j)
     \<and> base_floor (so_network opts) \<le> tj_maxFeePerGas j"

definition recorded :: "sender_options \<Rightarrow> hex \<Rightarrow> tx_store \<Rightarrow> bool" where
  "recorded opts raw st \<longleftrightarrow> (\<exists>j \<in> set st. tj_rawTx j = raw \<and> own_job opts j \<and> job_signed opts j)"

definition resumable :: "sender_options \<Rightarrow> hex \<Rightarrow> tx_store \<Rightarrow> bool" where
  "resumable opts raw st \<longleftrightarrow>
     (\<exists>j \<in> set (openJobs st (an_id (so_network opts)) (so_address opts)). tj_rawTx j = raw)"

definition first_sends_resumable :: "sender_options \<Rightarrow> (hex \<times> tx_store) list \<Rightarrow> bool" where
  "first_sends_resumable opts sent \<longleftrightarrow>
     (\<forall>k < length sent. fst (sent ! k) \<notin> fst ` set (take k sent) \<longrightarrow> resumable opts (fst (sent ! k)) (snd (sent ! k)))"

definition sender_ok :: "sender_options \<Rightarrow> sender \<Rightarrow> bool" where
  "sender_ok opts s \<longleftrightarrow> store_ok (sn_store s)
     \<and> (\<forall>j \<in> set (sn_store s). own_job opts j \<longrightarrow> job_signed opts j)
     \<and> (\<forall>(raw, st) \<in> set (sn_sent s). recorded opts raw st)
     \<and> first_sends_resumable opts (sn_sent s)"

lemma job_signed_patch [simp]: "job_signed opts (apply_patch p now j) = job_signed opts j"
  by (simp add: job_signed_def apply_patch_def)

lemma own_job_patch [simp]: "own_job opts (apply_patch p now j) = own_job opts j"
  by (simp add: own_job_def apply_patch_def)

lemma tj_rawTx_patch [simp]: "tj_rawTx (apply_patch p now j) = tj_rawTx j"
  by (simp add: apply_patch_def)

lemma first_sends_snoc:
  "first_sends_resumable opts (xs @ [(raw, st)]) \<longleftrightarrow>
     first_sends_resumable opts xs \<and> (raw \<in> fst ` set xs \<or> resumable opts raw st)"
  unfolding first_sends_resumable_def by (auto simp: nth_append less_Suc_eq)

lemma open_job_resumable:
  "j \<in> set st \<Longrightarrow> own_job opts j \<Longrightarrow> is_open j \<Longrightarrow> resumable opts (tj_rawTx j) st"
  by (auto simp: resumable_def openJobs_def own_job_def sameAddress_def)

lemma job_update_set:
  "job_update i p now st = Inr st' \<Longrightarrow> set st' = (\<lambda>j. if tj_id j = i then apply_patch p now j else j) ` set st"
  by (auto simp: job_update_def split: if_splits)

lemma job_insert_set: "job_insert j st = Inr st' \<Longrightarrow> set st' = insert j (set st)"
  by (auto simp: job_insert_def split: if_splits)

lemma job_insert_fresh: "job_insert j st = Inr st' \<Longrightarrow> tj_id j \<notin> tj_id ` set st"
  by (auto simp: job_insert_def has_job_def split: if_splits)

lemma job_update_ids: "job_update i p now st = Inr st' \<Longrightarrow> tj_id ` set st' = tj_id ` set st"
  unfolding job_update_set image_image by (rule image_cong) simp_all

lemma recorded_update:
  assumes upd: "job_update i p now st = Inr st'" and "recorded opts raw st"
  shows "recorded opts raw st'"
proof -
  from assms(2) obtain j where j: "j \<in> set st" "tj_rawTx j = raw" "own_job opts j" "job_signed opts j"
    by (auto simp: recorded_def)
  let ?j = "if tj_id j = i then apply_patch p now j else j"
  have "?j \<in> set st'" unfolding job_update_set [OF upd] using j(1) by (rule imageI)
  moreover have "tj_rawTx ?j = raw" "own_job opts ?j" "job_signed opts ?j" using j by simp_all
  ultimately show ?thesis unfolding recorded_def by blast
qed

lemma store_ok_update: "store_ok st \<Longrightarrow> job_update i p now st = Inr st' \<Longrightarrow> store_ok st'"
  using mem.update_result [of st i p now st'] by simp

lemma store_ok_insert: "store_ok st \<Longrightarrow> job_insert j st = Inr st' \<Longrightarrow> store_ok st'"
  using mem.insert_result [of st j st'] by simp

lemma sender_ok_update:
  assumes "sender_ok opts s" and "job_update i p now (sn_store s) = Inr st"
  shows "sender_ok opts (s\<lparr>sn_store := st\<rparr>)"
proof -
  have "store_ok st" using assms store_ok_update by (auto simp: sender_ok_def)
  moreover have "\<forall>j \<in> set st. own_job opts j \<longrightarrow> job_signed opts j"
    using assms(1) unfolding job_update_set [OF assms(2)] sender_ok_def by auto
  ultimately show ?thesis using assms(1) by (simp add: sender_ok_def)
qed

lemma sender_ok_insert:
  assumes "sender_ok opts s" and "job_insert j (sn_store s) = Inr st" and "job_signed opts j"
  shows "sender_ok opts (s\<lparr>sn_store := st\<rparr>)"
proof -
  have "store_ok st" using assms store_ok_insert by (auto simp: sender_ok_def)
  moreover have "\<forall>j \<in> set st. own_job opts j \<longrightarrow> job_signed opts j"
    using assms(1,3) unfolding job_insert_set [OF assms(2)] sender_ok_def by simp
  ultimately show ?thesis using assms(1) by (simp add: sender_ok_def)
qed

lemma sender_ok_send:
  "sender_ok opts s \<Longrightarrow> recorded opts raw (sn_store s) \<Longrightarrow>
   raw \<in> fst ` set (sn_sent s) \<or> resumable opts raw (sn_store s) \<Longrightarrow>
   sender_ok opts (s\<lparr>sn_sent := sn_sent s @ [(raw, sn_store s)]\<rparr>)"
  by (simp add: sender_ok_def first_sends_snoc)

lemma sender_ok_cursor [simp]: "sender_ok opts (s\<lparr>sn_nextNonce := k\<rparr>) = sender_ok opts s"
  by (simp add: sender_ok_def)

lemma sender_ok_ids [simp]: "sender_ok opts (s\<lparr>sn_ids := k\<rparr>) = sender_ok opts s"
  by (simp add: sender_ok_def)

text \<open>
  The two steps every proof below takes. Before its first broadcast a job is in the store, open
  and signed; afterwards its bytes were sent and stay recorded, whatever happens to its status.
\<close>

definition ready :: "sender_options \<Rightarrow> tx_job \<Rightarrow> sender \<Rightarrow> bool" where
  "ready opts j s \<longleftrightarrow> sender_ok opts s \<and> j \<in> set (sn_store s) \<and> own_job opts j \<and> is_open j \<and> job_signed opts j"

definition holds :: "sender_options \<Rightarrow> tx_job \<Rightarrow> sender \<Rightarrow> bool" where
  "holds opts j s \<longleftrightarrow> sender_ok opts s \<and> recorded opts (tj_rawTx j) (sn_store s)
     \<and> tj_id j \<in> tj_id ` set (sn_store s) \<and> tj_rawTx j \<in> fst ` set (sn_sent s)"

lemma ready_update:
  assumes "ready opts j s" and "job_update i p now (sn_store s) = Inr st" and "i \<noteq> tj_id j"
  shows "ready opts j (s\<lparr>sn_store := st\<rparr>)"
proof -
  have "j \<in> set st" unfolding job_update_set [OF assms(2)] using assms(1,3) by (auto simp: ready_def)
  then show ?thesis using assms(1,2) sender_ok_update by (simp add: ready_def)
qed

lemma ready_send:
  assumes "ready opts j s"
  shows "holds opts j (s\<lparr>sn_sent := sn_sent s @ [(tj_rawTx j, sn_store s)]\<rparr>)"
proof -
  have "recorded opts (tj_rawTx j) (sn_store s)" using assms by (auto simp: recorded_def ready_def)
  then show ?thesis
    using assms open_job_resumable by (auto simp: holds_def ready_def intro: sender_ok_send)
qed

lemma holds_status [simp]: "holds opts (j\<lparr>tj_status := u\<rparr>) s = holds opts j s"
  by (simp add: holds_def)

lemma holds_update:
  "holds opts j s \<Longrightarrow> job_update i p now (sn_store s) = Inr st \<Longrightarrow> holds opts j (s\<lparr>sn_store := st\<rparr>)"
  by (auto simp: holds_def sender_ok_update recorded_update job_update_ids)

lemma holds_send:
  "holds opts j s \<Longrightarrow> holds opts j (s\<lparr>sn_sent := sn_sent s @ [(tj_rawTx j, sn_store s)]\<rparr>)"
  by (simp add: holds_def sender_ok_send)

lemma wp_update_holds:
  "holds opts j s \<Longrightarrow> wp (store_update i p now) (\<lambda>_. holds opts j) (\<lambda>_. holds opts j) s"
  by (auto simp: act_wp holds_update split: sum.splits)

lemma wp_signAndPersist:
  assumes "sender_ok opts s"
  shows "wp (signAndPersist opts now p)
    (\<lambda>j t. ready opts j t \<and> tj_id j \<notin> tj_id ` set (sn_store s)) (\<lambda>_. sender_ok opts) s"
proof -
  have signed: "job_signed opts (job_for opts now i p)"
    if "base_floor (so_network opts) \<le> sq_maxFeePerGas p" for i
    using that by (simp add: job_signed_def job_for_def Let_def)
  have own: "own_job opts (job_for opts now i p) \<and> is_open (job_for opts now i p)" for i
    by (simp add: own_job_def is_open_def OPEN_TX_STATUSES_def job_for_def Let_def)
  show ?thesis
    using assms signed own
    by (auto simp: signAndPersist_def act_wp Let_def ready_def
        intro: sender_ok_insert dest: job_insert_set job_insert_fresh split: sum.splits)
qed

lemma wp_broadcast:
  assumes "ready opts j s"
  shows "wp (broadcast node now j)
     (\<lambda>j' t. holds opts j t \<and> j' = j\<lparr>tj_status := Submitted\<rparr>)
     (\<lambda>_. holds opts j) s"
  using ready_send [OF assms]
  by (auto simp: broadcast_def act_wp Let_def holds_update dest: holds_update split: option.splits sum.splits)

lemma wp_rebroadcast:
  assumes "holds opts j s"
  shows "wp (rebroadcast node j) (\<lambda>_. holds opts j) (\<lambda>_. holds opts j) s"
  using holds_send [OF assms] by (auto simp: rebroadcast_def act_wp split: option.splits)

lemma wp_drop_all_holds:
  "holds opts j s \<Longrightarrow> wp (act_each (drop_job now) js) (\<lambda>_. holds opts j) (\<lambda>_. holds opts j) s"
  by (rule wp_each [where I = "holds opts j"]) (auto simp: drop_job_def act_wp holds_update split: sum.splits)

lemma wp_findMined_holds:
  assumes "holds opts j s"
  shows "wp (findMined opts node now k) (\<lambda>_. holds opts j) (\<lambda>_. holds opts j) s"
proof -
  have "wp (act_each (drop_job now) js) (\<lambda>_. holds opts j) (\<lambda>_. holds opts j) (s\<lparr>sn_store := st\<rparr>)"
    if "job_update i p now (sn_store s) = Inr st" for js i p st
    using wp_drop_all_holds [OF holds_update [OF assms that]] .
  then show ?thesis
    using assms by (auto simp: findMined_def act_wp split: sum.splits option.splits)
qed

lemma wp_assertNonceNotTaken_holds:
  assumes "holds opts j s"
  shows "wp (assertNonceNotTaken opts v k) (\<lambda>_. holds opts j) (\<lambda>_. holds opts j) s"
proof -
  have "wp (findMined opts (wv_receipt_again v) (wv_now v) k)
      (\<lambda>hit. wp (case hit of None \<Rightarrow> act_bind (act_get (job_attempts opts k)) (\<lambda>attempts.
                act_then (act_each (drop_job (wv_now v)) attempts) (act_throw (Tx_dropped k)))
             | Some _ \<Rightarrow> act_ret ()) (\<lambda>_. holds opts j) (\<lambda>_. holds opts j))
      (\<lambda>_. holds opts j) s"
    by (rule wp_mono [OF wp_findMined_holds [OF assms]])
      (auto simp: act_wp wp_drop_all_holds split: option.splits)
  then show ?thesis using assms by (auto simp: assertNonceNotTaken_def act_wp split: sum.splits)
qed

text \<open>A call by which the invariant stays and, on success, a given job is recorded.\<close>

lemma holds_cursor [simp]: "holds opts j (s\<lparr>sn_nextNonce := k\<rparr>) = holds opts j s"
  by (simp add: holds_def)

lemma holds_ok: "holds opts j s \<Longrightarrow> sender_ok opts s"
  by (simp add: holds_def)

lemma wp_replace_holds:
  assumes "holds opts job s"
  shows "wp (replace opts v job)
     (\<lambda>r t. holds opts (case r of None \<Rightarrow> job | Some nx \<Rightarrow> nx) t) (\<lambda>_. sender_ok opts) s"
proof -
  let ?post = "\<lambda>r t. holds opts (case r of None \<Rightarrow> job | Some nx \<Rightarrow> nx) t"
  let ?rest = "\<lambda>nx. act_then (store_update (tj_id job)
              ((status_patch Replaced)\<lparr>tp_replacedByHash := Some (tj_submittedHash nx)\<rparr>) (wv_now v))
          (act_catch
            (act_bind (broadcast (wv_send v) (wv_now v) nx) (\<lambda>j. act_ret (Some j)))
            (\<lambda>err. case err of
               Chain_fault f \<Rightarrow>
                 if \<not> isUnderpriced f \<and> \<not> isNonceTooLow f then act_throw err
                 else act_ret (Some (nx\<lparr>tj_status := (if isNonceTooLow f then Dropped else Failed)\<rparr>))
             | _ \<Rightarrow> act_throw err))"
  have rest: "wp (?rest nx) ?post (\<lambda>_. sender_ok opts) t"
    if t: "ready opts nx t" and ne: "tj_id job \<noteq> tj_id nx" for nx t
  proof -
    have "wp (broadcast (wv_send v) (wv_now v) nx)
        (\<lambda>j. wp (act_ret (Some j)) ?post (\<lambda>e. wp (case e of
               Chain_fault f \<Rightarrow>
                 if \<not> isUnderpriced f \<and> \<not> isNonceTooLow f then act_throw e
                 else act_ret (Some (nx\<lparr>tj_status := (if isNonceTooLow f then Dropped else Failed)\<rparr>))
             | _ \<Rightarrow> act_throw e) ?post (\<lambda>_. sender_ok opts)))
        (\<lambda>e. wp (case e of
               Chain_fault f \<Rightarrow>
                 if \<not> isUnderpriced f \<and> \<not> isNonceTooLow f then act_throw e
                 else act_ret (Some (nx\<lparr>tj_status := (if isNonceTooLow f then Dropped else Failed)\<rparr>))
             | _ \<Rightarrow> act_throw e) ?post (\<lambda>_. sender_ok opts)) (t\<lparr>sn_store := st\<rparr>)"
      if st: "job_update (tj_id job) p now (sn_store t) = Inr st" for p now st
      by (rule wp_mono [OF wp_broadcast [OF ready_update [OF t st ne]]])
        (auto simp: act_wp holds_ok split: tx_error.splits)
    with t show ?thesis
      by (simp only: wp_then wp_store_update wp_catch wp_bind) (simp add: ready_def split: sum.splits)
  qed
  have "wp (signAndPersist opts (wv_now v) p) (\<lambda>nx. wp (?rest nx) ?post (\<lambda>_. sender_ok opts)) (\<lambda>_. sender_ok opts) s" for p
  proof (rule wp_mono [OF wp_signAndPersist [OF holds_ok [OF assms]]])
    fix nx t
    assume "ready opts nx t \<and> tj_id nx \<notin> tj_id ` set (sn_store s)"
    moreover have "tj_id job \<in> tj_id ` set (sn_store s)" using assms by (simp add: holds_def)
    ultimately show "wp (?rest nx) ?post (\<lambda>_. sender_ok opts) t" by (intro rest) metis+
  qed simp
  with assms show ?thesis
    by (auto simp: replace_def wp_bind wp_chain_read wp_ret wp_if Let_def holds_ok split: sum.splits)
qed

lemma wp_wait_pass_holds:
  assumes "holds opts (wl_current l) s"
  shows "wp (wait_pass opts started v l)
     (\<lambda>r t. case r of Inl l' \<Rightarrow> holds opts (wl_current l') t | Inr _ \<Rightarrow> sender_ok opts t)
     (\<lambda>_. sender_ok opts) s"
proof -
  let ?j = "wl_current l"
  let ?I = "holds opts (wl_current l)"
  have reb: "wp (rebroadcast (wv_send v) ?j) (\<lambda>_. ?I) (\<lambda>_. sender_ok opts) t" if "?I t" for t
    by (rule wp_mono [OF wp_rebroadcast [OF that]]) (auto simp: holds_ok)
  have rep: "wp (replace opts v ?j) (\<lambda>r. case r of None \<Rightarrow> wp (rebroadcast (wv_send v) ?j) (\<lambda>_. ?I) (\<lambda>_. sender_ok opts)
       | Some nx \<Rightarrow> holds opts nx) (\<lambda>_. sender_ok opts) t" if "?I t" for t
    by (rule wp_mono [OF wp_replace_holds [OF that]]) (auto intro: reb split: option.splits)
  have check: "wp (assertNonceNotTaken opts v (tj_nonce ?j)) (\<lambda>_. wp (inMempool v (tj_submittedHash ?j))
       (\<lambda>there. if \<not> there then wp (rebroadcast (wv_send v) ?j) (\<lambda>_. ?I) (\<lambda>_. sender_ok opts) else ?I)
       (\<lambda>_. sender_ok opts)) (\<lambda>_. sender_ok opts) t" if "?I t" for t
    by (rule wp_mono [OF wp_assertNonceNotTaken_holds [OF that]])
      (auto simp: act_wp inMempool_def holds_ok reb split: option.splits)
  show ?thesis
    unfolding wait_pass_def wp_bind
  proof (rule wp_mono [OF wp_findMined_holds [OF assms]], goal_cases)
    case (1 mined t)
    then show ?case
      using rep [of t] check [of t]
      by (cases mined) (simp_all add: act_wp Let_def holds_ok if_distrib [of "\<lambda>f. f t"] cong: option.case_cong if_cong)
  next
    case (2 e t)
    then show ?case by (rule holds_ok)
  qed
qed

lemma wp_wait_from_holds:
  "holds opts (wl_current l) s \<Longrightarrow>
   wp (wait_from opts started env fuel k l) (\<lambda>_. sender_ok opts) (\<lambda>_. sender_ok opts) s"
proof (induction fuel arbitrary: k l s)
  case 0
  then show ?case by (simp add: wp_ret holds_ok)
next
  case (Suc fuel)
  show ?case
    unfolding wait_from.simps wp_bind
    by (rule wp_mono [OF wp_wait_pass_holds [OF Suc.prems]]) (auto simp: wp_ret Suc.IH split: sum.splits)
qed

lemma wp_allocateNonce_ok:
  "sender_ok opts s \<Longrightarrow> wp (allocateNonce opts pending) (\<lambda>_. sender_ok opts) (\<lambda>_. sender_ok opts) s"
  by (auto simp: wp_def allocateNonce_def Let_def split: option.splits)

lemma wp_broadcast_signed:
  assumes "sender_ok opts s"
    and "\<And>j t. holds opts j t \<Longrightarrow> Q (j\<lparr>tj_status := Submitted\<rparr>) t"
    and "\<And>e t. sender_ok opts t \<Longrightarrow> E1 e t" and "\<And>e t. sender_ok opts t \<Longrightarrow> E e t"
  shows "wp (signAndPersist opts now p) (\<lambda>j. wp (broadcast node now j) Q E1) E s"
proof (rule wp_mono [OF wp_signAndPersist [OF assms(1)]])
  fix j t
  assume "ready opts j t \<and> tj_id j \<notin> tj_id ` set (sn_store s)"
  then have "ready opts j t" by simp
  from wp_broadcast [OF this] show "wp (broadcast node now j) Q E1 t"
    by (rule wp_mono) (use assms(2,3) holds_ok in auto)
qed (use assms(4) in simp)

lemma wp_submit_attempt_ok:
  assumes "sender_ok opts s"
  shows "wp (submit_attempt opts req gasLimit n v)
     (\<lambda>r t. case r of Inl _ \<Rightarrow> sender_ok opts t \<and> n < 2 | Inr j \<Rightarrow> holds opts j t)
     (\<lambda>_. sender_ok opts) s"
  unfolding submit_attempt_def wp_bind wp_chain_read
  using assms
  by (auto simp: act_wp holds_cursor Let_def split: sum.splits prod.splits option.splits
      intro!: wp_mono [OF wp_allocateNonce_ok] wp_broadcast_signed)

lemma wp_submit_from_ok:
  "sender_ok opts s \<Longrightarrow>
   wp (submit_from opts req gasLimit env n) (\<lambda>j. holds opts j) (\<lambda>_. sender_ok opts) s"
proof (induction opts req gasLimit env n arbitrary: s rule: submit_from.induct)
  case (1 opts req gasLimit env n)
  show ?case
    unfolding submit_from.simps [of opts req gasLimit env n] wp_bind
    by (rule wp_mono [OF wp_submit_attempt_ok [OF "1.prems"]]) (auto simp: act_wp "1.IH" split: sum.splits)
qed

lemma wp_submit_ok:
  "sender_ok opts s \<Longrightarrow>
   wp (submit opts estimate env req) (\<lambda>j. holds opts j) (\<lambda>_. sender_ok opts) s"
  by (auto simp: submit_def act_wp wp_submit_from_ok split: option.splits sum.splits)

lemma wp_send_ok:
  assumes "sender_ok opts s"
  shows "wp (send opts estimate senv started wenv fuel req) (\<lambda>_. sender_ok opts) (\<lambda>_. sender_ok opts) s"
proof -
  have wait: "wp (wait opts started wenv fuel j) (\<lambda>_. sender_ok opts) (\<lambda>_. sender_ok opts) t"
    if "holds opts j t" for j t
    unfolding wait_def by (rule wp_wait_from_holds) (simp add: that)
  have "wp (wait opts started wenv fuel j) (\<lambda>r. case r of None \<Rightarrow> sender_ok opts
      | Some oc \<Rightarrow> if \<not> rc_success (oc_receipt oc) then sender_ok opts else sender_ok opts) (\<lambda>_. sender_ok opts) t"
    if "holds opts j t" for j t
    by (rule wp_mono [OF wait [OF that]]) (auto split: option.splits)
  then show ?thesis
    unfolding send_def wp_bind
    by (intro wp_mono [OF wp_submit_ok [OF assms]]) (simp_all add: act_wp cong: option.case_cong if_cong)
qed

text \<open>
  C8. Nothing is broadcast that is not on record first. Over a whole \<open>send\<close> (submission with its
  retries, rebroadcasts and fee bumps, whatever the node answers and whichever error ends it),
  every raw transaction handed to the node had, at that moment, a job in the store with exactly
  those bytes, under the network and the address of the key, signed for that job's own nonce,
  call and fees and the network's chain id, stored with its hash, and priced at or above the
  network's base-fee floor. The first time its bytes are handed over, \<open>openJobs\<close> of the key
  returns such a job, so a process that stops there finds it again after a restart. Job ids stay
  unique. All of this is kept from any sender of which it holds already, such as a new one.
\<close>

theorem broadcasts_are_recorded:
  assumes "sender_ok opts s"
  shows "sender_ok opts (snd (send opts estimate senv started wenv fuel req s))"
  using wp_send_ok [OF assms] unfolding wp_final .

definition sample_network :: arc_network where
  "sample_network = \<lparr>an_id = ''arc'', an_chainId = 7, an_minBaseFeeGwei = 20\<rparr>"

text \<open>A signer and a hash that keep the nonce and the fee apart, for evaluation.\<close>

definition sample_sign :: "unsigned_tx \<Rightarrow> hex" where
  "sample_sign u = (if ut_nonce u = 0 then ''r0'' else ''r1'') @ (if ut_maxFeePerGas u > MIN_MAX_FEE then ''b'' else [])"

definition sample_id :: "nat \<Rightarrow> string" where
  "sample_id k = (if k = 0 then ''job0'' else if k = 1 then ''job1'' else ''job2'')"

definition sample_options :: sender_options where
  "sample_options = \<lparr>so_network = sample_network, so_service = ''svc'', so_address = ''0xa'',
     so_sign = sample_sign, so_keccak = (\<lambda>raw. CHR ''h'' # raw), so_newId = sample_id, so_pollMs = 500,
     so_rebroadcastAfterMs = 3000, so_replaceAfterMs = 10000, so_bumpPercent = 15,
     so_maxFeeCapWei = parseGwei 1000, so_waitTimeoutMs = 120000, so_gasHeadroomPercent = 120\<rparr>"

definition fresh_sender :: sender where
  "fresh_sender = \<lparr>sn_nextNonce = None, sn_store = [], sn_ids = 0, sn_sent = []\<rparr>"

definition sample_request :: tx_request where
  "sample_request = \<lparr>tr_to = ''0xb'', tr_data = ''0x12'', tr_value = None, tr_gas = Some 50000, tr_label = ''t''\<rparr>"

definition sample_submit_view :: "nat \<Rightarrow> submit_view" where
  "sample_submit_view k = \<lparr>sv_pending = Inr 0, sv_baseFee = Inr None, sv_send = (\<lambda>_. None), sv_now = 0\<rparr>"

definition not_found :: chain_fault where
  "not_found = \<lparr>cf_name = ''TransactionReceiptNotFoundError'', cf_message = [], cf_details = None\<rparr>"

definition sample_wait_view :: "nat \<Rightarrow> wait_view" where
  "sample_wait_view k = \<lparr>wv_now = 0,
     wv_receipt = (\<lambda>h. Inr \<lparr>rc_hash = h, rc_success = True, rc_gasUsed = 9, rc_effectiveGasPrice = 1, rc_blockNumber = 3\<rparr>),
     wv_receipt_again = (\<lambda>_. Inl not_found), wv_latest = Inr 0, wv_tx = (\<lambda>_. None), wv_baseFee = Inr None,
     wv_send = (\<lambda>_. None)\<rparr>"

lemma fresh_sender_ok: "sender_ok opts fresh_sender"
  by (simp add: sender_ok_def fresh_sender_def store_ok_def first_sends_resumable_def)

theorem broadcasts_are_recorded_witness:
  "sender_ok sample_options
     (snd (send sample_options (Inr 0) sample_submit_view 0 sample_wait_view 2 sample_request fresh_sender))"
  by (rule broadcasts_are_recorded) (rule fresh_sender_ok)

lemma sample_send_broadcasts:
  "map fst (sn_sent (snd (send sample_options (Inr 0) sample_submit_view 0 sample_wait_view 2 sample_request fresh_sender)))
    = [''r0'']"
  by code_simp

section \<open>The cursor and the nonce\<close>

lemma first_gap_spec:
  "case first_gap taken n lim of
     None \<Rightarrow> \<forall>k. n \<le> k \<and> k < lim \<longrightarrow> k \<in> taken
   | Some m \<Rightarrow> n \<le> m \<and> m < lim \<and> m \<notin> taken \<and> (\<forall>k. n \<le> k \<and> k < m \<longrightarrow> k \<in> taken)"
proof (induction taken n lim rule: first_gap.induct)
  case (1 taken n lim)
  consider "lim \<le> n" | "n < lim" "n \<notin> taken" | "n < lim" "n \<in> taken" by linarith
  then show ?case
  proof cases
    case 3
    have step: "n \<le> k \<longleftrightarrow> k = n \<or> n + 1 \<le> k" for k by auto
    have "first_gap taken n lim = first_gap taken (n + 1) lim"
      using 3 by (subst first_gap.simps) simp
    with 1 3 show ?thesis unfolding step by (force split: option.splits)
  qed (auto simp: first_gap.simps [of taken n lim])
qed

definition open_nonces :: "sender_options \<Rightarrow> sender \<Rightarrow> int set" where
  "open_nonces opts s = tj_nonce ` set (openJobs (sn_store s) (an_id (so_network opts)) (so_address opts))"

text \<open>
  The allocated nonce. Provided the cursor (or, with no cursor, the node's pending count) lies
  above every open job's nonce, the nonce handed out is one no open job holds, it is not below
  the node's pending count, and every nonce from the pending count up to it has an open job: a
  gap left by a lost transaction is filled first, and no new gap is opened.
\<close>

theorem allocated_nonce_is_free:
  assumes "\<forall>k \<in> open_nonces opts s. k < (case sn_nextNonce s of None \<Rightarrow> pending | Some c \<Rightarrow> c)"
    and "allocateNonce opts pending s = (Inr n, t)"
  shows "n \<notin> open_nonces opts s \<and> pending \<le> n
    \<and> (\<forall>k. pending \<le> k \<and> k < n \<longrightarrow> k \<in> open_nonces opts s)"
  using assms first_gap_spec [where taken = "open_nonces opts s" and n = pending and lim = "the (sn_nextNonce s)"]
  by (auto simp: allocateNonce_def Let_def open_nonces_def split: option.splits if_splits)

definition gap_sender :: sender where
  "gap_sender = fresh_sender\<lparr>sn_nextNonce := Some 3, sn_ids := 1,
     sn_store := [(job_for sample_options 0 ''job0''
        \<lparr>sq_to = ''0xb'', sq_data = ''0x'', sq_value = 0, sq_label = ''t'', sq_nonce = 0, sq_gasLimit = 1,
         sq_maxFeePerGas = MIN_MAX_FEE, sq_maxPriorityFeePerGas = 1\<rparr>)\<lparr>tj_status := Submitted\<rparr>]\<rparr>"

theorem allocated_nonce_is_free_witness:
  "fst (allocateNonce sample_options 0 gap_sender) = Inr 1 \<and> (1::int) \<notin> open_nonces sample_options gap_sender"
proof -
  have taken: "open_nonces sample_options gap_sender = {0}"
    by (simp add: open_nonces_def gap_sender_def openJobs_def job_for_def Let_def sameAddress_def
        is_open_def OPEN_TX_STATUSES_def sample_options_def sample_network_def)
  have cursor: "sn_nextNonce gap_sender = Some 3" by (simp add: gap_sender_def)
  have alloc: "allocateNonce sample_options 0 gap_sender = (Inr 1, gap_sender)"
    using taken unfolding open_nonces_def
    by (simp add: allocateNonce_def cursor Let_def first_gap.simps)
  from allocated_nonce_is_free [OF _ alloc] show ?thesis using alloc by (simp add: taken cursor)
qed

end
