(* ===== verification/Cooldown.thy ===== *)
theory Cooldown
  imports Kryon_Prelude "HOL-Library.AList"
begin

text \<open>
  Backoff for orders the chain keeps refusing, \<open>client/lib/matcher/cooldown.ts\<close>. The map
  \<open>held\<close> is an association list with distinct keys (lower-case order hashes); times are
  milliseconds, passed in as in the code.
\<close>

record cooldown_options =
  co_baseMs :: int
  co_maxMs :: int
  co_parkAfter :: int
  co_forgetAfterMs :: int

definition DEFAULT_COOLDOWN :: cooldown_options where
  "DEFAULT_COOLDOWN = \<lparr>co_baseMs = 2000, co_maxMs = 60000, co_parkAfter = 5, co_forgetAfterMs = 300000\<rparr>"

record cooldown_state =
  cd_strikes :: int
  cd_until :: int
  cd_reason :: string
  cd_parked :: bool

type_synonym cooldown = "(hex \<times> cooldown_state) list"

definition stateOf :: "cooldown \<Rightarrow> hex \<Rightarrow> cooldown_state option" where
  "stateOf held h = map_of held (lower h)"

definition strike :: "cooldown_options \<Rightarrow> cooldown \<Rightarrow> hex \<Rightarrow> string \<Rightarrow> int \<Rightarrow> cooldown_state \<times> cooldown" where
  "strike opts held h reason nowMs =
     (let key = lower h;
          strikes = (case map_of held key of None \<Rightarrow> 0 | Some p \<Rightarrow> cd_strikes p) + 1;
          parked = (strikes \<ge> co_parkAfter opts);
          wait = min (co_maxMs opts) (co_baseMs opts * 2 ^ nat (strikes - 1));
          state = \<lparr>cd_strikes = strikes, cd_until = nowMs + wait, cd_reason = reason, cd_parked = parked\<rparr>
      in (state, AList.update key state held))"

definition blocked :: "cooldown \<Rightarrow> hex \<Rightarrow> int \<Rightarrow> bool" where
  "blocked held h nowMs = (case map_of held (lower h) of None \<Rightarrow> False | Some s \<Rightarrow> cd_until s > nowMs)"

definition clear :: "cooldown \<Rightarrow> hex \<Rightarrow> cooldown" where
  "clear held h = AList.delete (lower h) held"

definition blockedCount :: "cooldown \<Rightarrow> int \<Rightarrow> int" where
  "blockedCount held nowMs = int (length (filter (\<lambda>(_, s). cd_until s > nowMs) held))"

definition sweep :: "cooldown_options \<Rightarrow> cooldown \<Rightarrow> int \<Rightarrow> cooldown" where
  "sweep opts held nowMs = filter (\<lambda>(_, s). \<not> nowMs - cd_until s > co_forgetAfterMs opts) held"

section \<open>Keys\<close>

lemma keys_strike: "distinct (map fst held) \<Longrightarrow> distinct (map fst (snd (strike opts held h r t)))"
  by (simp add: strike_def Let_def distinct_update)

lemma keys_clear: "distinct (map fst held) \<Longrightarrow> distinct (map fst (clear held h))"
  by (simp add: clear_def distinct_delete)

lemma keys_sweep: "distinct (map fst held) \<Longrightarrow> distinct (map fst (sweep opts held t))"
  unfolding sweep_def by (rule distinct_map_filter)

lemma stateOf_strike:
  "stateOf (snd (strike opts held h r t)) h' = (if lower h' = lower h then Some (fst (strike opts held h r t)) else stateOf held h')"
  by (simp add: stateOf_def strike_def Let_def update_conv')

lemma stateOf_clear: "stateOf (clear held h) h' = (if lower h' = lower h then None else stateOf held h')"
  by (simp add: stateOf_def clear_def delete_conv')

lemma lookup_after_filter:
  assumes "distinct (map fst held)"
  shows "map_of (filter keep held) h = Option.bind (map_of held h) (\<lambda>s. if keep (h, s) then Some s else None)"
  using assms by (induction held) (auto simp: map_of_eq_None_iff image_iff split: option.splits bind_splits)

lemma stateOf_sweep:
  "distinct (map fst held) \<Longrightarrow> stateOf (sweep opts held t) h =
     (case stateOf held h of None \<Rightarrow> None | Some s \<Rightarrow> if t - cd_until s > co_forgetAfterMs opts then None else Some s)"
  by (simp add: stateOf_def sweep_def lookup_after_filter split: option.splits bind_splits)

lemma blocked_stateOf: "blocked held h t \<longleftrightarrow> (\<exists>s. stateOf held h = Some s \<and> t < cd_until s)"
  by (simp add: blocked_def stateOf_def split: option.splits)

section \<open>The life of a cooldown\<close>

text \<open>
  What the matcher does to a cooldown over time: strikes, clears and sweeps, at times that do
  not go back. A state is the map and the latest time.
\<close>

inductive cooldown_step :: "cooldown_options \<Rightarrow> cooldown \<times> int \<Rightarrow> cooldown \<times> int \<Rightarrow> bool" for opts where
  step_strike: "t \<le> t' \<Longrightarrow> cooldown_step opts (held, t) (snd (strike opts held h r t'), t')"
| step_clear: "t \<le> t' \<Longrightarrow> cooldown_step opts (held, t) (clear held h, t')"
| step_sweep: "t \<le> t' \<Longrightarrow> cooldown_step opts (held, t) (sweep opts held t', t')"

inductive_cases cooldown_stepE: "cooldown_step opts (held, t) (held', t')"

inductive cooldown_reach :: "cooldown_options \<Rightarrow> cooldown \<times> int \<Rightarrow> bool" for opts where
  reach_new: "cooldown_reach opts ([], t)"
| reach_step: "cooldown_reach opts x \<Longrightarrow> cooldown_step opts x y \<Longrightarrow> cooldown_reach opts y"

definition wait_for :: "cooldown_options \<Rightarrow> int \<Rightarrow> int" where
  "wait_for opts n = min (co_maxMs opts) (co_baseMs opts * 2 ^ nat (n - 1))"

definition record_ok :: "cooldown_options \<Rightarrow> int \<Rightarrow> cooldown_state \<Rightarrow> bool" where
  "record_ok opts t s \<longleftrightarrow> 1 \<le> cd_strikes s \<and> (cd_parked s \<longleftrightarrow> co_parkAfter opts \<le> cd_strikes s)
     \<and> cd_until s \<le> t + wait_for opts (cd_strikes s)"

lemma record_ok_later: "record_ok opts t s \<Longrightarrow> t \<le> t' \<Longrightarrow> record_ok opts t' s"
  by (auto simp: record_ok_def)

lemma record_ok_strike:
  assumes "\<And>s. stateOf held h = Some s \<Longrightarrow> record_ok opts t s"
  shows "record_ok opts t' (fst (strike opts held h r t'))"
  using assms by (cases "stateOf held h") (auto simp: strike_def Let_def record_ok_def wait_for_def stateOf_def)

definition cooldown_ok :: "cooldown_options \<Rightarrow> cooldown \<times> int \<Rightarrow> bool" where
  "cooldown_ok opts x \<longleftrightarrow> distinct (map fst (fst x))
     \<and> (\<forall>h s. stateOf (fst x) h = Some s \<longrightarrow> record_ok opts (snd x) s)"

lemma cooldown_ok_record: "cooldown_ok opts (held, t) \<Longrightarrow> stateOf held h = Some s \<Longrightarrow> record_ok opts t s"
  by (simp add: cooldown_ok_def)

lemma cooldown_step_ok:
  assumes "cooldown_ok opts (held, t)" and "cooldown_step opts (held, t) (held', t')"
  shows "cooldown_ok opts (held', t')"
proof -
  have keys: "distinct (map fst held)" using assms(1) by (simp add: cooldown_ok_def)
  note rec = cooldown_ok_record [OF assms(1)]
  from assms(2) show ?thesis
  proof (rule cooldown_stepE)
    fix h r
    assume "held' = snd (strike opts held h r t')" "t \<le> t'"
    moreover have "record_ok opts t' (fst (strike opts held h r t'))" by (rule record_ok_strike) (rule rec)
    ultimately show ?thesis
      using keys rec by (auto simp: cooldown_ok_def keys_strike stateOf_strike intro: record_ok_later)
  next
    fix h
    assume "held' = clear held h" "t \<le> t'"
    with keys rec show ?thesis
      by (auto simp: cooldown_ok_def keys_clear stateOf_clear intro: record_ok_later)
  next
    assume "held' = sweep opts held t'" "t \<le> t'"
    with keys rec show ?thesis
      by (auto simp: cooldown_ok_def keys_sweep stateOf_sweep intro: record_ok_later split: option.splits if_splits)
  qed
qed

lemma cooldown_reach_ok: "cooldown_reach opts x \<Longrightarrow> cooldown_ok opts x"
proof (induction rule: cooldown_reach.induct)
  case (reach_new t)
  then show ?case by (simp add: cooldown_ok_def stateOf_def)
next
  case (reach_step x y)
  then show ?case by (cases x; cases y) (auto intro: cooldown_step_ok)
qed

text \<open>
  C12. In every reachable state, whatever sequence of strikes, clears and sweeps led to it, a held
  record has at least one strike, is parked exactly when its strikes reached the limit, and
  waits no longer than the doubling schedule of its strike count allows; so the order is off
  the book for at most the ceiling \<open>maxMs\<close> from now, and a sweep takes no order's wait away.
\<close>

theorem cooldown_wait_bounded:
  assumes "cooldown_reach opts (held, t)" and "stateOf held h = Some s" and "0 \<le> co_forgetAfterMs opts"
  shows "1 \<le> cd_strikes s \<and> (cd_parked s \<longleftrightarrow> co_parkAfter opts \<le> cd_strikes s)
    \<and> \<not> blocked held h (t + wait_for opts (cd_strikes s)) \<and> \<not> blocked held h (t + co_maxMs opts)
    \<and> (\<forall>now. blocked (sweep opts held now) h now \<longleftrightarrow> blocked held h now)"
proof -
  have ok: "cooldown_ok opts (held, t)" using assms(1) by (rule cooldown_reach_ok)
  then have "record_ok opts t s" using assms(2) by (rule cooldown_ok_record)
  moreover have "wait_for opts n \<le> co_maxMs opts" for n by (simp add: wait_for_def)
  moreover have "distinct (map fst held)" using ok by (simp add: cooldown_ok_def)
  moreover have "cd_until s \<le> t + co_maxMs opts"
    using calculation(1) calculation(2) [of "cd_strikes s"] by (simp add: record_ok_def)
  ultimately show ?thesis
    using assms(2,3) by (auto simp: record_ok_def blocked_stateOf stateOf_sweep split: if_splits)
qed

definition struck_twice :: cooldown where
  "struck_twice = snd (strike DEFAULT_COOLDOWN (snd (strike DEFAULT_COOLDOWN [] ''0xAb'' ''r'' 0)) ''0xab'' ''r'' 5000)"

theorem cooldown_wait_bounded_witness:
  "cooldown_reach DEFAULT_COOLDOWN (struck_twice, 5000)
   \<and> (\<exists>s. stateOf struck_twice ''0xAB'' = Some s \<and> cd_strikes s = 2 \<and> cd_until s = 9000 \<and> \<not> cd_parked s)
   \<and> \<not> blocked struck_twice ''0xAB'' (5000 + 60000)"
proof -
  have r: "cooldown_reach DEFAULT_COOLDOWN (struck_twice, 5000)"
    unfolding struck_twice_def
    by (rule reach_step [OF reach_step [OF reach_new [where t = 0] step_strike] step_strike]) simp_all
  have same: "lower ''0xAb'' = ''0xab''" "lower ''0xAB'' = ''0xab''" "lower ''0xab'' = ''0xab''"
    by code_simp+
  have s: "\<exists>s. stateOf struck_twice ''0xAB'' = Some s \<and> cd_strikes s = 2 \<and> cd_until s = 9000 \<and> \<not> cd_parked s"
    unfolding struck_twice_def stateOf_def strike_def same
    by (simp add: Let_def DEFAULT_COOLDOWN_def)
  then obtain x where "stateOf struck_twice ''0xAB'' = Some x" by blast
  from cooldown_wait_bounded [OF r this] r s show ?thesis by (simp add: DEFAULT_COOLDOWN_def)
qed

text \<open>
  \<open>parked\<close> is only reported: once its wait of at most \<open>maxMs\<close> is served, a parked order is back
  on the book at the next tick.
\<close>

lemma parked_order_returns:
  "\<not> blocked (snd (strike opts held h r t)) h (t + co_maxMs opts)"
  by (simp add: strike_def Let_def blocked_def update_conv')

end
