(* ===== verification/Matcher_Submit.thy ===== *)
theory Matcher_Submit
  imports Matcher_Batch Tx_Sender Cooldown
begin

text \<open>
  Reserving and broadcasting one batch, \<open>client/lib/matcher/submit.ts\<close>, with the counters of
  \<open>client/lib/matcher/metrics.ts\<close> and the state of a matcher shard that the two share with the
  tick: the database, the \<open>TxSender\<close> of its key, the rejection cooldown and the counters.

  The pending rows of the \<open>Fill\<close> table are the reservation ledger. The central property is that
  reserving what a tick matched keeps every order's settled and reserved size within its size.
\<close>

section \<open>The state of a shard\<close>

record matcher_metrics =
  mx_ticks :: int
  mx_tickErrors :: int
  mx_oracleSkips :: int
  mx_matches :: int
  mx_bandDrops :: int
  mx_backstopDrops :: int
  mx_fillsSubmitted :: int
  mx_fillsSettled :: int
  mx_fillsRejected :: int
  mx_fillsUnaccounted :: int
  mx_ordersRetired :: int
  mx_ordersCoolingDown :: int
  mx_ordersParked :: int
  mx_matcherBugs :: int
  mx_batches :: int
  mx_batchReverts :: int
  mx_gasResizes :: int
  mx_gasUsedTotal :: int
  mx_maxSettledBatchFills :: int
  mx_lastBatchFills :: int
  mx_lastBatchGasUsed :: int
  mx_lastGasPerFill :: int
  mx_lastTickAt :: "int option"

definition newMetrics :: matcher_metrics where
  "newMetrics = \<lparr>mx_ticks = 0, mx_tickErrors = 0, mx_oracleSkips = 0, mx_matches = 0, mx_bandDrops = 0,
     mx_backstopDrops = 0, mx_fillsSubmitted = 0, mx_fillsSettled = 0, mx_fillsRejected = 0,
     mx_fillsUnaccounted = 0, mx_ordersRetired = 0, mx_ordersCoolingDown = 0, mx_ordersParked = 0,
     mx_matcherBugs = 0, mx_batches = 0, mx_batchReverts = 0, mx_gasResizes = 0, mx_gasUsedTotal = 0,
     mx_maxSettledBatchFills = 0, mx_lastBatchFills = 0, mx_lastBatchGasUsed = 0, mx_lastGasPerFill = 0,
     mx_lastTickAt = None\<rparr>"

definition recordBatchGas :: "int \<Rightarrow> int \<Rightarrow> matcher_metrics \<Rightarrow> matcher_metrics" where
  "recordBatchGas fills gasUsed m = m\<lparr>
     mx_batches := mx_batches m + 1,
     mx_gasUsedTotal := mx_gasUsedTotal m + gasUsed,
     mx_lastBatchFills := fills,
     mx_lastBatchGasUsed := gasUsed,
     mx_lastGasPerFill := (if fills > 0 then gasUsed sdiv fills else 0),
     mx_maxSettledBatchFills := (if fills > mx_maxSettledBatchFills m then fills else mx_maxSettledBatchFills m)\<rparr>"

record matcher =
  mt_db :: db
  mt_sender :: sender
  mt_cooldown :: cooldown
  mt_metrics :: matcher_metrics
  mt_stopping :: bool

datatype matcher_error = Tx tx_error | Encode encode_error | Build build_error
  | Chain chain_fault | Out_of_passes

type_synonym 'a matcher_act = "(matcher, matcher_error, 'a) act"

definition on_sender :: "'a sender_act \<Rightarrow> 'a matcher_act" where
  "on_sender m = (\<lambda>s. case m (mt_sender s) of
     (Inl e, t) \<Rightarrow> (Inl (Tx e), s\<lparr>mt_sender := t\<rparr>) | (Inr x, t) \<Rightarrow> (Inr x, s\<lparr>mt_sender := t\<rparr>))"

definition on_db :: "(db \<Rightarrow> db) \<Rightarrow> unit matcher_act" where
  "on_db f = act_mod (\<lambda>s. s\<lparr>mt_db := f (mt_db s)\<rparr>)"

definition tally :: "(matcher_metrics \<Rightarrow> matcher_metrics) \<Rightarrow> unit matcher_act" where
  "tally f = act_mod (\<lambda>s. s\<lparr>mt_metrics := f (mt_metrics s)\<rparr>)"

section \<open>Reservations\<close>

record persist_result =
  ps_inserted :: "hex list"
  ps_existing :: "hex list"

definition pending_row :: "string \<Rightarrow> int \<Rightarrow> planned_fill \<Rightarrow> fill_row" where
  "pending_row network now f =
     \<lparr>fl_network = network, fl_fillId = lower (sf_fillId f), fl_status = PENDING, fl_rejectReason = None,
      fl_marketId = pf_marketId f, fl_maker = lower (od_owner (sf_maker f)), fl_taker = lower (od_owner (sf_taker f)),
      fl_makerOrderHash = lower (pf_makerOrderHash f), fl_takerOrderHash = lower (pf_takerOrderHash f),
      fl_takerIsBuy = pf_takerIsBuy f, fl_size = sf_size f, fl_price = sf_price f,
      fl_txJobId = None, fl_createdAt = now\<rparr>"

text \<open>\<open>INSERT ... ON CONFLICT (network, fillId) DO NOTHING\<close>\<close>

definition has_fill :: "string \<Rightarrow> hex \<Rightarrow> db \<Rightarrow> bool" where
  "has_fill network i d \<longleftrightarrow> (network, i) \<in> set (map (\<lambda>f. (fl_network f, fl_fillId f)) (db_fills d))"

definition persist_one :: "string \<Rightarrow> int \<Rightarrow> planned_fill \<Rightarrow> hex list \<times> db \<Rightarrow> hex list \<times> db" where
  "persist_one network now f x =
     (let (inserted, d) = x
      in if has_fill network (lower (sf_fillId f)) d then (inserted, d)
         else (inserted @ [sf_fillId f], d\<lparr>db_fills := db_fills d @ [pending_row network now f]\<rparr>))"

definition persistPendingFills :: "string \<Rightarrow> int \<Rightarrow> planned_fill list \<Rightarrow> db \<Rightarrow> persist_result \<times> db" where
  "persistPendingFills network now fills d =
     (let (inserted, d') = fold (persist_one network now) fills ([], d)
      in (\<lparr>ps_inserted = inserted,
           ps_existing = filter (\<lambda>i. lower i \<notin> set (map lower inserted)) (map sf_fillId fills)\<rparr>, d'))"

definition linkFillsToJob :: "string \<Rightarrow> hex list \<Rightarrow> string \<Rightarrow> db \<Rightarrow> db" where
  "linkFillsToJob network fillIds txJobId d =
     d\<lparr>db_fills := map (\<lambda>f. if fl_network f = network \<and> fl_fillId f \<in> set (map lower fillIds) \<and> fl_status f = PENDING
                            then f\<lparr>fl_txJobId := Some txJobId\<rparr> else f) (db_fills d)\<rparr>"

definition released :: "string \<Rightarrow> hex list \<Rightarrow> fill_row \<Rightarrow> bool" where
  "released network fillIds f \<longleftrightarrow> fl_network f = network \<and> fl_fillId f \<in> set (map lower fillIds) \<and> fl_status f = PENDING"

definition releasePendingFills :: "string \<Rightarrow> hex list \<Rightarrow> db \<Rightarrow> int \<times> db" where
  "releasePendingFills network fillIds d =
     (int (length (filter (released network fillIds) (db_fills d))),
      d\<lparr>db_fills := filter (\<lambda>f. \<not> released network fillIds f) (db_fills d)\<rparr>)"

section \<open>Submitting\<close>

record submit_options =
  sm_network :: string
  sm_sender :: sender_options
  sm_gateway :: address
  sm_label :: string
  sm_encode :: "planned_fill list \<Rightarrow> hex"

record submitted_batch =
  sd_job :: tx_job
  sd_fills :: "planned_fill list"
  sd_gas :: int

definition submitBatch ::
  "submit_options \<Rightarrow> int \<Rightarrow> (nat \<Rightarrow> submit_view) \<Rightarrow> planned_fill list \<Rightarrow> int \<Rightarrow> submitted_batch matcher_act" where
  "submitBatch opts now env fills gas =
     act_then (on_db (\<lambda>d. snd (persistPendingFills (sm_network opts) now fills d)))
       (act_bind
         (act_catch
           (case encodeSettleFills (sm_encode opts) fills of
              Inl e \<Rightarrow> act_throw (Encode e)
            | Inr data \<Rightarrow> on_sender (submit (sm_sender opts) (Inr 0) env
                \<lparr>tr_to = sm_gateway opts, tr_data = data, tr_value = None, tr_gas = Some gas, tr_label = sm_label opts\<rparr>))
           (\<lambda>err. act_then (on_db (\<lambda>d. snd (releasePendingFills (sm_network opts) (map sf_fillId fills) d)))
                    (act_throw err)))
         (\<lambda>job. act_then (on_db (linkFillsToJob (sm_network opts) (map sf_fillId fills) (tj_id job)))
                  (act_ret \<lparr>sd_job = job, sd_fills = fills, sd_gas = gas\<rparr>)))"

section \<open>Rules\<close>

lemma wp_on_sender [act_wp]:
  "wp (on_sender m) Q E = (\<lambda>s. wp m (\<lambda>x t. Q x (s\<lparr>mt_sender := t\<rparr>)) (\<lambda>e t. E (Tx e) (s\<lparr>mt_sender := t\<rparr>)) (mt_sender s))"
  by (simp add: wp_def on_sender_def fun_eq_iff split: prod.splits sum.splits)

lemma wp_on_db [act_wp]: "wp (on_db f) Q E = (\<lambda>s. Q () (s\<lparr>mt_db := f (mt_db s)\<rparr>))"
  by (simp add: on_db_def wp_mod)

lemma wp_tally [act_wp]: "wp (tally f) Q E = (\<lambda>s. Q () (s\<lparr>mt_metrics := f (mt_metrics s)\<rparr>))"
  by (simp add: tally_def wp_mod)

text \<open>The rows a reservation adds: one for each fill whose id is not there yet.\<close>

fun fresh_fills :: "string \<Rightarrow> hex set \<Rightarrow> planned_fill list \<Rightarrow> planned_fill list" where
  "fresh_fills network ids [] = []"
| "fresh_fills network ids (f # fs) =
     (if lower (sf_fillId f) \<in> ids then fresh_fills network ids fs
      else f # fresh_fills network (insert (lower (sf_fillId f)) ids) fs)"

definition fill_ids :: "string \<Rightarrow> db \<Rightarrow> hex set" where
  "fill_ids network d = {i. has_fill network i d}"

lemma fill_ids_insert:
  "fill_ids network (d\<lparr>db_fills := db_fills d @ [pending_row network now f]\<rparr>) = insert (lower (sf_fillId f)) (fill_ids network d)"
  by (auto simp: fill_ids_def has_fill_def pending_row_def)

lemma persist_fold:
  "fold (persist_one network now) fills (ins, d) =
     (ins @ map sf_fillId (fresh_fills network (fill_ids network d) fills),
      d\<lparr>db_fills := db_fills d @ map (pending_row network now) (fresh_fills network (fill_ids network d) fills)\<rparr>)"
proof (induction fills arbitrary: ins d)
  case Nil
  then show ?case by simp
next
  case (Cons f fs)
  have "has_fill network (lower (sf_fillId f)) d \<longleftrightarrow> lower (sf_fillId f) \<in> fill_ids network d"
    by (simp add: fill_ids_def)
  with Cons show ?case by (simp add: persist_one_def Let_def fill_ids_insert)
qed

lemma persistPendingFills_eq:
  "snd (persistPendingFills network now fills d) =
     d\<lparr>db_fills := db_fills d @ map (pending_row network now) (fresh_fills network (fill_ids network d) fills)\<rparr>"
  "ps_inserted (fst (persistPendingFills network now fills d)) =
     map sf_fillId (fresh_fills network (fill_ids network d) fills)"
  by (simp_all add: persistPendingFills_def persist_fold)

lemma fresh_fills_mset: "mset (fresh_fills network ids fs) \<subseteq># mset fs"
proof (induction fs arbitrary: ids)
  case (Cons f fs)
  have "mset (fresh_fills network ids fs) \<subseteq># add_mset f (mset fs)"
    using Cons [of ids] by (meson subset_mset.order_trans mset_subset_eq_add_right multi_psub_of_add_self subset_mset.less_imp_le)
  then show ?case using Cons by simp
qed simp

lemma fresh_fills_ids:
  "distinct (map (\<lambda>f. lower (sf_fillId f)) (fresh_fills network ids fs))
   \<and> (\<forall>f \<in> set (fresh_fills network ids fs). lower (sf_fillId f) \<notin> ids)"
proof (induction fs arbitrary: ids)
  case (Cons f fs)
  show ?case using Cons [of ids] Cons [of "insert (lower (sf_fillId f)) ids"] by auto
qed simp

lemma fresh_fills_all: "(\<And>f. f \<in> set fs \<Longrightarrow> lower (sf_fillId f) \<in> ids) \<Longrightarrow> fresh_fills network ids fs = []"
  by (induction fs) auto

lemma fresh_fills_covers: "f \<in> set fs \<Longrightarrow> lower (sf_fillId f) \<in> ids \<union> (\<lambda>f. lower (sf_fillId f)) ` set (fresh_fills network ids fs)"
  by (induction fs arbitrary: ids) auto

lemma sum_sub_mset:
  fixes g :: "'a \<Rightarrow> int"
  assumes "mset xs \<subseteq># mset ys" and "\<And>y. y \<in> set ys \<Longrightarrow> 0 \<le> g y"
  shows "sum_list (map g xs) \<le> sum_list (map g ys)"
proof -
  obtain zs where zs: "mset ys = mset xs + mset zs"
    using assms(1) by (metis ex_mset subset_mset.less_eqE)
  then have "set zs \<subseteq> set ys" by (metis set_mset_mset set_mset_union sup_ge2)
  then have "0 \<le> sum_list (map g zs)" using assms(2) by (intro sum_list_nonneg) auto
  moreover have "sum_list (map g ys) = sum_list (map g xs) + sum_list (map g zs)"
    using zs by (metis map_append mset_append mset_map sum_list_append sum_mset_sum_list)
  ultimately show ?thesis by simp
qed

section \<open>No size is committed twice\<close>

text \<open>What is settled and reserved of an order, and that no order is committed beyond its size.\<close>

definition committed :: "db \<Rightarrow> string \<Rightarrow> order_row \<Rightarrow> int" where
  "committed d network r =
     ow_filledSize r + pendingReservation d network (\<lambda>f. fl_marketId f = ow_marketId r) (ow_orderHash r)"

definition book_sound :: "db \<Rightarrow> string \<Rightarrow> bool" where
  "book_sound d network \<longleftrightarrow> (\<forall>r \<in> set (db_orders d). ow_network r = network \<longrightarrow> committed d network r \<le> ow_size r)"

text \<open>The engine input of a tick: some of the book's orders, with its positions and nonces.\<close>

definition tick_input :: "book_data \<Rightarrow> int \<Rightarrow> int \<Rightarrow> (engine_order \<Rightarrow> bool) \<Rightarrow> (int \<Rightarrow> bool) \<Rightarrow> engine_input" where
  "tick_input bk marketId nowSec keep accept =
     \<lparr>ei_marketId = marketId, ei_nowSec = nowSec, ei_orders = filter keep (bk_orders bk), ei_positions = bk_positions bk,
      ei_minValidNonce = bk_minValidNonce bk, ei_minFillNotional = mc_minFillNotional (bk_market bk),
      ei_acceptPrice = Some accept\<rparr>"

lemma tick_input_ok:
  assumes "db_ok d" and "loadBook d network mid now = Inr bk"
  shows "input_ok (tick_input bk mid now keep accept)"
proof -
  have bk: "bk_orders bk = loadOrders d network mid now"
    using assms(2) by (auto simp: loadBook_def Let_def split: sum.splits)
  have "distinct (map eo_orderHash (filter keep (bk_orders bk)))"
    unfolding bk by (rule distinct_map_filter) (rule loadOrders_distinct [OF assms(1)])
  moreover have "0 < eo_limitPrice x" if "x \<in> set (bk_orders bk)" for x
    using that assms(1) unfolding bk by (auto simp: set_loadOrders toEngineOrder_def db_ok_def)
  ultimately show ?thesis by (simp add: input_ok_def tick_input_def)
qed

lemma eligible_row:
  assumes "loadBook d network mid now = Inr bk" and "x \<in> set (eligible_orders (tick_input bk mid now keep accept))"
  shows "\<exists>r \<in> set (db_orders d). ow_network r = network \<and> ow_marketId r = mid \<and> eo_orderHash x = ow_orderHash r
    \<and> eo_size x = ow_size r \<and> eo_filledSize x = committed d network r \<and> eo_owner x = ow_owner r"
proof -
  have "bk_orders bk = loadOrders d network mid now"
    using assms(1) by (auto simp: loadBook_def Let_def split: sum.splits)
  then have "x \<in> set (loadOrders d network mid now)"
    using assms(2) by (auto simp: eligible_orders_eq tick_input_def)
  then show ?thesis by (auto simp: set_loadOrders toEngineOrder_def committed_def)
qed

text \<open>What a run takes of an order, as the planned fills count it.\<close>

lemma run_uses:
  assumes ok: "input_ok i" and x: "x \<in> set (eligible_orders i)"
  shows "sum_list (map (match_uses (eo_orderHash x)) (er_matches (matchOrders i))) \<le> eo_size x - eo_filledSize x"
proof -
  have "\<forall>m \<in> set (er_matches (matchOrders i)). good_match i m"
    using run_inv_run [OF ok] by (simp add: matches_eq run_inv_def)
  then have "matched_size (er_matches (matchOrders i)) (eo_orderHash x)
      = sum_list (map (match_uses (eo_orderHash x)) (er_matches (matchOrders i)))"
    by (intro matched_size_uses) (simp add: good_match_def)
  with run_inv_remaining [OF run_inv_run [OF ok] x] run_inv_ledger [OF run_inv_run [OF ok]]
  show ?thesis by (simp add: matches_eq remaining_replay)
qed

lemma sum_uses_zero:
  fixes g :: "'a \<Rightarrow> int"
  shows "(\<And>m. m \<in> set ms \<Longrightarrow> g m = 0) \<Longrightarrow> sum_list (map g ms) = 0"
  by (induction ms) auto

lemma run_uses_other:
  assumes ok: "input_ok i" and none: "h \<notin> eo_orderHash ` set (eligible_orders i)"
  shows "sum_list (map (match_uses h) (er_matches (matchOrders i))) = 0"
proof (rule sum_uses_zero)
  fix m
  assume "m \<in> set (er_matches (matchOrders i))"
  then have "good_match i m" using run_inv_run [OF ok] by (simp add: matches_eq run_inv_def)
  then have "em_maker m \<in> set (eligible_orders i)" "em_taker m \<in> set (eligible_orders i)"
    by (auto simp: good_match_def doubleton_eq_iff)
  with none show "match_uses h m = 0" by (auto simp: match_uses_def)
qed

lemma reserved_by_fills:
  assumes "\<forall>f \<in> set fs. lower (pf_makerOrderHash f) = pf_makerOrderHash f
      \<and> lower (pf_takerOrderHash f) = pf_takerOrderHash f \<and> 0 \<le> sf_size f"
  shows "sum_list (map (fill_uses h) (filter (reserving network extra) (map (pending_row network now) fs)))
    \<le> sum_list (map (planned_uses h) fs)"
  using assms
proof (induction fs)
  case (Cons f fs)
  have "fill_uses h (pending_row network now f) = planned_uses h f" and "0 \<le> planned_uses h f"
    using Cons.prems by (simp_all add: fill_uses_def pending_row_def planned_uses_def)
  with Cons show ?case by (auto simp: add_increasing)
qed simp

lemma eligible_hash_lower:
  assumes "db_ok d" and "loadBook d network mid now = Inr bk"
    and "x \<in> set (eligible_orders (tick_input bk mid now keep accept))"
  shows "lower (eo_orderHash x) = eo_orderHash x"
  using eligible_row [OF assms(2,3)] assms(1) by (auto simp: db_ok_def)

text \<open>The fills a tick plans name their orders in lower case and have no negative size.\<close>

lemma tick_fill_shape:
  assumes db: "db_ok d" and bk: "loadBook d network mid now = Inr bk"
    and offered: "mset offered \<subseteq># mset (er_matches (matchOrders (tick_input bk mid now keep accept)))"
    and built: "buildFills keccak getAddress d network offered = Inr fills" and f: "f \<in> set fills"
  shows "lower (pf_makerOrderHash f) = pf_makerOrderHash f \<and> lower (pf_takerOrderHash f) = pf_takerOrderHash f \<and> 0 \<le> sf_size f"
proof -
  let ?i = "tick_input bk mid now keep accept"
  have good: "good_match ?i m" if "m \<in> set offered" for m
    using that offered mset_subset_eqD run_inv_run [OF tick_input_ok [OF db bk]]
    by (fastforce simp: matches_eq run_inv_def)
  have "em_maker m \<in> set (eligible_orders ?i) \<and> em_taker m \<in> set (eligible_orders ?i)"
    if "m \<in> set offered" for m using good [OF that] by (auto simp: good_match_def doubleton_eq_iff)
  moreover have "0 \<le> em_size m" if "m \<in> set offered" for m using good [OF that] by (simp add: good_match_def)
  ultimately show ?thesis
    using buildFills_result(2) [OF built] f eligible_hash_lower [OF db bk] by (fastforce simp: carries_def)
qed

text \<open>What reserving a part of a tick's fills adds to an order is at most what the run matched on it.\<close>

lemma tick_adds_at_most:
  assumes db: "db_ok d" and bk: "loadBook d network mid now = Inr bk"
    and offered: "mset offered \<subseteq># mset (er_matches (matchOrders (tick_input bk mid now keep accept)))"
    and built: "buildFills keccak getAddress d network offered = Inr fills"
    and sub: "mset fs \<subseteq># mset fills"
  shows "sum_list (map (fill_uses h) (filter (reserving network extra) (map (pending_row network t) fs)))
    \<le> sum_list (map (match_uses h) (er_matches (matchOrders (tick_input bk mid now keep accept))))"
proof -
  let ?i = "tick_input bk mid now keep accept"
  let ?ms = "er_matches (matchOrders ?i)"
  have in_ms: "m \<in> set ?ms" if "m \<in> set offered" for m using that offered mset_subset_eqD by fastforce
  have good: "good_match ?i m" if "m \<in> set ?ms" for m
    using that run_inv_run [OF tick_input_ok [OF db bk]] by (simp add: matches_eq run_inv_def)
  have pos: "0 \<le> em_size m" if "m \<in> set ?ms" for m using good [OF that] by (simp add: good_match_def)
  note shape = tick_fill_shape [OF db bk offered built]
  have "set fs \<subseteq> set fills" using sub mset_subset_eqD by fastforce
  then have "sum_list (map (fill_uses h) (filter (reserving network extra) (map (pending_row network t) fs)))
      \<le> sum_list (map (planned_uses h) fs)" using shape by (intro reserved_by_fills) blast
  also have "\<dots> \<le> sum_list (map (planned_uses h) fills)"
    using sub by (rule sum_sub_mset) (use shape in \<open>simp add: planned_uses_def\<close>)
  also have "\<dots> \<le> sum_list (map (match_uses h) offered)" using pos in_ms by (intro buildFills_result(3) [OF built]) simp
  also have "\<dots> \<le> sum_list (map (match_uses h) ?ms)"
    using pos offered by (intro sum_sub_mset) (simp_all add: match_uses_def)
  finally show ?thesis .
qed

text \<open>A run takes of an order at most what is not committed of it.\<close>

lemma matched_fits:
  assumes db: "db_ok d" "book_sound d network" and bk: "loadBook d network mid now = Inr bk"
    and r: "r \<in> set (db_orders d)" "ow_network r = network"
  shows "committed d network r
    + sum_list (map (match_uses (ow_orderHash r)) (er_matches (matchOrders (tick_input bk mid now keep accept)))) \<le> ow_size r"
proof (cases "ow_orderHash r \<in> eo_orderHash ` set (eligible_orders (tick_input bk mid now keep accept))")
  case False
  with run_uses_other [OF tick_input_ok [OF db(1) bk] False] db(2) r show ?thesis by (auto simp: book_sound_def)
next
  case True
  let ?i = "tick_input bk mid now keep accept"
  obtain x where x: "x \<in> set (eligible_orders ?i)" "eo_orderHash x = ow_orderHash r" using True by auto
  from eligible_row [OF bk x(1)] obtain r' where r': "r' \<in> set (db_orders d)" "ow_orderHash r' = ow_orderHash r"
    "eo_size x = ow_size r'" "eo_filledSize x = committed d network r'" using x(2) by auto
  have "r' = r" using r r' db(1) by (auto simp: db_ok_def distinct_map dest: inj_onD)
  with r' run_uses [OF tick_input_ok [OF db(1) bk] x(1)] x(2) show ?thesis by simp
qed

text \<open>
  C13. No size is committed twice. Take a database whose orders are nowhere committed beyond their
  size (settled plus pending). Match one market's book (with any orders held back and any
  price test), drop any of the matches, build the fills, and reserve any part of them: every
  order's settled and reserved size is still at most its size. The reservation ledger thus
  carries the guarantee from tick to tick.
\<close>

theorem reservations_never_overcommit:
  assumes db: "db_ok d" "book_sound d network" and bk: "loadBook d network mid now = Inr bk"
    and offered: "mset offered \<subseteq># mset (er_matches (matchOrders (tick_input bk mid now keep accept)))"
    and built: "buildFills keccak getAddress d network offered = Inr fills"
    and part: "mset batch \<subseteq># mset fills"
  shows "book_sound (snd (persistPendingFills network t batch d)) network"
  unfolding book_sound_def persistPendingFills_eq
proof (intro ballI impI)
  let ?i = "tick_input bk mid now keep accept"
  let ?fresh = "fresh_fills network (fill_ids network d) batch"
  let ?d = "d\<lparr>db_fills := db_fills d @ map (pending_row network t) ?fresh\<rparr>"
  have sub: "mset ?fresh \<subseteq># mset fills" using fresh_fills_mset part by (rule subset_mset.order_trans)
  fix r
  assume "r \<in> set (db_orders ?d)" and net: "ow_network r = network"
  then have r: "r \<in> set (db_orders d)" by simp
  have "committed ?d network r \<le> committed d network r + sum_list (map (match_uses (ow_orderHash r)) (er_matches (matchOrders ?i)))"
    using tick_adds_at_most [OF db(1) bk offered built sub] by (simp add: committed_def reservation_append)
  then show "committed ?d network r \<le> ow_size r" using matched_fits [OF db bk r net] by (rule order_trans)
qed

definition sample_row :: "hex \<Rightarrow> address \<Rightarrow> bool \<Rightarrow> int \<Rightarrow> int \<Rightarrow> order_row" where
  "sample_row h owner isLong filled createdAt =
     \<lparr>ow_network = ''arc'', ow_orderHash = h, ow_owner = owner, ow_marketId = 1, ow_isLong = isLong, ow_size = 9,
      ow_limitPrice = 10 ^ 18, ow_reduceOnly = False, ow_nonce = 0, ow_expiry = 2000, ow_referrer = None,
      ow_signature = ''0x5'', ow_status = OPEN, ow_filledSize = filled, ow_createdAt = createdAt\<rparr>"

definition sample_params :: "string \<Rightarrow> int option" where
  "sample_params = [''minFillNotional'' \<mapsto> 1, ''maxExecutionDeviationBps'' \<mapsto> 100,
     ''maxOracleAge'' \<mapsto> 60, ''maxOracleConfidenceBps'' \<mapsto> 50]"

definition sample_db :: db where
  "sample_db = \<lparr>db_markets = [\<lparr>mr_network = ''arc'', mr_id = 1, mr_symbol = ''BTC'', mr_oracleId = ''0x0'',
       mr_active = True, mr_params = sample_params, mr_paramsOracleId = None\<rparr>],
     db_orders = [sample_row ''0xa'' ''0x1'' True 2 10, sample_row ''0xb'' ''0x2'' False 0 20],
     db_fills = [], db_positions = [], db_accounts = []\<rparr>"

definition sample_bk :: book_data where
  "sample_bk = projr (loadBook sample_db ''arc'' 1 1000)"

definition sample_matches :: "engine_match list" where
  "sample_matches = er_matches (matchOrders (tick_input sample_bk 1 1000 (\<lambda>_. True) (\<lambda>_. True)))"

definition sample_hash :: fill_hash where
  "sample_hash k = (case k of (mk, tk, _, _, n) \<Rightarrow> mk @ tk @ (if n = 0 then ''0'' else ''1''))"

definition sample_fills :: "planned_fill list" where
  "sample_fills = projr (buildFills sample_hash id sample_db ''arc'' sample_matches)"

lemma sample_bk_loaded: "loadBook sample_db ''arc'' 1 1000 = Inr sample_bk"
  by (simp add: sample_bk_def loadBook_def loadMarket_def sample_db_def param_def sample_params_def Let_def)

lemma sample_fills_built: "buildFills sample_hash id sample_db ''arc'' sample_matches = Inr sample_fills"
proof -
  have "\<not> isl (buildFills sample_hash id sample_db ''arc'' sample_matches)" by code_simp
  then show ?thesis by (simp add: sample_fills_def)
qed

lemma sample_fills_sizes: "map (\<lambda>f. (sf_fillId f, sf_size f)) sample_fills = [(''0xa0xb0'', 7)]"
  by code_simp

lemma sample_db_ok: "db_ok sample_db"
proof -
  have "lower ''0xa'' = ''0xa''" "lower ''0xb'' = ''0xb''" by code_simp+
  then show ?thesis by (simp add: db_ok_def sample_db_def sample_row_def)
qed

lemma sample_db_sound: "book_sound sample_db ''arc''"
  by (simp add: book_sound_def sample_db_def sample_row_def committed_def pendingReservation_def)

theorem reservations_never_overcommit_witness:
  "book_sound (snd (persistPendingFills ''arc'' 5 sample_fills sample_db)) ''arc''"
proof (rule reservations_never_overcommit [OF sample_db_ok sample_db_sound sample_bk_loaded _ sample_fills_built])
  show "mset sample_matches \<subseteq># mset (er_matches (matchOrders (tick_input sample_bk 1 1000 (\<lambda>_. True) (\<lambda>_. True))))"
    by (simp add: sample_matches_def)
qed simp

section \<open>Replays and failures\<close>

lemma has_fill_append: "has_fill network i (d\<lparr>db_fills := db_fills d @ fs\<rparr>) \<longleftrightarrow>
    has_fill network i d \<or> (\<exists>f \<in> set fs. fl_network f = network \<and> fl_fillId f = i)"
  by (auto simp: has_fill_def)

text \<open>
  Reserving is idempotent: reserving the same batch again changes nothing and reports every
  fill as already reserved, and a reservation touches no row that was there before. So a retry
  of a batch after a crash reserves no size a second time.
\<close>

theorem persist_idempotent:
  "let d1 = snd (persistPendingFills network t fills d)
   in snd (persistPendingFills network t' fills d1) = d1
    \<and> fst (persistPendingFills network t' fills d1) = \<lparr>ps_inserted = [], ps_existing = map sf_fillId fills\<rparr>
    \<and> (\<exists>rows. db_fills d1 = db_fills d @ rows) \<and> db_orders d1 = db_orders d"
proof -
  let ?d1 = "snd (persistPendingFills network t fills d)"
  have "lower (sf_fillId f) \<in> fill_ids network ?d1" if "f \<in> set fills" for f
    using fresh_fills_covers [OF that, of "fill_ids network d" network]
    by (auto simp: persistPendingFills_eq fill_ids_def has_fill_append pending_row_def)
  then have none: "fresh_fills network (fill_ids network ?d1) fills = []" by (rule fresh_fills_all)
  have "fst (persistPendingFills network t' fills ?d1) = \<lparr>ps_inserted = [], ps_existing = map sf_fillId fills\<rparr>"
    using none by (simp add: persistPendingFills_def persist_fold)
  moreover have "snd (persistPendingFills network t' fills ?d1) = ?d1"
    unfolding persistPendingFills_eq(1) [of network t' fills ?d1] none by simp
  ultimately show ?thesis by (simp add: Let_def persistPendingFills_eq)
qed

text \<open>
  C14. A batch that could not be encoded or broadcast holds no size, and costs nobody else theirs:
  when \<open>submitBatch\<close> throws, the database is the one it started from without the rows of the
  batch's fills that are pending. Every other row stays, in its place and as it was, also a settled
  or rejected row of one of the batch's own fill ids, and no other table changes.
\<close>

theorem failed_submit_releases:
  assumes "submitBatch opts now env fills gas s = (Inl e, t)"
  shows "mt_db t = (mt_db s)\<lparr>db_fills := filter (\<lambda>f. \<not> (fl_network f = sm_network opts
      \<and> fl_fillId f \<in> (\<lambda>x. lower (sf_fillId x)) ` set fills \<and> fl_status f = PENDING)) (db_fills (mt_db s))\<rparr>"
proof -
  let ?n = "sm_network opts" and ?ids = "map sf_fillId fills"
  define E :: "matcher_error \<Rightarrow> matcher \<Rightarrow> bool" where
    "E = (\<lambda>_ t. mt_db t = (mt_db s)\<lparr>db_fills := filter (\<lambda>f. \<not> released ?n ?ids f) (db_fills (mt_db s))\<rparr>)"
  have "f \<in> set fills" if "f \<in> set (fresh_fills ?n ids fills)" for f ids
    using that mset_subset_eqD [OF fresh_fills_mset] by (metis set_mset_mset)
  then have "snd (releasePendingFills ?n ?ids (snd (persistPendingFills ?n now fills (mt_db s))))
      = (mt_db s)\<lparr>db_fills := filter (\<lambda>f. \<not> released ?n ?ids f) (db_fills (mt_db s))\<rparr>"
    by (auto simp: releasePendingFills_def persistPendingFills_eq released_def pending_row_def filter_empty_conv)
  then have rel: "E e (u\<lparr>mt_db := snd (releasePendingFills ?n ?ids (snd (persistPendingFills ?n now fills (mt_db s))))\<rparr>)" for e u
    by (simp add: E_def)
  have "wp (submitBatch opts now env fills gas) (\<lambda>_ _. True) E s"
    unfolding submitBatch_def act_wp
    by (cases "encodeSettleFills (sm_encode opts) fills") (simp_all add: act_wp rel wp_any)
  from wp_error [OF this assms] show ?thesis by (simp add: E_def released_def image_image)
qed

definition sample_submit :: submit_options where
  "sample_submit = \<lparr>sm_network = ''arc'', sm_sender = sample_options, sm_gateway = ''0xg'', sm_label = ''settleFillsSigned:BTC'',
     sm_encode = (\<lambda>_. ''0x'')\<rparr>"

definition sample_matcher :: matcher where
  "sample_matcher = \<lparr>mt_db = sample_db, mt_sender = fresh_sender, mt_cooldown = [], mt_metrics = newMetrics, mt_stopping = False\<rparr>"

text \<open>
  A batch whose first fill has settled meanwhile, whose second was reserved by an earlier attempt,
  and which names the second one twice, so that encoding it fails.
\<close>

definition retry_batch :: "planned_fill list" where
  "retry_batch = sample_fills @ map (sf_fillId_update (\<lambda>_. ''0xn'')) (sample_fills @ sample_fills)"

definition retry_rows :: "fill_row list" where
  "retry_rows = map (pending_row ''arc'' 1) (take 2 retry_batch)"

definition retry_landed :: "fill_row list" where
  "retry_landed = map (fl_status_update (\<lambda>_. SETTLED)) (take 1 retry_rows)"

definition retry_matcher :: matcher where
  "retry_matcher = sample_matcher\<lparr>mt_db := sample_db\<lparr>db_fills := retry_landed @ drop 1 retry_rows\<rparr>\<rparr>"

theorem failed_submit_releases_witness:
  "db_fills (mt_db retry_matcher) = retry_landed @ drop 1 retry_rows \<and> length retry_landed = 1 \<and> length retry_rows = 2
   \<and> db_fills (mt_db (snd (submitBatch sample_submit 5 sample_submit_view retry_batch 0 retry_matcher))) = retry_landed"
proof -
  let ?r = "submitBatch sample_submit 5 sample_submit_view retry_batch 0 retry_matcher"
  have "length sample_fills = 1" using arg_cong [OF sample_fills_sizes, of length] by simp
  then obtain f where f: "sample_fills = [f]" by (metis One_nat_def length_0_conv length_Suc_conv)
  have id: "sf_fillId f = ''0xa0xb0''" using sample_fills_sizes by (simp add: f)
  have low: "lower ''0xn'' = ''0xn''" "lower ''0xa0xb0'' = ''0xa0xb0''" by code_simp+
  have "encodeSettleFills (sm_encode sample_submit) retry_batch = Inl Duplicate_fill_id"
    unfolding f retry_batch_def by (simp add: encodeSettleFills_def MAX_FILLS_PER_BATCH_def)
  then have "fst ?r = Inl (Encode Duplicate_fill_id)"
    by (simp add: submitBatch_def act_defs on_db_def)
  then have "?r = (Inl (Encode Duplicate_fill_id), snd ?r)" by (metis prod.collapse)
  from failed_submit_releases [OF this] show ?thesis
    by (simp add: sample_submit_def retry_matcher_def retry_batch_def retry_rows_def retry_landed_def f id low pending_row_def)
qed

end
