(* ===== verification/Matcher_Apply.thy ===== *)
theory Matcher_Apply
  imports Matcher_Submit
begin

text \<open>
  Applying a batch's receipt, \<open>client/lib/matcher/apply.ts\<close>: what a rejection means, which of the
  two orders it is the fault of, and what is written. Signature recovery and the ERC-1271 call
  are parameters that may fail; the typed data they hash is a function of the order.
\<close>

section \<open>Classification\<close>

datatype retire_status = Retire_cancelled | Retire_expired

datatype rejection_action =
    Retryable string
  | Poison string retire_status
  | Matcher_bug string

definition POISON :: "string \<Rightarrow> retire_status option" where
  "POISON = [''InvalidSignature'' \<mapsto> Retire_cancelled, ''OrderCancelled'' \<mapsto> Retire_cancelled,
     ''NonceReused'' \<mapsto> Retire_cancelled, ''OrderExpired'' \<mapsto> Retire_expired]"

definition MATCHER_BUGS :: "string list" where
  "MATCHER_BUGS = [''SelfTrade'', ''DirectionMismatch'', ''InvalidConfig'', ''InvalidAmount'',
     ''FillBelowMinNotional'', ''BatchTooLarge'', ''OnlySelf'']"

definition classifyRejection :: "string option \<Rightarrow> hex \<Rightarrow> rejection_action" where
  "classifyRejection errorName raw =
     (case errorName of
        None \<Rightarrow> Retryable (''unknown revert '' @ take 18 raw)
      | Some n \<Rightarrow>
          if n = [] then Retryable n
          else case POISON n of
            Some st \<Rightarrow> Poison n st
          | None \<Rightarrow> if n \<in> set MATCHER_BUGS then Matcher_bug n else Retryable n)"

definition action_reason :: "rejection_action \<Rightarrow> string" where
  "action_reason a = (case a of Retryable r \<Rightarrow> r | Poison r _ \<Rightarrow> r | Matcher_bug r \<Rightarrow> r)"

section \<open>Blame\<close>

record apply_context =
  ax_network :: string
  ax_nowSec :: int
  ax_minValidNonce :: "address \<Rightarrow> int option"
  ax_recover :: "order \<Rightarrow> hex \<Rightarrow> string + address"
  ax_digest :: "order \<Rightarrow> hex"
  ax_erc1271 :: "(address \<Rightarrow> hex \<Rightarrow> hex \<Rightarrow> string + bool) option"

record side =
  sd_hash :: hex
  sd_order :: order
  sd_signature :: hex

definition fill_sides :: "planned_fill \<Rightarrow> side list" where
  "fill_sides f = [\<lparr>sd_hash = pf_makerOrderHash f, sd_order = sf_maker f, sd_signature = sf_makerSignature f\<rparr>,
     \<lparr>sd_hash = pf_takerOrderHash f, sd_order = sf_taker f, sd_signature = sf_takerSignature f\<rparr>]"

text \<open>The side's signature is known bad: ECDSA does not clear it, and its owner was asked and said no.\<close>

definition bad_signature :: "apply_context \<Rightarrow> side \<Rightarrow> bool" where
  "bad_signature ctx s =
     (let ok = (case ax_recover ctx (sd_order s) (sd_signature s) of
                  Inl _ \<Rightarrow> False | Inr signer \<Rightarrow> lower signer = lower (od_owner (sd_order s)))
      in if ok then False
         else case ax_erc1271 ctx of
                None \<Rightarrow> False
              | Some check \<Rightarrow>
                  (case check (od_owner (sd_order s)) (ax_digest ctx (sd_order s)) (sd_signature s) of
                     Inl _ \<Rightarrow> False | Inr valid \<Rightarrow> \<not> valid))"

definition blameForPoison :: "apply_context \<Rightarrow> planned_fill \<Rightarrow> string \<Rightarrow> retire_status \<Rightarrow> hex list" where
  "blameForPoison ctx f reason status =
     (if status = Retire_expired
      then map sd_hash (filter (\<lambda>s. od_expiry (sd_order s) \<le> ax_nowSec ctx) (fill_sides f))
      else if reason = ''OrderCancelled''
      then map sd_hash (filter (\<lambda>s. od_nonce (sd_order s)
             < get_or (ax_minValidNonce ctx) (lower (od_owner (sd_order s))) 0) (fill_sides f))
      else if reason = ''InvalidSignature''
      then map sd_hash (filter (bad_signature ctx) (fill_sides f))
      else [])"

section \<open>Writing\<close>

definition recordRejection :: "string \<Rightarrow> hex \<Rightarrow> string \<Rightarrow> db \<Rightarrow> db" where
  "recordRejection network fillId reason d =
     d\<lparr>db_fills := map (\<lambda>f. if fl_network f = network \<and> fl_fillId f = lower fillId \<and> fl_status f = PENDING
                            then f\<lparr>fl_rejectReason := Some (take 500 reason)\<rparr> else f) (db_fills d)\<rparr>"

definition retired_status :: "retire_status \<Rightarrow> order_status" where
  "retired_status st = (case st of Retire_cancelled \<Rightarrow> CANCELLED | Retire_expired \<Rightarrow> EXPIRED)"

definition retires :: "string \<Rightarrow> hex \<Rightarrow> order_row \<Rightarrow> bool" where
  "retires network h r \<longleftrightarrow> ow_network r = network \<and> ow_orderHash r = lower h
     \<and> ow_status r \<in> {OPEN, PARTIALLY_FILLED}"

definition retireOrder :: "string \<Rightarrow> hex \<Rightarrow> retire_status \<Rightarrow> db \<Rightarrow> bool \<times> db" where
  "retireOrder network h st d =
     (list_ex (retires network h) (db_orders d),
      d\<lparr>db_orders := map (\<lambda>r. if retires network h r then r\<lparr>ow_status := retired_status st\<rparr> else r) (db_orders d)\<rparr>)"

record applied_batch =
  ap_settled :: "hex list"
  ap_rejected :: "(hex \<times> rejection_action) list"
  ap_retired :: "(hex \<times> retire_status) list"
  ap_unaccounted :: "hex list"
  ap_matcherBugs :: "(hex \<times> string) list"
  ap_unblamed :: "hex list"

fun retire_all :: "string \<Rightarrow> retire_status \<Rightarrow> hex list \<Rightarrow> db \<times> applied_batch \<Rightarrow> db \<times> applied_batch" where
  "retire_all network st [] x = x"
| "retire_all network st (h # hs) (d, a) =
     (let (done, d') = retireOrder network h st d
      in retire_all network st hs (d', if done then a\<lparr>ap_retired := ap_retired a @ [(h, st)]\<rparr> else a))"

definition apply_rejection ::
  "apply_context \<Rightarrow> (hex \<Rightarrow> planned_fill option) \<Rightarrow> rejected_fill \<Rightarrow> db \<times> applied_batch \<Rightarrow> db \<times> applied_batch" where
  "apply_rejection ctx byId r x =
     (let (d0, a0) = x;
          action = classifyRejection (rj_errorName r) (rj_reason r);
          a1 = a0\<lparr>ap_rejected := ap_rejected a0 @ [(rj_fillId r, action)]\<rparr>;
          d1 = recordRejection (ax_network ctx) (rj_fillId r) (action_reason action) d0
      in case action of
           Matcher_bug reason \<Rightarrow> (d1, a1\<lparr>ap_matcherBugs := ap_matcherBugs a1 @ [(rj_fillId r, reason)]\<rparr>)
         | Retryable _ \<Rightarrow> (d1, a1)
         | Poison reason st \<Rightarrow>
             (case byId (lower (rj_fillId r)) of
                None \<Rightarrow> (d1, a1)
              | Some f \<Rightarrow>
                  let blamed = blameForPoison ctx f reason st
                  in if blamed = [] then (d1, a1\<lparr>ap_unblamed := ap_unblamed a1 @ [rj_fillId r]\<rparr>)
                     else retire_all (ax_network ctx) st blamed (d1, a1)))"

definition applyBatchResult ::
  "apply_context \<Rightarrow> planned_fill list \<Rightarrow> batch_result \<Rightarrow> db \<Rightarrow> db \<times> applied_batch" where
  "applyBatchResult ctx fills result d =
     (let byId = map_of_rows (map (\<lambda>f. (lower (sf_fillId f), f)) fills)
      in fold (apply_rejection ctx byId) (br_rejected result)
           (d, \<lparr>ap_settled = map st_fillId (br_settled result), ap_rejected = [], ap_retired = [],
                ap_unaccounted = unaccountedFills fills result, ap_matcherBugs = [], ap_unblamed = []\<rparr>))"

definition resultFromReceipt :: "error_abi \<Rightarrow> chain_log list \<Rightarrow> address \<Rightarrow> batch_result" where
  "resultFromReceipt decodeError logs gateway = decodeBatchLogs decodeError logs gateway"

section \<open>Why a batch reverted\<close>

text \<open>
  An error as the search for revert data sees it: a chain of causes, each with an optional
  \<open>data\<close> that is a string or an object with its own \<open>data\<close> string.
\<close>

datatype err_data = No_data | Data_string hex | Data_object "hex option"

datatype err_node = Err err_data "err_node option"

definition hex_string :: "hex \<Rightarrow> bool" where
  "hex_string h \<longleftrightarrow> take 2 h = ''0x''"

fun revert_data_depth :: "nat \<Rightarrow> err_node option \<Rightarrow> hex option" where
  "revert_data_depth 0 node = None"
| "revert_data_depth (Suc k) None = None"
| "revert_data_depth (Suc k) (Some (Err data cause)) =
     (case data of
        Data_string h \<Rightarrow> if hex_string h then Some h else revert_data_depth k cause
      | Data_object (Some h) \<Rightarrow> if hex_string h then Some h else revert_data_depth k cause
      | _ \<Rightarrow> revert_data_depth k cause)"

definition revertDataOf :: "err_node \<Rightarrow> hex option" where
  "revertDataOf e = revert_data_depth 8 (Some e)"

text \<open>The replayed call answers with nothing (it succeeded) or an error; the name is its decoding.\<close>

definition revertReasonFor :: "error_abi \<Rightarrow> err_node option \<Rightarrow> decoded_error" where
  "revertReasonFor decodeError call =
     (case call of None \<Rightarrow> no_error
      | Some e \<Rightarrow> (case revertDataOf e of None \<Rightarrow> no_error
                  | Some h \<Rightarrow> if h = [] then no_error else decodeRevert decodeError h))"

section \<open>What applying changes\<close>

lemma retireOrder_fills [simp]: "db_fills (snd (retireOrder n h st d)) = db_fills d"
  by (simp add: retireOrder_def)

lemma recordRejection_orders [simp]: "db_orders (recordRejection n i r d) = db_orders d"
  by (simp add: recordRejection_def)

lemma retire_all_fills: "db_fills (fst (retire_all n st hs (d, a))) = db_fills d"
  by (induction hs arbitrary: d a) (simp_all add: Let_def retireOrder_def)

lemma apply_rejection_fills:
  "db_fills (fst (apply_rejection ctx byId r (d, a))) =
     db_fills (recordRejection (ax_network ctx) (rj_fillId r) (action_reason (classifyRejection (rj_errorName r) (rj_reason r))) d)"
  by (simp add: apply_rejection_def Let_def retire_all_fills split: rejection_action.splits option.splits)

text \<open>\<open>tagged ids f f'\<close>: \<open>f'\<close> is \<open>f\<close>, with a reject reason if it is pending and among \<open>ids\<close>.\<close>

definition tagged :: "string \<Rightarrow> hex set \<Rightarrow> fill_row \<Rightarrow> fill_row \<Rightarrow> bool" where
  "tagged network ids f f' \<longleftrightarrow>
     (if fl_network f = network \<and> fl_fillId f \<in> ids \<and> fl_status f = PENDING
      then \<exists>w. f' = f\<lparr>fl_rejectReason := Some w\<rparr> else f' = f)"

lemma tagged_trans: "tagged n A f g \<Longrightarrow> tagged n B g h \<Longrightarrow> tagged n (A \<union> B) f h"
  by (auto simp: tagged_def split: if_splits)

lemma tagged_record: "list_all2 (tagged network {lower i}) (db_fills d) (db_fills (recordRejection network i r d))"
  by (auto simp: recordRejection_def list_all2_map2 tagged_def intro!: list.rel_refl)

lemma fold_apply_tagged:
  "list_all2 (tagged (ax_network ctx) (lower ` rj_fillId ` set rs)) (db_fills d)
     (db_fills (fst (fold (apply_rejection ctx byId) rs (d, a))))"
proof (induction rs arbitrary: d a)
  case Nil
  then show ?case by (auto simp: tagged_def intro!: list.rel_refl)
next
  case (Cons r rs)
  obtain d1 a1 where x: "apply_rejection ctx byId r (d, a) = (d1, a1)" by (cases "apply_rejection ctx byId r (d, a)")
  have "list_all2 (tagged (ax_network ctx) {lower (rj_fillId r)}) (db_fills d) (db_fills d1)"
    using apply_rejection_fills [of ctx byId r d a] tagged_record unfolding x by simp
  then have "list_all2 (tagged (ax_network ctx) ({lower (rj_fillId r)} \<union> lower ` rj_fillId ` set rs)) (db_fills d)
      (db_fills (fst (fold (apply_rejection ctx byId) rs (d1, a1))))"
    using Cons [of d1 a1] by (rule list_all2_trans [rotated]) (rule tagged_trans)
  then show ?case by (simp add: x)
qed

lemma applied_tagged:
  "list_all2 (tagged (ax_network ctx) (lower ` rj_fillId ` set (br_rejected result))) (db_fills d)
     (db_fills (fst (applyBatchResult ctx fills result d)))"
  by (simp add: applyBatchResult_def Let_def fold_apply_tagged)

definition rejected_ids :: "batch_result \<Rightarrow> hex set" where
  "rejected_ids result = lower ` rj_fillId ` set (br_rejected result)"

lemma tagged_reserving:
  assumes "tagged network ids f f'"
  shows "reserving network (\<lambda>f. fl_marketId f = mid) f' \<longleftrightarrow>
      reserving network (\<lambda>f. fl_marketId f = mid) f \<and> fl_fillId f \<notin> ids"
    and "fill_uses h f' = fill_uses h f" and "fl_status f' = fl_status f"
proof -
  have "(fl_network f = network \<and> fl_fillId f \<in> ids \<and> fl_status f = PENDING \<and> (\<exists>w. f' = f\<lparr>fl_rejectReason := Some w\<rparr>))
      \<or> (\<not> (fl_network f = network \<and> fl_fillId f \<in> ids \<and> fl_status f = PENDING) \<and> f' = f)"
    using assms by (simp add: tagged_def split: if_splits)
  then consider w where "fl_network f = network" "fl_fillId f \<in> ids" "f' = f\<lparr>fl_rejectReason := Some w\<rparr>"
    | "\<not> (fl_network f = network \<and> fl_fillId f \<in> ids \<and> fl_status f = PENDING)" "f' = f" by blast
  note cases = this
  show "reserving network (\<lambda>f. fl_marketId f = mid) f' \<longleftrightarrow>
      reserving network (\<lambda>f. fl_marketId f = mid) f \<and> fl_fillId f \<notin> ids"
    using cases by cases (simp_all add: reserving_def, blast)
  show "fill_uses h f' = fill_uses h f" using cases by cases (simp_all add: fill_uses_def)
  show "fl_status f' = fl_status f" using cases by cases simp_all
qed

lemma tagged_list:
  assumes "list_all2 (tagged network ids) fs fs'"
  shows "map (fill_uses h) (filter (reserving network (\<lambda>f. fl_marketId f = mid)) fs') =
      map (fill_uses h) (filter (\<lambda>f. reserving network (\<lambda>f. fl_marketId f = mid) f \<and> fl_fillId f \<notin> ids) fs)"
  using assms
proof (induction rule: list_all2_induct)
  case (Cons f fs f' fs')
  then show ?case using tagged_reserving(1,2) [OF Cons(1)] by simp
qed simp

lemma tagged_status: "list_all2 (tagged network ids) fs fs' \<Longrightarrow> map fl_status fs' = map fl_status fs"
  by (induction rule: list_all2_induct) (simp_all add: tagged_reserving(3))

text \<open>
  C15. Applying a receipt frees exactly what was rejected. Afterwards the size reserved on any
  order is the sum over the pending fills that were reserving before and are not among the
  rejected ids; no fill's status is changed (only the indexer settles or rejects), so what
  settled, and what the receipt does not mention, stays reserved.
\<close>

theorem rejections_free_exactly_their_size:
  "pendingReservation (fst (applyBatchResult ctx fills result d)) (ax_network ctx) (\<lambda>f. fl_marketId f = mid) h
     = sum_list (map (fill_uses h) (filter (\<lambda>f. reserving (ax_network ctx) (\<lambda>f. fl_marketId f = mid) f
          \<and> fl_fillId f \<notin> rejected_ids result) (db_fills d)))
   \<and> map fl_status (db_fills (fst (applyBatchResult ctx fills result d))) = map fl_status (db_fills d)"
  using tagged_list [OF applied_tagged, where h = h and mid = mid] tagged_status [OF applied_tagged]
  by (simp add: pendingReservation_def rejected_ids_def)

section \<open>Who is retired\<close>

text \<open>The side is at fault in the way its retirement says, by the order's own fields.\<close>

definition at_fault :: "apply_context \<Rightarrow> retire_status \<Rightarrow> side \<Rightarrow> bool" where
  "at_fault ctx st s \<longleftrightarrow>
     (case st of
        Retire_expired \<Rightarrow> od_expiry (sd_order s) \<le> ax_nowSec ctx
      | Retire_cancelled \<Rightarrow>
          od_nonce (sd_order s) < get_or (ax_minValidNonce ctx) (lower (od_owner (sd_order s))) 0
          \<or> bad_signature ctx s)"

lemma blame_at_fault:
  "h \<in> set (blameForPoison ctx f reason st) \<Longrightarrow> \<exists>s \<in> set (fill_sides f). sd_hash s = h \<and> at_fault ctx st s"
  by (cases st) (auto simp: blameForPoison_def at_fault_def split: if_splits)

definition just :: "apply_context \<Rightarrow> planned_fill list \<Rightarrow> hex \<times> retire_status \<Rightarrow> bool" where
  "just ctx fills x \<longleftrightarrow> (\<exists>f \<in> set fills. \<exists>s \<in> set (fill_sides f). sd_hash s = fst x \<and> at_fault ctx (snd x) s)"

text \<open>An order row is unchanged, or was live and took the status of a retirement on the list.\<close>

definition retired_by :: "(hex \<times> retire_status) set \<Rightarrow> order_row \<Rightarrow> order_row \<Rightarrow> bool" where
  "retired_by R r r' \<longleftrightarrow> r' = r \<or> ow_status r \<in> {OPEN, PARTIALLY_FILLED} \<and>
     (\<exists>h st. (h, st) \<in> R \<and> ow_orderHash r = lower h \<and> r' = r\<lparr>ow_status := retired_status st\<rparr>)"

lemma retired_not_live: "retired_status st \<notin> {OPEN, PARTIALLY_FILLED}"
  by (cases st) (simp_all add: retired_status_def)

definition apply_inv :: "apply_context \<Rightarrow> planned_fill list \<Rightarrow> db \<Rightarrow> db \<times> applied_batch \<Rightarrow> bool" where
  "apply_inv ctx fills d0 x \<longleftrightarrow> (\<forall>y \<in> set (ap_retired (snd x)). just ctx fills y)
     \<and> list_all2 (retired_by (set (ap_retired (snd x)))) (db_orders d0) (db_orders (fst x))"

lemma retire_step:
  assumes "apply_inv ctx fills d0 (d, a)" and "just ctx fills (h, st)"
  shows "apply_inv ctx fills d0 (snd (retireOrder n h st d),
     if fst (retireOrder n h st d) then a\<lparr>ap_retired := ap_retired a @ [(h, st)]\<rparr> else a)"
proof (cases "fst (retireOrder n h st d)")
  case False
  then have "\<not> retires n h r" if "r \<in> set (db_orders d)" for r
    using that by (auto simp: retireOrder_def list_ex_iff)
  then have "map (\<lambda>r. if retires n h r then r\<lparr>ow_status := retired_status st\<rparr> else r) (db_orders d) = db_orders d"
    by (intro map_idI) auto
  with False assms(1) show ?thesis by (simp add: apply_inv_def retireOrder_def)
next
  case True
  have step: "retired_by (insert (h, st) R) r0 (if retires n h r then r\<lparr>ow_status := retired_status st\<rparr> else r)"
    if "retired_by R r0 r" for r0 r R
    using that retired_not_live by (auto simp: retired_by_def retires_def)
  have "list_all2 (retired_by (set (ap_retired a))) (db_orders d0) (db_orders d)"
    using assms(1) by (simp add: apply_inv_def)
  then have "list_all2 (\<lambda>r0 r. retired_by (insert (h, st) (set (ap_retired a))) r0
      (if retires n h r then r\<lparr>ow_status := retired_status st\<rparr> else r)) (db_orders d0) (db_orders d)"
    by (rule list_all2_mono) (rule step)
  with True assms show ?thesis
    by (simp add: apply_inv_def retireOrder_def list_all2_map2)
qed

lemma retire_all_inv:
  "apply_inv ctx fills d0 (d, a) \<Longrightarrow> (\<And>h. h \<in> set hs \<Longrightarrow> just ctx fills (h, st)) \<Longrightarrow>
   apply_inv ctx fills d0 (retire_all n st hs (d, a))"
proof (induction hs arbitrary: d a)
  case (Cons h hs)
  have "apply_inv ctx fills d0 (snd (retireOrder n h st d),
     if fst (retireOrder n h st d) then a\<lparr>ap_retired := ap_retired a @ [(h, st)]\<rparr> else a)"
    using Cons.prems by (intro retire_step) auto
  from Cons.IH [OF this] Cons.prems(2) show ?case by (simp add: Let_def case_prod_beta)
qed simp

lemma apply_rejection_inv:
  assumes "apply_inv ctx fills d0 (d, a)"
    and byId: "\<And>i f. byId i = Some f \<Longrightarrow> f \<in> set fills"
  shows "apply_inv ctx fills d0 (apply_rejection ctx byId r (d, a))"
proof -
  have j: "just ctx fills (h, st)" if "byId i = Some f" "h \<in> set (blameForPoison ctx f reason st)" for i f h reason st
    using byId [OF that(1)] blame_at_fault [OF that(2)] by (auto simp: just_def)
  have same: "apply_inv ctx fills d0 (recordRejection n i w d, b)" if "ap_retired b = ap_retired a" for n i w b
    using assms(1) that by (simp add: apply_inv_def)
  show ?thesis
  proof (cases "classifyRejection (rj_errorName r) (rj_reason r)")
    case (Poison reason st)
    show ?thesis
    proof (cases "byId (lower (rj_fillId r))")
      case (Some f)
      have "apply_inv ctx fills d0 (retire_all n st (blameForPoison ctx f reason st) (recordRejection n i w d, b))"
        if "ap_retired b = ap_retired a" for n i w b
        using same [OF that] by (rule retire_all_inv) (rule j [OF Some])
      then show ?thesis using Poison Some same by (simp add: apply_rejection_def Let_def)
    qed (use Poison same in \<open>simp add: apply_rejection_def Let_def\<close>)
  qed (use same in \<open>simp_all add: apply_rejection_def Let_def\<close>)
qed

lemma applied_inv: "apply_inv ctx fills d (applyBatchResult ctx fills result d)"
proof -
  let ?byId = "map_of_rows (map (\<lambda>f. (lower (sf_fillId f), f)) fills)"
  have byId: "f \<in> set fills" if "?byId i = Some f" for i f
    using map_of_rows_Some [OF that] by auto
  have "apply_inv ctx fills d (fold (apply_rejection ctx ?byId) rs x)" if "apply_inv ctx fills d x" for rs x
    using that
  proof (induction rs arbitrary: x)
    case (Cons r rs)
    have "apply_inv ctx fills d (apply_rejection ctx ?byId r x)"
      using apply_rejection_inv [of ctx fills d "fst x" "snd x", OF _ byId] Cons.prems by simp
    then show ?case using Cons.IH by simp
  qed simp
  moreover have "apply_inv ctx fills d (d, \<lparr>ap_settled = s, ap_rejected = [], ap_retired = [], ap_unaccounted = u,
      ap_matcherBugs = [], ap_unblamed = []\<rparr>)" for s u
    by (auto simp: apply_inv_def retired_by_def intro!: list.rel_refl)
  ultimately show ?thesis unfolding applyBatchResult_def Let_def by blast
qed


definition sample_context :: apply_context where
  "sample_context = \<lparr>ax_network = ''arc'', ax_nowSec = 3000, ax_minValidNonce = Map.empty,
     ax_recover = (\<lambda>_ _. Inl ''bad''), ax_digest = (\<lambda>_. ''0xd''), ax_erc1271 = Some (\<lambda>a _ _. Inr (a = ''0x2''))\<rparr>"

definition sample_rejection :: "string \<Rightarrow> batch_result" where
  "sample_rejection n = \<lparr>br_settled = [], br_rejected = [\<lparr>rj_fillId = ''0xA0XB0'', rj_reason = ''0x1234'',
     rj_errorName = Some n, rj_errorArgs = [], rj_logIndex = 0\<rparr>]\<rparr>"


end
