(* ===== verification/Execution_Band.thy ===== *)
theory Execution_Band
  imports Matcher_Book
begin

text \<open>
  The execution band and the Insurance backstop's own limits, \<open>client/lib/matcher/band.ts\<close>. The
  adapter's \<open>getPrice\<close> is a parameter: it answers with a snapshot or a revert text.
\<close>

record index_price =
  ip_price :: int
  ip_confidence :: int
  ip_publishTime :: int
  ip_writeTime :: int
  ip_sourceCount :: int

datatype oracle_unavailable = OracleUnavailable string string

definition readIndexPrice ::
  "(hex \<Rightarrow> int \<Rightarrow> int \<Rightarrow> string + index_price) \<Rightarrow> market_config \<Rightarrow> oracle_unavailable + index_price" where
  "readIndexPrice getPrice market =
     (case getPrice (mc_oracleId market) (mc_maxOracleAge market) (mc_maxOracleConfidenceBps market) of
        Inl cause \<Rightarrow> Inl (OracleUnavailable (mc_symbol market) cause)
      | Inr snap \<Rightarrow>
          if ip_price snap \<le> 0 then Inl (OracleUnavailable (mc_symbol market) ''index price is not positive'')
          else Inr snap)"

record band =
  bd_index :: int
  bd_low :: int
  bd_high :: int

definition bandFor :: "int \<Rightarrow> int \<Rightarrow> band" where
  "bandFor index maxDeviationBps =
     (let delta = (index * maxDeviationBps) sdiv BPS
      in \<lparr>bd_index = index, bd_low = index - delta, bd_high = index + delta\<rparr>)"

definition withinBand :: "int \<Rightarrow> band \<Rightarrow> bool" where
  "withinBand price b \<longleftrightarrow> price \<ge> bd_low b \<and> price \<le> bd_high b"

record band_filter_result =
  bf_kept :: "engine_match list"
  bf_dropped :: "engine_match list"
  bf_band :: band

definition filterByBand :: "engine_match list \<Rightarrow> int \<Rightarrow> int \<Rightarrow> band_filter_result" where
  "filterByBand matches index maxDeviationBps =
     (let b = bandFor index maxDeviationBps
      in \<lparr>bf_kept = filter (\<lambda>m. withinBand (em_price m) b) matches,
          bf_dropped = filter (\<lambda>m. \<not> withinBand (em_price m) b) matches, bf_band = b\<rparr>)"

section \<open>The backstop\<close>

record backstop_limits =
  bl_maxDeviationBps :: int
  bl_maxFillNotional :: int
  bl_dailyRemaining :: int

datatype backstop_drop_reason = Unwind_disabled | Outside_unwind_band | Over_fill_cap | Over_daily_cap

record backstop_filter_result =
  bs_kept :: "engine_match list"
  bs_dropped :: "(engine_match \<times> backstop_drop_reason) list"

definition isBackstopMatch :: "engine_match \<Rightarrow> address \<Rightarrow> bool" where
  "isBackstopMatch m backstop \<longleftrightarrow>
     (let b = lower backstop in lower (eo_owner (em_maker m)) = b \<or> lower (eo_owner (em_taker m)) = b)"

definition backstop_reason :: "backstop_limits \<Rightarrow> band \<Rightarrow> int \<Rightarrow> engine_match \<Rightarrow> backstop_drop_reason option" where
  "backstop_reason limits b used m =
     (if bl_maxDeviationBps limits = 0 then Some Unwind_disabled
      else if \<not> withinBand (em_price m) b then Some Outside_unwind_band
      else if em_notional m > bl_maxFillNotional limits then Some Over_fill_cap
      else if used + em_notional m > bl_dailyRemaining limits then Some Over_daily_cap
      else None)"

fun backstop_loop ::
  "address \<Rightarrow> backstop_limits \<Rightarrow> band \<Rightarrow> engine_match list \<Rightarrow> int \<Rightarrow> backstop_filter_result \<Rightarrow> backstop_filter_result" where
  "backstop_loop backstop limits b [] used r = r"
| "backstop_loop backstop limits b (m # ms) used r =
     (if \<not> isBackstopMatch m backstop
      then backstop_loop backstop limits b ms used (r\<lparr>bs_kept := bs_kept r @ [m]\<rparr>)
      else case backstop_reason limits b used m of
             Some reason \<Rightarrow> backstop_loop backstop limits b ms used (r\<lparr>bs_dropped := bs_dropped r @ [(m, reason)]\<rparr>)
           | None \<Rightarrow> backstop_loop backstop limits b ms (used + em_notional m) (r\<lparr>bs_kept := bs_kept r @ [m]\<rparr>))"

definition filterBackstopFills ::
  "engine_match list \<Rightarrow> address \<Rightarrow> int \<Rightarrow> backstop_limits \<Rightarrow> backstop_filter_result" where
  "filterBackstopFills matches backstop index limits =
     backstop_loop backstop limits (bandFor index (bl_maxDeviationBps limits)) matches 0
       \<lparr>bs_kept = [], bs_dropped = []\<rparr>"

section \<open>The band\<close>

lemma withinBand_iff:
  assumes "0 \<le> index" and "0 \<le> bps"
  shows "withinBand price (bandFor index bps) \<longleftrightarrow> \<bar>price - index\<bar> * BPS \<le> index * bps"
proof -
  have "\<bar>price - index\<bar> \<le> (index * bps) sdiv BPS \<longleftrightarrow> \<bar>price - index\<bar> * BPS \<le> index * bps"
    using assms sdiv_le_iff [of "index * bps" BPS "\<bar>price - index\<bar>"] by (simp add: BPS_def)
  then show ?thesis by (auto simp: withinBand_def bandFor_def Let_def)
qed

lemma filterByBand_kept: "m \<in> set (bf_kept (filterByBand ms index bps)) \<longleftrightarrow> m \<in> set ms \<and> withinBand (em_price m) (bandFor index bps)"
  by (auto simp: filterByBand_def Let_def)

lemma filterByBand_all:
  "\<forall>m \<in> set ms. withinBand (em_price m) (bandFor index bps) \<Longrightarrow>
   bf_dropped (filterByBand ms index bps) = [] \<and> bf_kept (filterByBand ms index bps) = ms"
  by (simp add: filterByBand_def Let_def filter_empty_conv)

section \<open>The backstop's caps\<close>

definition backstop_part :: "address \<Rightarrow> engine_match list \<Rightarrow> engine_match list" where
  "backstop_part backstop ms = filter (\<lambda>m. isBackstopMatch m backstop) ms"

definition notional_sum :: "engine_match list \<Rightarrow> int" where
  "notional_sum ms = sum_list (map em_notional ms)"

definition acceptable :: "backstop_limits \<Rightarrow> band \<Rightarrow> engine_match \<Rightarrow> bool" where
  "acceptable limits b m \<longleftrightarrow> bl_maxDeviationBps limits \<noteq> 0 \<and> withinBand (em_price m) b
     \<and> em_notional m \<le> bl_maxFillNotional limits"

lemma backstop_reason_None:
  "backstop_reason limits b used m = None \<longleftrightarrow> acceptable limits b m \<and> used + em_notional m \<le> bl_dailyRemaining limits"
  by (auto simp: backstop_reason_def acceptable_def)

lemma backstop_loop_result:
  fixes ms :: "engine_match list"
  assumes "used = notional_sum (backstop_part backstop (bs_kept r))" and "used \<le> bl_dailyRemaining limits"
    and "\<forall>m \<in> set (backstop_part backstop (bs_kept r)). acceptable limits b m"
  defines "r' \<equiv> backstop_loop backstop limits b ms used r"
  shows "notional_sum (backstop_part backstop (bs_kept r')) \<le> bl_dailyRemaining limits
    \<and> (\<forall>m \<in> set (backstop_part backstop (bs_kept r')). acceptable limits b m)
    \<and> filter (\<lambda>m. \<not> isBackstopMatch m backstop) (bs_kept r')
        = filter (\<lambda>m. \<not> isBackstopMatch m backstop) (bs_kept r @ ms)
    \<and> mset (bs_kept r') + mset (map fst (bs_dropped r')) = mset (bs_kept r) + mset (map fst (bs_dropped r)) + mset ms"
  using assms(1-3) unfolding r'_def
proof (induction ms arbitrary: used r)
  case Nil
  then show ?case by simp
next
  case (Cons m ms)
  consider (plain) "\<not> isBackstopMatch m backstop"
    | (drop) reason where "isBackstopMatch m backstop" "backstop_reason limits b used m = Some reason"
    | (keep) "isBackstopMatch m backstop" "backstop_reason limits b used m = None"
    by fastforce
  then show ?case
  proof cases
    case plain
    then show ?thesis
      using Cons.IH [of used "r\<lparr>bs_kept := bs_kept r @ [m]\<rparr>"] Cons.prems
      by (simp add: backstop_part_def)
  next
    case (drop reason)
    then show ?thesis
      using Cons.IH [of used "r\<lparr>bs_dropped := bs_dropped r @ [(m, reason)]\<rparr>"] Cons.prems
      by (simp add: backstop_part_def)
  next
    case keep
    have fits: "acceptable limits b m" "used + em_notional m \<le> bl_dailyRemaining limits"
      using keep(2) by (simp_all add: backstop_reason_None)
    have "backstop_loop backstop limits b (m # ms) used r
        = backstop_loop backstop limits b ms (used + em_notional m) (r\<lparr>bs_kept := bs_kept r @ [m]\<rparr>)"
      using keep by simp
    then show ?thesis
      using Cons.IH [of "used + em_notional m" "r\<lparr>bs_kept := bs_kept r @ [m]\<rparr>"] Cons.prems fits keep(1)
      by (simp add: backstop_part_def notional_sum_def)
  qed
qed

text \<open>
  The backstop filter offers the Insurance contract only fills it accepts: every kept
  backstop match is within the unwind band and the per-fill cap, all of them together stay
  within what is left of the daily cap, matches without the backstop all pass in their order,
  and every match is either kept or dropped with a reason.
\<close>

theorem backstop_caps_respected:
  assumes "0 \<le> bl_dailyRemaining limits"
  shows "let r = filterBackstopFills ms backstop index limits
    in notional_sum (backstop_part backstop (bs_kept r)) \<le> bl_dailyRemaining limits
     \<and> (\<forall>m \<in> set (backstop_part backstop (bs_kept r)). acceptable limits (bandFor index (bl_maxDeviationBps limits)) m)
     \<and> filter (\<lambda>m. \<not> isBackstopMatch m backstop) (bs_kept r) = filter (\<lambda>m. \<not> isBackstopMatch m backstop) ms
     \<and> mset (bs_kept r) + mset (map fst (bs_dropped r)) = mset ms"
  using backstop_loop_result [of 0 backstop "\<lparr>bs_kept = [], bs_dropped = []\<rparr>" limits
      "bandFor index (bl_maxDeviationBps limits)" ms] assms
  by (simp add: filterBackstopFills_def Let_def backstop_part_def notional_sum_def)

definition sample_match :: "address \<Rightarrow> address \<Rightarrow> int \<Rightarrow> int \<Rightarrow> engine_match" where
  "sample_match mk tk price nv =
     \<lparr>em_maker = sample_order ''h1'' mk False 1 price False 1, em_taker = sample_order ''h2'' tk True 1 price False 2,
      em_size = 1, em_price = price, em_notional = nv, em_sequence = 0\<rparr>"

definition sample_limits :: backstop_limits where
  "sample_limits = \<lparr>bl_maxDeviationBps = 100, bl_maxFillNotional = 60, bl_dailyRemaining = 100\<rparr>"

theorem backstop_caps_respected_witness:
  "notional_sum (backstop_part ''i'' (bs_kept
     (filterBackstopFills [sample_match ''i'' ''a'' 1000 60, sample_match ''a'' ''b'' 1000 500,
        sample_match ''b'' ''i'' 1000 60, sample_match ''b'' ''i'' 1005 40] ''i'' 1000 sample_limits))) \<le> 100"
proof -
  have "0 \<le> bl_dailyRemaining sample_limits" by (simp add: sample_limits_def)
  from backstop_caps_respected [OF this] show ?thesis by (simp add: Let_def sample_limits_def)
qed

end
