(* ===== verification/Tx_Wait.thy ===== *)
theory Tx_Wait
  imports Tx_Sender
begin

text \<open>
  What watching a nonce guarantees, on the model of \<open>TxSender\<close> in \<open>Tx_Sender\<close>: a mined nonce
  leaves no open attempt, a replacement is the same call with bumped fees, the loop of \<open>wait\<close>
  ends, and where a fee bump loses track of a transaction that is still in flight.
\<close>

section \<open>Stores that only close jobs\<close>

definition closes :: "tx_store \<Rightarrow> tx_store \<Rightarrow> bool" where
  "closes st st' \<longleftrightarrow> (\<forall>j \<in> set st'. \<exists>j0 \<in> set st. tj_id j = tj_id j0 \<and> tj_network j = tj_network j0
     \<and> tj_fromAddress j = tj_fromAddress j0 \<and> tj_nonce j = tj_nonce j0 \<and> (is_open j \<longrightarrow> is_open j0))"

definition closed_in :: "string \<Rightarrow> tx_store \<Rightarrow> bool" where
  "closed_in i st \<longleftrightarrow> (\<forall>j \<in> set st. tj_id j = i \<longrightarrow> \<not> is_open j)"

lemma closes_refl [simp]: "closes st st"
  unfolding closes_def by blast

lemma closes_trans: "closes a b \<Longrightarrow> closes b c \<Longrightarrow> closes a c"
  unfolding closes_def by metis

lemma closed_in_closes: "closed_in i a \<Longrightarrow> closes a b \<Longrightarrow> closed_in i b"
  unfolding closes_def closed_in_def by metis

definition closing :: "tx_patch \<Rightarrow> bool" where
  "closing p \<longleftrightarrow> (case tp_status p of None \<Rightarrow> False | Some s \<Rightarrow> s \<notin> set OPEN_TX_STATUSES)"

lemma closing_status [simp]: "closing (status_patch s) \<longleftrightarrow> s \<notin> set OPEN_TX_STATUSES"
  by (simp add: closing_def status_patch_def)

lemma closing_mined [simp]: "closing (mined_patch r)"
  by (simp add: closing_def mined_patch_def OPEN_TX_STATUSES_def)

lemma update_closes:
  assumes "job_update i p now st = Inr st'" and "closing p"
  shows "closes st st'" and "closed_in i st'"
proof -
  have shut: "\<not> is_open (apply_patch p now j)" for j
    using assms(2) by (simp add: closing_def is_open_def apply_patch_def split: option.splits)
  have keys: "tj_network (apply_patch p now j) = tj_network j" "tj_nonce (apply_patch p now j) = tj_nonce j"
    "tj_fromAddress (apply_patch p now j) = tj_fromAddress j" for j
    by (simp_all add: apply_patch_def)
  have origin: "\<exists>j0 \<in> set st. j = (if tj_id j0 = i then apply_patch p now j0 else j0)" if "j \<in> set st'" for j
    using that unfolding job_update_set [OF assms(1)] by blast
  show "closes st st'"
    unfolding closes_def
  proof
    fix j
    assume "j \<in> set st'"
    then obtain j0 where "j0 \<in> set st" "j = (if tj_id j0 = i then apply_patch p now j0 else j0)"
      using origin by blast
    then show "\<exists>j0 \<in> set st. tj_id j = tj_id j0 \<and> tj_network j = tj_network j0
     \<and> tj_fromAddress j = tj_fromAddress j0 \<and> tj_nonce j = tj_nonce j0 \<and> (is_open j \<longrightarrow> is_open j0)"
      by (intro bexI [of _ j0]) (simp_all add: shut keys)
  qed
  show "closed_in i st'"
    unfolding closed_in_def
  proof (intro ballI impI)
    fix j
    assume "j \<in> set st'" "tj_id j = i"
    with origin obtain j0 where "j = (if tj_id j0 = i then apply_patch p now j0 else j0)" by blast
    with \<open>tj_id j = i\<close> show "\<not> is_open j" by (simp add: shut split: if_splits)
  qed
qed

lemma updated_row:
  assumes "store_ok st" and "job_update i p now st = Inr st'"
  shows "\<exists>j. job_row st i = Some j \<and> job_row st' i = Some (apply_patch p now j)"
  using mem.update_result [OF assms] by auto

section \<open>A mined nonce is closed\<close>

lemma first_mined_hit:
  "first_mined node js = Inr (Some (a, r)) \<Longrightarrow> a \<in> set js \<and> node (tj_submittedHash a) = Inr r"
  by (induction js) (auto split: sum.splits if_splits)

lemma wp_drop_all:
  assumes "store_ok (sn_store s)" and "i \<notin> tj_id ` set js"
  shows "wp (act_each (drop_job now) js)
    (\<lambda>_ t. store_ok (sn_store t) \<and> closes (sn_store s) (sn_store t) \<and> job_row (sn_store t) i = job_row (sn_store s) i
       \<and> (\<forall>j \<in> set js. is_open j \<longrightarrow> closed_in (tj_id j) (sn_store t)))
    (\<lambda>_ t. True) s"
proof (rule wp_each_all [where
      I = "\<lambda>t. store_ok (sn_store t) \<and> closes (sn_store s) (sn_store t) \<and> job_row (sn_store t) i = job_row (sn_store s) i"
      and P = "\<lambda>j t. is_open j \<longrightarrow> closed_in (tj_id j) (sn_store t)"])
  fix j and t :: sender
  assume j: "j \<in> set js"
    and t: "store_ok (sn_store t) \<and> closes (sn_store s) (sn_store t) \<and> job_row (sn_store t) i = job_row (sn_store s) i"
  have ne: "i \<noteq> tj_id j" using assms(2) j by blast
  have "store_ok st \<and> closes (sn_store s) st \<and> job_row st i = job_row (sn_store s) i \<and> closed_in (tj_id j) st
      \<and> (\<forall>y. (is_open y \<longrightarrow> closed_in (tj_id y) (sn_store t)) \<longrightarrow> is_open y \<longrightarrow> closed_in (tj_id y) st)"
    if st: "job_update (tj_id j) (status_patch Dropped) now (sn_store t) = Inr st" for st
  proof -
    have c: "closes (sn_store t) st" "closed_in (tj_id j) st"
      using update_closes [OF st] by (simp_all add: OPEN_TX_STATUSES_def)
    have "job_row st i = job_row (sn_store t) i"
      using mem.update_preserves_others [OF _ st ne] t by simp
    then show ?thesis
      using t c store_ok_update [OF _ st] closes_trans closed_in_closes by metis
  qed
  then show "wp (drop_job now j)
     (\<lambda>_ u. (store_ok (sn_store u) \<and> closes (sn_store s) (sn_store u) \<and> job_row (sn_store u) i = job_row (sn_store s) i)
        \<and> (is_open j \<longrightarrow> closed_in (tj_id j) (sn_store u))
        \<and> (\<forall>y. (is_open y \<longrightarrow> closed_in (tj_id y) (sn_store t)) \<longrightarrow> is_open y \<longrightarrow> closed_in (tj_id y) (sn_store u)))
     (\<lambda>_ t. True) t"
    using t by (auto simp: drop_job_def act_wp split: sum.splits)
qed (use assms in auto)

lemma set_job_attempts:
  "store_ok (sn_store s) \<Longrightarrow> set (job_attempts opts k s) = {j \<in> set (sn_store s). tj_network j = an_id (so_network opts)
     \<and> sameAddress (tj_fromAddress j) (so_address opts) \<and> tj_nonce j = k}"
  by (auto simp: job_attempts_def byNonce_def)

lemma open_nonces_eq:
  "open_nonces opts s = tj_nonce ` {j \<in> set (sn_store s). tj_network j = an_id (so_network opts)
     \<and> sameAddress (tj_fromAddress j) (so_address opts) \<and> is_open j}"
  by (auto simp: open_nonces_def openJobs_def)

text \<open>Closing every open attempt at a nonce closes the nonce.\<close>

lemma nonce_closed:
  assumes ok: "store_ok (sn_store s)" and cl: "closes (sn_store s) (sn_store t)"
    and all: "\<And>j. j \<in> set (job_attempts opts k s) \<Longrightarrow> is_open j \<Longrightarrow> closed_in (tj_id j) (sn_store t)"
  shows "k \<notin> open_nonces opts t"
proof
  assume "k \<in> open_nonces opts t"
  then obtain j where j: "j \<in> set (sn_store t)" "tj_network j = an_id (so_network opts)"
    "sameAddress (tj_fromAddress j) (so_address opts)" "is_open j" "tj_nonce j = k"
    by (auto simp: open_nonces_eq)
  with cl obtain j0 where j0: "j0 \<in> set (sn_store s)" "tj_id j = tj_id j0" "tj_network j = tj_network j0"
    "tj_fromAddress j = tj_fromAddress j0" "tj_nonce j = tj_nonce j0" "is_open j0"
    unfolding closes_def by blast
  with j ok have "j0 \<in> set (job_attempts opts k s)" by (simp add: set_job_attempts)
  then have "closed_in (tj_id j0) (sn_store t)" using j0 all by blast
  with j j0 show False by (auto simp: closed_in_def)
qed

definition receipt_status :: "tx_receipt \<Rightarrow> tx_status" where
  "receipt_status r = (if rc_success r then Confirmed else Reverted)"

lemma findMined_hit:
  assumes ok: "store_ok (sn_store s)" and run: "findMined opts node now k s = (Inr (Some oc), t)"
  shows "k \<notin> open_nonces opts t
    \<and> node (tj_submittedHash (oc_job oc)) = Inr (oc_receipt oc)
    \<and> (\<exists>j. job_row (sn_store t) (tj_id (oc_job oc)) = Some j \<and> tj_status j = receipt_status (oc_receipt oc)
         \<and> tj_gasUsed j = Some (rc_gasUsed (oc_receipt oc)))"
proof -
  let ?js = "job_attempts opts k s"
  have "wp (findMined opts node now k)
    (\<lambda>r t. case r of None \<Rightarrow> True | Some oc \<Rightarrow> k \<notin> open_nonces opts t
      \<and> node (tj_submittedHash (oc_job oc)) = Inr (oc_receipt oc)
      \<and> (\<exists>j. job_row (sn_store t) (tj_id (oc_job oc)) = Some j \<and> tj_status j = receipt_status (oc_receipt oc)
         \<and> tj_gasUsed j = Some (rc_gasUsed (oc_receipt oc)))) (\<lambda>_ _. True) s"
    if "first_mined node ?js = Inr (Some (a, r))" for a r
  proof -
    have hit: "a \<in> set ?js" "node (tj_submittedHash a) = Inr r" using first_mined_hit [OF that] by auto
    have "wp (act_each (drop_job now) (filter (\<lambda>j. tj_id j \<noteq> tj_id a) ?js))
       (\<lambda>_ t. k \<notin> open_nonces opts t
          \<and> (\<exists>j. job_row (sn_store t) (tj_id a) = Some j \<and> tj_status j = receipt_status r \<and> tj_gasUsed j = Some (rc_gasUsed r)))
       (\<lambda>_ _. True) (s\<lparr>sn_store := st\<rparr>)"
      if st: "job_update (tj_id a) (mined_patch r) now (sn_store s) = Inr st" for st
    proof (rule wp_mono [OF wp_drop_all [of _ "tj_id a"]])
      show "store_ok (sn_store (s\<lparr>sn_store := st\<rparr>))" using store_ok_update [OF ok st] by simp
      fix t :: sender
      assume t: "store_ok (sn_store t) \<and> closes (sn_store (s\<lparr>sn_store := st\<rparr>)) (sn_store t)
         \<and> job_row (sn_store t) (tj_id a) = job_row (sn_store (s\<lparr>sn_store := st\<rparr>)) (tj_id a)
         \<and> (\<forall>j \<in> set (filter (\<lambda>j. tj_id j \<noteq> tj_id a) ?js). is_open j \<longrightarrow> closed_in (tj_id j) (sn_store t))"
      have c: "closes (sn_store s) st" "closed_in (tj_id a) st" using update_closes [OF st] by simp_all
      have "k \<notin> open_nonces opts t"
      proof (rule nonce_closed [OF ok])
        show "closes (sn_store s) (sn_store t)" using c t closes_trans by auto
        show "closed_in (tj_id j) (sn_store t)" if "j \<in> set ?js" "is_open j" for j
          using that t c closed_in_closes by (cases "tj_id j = tj_id a") auto
      qed
      moreover obtain j where "job_row st (tj_id a) = Some (apply_patch (mined_patch r) now j)"
        using updated_row [OF ok st] by blast
      ultimately show "k \<notin> open_nonces opts t
          \<and> (\<exists>j. job_row (sn_store t) (tj_id a) = Some j \<and> tj_status j = receipt_status r \<and> tj_gasUsed j = Some (rc_gasUsed r))"
        using t by (auto simp: apply_patch_def mined_patch_def receipt_status_def over_def)
    qed auto
    with that hit show ?thesis by (auto simp: findMined_def act_wp apply_patch_def mined_patch_def split: sum.splits)
  qed
  moreover obtain a r where "first_mined node ?js = Inr (Some (a, r))"
    using run by (auto simp: findMined_def act_bind_def act_get_def chain_read_def act_lift_def act_ret_def
        split: sum.splits option.splits prod.splits)
  ultimately show ?thesis using run unfolding wp_def by fastforce
qed

text \<open>
  When an attempt at a nonce is found mined, that attempt's row records the receipt's outcome
  and gas, and no attempt at the nonce is left open: every other open one is marked dropped.
\<close>

theorem mined_nonce_is_closed:
  assumes ok: "store_ok (sn_store s)" and run: "findMined opts node now k s = (Inr (Some oc), t)"
  shows "k \<notin> open_nonces opts t
    \<and> node (tj_submittedHash (oc_job oc)) = Inr (oc_receipt oc)
    \<and> (\<exists>j. job_row (sn_store t) (tj_id (oc_job oc)) = Some j \<and> tj_status j = receipt_status (oc_receipt oc)
         \<and> tj_gasUsed j = Some (rc_gasUsed (oc_receipt oc)))"
  using assms by (rule findMined_hit)

lemmas sender_eval = act_defs gap_sender_def fresh_sender_def sample_options_def sample_network_def
  sample_wait_view_def job_attempts_def byNonce_def openJobs_def job_for_def sameAddress_def is_open_def
  OPEN_TX_STATUSES_def chain_read_def store_update_def store_insert_def job_update_def job_insert_def
  has_job_def apply_patch_def over_def status_patch_def mined_patch_def Let_def

theorem mined_nonce_is_closed_witness:
  "0 \<notin> open_nonces sample_options
     (snd (findMined sample_options (wv_receipt (sample_wait_view 0)) 5 0 gap_sender))"
proof -
  let ?r = "findMined sample_options (wv_receipt (sample_wait_view 0)) 5 0 gap_sender"
  have "\<exists>oc. fst ?r = Inr (Some oc)" by (simp add: findMined_def sender_eval)
  then obtain oc where "?r = (Inr (Some oc), snd ?r)" by (metis prod.collapse)
  moreover have "store_ok (sn_store gap_sender)" by (simp add: store_ok_def gap_sender_def)
  ultimately show ?thesis using mined_nonce_is_closed by blast
qed

section \<open>Replacements\<close>

lemma bump_ge: "x * (100 + percent) \<le> 100 * bump x percent"
proof (cases "0 \<le> x * (100 + percent) + 99")
  case True
  then show ?thesis using sdiv_mult_gt [of "x * (100 + percent) + 99" 100] by (simp add: bump_def)
next
  case False
  then show ?thesis unfolding bump_def by (simp add: signed_divide_int_def sgn_if)
qed

lemma wp_signAndPersist_row:
  assumes "store_ok (sn_store s)"
  shows "wp (signAndPersist opts now p)
    (\<lambda>j t. store_ok (sn_store t) \<and> (\<exists>i. j = job_for opts now i p)
         \<and> job_row (sn_store s) (tj_id j) = None \<and> job_row (sn_store t) = (job_row (sn_store s))(tj_id j \<mapsto> j))
    (\<lambda>_ _. True) s"
  using mem.insert_result [OF assms] by (auto simp: signAndPersist_def act_wp Let_def split: sum.splits)

lemma wp_broadcast_row:
  assumes "store_ok (sn_store s)" and "i \<noteq> tj_id j"
  shows "wp (broadcast node now j)
    (\<lambda>j' t. j' = j\<lparr>tj_status := Submitted\<rparr> \<and> job_row (sn_store t) i = job_row (sn_store s) i)
    (\<lambda>_ t. job_row (sn_store t) i = job_row (sn_store s) i) s"
  using mem.update_preserves_others [OF assms(1) _ assms(2)]
  by (auto simp: broadcast_def act_wp Let_def split: option.splits sum.splits)

definition same_call :: "tx_job \<Rightarrow> tx_job \<Rightarrow> bool" where
  "same_call a b \<longleftrightarrow> tj_nonce a = tj_nonce b \<and> tj_toAddress a = tj_toAddress b \<and> tj_data a = tj_data b
     \<and> tj_value a = tj_value b \<and> tj_gasLimit a = tj_gasLimit b"

definition outbids :: "sender_options \<Rightarrow> tx_job \<Rightarrow> tx_job \<Rightarrow> bool" where
  "outbids opts job nx \<longleftrightarrow>
     tj_maxFeePerGas job * (100 + so_bumpPercent opts) \<le> 100 * tj_maxFeePerGas nx
     \<and> tj_maxPriorityFeePerGas job * (100 + so_bumpPercent opts) \<le> 100 * tj_maxPriorityFeePerGas nx
     \<and> tj_maxFeePerGas nx \<le> so_maxFeeCapWei opts"

lemma same_call_status [simp]: "same_call job (j\<lparr>tj_status := x\<rparr>) = same_call job j"
  by (simp add: same_call_def)

lemma outbids_status [simp]: "outbids opts job (j\<lparr>tj_status := x\<rparr>) = outbids opts job j"
  by (simp add: outbids_def)

lemma wp_replace:
  assumes ok: "store_ok (sn_store s)" and row: "job_row (sn_store s) (tj_id job) = Some job"
  shows "wp (replace opts v job)
     (\<lambda>r t. case r of None \<Rightarrow> t = s
       | Some nx \<Rightarrow> same_call job nx \<and> outbids opts job nx
           \<and> (\<exists>old. job_row (sn_store t) (tj_id job) = Some old \<and> tj_status old = Replaced
                 \<and> tj_replacedByHash old = Some (tj_submittedHash nx)))
     (\<lambda>_ _. True) s"
proof -
  define Q where "Q = (\<lambda>r t. case r of None \<Rightarrow> t = s
       | Some nx \<Rightarrow> same_call job nx \<and> outbids opts job nx
           \<and> (\<exists>old. job_row (sn_store t) (tj_id job) = Some old \<and> tj_status old = Replaced
                 \<and> tj_replacedByHash old = Some (tj_submittedHash nx)))"
  let ?patch = "\<lambda>j. (status_patch Replaced)\<lparr>tp_replacedByHash := Some (tj_submittedHash j)\<rparr>"
  let ?old = "\<lambda>j t. \<exists>old. job_row (sn_store t) (tj_id job) = Some old \<and> tj_status old = Replaced
                 \<and> tj_replacedByHash old = Some (tj_submittedHash j)"
  have step: "wp (signAndPersist opts (wv_now v) p) (\<lambda>j. wp (store_update (tj_id job) (?patch j) (wv_now v))
       (\<lambda>_. wp (broadcast (wv_send v) (wv_now v) j) (A j) (B j)) (\<lambda>_ _. True)) (\<lambda>_ _. True) s"
    if A: "\<And>i j t. j = job_for opts (wv_now v) i p \<Longrightarrow> ?old j t \<Longrightarrow> A j (j\<lparr>tj_status := Submitted\<rparr>) t"
      and B: "\<And>i j e t. j = job_for opts (wv_now v) i p \<Longrightarrow> ?old j t \<Longrightarrow> B j e t" for p A B
  proof (rule wp_mono [OF wp_signAndPersist_row [OF ok]])
    fix j and t :: sender
    assume t: "store_ok (sn_store t) \<and> (\<exists>i. j = job_for opts (wv_now v) i p)
         \<and> job_row (sn_store s) (tj_id j) = None \<and> job_row (sn_store t) = (job_row (sn_store s))(tj_id j \<mapsto> j)"
    then have ne: "tj_id job \<noteq> tj_id j" using row by auto
    have "wp (broadcast (wv_send v) (wv_now v) j) (A j) (B j) (t\<lparr>sn_store := st\<rparr>)"
      if st: "job_update (tj_id job) (?patch j) (wv_now v) (sn_store t) = Inr st" for st
    proof -
      have "store_ok st" using store_ok_update [OF _ st] t by simp
      moreover obtain j0 where "job_row st (tj_id job) = Some (apply_patch (?patch j) (wv_now v) j0)"
        using updated_row [OF _ st] t by blast
      then have "?old j (t\<lparr>sn_store := st\<rparr>)" by (simp add: apply_patch_def status_patch_def over_def)
      ultimately show ?thesis
        using ne t A B by (intro wp_mono [OF wp_broadcast_row [of "t\<lparr>sn_store := st\<rparr>" "tj_id job"]]) auto
    qed
    then show "wp (store_update (tj_id job) (?patch j) (wv_now v))
       (\<lambda>_. wp (broadcast (wv_send v) (wv_now v) j) (A j) (B j)) (\<lambda>_ _. True) t"
      by (auto simp: act_wp split: sum.splits)
  qed auto
  let ?b = "bump (tj_maxFeePerGas job) (so_bumpPercent opts)"
  let ?p = "\<lambda>m. \<lparr>sq_to = tj_toAddress job, sq_data = tj_data job, sq_value = tj_value job,
             sq_label = tj_label job, sq_nonce = tj_nonce job, sq_gasLimit = tj_gasLimit job, sq_maxFeePerGas = m,
             sq_maxPriorityFeePerGas = bump (tj_maxPriorityFeePerGas job) (so_bumpPercent opts)\<rparr>"
  have same: "same_call job (job_for opts now i (?p m))" for now i m
    by (simp add: job_for_def Let_def same_call_def)
  have bids: "outbids opts job (job_for opts now i (?p m))"
    if "?b \<le> m" "m \<le> so_maxFeeCapWei opts" for now i m
    using that bump_ge [of "tj_maxFeePerGas job" "so_bumpPercent opts"]
      bump_ge [of "tj_maxPriorityFeePerGas job" "so_bumpPercent opts"]
    by (simp add: outbids_def job_for_def Let_def)
  have finish: "wp (signAndPersist opts (wv_now v) (?p m)) (\<lambda>nx.
      wp (store_update (tj_id job) (?patch nx) (wv_now v))
       (\<lambda>_. wp (broadcast (wv_send v) (wv_now v) nx) (\<lambda>j. Q (Some j))
          (\<lambda>err. wp (case err of
               Chain_fault f \<Rightarrow>
                 if \<not> isUnderpriced f \<and> \<not> isNonceTooLow f then act_throw err
                 else act_ret (Some (nx\<lparr>tj_status := (if isNonceTooLow f then Dropped else Failed)\<rparr>))
             | _ \<Rightarrow> act_throw err) Q (\<lambda>_ _. True))) (\<lambda>_ _. True)) (\<lambda>_ _. True) s"
    if "?b \<le> m" "m \<le> so_maxFeeCapWei opts" for m
    using that by (intro step) (auto simp: act_wp same bids Q_def split: tx_error.splits)
  have "wp (replace opts v job) Q (\<lambda>_ _. True) s"
    unfolding replace_def Let_def
    by (auto simp: wp_bind wp_chain_read wp_if wp_ret wp_then wp_catch Q_def [THEN fun_cong, THEN fun_cong, of None]
        split: sum.splits intro!: finish)
  then show ?thesis unfolding Q_def .
qed

text \<open>
  C9. A fee-bump replacement is the same call at the same nonce: recipient, data, value and gas
  are unchanged; both fees are at least the old ones plus the bump percentage (rounded up),
  so the node accepts it as a replacement; the fee cap is respected; and the replaced row is
  marked and points at the new hash.
\<close>

theorem replacement_outbids:
  assumes "store_ok (sn_store s)" and "job_row (sn_store s) (tj_id job) = Some job"
    and "replace opts v job s = (Inr (Some nx), t)"
  shows "same_call job nx \<and> outbids opts job nx
    \<and> (\<exists>old. job_row (sn_store t) (tj_id job) = Some old \<and> tj_status old = Replaced
          \<and> tj_replacedByHash old = Some (tj_submittedHash nx))"
  using wp_value [OF wp_replace [OF assms(1,2)] assms(3)] by simp

definition gap_job :: tx_job where
  "gap_job = hd (sn_store gap_sender)"

lemma gap_job_row: "job_row (sn_store gap_sender) (tj_id gap_job) = Some gap_job"
  by (simp add: gap_job_def gap_sender_def job_row_single)

lemma gap_store_ok: "store_ok (sn_store gap_sender)"
  by (simp add: store_ok_def gap_sender_def)

lemmas replace_eval = sender_eval replace_def broadcast_def sendRaw_def signAndPersist_def gap_job_def
  initialFees_def base_floor_def parseGwei_def MIN_MAX_FEE_def PRIORITY_FEE_def bump_def sample_id_def

theorem replacement_outbids_witness:
  "\<exists>nx t. replace sample_options (sample_wait_view 0) gap_job gap_sender = (Inr (Some nx), t)
     \<and> same_call gap_job nx \<and> outbids sample_options gap_job nx"
proof -
  let ?r = "replace sample_options (sample_wait_view 0) gap_job gap_sender"
  have "\<exists>nx. fst ?r = Inr (Some nx)" by (simp add: replace_eval)
  then obtain nx where "?r = (Inr (Some nx), snd ?r)" by (metis prod.collapse)
  with replacement_outbids [OF gap_store_ok gap_job_row this] show ?thesis by blast
qed

section \<open>Waiting ends\<close>

lemma wp_excludes: "wp m (\<lambda>r _. r \<noteq> x) E s \<Longrightarrow> fst (m s) \<noteq> Inr x"
  by (auto simp: wp_def split: prod.splits sum.splits)

lemma wp_trivial: "wp m (\<lambda>_ _. True) (\<lambda>_ _. True) s"
  by (simp add: wp_def split: prod.splits sum.splits)

text \<open>A pass after the timeout ends the loop, with an outcome or an error.\<close>

lemma wait_pass_timed_out:
  assumes "so_waitTimeoutMs opts \<le> wv_now v - started"
  shows "wp (wait_pass opts started v l) (\<lambda>r _. \<exists>oc. r = Inr oc) (\<lambda>_ _. True) s"
  unfolding wait_pass_def wp_bind
  by (rule wp_mono [OF wp_trivial]) (use assms in \<open>simp add: act_wp Let_def split: option.splits\<close>)

lemma wait_from_ends:
  assumes "n < fuel" and "so_waitTimeoutMs opts \<le> wv_now (env (k + n)) - started"
  shows "wp (wait_from opts started env fuel k l) (\<lambda>r _. r \<noteq> None) (\<lambda>_ _. True) s"
  using assms
proof (induction fuel arbitrary: k l n s)
  case 0
  then show ?case by simp
next
  case (Suc fuel)
  show ?case
  proof (cases n)
    case 0
    with Suc.prems(2) show ?thesis
      unfolding wait_from.simps wp_bind
      by (intro wp_mono [OF wait_pass_timed_out]) (auto simp: act_wp)
  next
    case (Suc m)
    with Suc.prems have "m < fuel" "so_waitTimeoutMs opts \<le> wv_now (env (Suc k + m)) - started" by simp_all
    note later = Suc.IH [OF this]
    show ?thesis
      unfolding wait_from.simps wp_bind
      by (rule wp_mono [OF wp_trivial]) (simp_all add: act_wp later [simplified] split: sum.splits)
  qed
qed

text \<open>
  C10. \<open>wait\<close> always ends. If each pass of the loop takes at least the poll interval on the clock,
  then after \<open>waitTimeoutMs / pollMs\<close> passes and one more it has returned an outcome or thrown
  (a timeout, a dropped nonce, or a fault of the node), whatever the node answers.
\<close>

theorem wait_terminates:
  assumes "0 < so_pollMs opts" and "\<forall>k. started + int k * so_pollMs opts \<le> wv_now (env k)"
    and "so_waitTimeoutMs opts \<le> int n * so_pollMs opts"
  shows "fst (wait opts started env (Suc n) job s) \<noteq> Inr None"
proof -
  have "so_waitTimeoutMs opts \<le> wv_now (env (0 + n)) - started" using assms(2,3) by (auto dest: spec [of _ n])
  from wait_from_ends [where n = n and fuel = "Suc n" and k = 0 and env = env, OF lessI this] show ?thesis
    unfolding wait_def by (rule wp_excludes)
qed

definition silent_view :: "nat \<Rightarrow> wait_view" where
  "silent_view k = (sample_wait_view k)\<lparr>wv_now := int k * 500, wv_receipt := (\<lambda>_. Inl not_found)\<rparr>"

theorem wait_terminates_witness:
  "fst (wait sample_options 0 silent_view (Suc 240) gap_job gap_sender) \<noteq> Inr None"
  by (rule wait_terminates) (simp_all add: sample_options_def silent_view_def)

section \<open>A transaction that leaves the open set\<close>

definition underpriced :: chain_fault where
  "underpriced = \<lparr>cf_name = ''RpcError'', cf_message = ''replacement transaction underpriced'', cf_details = None\<rparr>"

text \<open>
  When the node refuses a fee bump as underpriced, the transaction it already holds is still
  the one that may be mined, but no job is open at its nonce any more: the old row is
  \<open>Replaced\<close> and the new one \<open>Failed\<close>. After a crash at this point \<open>openJobs\<close> finds neither,
  so recovery does not wait for the transaction in flight.
\<close>

theorem underpriced_bump_loses_the_nonce:
  "let r = replace sample_options ((sample_wait_view 0)\<lparr>wv_send := (\<lambda>_. Some underpriced)\<rparr>) gap_job gap_sender
   in open_nonces sample_options gap_sender = {0} \<and> open_nonces sample_options (snd r) = {}
      \<and> map tj_status (sn_store (snd r)) = [Replaced, Failed]
      \<and> (\<exists>nx. fst r = Inr (Some nx) \<and> tj_maxFeePerGas nx = parseGwei 46)"
  by (simp add: replace_eval open_nonces_def underpriced_def isAlreadyKnown_def isNonceTooLow_def
      isUnderpriced_def text_matches_def errorText_def lower_def lower_char_def)

end
