(* ===== verification/Matcher_Loop.thy ===== *)
theory Matcher_Loop
  imports Matcher_Apply Execution_Band Tx_Wait
begin

text \<open>
  The matcher's tick and its recovery, \<open>client/lib/matcher/loop.ts\<close>: load, match, band, batch,
  submit, wait, apply, composed from the component theories as the class composes them.

  The chain and the clock are parameters. \<open>tick_env\<close> holds what they answer during one market's
  tick, and \<open>batch_env\<close> what they answer for one batch; a batch that reverts for gas is halved
  and its halves are settled in turn, so batches are addressed by a path: the number of the
  batch, then 0 or 1 for each halving. Log lines are not modelled; every counter is.
\<close>

section \<open>Options and the environment\<close>

record matcher_options =
  mo_network :: string
  mo_sender :: sender_options
  mo_gateway :: address
  mo_insurance :: address
  mo_marketIds :: "int list"
  mo_minBatchFills :: nat
  mo_orphanGraceMs :: int
  mo_cooldown :: cooldown_options
  mo_keccak :: fill_hash
  mo_getAddress :: "address \<Rightarrow> address"
  mo_encode :: "planned_fill list \<Rightarrow> hex"
  mo_decodeError :: error_abi
  mo_recover :: "order \<Rightarrow> hex \<Rightarrow> string + address"
  mo_digest :: "order \<Rightarrow> hex"
  mo_erc1271 :: "(address \<Rightarrow> hex \<Rightarrow> hex \<Rightarrow> string + bool) option"

record batch_env =
  be_now :: int
  be_submit :: "nat \<Rightarrow> submit_view"
  be_started :: int
  be_wait :: "nat \<Rightarrow> wait_view"
  be_passes :: nat
  be_logs :: "hex \<Rightarrow> chain_log list"
  be_applyMs :: int
  be_call :: "err_node option"

record tick_env =
  te_nowMs :: int
  te_getPrice :: "hex \<Rightarrow> int \<Rightarrow> int \<Rightarrow> string + index_price"
  te_unwindLimits :: "chain_fault + (int \<times> int \<times> int \<times> int)"
  te_estimateGas :: "hex \<Rightarrow> chain_fault + int"
  te_batch :: "nat list \<Rightarrow> batch_env"

definition chain_answer :: "chain_fault + 'a \<Rightarrow> 'a matcher_act" where
  "chain_answer r = (case r of Inl e \<Rightarrow> act_throw (Chain e) | Inr x \<Rightarrow> act_ret x)"

text \<open>\<open>chainGasEstimator\<close>: encoding the batch may refuse it before the node is asked.\<close>

definition chainGasEstimator :: "matcher_options \<Rightarrow> tick_env \<Rightarrow> planned_fill list \<Rightarrow> matcher_error + int" where
  "chainGasEstimator opts env fills =
     (case encodeSettleFills (mo_encode opts) fills of
        Inl e \<Rightarrow> Inl (Encode e)
      | Inr data \<Rightarrow> (case te_estimateGas env data of Inl e \<Rightarrow> Inl (Chain e) | Inr g \<Rightarrow> Inr g))"

definition sized :: "(matcher_error + planned_fill sized_batch list) option \<Rightarrow> planned_fill sized_batch list matcher_act" where
  "sized r = (case r of None \<Rightarrow> act_throw Out_of_passes | Some x \<Rightarrow> act_lift x)"

section \<open>One batch\<close>

definition recordRejectionBackoff ::
  "matcher_options \<Rightarrow> int \<Rightarrow> planned_fill list \<Rightarrow> (hex \<times> rejection_action) list \<Rightarrow> unit matcher_act" where
  "recordRejectionBackoff opts nowMs fills rejected =
     (let byFillId = map_of_rows (map (\<lambda>f. (lower (sf_fillId f), f)) fills) in
      act_then
        (act_each (\<lambda>(fillId, action).
           case action of
             Retryable reason \<Rightarrow>
               (case byFillId (lower fillId) of
                  None \<Rightarrow> act_ret ()
                | Some f \<Rightarrow>
                    act_each (\<lambda>h. act_mod (\<lambda>s.
                        let (state, held) = strike (mo_cooldown opts) (mt_cooldown s) h reason nowMs;
                            s' = s\<lparr>mt_cooldown := held\<rparr>
                        in if cd_parked state \<and> cd_strikes state = co_parkAfter (mo_cooldown opts)
                           then s'\<lparr>mt_metrics := (mt_metrics s')\<lparr>mx_ordersParked := mx_ordersParked (mt_metrics s') + 1\<rparr>\<rparr>
                           else s'))
                      [pf_makerOrderHash f, pf_takerOrderHash f])
           | _ \<Rightarrow> act_ret ()) rejected)
        (act_mod (\<lambda>s. s\<lparr>mt_metrics := (mt_metrics s)\<lparr>mx_ordersCoolingDown := blockedCount (mt_cooldown s) nowMs\<rparr>\<rparr>)))"

definition clearSettled :: "planned_fill list \<Rightarrow> hex list \<Rightarrow> unit matcher_act" where
  "clearSettled fills settled =
     act_each (\<lambda>f. act_when (lower (sf_fillId f) \<in> set (map lower settled))
         (act_mod (\<lambda>s. s\<lparr>mt_cooldown := clear (clear (mt_cooldown s) (pf_makerOrderHash f)) (pf_takerOrderHash f)\<rparr>)))
       fills"

definition tally_applied :: "applied_batch \<Rightarrow> nat \<Rightarrow> int \<Rightarrow> matcher_metrics \<Rightarrow> matcher_metrics" where
  "tally_applied a n gasUsed m = recordBatchGas (int n) gasUsed (m\<lparr>
     mx_fillsSettled := mx_fillsSettled m + int (length (ap_settled a)),
     mx_fillsRejected := mx_fillsRejected m + int (length (ap_rejected a)),
     mx_fillsUnaccounted := mx_fillsUnaccounted m + int (length (ap_unaccounted a)),
     mx_ordersRetired := mx_ordersRetired m + int (length (ap_retired a)),
     mx_matcherBugs := mx_matcherBugs m + int (length (ap_matcherBugs a))\<rparr>)"

definition apply_ctx :: "matcher_options \<Rightarrow> batch_env \<Rightarrow> (address \<Rightarrow> int option) \<Rightarrow> apply_context" where
  "apply_ctx opts env minValidNonce =
     \<lparr>ax_network = mo_network opts, ax_nowSec = be_applyMs env div 1000, ax_minValidNonce = minValidNonce,
      ax_recover = mo_recover opts, ax_digest = mo_digest opts, ax_erc1271 = mo_erc1271 opts\<rparr>"

definition apply_receipt ::
  "matcher_options \<Rightarrow> batch_env \<Rightarrow> planned_fill list \<Rightarrow> tx_receipt \<Rightarrow> applied_batch matcher_act" where
  "apply_receipt opts env fills receipt = (\<lambda>s.
     let result = resultFromReceipt (mo_decodeError opts) (be_logs env (rc_hash receipt)) (mo_gateway opts);
         owners = concat (map (\<lambda>f. [lower (od_owner (sf_maker f)), lower (od_owner (sf_taker f))]) fills);
         nonces = loadMinValidNonces (mt_db s) (mo_network opts) owners;
         (d, applied) = applyBatchResult (apply_ctx opts env nonces) fills result (mt_db s)
     in (Inr applied, s\<lparr>mt_db := d\<rparr>))"

definition awaitAndApply ::
  "matcher_options \<Rightarrow> batch_env \<Rightarrow> tx_job \<Rightarrow> planned_fill list \<Rightarrow> tx_receipt option matcher_act" where
  "awaitAndApply opts env job fills =
     act_then (act_when (fills \<noteq> []) (on_db (linkFillsToJob (mo_network opts) (map sf_fillId fills) (tj_id job))))
    (act_bind
      (act_catch
        (act_bind (on_sender (wait (mo_sender opts) (be_started env) (be_wait env) (be_passes env) job)) (\<lambda>r.
           case r of None \<Rightarrow> act_throw Out_of_passes | Some outcome \<Rightarrow> act_ret (Some (oc_receipt outcome))))
        (\<lambda>err. case err of Tx (Tx_timeout _ _) \<Rightarrow> act_ret None | _ \<Rightarrow> act_throw err))
      (\<lambda>r. case r of None \<Rightarrow> act_ret None
       | Some receipt \<Rightarrow>
           if \<not> rc_success receipt \<or> fills = [] then act_ret (Some receipt)
           else
             act_bind (apply_receipt opts env fills receipt) (\<lambda>applied.
             act_then (tally (tally_applied applied (length fills) (rc_gasUsed receipt)))
            (act_then (act_when (ap_rejected applied \<noteq> [])
                        (recordRejectionBackoff opts (be_applyMs env) fills (ap_rejected applied)))
            (act_then (act_when (ap_settled applied \<noteq> []) (clearSettled fills (ap_settled applied)))
               (act_ret (Some receipt)))))))"

text \<open>
  The loop over the halves of a batch; \<open>again\<close> settles one of them. Only the first of the
  batches that a half is sized into is settled, as in the code.
\<close>

fun settle_halves ::
  "matcher_options \<Rightarrow> tick_env \<Rightarrow> (nat list \<Rightarrow> planned_fill list \<Rightarrow> int \<Rightarrow> unit matcher_act)
     \<Rightarrow> nat list \<Rightarrow> nat \<Rightarrow> planned_fill list list \<Rightarrow> unit matcher_act" where
  "settle_halves opts env again path k [] = act_ret ()"
| "settle_halves opts env again path k (part # parts) =
     act_bind (act_get mt_stopping) (\<lambda>stop.
       if stop then act_ret ()
       else act_bind (sized (sizeBatches part (chainGasEstimator opts env) (default_size_options (mo_minBatchFills opts)))) (\<lambda>bs.
         case bs of [] \<Rightarrow> act_ret ()
         | b # _ \<Rightarrow> act_then (again (path @ [k]) (sb_fills b) (sb_gas b))
                     (settle_halves opts env again path (Suc k) parts)))"

text \<open>
  \<open>settle\<close>: reserve, broadcast, wait, apply; halve and retry after \<open>InsufficientBatchGas\<close>. Each
  halving shortens the batch, so as many rounds as there are fills are enough.
\<close>

primrec settle ::
  "nat \<Rightarrow> matcher_options \<Rightarrow> tick_env \<Rightarrow> string \<Rightarrow> nat list \<Rightarrow> planned_fill list \<Rightarrow> int \<Rightarrow> unit matcher_act" where
  "settle 0 opts env symbol path fills gas = (if fills = [] then act_ret () else act_throw Out_of_passes)"
| "settle (Suc n) opts env symbol path fills gas =
     (if fills = [] then act_ret () else
      act_bind (submitBatch \<lparr>sm_network = mo_network opts, sm_sender = mo_sender opts, sm_gateway = mo_gateway opts,
                   sm_label = ''settleFillsSigned:'' @ symbol, sm_encode = mo_encode opts\<rparr>
                  (be_now (te_batch env path)) (be_submit (te_batch env path)) fills gas) (\<lambda>submitted.
      act_then (tally (\<lambda>m. m\<lparr>mx_fillsSubmitted := mx_fillsSubmitted m + int (length fills)\<rparr>))
     (act_bind (awaitAndApply opts (te_batch env path) (sd_job submitted) (sd_fills submitted)) (\<lambda>r.
        case r of None \<Rightarrow> act_ret ()
        | Some receipt \<Rightarrow>
            if rc_success receipt then act_ret ()
            else
              act_then (tally (\<lambda>m. m\<lparr>mx_batchReverts := mx_batchReverts m + 1\<rparr>))
             (act_then (on_db (\<lambda>d. snd (releasePendingFills (mo_network opts) (map sf_fillId fills) d)))
                (if de_errorName (revertReasonFor (mo_decodeError opts) (be_call (te_batch env path))) \<noteq> Some ''InsufficientBatchGas''
                 then act_ret ()
                 else
                   (let halves = halveAfterGasRevert fills (mo_minBatchFills opts)
                    in if halves = [] then act_ret ()
                       else act_then (tally (\<lambda>m. m\<lparr>mx_gasResizes := mx_gasResizes m + 1\<rparr>))
                              (settle_halves opts env (settle n opts env symbol) path 0 halves))))))))"

section \<open>The tick\<close>

definition backstopLimits :: "tick_env \<Rightarrow> backstop_limits matcher_act" where
  "backstopLimits env = act_bind (chain_answer (te_unwindLimits env)) (\<lambda>(bps, fillCap, dailyCap, usedToday).
     let remaining = dailyCap - usedToday
     in act_ret \<lparr>bl_maxDeviationBps = bps, bl_maxFillNotional = fillCap,
                 bl_dailyRemaining = (if remaining > 0 then remaining else 0)\<rparr>)"

fun settle_batches :: "matcher_options \<Rightarrow> tick_env \<Rightarrow> string \<Rightarrow> nat \<Rightarrow> planned_fill sized_batch list \<Rightarrow> unit matcher_act" where
  "settle_batches opts env symbol k [] = act_ret ()"
| "settle_batches opts env symbol k (b # bs) =
     act_bind (act_get mt_stopping) (\<lambda>stop.
       if stop then act_ret ()
       else act_then (settle (length (sb_fills b)) opts env symbol [k] (sb_fills b) (sb_gas b))
              (settle_batches opts env symbol (Suc k) bs))"

definition settle_matches :: "matcher_options \<Rightarrow> tick_env \<Rightarrow> market_config \<Rightarrow> engine_match list \<Rightarrow> unit matcher_act" where
  "settle_matches opts env market offered =
     act_bind (act_get (\<lambda>s. buildFills (mo_keccak opts) (mo_getAddress opts) (mt_db s) (mo_network opts) offered)) (\<lambda>r.
       case r of Inl e \<Rightarrow> act_throw (Build e)
       | Inr fills \<Rightarrow>
           if fills = [] then act_ret ()
           else act_bind (sized (sizeBatches fills (chainGasEstimator opts env) (default_size_options (mo_minBatchFills opts))))
                  (settle_batches opts env (mc_symbol market) 0))"

definition backstop_guard :: "matcher_options \<Rightarrow> tick_env \<Rightarrow> int \<Rightarrow> engine_match list \<Rightarrow> engine_match list matcher_act" where
  "backstop_guard opts env index kept =
     (if list_ex (\<lambda>m. isBackstopMatch m (mo_insurance opts)) kept
      then act_bind (backstopLimits env) (\<lambda>limits.
             let guard = filterBackstopFills kept (mo_insurance opts) index limits
             in act_then (tally (\<lambda>m. m\<lparr>mx_backstopDrops := mx_backstopDrops m + int (length (bs_dropped guard))\<rparr>))
                  (act_ret (bs_kept guard)))
      else act_ret kept)"

definition match_book :: "matcher_options \<Rightarrow> tick_env \<Rightarrow> int \<Rightarrow> int \<Rightarrow> book_data \<Rightarrow> engine_order list \<Rightarrow> index_price \<Rightarrow> unit matcher_act" where
  "match_book opts env marketId nowSec bk orders index =
     (let market = bk_market bk;
          b = bandFor (ip_price index) (mc_maxExecutionDeviationBps market);
          matches = er_matches (matchOrders
            \<lparr>ei_marketId = marketId, ei_nowSec = nowSec, ei_orders = orders, ei_positions = bk_positions bk,
             ei_minValidNonce = bk_minValidNonce bk, ei_minFillNotional = mc_minFillNotional market,
             ei_acceptPrice = Some (\<lambda>price. withinBand price b)\<rparr>)
      in if matches = [] then act_ret ()
         else act_then (tally (\<lambda>m. m\<lparr>mx_matches := mx_matches m + int (length matches)\<rparr>))
          (let f = filterByBand matches (ip_price index) (mc_maxExecutionDeviationBps market)
           in act_then (tally (\<lambda>m. m\<lparr>mx_bandDrops := mx_bandDrops m + int (length (bf_dropped f))\<rparr>))
             (if bf_kept f = [] then act_ret ()
              else act_bind (backstop_guard opts env (ip_price index) (bf_kept f)) (\<lambda>offered.
                     if offered = [] then act_ret () else settle_matches opts env market offered))))"

definition tickMarket :: "matcher_options \<Rightarrow> tick_env \<Rightarrow> int \<Rightarrow> unit matcher_act" where
  "tickMarket opts env marketId =
     (let nowSec = te_nowMs env div 1000 in
      act_bind (act_get (\<lambda>s. loadBook (mt_db s) (mo_network opts) marketId nowSec)) (\<lambda>r.
        case r of Inl _ \<Rightarrow> act_ret ()
        | Inr bk \<Rightarrow>
            if \<not> mc_active (bk_market bk) then act_ret ()
            else if bk_orders bk = [] then act_ret ()
            else
              act_then (act_mod (\<lambda>s. s\<lparr>mt_cooldown := sweep (mo_cooldown opts) (mt_cooldown s) (te_nowMs env)\<rparr>))
             (act_bind (act_get (\<lambda>s. filter (\<lambda>x. \<not> blocked (mt_cooldown s) (eo_orderHash x) (te_nowMs env)) (bk_orders bk)))
               (\<lambda>orders.
              act_then (act_mod (\<lambda>s. s\<lparr>mt_metrics := (mt_metrics s)\<lparr>mx_ordersCoolingDown := blockedCount (mt_cooldown s) (te_nowMs env)\<rparr>\<rparr>))
               (if orders = [] then act_ret ()
                else case readIndexPrice (te_getPrice env) (bk_market bk) of
                       Inl _ \<Rightarrow> tally (\<lambda>m. m\<lparr>mx_oracleSkips := mx_oracleSkips m + 1\<rparr>)
                     | Inr index \<Rightarrow> match_book opts env marketId nowSec bk orders index)))))"

fun tick_markets :: "matcher_options \<Rightarrow> (int \<Rightarrow> tick_env) \<Rightarrow> int list \<Rightarrow> unit matcher_act" where
  "tick_markets opts env [] = act_ret ()"
| "tick_markets opts env (m # ms) =
     act_bind (act_get mt_stopping) (\<lambda>stop.
       if stop then act_ret () else act_then (tickMarket opts (env m) m) (tick_markets opts env ms))"

definition tick :: "matcher_options \<Rightarrow> int \<Rightarrow> (int \<Rightarrow> tick_env) \<Rightarrow> unit matcher_act" where
  "tick opts now env =
     act_then (tally (\<lambda>m. m\<lparr>mx_ticks := mx_ticks m + 1, mx_lastTickAt := Some now\<rparr>))
       (tick_markets opts env (mo_marketIds opts))"

text \<open>One turn of \<open>loop\<close>: an error of the tick is counted, not passed on.\<close>

definition loop_turn :: "matcher_options \<Rightarrow> int \<Rightarrow> (int \<Rightarrow> tick_env) \<Rightarrow> unit matcher_act" where
  "loop_turn opts now env =
     act_catch (tick opts now env) (\<lambda>_. tally (\<lambda>m. m\<lparr>mx_tickErrors := mx_tickErrors m + 1\<rparr>))"

section \<open>Recovery\<close>

definition strip :: "signed_order_row \<Rightarrow> order" where
  "strip r = \<lparr>od_owner = od_owner r, od_marketId = od_marketId r, od_isLong = od_isLong r,
     od_size = od_size r, od_limitPrice = od_limitPrice r, od_reduceOnly = od_reduceOnly r,
     od_nonce = od_nonce r, od_expiry = od_expiry r, od_referrer = od_referrer r\<rparr>"

definition rebuild_fill :: "(hex \<Rightarrow> signed_order_row option) \<Rightarrow> fill_row \<Rightarrow> planned_fill list" where
  "rebuild_fill orders r =
     (case (orders (fl_makerOrderHash r), orders (fl_takerOrderHash r)) of
        (Some maker, Some taker) \<Rightarrow>
          [\<lparr>sf_fillId = fl_fillId r, sf_maker = strip maker, sf_makerSignature = sr_signature maker,
            sf_taker = strip taker, sf_takerSignature = sr_signature taker, sf_size = fl_size r, sf_price = fl_price r,
            pf_marketId = fl_marketId r, pf_makerOrderHash = fl_makerOrderHash r,
            pf_takerOrderHash = fl_takerOrderHash r, pf_takerIsBuy = od_isLong taker,
            pf_notional = (fl_size r * fl_price r) sdiv 10 ^ 18\<rparr>]
      | _ \<Rightarrow> [])"

text \<open>The rows are in the order of their serial id, which is the order of the table.\<close>

definition fillsForJob :: "matcher_options \<Rightarrow> db \<Rightarrow> string \<Rightarrow> planned_fill list" where
  "fillsForJob opts d txJobId =
     (let rows = filter (\<lambda>f. fl_network f = mo_network opts \<and> fl_txJobId f = Some txJobId \<and> fl_status f = PENDING) (db_fills d);
          hashes = concat (map (\<lambda>f. [fl_makerOrderHash f, fl_takerOrderHash f]) rows);
          orders = loadSignedOrders (mo_getAddress opts) d (mo_network opts) hashes
      in concat (map (rebuild_fill orders) rows))"

definition settledSizeFor :: "string \<Rightarrow> db \<Rightarrow> hex \<Rightarrow> int" where
  "settledSizeFor network d h =
     sum_list (map fl_size (filter (\<lambda>f. fl_network f = network \<and> fl_status f = SETTLED
       \<and> (fl_makerOrderHash f = lower h \<or> fl_takerOrderHash f = lower h)) (db_fills d)))"

definition is_orphan :: "matcher_options \<Rightarrow> tx_store \<Rightarrow> int \<Rightarrow> fill_row \<Rightarrow> bool" where
  "is_orphan opts jobs cutoff f \<longleftrightarrow>
     fl_network f = mo_network opts \<and> fl_status f = PENDING \<and> fl_marketId f \<in> set (mo_marketIds opts)
     \<and> fl_createdAt f < cutoff
     \<and> (case fl_txJobId f of None \<Rightarrow> True
        | Some i \<Rightarrow> list_ex (\<lambda>j. tj_id j = i \<and> tj_status j \<in> {Dropped, Failed}) jobs)"

text \<open>\<open>filled owner nonce\<close> is \<open>OrderGateway.filled\<close>.\<close>

fun orphan_releases ::
  "matcher_options \<Rightarrow> (address \<Rightarrow> int \<Rightarrow> chain_fault + int) \<Rightarrow> db \<Rightarrow> (hex \<Rightarrow> signed_order_row option)
     \<Rightarrow> fill_row list \<Rightarrow> chain_fault + hex list" where
  "orphan_releases opts filled d orders [] = Inr []"
| "orphan_releases opts filled d orders (f # fs) =
     (case orders (fl_makerOrderHash f) of
        None \<Rightarrow> orphan_releases opts filled d orders fs
      | Some maker \<Rightarrow>
          (case filled (od_owner maker) (od_nonce maker) of
             Inl e \<Rightarrow> Inl e
           | Inr onChainFilled \<Rightarrow>
               (case orphan_releases opts filled d orders fs of Inl e \<Rightarrow> Inl e
                | Inr rest \<Rightarrow>
                    Inr (if onChainFilled < settledSizeFor (mo_network opts) d (fl_makerOrderHash f) + fl_size f
                         then fl_fillId f # rest else rest))))"

definition reconcileOrphanFills :: "matcher_options \<Rightarrow> int \<Rightarrow> (address \<Rightarrow> int \<Rightarrow> chain_fault + int) \<Rightarrow> unit matcher_act" where
  "reconcileOrphanFills opts nowMs filled =
     act_bind (act_get (\<lambda>s. (mt_db s, filter (is_orphan opts (sn_store (mt_sender s)) (nowMs - mo_orphanGraceMs opts)) (db_fills (mt_db s)))))
       (\<lambda>(d, rows).
          if rows = [] then act_ret ()
          else
            let orders = loadSignedOrders (mo_getAddress opts) d (mo_network opts) (map fl_makerOrderHash rows)
            in act_bind (chain_answer (orphan_releases opts filled d orders rows)) (\<lambda>release.
                 on_db (\<lambda>d. snd (releasePendingFills (mo_network opts) release d))))"

definition label_matches :: "string \<Rightarrow> bool" where
  "label_matches l \<longleftrightarrow> take 17 l = ''settleFillsSigned''"

definition recover_job :: "matcher_options \<Rightarrow> (string \<Rightarrow> batch_env) \<Rightarrow> tx_job \<Rightarrow> unit matcher_act" where
  "recover_job opts env job =
     act_when (label_matches (tj_label job))
       (act_bind (act_get (\<lambda>s. fillsForJob opts (mt_db s) (tj_id job))) (\<lambda>fills.
          act_then (awaitAndApply opts (env (tj_id job)) job fills) (act_ret ())))"

definition recover :: "matcher_options \<Rightarrow> (string \<Rightarrow> batch_env) \<Rightarrow> int \<Rightarrow> (address \<Rightarrow> int \<Rightarrow> chain_fault + int) \<Rightarrow> unit matcher_act" where
  "recover opts env nowMs filled =
     act_bind (act_get (\<lambda>s. openJobs (sn_store (mt_sender s)) (an_id (so_network (mo_sender opts))) (so_address (mo_sender opts))))
       (\<lambda>jobs. act_then (act_each (recover_job opts env) jobs) (reconcileOrphanFills opts nowMs filled))"

text \<open>\<open>run\<close>: recover, then a number of turns of the loop.\<close>

fun turns :: "matcher_options \<Rightarrow> (nat \<Rightarrow> int \<times> (int \<Rightarrow> tick_env)) \<Rightarrow> nat \<Rightarrow> nat \<Rightarrow> unit matcher_act" where
  "turns opts env k 0 = act_ret ()"
| "turns opts env k (Suc n) = act_bind (act_get mt_stopping) (\<lambda>stop.
     if stop then act_ret ()
     else act_then (loop_turn opts (fst (env k)) (snd (env k))) (turns opts env (Suc k) n))"

definition run ::
  "matcher_options \<Rightarrow> (string \<Rightarrow> batch_env) \<Rightarrow> int \<Rightarrow> (address \<Rightarrow> int \<Rightarrow> chain_fault + int)
     \<Rightarrow> (nat \<Rightarrow> int \<times> (int \<Rightarrow> tick_env)) \<Rightarrow> nat \<Rightarrow> unit matcher_act" where
  "run opts renv nowMs filled env n = act_then (recover opts renv nowMs filled) (turns opts env 0 n)"

end
