(* ===== verification/Matcher_Safety.thy ===== *)
theory Matcher_Safety
  imports Matcher_Loop
begin

text \<open>
  What the matcher guarantees as a whole, on the model of \<open>Matcher_Loop\<close>: over recovery and any
  number of ticks, with whatever the chain answers and whichever errors are raised, no order is
  committed beyond its size; the band filter after matching never drops a match; an orphaned
  fill that did land is never released; and the recovery paths miss a batch whose transaction
  was replaced.
\<close>

section \<open>What a batch may do to the database\<close>

definition row_core :: "fill_row \<Rightarrow> string \<times> hex \<times> int \<times> hex \<times> hex \<times> int" where
  "row_core f = (fl_network f, fl_fillId f, fl_marketId f, fl_makerOrderHash f, fl_takerOrderHash f, fl_size f)"

definition plan_core :: "string \<Rightarrow> planned_fill \<Rightarrow> string \<times> hex \<times> int \<times> hex \<times> hex \<times> int" where
  "plan_core network p = (network, lower (sf_fillId p), pf_marketId p, lower (pf_makerOrderHash p), lower (pf_takerOrderHash p), sf_size p)"

definition order_core :: "order_row \<Rightarrow> string \<times> hex \<times> int \<times> int \<times> int \<times> int" where
  "order_core r = (ow_network r, ow_orderHash r, ow_marketId r, ow_size r, ow_limitPrice r, ow_filledSize r)"

definition reserves :: "string \<Rightarrow> fill_row \<Rightarrow> bool" where
  "reserves network f = reserving network (\<lambda>_. True) f"

definition fill_key :: "fill_row \<Rightarrow> string \<times> hex" where
  "fill_key f = (fl_network f, fl_fillId f)"

text \<open>
  \<open>stays_within network d fills d'\<close>: \<open>d'\<close> has \<open>d\<close>'s orders up to their status, unique fill keys,
  and reserves nothing but what \<open>d\<close> reserves and what the planned fills may.
\<close>

definition stays_within :: "string \<Rightarrow> db \<Rightarrow> planned_fill list \<Rightarrow> db \<Rightarrow> bool" where
  "stays_within network d fills d' \<longleftrightarrow>
     distinct (map fill_key (db_fills d')) \<and> map order_core (db_orders d') = map order_core (db_orders d)
     \<and> (\<forall>f \<in> set (db_fills d'). reserves network f \<longrightarrow>
          row_core f \<in> row_core ` {f \<in> set (db_fills d). reserves network f} \<union> plan_core network ` set fills)"

lemma stays_within_refl: "distinct (map fill_key (db_fills d)) \<Longrightarrow> stays_within network d fills d"
  by (auto simp: stays_within_def)

lemma stays_within_orders:
  "stays_within network d fills d1 \<Longrightarrow> map order_core (db_orders d2) = map order_core (db_orders d1) \<Longrightarrow>
   db_fills d2 = db_fills d1 \<Longrightarrow> stays_within network d fills d2"
  by (simp add: stays_within_def)

text \<open>A change of the fill table that keeps the keys and only ever stops a row from reserving.\<close>

lemma stays_within_rel:
  assumes within: "stays_within network d fills d1" and orders: "map order_core (db_orders d2) = map order_core (db_orders d1)"
    and rel: "list_all2 (\<lambda>f g. fill_key g = fill_key f \<and> row_core g = row_core f \<and> (reserves network g \<longrightarrow> reserves network f))
           (db_fills d1) (db_fills d2)"
  shows "stays_within network d fills d2"
proof -
  let ?ok = "row_core ` {f \<in> set (db_fills d). reserves network f} \<union> plan_core network ` set fills"
  have keys: "map fill_key (db_fills d2) = map fill_key (db_fills d1)"
    using rel by (induction rule: list_all2_induct) simp_all
  have kept: "row_core g \<in> ?ok" if g: "g \<in> set (db_fills d2)" and res: "reserves network g" for g
  proof -
    obtain k where k: "k < length (db_fills d2)" "db_fills d2 ! k = g" using g by (auto simp: in_set_conv_nth)
    then have f: "row_core g = row_core (db_fills d1 ! k)" "reserves network (db_fills d1 ! k)"
      using list_all2_nthD2 [OF rel k(1)] res by simp_all
    have "db_fills d1 ! k \<in> set (db_fills d1)" using k(1) rel by (simp add: list_all2_lengthD)
    then show ?thesis using within f unfolding stays_within_def by simp
  qed
  show ?thesis
    unfolding stays_within_def
  proof (intro conjI ballI impI)
    show "distinct (map fill_key (db_fills d2))" using within by (simp add: keys stays_within_def)
    show "map order_core (db_orders d2) = map order_core (db_orders d)" using within orders by (simp add: stays_within_def)
  qed (rule kept)
qed

lemma stays_within_persist:
  assumes "stays_within network d fills d1" and "set batch \<subseteq> set fills"
  shows "stays_within network d fills (snd (persistPendingFills network t batch d1))"
proof -
  let ?fresh = "fresh_fills network (fill_ids network d1) batch"
  have sub: "set ?fresh \<subseteq> set fills"
    using mset_subset_eqD [OF fresh_fills_mset] assms(2) by (metis set_mset_mset subset_eq)
  have new: "distinct (map fill_key (map (pending_row network t) ?fresh))"
    using fresh_fills_ids [of network "fill_ids network d1" batch]
    by (simp add: distinct_map comp_def fill_key_def pending_row_def inj_on_def)
  have "fill_key (pending_row network t p) \<notin> fill_key ` set (db_fills d1)" if "p \<in> set ?fresh" for p
    using fresh_fills_ids [of network "fill_ids network d1" batch] that
    by (auto simp: fill_key_def pending_row_def fill_ids_def has_fill_def)
  then have "distinct (map fill_key (db_fills d1 @ map (pending_row network t) ?fresh))"
    using assms(1) new by (fastforce simp: stays_within_def)
  moreover have "row_core (pending_row network t p) = plan_core network p" for p
    by (simp add: row_core_def plan_core_def pending_row_def)
  ultimately show ?thesis
    using assms(1) sub by (auto simp: stays_within_def persistPendingFills_eq)
qed

lemma stays_within_link: "stays_within network d fills d1 \<Longrightarrow> stays_within network d fills (linkFillsToJob n ids j d1)"
  by (rule stays_within_rel)
    (auto simp: linkFillsToJob_def list_all2_map2 fill_key_def row_core_def reserves_def reserving_def intro!: list.rel_refl)

lemma stays_within_release: "stays_within network d fills d1 \<Longrightarrow> stays_within network d fills (snd (releasePendingFills n ids d1))"
  by (auto simp: stays_within_def releasePendingFills_def intro: distinct_map_filter)

lemma stays_within_apply:
  assumes "stays_within (ax_network ctx) d fills d1"
  shows "stays_within (ax_network ctx) d fills (fst (applyBatchResult ctx batch result d1))"
proof (rule stays_within_rel [OF assms])
  have core: "order_core r' = order_core r" if "retired_by R r r'" for R r r'
    using that by (auto simp: retired_by_def order_core_def)
  have "list_all2 (retired_by (set (ap_retired (snd (applyBatchResult ctx batch result d1)))))
      (db_orders d1) (db_orders (fst (applyBatchResult ctx batch result d1)))"
    using applied_inv [of ctx batch d1 result] by (simp add: apply_inv_def)
  then show "map order_core (db_orders (fst (applyBatchResult ctx batch result d1))) = map order_core (db_orders d1)"
    by (induction rule: list_all2_induct) (simp_all add: core)
  have "fill_key g = fill_key f \<and> row_core g = row_core f \<and> (reserves (ax_network ctx) g \<longrightarrow> reserves (ax_network ctx) f)"
    if "tagged n ids f g" for n ids f g
    using that by (auto simp: tagged_def fill_key_def row_core_def reserves_def reserving_def split: if_splits)
  then show "list_all2 (\<lambda>f g. fill_key g = fill_key f \<and> row_core g = row_core f
        \<and> (reserves (ax_network ctx) g \<longrightarrow> reserves (ax_network ctx) f))
      (db_fills d1) (db_fills (fst (applyBatchResult ctx batch result d1)))"
    using applied_tagged by (rule list_all2_mono [rotated])
qed

section \<open>A market's tick keeps the book sound\<close>

definition core_uses :: "int \<Rightarrow> hex \<Rightarrow> string \<times> hex \<times> int \<times> hex \<times> hex \<times> int \<Rightarrow> int" where
  "core_uses mid h c = (case c of (_, _, m, mk, tk, sz) \<Rightarrow>
     if m = mid then (if mk = h then sz else 0) + (if tk = h then sz else 0) else 0)"

lemma reservation_core:
  "pendingReservation d network (\<lambda>f. fl_marketId f = mid) h
     = sum_list (map (core_uses mid h) (map row_core (filter (reserves network) (db_fills d))))"
proof -
  have "sum_list (map (fill_uses h) (filter (reserving network (\<lambda>f. fl_marketId f = mid)) fs))
      = sum_list (map (core_uses mid h) (map row_core (filter (reserves network) fs)))" for fs
    by (induction fs) (auto simp: reserves_def reserving_def core_uses_def row_core_def fill_uses_def)
  then show ?thesis by (simp add: pendingReservation_def)
qed

lemma distinct_core: "distinct (map fill_key fs) \<Longrightarrow> distinct (map row_core (filter P fs))"
proof -
  assume "distinct (map fill_key fs)"
  then have "distinct (map fill_key (filter P fs))" by (rule distinct_map_filter)
  moreover have "fill_key f = (fst (row_core f), fst (snd (row_core f)))" for f
    by (simp add: fill_key_def row_core_def)
  ultimately show ?thesis by (auto simp: distinct_map inj_on_def)
qed

lemma distinct_sub_mset:
  assumes "distinct xs" and "set xs \<subseteq> set ys"
  shows "mset xs \<subseteq># mset ys"
proof (rule mset_subset_eqI)
  fix x
  show "count (mset xs) x \<le> count (mset ys) x"
    using assms by (cases "x \<in> set xs") (auto simp: distinct_count_atmost_1 Suc_le_eq count_mset_0_iff)
qed

text \<open>
  The invariant of the whole matcher: unique and well-formed rows, no order committed beyond its
  size, and no negative reservation.
\<close>

definition ledger_sound :: "string \<Rightarrow> db \<Rightarrow> bool" where
  "ledger_sound network d \<longleftrightarrow> db_ok d \<and> book_sound d network
     \<and> (\<forall>f \<in> set (db_fills d). reserves network f \<longrightarrow> 0 \<le> fl_size f)"

lemma same_core_row:
  assumes "map order_core (db_orders d') = map order_core (db_orders d)" and "r' \<in> set (db_orders d')"
  shows "\<exists>r \<in> set (db_orders d). order_core r = order_core r'"
  using assms by (metis (no_types, lifting) in_set_conv_nth length_map nth_map)

lemma db_ok_within:
  assumes "db_ok d" and "stays_within network d fills d'"
  shows "db_ok d'"
proof -
  have cores: "map order_core (db_orders d') = map order_core (db_orders d)"
    using assms(2) by (simp add: stays_within_def)
  have "map (\<lambda>c. fst (snd c)) (map order_core (db_orders d')) = map (\<lambda>c. fst (snd c)) (map order_core (db_orders d))"
    by (simp only: cores)
  then have "map ow_orderHash (db_orders d') = map ow_orderHash (db_orders d)"
    by (simp add: order_core_def comp_def)
  moreover have "lower (ow_orderHash r) = ow_orderHash r \<and> 0 < ow_limitPrice r" if r: "r \<in> set (db_orders d')" for r
    using same_core_row [OF cores r] assms(1) by (auto simp: order_core_def db_ok_def)
  moreover have "distinct (map fill_key (db_fills d'))" using assms(2) by (simp add: stays_within_def)
  ultimately show ?thesis using assms(1) by (simp add: db_ok_def fill_key_def [abs_def])
qed

lemma planned_uses_rows:
  "sum_list (map (core_uses m h) (map (plan_core network) fills))
     = sum_list (map (fill_uses h) (filter (reserving network (\<lambda>f. fl_marketId f = m)) (map (pending_row network t) fills)))"
  by (induction fills) (auto simp: core_uses_def plan_core_def reserving_def pending_row_def fill_uses_def)

lemma reservation_within:
  assumes within: "stays_within network d fills d'"
    and pos: "\<And>c. c \<in> set (map row_core (filter (reserves network) (db_fills d)) @ map (plan_core network) fills) \<Longrightarrow> 0 \<le> core_uses m h c"
  shows "pendingReservation d' network (\<lambda>f. fl_marketId f = m) h
    \<le> pendingReservation d network (\<lambda>f. fl_marketId f = m) h
       + sum_list (map (core_uses m h) (map (plan_core network) fills))"
proof -
  let ?all = "map row_core (filter (reserves network) (db_fills d)) @ map (plan_core network) fills"
  have "mset (map row_core (filter (reserves network) (db_fills d'))) \<subseteq># mset ?all"
  proof (rule distinct_sub_mset)
    show "distinct (map row_core (filter (reserves network) (db_fills d')))"
      using within by (intro distinct_core) (simp add: stays_within_def)
    show "set (map row_core (filter (reserves network) (db_fills d'))) \<subseteq> set ?all"
      using within by (auto simp: stays_within_def)
  qed
  from sum_sub_mset [OF this, of "core_uses m h"] pos show ?thesis by (simp add: reservation_core)
qed

lemma ledger_within_fits:
  assumes inv: "ledger_sound network d" and within: "stays_within network d fills d'"
    and pos: "\<And>f. f \<in> set fills \<Longrightarrow> 0 \<le> sf_size f"
    and fits: "\<And>r. r \<in> set (db_orders d) \<Longrightarrow> ow_network r = network \<Longrightarrow> committed d network r
       + sum_list (map (core_uses (ow_marketId r) (ow_orderHash r)) (map (plan_core network) fills)) \<le> ow_size r"
  shows "ledger_sound network d'"
proof -
  have sizes: "\<forall>f \<in> set (db_fills d). reserves network f \<longrightarrow> 0 \<le> fl_size f" using inv by (simp add: ledger_sound_def)
  have nonneg: "0 \<le> core_uses m h c" if "c \<in> set (map row_core (filter (reserves network) (db_fills d)) @ map (plan_core network) fills)"
    for m h c using that sizes pos by (auto simp: core_uses_def row_core_def plan_core_def)
  have "committed d' network r' \<le> ow_size r'" if r': "r' \<in> set (db_orders d')" "ow_network r' = network" for r'
  proof -
    obtain r where r: "r \<in> set (db_orders d)" "order_core r = order_core r'"
      using same_core_row [of d' d r'] within r'(1) by (auto simp: stays_within_def)
    have "committed d' network r' \<le> committed d network r
        + sum_list (map (core_uses (ow_marketId r) (ow_orderHash r)) (map (plan_core network) fills))"
      using reservation_within [OF within nonneg, of "ow_marketId r" "ow_orderHash r"] r(2) by (simp add: committed_def order_core_def)
    also have "\<dots> \<le> ow_size r" using fits [OF r(1)] r(2) r'(2) by (simp add: order_core_def)
    finally show ?thesis using r(2) by (simp add: order_core_def)
  qed
  moreover have "0 \<le> fl_size g" if g: "g \<in> set (db_fills d')" "reserves network g" for g
  proof -
    have "row_core g \<in> row_core ` {f \<in> set (db_fills d). reserves network f} \<union> plan_core network ` set fills"
      using within g by (simp add: stays_within_def)
    then show ?thesis using sizes pos by (auto simp: row_core_def plan_core_def)
  qed
  ultimately show ?thesis using db_ok_within [OF _ within] inv by (simp add: ledger_sound_def book_sound_def)
qed

lemma ledger_within_none: "ledger_sound network d \<Longrightarrow> stays_within network d [] d' \<Longrightarrow> ledger_sound network d'"
  by (rule ledger_within_fits) (auto simp: ledger_sound_def book_sound_def)

lemma ledger_within_tick:
  assumes inv: "ledger_sound network d" and within: "stays_within network d fills d'"
    and bk: "loadBook d network mid now = Inr bk"
    and offered: "mset offered \<subseteq># mset (er_matches (matchOrders (tick_input bk mid now keep accept)))"
    and built: "buildFills keccak getAddress d network offered = Inr fills"
  shows "ledger_sound network d'"
proof (rule ledger_within_fits [OF inv within])
  have db: "db_ok d" "book_sound d network" using inv by (simp_all add: ledger_sound_def)
  show "0 \<le> sf_size f" if "f \<in> set fills" for f using tick_fill_shape [OF db(1) bk offered built that] by simp
  show "committed d network r
       + sum_list (map (core_uses (ow_marketId r) (ow_orderHash r)) (map (plan_core network) fills)) \<le> ow_size r"
    if "r \<in> set (db_orders d)" "ow_network r = network" for r
    unfolding planned_uses_rows [where t = now]
    using tick_adds_at_most [OF db(1) bk offered built subset_mset.order_refl] matched_fits [OF db bk that]
    by (smt (verit, best))
qed

section \<open>What one batch does\<close>

lemma keeps_tally [act_keeps]: "keeps (\<lambda>t. J (mt_db t)) (tally f)"
  unfolding tally_def by (rule keeps_mod) simp

lemma keeps_on_db: "(\<And>d. J d \<Longrightarrow> J (f d)) \<Longrightarrow> keeps (\<lambda>t. J (mt_db t)) (on_db f)"
  unfolding on_db_def by (rule keeps_mod) simp

lemma keeps_on_sender [act_keeps]: "keeps (\<lambda>t. J (mt_db t)) (on_sender m)"
  by (simp add: keeps_def wp_on_sender wp_any)

lemma keeps_chain_answer [act_keeps]: "keeps I (chain_answer r)"
  unfolding chain_answer_def by (intro act_keeps)

lemma keeps_recordRejectionBackoff [act_keeps]:
  "keeps (\<lambda>t. J (mt_db t)) (recordRejectionBackoff opts now fills rejected)"
proof -
  have "keeps (\<lambda>t. J (mt_db t)) (case x of (fillId, action) \<Rightarrow> case action of
      Retryable reason \<Rightarrow> (case by_id (lower fillId) of None \<Rightarrow> act_ret () | Some f \<Rightarrow> act_each (\<lambda>h. act_mod (\<lambda>s.
          let (state, held) = strike (mo_cooldown opts) (mt_cooldown s) h reason now;
              s' = s\<lparr>mt_cooldown := held\<rparr>
          in if cd_parked state \<and> cd_strikes state = co_parkAfter (mo_cooldown opts)
             then s'\<lparr>mt_metrics := (mt_metrics s')\<lparr>mx_ordersParked := mx_ordersParked (mt_metrics s') + 1\<rparr>\<rparr>
             else s')) (hashes f)) | _ \<Rightarrow> act_ret ())" for x by_id hashes
    by (cases x, cases "snd x") (auto intro!: act_keeps keeps_mod simp: Let_def split: prod.splits)
  then show ?thesis unfolding recordRejectionBackoff_def Let_def by (intro act_keeps) (auto intro!: keeps_mod)
qed

lemma keeps_clearSettled [act_keeps]: "keeps (\<lambda>t. J (mt_db t)) (clearSettled fills settled)"
  unfolding clearSettled_def by (intro act_keeps keeps_mod) simp

abbreviation within :: "string \<Rightarrow> db \<Rightarrow> planned_fill list \<Rightarrow> matcher \<Rightarrow> bool" where
  "within network d fills t \<equiv> stays_within network d fills (mt_db t)"

lemma keeps_apply_receipt: "keeps (within (mo_network opts) d fills) (apply_receipt opts env batch receipt)"
proof -
  have "stays_within (mo_network opts) d fills (fst (applyBatchResult (apply_ctx opts env nonces) batch result d1))"
    if "stays_within (mo_network opts) d fills d1" for nonces result d1
    using stays_within_apply [of "apply_ctx opts env nonces" d fills d1 batch result] that by (simp add: apply_ctx_def)
  then show ?thesis by (simp add: keeps_def wp_def apply_receipt_def Let_def case_prod_beta)
qed

lemma keeps_awaitAndApply: "keeps (within (mo_network opts) d fills) (awaitAndApply opts env job batch)"
  unfolding awaitAndApply_def
  by (intro act_keeps keeps_apply_receipt keeps_tally keeps_on_db keeps_recordRejectionBackoff keeps_clearSettled keeps_on_sender
        stays_within_link)
    (auto split: matcher_error.splits tx_error.splits intro: act_keeps)

lemma submitBatch_within:
  assumes "set batch \<subseteq> set fills" and "within (sm_network so) d fills s"
  shows "wp (submitBatch so now env batch gas) (\<lambda>x t. within (sm_network so) d fills t \<and> sd_fills x = batch)
    (\<lambda>_. within (sm_network so) d fills) s"
proof -
  note persisted = stays_within_persist [OF assms(2,1), of now]
  show ?thesis
    unfolding submitBatch_def act_wp
    by (cases "encodeSettleFills (sm_encode so) batch")
      (simp_all add: act_wp persisted stays_within_release stays_within_link wp_any)
qed

text \<open>What sizing returns, as the tick reads it.\<close>

definition sized_from :: "matcher_options \<Rightarrow> planned_fill list \<Rightarrow> planned_fill sized_batch list \<Rightarrow> bool" where
  "sized_from opts part bs \<longleftrightarrow> concat (map sb_fills bs) = part"

lemma sized_wp:
  assumes "1 \<le> mo_minBatchFills opts" and "I s"
  shows "wp (sized (sizeBatches part (chainGasEstimator opts env) (default_size_options (mo_minBatchFills opts))))
    (\<lambda>bs t. I t \<and> sized_from opts part bs) (\<lambda>_. I) s"
proof -
  obtain r where r: "sizeBatches part (chainGasEstimator opts env) (default_size_options (mo_minBatchFills opts)) = Some r"
      "sized_ok (chainGasEstimator opts env) (default_size_options (mo_minBatchFills opts)) part r"
    using sizeBatches_result [of "default_size_options (mo_minBatchFills opts)" part "chainGasEstimator opts env"] assms(1)
    by (auto simp: default_size_options_def MAX_FILLS_PER_BATCH_def)
  show ?thesis
    using r(2) assms(2) by (cases r) (simp_all add: sized_def r(1) wp_lift sized_from_def sized_ok_def)
qed

lemma keeps_settle_halves:
  assumes min: "1 \<le> mo_minBatchFills opts"
    and again: "\<And>path batch gas. set batch \<subseteq> set fills \<Longrightarrow> keeps (within network d fills) (again path batch gas)"
  shows "\<forall>p \<in> set parts. set p \<subseteq> set fills \<Longrightarrow> keeps (within network d fills) (settle_halves opts env again path k parts)"
proof (induction parts arbitrary: k)
  case Nil
  then show ?case by (simp add: keeps_ret)
next
  case (Cons part parts)
  have "keeps (within network d fills) (case bs of [] \<Rightarrow> act_ret ()
      | b # _ \<Rightarrow> act_then (again (path @ [k]) (sb_fills b) (sb_gas b)) (settle_halves opts env again path (Suc k) parts))"
    if "sized_from opts part bs" for bs
    using that Cons again by (cases bs) (auto simp: sized_from_def intro!: act_keeps)
  then show ?case by (auto intro!: act_keeps keeps_bind_value [OF sized_wp [OF min]])
qed

lemma halves_inside:
  assumes p: "p \<in> set (halveAfterGasRevert batch n)"
  shows "set p \<subseteq> set batch \<and> length p < length batch"
proof -
  have "concat (halveAfterGasRevert batch n) = batch" "length p < length batch"
    using halve_result [OF refl, of batch n] p by auto
  then show ?thesis using p set_concat [of "halveAfterGasRevert batch n"] by (metis UN_upper)
qed

lemma keeps_settle:
  assumes min: "1 \<le> mo_minBatchFills opts"
  shows "set batch \<subseteq> set fills \<Longrightarrow> keeps (within (mo_network opts) d fills) (settle n opts env symbol path batch gas)"
proof (induction n arbitrary: path batch gas)
  case 0
  then show ?case by (auto intro: act_keeps)
next
  case (Suc n)
  have parts: "\<forall>p \<in> set (halveAfterGasRevert batch (mo_minBatchFills opts)). set p \<subseteq> set fills"
    using halves_inside Suc.prems by blast
  note halves = keeps_settle_halves [OF min Suc.IH parts]
  let ?W = "within (mo_network opts) d fills"
  let ?so = "\<lparr>sm_network = mo_network opts, sm_sender = mo_sender opts, sm_gateway = mo_gateway opts,
     sm_label = ''settleFillsSigned:'' @ symbol, sm_encode = mo_encode opts\<rparr>"
  have sent: "wp (submitBatch ?so now env' batch gas) (\<lambda>x t. ?W t \<and> sd_fills x = batch) (\<lambda>_. ?W) s"
    if "?W s" for s now env' using submitBatch_within [of batch fills ?so] Suc.prems that by simp
  show ?case
    unfolding settle.simps Let_def
  proof (intro keeps_if keeps_ret keeps_bind_value [where P = "\<lambda>x. sd_fills x = batch"])
    fix x
    show "keeps ?W (act_then (tally (\<lambda>m. m\<lparr>mx_fillsSubmitted := mx_fillsSubmitted m + int (length batch)\<rparr>))
       (act_bind (awaitAndApply opts (te_batch env path) (sd_job x) (sd_fills x)) (\<lambda>r.
        case r of None \<Rightarrow> act_ret ()
        | Some receipt \<Rightarrow>
            if rc_success receipt then act_ret ()
            else
              act_then (tally (\<lambda>m. m\<lparr>mx_batchReverts := mx_batchReverts m + 1\<rparr>))
             (act_then (on_db (\<lambda>d. snd (releasePendingFills (mo_network opts) (map sf_fillId batch) d)))
                (if de_errorName (revertReasonFor (mo_decodeError opts) (be_call (te_batch env path))) \<noteq> Some ''InsufficientBatchGas''
                 then act_ret ()
                 else
                   (if halveAfterGasRevert batch (mo_minBatchFills opts) = [] then act_ret ()
                       else act_then (tally (\<lambda>m. m\<lparr>mx_gasResizes := mx_gasResizes m + 1\<rparr>))
                              (settle_halves opts env (settle n opts env symbol) path 0
                                (halveAfterGasRevert batch (mo_minBatchFills opts)))))))))"
      by (intro act_keeps keeps_awaitAndApply keeps_on_db stays_within_release halves)
  qed (rule sent)
qed

section \<open>Ticks, recovery and the run\<close>

abbreviation sound :: "matcher_options \<Rightarrow> matcher \<Rightarrow> bool" where
  "sound opts t \<equiv> ledger_sound (mo_network opts) (mt_db t)"

lemma ledger_refl: "ledger_sound network d \<Longrightarrow> stays_within network d fills d"
  by (rule stays_within_refl) (simp add: ledger_sound_def db_ok_def fill_key_def [abs_def])

lemma keeps_sound:
  assumes "\<And>d. keeps (within (mo_network opts) d []) m"
  shows "keeps (sound opts) m"
  unfolding keeps_def wp_final
proof (intro allI impI)
  fix s :: matcher
  assume s: "sound opts s"
  then have "within (mo_network opts) (mt_db s) [] (snd (m s))" by (intro keepsD [OF assms] ledger_refl)
  with s show "sound opts (snd (m s))" by (rule ledger_within_none)
qed

lemma keeps_settle_batches:
  assumes min: "1 \<le> mo_minBatchFills opts"
  shows "\<forall>b \<in> set bs. set (sb_fills b) \<subseteq> set fills \<Longrightarrow>
    keeps (within (mo_network opts) d fills) (settle_batches opts env symbol k bs)"
  by (induction bs arbitrary: k) (auto intro!: act_keeps keeps_settle [OF min])

lemma settle_matches_sound:
  assumes min: "1 \<le> mo_minBatchFills opts" and inv: "sound opts t"
    and bk: "loadBook (mt_db t) (mo_network opts) mid now = Inr bk"
    and offered: "mset offered \<subseteq># mset (er_matches (matchOrders (tick_input bk mid now keep accept)))"
  shows "wp (settle_matches opts env market offered) (\<lambda>_. sound opts) (\<lambda>_. sound opts) t"
proof (cases "buildFills (mo_keccak opts) (mo_getAddress opts) (mt_db t) (mo_network opts) offered")
  case (Inl e)
  then show ?thesis using inv by (simp add: settle_matches_def act_wp)
next
  case (Inr fills)
  let ?W = "within (mo_network opts) (mt_db t) fills"
  have "keeps ?W (act_bind (sized (sizeBatches fills (chainGasEstimator opts env) (default_size_options (mo_minBatchFills opts))))
      (settle_batches opts env (mc_symbol market) 0))"
  proof (rule keeps_bind_value [OF sized_wp [OF min]])
    show "keeps ?W (settle_batches opts env (mc_symbol market) 0 bs)" if "sized_from opts fills bs" for bs
      using that by (intro keeps_settle_batches [OF min]) (auto simp: sized_from_def)
  qed
  then have "wp (act_bind (sized (sizeBatches fills (chainGasEstimator opts env) (default_size_options (mo_minBatchFills opts))))
      (settle_batches opts env (mc_symbol market) 0)) (\<lambda>_. ?W) (\<lambda>_. ?W) t"
    using ledger_refl [OF inv] by (simp add: keeps_def)
  then have "wp (act_bind (sized (sizeBatches fills (chainGasEstimator opts env) (default_size_options (mo_minBatchFills opts))))
      (settle_batches opts env (mc_symbol market) 0)) (\<lambda>_. sound opts) (\<lambda>_. sound opts) t"
    by (rule wp_mono) (rule ledger_within_tick [OF inv _ bk offered Inr], assumption)+
  then show ?thesis using Inr inv by (simp add: settle_matches_def act_wp)
qed

lemma backstop_loop_subset: "mset (bs_kept (backstop_loop backstop limits b ms used r)) \<subseteq># mset (bs_kept r) + mset ms"
proof (induction ms arbitrary: used r)
  case (Cons m ms)
  have keep: "mset (bs_kept (backstop_loop backstop limits b ms u (r\<lparr>bs_kept := bs_kept r @ [m]\<rparr>))) \<subseteq># mset (bs_kept r) + mset (m # ms)" for u
    using Cons [of u "r\<lparr>bs_kept := bs_kept r @ [m]\<rparr>"] by simp
  have skip: "mset (bs_kept (backstop_loop backstop limits b ms used (r\<lparr>bs_dropped := x\<rparr>))) \<subseteq># mset (bs_kept r) + mset (m # ms)" for x
    using Cons [of used "r\<lparr>bs_dropped := x\<rparr>"] by (auto intro: subset_mset.order_trans)
  show ?case using keep skip by (auto split: option.splits)
qed simp

lemma match_book_sound:
  assumes min: "1 \<le> mo_minBatchFills opts" and inv: "sound opts t"
    and bk: "loadBook (mt_db t) (mo_network opts) mid now = Inr bk"
  shows "wp (match_book opts env mid now bk (filter keep (bk_orders bk)) index) (\<lambda>_. sound opts) (\<lambda>_. sound opts) t"
proof -
  let ?b = "bandFor (ip_price index) (mc_maxExecutionDeviationBps (bk_market bk))"
  define accept where "accept = (\<lambda>price. withinBand price ?b)"
  define ms where "ms = er_matches (matchOrders (tick_input bk mid now keep accept))"
  define f where "f = filterByBand ms (ip_price index) (mc_maxExecutionDeviationBps (bk_market bk))"
  have kept: "mset (bf_kept f) \<subseteq># mset ms" by (simp add: f_def filterByBand_def Let_def multiset_filter_subset)
  define rest where "rest = (\<lambda>offered. if offered = [] then act_ret () else settle_matches opts env (bk_market bk) offered)"
  define G where "G = (\<lambda>offered. wp (rest offered) (\<lambda>_. sound opts) (\<lambda>_. sound opts))"
  have go: "G offered u" if "mset offered \<subseteq># mset (bf_kept f)" "mt_db u = mt_db t" for offered u
    using settle_matches_sound [OF min, of u mid now bk offered keep accept env] inv bk that kept
    by (simp add: G_def rest_def act_wp ms_def subset_mset.order_trans [OF that(1)])
  have guard: "wp (backstop_guard opts env (ip_price index) (bf_kept f)) G (\<lambda>_. sound opts) u" if u: "mt_db u = mt_db t" for u
  proof -
    have cap: "mset (bs_kept (filterBackstopFills (bf_kept f) (mo_insurance opts) (ip_price index) limits)) \<subseteq># mset (bf_kept f)" for limits
      using backstop_loop_subset [where r = "\<lparr>bs_kept = [], bs_dropped = []\<rparr>"] by (simp add: filterBackstopFills_def)
    show ?thesis
      using u inv go [OF subset_mset.order_refl u] go [OF cap]
      by (cases "te_unwindLimits env") (simp_all add: backstop_guard_def backstopLimits_def chain_answer_def act_wp Let_def split: prod.splits)
  qed
  have "match_book opts env mid now bk (filter keep (bk_orders bk)) index
    = (if ms = [] then act_ret ()
       else act_then (tally (\<lambda>m. m\<lparr>mx_matches := mx_matches m + int (length ms)\<rparr>))
         (act_then (tally (\<lambda>m. m\<lparr>mx_bandDrops := mx_bandDrops m + int (length (bf_dropped f))\<rparr>))
           (if bf_kept f = [] then act_ret ()
            else act_bind (backstop_guard opts env (ip_price index) (bf_kept f)) rest)))"
    unfolding match_book_def tick_input_def ms_def f_def accept_def rest_def Let_def by (rule refl)
  then show ?thesis using inv guard by (simp add: act_wp G_def)
qed

lemma keeps_tickMarket:
  assumes min: "1 \<le> mo_minBatchFills opts"
  shows "keeps (sound opts) (tickMarket opts env mid)"
  unfolding keeps_def
proof (intro allI impI)
  fix s :: matcher
  assume inv: "sound opts s"
  show "wp (tickMarket opts env mid) (\<lambda>_. sound opts) (\<lambda>_. sound opts) s"
  proof (cases "loadBook (mt_db s) (mo_network opts) mid (te_nowMs env div 1000)")
    case (Inl e)
    then show ?thesis using inv by (simp add: tickMarket_def Let_def act_wp)
  next
    case (Inr bk)
    have go: "wp (match_book opts env mid (te_nowMs env div 1000) bk (filter keep (bk_orders bk)) index)
        (\<lambda>_. sound opts) (\<lambda>_. sound opts) u" if "mt_db u = mt_db s" for u keep index
      using that inv Inr by (intro match_book_sound [OF min]) simp_all
    show ?thesis
      using inv by (simp add: tickMarket_def Let_def act_wp Inr go split: sum.splits)
  qed
qed

lemma keeps_tick_markets:
  "1 \<le> mo_minBatchFills opts \<Longrightarrow> keeps (sound opts) (tick_markets opts env ms)"
  by (induction ms) (auto intro!: act_keeps keeps_tickMarket)

lemma keeps_loop_turn: "1 \<le> mo_minBatchFills opts \<Longrightarrow> keeps (sound opts) (loop_turn opts now env)"
  unfolding loop_turn_def tick_def by (intro act_keeps keeps_tick_markets)

lemma keeps_turns: "1 \<le> mo_minBatchFills opts \<Longrightarrow> keeps (sound opts) (turns opts env k n)"
  by (induction n arbitrary: k) (auto intro!: act_keeps keeps_loop_turn)

lemma keeps_recover: "keeps (sound opts) (recover opts env now filled)"
proof -
  have "keeps (within (mo_network opts) d []) (recover_job opts env job)" for d job
    unfolding recover_job_def by (intro act_keeps keeps_awaitAndApply)
  moreover have "keeps (within (mo_network opts) d []) (reconcileOrphanFills opts now filled)" for d
    unfolding reconcileOrphanFills_def
    by (intro keeps_bind keeps_get) (auto simp: Let_def intro!: act_keeps keeps_on_db stays_within_release)
  ultimately show ?thesis unfolding recover_def by (intro act_keeps keeps_sound)
qed

text \<open>
  C17. The matcher never commits more of an order than its size. Start from a database with unique
  and well-formed rows in which no order's settled and pending sizes exceed its size. Recovery
  followed by any number of turns of the loop, over any markets, with any prices, gas estimates,
  receipts, event logs and rejections, with errors at any point (also in the middle of a batch)
  and with batches halved any number of times, leaves a database with the same property.
\<close>

theorem matcher_run_sound:
  assumes "1 \<le> mo_minBatchFills opts" and "ledger_sound (mo_network opts) (mt_db s)"
  shows "ledger_sound (mo_network opts) (mt_db (snd (run opts renv nowMs filled env n s)))"
proof -
  have "keeps (sound opts) (run opts renv nowMs filled env n)"
    unfolding run_def using assms(1) by (intro keeps_then keeps_recover keeps_turns)
  then show ?thesis using assms(2) by (rule keepsD)
qed

definition sample_mo :: matcher_options where
  "sample_mo = \<lparr>mo_network = ''arc'', mo_sender = sample_options, mo_gateway = ''0xg'', mo_insurance = ''0xi'',
     mo_marketIds = [1], mo_minBatchFills = 1, mo_orphanGraceMs = 60000, mo_cooldown = DEFAULT_COOLDOWN,
     mo_keccak = sample_hash, mo_getAddress = id, mo_encode = (\<lambda>_. ''0x''), mo_decodeError = (\<lambda>_. None),
     mo_recover = (\<lambda>o' _. Inr (od_owner o')), mo_digest = (\<lambda>_. ''0xd''), mo_erc1271 = None\<rparr>"

definition sample_be :: batch_env where
  "sample_be = \<lparr>be_now = 5, be_submit = sample_submit_view, be_started = 0, be_wait = sample_wait_view, be_passes = 2,
     be_logs = (\<lambda>_. []), be_applyMs = 6, be_call = None\<rparr>"

definition sample_te :: tick_env where
  "sample_te = \<lparr>te_nowMs = 1000000,
     te_getPrice = (\<lambda>_ _ _. Inr \<lparr>ip_price = 10 ^ 18, ip_confidence = 0, ip_publishTime = 0, ip_writeTime = 0, ip_sourceCount = 3\<rparr>),
     te_unwindLimits = Inr (0, 0, 0, 0), te_estimateGas = (\<lambda>_. Inr 50000), te_batch = (\<lambda>_. sample_be)\<rparr>"

definition sample_end :: matcher where
  "sample_end = snd (run sample_mo (\<lambda>_. sample_be) 0 (\<lambda>_ _. Inr 0) (\<lambda>_. (0, \<lambda>_. sample_te)) 2 sample_matcher)"

text \<open>The run reserves the seven units the two sample orders have in common, once.\<close>

lemma sample_end_reserves: "map (\<lambda>f. (fl_size f, fl_status f)) (db_fills (mt_db sample_end)) = [(7, PENDING)]"
  by code_simp

theorem matcher_run_sound_witness: "ledger_sound ''arc'' (mt_db sample_end)"
proof -
  have "ledger_sound ''arc'' sample_db"
    using sample_db_ok sample_db_sound by (simp add: ledger_sound_def sample_db_def)
  then have "ledger_sound (mo_network sample_mo) (mt_db sample_matcher)" by (simp add: sample_mo_def sample_matcher_def)
  from matcher_run_sound [OF _ this] show ?thesis by (simp add: sample_end_def sample_mo_def)
qed

section \<open>The band filter\<close>

text \<open>
  Matching with the band as the price test makes the filter after it idle: of the matches of a
  run whose \<open>acceptPrice\<close> is the band around an index price, \<open>filterByBand\<close> at that price drops
  none and keeps them all in their order. So a tick never books a match that it then discards.
\<close>

theorem band_filter_is_idle:
  assumes "input_ok i" and "ei_acceptPrice i = Some (\<lambda>price. withinBand price (bandFor index bps))"
  shows "bf_dropped (filterByBand (er_matches (matchOrders i)) index bps) = []
    \<and> bf_kept (filterByBand (er_matches (matchOrders i)) index bps) = er_matches (matchOrders i)"
proof (rule filterByBand_all, rule ballI)
  fix m
  assume "m \<in> set (er_matches (matchOrders i))"
  then have "good_match i m" using run_inv_run [OF assms(1)] by (simp add: matches_eq run_inv_def)
  then have "price_accepted i (em_price m)" unfolding good_match_def by blast
  then show "withinBand (em_price m) (bandFor index bps)" using assms(2) by (simp add: price_accepted_def)
qed

theorem band_filter_is_idle_witness:
  "let i = tick_input sample_bk 1 1000 (\<lambda>_. True) (\<lambda>price. withinBand price (bandFor (10 ^ 18) 100))
   in bf_dropped (filterByBand (er_matches (matchOrders i)) (10 ^ 18) 100) = []
    \<and> bf_kept (filterByBand (er_matches (matchOrders i)) (10 ^ 18) 100) = er_matches (matchOrders i)"
  unfolding Let_def
  by (rule band_filter_is_idle [OF tick_input_ok [OF sample_db_ok sample_bk_loaded]]) (simp add: tick_input_def)

section \<open>Orphaned fills\<close>

text \<open>What the scan reads before it releases a fill: the filled counter of the maker's order.\<close>

definition not_landed :: "matcher_options \<Rightarrow> (address \<Rightarrow> int \<Rightarrow> chain_fault + int) \<Rightarrow> db \<Rightarrow> fill_row \<Rightarrow> bool" where
  "not_landed opts filled d f \<longleftrightarrow>
     (\<exists>r \<in> set (db_orders d). ow_network r = mo_network opts \<and> ow_orderHash r = fl_makerOrderHash f
       \<and> (case filled (mo_getAddress opts (ow_owner r)) (ow_nonce r) of Inl _ \<Rightarrow> False
          | Inr onChain \<Rightarrow> onChain < settledSizeFor (mo_network opts) d (fl_makerOrderHash f) + fl_size f))"

lemma loaded_order_row:
  assumes "loadSignedOrders getAddress d network hashes h = Some so"
  shows "\<exists>r \<in> set (db_orders d). ow_network r = network \<and> ow_orderHash r = h \<and> so = toSignedOrder getAddress r"
  using map_of_rows_Some [OF assms [unfolded loadSignedOrders_def]] by auto

lemma orphan_release_reason:
  assumes "orphan_releases opts filled d (loadSignedOrders (mo_getAddress opts) d (mo_network opts) hashes) rows = Inr ids"
    and "i \<in> set ids"
  shows "\<exists>f \<in> set rows. fl_fillId f = i \<and> not_landed opts filled d f"
  using assms
proof (induction rows arbitrary: ids)
  case (Cons f rows)
  let ?orders = "loadSignedOrders (mo_getAddress opts) d (mo_network opts) hashes"
  consider (skip) "orphan_releases opts filled d ?orders rows = Inr ids"
    | (look) so amount rest where "?orders (fl_makerOrderHash f) = Some so"
        "filled (od_owner so) (od_nonce so) = Inr amount" "orphan_releases opts filled d ?orders rows = Inr rest"
        "ids = (if amount < settledSizeFor (mo_network opts) d (fl_makerOrderHash f) + fl_size f then fl_fillId f # rest else rest)"
    using Cons.prems(1) by (auto split: option.splits sum.splits)
  then show ?case
  proof cases
    case skip
    with Cons show ?thesis by auto
  next
    case (look so amount rest)
    obtain r where r: "r \<in> set (db_orders d)" "ow_network r = mo_network opts" "ow_orderHash r = fl_makerOrderHash f"
        "so = toSignedOrder (mo_getAddress opts) r" using loaded_order_row [OF look(1)] by blast
    then have "not_landed opts filled d f" if "amount < settledSizeFor (mo_network opts) d (fl_makerOrderHash f) + fl_size f"
      using that look(2) unfolding not_landed_def by (intro bexI [of _ r]) (simp_all add: toSignedOrder_def)
    then show ?thesis using Cons.IH [OF look(3)] Cons.prems(2) look(4) by (auto split: if_splits)
  qed
qed simp

text \<open>
  Every row the scan deletes was an orphan of this shard's markets whose maker the gateway had
  not filled that far. Nothing else in the table changes.
\<close>

lemma orphan_scan_removes:
  assumes ids: "db_ok (mt_db s)" "\<forall>f \<in> set (db_fills (mt_db s)). lower (fl_fillId f) = fl_fillId f"
    and run: "reconcileOrphanFills opts nowMs filled s = (r, t)"
  shows "\<exists>gone. db_fills (mt_db t) = filter (\<lambda>f. \<not> gone f) (db_fills (mt_db s)) \<and> db_orders (mt_db t) = db_orders (mt_db s)
    \<and> (\<forall>f \<in> set (db_fills (mt_db s)). gone f \<longrightarrow> not_landed opts filled (mt_db s) f
        \<and> is_orphan opts (sn_store (mt_sender s)) (nowMs - mo_orphanGraceMs opts) f)"
proof -
  let ?orphan = "is_orphan opts (sn_store (mt_sender s)) (nowMs - mo_orphanGraceMs opts)"
  let ?rows = "filter ?orphan (db_fills (mt_db s))"
  let ?scan = "orphan_releases opts filled (mt_db s)
      (loadSignedOrders (mo_getAddress opts) (mt_db s) (mo_network opts) (map fl_makerOrderHash ?rows)) ?rows"
  consider (same) "mt_db t = mt_db s"
    | (some) ids' where "?scan = Inr ids'" "mt_db t = snd (releasePendingFills (mo_network opts) ids' (mt_db s))"
    using run by (cases "?scan") (auto simp: reconcileOrphanFills_def Let_def act_defs chain_answer_def on_db_def split: if_splits)
  then show ?thesis
  proof cases
    case same
    then show ?thesis by (intro exI [of _ "\<lambda>_. False"]) simp
  next
    case (some ids')
    have "not_landed opts filled (mt_db s) f \<and> ?orphan f"
      if f: "f \<in> set (db_fills (mt_db s))" "released (mo_network opts) ids' f" for f
    proof -
      obtain i where i: "i \<in> set ids'" "lower i = fl_fillId f" using f(2) by (auto simp: released_def)
      obtain g where g: "g \<in> set ?rows" "fl_fillId g = i" "not_landed opts filled (mt_db s) g"
        using orphan_release_reason [OF some(1) i(1)] by blast
      have "g \<in> set (db_fills (mt_db s))" "fl_network g = mo_network opts" using g(1) by (simp_all add: is_orphan_def)
      moreover have "fl_fillId g = fl_fillId f" "fl_network f = mo_network opts"
        using g(2) i(2) ids(2) calculation(1) f(2) by (auto simp: released_def)
      moreover have "inj_on (\<lambda>f. (fl_network f, fl_fillId f)) (set (db_fills (mt_db s)))"
        using ids(1) by (simp add: db_ok_def distinct_map)
      ultimately have "g = f" using f(1) by (intro inj_onD [of "\<lambda>f. (fl_network f, fl_fillId f)"]) simp_all
      then show ?thesis using g by auto
    qed
    then show ?thesis
      using some(2) by (intro exI [of _ "released (mo_network opts) ids'"]) (simp add: releasePendingFills_def)
  qed
qed

definition orphan_row :: fill_row where
  "orphan_row = (pending_row ''arc'' 0 (hd sample_fills))\<lparr>fl_fillId := ''0xf''\<rparr>"

definition orphan_matcher :: matcher where
  "orphan_matcher = sample_matcher\<lparr>mt_db := sample_db\<lparr>db_fills := [orphan_row]\<rparr>\<rparr>"

lemma sum_filter_extra:
  fixes g :: "'a \<Rightarrow> int"
  assumes "\<And>x. x \<in> set xs \<Longrightarrow> P x \<Longrightarrow> Q x" and "\<And>x. x \<in> set xs \<Longrightarrow> 0 \<le> g x"
    and "y \<in> set xs" "Q y" "\<not> P y"
  shows "sum_list (map g (filter P xs)) + g y \<le> sum_list (map g (filter Q xs))"
proof -
  have le: "sum_list (map g (filter P ys)) \<le> sum_list (map g (filter Q ys))" if "set ys \<subseteq> set xs" for ys
    using that assms(1,2) by (induction ys) (auto simp: add_increasing)
  obtain us vs where xs: "xs = us @ y # vs" using assms(3) by (metis split_list)
  then have "set us \<subseteq> set xs" "set vs \<subseteq> set xs" by auto
  from le [OF this(1)] le [OF this(2)] xs assms(4,5) show ?thesis by simp
qed

text \<open>
  What the scan relies on of the gateway: the filled counter of an order is at least the size of
  the fills on it that landed.
\<close>

definition gateway_counts ::
  "matcher_options \<Rightarrow> (address \<Rightarrow> int \<Rightarrow> chain_fault + int) \<Rightarrow> (fill_row \<Rightarrow> bool) \<Rightarrow> db \<Rightarrow> bool" where
  "gateway_counts opts filled landed d \<longleftrightarrow>
     (\<forall>r \<in> set (db_orders d). ow_network r = mo_network opts \<longrightarrow>
        (case filled (mo_getAddress opts (ow_owner r)) (ow_nonce r) of Inl _ \<Rightarrow> True
         | Inr onChain \<Rightarrow> sum_list (map fl_size (filter (\<lambda>f. fl_network f = mo_network opts \<and> landed f
             \<and> (fl_makerOrderHash f = ow_orderHash r \<or> fl_takerOrderHash f = ow_orderHash r)) (db_fills d))) \<le> onChain))"

text \<open>
  C18. The orphan scan never gives back a fill that landed. Let some of the rows stand for fills
  that were mined, every settled row among them, and let the gateway's filled counter of an
  order cover the landed fills on it. Whatever the scan deletes (orphans of dropped, failed or
  missing jobs), no landed row is deleted, even where the indexer has not seen it yet: its size
  cannot be matched a second time.
\<close>

theorem landed_fill_never_released:
  assumes ids: "db_ok (mt_db s)" "\<forall>f \<in> set (db_fills (mt_db s)). lower (fl_fillId f) = fl_fillId f"
    and rows: "\<forall>f \<in> set (db_fills (mt_db s)). 0 \<le> fl_size f \<and> (fl_status f = SETTLED \<longrightarrow> landed f)"
    and chain: "gateway_counts opts filled landed (mt_db s)"
    and run: "reconcileOrphanFills opts nowMs filled s = (r, t)"
    and f: "f \<in> set (db_fills (mt_db s))" "landed f"
  shows "f \<in> set (db_fills (mt_db t))"
proof (rule ccontr)
  let ?d = "mt_db s" and ?n = "mo_network opts"
  assume "f \<notin> set (db_fills (mt_db t))"
  then have f': "not_landed opts filled ?d f" "is_orphan opts (sn_store (mt_sender s)) (nowMs - mo_orphanGraceMs opts) f"
    using orphan_scan_removes [OF ids run] f(1) by auto
  then obtain r onChain where r: "r \<in> set (db_orders ?d)" "ow_network r = ?n" "ow_orderHash r = fl_makerOrderHash f"
      "filled (mo_getAddress opts (ow_owner r)) (ow_nonce r) = Inr onChain"
      "onChain < settledSizeFor ?n ?d (fl_makerOrderHash f) + fl_size f"
    unfolding not_landed_def by (metis (no_types, lifting) old.sum.exhaust old.sum.simps(5,6))
  have "lower (fl_makerOrderHash f) = fl_makerOrderHash f" using ids(1) r(1,3) by (auto simp: db_ok_def)
  then have "settledSizeFor ?n ?d (fl_makerOrderHash f) + fl_size f
      \<le> sum_list (map fl_size (filter (\<lambda>f. fl_network f = ?n \<and> landed f
          \<and> (fl_makerOrderHash f = ow_orderHash r \<or> fl_takerOrderHash f = ow_orderHash r)) (db_fills ?d)))"
    unfolding settledSizeFor_def using rows f f'(2) r(3) by (intro sum_filter_extra) (auto simp: is_orphan_def)
  also have "\<dots> \<le> onChain" using chain r(1,2,4) by (auto simp: gateway_counts_def)
  finally show False using r(5) by simp
qed

text \<open>The orphan's two orders have both traded seven units on the chain.\<close>

theorem landed_fill_never_released_witness:
  "orphan_row \<in> set (db_fills (mt_db (snd (reconcileOrphanFills sample_mo 100000 (\<lambda>_ _. Inr 7) orphan_matcher))))"
proof -
  let ?r = "reconcileOrphanFills sample_mo 100000 (\<lambda>_ _. Inr 7) orphan_matcher"
  have fills: "db_fills (mt_db orphan_matcher) = [orphan_row]" by (simp add: orphan_matcher_def)
  have size: "fl_size orphan_row = 7" by code_simp
  have "db_ok (mt_db orphan_matcher)"
    using sample_db_ok by (simp add: orphan_matcher_def db_ok_def sample_db_def)
  moreover have "lower ''0xf'' = ''0xf''" by code_simp
  then have "\<forall>f \<in> set (db_fills (mt_db orphan_matcher)). lower (fl_fillId f) = fl_fillId f"
    by (simp add: fills orphan_row_def)
  moreover have "gateway_counts sample_mo (\<lambda>_ _. Inr 7) (\<lambda>_. True) (mt_db orphan_matcher)"
    by (simp add: gateway_counts_def fills size)
  ultimately show ?thesis
    using landed_fill_never_released [where landed = "\<lambda>_. True" and opts = sample_mo and s = orphan_matcher and f = orphan_row,
        OF _ _ _ _ prod.collapse [of ?r, symmetric]] fills size by simp
qed

section \<open>A replaced batch is lost to recovery\<close>

text \<open>
  A shard stopped after the sender replaced its transaction: the fills are linked to the original
  job, which is now \<open>REPLACED\<close>, and the job in flight is the replacement.
\<close>

definition job_as :: "string \<Rightarrow> int \<Rightarrow> hex \<Rightarrow> tx_status \<Rightarrow> tx_job" where
  "job_as i fee h st = (job_for sample_options 0 i \<lparr>sq_to = ''0xg'', sq_data = ''0x'', sq_value = 0,
     sq_label = ''settleFillsSigned:BTC'', sq_nonce = 0, sq_gasLimit = 1, sq_maxFeePerGas = fee,
     sq_maxPriorityFeePerGas = fee\<rparr>)\<lparr>tj_submittedHash := h, tj_status := st\<rparr>"

definition replaced_matcher :: matcher where
  "replaced_matcher = sample_matcher\<lparr>mt_db := sample_db\<lparr>db_fills := [orphan_row\<lparr>fl_txJobId := Some ''job0''\<rparr>]\<rparr>,
     mt_sender := fresh_sender\<lparr>sn_store := [job_as ''job0'' 10 ''0xh0'' Replaced, job_as ''job1'' 12 ''0xh1'' Submitted]\<rparr>\<rparr>"

text \<open>The replacement is mined, and its receipt says that the gateway rejected the fill.\<close>

definition replacement_mined :: batch_env where
  "replacement_mined = sample_be\<lparr>
     be_wait := (\<lambda>k. (sample_wait_view k)\<lparr>wv_receipt := (\<lambda>h.
        if h = ''0xh1'' then wv_receipt (sample_wait_view k) h else Inl not_found)\<rparr>),
     be_logs := (\<lambda>_. [\<lparr>ll_address = ''0xg'', ll_event = FillRejected ''0xf'' ''0x'', ll_logIndex = Some 0\<rparr>])\<rparr>"

definition replaced_end :: matcher where
  "replaced_end = snd (recover sample_mo (\<lambda>_. replacement_mined) 10000000 (\<lambda>_ _. Inr 0) replaced_matcher)"

text \<open>
  Recovery does not find the batch of a replaced transaction. The fill stays linked to the
  original job; recovery waits for the replacement, finds no fill of it and so does not apply its
  receipt, and the orphan scan passes the fill over because its job is neither dropped nor
  failed. Although the replacement is mined and its receipt rejects the fill, the row stays
  pending and keeps its size reserved.
\<close>

theorem replaced_batch_is_not_recovered:
  "map tj_status (sn_store (mt_sender replaced_end)) = [Replaced, Confirmed]
   \<and> db_fills (mt_db replaced_end) = db_fills (mt_db replaced_matcher)
   \<and> map (\<lambda>f. (fl_status f, fl_rejectReason f, fl_size f)) (db_fills (mt_db replaced_end)) = [(PENDING, None, 7)]"
  by code_simp

end
