(* ===== verification/Keeper_Runtime.thy ===== *)
theory Keeper_Runtime
  imports Tx_Wait
begin

text \<open>
  What the keepers share, \<open>client/lib/keepers/runtime.ts\<close>: counters and gauges, the intents a
  keeper records (\<open>KeeperAction\<close> rows), the daily gas roll-up derived from the job table, the
  recovery of open jobs at start-up, the in-flight guard and one turn of the tick loop.

  A date is the number of its UTC day. Log lines, process signals, the heartbeat file and the
  bootstrap from environment variables are not modelled.
\<close>

section \<open>Counters and gauges\<close>

record metrics =
  me_counters :: "string \<Rightarrow> int option"
  me_gauges :: "string \<Rightarrow> int option"

definition new_metrics :: metrics where
  "new_metrics = \<lparr>me_counters = Map.empty, me_gauges = Map.empty\<rparr>"

definition inc :: "string \<Rightarrow> int \<Rightarrow> metrics \<Rightarrow> metrics" where
  "inc name by m = m\<lparr>me_counters := (me_counters m)(name \<mapsto> get_or (me_counters m) name 0 + by)\<rparr>"

definition set_gauge :: "string \<Rightarrow> int \<Rightarrow> metrics \<Rightarrow> metrics" where
  "set_gauge name v m = m\<lparr>me_gauges := (me_gauges m)(name \<mapsto> v)\<rparr>"

section \<open>The tick loop\<close>

text \<open>
  One turn of \<open>runLoop\<close>: whether the shutdown was requested before it, whether the tick threw,
  how long it took, and whether the shutdown was requested by its end. The loop returns the
  counters and the pauses it made; turns after a shutdown never run.
\<close>

record keeper_turn =
  lt_aborted_before :: bool
  lt_threw :: bool
  lt_elapsed :: int
  lt_aborted_after :: bool

definition tick_metrics :: "keeper_turn \<Rightarrow> metrics \<Rightarrow> metrics" where
  "tick_metrics u m = set_gauge ''tick_duration_ms'' (lt_elapsed u)
     (inc (if lt_threw u then ''tick_errors_total'' else ''ticks_total'') 1 m)"

fun runLoop :: "int \<Rightarrow> keeper_turn list \<Rightarrow> metrics \<Rightarrow> metrics \<times> int list" where
  "runLoop tickMs [] m = (m, [])"
| "runLoop tickMs (u # us) m = (if lt_aborted_before u then (m, [])
     else let m' = tick_metrics u m in
       if lt_aborted_after u then (m', [])
       else let (m'', pauses) = runLoop tickMs us m' in (m'', max 0 (tickMs - lt_elapsed u) # pauses))"

section \<open>Errors as text\<close>

record keeper_fault = chain_fault +
  kf_shortMessage :: "string option"

definition errorMessage :: "keeper_fault \<Rightarrow> string" where
  "errorMessage e = (case kf_shortMessage e of None \<Rightarrow> cf_message e
     | Some d \<Rightarrow> if d = [] then cf_message e else cf_message e @ '' ('' @ d @ '')'')"

section \<open>Keeper actions\<close>

datatype json = JNull | JBool bool | JNum int | JStr string | JArr "json list" | JObj "(string \<times> json) list"

datatype action_status = Planned | Act_submitted | Act_confirmed | Act_failed | Skipped

record action_input =
  ai_kind :: string
  ai_marketId :: "int option"
  ai_account :: "address option"
  ai_payload :: json
  ai_status :: "action_status option"
  ai_txJobId :: "string option"

record keeper_action =
  kn_id :: int
  kn_network :: string
  kn_kind :: string
  kn_marketId :: "int option"
  kn_account :: "address option"
  kn_payload :: json
  kn_status :: action_status
  kn_txJobId :: "string option"
  kn_blockNumber :: "int option"

text \<open>A patch: an absent field is left alone; \<open>Some None\<close> writes a null.\<close>

record action_patch =
  kp_status :: "action_status option"
  kp_txJobId :: "string option option"
  kp_blockNumber :: "int option option"
  kp_payload :: "json option"

text \<open>The id column is a serial: one more than the last id given out.\<close>

record action_table =
  kt_rows :: "keeper_action list"
  kt_nextId :: int

definition action_record :: "string \<Rightarrow> action_input \<Rightarrow> action_table \<Rightarrow> int \<times> action_table" where
  "action_record network i t =
     (kt_nextId t, t\<lparr>kt_rows := kt_rows t @ [\<lparr>kn_id = kt_nextId t, kn_network = network, kn_kind = ai_kind i,
        kn_marketId = ai_marketId i,
        kn_account = (case ai_account i of None \<Rightarrow> None | Some a \<Rightarrow> if a = [] then None else Some (lower a)),
        kn_payload = ai_payload i,
        kn_status = (case ai_status i of None \<Rightarrow> Planned | Some s \<Rightarrow> s), kn_txJobId = ai_txJobId i,
        kn_blockNumber = None\<rparr>], kt_nextId := kt_nextId t + 1\<rparr>)"

definition patch_action :: "action_patch \<Rightarrow> keeper_action \<Rightarrow> keeper_action" where
  "patch_action p r = r\<lparr>
     kn_status := (case kp_status p of None \<Rightarrow> kn_status r | Some s \<Rightarrow> s),
     kn_txJobId := (case kp_txJobId p of None \<Rightarrow> kn_txJobId r | Some v \<Rightarrow> v),
     kn_blockNumber := (case kp_blockNumber p of None \<Rightarrow> kn_blockNumber r | Some v \<Rightarrow> v),
     kn_payload := (case kp_payload p of None \<Rightarrow> kn_payload r | Some v \<Rightarrow> v)\<rparr>"

definition action_update :: "int \<Rightarrow> action_patch \<Rightarrow> action_table \<Rightarrow> action_table" where
  "action_update i p t = t\<lparr>kt_rows := map (\<lambda>r. if kn_id r = i then patch_action p r else r) (kt_rows t)\<rparr>"

definition by_action_id :: "keeper_action \<Rightarrow> keeper_action \<Rightarrow> int" where
  "by_action_id a b = kn_id a - kn_id b"

definition action_open :: "string \<Rightarrow> string \<Rightarrow> action_table \<Rightarrow> keeper_action list" where
  "action_open network kind t = js_sort by_action_id
     (filter (\<lambda>r. kn_network r = network \<and> kn_kind r = kind \<and> kn_status r \<in> {Planned, Act_submitted}) (kt_rows t))"

section \<open>The gas roll-up\<close>

definition DAY_MS :: int where "DAY_MS = 86400000"

definition utcDay :: "int \<Rightarrow> int" where "utcDay ms = ms div DAY_MS"

definition recentUtcDays :: "int \<Rightarrow> int list" where
  "recentUtcDays now = map (\<lambda>d. utcDay (now + d)) [- DAY_MS, 0, DAY_MS]"

type_synonym gas_key = "string \<times> int \<times> string \<times> address"

record gas_row =
  gr_key :: gas_key
  gr_txCount :: int
  gr_gasUsed :: int
  gr_costWei :: int

text \<open>A mined attempt that was paid for, and its group.\<close>

definition gas_counted :: "string \<Rightarrow> int list \<Rightarrow> tx_job \<Rightarrow> bool" where
  "gas_counted network days j \<longleftrightarrow> tj_network j = network \<and> utcDay (tj_createdAt j) \<in> set days
     \<and> tj_status j \<in> {Confirmed, Reverted} \<and> tj_gasUsed j \<noteq> None \<and> tj_effectiveGasPrice j \<noteq> None"

definition gas_key_of :: "tx_job \<Rightarrow> gas_key" where
  "gas_key_of j = (tj_network j, utcDay (tj_createdAt j), tj_service j, lower (tj_fromAddress j))"

definition gas_group :: "tx_job list \<Rightarrow> gas_key \<Rightarrow> gas_row" where
  "gas_group js k = (let g = filter (\<lambda>j. gas_key_of j = k) js in
     \<lparr>gr_key = k, gr_txCount = int (length g), gr_gasUsed = sum_list (map (\<lambda>j. the (tj_gasUsed j)) g),
      gr_costWei = sum_list (map (\<lambda>j. the (tj_gasUsed j) * the (tj_effectiveGasPrice j)) g)\<rparr>)"

text \<open>\<open>INSERT ... ON CONFLICT DO UPDATE\<close>: a row with the key is overwritten in place.\<close>

fun upsert :: "gas_row \<Rightarrow> gas_row list \<Rightarrow> gas_row list" where
  "upsert r [] = [r]"
| "upsert r (x # xs) = (if gr_key x = gr_key r then r # xs else x # upsert r xs)"

definition recompute :: "string \<Rightarrow> int list \<Rightarrow> tx_store \<Rightarrow> gas_row list \<Rightarrow> gas_row list" where
  "recompute network days jobs t =
     (let js = filter (gas_counted network days) jobs
      in fold upsert (map (gas_group js) (remdups (map gas_key_of js))) t)"

section \<open>Recovery and the in-flight guard\<close>

text \<open>\<open>wait\<close> is asked per job; its environment and its fuel are parameters.\<close>

record recovery_env =
  re_started :: int
  re_view :: "nat \<Rightarrow> wait_view"
  re_passes :: nat

definition newest_step :: "tx_job \<Rightarrow> (int \<times> tx_job) list \<Rightarrow> (int \<times> tx_job) list" where
  "newest_step j m = (case map_of m (tj_nonce j) of
     None \<Rightarrow> m @ [(tj_nonce j, j)]
   | Some prev \<Rightarrow> if tj_createdAt j \<ge> tj_createdAt prev
       then map (\<lambda>(k, v). if k = tj_nonce j then (k, j) else (k, v)) m else m)"

definition by_nonce :: "tx_job \<Rightarrow> tx_job \<Rightarrow> int" where
  "by_nonce a b = tj_nonce a - tj_nonce b"

definition newest_jobs :: "tx_job list \<Rightarrow> tx_job list" where
  "newest_jobs js = js_sort by_nonce (map snd (fold newest_step js []))"

fun recover_list ::
  "sender_options \<Rightarrow> (string \<Rightarrow> recovery_env) \<Rightarrow> tx_job list \<Rightarrow> int \<Rightarrow> int \<Rightarrow> (int \<times> int) option sender_act" where
  "recover_list opts env [] recovered unresolved = act_ret (Some (recovered, unresolved))"
| "recover_list opts env (j # js) recovered unresolved =
     act_bind
       (act_catch
         (act_bind (wait opts (re_started (env (tj_id j))) (re_view (env (tj_id j))) (re_passes (env (tj_id j))) j)
            (\<lambda>r. act_ret (map_option (\<lambda>_. True) r)))
         (\<lambda>_. act_ret (Some False)))
       (\<lambda>r. case r of None \<Rightarrow> act_ret None
        | Some ok \<Rightarrow> if ok then recover_list opts env js (recovered + 1) unresolved
                     else recover_list opts env js recovered (unresolved + 1))"

definition sender_open :: "sender_options \<Rightarrow> sender \<Rightarrow> tx_job list" where
  "sender_open opts s = openJobs (sn_store s) (an_id (so_network opts)) (so_address opts)"

definition recoverOpenJobs :: "sender_options \<Rightarrow> (string \<Rightarrow> recovery_env) \<Rightarrow> (int \<times> int) option sender_act" where
  "recoverOpenJobs opts env =
     act_bind (act_get (sender_open opts)) (\<lambda>jobs. recover_list opts env (newest_jobs jobs) 0 0)"

definition stillInFlight :: "sender_options \<Rightarrow> (string \<Rightarrow> recovery_env) \<Rightarrow> bool option sender_act" where
  "stillInFlight opts env =
     act_bind (act_get (sender_open opts)) (\<lambda>open.
       if open = [] then act_ret (Some False)
       else act_bind (recoverOpenJobs opts env) (\<lambda>r.
         case r of None \<Rightarrow> act_ret None | Some (_, unresolved) \<Rightarrow> act_ret (Some (unresolved > 0))))"

section \<open>The loop counts every tick\<close>

definition ran_turns :: "keeper_turn list \<Rightarrow> keeper_turn list" where
  "ran_turns us = (let pre = takeWhile (\<lambda>u. \<not> lt_aborted_before u) us;
                       full = takeWhile (\<lambda>u. \<not> lt_aborted_after u) pre in
     full @ take 1 (drop (length full) pre))"

lemma ran_turns_simps:
  "ran_turns [] = []"
  "ran_turns (u # us) = (if lt_aborted_before u then [] else if lt_aborted_after u then [u] else u # ran_turns us)"
  by (simp_all add: ran_turns_def Let_def)

lemma runLoop_counts:
  "get_or (me_counters (fst (runLoop tickMs us m))) ''ticks_total'' 0
     = get_or (me_counters m) ''ticks_total'' 0 + int (length (filter (\<lambda>u. \<not> lt_threw u) (ran_turns us)))"
  "get_or (me_counters (fst (runLoop tickMs us m))) ''tick_errors_total'' 0
     = get_or (me_counters m) ''tick_errors_total'' 0 + int (length (filter lt_threw (ran_turns us)))"
  by (induction us arbitrary: m)
    (simp_all add: ran_turns_simps tick_metrics_def inc_def set_gauge_def Let_def case_prod_beta)

section \<open>The roll-up is exact and repeatable\<close>

definition gas_at :: "gas_row list \<Rightarrow> gas_key \<Rightarrow> gas_row option" where
  "gas_at t k = find (\<lambda>r. gr_key r = k) t"

lemma gas_at_upsert [simp]: "gas_at (upsert r t) k = (if gr_key r = k then Some r else gas_at t k)"
  unfolding gas_at_def by (induction t) auto

lemma upsert_present: "gas_at t (gr_key r) = Some r \<Longrightarrow> upsert r t = t"
  unfolding gas_at_def by (induction t) (auto split: if_splits)

lemma gas_at_fold:
  "distinct (map gr_key rs) \<Longrightarrow> gas_at (fold upsert rs t) k = (case find (\<lambda>r. gr_key r = k) rs of None \<Rightarrow> gas_at t k | Some r \<Rightarrow> Some r)"
proof (induction rs arbitrary: t)
  case (Cons r rs)
  have "find (\<lambda>x. gr_key x = gr_key r) rs = None" using Cons.prems by (auto simp: find_None_iff image_iff)
  with Cons show ?case by (auto split: option.splits)
qed simp

lemma fold_upsert_present: "(\<And>r. r \<in> set rs \<Longrightarrow> gas_at t (gr_key r) = Some r) \<Longrightarrow> fold upsert rs t = t"
  by (induction rs) (auto simp: upsert_present)

lemma gas_group_key [simp]: "gr_key (gas_group js k) = k"
  by (simp add: gas_group_def Let_def)

lemma find_group:
  "find (\<lambda>r. gr_key r = k) (map (gas_group js) ks) = (if k \<in> set ks then Some (gas_group js k) else None)"
  by (induction ks) auto

text \<open>
  The gas roll-up is derived, not counted. After \<open>recompute\<close>, the row of a day, service and key
  that has a mined attempt in the window is exactly the count, the gas and the cost of those
  attempts; every other row is as before; and recomputing again changes nothing, so repeated
  ticks and racing processes cannot count a transaction twice.
\<close>

theorem gas_rollup_exact:
  "let js = filter (gas_counted network days) jobs; t' = recompute network days jobs t
   in recompute network days jobs t' = t'
    \<and> (\<forall>k. gas_at t' k = (if k \<in> gas_key_of ` set js then Some (gas_group js k) else gas_at t k))"
proof -
  let ?js = "filter (gas_counted network days) jobs"
  let ?rs = "map (gas_group ?js) (remdups (map gas_key_of ?js))"
  have keys: "distinct (map gr_key ?rs)" by (simp add: comp_def)
  have at: "gas_at (fold upsert ?rs t) k = (if k \<in> gas_key_of ` set ?js then Some (gas_group ?js k) else gas_at t k)" for k
    by (simp add: gas_at_fold [OF keys] find_group del: set_filter)
  have "fold upsert ?rs (fold upsert ?rs t) = fold upsert ?rs t"
    by (rule fold_upsert_present) (auto simp: at simp del: set_filter)
  with at show ?thesis by (simp add: recompute_def Let_def del: set_filter)
qed

section \<open>The in-flight guard\<close>

text \<open>The store stays well formed, and a job is open at no nonce outside \<open>K\<close>.\<close>

definition open_within :: "sender_options \<Rightarrow> int set \<Rightarrow> sender \<Rightarrow> bool" where
  "open_within opts K t \<longleftrightarrow> store_ok (sn_store t) \<and> open_nonces opts t \<subseteq> K"

lemma open_within_sent [simp]: "open_within opts K (t\<lparr>sn_sent := x\<rparr>) = open_within opts K t"
  by (simp add: open_within_def open_nonces_def)

lemma open_within_ids [simp]: "open_within opts K (t\<lparr>sn_ids := x\<rparr>) = open_within opts K t"
  by (simp add: open_within_def open_nonces_def)

lemma open_within_closes:
  assumes "open_within opts K s" and "closes (sn_store s) (sn_store t)" and "store_ok (sn_store t)"
  shows "open_within opts K t"
proof -
  have "open_nonces opts t \<subseteq> open_nonces opts s"
    using assms(2) by (force simp: open_nonces_eq closes_def)
  with assms(1,3) show ?thesis by (auto simp: open_within_def)
qed

lemma open_within_insert:
  assumes "open_within opts K s" and "job_insert j (sn_store s) = Inr st" and "tj_nonce j \<in> K"
  shows "open_within opts K (s\<lparr>sn_store := st\<rparr>)"
proof -
  have "st = sn_store s @ [j]" using assms(2) by (simp add: job_insert_def split: if_splits)
  moreover have "store_ok st" using store_ok_insert [OF _ assms(2)] assms(1) by (simp add: open_within_def)
  ultimately show ?thesis using assms(1,3) by (auto simp: open_within_def open_nonces_eq)
qed

text \<open>The row of an id is at a nonce of \<open>K\<close>; no patch changes that.\<close>

definition row_in :: "int set \<Rightarrow> string \<Rightarrow> sender \<Rightarrow> bool" where
  "row_in K i t \<longleftrightarrow> (\<forall>j \<in> set (sn_store t). tj_id j = i \<longrightarrow> tj_nonce j \<in> K)"

lemma patched_nonce [simp]: "tj_nonce (apply_patch p now j) = tj_nonce j" "tj_network (apply_patch p now j) = tj_network j"
  "tj_fromAddress (apply_patch p now j) = tj_fromAddress j"
  by (simp_all add: apply_patch_def)

lemma row_in_update:
  "row_in K i s \<Longrightarrow> job_update k p now (sn_store s) = Inr st \<Longrightarrow> row_in K i (s\<lparr>sn_store := st\<rparr>)"
  unfolding row_in_def by (auto simp: job_update_set split: if_splits)

lemma open_within_update:
  assumes "open_within opts K s" and "job_update i p now (sn_store s) = Inr st" and "row_in K i s"
  shows "open_within opts K (s\<lparr>sn_store := st\<rparr>)"
proof -
  have "store_ok st" using store_ok_update [OF _ assms(2)] assms(1) by (simp add: open_within_def)
  moreover have "tj_nonce j \<in> K" if j: "j \<in> set st" "tj_network j = an_id (so_network opts)"
      "sameAddress (tj_fromAddress j) (so_address opts)" "is_open j" for j
  proof -
    obtain j0 where j0: "j0 \<in> set (sn_store s)" "j = (if tj_id j0 = i then apply_patch p now j0 else j0)"
      using j(1) job_update_set [OF assms(2)] by blast
    show ?thesis
    proof (cases "tj_id j0 = i")
      case True
      then show ?thesis using j0 assms(3) by (simp add: row_in_def)
    next
      case False
      then show ?thesis using j0 j assms(1) by (auto simp: open_within_def open_nonces_eq)
    qed
  qed
  ultimately show ?thesis by (auto simp: open_within_def open_nonces_eq)
qed

lemma keeps_store_update_closing:
  assumes "closing p"
  shows "keeps (open_within opts K) (store_update i p now)"
proof -
  have "open_within opts K (s\<lparr>sn_store := st\<rparr>)"
    if "open_within opts K s" "job_update i p now (sn_store s) = Inr st" for s :: sender and st
    using that update_closes(1) [OF that(2) assms] store_ok_update [OF _ that(2)]
    by (intro open_within_closes [OF that(1)]) (simp_all add: open_within_def)
  then show ?thesis by (auto simp: keeps_def act_wp split: sum.splits)
qed

lemma keeps_drop_job: "keeps (open_within opts K) (drop_job now j)"
  unfolding drop_job_def by (intro act_keeps keeps_store_update_closing) (simp add: OPEN_TX_STATUSES_def)

lemma keeps_chain_read [act_keeps]: "keeps I (chain_read r)"
  by (simp add: keeps_def act_wp split: sum.splits)

lemma keeps_findMined: "keeps (open_within opts K) (findMined opts node now k)"
  unfolding findMined_def
  by (intro act_keeps) (auto intro!: act_keeps keeps_store_update_closing keeps_drop_job split: prod.splits)

lemma keeps_assertNonceNotTaken: "keeps (open_within opts K) (assertNonceNotTaken opts v k)"
  unfolding assertNonceNotTaken_def by (intro act_keeps keeps_findMined keeps_drop_job)

lemma keeps_sendRaw: "keeps (open_within opts K) (sendRaw node raw)"
  by (simp add: keeps_def act_wp)

lemma keeps_rebroadcast: "keeps (open_within opts K) (rebroadcast node j)"
  unfolding rebroadcast_def by (intro act_keeps keeps_sendRaw)

lemma keeps_inMempool: "keeps (open_within opts K) (inMempool v h)"
  unfolding inMempool_def by (intro act_keeps)

lemma wp_sign_open:
  assumes "open_within opts K s" and "sq_nonce p \<in> K"
  shows "wp (signAndPersist opts now p)
    (\<lambda>j t. open_within opts K t \<and> row_in K (tj_id j) t \<and> tj_nonce j = sq_nonce p) (\<lambda>_. open_within opts K) s"
proof -
  have nonce: "tj_nonce (job_for opts now i p) = sq_nonce p" for i by (simp add: job_for_def Let_def)
  have "open_within opts K (u\<lparr>sn_store := st\<rparr>) \<and> row_in K (tj_id j) (u\<lparr>sn_store := st\<rparr>)"
    if "open_within opts K u" "job_insert j (sn_store u) = Inr st" "tj_nonce j \<in> K" for u j st
    using that open_within_insert [OF that]
    by (fastforce simp: row_in_def job_insert_def has_job_def image_iff split: if_splits)
  then show ?thesis
    using assms nonce by (auto simp: signAndPersist_def act_wp Let_def split: sum.splits)
qed

lemma wp_broadcast_open:
  assumes "open_within opts K s" and "row_in K (tj_id j) s"
  shows "wp (broadcast node now j) (\<lambda>j' t. open_within opts K t \<and> tj_nonce j' = tj_nonce j) (\<lambda>_. open_within opts K) s"
proof -
  let ?s = "s\<lparr>sn_sent := sn_sent s @ [(tj_rawTx j, sn_store s)]\<rparr>"
  have "open_within opts K (?s\<lparr>sn_store := st\<rparr>)" if "job_update (tj_id j) p now (sn_store s) = Inr st" for p st
    using assms that by (intro open_within_update [of _ _ ?s]) (simp_all add: row_in_def)
  then show ?thesis
    using assms(1) by (auto simp: broadcast_def act_wp Let_def split: option.splits sum.splits)
qed

lemma wp_replace_open:
  assumes s: "open_within opts K s" and k: "tj_nonce job \<in> K"
  shows "wp (replace opts v job)
     (\<lambda>r t. open_within opts K t \<and> (case r of None \<Rightarrow> True | Some nx \<Rightarrow> tj_nonce nx = tj_nonce job)) (\<lambda>_. open_within opts K) s"
proof -
  define Q :: "tx_job option \<Rightarrow> sender \<Rightarrow> bool" where
    "Q = (\<lambda>r t. open_within opts K t \<and> (case r of None \<Rightarrow> True | Some nx \<Rightarrow> tj_nonce nx = tj_nonce job))"
  let ?rest = "\<lambda>nx. act_then (store_update (tj_id job)
              ((status_patch Replaced)\<lparr>tp_replacedByHash := Some (tj_submittedHash nx)\<rparr>) (wv_now v))
          (act_catch
            (act_bind (broadcast (wv_send v) (wv_now v) nx) (\<lambda>j. act_ret (Some j)))
            (\<lambda>err. case err of
               Chain_fault f \<Rightarrow>
                 if \<not> isUnderpriced f \<and> \<not> isNonceTooLow f then act_throw err
                 else act_ret (Some (nx\<lparr>tj_status := (if isNonceTooLow f then Dropped else Failed)\<rparr>))
             | _ \<Rightarrow> act_throw err))"
  have rest: "wp (?rest nx) Q (\<lambda>_. open_within opts K) t"
    if t: "open_within opts K t" "row_in K (tj_id nx) t" "tj_nonce nx = tj_nonce job" for nx t
  proof -
    let ?p = "(status_patch Replaced)\<lparr>tp_replacedByHash := Some (tj_submittedHash nx)\<rparr>"
    have cl: "closing ?p" by (simp add: closing_def status_patch_def OPEN_TX_STATUSES_def)
    have "wp (broadcast (wv_send v) (wv_now v) nx) (\<lambda>j. Q (Some j)) (\<lambda>err. wp (case err of
               Chain_fault f \<Rightarrow>
                 if \<not> isUnderpriced f \<and> \<not> isNonceTooLow f then act_throw err
                 else act_ret (Some (nx\<lparr>tj_status := (if isNonceTooLow f then Dropped else Failed)\<rparr>))
             | _ \<Rightarrow> act_throw err) Q (\<lambda>_. open_within opts K)) (t\<lparr>sn_store := st\<rparr>)"
      if st: "job_update (tj_id job) ?p (wv_now v) (sn_store t) = Inr st" for st
    proof (rule wp_mono [OF wp_broadcast_open])
      have "wp (store_update (tj_id job) ?p (wv_now v)) (\<lambda>_. open_within opts K) (\<lambda>_. open_within opts K) t"
        using keeps_store_update_closing [OF cl] t(1) by (simp add: keeps_def)
      then show "open_within opts K (t\<lparr>sn_store := st\<rparr>)" using st by (simp add: act_wp)
      show "row_in K (tj_id nx) (t\<lparr>sn_store := st\<rparr>)" using t(2) st by (rule row_in_update)
    qed (use t(3) in \<open>auto simp: act_wp Q_def split: tx_error.splits\<close>)
    with t(1) show ?thesis by (auto simp: wp_then wp_store_update wp_catch wp_bind wp_ret split: sum.splits)
  qed
  have "wp (signAndPersist opts (wv_now v) p) (\<lambda>nx. wp (?rest nx) Q (\<lambda>_. open_within opts K)) (\<lambda>_. open_within opts K) s"
    if "sq_nonce p = tj_nonce job" for p
    by (rule wp_mono [OF wp_sign_open [OF s]]) (use rest that k in auto)
  then have "wp (replace opts v job) Q (\<lambda>_. open_within opts K) s"
    using s by (auto simp: replace_def wp_bind wp_chain_read wp_ret wp_if Let_def Q_def split: sum.splits)
  then show ?thesis by (simp add: Q_def)
qed

text \<open>A pass that ends the wait has closed the nonce.\<close>

lemma wp_findMined_open:
  assumes "open_within opts K s"
  shows "wp (findMined opts node now k)
     (\<lambda>r t. open_within opts (case r of None \<Rightarrow> K | Some _ \<Rightarrow> K - {k}) t) (\<lambda>_. open_within opts K) s"
proof -
  have "open_within opts (case r of None \<Rightarrow> K | Some _ \<Rightarrow> K - {k}) t" if "findMined opts node now k s = (Inr r, t)" for r t
  proof -
    have "open_within opts K t" using keepsD [OF keeps_findMined assms, of node now k] that by simp
    with findMined_hit [of s opts node now k _ t] that assms show ?thesis
      by (cases r) (auto simp: open_within_def)
  qed
  moreover have "open_within opts K t" if "findMined opts node now k s = (Inl e, t)" for e t
    using keepsD [OF keeps_findMined assms, of node now k] that by simp
  ultimately show ?thesis unfolding wp_def by (auto split: prod.splits sum.splits)
qed

lemma wp_keeps: "keeps I m \<Longrightarrow> I s \<Longrightarrow> wp m (\<lambda>_. I) (\<lambda>_. I) s"
  by (simp add: keeps_def)

lemma wp_wait_pass_open:
  assumes s: "open_within opts K s" and k: "tj_nonce (wl_current l) = k" "k \<in> K"
  shows "wp (wait_pass opts started v l)
     (\<lambda>r t. case r of Inl l' \<Rightarrow> open_within opts K t \<and> tj_nonce (wl_current l') = k | Inr _ \<Rightarrow> open_within opts (K - {k}) t)
     (\<lambda>_. open_within opts K) s"
proof -
  let ?I = "open_within opts K" and ?j = "wl_current l"
  have reb: "wp (rebroadcast (wv_send v) ?j) (\<lambda>_. ?I) (\<lambda>_. ?I) t" if "?I t" for t
    using keeps_rebroadcast that by (rule wp_keeps)
  have rep: "wp (replace opts v ?j) (\<lambda>r t. case r of None \<Rightarrow> wp (rebroadcast (wv_send v) ?j) (\<lambda>_. ?I) (\<lambda>_. ?I) t
       | Some nx \<Rightarrow> ?I t \<and> tj_nonce nx = k) (\<lambda>_. ?I) t" if "?I t" for t
    by (rule wp_mono [OF wp_replace_open [OF that]]) (use k in \<open>auto intro: reb split: option.splits\<close>)
  have check: "wp (assertNonceNotTaken opts v (tj_nonce ?j)) (\<lambda>_. wp (inMempool v (tj_submittedHash ?j))
       (\<lambda>there. if \<not> there then wp (rebroadcast (wv_send v) ?j) (\<lambda>_. ?I) (\<lambda>_. ?I) else ?I) (\<lambda>_. ?I)) (\<lambda>_. ?I) t"
    if "?I t" for t
  proof (rule wp_mono [OF wp_keeps [OF keeps_assertNonceNotTaken that]])
    fix u
    assume "?I u"
    then show "wp (inMempool v (tj_submittedHash ?j))
       (\<lambda>there. if \<not> there then wp (rebroadcast (wv_send v) ?j) (\<lambda>_. ?I) (\<lambda>_. ?I) else ?I) (\<lambda>_. ?I) u"
      by (rule wp_mono [OF wp_keeps [OF keeps_inMempool]]) (simp_all add: reb)
  qed
  show ?thesis
    unfolding wait_pass_def wp_bind
  proof (rule wp_mono [OF wp_findMined_open [OF s]], goal_cases)
    case (1 mined t)
    then show ?case
    proof (cases mined)
      case None
      then have t: "?I t" using 1 by simp
      have "wp (replace opts v ?j) (\<lambda>r. case r of None \<Rightarrow> wp (rebroadcast (wv_send v) ?j) (\<lambda>_. ?I) (\<lambda>_. ?I)
          | Some nx \<Rightarrow> (\<lambda>t. ?I t \<and> tj_nonce nx = k)) (\<lambda>_. ?I) t"
        by (rule wp_mono [OF rep [OF t]]) (auto split: option.splits)
      then show ?thesis
        using None t check [OF t] k(1)
        by (simp add: act_wp Let_def if_distrib [of "\<lambda>f. f t"] cong: option.case_cong if_cong)
    next
      case (Some oc)
      then show ?thesis using 1 k(1) by (simp add: act_wp)
    qed
  qed simp
qed

lemma wp_wait_open:
  assumes "open_within opts K s" and "tj_nonce j \<in> K"
  shows "wp (wait opts started env fuel j)
     (\<lambda>r t. open_within opts (case r of None \<Rightarrow> K | Some _ \<Rightarrow> K - {tj_nonce j}) t) (\<lambda>_. open_within opts K) s"
proof -
  have "wp (wait_from opts started env fuel n l)
     (\<lambda>r t. open_within opts (case r of None \<Rightarrow> K | Some _ \<Rightarrow> K - {tj_nonce j}) t) (\<lambda>_. open_within opts K) s"
    if "open_within opts K s" "tj_nonce (wl_current l) = tj_nonce j" for n l s
    using that
  proof (induction fuel arbitrary: n l s)
    case 0
    then show ?case by (simp add: act_wp)
  next
    case (Suc fuel)
    show ?case
      unfolding wait_from.simps wp_bind
      by (rule wp_mono [OF wp_wait_pass_open [OF Suc.prems assms(2)]]) (auto simp: act_wp Suc.IH split: sum.splits)
  qed
  from this [OF assms(1)] show ?thesis by (simp add: wait_def)
qed

text \<open>One job per open nonce, none left out.\<close>

lemma newest_step_inv:
  assumes "distinct (map fst m)" and "\<forall>(k, v) \<in> set m. tj_nonce v = k"
  shows "distinct (map fst (newest_step j m)) \<and> (\<forall>(k, v) \<in> set (newest_step j m). tj_nonce v = k)
    \<and> fst ` set (newest_step j m) = insert (tj_nonce j) (fst ` set m)"
proof (cases "map_of m (tj_nonce j)")
  case None
  then have "tj_nonce j \<notin> fst ` set m" by (simp add: map_of_eq_None_iff)
  with assms None show ?thesis by (auto simp: newest_step_def)
next
  case (Some prev)
  define f where "f = (\<lambda>x :: int \<times> tx_job. if fst x = tj_nonce j then (fst x, j) else x)"
  have f: "newest_step j m = m \<or> newest_step j m = map f m"
    using Some by (auto simp: newest_step_def f_def split_beta)
  have keys: "map fst (map f m) = map fst m" by (simp add: f_def)
  have "fst ` set (map f m) = fst ` set m" using arg_cong [OF keys, of set] by (simp add: image_image)
  moreover have "tj_nonce j \<in> fst ` set m" using map_of_SomeD [OF Some] by force
  moreover have "\<forall>(k, v) \<in> set (map f m). tj_nonce v = k" using assms(2) by (auto simp: f_def)
  ultimately show ?thesis using f keys assms by (metis insert_absorb)
qed

lemma newest_fold_inv:
  "distinct (map fst m) \<Longrightarrow> \<forall>(k, v) \<in> set m. tj_nonce v = k \<Longrightarrow>
   distinct (map fst (fold newest_step js m)) \<and> (\<forall>(k, v) \<in> set (fold newest_step js m). tj_nonce v = k)
    \<and> fst ` set (fold newest_step js m) = tj_nonce ` set js \<union> fst ` set m"
proof (induction js arbitrary: m)
  case (Cons j js)
  note step = newest_step_inv [OF Cons.prems, of j]
  from Cons.IH [of "newest_step j m"] step show ?case by auto
qed simp

lemma newest_jobs_nonces:
  "distinct (map tj_nonce (newest_jobs js)) \<and> tj_nonce ` set (newest_jobs js) = tj_nonce ` set js"
proof -
  let ?m = "fold newest_step js []"
  have inv: "distinct (map fst ?m)" "\<forall>(k, v) \<in> set ?m. tj_nonce v = k" "fst ` set ?m = tj_nonce ` set js"
    using newest_fold_inv [of "[]" js] by auto
  have eq: "map tj_nonce (map snd ?m) = map fst ?m" using inv(2) by auto
  then have "distinct (map tj_nonce (map snd ?m))" "set (map tj_nonce (map snd ?m)) = tj_nonce ` set js"
    unfolding eq using inv(1,3) by simp_all
  moreover have "mset (map tj_nonce (newest_jobs js)) = mset (map tj_nonce (map snd ?m))"
    unfolding newest_jobs_def by (metis mset_js_sort mset_map)
  ultimately show ?thesis by (metis list.set_map mset_eq_imp_distinct_iff mset_eq_setD)
qed

lemma wp_recover_list:
  assumes "open_within opts K s" and "distinct (map tj_nonce js)" and "tj_nonce ` set js \<subseteq> K"
  shows "wp (recover_list opts env js n m)
     (\<lambda>r t. case r of None \<Rightarrow> True
        | Some (n', m') \<Rightarrow> m \<le> m' \<and> (m' = m \<longrightarrow> open_within opts (K - tj_nonce ` set js) t)) (\<lambda>_ _. True) s"
  using assms
proof (induction js arbitrary: K s n m)
  case Nil
  then show ?case by (simp add: act_wp)
next
  case (Cons j js)
  let ?ok = "\<lambda>K m r t. case r of None \<Rightarrow> True | Some (n', m') \<Rightarrow> m \<le> m' \<and> (m' = m \<longrightarrow> open_within opts (K - tj_nonce ` set js) t)"
  define Q :: "(int \<times> int) option \<Rightarrow> sender \<Rightarrow> bool" where "Q = (\<lambda>r t. case r of None \<Rightarrow> True
        | Some (n', m') \<Rightarrow> m \<le> m' \<and> (m' = m \<longrightarrow> open_within opts (K - tj_nonce ` set (j # js)) t))"
  have done_one: "wp (recover_list opts env js (n + 1) m) Q (\<lambda>_ _. True) t" if "open_within opts (K - {tj_nonce j}) t" for t
  proof (rule wp_mono [OF Cons.IH [OF that]])
    have rest: "K - tj_nonce ` set (j # js) = K - {tj_nonce j} - tj_nonce ` set js" by auto
    show "Q r u" if "?ok (K - {tj_nonce j}) m r u" for r u using that unfolding Q_def rest .
  qed (use Cons.prems in \<open>auto simp: image_iff\<close>)
  have failed: "wp (recover_list opts env js n (m + 1)) Q (\<lambda>_ _. True) t" if "open_within opts K t" for t
    by (rule wp_mono [OF Cons.IH [OF that]]) (use Cons.prems in \<open>auto simp: Q_def split: option.splits\<close>)
  have "wp (recover_list opts env (j # js) n m) Q (\<lambda>_ _. True) s"
    unfolding recover_list.simps wp_bind wp_catch
    by (rule wp_mono [OF wp_wait_open [OF Cons.prems(1)]])
      (use Cons.prems done_one failed in \<open>auto simp: act_wp Q_def [THEN fun_cong, THEN fun_cong, of None] split: option.splits\<close>)
  then show ?case unfolding Q_def .
qed

text \<open>
  The in-flight guard is sound. When \<open>stillInFlight\<close> answers that nothing is in flight, no job of
  this key is open any more: every nonce that was open has been watched until one of its
  attempts was found mined, whatever fee bumps that took. So a keeper decides from chain state
  only after everything it recorded as sent has landed.
\<close>

theorem in_flight_guard_sound:
  assumes "store_ok (sn_store s)" and "stillInFlight opts env s = (Inr (Some False), t)"
  shows "sender_open opts t = []"
proof (cases "sender_open opts s = []")
  case True
  with assms(2) show ?thesis by (simp add: stillInFlight_def act_defs)
next
  case False
  have none: "sender_open opts t = []" if "open_within opts {} t" for t
    using that by (simp add: open_within_def open_nonces_def sender_open_def)
  have "open_within opts (open_nonces opts s) s" using assms(1) by (simp add: open_within_def)
  moreover have "tj_nonce ` set (newest_jobs (sender_open opts s)) = open_nonces opts s"
    using newest_jobs_nonces [of "sender_open opts s"] by (simp add: open_nonces_def sender_open_def)
  ultimately have "wp (stillInFlight opts env) (\<lambda>r t. r = Some False \<longrightarrow> open_within opts {} t) (\<lambda>_ _. True) s"
    using False newest_jobs_nonces [of "sender_open opts s"]
    by (auto simp: stillInFlight_def recoverOpenJobs_def act_wp split: option.splits
        intro!: wp_mono [OF wp_recover_list [of opts "open_nonces opts s" s "newest_jobs (sender_open opts s)" env 0 0]])
  from wp_value [OF this assms(2)] show ?thesis by (simp add: none)
qed

definition sample_recovery :: "string \<Rightarrow> recovery_env" where
  "sample_recovery i = \<lparr>re_started = 0, re_view = sample_wait_view, re_passes = 2\<rparr>"

theorem in_flight_guard_sound_witness:
  "sender_open sample_options gap_sender \<noteq> []
   \<and> sender_open sample_options (snd (stillInFlight sample_options sample_recovery gap_sender)) = []"
proof -
  have "fst (stillInFlight sample_options sample_recovery gap_sender) = Inr (Some False)" by code_simp
  then have "stillInFlight sample_options sample_recovery gap_sender
      = (Inr (Some False), snd (stillInFlight sample_options sample_recovery gap_sender))" by (metis prod.collapse)
  from in_flight_guard_sound [OF gap_store_ok this]
  have "sender_open sample_options (snd (stillInFlight sample_options sample_recovery gap_sender)) = []" .
  moreover have "sender_open sample_options gap_sender \<noteq> []" by code_simp
  ultimately show ?thesis by simp
qed

end
