(* ===== verification/Tx_Store_Pg.thy ===== *)
theory Tx_Store_Pg
  imports Tx_Store
begin

text \<open>
  The Postgres store of the services, \<open>client/lib/chain/tx-store-pg.ts\<close>. The \<open>TxJob\<close> table is
  the list of its rows in the order they were inserted; text that is hex is lowered on write, and
  \<open>toJob\<close> gives the addresses their checksum form (viem's \<open>getAddress\<close>, a parameter) on read.
  Ids are ordered as text by character code.

  The table satisfies the same contract as the in-memory store, in the normal form that the
  lowering gives (\<open>normal_job\<close>, \<open>normal_patch\<close>, written out field by field), and reading through
  \<open>toJob\<close> it behaves as that store does.
\<close>

section \<open>Operations\<close>

definition to_row :: "tx_job \<Rightarrow> tx_job" where
  "to_row j = j\<lparr>tj_fromAddress := lower (tj_fromAddress j), tj_toAddress := lower (tj_toAddress j),
     tj_data := lower (tj_data j), tj_rawTx := lower (tj_rawTx j), tj_submittedHash := lower (tj_submittedHash j),
     tj_replacedByHash := map_option lower (tj_replacedByHash j)\<rparr>"

text \<open>\<open>INSERT ... ON CONFLICT ("id") DO NOTHING\<close>, where no row returned is the error.\<close>

definition pg_insert :: "tx_job \<Rightarrow> tx_store \<Rightarrow> store_error + tx_store" where
  "pg_insert j t = (if has_job t (tj_id j) then Inl (Job_exists (tj_id j)) else Inr (t @ [to_row j]))"

text \<open>One \<open>SET\<close> per field the patch carries, in the order the code pushes them, then the time.\<close>

definition update_row :: "tx_patch \<Rightarrow> int \<Rightarrow> tx_job \<Rightarrow> tx_job" where
  "update_row p now r =
     (let r = (case tp_status p of None \<Rightarrow> r | Some v \<Rightarrow> r\<lparr>tj_status := v\<rparr>);
          r = (case tp_replacedByHash p of None \<Rightarrow> r | Some h \<Rightarrow> r\<lparr>tj_replacedByHash := Some (lower h)\<rparr>);
          r = (case tp_gasUsed p of None \<Rightarrow> r | Some v \<Rightarrow> r\<lparr>tj_gasUsed := Some v\<rparr>);
          r = (case tp_effectiveGasPrice p of None \<Rightarrow> r | Some v \<Rightarrow> r\<lparr>tj_effectiveGasPrice := Some v\<rparr>);
          r = (case tp_blockNumber p of None \<Rightarrow> r | Some v \<Rightarrow> r\<lparr>tj_blockNumber := Some v\<rparr>);
          r = (case tp_error p of None \<Rightarrow> r | Some v \<Rightarrow> r\<lparr>tj_error := Some v\<rparr>)
      in r\<lparr>tj_updatedAt := now\<rparr>)"

definition pg_update :: "string \<Rightarrow> tx_patch \<Rightarrow> int \<Rightarrow> tx_store \<Rightarrow> store_error + tx_store" where
  "pg_update i p now t =
     (if \<not> has_job t i then Inl (Job_not_found i)
      else Inr (map (\<lambda>j. if tj_id j = i then update_row p now j else j) t))"

definition by_nonce_age_id :: "tx_job \<Rightarrow> tx_job \<Rightarrow> int" where
  "by_nonce_age_id a b = cmp_then (by_nonce_then_age a b) (cmp3 (tj_id a) (tj_id b))"

definition by_age_id :: "tx_job \<Rightarrow> tx_job \<Rightarrow> int" where
  "by_age_id a b = cmp_then (by_age a b) (cmp3 (tj_id a) (tj_id b))"

definition pg_open_rows :: "tx_store \<Rightarrow> string \<Rightarrow> address \<Rightarrow> tx_job list" where
  "pg_open_rows t network from = js_sort by_nonce_age_id
     (filter (\<lambda>j. tj_network j = network \<and> tj_fromAddress j = lower from \<and> is_open j) t)"

definition pg_nonce_rows :: "tx_store \<Rightarrow> string \<Rightarrow> address \<Rightarrow> int \<Rightarrow> tx_job list" where
  "pg_nonce_rows t network from nonce = js_sort by_age_id
     (filter (\<lambda>j. tj_network j = network \<and> tj_fromAddress j = lower from \<and> tj_nonce j = nonce) t)"

definition toJob :: "(address \<Rightarrow> address) \<Rightarrow> tx_job \<Rightarrow> tx_job" where
  "toJob getAddress r = r\<lparr>tj_fromAddress := getAddress (tj_fromAddress r), tj_toAddress := getAddress (tj_toAddress r)\<rparr>"

definition pg_openJobs :: "(address \<Rightarrow> address) \<Rightarrow> tx_store \<Rightarrow> string \<Rightarrow> address \<Rightarrow> tx_job list" where
  "pg_openJobs getAddress t network from = map (toJob getAddress) (pg_open_rows t network from)"

definition pg_byNonce :: "(address \<Rightarrow> address) \<Rightarrow> tx_store \<Rightarrow> string \<Rightarrow> address \<Rightarrow> int \<Rightarrow> tx_job list" where
  "pg_byNonce getAddress t network from nonce = map (toJob getAddress) (pg_nonce_rows t network from nonce)"

section \<open>The table meets the contract\<close>

definition table_ok :: "tx_store \<Rightarrow> bool" where
  "table_ok t \<longleftrightarrow> store_ok t \<and> (\<forall>j \<in> set t. lower (tj_fromAddress j) = tj_fromAddress j)"

interpretation nonce_age_id: keyed_comparator by_nonce_age_id tj_id
  by unfold_locales
    (auto simp: by_nonce_age_id_def by_nonce_then_age_def cmp_then_def cmp3_def split: if_splits)

interpretation age_id: keyed_comparator by_age_id tj_id
  by unfold_locales (auto simp: by_age_id_def by_age_def cmp_then_def cmp3_def split: if_splits)

text \<open>
  The normal form of a job and of a patch, written out: hex text is lowered and the addresses come
  back in checksum form; every other field is kept.
\<close>

definition normal_job :: "(address \<Rightarrow> address) \<Rightarrow> tx_job \<Rightarrow> tx_job" where
  "normal_job getAddress j = \<lparr>tj_id = tj_id j, tj_network = tj_network j, tj_service = tj_service j,
     tj_label = tj_label j, tj_fromAddress = getAddress (lower (tj_fromAddress j)),
     tj_toAddress = getAddress (lower (tj_toAddress j)), tj_nonce = tj_nonce j, tj_data = lower (tj_data j),
     tj_value = tj_value j, tj_gasLimit = tj_gasLimit j, tj_maxFeePerGas = tj_maxFeePerGas j,
     tj_maxPriorityFeePerGas = tj_maxPriorityFeePerGas j, tj_rawTx = lower (tj_rawTx j),
     tj_submittedHash = lower (tj_submittedHash j), tj_replacedByHash = map_option lower (tj_replacedByHash j),
     tj_status = tj_status j, tj_gasUsed = tj_gasUsed j, tj_effectiveGasPrice = tj_effectiveGasPrice j,
     tj_blockNumber = tj_blockNumber j, tj_error = tj_error j, tj_createdAt = tj_createdAt j,
     tj_updatedAt = tj_updatedAt j\<rparr>"

definition normal_patch :: "tx_patch \<Rightarrow> tx_patch" where
  "normal_patch p = \<lparr>tp_status = tp_status p, tp_replacedByHash = map_option lower (tp_replacedByHash p),
     tp_gasUsed = tp_gasUsed p, tp_effectiveGasPrice = tp_effectiveGasPrice p,
     tp_blockNumber = tp_blockNumber p, tp_error = tp_error p\<rparr>"

text \<open>What an update leaves of a job: the patch's value where there is one, the job's own otherwise.\<close>

definition patched_job :: "tx_patch \<Rightarrow> int \<Rightarrow> tx_job \<Rightarrow> tx_job" where
  "patched_job p now j = \<lparr>tj_id = tj_id j, tj_network = tj_network j, tj_service = tj_service j,
     tj_label = tj_label j, tj_fromAddress = tj_fromAddress j, tj_toAddress = tj_toAddress j,
     tj_nonce = tj_nonce j, tj_data = tj_data j, tj_value = tj_value j, tj_gasLimit = tj_gasLimit j,
     tj_maxFeePerGas = tj_maxFeePerGas j, tj_maxPriorityFeePerGas = tj_maxPriorityFeePerGas j,
     tj_rawTx = tj_rawTx j, tj_submittedHash = tj_submittedHash j,
     tj_replacedByHash = (if tp_replacedByHash p = None then tj_replacedByHash j else map_option lower (tp_replacedByHash p)),
     tj_status = (if tp_status p = None then tj_status j else the (tp_status p)),
     tj_gasUsed = (if tp_gasUsed p = None then tj_gasUsed j else tp_gasUsed p),
     tj_effectiveGasPrice = (if tp_effectiveGasPrice p = None then tj_effectiveGasPrice j else tp_effectiveGasPrice p),
     tj_blockNumber = (if tp_blockNumber p = None then tj_blockNumber j else tp_blockNumber p),
     tj_error = (if tp_error p = None then tj_error j else tp_error p),
     tj_createdAt = tj_createdAt j, tj_updatedAt = now\<rparr>"

lemma update_row_patched: "update_row p now j = patched_job p now j"
  by (cases j; cases p) (simp add: update_row_def patched_job_def Let_def split: option.splits)

lemma update_row_apply: "update_row p now j = apply_patch (normal_patch p) now j"
  by (cases j; cases p)
    (simp add: update_row_patched patched_job_def apply_patch_def over_def normal_patch_def split: option.splits)

lemma to_row_fields [simp]:
  "tj_id (to_row j) = tj_id j" "tj_network (to_row j) = tj_network j" "tj_status (to_row j) = tj_status j"
  "tj_fromAddress (to_row j) = lower (tj_fromAddress j)"
  by (simp_all add: to_row_def)

lemma apply_patch_from [simp]: "tj_fromAddress (apply_patch p now j) = tj_fromAddress j"
  by (simp add: apply_patch_def)

lemma table_row: "table_ok t \<Longrightarrow> job_row t (tj_id j) = Some j \<longleftrightarrow> j \<in> set t"
  using job_row_Some [of t "tj_id j" j] by (simp add: table_ok_def)

lemma table_lower: "table_ok t \<Longrightarrow> j \<in> set t \<Longrightarrow> lower (tj_fromAddress j) = tj_fromAddress j"
  by (simp add: table_ok_def)

interpretation pg: tx_job_store pg_insert pg_update pg_open_rows pg_nonce_rows job_row table_ok to_row normal_patch
proof unfold_locales
  fix t :: tx_store and j i p now
  assume ok: "table_ok t"
  show "\<exists>s'. pg_insert j t = Inr s' \<and> table_ok s' \<and> job_row s' = (job_row t)(tj_id j \<mapsto> to_row j)"
    if "job_row t (tj_id j) = None"
  proof (intro exI conjI)
    show "pg_insert j t = Inr (t @ [to_row j])" using that by (simp add: pg_insert_def has_job_def job_row_None)
    show "table_ok (t @ [to_row j])" using that ok by (auto simp: table_ok_def store_ok_def job_row_None)
    show "job_row (t @ [to_row j]) = (job_row t)(tj_id j \<mapsto> to_row j)" using job_row_snoc [of t "to_row j"] that by simp
  qed
  show "pg_insert j t = Inl (Job_exists (tj_id j))" if "job_row t (tj_id j) \<noteq> None"
    using that by (simp only: job_row_None not_not) (simp add: pg_insert_def has_job_def)
  show "pg_update i p now t = Inl (Job_not_found i)" if "job_row t i = None"
    using that by (simp add: job_row_None pg_update_def has_job_def)
  show "\<exists>s'. pg_update i p now t = Inr s' \<and> table_ok s' \<and> job_row s' = (job_row t)(i \<mapsto> apply_patch (normal_patch p) now j)"
    if row: "job_row t i = Some j"
  proof -
    have "store_ok t" using ok by (simp add: table_ok_def)
    moreover have "has_job t i" using row calculation by (auto simp: job_row_Some has_job_def)
    ultimately show ?thesis
      using patched_store [OF _ row, of "normal_patch p" now] ok
      unfolding pg_update_def update_row_apply by (auto simp: table_ok_def)
  qed
  show "job_row t i = Some j \<Longrightarrow> tj_id j = i" using ok by (simp add: table_ok_def job_row_Some)
qed (auto simp: table_row table_lower pg_open_rows_def pg_nonce_rows_def sameAddress_def normal_patch_def)

section \<open>Read through \<open>toJob\<close>, the table is the in-memory store\<close>

definition jobs_of :: "(address \<Rightarrow> address) \<Rightarrow> tx_store \<Rightarrow> tx_store" where
  "jobs_of getAddress t = map (toJob getAddress) t"

lemma toJob_fields [simp]:
  "tj_id (toJob g j) = tj_id j" "tj_network (toJob g j) = tj_network j" "tj_nonce (toJob g j) = tj_nonce j"
  "tj_createdAt (toJob g j) = tj_createdAt j" "is_open (toJob g j) = is_open j"
  "tj_fromAddress (toJob g j) = g (tj_fromAddress j)"
  by (simp_all add: toJob_def is_open_def)

lemma toJob_patch: "toJob g (apply_patch p now j) = apply_patch p now (toJob g j)"
  by (cases j) (simp add: toJob_def apply_patch_def split: option.splits)

lemma jobs_of_ids: "map tj_id (jobs_of g t) = map tj_id t"
  by (simp add: jobs_of_def)

lemma sorted_toJob:
  "sorted_wrt (\<lambda>a b. by_nonce_age_id a b \<le> 0) js \<Longrightarrow> sorted_wrt (\<lambda>a b. by_nonce_then_age a b \<le> 0) (map (toJob g) js)"
proof (unfold sorted_wrt_map, erule sorted_wrt_mono_rel [rotated])
  show "by_nonce_then_age (toJob g x) (toJob g y) \<le> 0" if "by_nonce_age_id x y \<le> 0" for x y
    using that by (auto simp: by_nonce_age_id_def by_nonce_then_age_def cmp_then_def split: if_splits)
qed

lemma open_rows_abs:
  assumes "table_ok t" and "\<And>a. lower (g a) = lower a"
  shows "mset (pg_openJobs g t n a) = mset (openJobs (jobs_of g t) n a)"
proof -
  have "filter (\<lambda>j. tj_network j = n \<and> sameAddress (tj_fromAddress j) a \<and> is_open j) (jobs_of g t)
      = map (toJob g) (filter (\<lambda>j. tj_network j = n \<and> sameAddress (g (tj_fromAddress j)) a \<and> is_open j) t)"
    by (simp add: jobs_of_def filter_map comp_def)
  also have "filter (\<lambda>j. tj_network j = n \<and> sameAddress (g (tj_fromAddress j)) a \<and> is_open j) t
      = filter (\<lambda>j. tj_network j = n \<and> tj_fromAddress j = lower a \<and> is_open j) t"
    using table_lower [OF assms(1)] assms(2) by (intro filter_cong) (simp_all add: sameAddress_def)
  finally show ?thesis by (simp add: pg_openJobs_def pg_open_rows_def openJobs_def)
qed

lemma nonce_rows_abs:
  assumes "table_ok t" and "\<And>a. lower (g a) = lower a"
  shows "set (pg_byNonce g t n a k) = {j \<in> set (jobs_of g t). tj_network j = n
    \<and> lower (tj_fromAddress j) = lower a \<and> tj_nonce j = k}"
  using table_lower [OF assms(1)] assms(2) by (auto simp: pg_byNonce_def pg_nonce_rows_def jobs_of_def)

lemma sorted_toJob_age:
  "sorted_wrt (\<lambda>a b. by_age_id a b \<le> 0) js \<Longrightarrow> sorted_wrt (\<lambda>a b. tj_createdAt a \<le> tj_createdAt b) (map (toJob g) js)"
proof (unfold sorted_wrt_map, erule sorted_wrt_mono_rel [rotated])
  show "tj_createdAt (toJob g x) \<le> tj_createdAt (toJob g y)" if "by_age_id x y \<le> 0" for x y
    using that by (auto simp: by_age_id_def by_age_def cmp_then_def split: if_splits)
qed

lemma toJob_to_row: "toJob g (to_row j) = normal_job g j"
  by (cases j) (simp add: toJob_def to_row_def normal_job_def)

lemma toJob_update: "toJob g (update_row p now j) = patched_job p now (toJob g j)"
  unfolding update_row_apply toJob_patch by (simp only: update_row_apply [symmetric] update_row_patched)

lemma open_rows_set:
  assumes "table_ok t" and "\<And>a. lower (g a) = lower a"
  shows "set (pg_openJobs g t n a) = {j \<in> set (jobs_of g t). tj_network j = n
    \<and> lower (tj_fromAddress j) = lower a \<and> tj_status j \<in> {Pending, Submitted}}"
proof -
  have "set (pg_openJobs g t n a) = set (openJobs (jobs_of g t) n a)"
    using open_rows_abs [OF assms] by (rule mset_eq_setD)
  then show ?thesis by (auto simp: openJobs_def sameAddress_def is_open_def OPEN_TX_STATUSES_def)
qed

lemma update_abs:
  "map_sum id (jobs_of g) (pg_update i p now t) =
     (if i \<in> tj_id ` set t then Inr (map (\<lambda>j. if tj_id j = i then patched_job p now j else j) (jobs_of g t))
      else Inl (Job_not_found i))"
  by (auto simp: pg_update_def has_job_def jobs_of_def toJob_update)

text \<open>
  C19. The Postgres store refines the in-memory store that the sender is specified against, for a
  \<open>getAddress\<close> that changes only the case of letters. Read through \<open>toJob\<close>, inserting a job and its error are those of \<open>MemoryTxJobStore\<close> on the job
  whose hex text is lowered and whose addresses are in checksum form, every other field as given
  (\<open>normal_job\<close>); updating a job and its error are those of that store on the lowered patch, and
  leave every present field of the patch in the job of that id, the job's own value in every other
  field and every other job as it was (\<open>patched_job\<close>). \<open>openJobs\<close> returns the same jobs as that
  store, namely the pending and submitted ones of the key, by nonce and then age;
  \<open>byNonce\<close> returns the jobs of the key at the nonce, oldest first. The table stays well formed.
\<close>

theorem pg_store_refines_memory:
  assumes getAddress: "\<And>a. lower (getAddress a) = lower a" and ok: "table_ok t"
  shows "map_sum id (jobs_of getAddress) (pg_insert j t) = job_insert (normal_job getAddress j) (jobs_of getAddress t)
    \<and> map_sum id (jobs_of getAddress) (pg_update i p now t) = job_update i (normal_patch p) now (jobs_of getAddress t)
    \<and> map_sum id (jobs_of getAddress) (pg_update i p now t) =
        (if i \<in> tj_id ` set t
         then Inr (map (\<lambda>j. if tj_id j = i then patched_job p now j else j) (jobs_of getAddress t))
         else Inl (Job_not_found i))
    \<and> mset (pg_openJobs getAddress t n a) = mset (openJobs (jobs_of getAddress t) n a)
    \<and> set (pg_openJobs getAddress t n a) = {j \<in> set (jobs_of getAddress t). tj_network j = n
        \<and> lower (tj_fromAddress j) = lower a \<and> tj_status j \<in> {Pending, Submitted}}
    \<and> sorted_wrt (\<lambda>a b. tj_nonce a < tj_nonce b \<or> tj_nonce a = tj_nonce b \<and> tj_createdAt a \<le> tj_createdAt b)
        (pg_openJobs getAddress t n a)
    \<and> set (pg_byNonce getAddress t n a k) = {j \<in> set (jobs_of getAddress t). tj_network j = n
        \<and> lower (tj_fromAddress j) = lower a \<and> tj_nonce j = k}
    \<and> sorted_wrt (\<lambda>a b. tj_createdAt a \<le> tj_createdAt b) (pg_byNonce getAddress t n a k)
    \<and> (\<forall>t'. pg_insert j t = Inr t' \<or> pg_update i p now t = Inr t' \<longrightarrow> table_ok t')"
proof (intro conjI)
  have has: "has_job (jobs_of getAddress t) k = has_job t k" for k
    unfolding has_job_def jobs_of_ids by (rule refl)
  show "map_sum id (jobs_of getAddress) (pg_insert j t) = job_insert (normal_job getAddress j) (jobs_of getAddress t)"
    unfolding toJob_to_row [symmetric] by (simp add: pg_insert_def job_insert_def has) (simp add: jobs_of_def)
  show "map_sum id (jobs_of getAddress) (pg_update i p now t) = job_update i (normal_patch p) now (jobs_of getAddress t)"
    by (simp add: pg_update_def job_update_def has) (auto simp: jobs_of_def update_row_apply toJob_patch)
  show "sorted_wrt (\<lambda>a b. tj_nonce a < tj_nonce b \<or> tj_nonce a = tj_nonce b \<and> tj_createdAt a \<le> tj_createdAt b)
      (pg_openJobs getAddress t n a)"
    using sorted_toJob [OF nonce_age_id.js_sort_sorted] unfolding pg_openJobs_def pg_open_rows_def
    by (rule sorted_wrt_mono_rel [rotated]) (auto simp: by_nonce_then_age_def cmp_then_def split: if_splits)
  show "sorted_wrt (\<lambda>a b. tj_createdAt a \<le> tj_createdAt b) (pg_byNonce getAddress t n a k)"
    unfolding pg_byNonce_def pg_nonce_rows_def by (rule sorted_toJob_age) (rule age_id.js_sort_sorted)
  show "\<forall>t'. pg_insert j t = Inr t' \<or> pg_update i p now t = Inr t' \<longrightarrow> table_ok t'"
    using pg.insert_result [OF ok] pg.update_result [OF ok] by blast
qed (rule update_abs open_rows_abs [OF ok getAddress] open_rows_set [OF ok getAddress]
  nonce_rows_abs [OF ok getAddress])+

definition pg_sample :: tx_job where
  "pg_sample = \<lparr>tj_id = ''a'', tj_network = ''arc'', tj_service = ''svc'', tj_label = ''l'', tj_fromAddress = ''0xAb'',
     tj_toAddress = ''0xCd'', tj_nonce = 3, tj_data = ''0x'', tj_value = 0, tj_gasLimit = 1, tj_maxFeePerGas = 1,
     tj_maxPriorityFeePerGas = 1, tj_rawTx = ''0xFF'', tj_submittedHash = ''0xE0'', tj_replacedByHash = None,
     tj_status = Submitted, tj_gasUsed = None, tj_effectiveGasPrice = None, tj_blockNumber = None, tj_error = None,
     tj_createdAt = 0, tj_updatedAt = 0\<rparr>"

theorem pg_store_refines_memory_witness:
  "map_sum id (jobs_of lower) (pg_insert pg_sample []) = job_insert (normal_job lower pg_sample) []
   \<and> map tj_fromAddress (pg_openJobs lower [to_row pg_sample] ''arc'' ''0xAB'') = [''0xab'']"
proof -
  have "table_ok []" by (simp add: table_ok_def store_ok_def)
  from pg_store_refines_memory [of lower, OF _ this] have
    "map_sum id (jobs_of lower) (pg_insert pg_sample []) = job_insert (normal_job lower pg_sample) (jobs_of lower [])"
    by simp
  moreover have "map tj_fromAddress (pg_openJobs lower [to_row pg_sample] ''arc'' ''0xAB'') = [''0xab'']" by code_simp
  ultimately show ?thesis by (simp add: jobs_of_def)
qed

end
