(* ===== verification/Reconciler_Jobs.thy ===== *)
theory Reconciler_Jobs
  imports Keeper_Runtime Tx_Store_Pg Settlement
begin

text \<open>
  The reconciler's pass over the transaction jobs of every service key,
  \<open>client/lib/reconciler/jobs.ts\<close>. It holds no key: it reads receipts, moves open rows of the
  \<open>TxJob\<close> table to a terminal state, and re-sends bytes that are already signed.

  The node is a parameter: \<open>recon_chain\<close> has its answers during the pass over one key, per call
  of the code. The state has the job table, the counters, and the raw transactions handed to the
  node. The database answers every query; log lines are not modelled.
\<close>

section \<open>State and node\<close>

record recon =
  rs_jobs :: tx_store
  rs_metrics :: metrics
  rs_sent :: "hex list"

type_synonym 'a recon_act = "(recon, keeper_fault, 'a) act"

text \<open>
  What \<open>eth_call\<close> throws is an object graph: a node has a \<open>data\<close> field, which is text, an
  object whose own \<open>data\<close> may be text, or something else, and a \<open>cause\<close>, which may lead back to
  a node already seen. An address without a node is a value that is not an object.
\<close>

datatype call_data = Data_text string | Data_object "string option" | Data_other

record call_node =
  en_data :: call_data
  en_cause :: "nat option"

type_synonym call_heap = "(nat \<times> call_node) list"

record recon_chain =
  rv_latest :: "address \<Rightarrow> keeper_fault + int"
  rv_receipt :: "hex \<Rightarrow> keeper_fault + tx_receipt"
  rv_call :: "tx_job \<Rightarrow> int \<Rightarrow> (call_heap \<times> nat) option"
  rv_tx :: "hex \<Rightarrow> keeper_fault option"
  rv_send :: "hex \<Rightarrow> keeper_fault option"
  rv_now :: "int \<Rightarrow> int"
  rv_dbNow :: int

datatype job_outcome = Out_confirmed | Out_reverted | Out_dropped | Out_rebroadcast | Out_stuck | Out_pending

fun outcome_text :: "job_outcome \<Rightarrow> string" where
  "outcome_text Out_confirmed = ''confirmed''"
| "outcome_text Out_reverted = ''reverted''"
| "outcome_text Out_dropped = ''dropped''"
| "outcome_text Out_rebroadcast = ''rebroadcast''"
| "outcome_text Out_stuck = ''stuck''"
| "outcome_text Out_pending = ''pending''"

record stuck_job =
  sk_id :: string
  sk_nonce :: int
  sk_label :: string
  sk_ageMs :: int

record key_report =
  kr_address :: address
  kr_service :: string
  kr_minedNonce :: int
  kr_outcomes :: "job_outcome \<Rightarrow> int"
  kr_nonceGaps :: "int list"
  kr_stuck :: "stuck_job list"

definition DEFAULT_STUCK_AFTER_MS :: int where "DEFAULT_STUCK_AFTER_MS = 60000"

section \<open>Discovery and terminal transitions\<close>

definition by_service_address :: "address \<times> string \<Rightarrow> address \<times> string \<Rightarrow> int" where
  "by_service_address a b = cmp_then (cmp3 (snd a) (snd b)) (cmp3 (fst a) (fst b))"

definition openKeys :: "string \<Rightarrow> tx_store \<Rightarrow> (address \<times> string) list" where
  "openKeys network t = js_sort by_service_address (remdups
     (map (\<lambda>j. (tj_fromAddress j, tj_service j)) (filter (\<lambda>j. tj_network j = network \<and> is_open j) t)))"

definition openJobsFor :: "string \<Rightarrow> address \<Rightarrow> tx_store \<Rightarrow> tx_job list" where
  "openJobsFor network addr t = js_sort by_nonce_age_id
     (filter (\<lambda>j. tj_network j = network \<and> tj_fromAddress j = lower addr \<and> is_open j) t)"

definition finalize :: "string \<Rightarrow> tx_patch \<Rightarrow> int \<Rightarrow> bool recon_act" where
  "finalize i p now = (\<lambda>s.
     (Inr (list_ex (\<lambda>j. tj_id j = i \<and> is_open j) (rs_jobs s)),
      s\<lparr>rs_jobs := map (\<lambda>j. if tj_id j = i \<and> is_open j then apply_patch p now j else j) (rs_jobs s)\<rparr>))"

definition dropped_patch :: "string \<Rightarrow> tx_patch" where
  "dropped_patch reason = (status_patch Dropped)\<lparr>tp_error := Some reason\<rparr>"

definition receipt_patch :: "tx_receipt \<Rightarrow> string option \<Rightarrow> tx_patch" where
  "receipt_patch r e = (mined_patch r)\<lparr>tp_error := e\<rparr>"

section \<open>Why a transaction reverted\<close>

definition hex_digit :: "char \<Rightarrow> bool" where
  "hex_digit c \<longleftrightarrow> c \<in> set ''0123456789abcdefABCDEF''"

text \<open>\<open>/^0x[0-9a-fA-F]{8,}$/\<close>, and the same with the digits optional.\<close>

definition revert_payload :: "string \<Rightarrow> bool" where
  "revert_payload d \<longleftrightarrow> take 2 d = ''0x'' \<and> 8 \<le> length (drop 2 d) \<and> list_all hex_digit (drop 2 d)"

definition node_payload :: "call_node \<Rightarrow> hex option" where
  "node_payload n = (case en_data n of
     Data_text d \<Rightarrow> if d = ''0x'' \<or> revert_payload d then Some d else None
   | Data_object (Some d) \<Rightarrow> if revert_payload d then Some d else None
   | _ \<Rightarrow> None)"

function extract_from :: "call_heap \<Rightarrow> nat list \<Rightarrow> nat option \<Rightarrow> hex option" where
  "extract_from h seen None = None"
| "extract_from h seen (Some a) =
     (if a \<in> set seen then None
      else case map_of h a of None \<Rightarrow> None
           | Some n \<Rightarrow> (case node_payload n of Some d \<Rightarrow> Some d
                       | None \<Rightarrow> extract_from h (a # seen) (en_cause n)))"
  by pat_completeness auto
termination
proof (relation "measure (\<lambda>(h, seen, _). card (fst ` set h - set seen))")
  fix h :: call_heap and seen a n
  assume "a \<notin> set seen" and "map_of h a = Some n"
  then have "a \<in> fst ` set h - set seen" using map_of_SomeD [of h a n] by (auto intro: rev_image_eqI)
  then have "fst ` set h - set (a # seen) \<subset> fst ` set h - set seen" by auto
  then show "((h, a # seen, en_cause n), h, seen, Some a) \<in> measure (\<lambda>(h, seen, _). card (fst ` set h - set seen))"
    unfolding in_measure prod.case by (rule psubset_card_mono [rotated]) simp
qed simp

definition extractRevertData :: "call_heap \<Rightarrow> nat \<Rightarrow> hex option" where
  "extractRevertData h err = extract_from h [] (Some err)"

record revert_reason = decoded_error +
  rr_raw :: "hex option"

definition no_reason :: "hex option \<Rightarrow> revert_reason" where
  "no_reason raw = \<lparr>de_errorName = None, de_errorArgs = [], rr_raw = raw\<rparr>"

definition reconRevertReason :: "error_abi \<Rightarrow> recon_chain \<Rightarrow> tx_job \<Rightarrow> int \<Rightarrow> revert_reason" where
  "reconRevertReason decodeError ch job blockNumber = (case rv_call ch job blockNumber of
     None \<Rightarrow> no_reason None
   | Some (h, err) \<Rightarrow> (case extractRevertData h err of
       None \<Rightarrow> no_reason None
     | Some raw \<Rightarrow> if raw = ''0x'' then no_reason (Some raw)
                   else decoded_error.extend (decodeRevert decodeError raw) (revert_reason.fields (Some raw))))"

fun join_text :: "string \<Rightarrow> string list \<Rightarrow> string" where
  "join_text sep [] = []"
| "join_text sep [x] = x"
| "join_text sep (x # xs) = x @ sep @ join_text sep xs"

definition undecodable :: "hex option \<Rightarrow> string" where
  "undecodable raw = ''reverted, reason undecodable'' @
     (case raw of None \<Rightarrow> [] | Some d \<Rightarrow> '' ('' @ take 74 d @ '')'')"

definition reason_text :: "revert_reason \<Rightarrow> string" where
  "reason_text r = (case de_errorName r of
     None \<Rightarrow> undecodable (rr_raw r)
   | Some n \<Rightarrow> if n = [] then undecodable (rr_raw r) else n @ ''('' @ join_text '', '' (de_errorArgs r) @ '')'')"

section \<open>The node, asked\<close>

definition reconIsNotFound :: "keeper_fault \<Rightarrow> bool" where
  "reconIsNotFound e \<longleftrightarrow> cf_name e = ''TransactionReceiptNotFoundError'' \<or> cf_name e = ''TransactionNotFoundError''
     \<or> contains_text ''could not be found'' (lower (errorMessage e)) \<or> contains_text ''not found'' (lower (errorMessage e))"

definition receiptOf :: "recon_chain \<Rightarrow> hex \<Rightarrow> tx_receipt option recon_act" where
  "receiptOf ch h = act_lift (case rv_receipt ch h of
     Inr r \<Rightarrow> Inr (Some r) | Inl e \<Rightarrow> if reconIsNotFound e then Inr None else Inl e)"

definition reconInMempool :: "recon_chain \<Rightarrow> hex \<Rightarrow> bool recon_act" where
  "reconInMempool ch h = act_lift (case rv_tx ch h of
     None \<Rightarrow> Inr True | Some e \<Rightarrow> if reconIsNotFound e then Inr False else Inl e)"

definition reconSend :: "recon_chain \<Rightarrow> hex \<Rightarrow> unit recon_act" where
  "reconSend ch raw = (\<lambda>s. (case rv_send ch raw of None \<Rightarrow> Inr () | Some e \<Rightarrow> Inl e,
     s\<lparr>rs_sent := rs_sent s @ [raw]\<rparr>))"

section \<open>One nonce\<close>

text \<open>Step 1 of \<open>resolveNonce\<close>: the first attempt with a receipt settles the nonce.\<close>

fun resolve_mined :: "error_abi \<Rightarrow> recon_chain \<Rightarrow> tx_job list \<Rightarrow> tx_job list \<Rightarrow> job_outcome option recon_act" where
  "resolve_mined decodeError ch attempts [] = act_ret None"
| "resolve_mined decodeError ch attempts (a # rest) =
     act_bind (receiptOf ch (tj_submittedHash a)) (\<lambda>r. case r of
       None \<Rightarrow> resolve_mined decodeError ch attempts rest
     | Some receipt \<Rightarrow>
         let error = (if rc_success receipt then None
                      else Some (reason_text (reconRevertReason decodeError ch a (rc_blockNumber receipt))))
         in act_then (finalize (tj_id a) (receipt_patch receipt error) (rv_dbNow ch))
           (act_then (act_each (\<lambda>other. act_when (tj_id other \<noteq> tj_id a)
                (act_then (finalize (tj_id other) (dropped_patch ''superseded at the same nonce'') (rv_dbNow ch)) (act_ret ())))
                attempts)
              (act_ret (Some (if rc_success receipt then Out_confirmed else Out_reverted)))))"

definition resolveNonce ::
  "error_abi \<Rightarrow> recon_chain \<Rightarrow> int \<Rightarrow> tx_job list \<Rightarrow> int \<Rightarrow> int \<Rightarrow> key_report \<Rightarrow> (job_outcome \<times> key_report) recon_act" where
  "resolveNonce decodeError ch nonce attempts minedNonce stuckAfterMs report =
     act_bind (resolve_mined decodeError ch attempts attempts) (\<lambda>hit. case hit of
       Some outcome \<Rightarrow> act_ret (outcome, report)
     | None \<Rightarrow>
         if minedNonce > nonce
         then act_then (act_each (\<lambda>a. act_then (finalize (tj_id a)
                  (dropped_patch ''nonce consumed by a transaction this key did not record'') (rv_dbNow ch)) (act_ret ())) attempts)
                (act_ret (Out_dropped, report))
         else let newest = last attempts; ageMs = rv_now ch nonce - tj_createdAt newest in
           act_bind (reconInMempool ch (tj_submittedHash newest)) (\<lambda>seen.
             if seen then act_ret (Out_pending, report)
             else act_catch
                (act_then (reconSend ch (tj_rawTx newest)) (act_ret (Out_rebroadcast, report)))
                (\<lambda>_. if ageMs \<ge> stuckAfterMs
                     then act_ret (Out_stuck, report\<lparr>kr_stuck := kr_stuck report @
                            [\<lparr>sk_id = tj_id newest, sk_nonce = nonce, sk_label = tj_label newest, sk_ageMs = ageMs\<rparr>]\<rparr>)
                     else act_ret (Out_pending, report))))"

text \<open>The nonces of \<open>[minedNonce, highest)\<close> without an open attempt.\<close>

definition detectNonceGaps :: "int \<Rightarrow> int list \<Rightarrow> int list" where
  "detectNonceGaps minedNonce openNonces =
     (if openNonces = [] then []
      else filter (\<lambda>n. n \<notin> set openNonces) [minedNonce..foldr max (tl openNonces) (hd openNonces) - 1])"

section \<open>One key\<close>

definition group_step :: "tx_job \<Rightarrow> (int \<times> tx_job list) list \<Rightarrow> (int \<times> tx_job list) list" where
  "group_step j m = (case map_of m (tj_nonce j) of
     None \<Rightarrow> m @ [(tj_nonce j, [j])]
   | Some _ \<Rightarrow> map (\<lambda>(k, l). if k = tj_nonce j then (k, l @ [j]) else (k, l)) m)"

definition group_nonces :: "tx_job list \<Rightarrow> (int \<times> tx_job list) list" where
  "group_nonces jobs = fold group_step jobs []"

definition by_group_nonce :: "int \<times> tx_job list \<Rightarrow> int \<times> tx_job list \<Rightarrow> int" where
  "by_group_nonce a b = fst a - fst b"

fun resolve_all ::
  "error_abi \<Rightarrow> recon_chain \<Rightarrow> int \<Rightarrow> int \<Rightarrow> (int \<times> tx_job list) list \<Rightarrow> key_report \<Rightarrow> key_report recon_act" where
  "resolve_all decodeError ch minedNonce stuckAfter [] report = act_ret report"
| "resolve_all decodeError ch minedNonce stuckAfter ((nonce, attempts) # rest) report =
     act_bind (resolveNonce decodeError ch nonce attempts minedNonce stuckAfter report) (\<lambda>(outcome, report').
       act_then (act_mod (\<lambda>s. s\<lparr>rs_metrics := inc (''reconciler_job_'' @ outcome_text outcome @ ''_total'') 1 (rs_metrics s)\<rparr>))
         (resolve_all decodeError ch minedNonce stuckAfter rest
           (report'\<lparr>kr_outcomes := (kr_outcomes report')(outcome := kr_outcomes report' outcome + 1)\<rparr>)))"

definition new_report :: "address \<times> string \<Rightarrow> key_report" where
  "new_report key = \<lparr>kr_address = fst key, kr_service = snd key, kr_minedNonce = 0, kr_outcomes = (\<lambda>_. 0),
     kr_nonceGaps = [], kr_stuck = []\<rparr>"

definition reconcileKey ::
  "error_abi \<Rightarrow> string \<Rightarrow> int \<Rightarrow> recon_chain \<Rightarrow> address \<times> string \<Rightarrow> key_report recon_act" where
  "reconcileKey decodeError network stuckAfter ch key =
     act_bind (act_get (\<lambda>s. openJobsFor network (fst key) (rs_jobs s))) (\<lambda>jobs.
       if jobs = [] then act_ret (new_report key)
       else act_bind (act_lift (rv_latest ch (fst key))) (\<lambda>minedNonce.
         let groups = group_nonces jobs in
         act_bind (resolve_all decodeError ch minedNonce stuckAfter (js_sort by_group_nonce groups)
             ((new_report key)\<lparr>kr_minedNonce := minedNonce\<rparr>)) (\<lambda>report.
         let gaps = detectNonceGaps minedNonce (map fst groups) in
         act_then (act_mod (\<lambda>s. if gaps \<noteq> []
             then s\<lparr>rs_metrics := inc ''reconciler_nonce_gaps_total'' (int (length gaps)) (rs_metrics s)\<rparr> else s))
           (act_ret (report\<lparr>kr_nonceGaps := gaps\<rparr>)))))"

section \<open>Grouping and gaps\<close>

definition group_has :: "(int \<times> tx_job list) list \<Rightarrow> int \<Rightarrow> tx_job \<Rightarrow> bool" where
  "group_has m n x \<longleftrightarrow> (\<exists>g \<in> set m. fst g = n \<and> x \<in> set (snd g))"

lemma group_step_cases:
  "group_step j m = (if tj_nonce j \<in> fst ` set m
     then map (\<lambda>g. if fst g = tj_nonce j then (fst g, snd g @ [j]) else g) m else m @ [(tj_nonce j, [j])])"
proof (cases "map_of m (tj_nonce j)")
  case (Some l)
  then have "tj_nonce j \<in> fst ` set m" using map_of_SomeD [OF Some] by (auto intro: rev_image_eqI)
  with Some show ?thesis by (auto simp: group_step_def)
next
  case None
  then have "tj_nonce j \<notin> fst ` set m" by (simp add: map_of_eq_None_iff)
  then show ?thesis unfolding group_step_def None by simp
qed

lemma group_step_has: "group_has (group_step j m) n x \<longleftrightarrow> x = j \<and> n = tj_nonce j \<or> group_has m n x"
proof (cases "tj_nonce j \<in> fst ` set m")
  case True
  have "group_has (group_step j m) n x \<longleftrightarrow> (\<exists>g \<in> set m. fst g = n \<and> (x \<in> set (snd g) \<or> n = tj_nonce j \<and> x = j))"
    unfolding group_step_cases if_P [OF True] group_has_def set_map bex_simps by (rule bex_cong) auto
  moreover obtain g where "g \<in> set m" "fst g = tj_nonce j" using True by auto
  ultimately show ?thesis unfolding group_has_def by blast
qed (auto simp: group_step_cases group_has_def)

lemma group_fold_has: "group_has (fold group_step js m) n x \<longleftrightarrow> x \<in> set js \<and> n = tj_nonce x \<or> group_has m n x"
  by (induction js arbitrary: m) (auto simp: group_step_has)

text \<open>Every job is in the group of its nonce, and a group holds only jobs of its nonce.\<close>

lemma group_nonces_has: "group_has (group_nonces js) n x \<longleftrightarrow> x \<in> set js \<and> n = tj_nonce x"
  by (simp add: group_nonces_def group_fold_has) (simp add: group_has_def)

lemma group_member: "(n, l) \<in> set (group_nonces js) \<Longrightarrow> x \<in> set l \<Longrightarrow> x \<in> set js \<and> n = tj_nonce x"
  using group_nonces_has [of js n x] by (force simp: group_has_def)

lemma fold_max_ge: "x \<in> set xs \<or> x = y \<Longrightarrow> x \<le> foldr max xs (y :: int)"
  by (induction xs) auto

lemma fold_max_in: "foldr max xs (y :: int) \<in> insert y (set xs)"
  by (induction xs) (auto simp: max_def)

text \<open>A nonce is reported as a gap exactly when the chain still expects it, some open attempt waits behind it and none holds it.\<close>

lemma detectNonceGaps_spec:
  "n \<in> set (detectNonceGaps minedNonce ns) \<longleftrightarrow> minedNonce \<le> n \<and> n \<notin> set ns \<and> (\<exists>m \<in> set ns. n < m)"
proof (cases ns)
  case (Cons y ys)
  have "n < foldr max ys y \<longleftrightarrow> (\<exists>m \<in> insert y (set ys). n < m)"
    using fold_max_in [of ys y] fold_max_ge [of _ ys y] by (metis insert_iff less_le_trans)
  with Cons show ?thesis by (auto simp: detectNonceGaps_def)
qed (simp add: detectNonceGaps_def)

section \<open>What the reconciler may do to the table\<close>

text \<open>
  The nonce of a row is spent in the eyes of the node: the count of the key is past it, or an
  open attempt at the same nonce of the same key has a receipt.
\<close>

definition same_slot :: "tx_job \<Rightarrow> tx_job \<Rightarrow> bool" where
  "same_slot j k \<longleftrightarrow> tj_network j = tj_network k \<and> tj_fromAddress j = tj_fromAddress k \<and> tj_nonce j = tj_nonce k"

definition nonce_spent :: "recon_chain set \<Rightarrow> tx_store \<Rightarrow> tx_job \<Rightarrow> bool" where
  "nonce_spent C T j \<longleftrightarrow> (\<exists>ch \<in> C.
     (\<exists>a n. lower a = tj_fromAddress j \<and> rv_latest ch a = Inr n \<and> n > tj_nonce j)
     \<or> (\<exists>k r. k \<in> set T \<and> is_open k \<and> same_slot j k \<and> rv_receipt ch (tj_submittedHash k) = Inr r))"

text \<open>
  A row afterwards: as it was; or it was open, a receipt for its own hash was read, and the
  row records that receipt; or it was open and its nonce is spent, and the row is dropped.
\<close>

definition observed :: "recon_chain set \<Rightarrow> tx_store \<Rightarrow> tx_job \<Rightarrow> tx_job \<Rightarrow> bool" where
  "observed C T j j' \<longleftrightarrow> j' = j \<or> is_open j \<and>
     ((\<exists>ch \<in> C. \<exists>r e now. rv_receipt ch (tj_submittedHash j) = Inr r \<and> (rc_success r \<longrightarrow> e = None)
          \<and> j' = apply_patch (receipt_patch r e) now j)
      \<or> nonce_spent C T j \<and> (\<exists>why now. j' = apply_patch (dropped_patch why) now j))"

definition only_observes :: "recon_chain set \<Rightarrow> recon \<Rightarrow> recon \<Rightarrow> bool" where
  "only_observes C s t \<longleftrightarrow> list_all2 (observed C (rs_jobs s)) (rs_jobs s) (rs_jobs t)
     \<and> (\<forall>raw \<in> set (rs_sent t). raw \<in> set (rs_sent s) \<or> (\<exists>j \<in> set (rs_jobs s). is_open j \<and> raw = tj_rawTx j))"

definition terminal_patch :: "tx_patch \<Rightarrow> bool" where
  "terminal_patch p \<longleftrightarrow> (\<exists>st. tp_status p = Some st \<and> st \<notin> set OPEN_TX_STATUSES)"

lemma terminal_patches [simp]: "terminal_patch (dropped_patch why)" "terminal_patch (receipt_patch r e)"
  by (auto simp: terminal_patch_def dropped_patch_def receipt_patch_def status_patch_def mined_patch_def OPEN_TX_STATUSES_def)

lemma terminal_closes: "terminal_patch p \<Longrightarrow> \<not> is_open (apply_patch p now j)"
  by (auto simp: terminal_patch_def is_open_def apply_patch_def)

lemma apply_patch_id [simp]: "tj_id (apply_patch p now j) = tj_id j"
  by (simp add: apply_patch_def)

lemma observed_open: "observed C T j j' \<Longrightarrow> is_open j' \<Longrightarrow> j' = j"
  by (auto simp: observed_def terminal_closes)

lemma observed_id: "observed C T j j' \<Longrightarrow> tj_id j' = tj_id j"
  by (auto simp: observed_def)

lemma only_observes_refl: "only_observes C s s"
  by (auto simp: only_observes_def observed_def intro: list_all2_refl)

lemma only_observes_open:
  assumes "only_observes C s t" and "j \<in> set (rs_jobs t)" and "is_open j"
  shows "j \<in> set (rs_jobs s)"
proof -
  obtain i where i: "i < length (rs_jobs t)" "j = rs_jobs t ! i" using assms(2) by (auto simp: in_set_conv_nth)
  with assms(1) have "observed C (rs_jobs s) (rs_jobs s ! i) j" "i < length (rs_jobs s)"
    by (auto simp: only_observes_def list_all2_conv_all_nth)
  with assms(3) show ?thesis using observed_open by (metis nth_mem)
qed

lemma keeps_finalize:
  assumes "\<And>j. j \<in> set (rs_jobs s0) \<Longrightarrow> tj_id j = i \<Longrightarrow> is_open j \<Longrightarrow> observed C (rs_jobs s0) j (apply_patch p now j)"
  shows "keeps (only_observes C s0) (finalize i p now)"
  unfolding keeps_def
proof (intro allI impI)
  fix s
  assume s: "only_observes C s0 s"
  have "observed C (rs_jobs s0) a (if tj_id b = i \<and> is_open b then apply_patch p now b else b)"
    if "observed C (rs_jobs s0) a b" and "a \<in> set (rs_jobs s0)" for a b
    using observed_open [OF that(1)] observed_id [OF that(1)] assms [of a] that by auto
  with s have "list_all2 (observed C (rs_jobs s0)) (rs_jobs s0)
      (map (\<lambda>j. if tj_id j = i \<and> is_open j then apply_patch p now j else j) (rs_jobs s))"
    unfolding only_observes_def list_all2_conv_all_nth by auto
  with s show "wp (finalize i p now) (\<lambda>_. only_observes C s0) (\<lambda>_. only_observes C s0) s"
    by (simp add: wp_def finalize_def only_observes_def)
qed

lemma only_observes_jobs: "only_observes C s0 s \<Longrightarrow> rs_jobs t = rs_jobs s \<Longrightarrow> rs_sent t = rs_sent s \<Longrightarrow> only_observes C s0 t"
  by (simp add: only_observes_def)

text \<open>The open rows of one nonce of one key, as the pass holds them.\<close>

definition attempts_of :: "recon \<Rightarrow> tx_job list \<Rightarrow> bool" where
  "attempts_of s0 as \<longleftrightarrow> set as \<subseteq> {j \<in> set (rs_jobs s0). is_open j} \<and> (\<forall>a \<in> set as. \<forall>b \<in> set as. same_slot a b)"

lemma row_unique: "store_ok t \<Longrightarrow> a \<in> set t \<Longrightarrow> b \<in> set t \<Longrightarrow> tj_id a = tj_id b \<Longrightarrow> a = b"
  unfolding store_ok_def by (metis distinct_map inj_on_eq_iff)

lemma observed_receipt:
  "is_open j \<Longrightarrow> ch \<in> C \<Longrightarrow> rv_receipt ch (tj_submittedHash j) = Inr r \<Longrightarrow> (rc_success r \<Longrightarrow> e = None)
     \<Longrightarrow> observed C T j (apply_patch (receipt_patch r e) now j)"
  unfolding observed_def by blast

lemma observed_drop: "is_open j \<Longrightarrow> nonce_spent C T j \<Longrightarrow> observed C T j (apply_patch (dropped_patch why) now j)"
  unfolding observed_def by blast

lemma keeps_drop:
  assumes "store_ok (rs_jobs s0)" and "a \<in> set (rs_jobs s0)" and "nonce_spent C (rs_jobs s0) a"
  shows "keeps (only_observes C s0) (finalize (tj_id a) (dropped_patch why) now)"
  by (rule keeps_finalize) (use assms(3) row_unique [OF assms(1,2)] in \<open>metis observed_drop\<close>)

lemma keeps_receipt:
  assumes "store_ok (rs_jobs s0)" and "a \<in> set (rs_jobs s0)" and "ch \<in> C"
    and "rv_receipt ch (tj_submittedHash a) = Inr r" and "rc_success r \<Longrightarrow> e = None"
  shows "keeps (only_observes C s0) (finalize (tj_id a) (receipt_patch r e) now)"
  by (rule keeps_finalize) (use assms(3-5) row_unique [OF assms(1,2)] in \<open>metis observed_receipt\<close>)

lemma keeps_resolve_mined:
  assumes "store_ok (rs_jobs s0)" and "ch \<in> C" and "attempts_of s0 as" and "set rest \<subseteq> set as"
  shows "keeps (only_observes C s0) (resolve_mined decodeError ch as rest)"
  using assms(4)
proof (induction rest)
  case (Cons a rest)
  have a: "a \<in> set (rs_jobs s0)" "is_open a" using Cons.prems assms(3) by (auto simp: attempts_of_def)
  show ?case
    unfolding resolve_mined.simps
  proof (rule keeps_bind_value [where P = "\<lambda>r. \<forall>x. r = Some x \<longrightarrow> rv_receipt ch (tj_submittedHash a) = Inr x"])
    show "wp (receiptOf ch (tj_submittedHash a)) (\<lambda>r t. only_observes C s0 t
        \<and> (\<forall>x. r = Some x \<longrightarrow> rv_receipt ch (tj_submittedHash a) = Inr x)) (\<lambda>_. only_observes C s0) s"
      if "only_observes C s0 s" for s
      using that by (auto simp: receiptOf_def act_wp split: sum.splits)
    fix r :: "tx_receipt option"
    assume r: "\<forall>x. r = Some x \<longrightarrow> rv_receipt ch (tj_submittedHash a) = Inr x"
    have spent: "nonce_spent C (rs_jobs s0) b" if "r = Some x" "b \<in> set as" for x b
    proof -
      have "same_slot b a" using that(2) assms(3) Cons.prems by (auto simp: attempts_of_def)
      with that r a assms(2) show ?thesis unfolding nonce_spent_def by blast
    qed
    show "keeps (only_observes C s0) (case r of None \<Rightarrow> resolve_mined decodeError ch as rest
       | Some receipt \<Rightarrow> let error = (if rc_success receipt then None
                      else Some (reason_text (reconRevertReason decodeError ch a (rc_blockNumber receipt))))
         in act_then (finalize (tj_id a) (receipt_patch receipt error) (rv_dbNow ch))
           (act_then (act_each (\<lambda>other. act_when (tj_id other \<noteq> tj_id a)
                (act_then (finalize (tj_id other) (dropped_patch ''superseded at the same nonce'') (rv_dbNow ch)) (act_ret ())))
                as)
              (act_ret (Some (if rc_success receipt then Out_confirmed else Out_reverted)))))"
      unfolding Let_def
      by (intro act_keeps keeps_receipt [OF assms(1) a(1) assms(2)] keeps_drop [OF assms(1)] spent)
        (use Cons r a assms(3) in \<open>auto simp: attempts_of_def\<close>)
  qed
qed (simp add: keeps_ret)

lemma keeps_send:
  assumes "raw \<in> tj_rawTx ` {j \<in> set (rs_jobs s0). is_open j}"
  shows "keeps (only_observes C s0) (reconSend ch raw)"
  using assms by (auto simp: keeps_def wp_def reconSend_def only_observes_def split: option.splits)

lemma keeps_resolveNonce:
  assumes "store_ok (rs_jobs s0)" and "ch \<in> C" and "attempts_of s0 as" and "as \<noteq> []"
    and "\<And>a. a \<in> set as \<Longrightarrow> tj_nonce a = nonce \<and> tj_fromAddress a = lower addr" and "rv_latest ch addr = Inr mined"
  shows "keeps (only_observes C s0) (resolveNonce decodeError ch nonce as mined stuckAfter report)"
proof -
  have spent: "nonce_spent C (rs_jobs s0) a" if "mined > nonce" "a \<in> set as" for a
    using that assms(2,5,6) by (auto simp: nonce_spent_def)
  have mem: "keeps (only_observes C s0) (reconInMempool ch h)" for h by (simp add: reconInMempool_def keeps_lift)
  have newest: "tj_rawTx (last as) \<in> tj_rawTx ` {j \<in> set (rs_jobs s0). is_open j}"
    using assms(3) last_in_set [OF assms(4)] by (intro imageI) (auto simp: attempts_of_def)
  show ?thesis
    unfolding resolveNonce_def Let_def
    by (intro act_keeps keeps_resolve_mined keeps_drop spent mem keeps_send newest)
      (use assms in \<open>auto simp: attempts_of_def\<close>)
qed

text \<open>Groups as \<open>resolve_all\<close> gets them: non-empty, each the open rows of its nonce.\<close>

definition groups_of :: "recon \<Rightarrow> address \<Rightarrow> (int \<times> tx_job list) list \<Rightarrow> bool" where
  "groups_of s0 addr gs \<longleftrightarrow> (\<forall>(n, as) \<in> set gs. as \<noteq> [] \<and> attempts_of s0 as
     \<and> (\<forall>a \<in> set as. tj_nonce a = n \<and> tj_fromAddress a = lower addr))"

lemma keeps_inc: "keeps (only_observes C s0) (act_mod (\<lambda>s. s\<lparr>rs_metrics := f s\<rparr>))"
  by (rule keeps_mod) (auto elim: only_observes_jobs)

lemma keeps_resolve_all:
  assumes "store_ok (rs_jobs s0)" and "ch \<in> C" and "rv_latest ch addr = Inr mined" and "groups_of s0 addr gs"
  shows "keeps (only_observes C s0) (resolve_all decodeError ch mined stuckAfter gs report)"
  using assms(4)
proof (induction gs arbitrary: report)
  case (Cons g gs)
  obtain n as where g: "g = (n, as)" by (cases g)
  have "keeps (only_observes C s0) (resolveNonce decodeError ch n as mined stuckAfter report)"
    by (rule keeps_resolveNonce [OF assms(1,2) _ _ _ assms(3)]) (use Cons.prems g in \<open>auto simp: groups_of_def\<close>)
  moreover have "groups_of s0 addr gs" using Cons.prems by (simp add: groups_of_def)
  ultimately show ?case
    unfolding g resolve_all.simps by (auto intro!: act_keeps keeps_inc Cons.IH split: prod.splits)
qed (simp add: keeps_ret)

lemma group_step_nonempty: "(\<forall>g \<in> set m. snd g \<noteq> []) \<Longrightarrow> (\<forall>g \<in> set (group_step j m). snd g \<noteq> [])"
  by (auto simp: group_step_cases)

lemma group_nonces_nonempty: "g \<in> set (group_nonces js) \<Longrightarrow> snd g \<noteq> []"
proof -
  have "\<forall>g \<in> set (fold group_step js m). snd g \<noteq> []" if "\<forall>g \<in> set m. snd g \<noteq> []" for m
    using that
  proof (induction js arbitrary: m)
    case (Cons j js)
    show ?case unfolding fold_simps o_apply by (rule Cons.IH [OF group_step_nonempty [OF Cons.prems]])
  qed simp
  from this [of "[]"] show "g \<in> set (group_nonces js) \<Longrightarrow> ?thesis" by (simp add: group_nonces_def)
qed

lemma groups_of_open:
  assumes "only_observes C s0 s" and "js = openJobsFor network addr (rs_jobs s)"
  shows "groups_of s0 addr (js_sort by_group_nonce (group_nonces js))"
  unfolding groups_of_def
proof (clarsimp, intro conjI)
  fix n as
  assume g: "(n, as) \<in> set (group_nonces js)"
  show "as \<noteq> []" using group_nonces_nonempty [OF g] by simp
  have row: "a \<in> set (rs_jobs s0) \<and> is_open a \<and> tj_network a = network \<and> tj_fromAddress a = lower addr \<and> tj_nonce a = n"
    if "a \<in> set as" for a
    using group_member [OF g that] only_observes_open [OF assms(1)] assms(2) by (auto simp: openJobsFor_def)
  then show "attempts_of s0 as" by (auto simp: attempts_of_def same_slot_def)
  show "\<forall>a \<in> set as. tj_nonce a = n \<and> tj_fromAddress a = lower addr" using row by simp
qed

lemma keeps_reconcileKey:
  assumes "store_ok (rs_jobs s0)" and "ch \<in> C"
  shows "keeps (only_observes C s0) (reconcileKey decodeError network stuckAfter ch key)"
  unfolding reconcileKey_def
proof (rule keeps_bind_value [where P = "\<lambda>jobs. groups_of s0 (fst key) (js_sort by_group_nonce (group_nonces jobs))"])
  show "wp (act_get (\<lambda>s. openJobsFor network (fst key) (rs_jobs s)))
     (\<lambda>jobs t. only_observes C s0 t \<and> groups_of s0 (fst key) (js_sort by_group_nonce (group_nonces jobs)))
     (\<lambda>_. only_observes C s0) s" if "only_observes C s0 s" for s
    using that groups_of_open [OF that refl] by (simp add: wp_get)
  fix jobs
  assume gs: "groups_of s0 (fst key) (js_sort by_group_nonce (group_nonces jobs))"
  have latest: "wp (act_lift (rv_latest ch (fst key))) (\<lambda>n t. only_observes C s0 t \<and> rv_latest ch (fst key) = Inr n)
      (\<lambda>_. only_observes C s0) s" if "only_observes C s0 s" for s
    using that by (simp add: wp_lift split: sum.splits)
  show "keeps (only_observes C s0) (if jobs = [] then act_ret (new_report key)
       else act_bind (act_lift (rv_latest ch (fst key))) (\<lambda>minedNonce.
         let groups = group_nonces jobs in
         act_bind (resolve_all decodeError ch minedNonce stuckAfter (js_sort by_group_nonce groups)
             ((new_report key)\<lparr>kr_minedNonce := minedNonce\<rparr>)) (\<lambda>report.
         let gaps = detectNonceGaps minedNonce (map fst groups) in
         act_then (act_mod (\<lambda>s. if gaps \<noteq> []
             then s\<lparr>rs_metrics := inc ''reconciler_nonce_gaps_total'' (int (length gaps)) (rs_metrics s)\<rparr> else s))
           (act_ret (report\<lparr>kr_nonceGaps := gaps\<rparr>)))))"
    unfolding Let_def
    by (intro keeps_if keeps_ret keeps_bind_value [OF latest] keeps_then keeps_bind keeps_mod
        keeps_resolve_all [OF assms _ gs]) (auto elim: only_observes_jobs)
qed

section \<open>A spent nonce is drained\<close>

definition closed_job :: "string \<Rightarrow> recon \<Rightarrow> bool" where
  "closed_job i s \<longleftrightarrow> (\<forall>j \<in> set (rs_jobs s). tj_id j = i \<longrightarrow> \<not> is_open j)"

lemma wp_finalize: "wp (finalize i p now) Q E s = Q (list_ex (\<lambda>j. tj_id j = i \<and> is_open j) (rs_jobs s)) (snd (finalize i p now s))"
  by (simp add: wp_def finalize_def)

lemma closed_finalize: "terminal_patch p \<Longrightarrow> closed_job i (snd (finalize i p now s))"
  by (simp add: closed_job_def finalize_def terminal_closes image_Un ball_Un)

lemma keeps_closed_finalize: "terminal_patch p \<Longrightarrow> keeps (closed_job i) (finalize k p now)"
  by (simp add: keeps_def wp_final closed_job_def finalize_def terminal_closes ball_Un)

lemma keeps_closed_mod: "(\<And>s. rs_jobs (f s) = rs_jobs s) \<Longrightarrow> keeps (closed_job i) (act_mod f)"
  by (rule keeps_mod) (simp add: closed_job_def)

lemma keeps_closed_send: "keeps (closed_job i) (reconSend ch raw)"
  by (simp add: keeps_def wp_final reconSend_def closed_job_def)

lemmas closed_intros = act_keeps keeps_closed_finalize keeps_closed_mod keeps_closed_send terminal_patches

lemma keeps_closed_mined: "keeps (closed_job i) (resolve_mined decodeError ch as rest)"
proof (induction rest)
  case (Cons a rest)
  show ?case unfolding resolve_mined.simps receiptOf_def Let_def by (intro closed_intros Cons)
qed (simp add: keeps_ret)

lemma keeps_closed_resolve: "keeps (closed_job i) (resolveNonce decodeError ch nonce as mined stuckAfter report)"
  unfolding resolveNonce_def Let_def reconInMempool_def by (intro closed_intros keeps_closed_mined)

lemma wp_drop_each:
  assumes "\<And>a :: tx_job. a \<in> set as \<Longrightarrow> P a \<or> closed_job (tj_id a) s" and "\<And>a. terminal_patch (p a)"
  shows "wp (act_each (\<lambda>a. act_when (P a) (act_then (finalize (tj_id a) (p a) now) (act_ret ()))) as)
     (\<lambda>_ t. \<forall>a \<in> set as. closed_job (tj_id a) t) E s"
proof -
  let ?I = "\<lambda>t. \<forall>a :: tx_job. closed_job (tj_id a) s \<longrightarrow> closed_job (tj_id a) t"
  show ?thesis
  proof (rule wp_each_all [where I = ?I and P = "\<lambda>a :: tx_job. closed_job (tj_id a)"])
    fix a :: tx_job and t
    assume a: "a \<in> set as" and t: "?I t"
    let ?u = "snd (finalize (tj_id a) (p a) now t)"
    have keep: "closed_job i t \<Longrightarrow> closed_job i ?u" for i using keepsD [OF keeps_closed_finalize [OF assms(2)]] .
    have shut: "closed_job (tj_id a) ?u" using assms(2) by (rule closed_finalize)
    show "wp (act_when (P a) (act_then (finalize (tj_id a) (p a) now) (act_ret ())))
        (\<lambda>_ u. ?I u \<and> closed_job (tj_id a) u \<and> (\<forall>y :: tx_job. closed_job (tj_id y) t \<longrightarrow> closed_job (tj_id y) u)) E t"
      using a t assms(1) keep shut by (auto simp: act_wp wp_finalize)
  qed auto
qed

lemma wp_mined_closes:
  "wp (resolve_mined decodeError ch as rest) (\<lambda>r t. r \<noteq> None \<longrightarrow> (\<forall>a \<in> set as. closed_job (tj_id a) t)) (\<lambda>_ _. True) s"
proof (induction rest arbitrary: s)
  case (Cons a rest)
  have drop: "wp (act_each (\<lambda>other. act_when (tj_id other \<noteq> tj_id a)
        (act_then (finalize (tj_id other) (dropped_patch ''superseded at the same nonce'') (rv_dbNow ch)) (act_ret ()))) as)
      (\<lambda>_ t. \<forall>a \<in> set as. closed_job (tj_id a) t) (\<lambda>_ _. True) (snd (finalize (tj_id a) (receipt_patch r e) now s))" for r e now
    by (rule wp_drop_each) (auto intro: closed_finalize)
  show ?case
    unfolding resolve_mined.simps receiptOf_def
    by (simp add: act_wp wp_finalize Let_def split: sum.splits) (use drop Cons in auto)
qed (simp add: act_wp)

lemma wp_resolve_closes:
  "wp (resolveNonce decodeError ch nonce as mined stuckAfter report)
     (\<lambda>_ t. nonce < mined \<longrightarrow> (\<forall>a \<in> set as. closed_job (tj_id a) t)) (\<lambda>_ _. True) s"
proof -
  have drop: "wp (act_each (\<lambda>a. act_then (finalize (tj_id a)
      (dropped_patch ''nonce consumed by a transaction this key did not record'') (rv_dbNow ch)) (act_ret ())) as)
      (\<lambda>_ t. \<forall>a \<in> set as. closed_job (tj_id a) t) (\<lambda>_ _. True) t" for t
    using wp_drop_each [of as "\<lambda>_. True"] by (simp add: act_when_def)
  have any: "wp m (\<lambda>_ _. True) (\<lambda>_ _. True) t" for m :: "(job_outcome \<times> key_report) recon_act" and t
    by (simp add: wp_any)
  show ?thesis
    unfolding resolveNonce_def wp_bind
    by (rule wp_mono [OF wp_mined_closes]) (auto simp: act_wp any drop split: option.splits)
qed

lemma wp_resolve_mined_nonce:
  "wp (resolveNonce decodeError ch n as mined stuckAfter report)
     (\<lambda>r _. kr_minedNonce (snd r) = kr_minedNonce report) (\<lambda>_ _. True) s"
proof -
  have each: "wp m (\<lambda>_ _. True) (\<lambda>_ _. True) t" for m :: "unit recon_act" and t by (simp add: wp_any)
  have hit: "wp m (\<lambda>_ _. True) (\<lambda>_ _. True) t" for m :: "job_outcome option recon_act" and t by (simp add: wp_any)
  show ?thesis
    unfolding resolveNonce_def wp_bind Let_def
    by (rule wp_mono [OF hit]) (auto simp: act_wp each reconInMempool_def split: option.splits intro!: wp_mono [OF each])
qed

lemma wp_all_closes:
  assumes "\<And>i. i \<in> S \<Longrightarrow> closed_job i s"
  shows "wp (resolve_all decodeError ch mined stuckAfter gs report)
     (\<lambda>r t. (\<forall>i \<in> S. closed_job i t) \<and> (\<forall>n a. group_has gs n a \<longrightarrow> n < mined \<longrightarrow> closed_job (tj_id a) t)
        \<and> kr_minedNonce r = kr_minedNonce report) (\<lambda>_ _. True) s"
  using assms
proof (induction gs arbitrary: s S report)
  case Nil
  then show ?case by (simp add: act_wp group_has_def)
next
  case (Cons g gs)
  obtain n as where g: "g = (n, as)" by (cases g)
  let ?S = "S \<union> (if n < mined then tj_id ` set as else {})"
  have old: "wp (resolveNonce decodeError ch n as mined stuckAfter report)
      (\<lambda>_ t. \<forall>i \<in> S. closed_job i t) (\<lambda>_ _. True) s"
    using keepsD [OF keeps_closed_resolve] Cons.prems by (auto simp: wp_def split: prod.splits sum.splits) (metis snd_conv)
  have same: "wp (resolveNonce decodeError ch n as mined stuckAfter report)
      (\<lambda>r _. kr_minedNonce (snd r) = kr_minedNonce report) (\<lambda>_ _. True) s"
    by (rule wp_resolve_mined_nonce)
  have "wp (resolveNonce decodeError ch n as mined stuckAfter report)
      (\<lambda>r t. (\<forall>i \<in> ?S. closed_job i t) \<and> kr_minedNonce (snd r) = kr_minedNonce report) (\<lambda>_ _. True) s"
    using old same wp_resolve_closes [of decodeError ch n as mined stuckAfter report s]
    by (auto simp: wp_def split: prod.splits sum.splits)
  then show ?case
    unfolding g resolve_all.simps wp_bind
  proof (rule wp_mono)
    fix r :: "job_outcome \<times> key_report" and t
    assume r: "(\<forall>i \<in> ?S. closed_job i t) \<and> kr_minedNonce (snd r) = kr_minedNonce report"
    then have shut: "closed_job i (t\<lparr>rs_metrics := m\<rparr>)" if "i \<in> ?S" for i m using that by (simp add: closed_job_def)
    obtain out rep where out: "r = (out, rep)" by (cases r)
    have has: "group_has ((n, as) # gs) n' a \<longleftrightarrow> n' = n \<and> a \<in> set as \<or> group_has gs n' a" for n' a
      by (auto simp: group_has_def)
    show "wp (case r of (outcome, report') \<Rightarrow> act_then (act_mod (\<lambda>s. s\<lparr>rs_metrics := inc (''reconciler_job_'' @ outcome_text outcome @ ''_total'') 1 (rs_metrics s)\<rparr>))
         (resolve_all decodeError ch mined stuckAfter gs
           (report'\<lparr>kr_outcomes := (kr_outcomes report')(outcome := kr_outcomes report' outcome + 1)\<rparr>)))
      (\<lambda>r t. (\<forall>i \<in> S. closed_job i t) \<and> (\<forall>n' a. group_has ((n, as) # gs) n' a \<longrightarrow> n' < mined \<longrightarrow> closed_job (tj_id a) t)
        \<and> kr_minedNonce r = kr_minedNonce report) (\<lambda>_ _. True) t"
      unfolding out prod.case wp_then wp_mod
      by (rule wp_mono [OF Cons.IH [of ?S, OF shut]]) (use r out in \<open>auto simp: has\<close>)
  qed simp
qed

lemma groups_keys: "set (map fst (group_nonces js)) = tj_nonce ` set js"
proof
  show "set (map fst (group_nonces js)) \<subseteq> tj_nonce ` set js"
  proof
    fix n
    assume "n \<in> set (map fst (group_nonces js))"
    then obtain l where g: "(n, l) \<in> set (group_nonces js)" by auto
    then obtain x where "x \<in> set l" using group_nonces_nonempty [OF g] by (cases l) auto
    with group_member [OF g] show "n \<in> tj_nonce ` set js" by auto
  qed
  show "tj_nonce ` set js \<subseteq> set (map fst (group_nonces js))"
  proof
    fix n
    assume "n \<in> tj_nonce ` set js"
    then obtain x where "x \<in> set js" "n = tj_nonce x" by auto
    then have "group_has (group_nonces js) n x" by (simp add: group_nonces_has)
    then show "n \<in> set (map fst (group_nonces js))" by (auto simp: group_has_def)
  qed
qed

lemma group_has_sort: "group_has (js_sort cmp gs) n a = group_has gs n a"
  by (simp add: group_has_def)

definition drained :: "string \<Rightarrow> address \<Rightarrow> recon \<Rightarrow> key_report \<Rightarrow> recon \<Rightarrow> bool" where
  "drained network addr s report t \<longleftrightarrow> (\<forall>j \<in> set (openJobsFor network addr (rs_jobs t)).
     j \<in> set (openJobsFor network addr (rs_jobs s)) \<and> kr_minedNonce report \<le> tj_nonce j
     \<and> (\<forall>n. kr_minedNonce report \<le> n \<and> n < tj_nonce j \<longrightarrow>
          n \<in> tj_nonce ` set (openJobsFor network addr (rs_jobs s)) \<or> n \<in> set (kr_nonceGaps report)))"

lemma wp_drained:
  assumes ok: "store_ok (rs_jobs s)"
  shows "wp (reconcileKey decodeError network stuckAfter ch key) (drained network (fst key) s) (\<lambda>_ _. True) s"
proof -
  let ?jobs = "openJobsFor network (fst key) (rs_jobs s)" and ?gs = "group_nonces (openJobsFor network (fst key) (rs_jobs s))"
  have main: "wp (resolve_all decodeError ch mined stuckAfter (js_sort by_group_nonce ?gs) ((new_report key)\<lparr>kr_minedNonce := mined\<rparr>))
      (\<lambda>r t. drained network (fst key) s (r\<lparr>kr_nonceGaps := detectNonceGaps mined (map fst ?gs)\<rparr>) t) (\<lambda>_ _. True) s"
    if mined: "rv_latest ch (fst key) = Inr mined" for mined
  proof -
    let ?m = "resolve_all decodeError ch mined stuckAfter (js_sort by_group_nonce ?gs) ((new_report key)\<lparr>kr_minedNonce := mined\<rparr>)"
    have keep: "only_observes {ch} s (snd (?m s))"
      by (rule keepsD [OF keeps_resolve_all [OF ok _ mined groups_of_open [OF only_observes_refl refl]] only_observes_refl]) simp
    have close: "wp ?m (\<lambda>r t. (\<forall>i \<in> {}. closed_job i t) \<and> (\<forall>n a. group_has (js_sort by_group_nonce ?gs) n a \<longrightarrow> n < mined \<longrightarrow> closed_job (tj_id a) t)
        \<and> kr_minedNonce r = kr_minedNonce ((new_report key)\<lparr>kr_minedNonce := mined\<rparr>)) (\<lambda>_ _. True) s"
      by (rule wp_all_closes) simp
    have "drained network (fst key) s (r\<lparr>kr_nonceGaps := detectNonceGaps mined (map fst ?gs)\<rparr>) t"
      if r: "?m s = (Inr r, t)" for r t
      unfolding drained_def
    proof (intro ballI conjI allI impI)
      have obs: "only_observes {ch} s t" using keep r by simp
      have shut: "tj_nonce a < mined \<Longrightarrow> a \<in> set ?jobs \<Longrightarrow> closed_job (tj_id a) t" for a
        using wp_value [OF close r] by (auto simp: group_has_sort group_nonces_has)
      have min: "kr_minedNonce r = mined" using wp_value [OF close r] by simp
      fix j
      assume j: "j \<in> set (openJobsFor network (fst key) (rs_jobs t))"
      then show old: "j \<in> set ?jobs" using only_observes_open [OF obs] by (auto simp: openJobsFor_def)
      show "kr_minedNonce (r\<lparr>kr_nonceGaps := detectNonceGaps mined (map fst ?gs)\<rparr>) \<le> tj_nonce j"
        using shut [OF _ old] j min by (force simp: openJobsFor_def closed_job_def)
      fix n
      assume "kr_minedNonce (r\<lparr>kr_nonceGaps := detectNonceGaps mined (map fst ?gs)\<rparr>) \<le> n \<and> n < tj_nonce j"
      then show "n \<in> tj_nonce ` set ?jobs \<or> n \<in> set (kr_nonceGaps (r\<lparr>kr_nonceGaps := detectNonceGaps mined (map fst ?gs)\<rparr>))"
        using old min by (auto simp: detectNonceGaps_spec groups_keys simp del: set_map)
    qed
    then show ?thesis by (auto simp: wp_def split: prod.splits sum.splits)
  qed
  have metrics: "drained network a s r (t\<lparr>rs_metrics := x\<rparr>) = drained network a s r t" for a r t x
    by (simp add: drained_def)
  show ?thesis
    unfolding reconcileKey_def
    by (auto simp: act_wp Let_def metrics drained_def [of _ _ _ "new_report key"] split: sum.splits
        intro!: wp_mono [OF main])
qed


definition not_found_fault :: keeper_fault where
  "not_found_fault = \<lparr>cf_name = ''TransactionNotFoundError'', cf_message = ''not found'', cf_details = None, kf_shortMessage = None\<rparr>"

text \<open>A node on which one hash is mined, nothing is in the mempool and the count is given.\<close>

definition sample_chain :: "hex \<Rightarrow> int \<Rightarrow> recon_chain" where
  "sample_chain mined n = \<lparr>rv_latest = (\<lambda>_. Inr n),
     rv_receipt = (\<lambda>h. if h = mined then Inr \<lparr>rc_hash = h, rc_success = True, rc_gasUsed = 9, rc_effectiveGasPrice = 2, rc_blockNumber = 3\<rparr>
                       else Inl not_found_fault),
     rv_call = (\<lambda>_ _. None), rv_tx = (\<lambda>_. Some not_found_fault), rv_send = (\<lambda>_. None), rv_now = (\<lambda>_. 0), rv_dbNow = 0\<rparr>"

definition sample_recon :: recon where
  "sample_recon = \<lparr>rs_jobs = [gap_job, gap_job\<lparr>tj_id := ''job1'', tj_nonce := 2, tj_submittedHash := ''h2''\<rparr>],
     rs_metrics = new_metrics, rs_sent = []\<rparr>"

definition sample_pass :: "(keeper_fault + key_report) \<times> recon" where
  "sample_pass = reconcileKey (\<lambda>_. None) ''arc'' 60000 (sample_chain (tj_submittedHash gap_job) 1) (''0xa'', ''svc'') sample_recon"


end
