(* ===== verification/Reconciler.thy ===== *)
theory Reconciler
  imports Reconciler_Jobs Matcher_Book
begin

text \<open>
  The reconciler's tick: the scan for fills left pending, \<open>client/lib/reconciler/fills.ts\<close>, and
  \<open>reconcileOnce\<close>, \<open>client/lib/reconciler/index.ts\<close>, which drains every key, re-derives the gas
  roll-up and scans.

  The fill table is read only: the indexer and the matcher write it. A row of it has the block the
  indexer gave it beside the columns the matcher uses. Rows of equal age keep the order of the
  table. The clock is read once for the cut-off and once for the ages.
\<close>

section \<open>Unaccounted fills\<close>

record indexed_fill = fill_row +
  fl_blockNumber :: "int option"

datatype mismatch_kind = Indexer_lag | Not_in_receipt | Batch_failed | Never_submitted

fun kind_text :: "mismatch_kind \<Rightarrow> string" where
  "kind_text Indexer_lag = ''indexer-lag''"
| "kind_text Not_in_receipt = ''not-in-receipt''"
| "kind_text Batch_failed = ''batch-failed''"
| "kind_text Never_submitted = ''never-submitted''"

record fill_mismatch =
  mm_fillId :: hex
  mm_marketId :: int
  mm_kind :: mismatch_kind
  mm_txJobId :: "string option"
  mm_jobStatus :: "tx_status option"
  mm_jobBlockNumber :: "int option"
  mm_ageMs :: int

definition DEFAULT_MIN_AGE_MS :: int where "DEFAULT_MIN_AGE_MS = 120000"
definition DEFAULT_MAX_ROWS :: nat where "DEFAULT_MAX_ROWS = 500"

text \<open>\<open>MAX\<close> over the rows that have a block; null when there is none.\<close>

definition indexerHighWater :: "string \<Rightarrow> indexed_fill list \<Rightarrow> int option" where
  "indexerHighWater network fs =
     (case List.map_filter fl_blockNumber (filter (\<lambda>f. fl_network f = network) fs) of
        [] \<Rightarrow> None | b # bs \<Rightarrow> Some (foldr max bs b))"

text \<open>\<open>LEFT JOIN "TxJob"\<close> on the id.\<close>

definition job_of :: "tx_store \<Rightarrow> indexed_fill \<Rightarrow> tx_job option" where
  "job_of jobs f = (case fl_txJobId f of None \<Rightarrow> None | Some i \<Rightarrow> job_row jobs i)"

definition unaccounted :: "string \<Rightarrow> int \<Rightarrow> tx_store \<Rightarrow> indexed_fill \<Rightarrow> bool" where
  "unaccounted network cutoff jobs f \<longleftrightarrow> fl_network f = network \<and> fl_status f = PENDING \<and> fl_createdAt f < cutoff
     \<and> (case job_of jobs f of None \<Rightarrow> True | Some j \<Rightarrow> tj_status j \<notin> {Pending, Submitted, Replaced})"

definition by_fill_age :: "indexed_fill \<Rightarrow> indexed_fill \<Rightarrow> int" where
  "by_fill_age a b = fl_createdAt a - fl_createdAt b"

definition mismatch_of :: "int option \<Rightarrow> int \<Rightarrow> tx_store \<Rightarrow> indexed_fill \<Rightarrow> fill_mismatch" where
  "mismatch_of highWater now jobs f =
     (let job = job_of jobs f; block = Option.bind job tj_blockNumber
      in \<lparr>mm_fillId = fl_fillId f, mm_marketId = fl_marketId f,
          mm_kind = (case job of None \<Rightarrow> Never_submitted
                     | Some j \<Rightarrow> if tj_status j \<noteq> Confirmed then Batch_failed
                       else case (block, highWater) of
                              (Some b, Some h) \<Rightarrow> if h \<ge> b then Not_in_receipt else Indexer_lag
                            | _ \<Rightarrow> Indexer_lag),
          mm_txJobId = fl_txJobId f, mm_jobStatus = map_option tj_status job, mm_jobBlockNumber = block,
          mm_ageMs = now - fl_createdAt f\<rparr>)"

definition mismatches :: "string \<Rightarrow> int \<Rightarrow> nat \<Rightarrow> int \<Rightarrow> int \<Rightarrow> tx_store \<Rightarrow> indexed_fill list \<Rightarrow> fill_mismatch list" where
  "mismatches network minAge maxRows now ageNow jobs fs =
     map (mismatch_of (indexerHighWater network fs) ageNow jobs)
       (take maxRows (js_sort by_fill_age (filter (unaccounted network (now - minAge) jobs) fs)))"

section \<open>State\<close>

record recon_world =
  rw_recon :: recon
  rw_fills :: "indexed_fill list"
  rw_gas :: "gas_row list"
  rw_actions :: action_table

type_synonym 'a world_act = "(recon_world, keeper_fault, 'a) act"

definition on_recon :: "'a recon_act \<Rightarrow> 'a world_act" where
  "on_recon m = (\<lambda>w. case m (rw_recon w) of (r, s) \<Rightarrow> (r, w\<lparr>rw_recon := s\<rparr>))"

definition on_metrics :: "(metrics \<Rightarrow> metrics) \<Rightarrow> unit world_act" where
  "on_metrics f = on_recon (act_mod (\<lambda>s. s\<lparr>rs_metrics := f (rs_metrics s)\<rparr>))"

fun kind_metric :: "mismatch_kind \<Rightarrow> string" where
  "kind_metric Indexer_lag = ''reconciler_fill_indexer_lag_total''"
| "kind_metric Not_in_receipt = ''reconciler_fill_not_in_receipt_total''"
| "kind_metric Batch_failed = ''reconciler_fill_batch_failed_total''"
| "kind_metric Never_submitted = ''reconciler_fill_never_submitted_total''"

definition opt_json :: "('a \<Rightarrow> json) \<Rightarrow> 'a option \<Rightarrow> json" where
  "opt_json f x = (case x of None \<Rightarrow> JNull | Some v \<Rightarrow> f v)"

fun status_text :: "tx_status \<Rightarrow> string" where
  "status_text Pending = ''PENDING''"
| "status_text Submitted = ''SUBMITTED''"
| "status_text Replaced = ''REPLACED''"
| "status_text Confirmed = ''CONFIRMED''"
| "status_text Reverted = ''REVERTED''"
| "status_text Dropped = ''DROPPED''"
| "status_text Failed = ''FAILED''"

definition mismatch_json :: "fill_mismatch \<Rightarrow> json" where
  "mismatch_json m = JObj [(''fillId'', JStr (mm_fillId m)), (''marketId'', JNum (mm_marketId m)),
     (''txJobId'', opt_json JStr (mm_txJobId m)), (''jobStatus'', opt_json (\<lambda>s. JStr (status_text s)) (mm_jobStatus m)),
     (''ageMs'', JNum (mm_ageMs m))]"

definition mismatch_action :: "mismatch_kind \<Rightarrow> fill_mismatch list \<Rightarrow> action_input" where
  "mismatch_action k ms = \<lparr>ai_kind = ''reconcile.fill_mismatch'', ai_marketId = None, ai_account = None,
     ai_payload = JObj [(''mismatchKind'', JStr (kind_text k)), (''count'', JNum (int (length ms))),
        (''fills'', JArr (map mismatch_json (take 100 ms))),
        (''note'', JStr ''reported only; the reconciler never re-sends a settlement batch'')],
     ai_status = Some Skipped, ai_txJobId = None\<rparr>"

definition report_kind :: "string \<Rightarrow> fill_mismatch list \<Rightarrow> mismatch_kind \<Rightarrow> unit world_act" where
  "report_kind network ms k =
     (let of_kind = filter (\<lambda>m. mm_kind m = k) ms in
      act_when (of_kind \<noteq> [])
        (act_then (on_metrics (inc (kind_metric k) (int (length of_kind))))
           (act_when (k \<noteq> Indexer_lag)
              (act_mod (\<lambda>w. w\<lparr>rw_actions := snd (action_record network (mismatch_action k of_kind) (rw_actions w))\<rparr>)))))"

definition scanUnaccountedFills :: "string \<Rightarrow> int \<Rightarrow> nat \<Rightarrow> int \<Rightarrow> int \<Rightarrow> fill_mismatch list world_act" where
  "scanUnaccountedFills network minAge maxRows now ageNow =
     act_bind (act_get (\<lambda>w. mismatches network minAge maxRows now ageNow (rs_jobs (rw_recon w)) (rw_fills w))) (\<lambda>ms.
       act_then (act_each (report_kind network ms) [Indexer_lag, Not_in_receipt, Batch_failed, Never_submitted])
         (act_ret ms))"

section \<open>The tick\<close>

record recon_options =
  ro_network :: string
  ro_stuckAfterMs :: "int option"
  ro_fillMinAgeMs :: "int option"

text \<open>The node's answers per key, the \<open>k\<close>-th of the pass.\<close>

fun reconcile_keys ::
  "error_abi \<Rightarrow> string \<Rightarrow> int \<Rightarrow> (nat \<Rightarrow> recon_chain) \<Rightarrow> nat \<Rightarrow> (address \<times> string) list \<Rightarrow> key_report list world_act" where
  "reconcile_keys decodeError network stuckAfter env k [] = act_ret []"
| "reconcile_keys decodeError network stuckAfter env k (key # keys) =
     act_bind (on_recon (reconcileKey decodeError network stuckAfter (env k) key)) (\<lambda>r.
     act_bind (reconcile_keys decodeError network stuckAfter env (Suc k) keys) (\<lambda>rs. act_ret (r # rs)))"

record tick_report =
  tk_keys :: "key_report list"
  tk_mismatches :: "fill_mismatch list"

definition reconcileOnce ::
  "error_abi \<Rightarrow> recon_options \<Rightarrow> (nat \<Rightarrow> recon_chain) \<Rightarrow> int \<Rightarrow> int \<Rightarrow> int \<Rightarrow> tick_report world_act" where
  "reconcileOnce decodeError opts env gasNow now ageNow =
     act_bind (act_get (\<lambda>w. openKeys (ro_network opts) (rs_jobs (rw_recon w)))) (\<lambda>keys.
     act_bind (reconcile_keys decodeError (ro_network opts)
        (case ro_stuckAfterMs opts of None \<Rightarrow> DEFAULT_STUCK_AFTER_MS | Some m \<Rightarrow> m) env 0 keys) (\<lambda>reports.
     act_then (act_mod (\<lambda>w. w\<lparr>rw_gas := recompute (ro_network opts) (recentUtcDays gasNow) (rs_jobs (rw_recon w)) (rw_gas w)\<rparr>))
    (act_bind (scanUnaccountedFills (ro_network opts)
        (case ro_fillMinAgeMs opts of None \<Rightarrow> DEFAULT_MIN_AGE_MS | Some m \<Rightarrow> m) DEFAULT_MAX_ROWS now ageNow) (\<lambda>ms.
     act_then (on_metrics (\<lambda>m. set_gauge ''reconciler_fill_mismatches'' (int (length ms))
         (set_gauge ''reconciler_keys_with_nonce_gaps'' (int (length (filter (\<lambda>r. kr_nonceGaps r \<noteq> []) reports)))
         (set_gauge ''reconciler_stuck_jobs'' (int (length (concat (map kr_stuck reports))))
         (set_gauge ''reconciler_open_keys'' (int (length keys)) m)))))
       (act_ret \<lparr>tk_keys = reports, tk_mismatches = ms\<rparr>)))))"

section \<open>A tick only observes\<close>

lemma keeps_on_recon: "keeps I m \<Longrightarrow> keeps (\<lambda>w. I (rw_recon w) \<and> rw_fills w = F) (on_recon m)"
  by (auto simp: keeps_def wp_final on_recon_def split: prod.splits)

lemma keeps_world: "(\<And>w. rw_recon (f w) = rw_recon w \<and> rw_fills (f w) = rw_fills w)
    \<Longrightarrow> keeps (\<lambda>w. I (rw_recon w) \<and> rw_fills w = F) (act_mod f)"
  by (rule keeps_mod) simp

lemma keeps_on_metrics: "keeps (\<lambda>w. only_observes C s0 (rw_recon w) \<and> rw_fills w = F) (on_metrics f)"
  unfolding on_metrics_def by (rule keeps_on_recon [OF keeps_inc])

lemma keeps_scan: "keeps (\<lambda>w. only_observes C s0 (rw_recon w) \<and> rw_fills w = F) (scanUnaccountedFills network minAge maxRows now ageNow)"
  unfolding scanUnaccountedFills_def report_kind_def Let_def
  by (intro act_keeps keeps_on_metrics keeps_world) simp

lemma keeps_keys:
  assumes "store_ok (rs_jobs s0)" and "\<And>k. env k \<in> C"
  shows "keeps (\<lambda>w. only_observes C s0 (rw_recon w) \<and> rw_fills w = F) (reconcile_keys decodeError network stuckAfter env k keys)"
  by (induction keys arbitrary: k) (auto intro!: act_keeps keeps_on_recon keeps_reconcileKey assms)

text \<open>
  C20. The reconciler only observes. Whatever the node answers, and also when the tick is cut short
  by an error of the node, every row of the job table is afterwards as it was, or was open and now
  records a receipt read for its own hash, or was open and is dropped because its nonce is
  spent; rows are neither added nor removed. What it sends are bytes of jobs that were open,
  already signed. The fill table is untouched.
\<close>

theorem reconciler_only_observes:
  assumes "store_ok (rs_jobs (rw_recon w))"
  shows "only_observes (range env) (rw_recon w) (rw_recon (snd (reconcileOnce decodeError opts env gasNow now ageNow w)))
    \<and> rw_fills (snd (reconcileOnce decodeError opts env gasNow now ageNow w)) = rw_fills w"
proof -
  let ?I = "\<lambda>u. only_observes (range env) (rw_recon w) (rw_recon u) \<and> rw_fills u = rw_fills w"
  have "keeps ?I (reconcileOnce decodeError opts env gasNow now ageNow)"
    unfolding reconcileOnce_def
    by (intro act_keeps keeps_keys keeps_scan keeps_on_metrics keeps_world assms) simp_all
  then show ?thesis by (rule keepsD) (simp add: only_observes_refl)
qed

definition sample_recon_options :: recon_options where
  "sample_recon_options = \<lparr>ro_network = ''arc'', ro_stuckAfterMs = None, ro_fillMinAgeMs = None\<rparr>"

definition sample_world :: recon_world where
  "sample_world = \<lparr>rw_recon = sample_recon\<lparr>rs_jobs := [gap_job]\<rparr>, rw_fills = [], rw_gas = [], rw_actions = \<lparr>kt_rows = [], kt_nextId = 1\<rparr>\<rparr>"

definition sample_tick :: "(keeper_fault + tick_report) \<times> recon_world" where
  "sample_tick = reconcileOnce (\<lambda>_. None) sample_recon_options (\<lambda>_. sample_chain (tj_submittedHash gap_job) 1) 0 0 0 sample_world"

theorem reconciler_only_observes_witness:
  "only_observes {sample_chain (tj_submittedHash gap_job) 1} (rw_recon sample_world) (rw_recon (snd sample_tick))
   \<and> map tj_status (rs_jobs (rw_recon (snd sample_tick))) = [Confirmed]"
proof -
  have "store_ok (rs_jobs (rw_recon sample_world))"
    by (simp add: store_ok_def sample_world_def sample_recon_def gap_job_def gap_sender_def job_for_def Let_def)
  from reconciler_only_observes [OF this, where env = "\<lambda>_. sample_chain (tj_submittedHash gap_job) 1"
      and decodeError = "\<lambda>_. None" and opts = sample_recon_options and gasNow = 0 and now = 0 and ageNow = 0]
  have "only_observes (range (\<lambda>_ :: nat. sample_chain (tj_submittedHash gap_job) 1)) (rw_recon sample_world) (rw_recon (snd sample_tick))"
    unfolding sample_tick_def by (rule conjunct1)
  moreover have "range (\<lambda>_ :: nat. c) = {c}" for c :: recon_chain by auto
  ultimately have "only_observes {sample_chain (tj_submittedHash gap_job) 1} (rw_recon sample_world) (rw_recon (snd sample_tick))" by simp
  moreover have "map tj_status (rs_jobs (rw_recon (snd sample_tick))) = [Confirmed]" by code_simp
  ultimately show ?thesis by simp
qed

section \<open>The scan is complete up to its limit\<close>

lemma scan_complete:
  assumes "length (filter (unaccounted network (now - minAge) jobs) fs) \<le> maxRows"
  shows "set (mismatches network minAge maxRows now ageNow jobs fs)
     = mismatch_of (indexerHighWater network fs) ageNow jobs ` {f \<in> set fs. unaccounted network (now - minAge) jobs f}"
  using assms by (simp add: mismatches_def)

section \<open>The original of a fee bump that mined\<close>

definition stranded_fill :: indexed_fill where
  "stranded_fill = \<lparr>fl_network = ''arc'', fl_fillId = ''0xf'', fl_status = PENDING, fl_rejectReason = None, fl_marketId = 1,
     fl_maker = ''0x1'', fl_taker = ''0x2'', fl_makerOrderHash = ''0x3'', fl_takerOrderHash = ''0x4'', fl_takerIsBuy = True,
     fl_size = 1, fl_price = 1, fl_txJobId = Some (tj_id gap_job), fl_createdAt = 0, fl_blockNumber = None\<rparr>"

definition bumped_world :: recon_world where
  "bumped_world = sample_world\<lparr>rw_recon := \<lparr>
       rs_jobs = sn_store (snd (Tx_Sender.replace sample_options (sample_wait_view 0) gap_job gap_sender)),
       rs_metrics = new_metrics, rs_sent = []\<rparr>, rw_fills := [stranded_fill]\<rparr>"

definition bumped_tick :: "(keeper_fault + tick_report) \<times> recon_world" where
  "bumped_tick = reconcileOnce (\<lambda>_. None) sample_recon_options (\<lambda>_. sample_chain (tj_submittedHash gap_job) 1)
     0 1000000 1000000 bumped_world"

text \<open>
  A batch that mined before its fee bump is lost. The sender bumped a batch: the row of the original
  is replaced, the bump is open. The original mined, and the node has its receipt. The tick
  reads receipts of open rows only, so it drops the bump as if an unrecorded transaction had used the nonce,
  leaves the original replaced, counts no gas for it, and does not report its pending fill.
\<close>

theorem mined_original_is_not_found:
  "map (\<lambda>j. (tj_submittedHash j = tj_submittedHash gap_job, tj_status j)) (rs_jobs (rw_recon bumped_world))
     = [(True, Replaced), (False, Submitted)]
   \<and> \<not> isl (rv_receipt (sample_chain (tj_submittedHash gap_job) 1) (tj_submittedHash gap_job))
   \<and> map (\<lambda>j. (tj_status j, tj_error j)) (rs_jobs (rw_recon (snd bumped_tick)))
     = [(Replaced, None), (Dropped, Some ''nonce consumed by a transaction this key did not record'')]
   \<and> rw_gas (snd bumped_tick) = []
   \<and> map_sum (\<lambda>_. ()) tk_mismatches (fst bumped_tick) = Inr []"
  by code_simp

end
