(* ===== verification/Oracle_Aggregate.thy ===== *)
theory Oracle_Aggregate
  imports Kryon_Prelude
begin

text \<open>
  One publisher's price for one feed, \<open>client/lib/oracle/aggregate.ts\<close>: the median of the live
  venues, with outliers against a first-pass median dropped and the median taken again.

  What the code throws is a value of \<open>agg_throw\<close>; a failure it returns is one of
  \<open>aggregate_failure\<close>. The main fact is that a minority of venues cannot move the price: if more
  than half of the quotes are in a range, the price is in that range widened by the outlier bound.
\<close>

section \<open>Definitions\<close>

definition BPS_UNIT :: int where "BPS_UNIT = 10000"

datatype agg_throw = Median_of_nothing | Nonpositive_reference

definition median :: "int list \<Rightarrow> agg_throw + int" where
  "median values =
     (if values = [] then Inl Median_of_nothing
      else let s = js_sort cmp3 values; mid = length s div 2
           in Inr (if length s mod 2 = 1 then s ! mid else (s ! (mid - 1) + s ! mid) sdiv 2))"

definition absDiff :: "int \<Rightarrow> int \<Rightarrow> int" where
  "absDiff a b = (if a > b then a - b else b - a)"

definition deviationBps :: "int \<Rightarrow> int \<Rightarrow> agg_throw + int" where
  "deviationBps a ref = (if ref \<le> 0 then Inl Nonpositive_reference else Inr ((absDiff a ref * BPS_UNIT) sdiv ref))"

record source_quote =
  qt_source :: string
  qt_symbol :: string
  qt_price :: int
  qt_ts :: int

record dropped_quote =
  dq_source :: string
  dq_price :: int
  dq_deviationBps :: int

record price_aggregate =
  ag_symbol :: string
  ag_price :: int
  ag_confidence :: int
  ag_used :: "string list"
  ag_dropped :: "dropped_quote list"
  ag_oldestTs :: int

datatype aggregate_failure =
    Insufficient_sources nat nat
  | Disagreement nat nat nat int

record aggregate_options =
  ao_minSources :: nat
  ao_maxSourceDeviationBps :: int

type_synonym aggregate_result = "aggregate_failure + price_aggregate"

text \<open>The loop that splits the quotes: those kept, and those too far from the first median.\<close>

fun split_quotes :: "int \<Rightarrow> int \<Rightarrow> source_quote list \<Rightarrow> agg_throw + (source_quote list \<times> dropped_quote list)" where
  "split_quotes first maxDev [] = Inr ([], [])"
| "split_quotes first maxDev (q # qs) =
     (case deviationBps (qt_price q) first of Inl e \<Rightarrow> Inl e
      | Inr d \<Rightarrow> (case split_quotes first maxDev qs of Inl e \<Rightarrow> Inl e
          | Inr (kept, dropped) \<Rightarrow> Inr (if d > maxDev
              then (kept, \<lparr>dq_source = qt_source q, dq_price = qt_price q, dq_deviationBps = d\<rparr> # dropped)
              else (q # kept, dropped))))"

definition widest :: "int \<Rightarrow> source_quote list \<Rightarrow> int" where
  "widest price kept = fold (\<lambda>q m. let d = absDiff (qt_price q) price in if d > m then d else m) kept 0"

definition aggregate :: "string \<Rightarrow> source_quote list \<Rightarrow> aggregate_options \<Rightarrow> agg_throw + aggregate_result" where
  "aggregate symbol quotes o' =
     (let required = max 2 (ao_minSources o') in
      if length quotes < required then Inr (Inl (Insufficient_sources (length quotes) required))
      else case median (map qt_price quotes) of Inl e \<Rightarrow> Inl e
      | Inr first \<Rightarrow>
        (case split_quotes first (ao_maxSourceDeviationBps o') quotes of Inl e \<Rightarrow> Inl e
         | Inr (kept, dropped) \<Rightarrow>
           if length kept < required
           then let prices = map qt_price quotes; lo = foldr min (tl prices) (hd prices); hi = foldr max (tl prices) (hd prices)
                in (case deviationBps hi lo of Inl e \<Rightarrow> Inl e
                    | Inr spread \<Rightarrow> Inr (Inl (Disagreement (length quotes) (length kept) required spread)))
           else (case median (map qt_price kept) of Inl e \<Rightarrow> Inl e
                 | Inr price \<Rightarrow> Inr (Inr
                     \<lparr>ag_symbol = symbol, ag_price = price, ag_confidence = widest price kept,
                      ag_used = js_sort cmp3 (map qt_source kept), ag_dropped = dropped,
                      ag_oldestTs = foldr min (map qt_ts (tl kept)) (qt_ts (hd kept))\<rparr>))))"

section \<open>The median\<close>

interpretation int_order: comparator "cmp3 :: int \<Rightarrow> int \<Rightarrow> int"
  by unfold_locales auto

lemma sorted_prices: "sorted (js_sort cmp3 (xs :: int list))"
  using int_order.js_sort_sorted [of xs] by simp

lemma length_filter_sort [simp]: "length (filter P (js_sort cmp xs)) = length (filter P xs)"
  by (metis mset_js_sort mset_filter size_mset)

lemma sorted_prefix_below:
  assumes "sorted s" and "i < length s" and "s ! i < (lo :: int)"
  shows "i < length (filter (\<lambda>x. x < lo) s)"
proof -
  have "\<forall>x \<in> set (take (Suc i) s). x < lo"
    using assms by (auto simp: in_set_conv_nth) (metis le_less_trans less_Suc_eq_le sorted_nth_mono)
  then have "Suc i = length (filter (\<lambda>x. x < lo) (take (Suc i) s))" using assms(2) by (simp add: filter_id_conv)
  also have "\<dots> \<le> length (filter (\<lambda>x. x < lo) s)"
    by (metis append_take_drop_id filter_append le_add1 length_append)
  finally show ?thesis by simp
qed

lemma sorted_suffix_above:
  assumes "sorted s" and "i < length s" and "(hi :: int) < s ! i"
  shows "length s - i \<le> length (filter (\<lambda>x. hi < x) s)"
proof -
  have "hi < x" if "x \<in> set (drop i s)" for x
  proof -
    obtain k where "k < length s - i" "x = s ! (i + k)" using \<open>x \<in> set (drop i s)\<close> by (auto simp: in_set_conv_nth)
    with sorted_nth_mono [OF assms(1), of i "i + k"] assms(2,3) show ?thesis by force
  qed
  then have "length s - i = length (filter (\<lambda>x. hi < x) (drop i s))" by (simp add: filter_id_conv)
  also have "\<dots> \<le> length (filter (\<lambda>x. hi < x) s)"
    by (metis append_take_drop_id filter_append le_add2 length_append)
  finally show ?thesis .
qed

lemma half_between: "lo \<le> x \<Longrightarrow> lo \<le> y \<Longrightarrow> x \<le> hi \<Longrightarrow> y \<le> hi \<Longrightarrow> lo \<le> (x + y) sdiv 2 \<and> (x + y) sdiv 2 \<le> hi" for x y lo hi :: int
  by (cases "0 \<le> x + y") (simp_all add: sdiv_nonneg sdiv_nonpos, presburger+)

text \<open>When more than half of the values are in a range, so is the median.\<close>

lemma median_majority:
  assumes m: "median xs = Inr m" and half: "length xs < 2 * length (filter (\<lambda>x. lo \<le> x \<and> x \<le> hi) xs)"
  shows "lo \<le> m \<and> m \<le> hi"
proof -
  define s where "s = js_sort cmp3 xs"
  have len: "length s = length xs" and srt: "sorted s" by (simp_all add: s_def sorted_prices)
  have ne: "xs \<noteq> []" using m by (auto simp: median_def)
  have below: "length (filter (\<lambda>x. lo \<le> x \<and> x \<le> hi) xs) + length (filter (\<lambda>x. x < lo) xs) \<le> length xs"
    by (induction xs) auto
  have above: "length (filter (\<lambda>x. lo \<le> x \<and> x \<le> hi) xs) + length (filter (\<lambda>x. hi < x) xs) \<le> length xs"
    by (induction xs) auto
  have mid: "lo \<le> s ! i \<and> s ! i \<le> hi" if i: "i < length s" "length s \<le> 2 * i + 2" "2 * i \<le> length s" for i
  proof (intro conjI leI notI)
    assume "s ! i < lo"
    from sorted_prefix_below [OF srt i(1) this] below half i show False by (simp add: s_def)
  next
    assume "hi < s ! i"
    from sorted_suffix_above [OF srt i(1) this] above half i show False by (simp add: s_def)
  qed
  have pos: "0 < length s" using ne len by simp
  show ?thesis
  proof (cases "length s mod 2 = 1")
    case True
    then have "m = s ! (length s div 2)" using m ne by (simp add: median_def s_def Let_def)
    moreover have "length s \<le> 2 * (length s div 2) + 2" "2 * (length s div 2) \<le> length s" "length s div 2 < length s"
      using pos by simp_all
    ultimately show ?thesis using mid by simp
  next
    case False
    then have even: "length s = 2 * (length s div 2)" by presburger
    then have m: "m = (s ! (length s div 2 - 1) + s ! (length s div 2)) sdiv 2" using m ne False by (simp add: median_def s_def Let_def)
    have "lo \<le> s ! (length s div 2 - 1) \<and> s ! (length s div 2 - 1) \<le> hi" by (rule mid) (use even pos in linarith)+
    moreover have "lo \<le> s ! (length s div 2) \<and> s ! (length s div 2) \<le> hi" by (rule mid) (use even pos in linarith)+
    ultimately show ?thesis unfolding m by (intro half_between) simp_all
  qed
qed

lemma median_between:
  assumes "median xs = Inr m" and "\<And>x. x \<in> set xs \<Longrightarrow> lo \<le> x \<and> x \<le> hi"
  shows "lo \<le> m \<and> m \<le> hi"
proof (rule median_majority [OF assms(1)])
  have "xs \<noteq> []" using assms(1) by (auto simp: median_def)
  moreover have "filter (\<lambda>x. lo \<le> x \<and> x \<le> hi) xs = xs" using assms(2) by (simp add: filter_id_conv)
  ultimately show "length xs < 2 * length (filter (\<lambda>x. lo \<le> x \<and> x \<le> hi) xs)" by simp
qed

text \<open>A median lies between two of the values.\<close>

lemma median_attained:
  assumes "median xs = Inr m"
  obtains x y where "x \<in> set xs" and "y \<in> set xs" and "x \<le> m" and "m \<le> y"
proof -
  have ne: "xs \<noteq> []" using assms by (auto simp: median_def)
  have "Min (set xs) \<le> m \<and> m \<le> Max (set xs)" by (rule median_between [OF assms]) simp
  moreover have "Min (set xs) \<in> set xs" "Max (set xs) \<in> set xs" using ne by simp_all
  ultimately show ?thesis using that by blast
qed

section \<open>A minority of venues cannot move the price\<close>

lemma absDiff_le: "absDiff a b \<le> d \<longleftrightarrow> a - b \<le> d \<and> b - a \<le> d"
  by (auto simp: absDiff_def)

lemma absDiff_nonneg [simp]: "0 \<le> absDiff a b"
  by (simp add: absDiff_def)

lemma deviation_within:
  assumes "deviationBps a ref = Inr d" and "d \<le> maxDev"
  shows "0 < ref" and "absDiff a ref * BPS_UNIT < (maxDev + 1) * ref"
proof -
  show ref: "0 < ref" using assms(1) by (auto simp: deviationBps_def split: if_splits)
  have "absDiff a ref * BPS_UNIT < (d + 1) * ref"
    using sdiv_mult_gt [of "absDiff a ref * BPS_UNIT" ref] assms(1) ref by (auto simp: deviationBps_def BPS_UNIT_def split: if_splits)
  also have "\<dots> \<le> (maxDev + 1) * ref" using assms(2) ref by (intro mult_right_mono) auto
  finally show "absDiff a ref * BPS_UNIT < (maxDev + 1) * ref" .
qed

lemma split_quotes_kept:
  "split_quotes first maxDev qs = Inr (kept, dropped) \<Longrightarrow> q \<in> set kept
     \<Longrightarrow> q \<in> set qs \<and> (\<exists>d. deviationBps (qt_price q) first = Inr d \<and> d \<le> maxDev)"
  by (induction qs arbitrary: kept dropped) (auto split: sum.splits if_splits)

lemma split_quotes_all:
  "split_quotes first maxDev qs = Inr (kept, dropped) \<Longrightarrow>
     mset (map qt_source qs) = mset (map qt_source kept) + mset (map dq_source dropped)"
  by (induction qs arbitrary: kept dropped) (auto split: sum.splits if_splits)

lemma widest_bounds: "q \<in> set kept \<Longrightarrow> absDiff (qt_price q) price \<le> widest price kept"
proof -
  let ?f = "\<lambda>q m. let d = absDiff (qt_price q) price in if d > m then d else m"
  have grows: "m \<le> fold ?f ks m" for ks m 
  proof (induction ks arbitrary: m)
    case (Cons k ks)
    have "m \<le> ?f k m" by (simp add: Let_def)
    also have "\<dots> \<le> fold ?f ks (?f k m)" by (rule Cons.IH)
    finally show ?case by simp
  qed simp
  have "q \<in> set ks \<Longrightarrow> absDiff (qt_price q) price \<le> fold ?f ks m" for ks m
  proof (induction ks arbitrary: m)
    case (Cons k ks)
    then show ?case using grows [of "?f k m" ks] by (auto simp: Let_def split: if_splits)
  qed simp
  then show "q \<in> set kept \<Longrightarrow> ?thesis" by (simp add: widest_def)
qed

lemma aggregate_parts:
  assumes "aggregate symbol quotes opts = Inr (Inr a)"
  obtains first kept dropped where "median (map qt_price quotes) = Inr first"
    and "split_quotes first (ao_maxSourceDeviationBps opts) quotes = Inr (kept, dropped)"
    and "max 2 (ao_minSources opts) \<le> length kept" and "median (map qt_price kept) = Inr (ag_price a)"
    and "ag_confidence a = widest (ag_price a) kept" and "mset (ag_used a) = mset (map qt_source kept)"
  using assms by (auto simp: aggregate_def Let_def not_less split: if_splits sum.splits prod.splits)

definition agreeing :: "int \<Rightarrow> int \<Rightarrow> source_quote list \<Rightarrow> nat" where
  "agreeing lo hi quotes = length (filter (\<lambda>q. lo \<le> qt_price q \<and> qt_price q \<le> hi) quotes)"

text \<open>
  C27. A minority of venues cannot move the published price. If more than half of the quotes lie between
  \<open>lo\<close> and \<open>hi\<close>, whatever the others say, a price that \<open>aggregate\<close> returns is within that range widened by
  the outlier bound (one basis point more, for the truncating division); it rests on at least two
  venues and at least the configured number; and every venue used is within the confidence of the price.
\<close>

theorem aggregate_resists_minority:
  assumes "aggregate symbol quotes opts = Inr (Inr a)" and "length quotes < 2 * agreeing lo hi quotes"
    and "0 \<le> ao_maxSourceDeviationBps opts" and "ao_maxSourceDeviationBps opts < BPS_UNIT"
  shows "(BPS_UNIT - (ao_maxSourceDeviationBps opts + 1)) * lo \<le> BPS_UNIT * ag_price a
     \<and> BPS_UNIT * ag_price a \<le> (BPS_UNIT + (ao_maxSourceDeviationBps opts + 1)) * hi
     \<and> max 2 (ao_minSources opts) \<le> length (ag_used a)
     \<and> (\<exists>kept. mset (ag_used a) = mset (map qt_source kept) \<and> set kept \<subseteq> set quotes
          \<and> (\<forall>q \<in> set kept. absDiff (qt_price q) (ag_price a) \<le> ag_confidence a))"
proof -
  define D where "D = ao_maxSourceDeviationBps opts + 1"
  obtain first kept dropped where first: "median (map qt_price quotes) = Inr first"
    and kept: "split_quotes first (ao_maxSourceDeviationBps opts) quotes = Inr (kept, dropped)"
    and len: "max 2 (ao_minSources opts) \<le> length kept" and price: "median (map qt_price kept) = Inr (ag_price a)"
    and conf: "ag_confidence a = widest (ag_price a) kept" and used: "mset (ag_used a) = mset (map qt_source kept)"
    using assms(1) by (rule aggregate_parts)
  have range: "lo \<le> first \<and> first \<le> hi"
    by (rule median_majority [OF first]) (use assms(2) in \<open>simp add: agreeing_def filter_map comp_def\<close>)
  have near: "(BPS_UNIT - D) * first \<le> BPS_UNIT * qt_price q \<and> BPS_UNIT * qt_price q \<le> (BPS_UNIT + D) * first" if q: "q \<in> set kept" for q
  proof -
    obtain d where "deviationBps (qt_price q) first = Inr d" "d \<le> ao_maxSourceDeviationBps opts"
      using split_quotes_kept [OF kept q] by blast
    note deviation_within(2) [OF this]
    then show ?thesis by (simp add: D_def absDiff_def algebra_simps BPS_UNIT_def split: if_splits)
  qed
  have mean: "(BPS_UNIT - D) * first \<le> BPS_UNIT * ag_price a \<and> BPS_UNIT * ag_price a \<le> (BPS_UNIT + D) * first"

  proof -
    obtain x y where xy: "x \<in> set kept" "y \<in> set kept" "qt_price x \<le> ag_price a" "ag_price a \<le> qt_price y"
      by (rule median_attained [OF price]) auto
    show ?thesis using near [OF xy(1)] near [OF xy(2)] xy(3,4) by (simp add: BPS_UNIT_def)
  qed
  have "(BPS_UNIT - D) * lo \<le> (BPS_UNIT - D) * first" "(BPS_UNIT + D) * first \<le> (BPS_UNIT + D) * hi"
    using range assms(3,4) by (intro mult_left_mono; simp add: D_def BPS_UNIT_def)+
  moreover have "length (ag_used a) = length kept" using used by (metis length_map size_mset)
  moreover have "set kept \<subseteq> set quotes" using split_quotes_kept [OF kept] by blast
  ultimately show ?thesis using mean len used widest_bounds [of _ kept "ag_price a"] conf unfolding D_def by (auto intro!: exI [of _ kept])
qed

definition sample_quotes :: "source_quote list" where
  "sample_quotes = map (\<lambda>(n, p). \<lparr>qt_source = n, qt_symbol = ''BTC'', qt_price = p, qt_ts = 0\<rparr>)
     [(''binance'', 1000), (''coinbase'', 1001), (''kraken'', 5000)]"

definition sample_aggregate :: price_aggregate where
  "sample_aggregate = \<lparr>ag_symbol = ''BTC'', ag_price = 1000, ag_confidence = 1, ag_used = [''binance'', ''coinbase''],
     ag_dropped = [\<lparr>dq_source = ''kraken'', dq_price = 5000, dq_deviationBps = 39950\<rparr>], ag_oldestTs = 0\<rparr>"

theorem aggregate_resists_minority_witness:
  "aggregate ''BTC'' sample_quotes \<lparr>ao_minSources = 2, ao_maxSourceDeviationBps = 100\<rparr> = Inr (Inr sample_aggregate)
   \<and> 9899 * 1000 \<le> BPS_UNIT * ag_price sample_aggregate \<and> BPS_UNIT * ag_price sample_aggregate \<le> 10101 * 1001"
proof -
  have run: "aggregate ''BTC'' sample_quotes \<lparr>ao_minSources = 2, ao_maxSourceDeviationBps = 100\<rparr> = Inr (Inr sample_aggregate)"
    by code_simp
  have "length sample_quotes < 2 * agreeing 1000 1001 sample_quotes" by code_simp
  from aggregate_resists_minority [OF run this] run show ?thesis by (simp add: BPS_UNIT_def)
qed

end
