(* ===== verification/Oracle_Guards.thy ===== *)
theory Oracle_Guards
  imports Oracle_Aggregate
begin

text \<open>
  Whether to publish, per feed and before gas is spent, \<open>client/lib/oracle/guards.ts\<close>: the local
  guards, the mirror \<open>predictAggregate\<close> of the contract's aggregation, the de-peg halt and the
  decision. The \<open>detail\<close> of a hold is only logged and is left out.
\<close>

section \<open>State read from the chain\<close>

record feed_config =
  fc_listed :: bool
  fc_active :: bool
  fc_minPublishers :: int
  fc_maxSpreadBps :: int
  fc_maxJumpBps :: int
  fc_maxConfidenceBps :: int
  fc_maxAge :: int

record snapshot =
  sp_price :: int
  sp_confidence :: int
  sp_publishTime :: int
  sp_writeTime :: int
  sp_sourceCount :: int

record observation =
  ob_price :: int
  ob_confidence :: int
  ob_publishTime :: int

record reference_state =
  rf_enabled :: bool
  rf_required :: bool
  rf_maxDivergenceBps :: int
  rf_ok :: bool
  rf_price :: int

record feed_state =
  fs_id :: hex
  fs_symbol :: string
  fs_cfg :: feed_config
  fs_snapshot :: snapshot
  fs_observations :: "string \<Rightarrow> observation option"
  fs_reference :: reference_state

section \<open>The mirror of the contract\<close>

definition applyBps :: "int \<Rightarrow> int \<Rightarrow> int" where
  "applyBps amount bps = (amount * bps) sdiv BPS_UNIT"

datatype feed_skip = Skip_quorum | Skip_spread | Skip_jump | Skip_divergence | Skip_reference_unavailable | Skip_not_monotonic

definition ONCHAIN_SKIP_REASONS :: "feed_skip list" where
  "ONCHAIN_SKIP_REASONS = [Skip_quorum, Skip_spread, Skip_jump, Skip_divergence, Skip_reference_unavailable, Skip_not_monotonic]"

datatype prediction =
    Predict_update int nat bool
  | Predict_skip feed_skip "int option" nat

definition MAX_SAFE_INTEGER :: int where "MAX_SAFE_INTEGER = 2 ^ 53 - 1"

text \<open>The loop over the publishers: the live prices in order, and the oldest of their times.\<close>

fun live_prices ::
  "(address \<Rightarrow> observation option) \<Rightarrow> int \<Rightarrow> int \<Rightarrow> address list \<Rightarrow> int list \<Rightarrow> int \<Rightarrow> int list \<times> int" where
  "live_prices look maxAge blockTime [] prices oldest = (prices, oldest)"
| "live_prices look maxAge blockTime (p # ps) prices oldest =
     (case look p of
        None \<Rightarrow> live_prices look maxAge blockTime ps prices oldest
      | Some ob \<Rightarrow>
          if ob_publishTime ob = 0 \<or> blockTime - ob_publishTime ob > maxAge
          then live_prices look maxAge blockTime ps prices oldest
          else live_prices look maxAge blockTime ps (prices @ [ob_price ob])
                 (if ob_publishTime ob < oldest then ob_publishTime ob else oldest))"

definition predictAggregate ::
  "feed_state \<Rightarrow> address list \<Rightarrow> address \<Rightarrow> observation \<Rightarrow> int \<Rightarrow> agg_throw + prediction" where
  "predictAggregate feed publishers self obs blockTime =
     (let cfg = fs_cfg feed;
          look = (\<lambda>p. if lower p = lower self then Some obs else fs_observations feed (lower p));
          (prices, oldest) = live_prices look (fc_maxAge cfg) blockTime publishers [] MAX_SAFE_INTEGER;
          count = length prices
      in if int count < fc_minPublishers cfg then Inr (Predict_skip Skip_quorum None count)
      else case median prices of Inl e \<Rightarrow> Inl e
      | Inr m \<Rightarrow> Inr
        (if list_ex (\<lambda>p. absDiff p m > applyBps m (fc_maxSpreadBps cfg)) prices then Predict_skip Skip_spread (Some m) count
         else let prev = fs_snapshot feed in
         if oldest < sp_publishTime prev then Predict_skip Skip_not_monotonic (Some m) count
         else let prevStale = blockTime - sp_writeTime prev > fc_maxAge cfg in
         if fc_maxJumpBps cfg \<noteq> 0 \<and> sp_price prev > 0 \<and> \<not> prevStale
            \<and> absDiff m (sp_price prev) > applyBps (sp_price prev) (fc_maxJumpBps cfg)
         then Predict_skip Skip_jump (Some m) count
         else let ref = fs_reference feed in
         if rf_enabled ref \<and> \<not> rf_ok ref \<and> rf_required ref then Predict_skip Skip_reference_unavailable (Some m) count
         else if rf_enabled ref \<and> rf_ok ref \<and> absDiff m (rf_price ref) > applyBps (rf_price ref) (rf_maxDivergenceBps ref)
         then Predict_skip Skip_divergence (Some m) count
         else Predict_update m count (prevStale \<and> sp_price prev > 0)))"

section \<open>The de-peg halt\<close>

datatype depeg_verdict =
    Peg_ok int nat int
  | Peg_halt_depeg int nat int
  | Peg_halt_no_reading

definition ONE :: int where "ONE = 10 ^ 18"

definition depegGuard :: "int list \<Rightarrow> int \<Rightarrow> bool \<Rightarrow> agg_throw + depeg_verdict" where
  "depegGuard readings haltBps failClosed =
     (if readings = [] then Inr (if failClosed then Peg_halt_no_reading else Peg_ok ONE 0 0)
      else case median readings of Inl e \<Rightarrow> Inl e
      | Inr price \<Rightarrow> (case deviationBps price ONE of Inl e \<Rightarrow> Inl e
          | Inr d \<Rightarrow> Inr (if d > haltBps then Peg_halt_depeg price (length readings) d
                          else Peg_ok price (length readings) d)))"

section \<open>The decision\<close>

record policy_options =
  po_deviationBps :: int
  po_heartbeatSecs :: int
  po_inclusionMarginSecs :: int
  po_maxRefDivergenceBps :: int

datatype hold_reason = Hold_sources | Hold_disagreement | Hold_confidence | Hold_divergence
  | Hold_reference_unavailable | Hold_publish_time | Hold_jump | Hold_not_monotonic

datatype publish_why = Why_new | Why_deviation | Why_heartbeat

datatype decision =
    Publish int int prediction publish_why
  | Hold hold_reason
  | Idle_inactive
  | Idle_not_due

definition SEND_THROUGH :: "feed_skip list" where
  "SEND_THROUGH = [Skip_quorum, Skip_spread]"

definition TRANSIENT_HOLDS :: "hold_reason list" where
  "TRANSIENT_HOLDS = [Hold_publish_time, Hold_jump, Hold_not_monotonic]"

record decide_context =
  dc_self :: address
  dc_publishers :: "address list"
  dc_publishTime :: int
  dc_chainNow :: int

fun skip_hold :: "feed_skip \<Rightarrow> hold_reason" where
  "skip_hold Skip_jump = Hold_jump"
| "skip_hold Skip_divergence = Hold_divergence"
| "skip_hold Skip_reference_unavailable = Hold_reference_unavailable"
| "skip_hold _ = Hold_not_monotonic"

text \<open>The reference check: a reason to hold, or none.\<close>

definition reference_hold :: "reference_state \<Rightarrow> policy_options \<Rightarrow> int \<Rightarrow> agg_throw + hold_reason option" where
  "reference_hold ref p price =
     (if rf_enabled ref \<and> rf_ok ref
      then let bound = (if po_maxRefDivergenceBps p > 0 then min (po_maxRefDivergenceBps p) (rf_maxDivergenceBps ref)
                        else rf_maxDivergenceBps ref)
           in (case deviationBps price (rf_price ref) of Inl e \<Rightarrow> Inl e
               | Inr d \<Rightarrow> Inr (if d > bound then Some Hold_divergence else None))
      else if rf_enabled ref \<and> rf_required ref then Inr (Some Hold_reference_unavailable)
      else Inr None)"

text \<open>Whether this key's last observation is due for replacement, and why.\<close>

definition publish_due :: "observation option \<Rightarrow> policy_options \<Rightarrow> int \<Rightarrow> int \<Rightarrow> agg_throw + publish_why option" where
  "publish_due own p price chainNow =
     (case own of None \<Rightarrow> Inr (Some Why_new)
      | Some ob \<Rightarrow> if ob_publishTime ob = 0 then Inr (Some Why_new)
        else case deviationBps price (ob_price ob) of Inl e \<Rightarrow> Inl e
        | Inr d \<Rightarrow> Inr (if d \<ge> po_deviationBps p then Some Why_deviation
                        else if chainNow - ob_publishTime ob \<ge> po_heartbeatSecs p then Some Why_heartbeat else None))"

definition decide ::
  "feed_state \<Rightarrow> aggregate_result \<Rightarrow> decide_context \<Rightarrow> policy_options \<Rightarrow> agg_throw + decision" where
  "decide feed agg ctx p =
     (if \<not> fc_listed (fs_cfg feed) \<or> \<not> fc_active (fs_cfg feed) then Inr Idle_inactive
      else case agg of
        Inl f \<Rightarrow> Inr (Hold (case f of Disagreement _ _ _ _ \<Rightarrow> Hold_disagreement | _ \<Rightarrow> Hold_sources))
      | Inr a \<Rightarrow>
        let price = ag_price a; confidence = ag_confidence a in
        if confidence > applyBps price (fc_maxConfidenceBps (fs_cfg feed)) then Inr (Hold Hold_confidence)
        else case reference_hold (fs_reference feed) p price of Inl e \<Rightarrow> Inl e
        | Inr (Some h) \<Rightarrow> Inr (Hold h)
        | Inr None \<Rightarrow>
          let own = fs_observations feed (lower (dc_self ctx)) in
          (case publish_due own p price (dc_chainNow ctx) of Inl e \<Rightarrow> Inl e
           | Inr None \<Rightarrow> Inr Idle_not_due
           | Inr (Some why) \<Rightarrow>
             if (case own of None \<Rightarrow> False | Some ob \<Rightarrow> dc_publishTime ctx \<le> ob_publishTime ob)
                \<or> dc_publishTime ctx > dc_chainNow ctx
                \<or> dc_chainNow ctx - dc_publishTime ctx > fc_maxAge (fs_cfg feed) - po_inclusionMarginSecs p
             then Inr (Hold Hold_publish_time)
             else case predictAggregate feed (dc_publishers ctx) (dc_self ctx)
                  \<lparr>ob_price = price, ob_confidence = confidence, ob_publishTime = dc_publishTime ctx\<rparr> (dc_chainNow ctx + 1)
               of Inl e \<Rightarrow> Inl e
             | Inr pr \<Rightarrow> Inr (case pr of
                   Predict_skip r _ _ \<Rightarrow> if r \<notin> set SEND_THROUGH then Hold (skip_hold r) else Publish price confidence pr why
                 | _ \<Rightarrow> Publish price confidence pr why)))"

section \<open>Facts\<close>

text \<open>
  \<open>live_prices\<close> collects the live observations in the order of the publishers.
\<close>

definition live :: "(address \<Rightarrow> observation option) \<Rightarrow> int \<Rightarrow> int \<Rightarrow> address \<Rightarrow> bool" where
  "live look maxAge blockTime p \<longleftrightarrow> (case look p of None \<Rightarrow> False
     | Some ob \<Rightarrow> ob_publishTime ob \<noteq> 0 \<and> blockTime - ob_publishTime ob \<le> maxAge)"

lemma live_prices_spec:
  "live_prices look maxAge t ps prices oldest =
     (prices @ map (\<lambda>p. ob_price (the (look p))) (filter (live look maxAge t) ps),
      fold (\<lambda>p m. min (ob_publishTime (the (look p))) m) (filter (live look maxAge t) ps) oldest)"
  by (induction ps arbitrary: prices oldest) (auto simp: live_def min_def split: option.splits)

lemma decide_publish:
  assumes "decide feed agg ctx p = Inr (Publish price confidence pr why)"
  shows "fc_listed (fs_cfg feed)" "fc_active (fs_cfg feed)"
    "\<exists>a. agg = Inr a \<and> ag_price a = price \<and> ag_confidence a = confidence"
    "confidence \<le> applyBps price (fc_maxConfidenceBps (fs_cfg feed))"
    "dc_publishTime ctx \<le> dc_chainNow ctx"
    "dc_chainNow ctx - dc_publishTime ctx \<le> fc_maxAge (fs_cfg feed) - po_inclusionMarginSecs p"
    "fs_observations feed (lower (dc_self ctx)) = Some ob \<Longrightarrow> ob_publishTime ob < dc_publishTime ctx"
    "predictAggregate feed (dc_publishers ctx) (dc_self ctx)
       \<lparr>ob_price = price, ob_confidence = confidence, ob_publishTime = dc_publishTime ctx\<rparr> (dc_chainNow ctx + 1) = Inr pr"
    "case pr of Predict_update _ _ _ \<Rightarrow> True | Predict_skip r _ _ \<Rightarrow> r \<in> set SEND_THROUGH"
    "reference_hold (fs_reference feed) p price = Inr None"
  using assms
  by (auto simp: decide_def Let_def split: if_splits sum.splits option.splits prediction.splits)

end
