(* ===== verification/Oracle_Contract.thy ===== *)
theory Oracle_Contract
  imports Oracle_Guards
begin

text \<open>
  The contract the publisher mirrors: \<open>pushPrices\<close> and \<open>_aggregate\<close> of
  \<open>kryon-protocol/evm/src/OracleAdapter.sol\<close> over the bounded arithmetic of \<open>KryonMath.sol\<close>, and
  the reader of \<open>client/lib/oracle/chain.ts\<close> that turns its storage into a \<open>feed_state\<close>.

  A revert is \<open>Inl\<close> and keeps the storage as it was. Unsigned subtraction below zero is a revert, and
  products of two bounded numbers fit the 256 bits they are computed in. An address is its
  lower-case text; an observation never made is all zeros. What \<open>_readReference\<close> reads from the external
  aggregator is a parameter. The access-control and pause modifiers are the two first guards.
\<close>

section \<open>Bounded arithmetic\<close>

datatype sol_error = MathOverflow | Panic_underflow | InvalidConfig | StaleOracle | InvalidPrice
  | UnknownFeed hex | AccessDenied | EnforcedPause

definition sol_bind :: "sol_error + 'a \<Rightarrow> ('a \<Rightarrow> sol_error + 'b) \<Rightarrow> sol_error + 'b" where
  "sol_bind r f = (case r of Inl e \<Rightarrow> Inl e | Inr x \<Rightarrow> f x)"

definition I128_MAX :: int where "I128_MAX = 2 ^ 127 - 1"
definition I128_MIN :: int where "I128_MIN = - (2 ^ 127)"

definition bound128 :: "int \<Rightarrow> sol_error + int" where
  "bound128 v = (if v > I128_MAX \<or> v < I128_MIN then Inl MathOverflow else Inr v)"

definition m_add :: "int \<Rightarrow> int \<Rightarrow> sol_error + int" where
  "m_add a b = sol_bind (bound128 a) (\<lambda>x. sol_bind (bound128 b) (\<lambda>y. bound128 (x + y)))"

definition m_sub :: "int \<Rightarrow> int \<Rightarrow> sol_error + int" where
  "m_sub a b = sol_bind (bound128 a) (\<lambda>x. sol_bind (bound128 b) (\<lambda>y. bound128 (x - y)))"

definition m_abs :: "int \<Rightarrow> int" where "m_abs a = (if a < 0 then - a else a)"

definition m_applyBps :: "int \<Rightarrow> int \<Rightarrow> sol_error + int" where
  "m_applyBps amount bps = (if bps > BPS_UNIT then Inl InvalidConfig
     else sol_bind (bound128 amount) (\<lambda>x. sol_bind (bound128 bps) (\<lambda>y. bound128 ((x * y) sdiv BPS_UNIT))))"

definition u_sub :: "int \<Rightarrow> int \<Rightarrow> sol_error + int" where
  "u_sub a b = (if a < b then Inl Panic_underflow else Inr (a - b))"

section \<open>Storage and events\<close>

record reference_feed =
  xr_enabled :: bool
  xr_required :: bool
  xr_maxDivergenceBps :: int

record adapter =
  ad_paused :: bool
  ad_publishers :: "address list"
  ad_feeds :: "hex \<Rightarrow> feed_config"
  ad_refs :: "hex \<Rightarrow> reference_feed"
  ad_observations :: "hex \<Rightarrow> address \<Rightarrow> observation"
  ad_snapshots :: "hex \<Rightarrow> snapshot"

datatype sol_event =
    ObservationPushed hex address int int int
  | PriceUpdated hex int int int int nat
  | PriceUpdateSkipped hex feed_skip int
  | PriceReanchored hex int int int

section \<open>Aggregation\<close>

text \<open>The loop over the publishers: live prices, the widest confidence and the oldest time.\<close>

fun live_observations ::
  "(address \<Rightarrow> observation) \<Rightarrow> int \<Rightarrow> int \<Rightarrow> address list \<Rightarrow> int list \<Rightarrow> int \<Rightarrow> int \<Rightarrow> sol_error + (int list \<times> int \<times> int)" where
  "live_observations obs maxAge now [] prices maxConfidence oldest = Inr (prices, maxConfidence, oldest)"
| "live_observations obs maxAge now (p # ps) prices maxConfidence oldest =
     (let ob = obs p in
      if ob_publishTime ob = 0 then live_observations obs maxAge now ps prices maxConfidence oldest
      else sol_bind (u_sub now (ob_publishTime ob)) (\<lambda>age.
        if age > maxAge then live_observations obs maxAge now ps prices maxConfidence oldest
        else live_observations obs maxAge now ps (prices @ [ob_price ob])
               (if ob_confidence ob > maxConfidence then ob_confidence ob else maxConfidence)
               (if ob_publishTime ob < oldest then ob_publishTime ob else oldest)))"

text \<open>\<open>_sort\<close>: each key goes behind the entries of the sorted prefix that are not above it.\<close>

fun sort_key :: "int \<Rightarrow> int list \<Rightarrow> int list" where
  "sort_key key [] = [key]"
| "sort_key key (x # xs) = (if x > key then key # x # xs else x # sort_key key xs)"

definition sol_sort :: "int list \<Rightarrow> int list" where
  "sol_sort prices = fold sort_key prices []"

definition sol_median :: "int list \<Rightarrow> sol_error + int" where
  "sol_median prices = (let count = length prices in
     if count mod 2 = 1 then Inr (prices ! (count div 2))
     else sol_bind (m_add (prices ! (count div 2 - 1)) (prices ! (count div 2))) (\<lambda>s. Inr (s sdiv 2)))"

fun spread_exceeds :: "int \<Rightarrow> int \<Rightarrow> int list \<Rightarrow> sol_error + bool" where
  "spread_exceeds mid maxSpread [] = Inr False"
| "spread_exceeds mid maxSpread (p # ps) =
     sol_bind (m_sub p mid) (\<lambda>d. if m_abs d > maxSpread then Inr True else spread_exceeds mid maxSpread ps)"

definition UINT64_MAX :: int where "UINT64_MAX = 2 ^ 64 - 1"

text \<open>The jump guard, and the reference guard: a reason to skip, or none.\<close>

definition jump_skips :: "feed_config \<Rightarrow> snapshot \<Rightarrow> bool \<Rightarrow> int \<Rightarrow> sol_error + bool" where
  "jump_skips cfg prev prevStale mid =
     (if fc_maxJumpBps cfg \<noteq> 0 \<and> sp_price prev > 0 \<and> \<not> prevStale
      then sol_bind (m_sub mid (sp_price prev)) (\<lambda>d.
           sol_bind (m_applyBps (sp_price prev) (fc_maxJumpBps cfg)) (\<lambda>b. Inr (m_abs d > b)))
      else Inr False)"

definition reference_skips :: "reference_feed \<Rightarrow> bool \<times> int \<Rightarrow> int \<Rightarrow> sol_error + feed_skip option" where
  "reference_skips ref reading mid =
     (if \<not> xr_enabled ref then Inr None
      else if \<not> fst reading then Inr (if xr_required ref then Some Skip_reference_unavailable else None)
      else sol_bind (m_sub mid (snd reading)) (\<lambda>d.
           sol_bind (m_applyBps (snd reading) (xr_maxDivergenceBps ref)) (\<lambda>b.
           Inr (if m_abs d > b then Some Skip_divergence else None))))"

text \<open>
  The guards on a median, in order: spread, monotonic time, jump, reference. The first that fails gives the
  reason of the skip; when none does, the age of the previous aggregate comes with it.
\<close>

definition sol_guards ::
  "feed_config \<Rightarrow> snapshot \<Rightarrow> reference_feed \<Rightarrow> bool \<times> int \<Rightarrow> int \<Rightarrow> int list \<Rightarrow> int \<Rightarrow> int \<Rightarrow> sol_error + (feed_skip option \<times> int)" where
  "sol_guards cfg prev ref reading now prices oldest mid =
     sol_bind (m_applyBps mid (fc_maxSpreadBps cfg)) (\<lambda>maxSpread.
     sol_bind (spread_exceeds mid maxSpread prices) (\<lambda>wide.
     if wide then Inr (Some Skip_spread, 0)
     else if oldest < sp_publishTime prev then Inr (Some Skip_not_monotonic, 0)
     else sol_bind (u_sub now (sp_writeTime prev)) (\<lambda>staleFor.
     sol_bind (jump_skips cfg prev (staleFor > fc_maxAge cfg) mid) (\<lambda>jump.
     if jump then Inr (Some Skip_jump, 0)
     else sol_bind (reference_skips ref reading mid) (\<lambda>skip. Inr (skip, staleFor))))))"

definition sol_aggregate :: "int \<Rightarrow> bool \<times> int \<Rightarrow> hex \<Rightarrow> adapter \<Rightarrow> sol_error + (adapter \<times> sol_event list)" where
  "sol_aggregate now reading i a =
     (let cfg = ad_feeds a i; prev = ad_snapshots a i in
      sol_bind (live_observations (ad_observations a i) (fc_maxAge cfg) now (ad_publishers a) [] 0 UINT64_MAX)
        (\<lambda>(live, maxConfidence, oldest).
      if int (length live) < fc_minPublishers cfg then Inr (a, [PriceUpdateSkipped i Skip_quorum (int (length live))])
      else sol_bind (sol_median (sol_sort live)) (\<lambda>mid.
      sol_bind (sol_guards cfg prev (ad_refs a i) reading now (sol_sort live) oldest mid) (\<lambda>(skip, staleFor).
      case skip of Some r \<Rightarrow> Inr (a, [PriceUpdateSkipped i r mid])
      | None \<Rightarrow>
        Inr (a\<lparr>ad_snapshots := (ad_snapshots a)(i := \<lparr>sp_price = mid, sp_confidence = maxConfidence,
                 sp_publishTime = oldest, sp_writeTime = now, sp_sourceCount = int (length live)\<rparr>)\<rparr>,
             PriceUpdated i mid maxConfidence oldest now (length live) #
             (if staleFor > fc_maxAge cfg \<and> sp_price prev > 0
              then [PriceReanchored i (sp_price prev) mid staleFor] else []))))))"

section \<open>Pushing\<close>

record price_push =
  pp_id :: hex
  pp_price :: int
  pp_confidence :: int

definition push_one ::
  "address \<Rightarrow> int \<Rightarrow> (hex \<Rightarrow> bool \<times> int) \<Rightarrow> int \<Rightarrow> price_push \<Rightarrow> adapter \<Rightarrow> sol_error + (adapter \<times> sol_event list)" where
  "push_one sender now refs publishTime u a =
     (let i = pp_id u; cfg = ad_feeds a i in
      if \<not> fc_listed cfg then Inl (UnknownFeed i)
      else if \<not> fc_active cfg then Inl InvalidConfig
      else sol_bind (bound128 (pp_price u)) (\<lambda>price.
      sol_bind (bound128 (pp_confidence u)) (\<lambda>confidence.
      if price \<le> 0 \<or> confidence < 0 then Inl InvalidPrice
      else sol_bind (u_sub now publishTime) (\<lambda>age.
      if age > fc_maxAge cfg then Inl StaleOracle
      else if publishTime \<le> ob_publishTime (ad_observations a i sender) then Inl StaleOracle
      else let a' = a\<lparr>ad_observations := (ad_observations a)(i := (ad_observations a i)(sender :=
                 \<lparr>ob_price = price, ob_confidence = confidence, ob_publishTime = publishTime\<rparr>))\<rparr>
           in sol_bind (sol_aggregate now (refs i) i a') (\<lambda>(a'', evs).
                Inr (a'', ObservationPushed i sender price confidence publishTime # evs))))))"

fun push_all ::
  "address \<Rightarrow> int \<Rightarrow> (hex \<Rightarrow> bool \<times> int) \<Rightarrow> int \<Rightarrow> price_push list \<Rightarrow> adapter \<Rightarrow> sol_error + (adapter \<times> sol_event list)" where
  "push_all sender now refs publishTime [] a = Inr (a, [])"
| "push_all sender now refs publishTime (u # us) a =
     sol_bind (push_one sender now refs publishTime u a) (\<lambda>(a', evs).
     sol_bind (push_all sender now refs publishTime us a') (\<lambda>(a'', evs'). Inr (a'', evs @ evs')))"

definition pushPrices ::
  "address \<Rightarrow> int \<Rightarrow> (hex \<Rightarrow> bool \<times> int) \<Rightarrow> int \<Rightarrow> price_push list \<Rightarrow> adapter \<Rightarrow> sol_error + (adapter \<times> sol_event list)" where
  "pushPrices sender now refs publishTime us a =
     (if sender \<notin> set (ad_publishers a) then Inl AccessDenied
      else if ad_paused a then Inl EnforcedPause
      else if publishTime > now then Inl StaleOracle
      else push_all sender now refs publishTime us a)"

section \<open>Reading the storage\<close>

text \<open>\<open>readState\<close> of \<open>chain.ts\<close>, one feed: every publisher's observation under its lower-case address.\<close>

definition read_feed :: "(hex \<Rightarrow> string) \<Rightarrow> (hex \<Rightarrow> bool \<times> int) \<Rightarrow> adapter \<Rightarrow> hex \<Rightarrow> feed_state" where
  "read_feed symbolOf refs a i = \<lparr>fs_id = i, fs_symbol = symbolOf i, fs_cfg = ad_feeds a i, fs_snapshot = ad_snapshots a i,
     fs_observations = (\<lambda>p. if p \<in> set (map lower (ad_publishers a)) then Some (ad_observations a i p) else None),
     fs_reference = \<lparr>rf_enabled = xr_enabled (ad_refs a i), rf_required = xr_required (ad_refs a i),
       rf_maxDivergenceBps = xr_maxDivergenceBps (ad_refs a i),
       rf_ok = (xr_enabled (ad_refs a i) \<and> fst (refs i)), rf_price = (if xr_enabled (ad_refs a i) then snd (refs i) else 0)\<rparr>\<rparr>"

section \<open>Each step of the contract is the step of the mirror\<close>

lemma sol_bind_Inr: "sol_bind r f = Inr y \<longleftrightarrow> (\<exists>x. r = Inr x \<and> f x = Inr y)"
  by (auto simp: sol_bind_def split: sum.splits)

lemma bound128_Inr: "bound128 v = Inr w \<longleftrightarrow> w = v \<and> I128_MIN \<le> v \<and> v \<le> I128_MAX"
  by (auto simp: bound128_def)

lemma m_add_Inr: "m_add a b = Inr c \<Longrightarrow> c = a + b"
  by (auto simp: m_add_def sol_bind_Inr bound128_Inr)

lemma m_sub_Inr: "m_sub a b = Inr c \<Longrightarrow> c = a - b"
  by (auto simp: m_sub_def sol_bind_Inr bound128_Inr)

lemma m_applyBps_Inr: "m_applyBps a b = Inr c \<Longrightarrow> c = applyBps a b"
  by (auto simp: m_applyBps_def applyBps_def sol_bind_Inr bound128_Inr split: if_splits)

lemma m_abs_diff: "m_abs (a - b) = absDiff a b"
  by (simp add: m_abs_def absDiff_def)

lemma sort_key_mset [simp]: "mset (sort_key k xs) = add_mset k (mset xs)"
  by (induction xs) auto

lemma sort_key_sorted: "sorted xs \<Longrightarrow> sorted (sort_key k xs)"
proof (induction xs)
  case (Cons x xs)
  have "set (sort_key k xs) = insert k (set xs)" by (metis set_mset_add_mset_insert set_mset_mset sort_key_mset)
  with Cons show ?case by auto
qed simp

lemma sol_sort_eq: "sol_sort xs = js_sort cmp3 xs"
proof -
  have "mset (fold sort_key xs ys) = mset xs + mset ys \<and> (sorted ys \<longrightarrow> sorted (fold sort_key xs ys))" for ys
    by (induction xs arbitrary: ys) (simp_all add: sort_key_sorted)
  from this [of "[]"] show ?thesis
    unfolding sol_sort_def by (metis add_0_right mset.simps(1) mset_js_sort properties_for_sort sorted_prices sorted_simps(1))
qed

lemma sol_median_eq:
  assumes "sol_median (sol_sort xs) = Inr m" and "xs \<noteq> []"
  shows "median xs = Inr m"
  using assms
  by (auto simp: sol_median_def median_def sol_sort_eq Let_def sol_bind_Inr dest: m_add_Inr split: if_splits)

lemma spread_exceeds_eq: "spread_exceeds m w ps = Inr b \<Longrightarrow> b = list_ex (\<lambda>p. absDiff p m > w) ps"
proof (induction ps)
  case (Cons p ps)
  then obtain d where d: "m_sub p m = Inr d" and rest: "(if m_abs d > w then Inr True else spread_exceeds m w ps) = Inr b"
    by (auto simp: sol_bind_Inr)
  have "m_abs d = absDiff p m" using m_sub_Inr [OF d] by (simp add: m_abs_diff)
  with rest Cons.IH show ?case by (auto split: if_splits)
qed simp

lemma jump_skips_eq:
  "jump_skips cfg prev stale m = Inr b \<Longrightarrow> b = (fc_maxJumpBps cfg \<noteq> 0 \<and> sp_price prev > 0 \<and> \<not> stale
     \<and> absDiff m (sp_price prev) > applyBps (sp_price prev) (fc_maxJumpBps cfg))"
  by (auto simp: jump_skips_def sol_bind_Inr m_abs_diff dest!: m_sub_Inr m_applyBps_Inr split: if_splits)

lemma reference_skips_eq:
  "reference_skips ref reading m = Inr r \<Longrightarrow> r =
     (if xr_enabled ref \<and> \<not> fst reading \<and> xr_required ref then Some Skip_reference_unavailable
      else if xr_enabled ref \<and> fst reading \<and> absDiff m (snd reading) > applyBps (snd reading) (xr_maxDivergenceBps ref)
      then Some Skip_divergence else None)"
  by (auto simp: reference_skips_def sol_bind_Inr m_abs_diff dest!: m_sub_Inr m_applyBps_Inr split: if_splits)

lemma fold_min_init:
  assumes "xs \<noteq> []" and "\<And>x. x \<in> set xs \<Longrightarrow> f x \<le> c \<and> f x \<le> (d :: int)"
  shows "fold (\<lambda>x m. min (f x) m) xs c = fold (\<lambda>x m. min (f x) m) xs d"
  using assms by (cases xs) simp_all

lemma live_observations_eq:
  assumes "live_observations obs maxAge now ps prices mc oldest = Inr (prices', mc', oldest')"
  shows "live_prices (\<lambda>p. Some (obs p)) maxAge now ps prices oldest = (prices', oldest')"
  using assms
  by (induction obs maxAge now ps prices mc oldest rule: live_observations.induct)
    (auto simp: sol_bind_Inr u_sub_def Let_def split: if_splits)

lemma live_prices_cong:
  "(\<And>p. p \<in> set ps \<Longrightarrow> look p = look' p) \<Longrightarrow> live_prices look maxAge t ps prices oldest = live_prices look' maxAge t ps prices oldest"
  by (induction ps arbitrary: prices oldest) (auto split: option.splits)

lemma live_prices_init:
  assumes "live_prices look maxAge t ps [] c = (prices, oldest)" and "prices \<noteq> []"
    and "\<And>p ob. p \<in> set ps \<Longrightarrow> look p = Some ob \<Longrightarrow> ob_publishTime ob \<le> c \<and> ob_publishTime ob \<le> d"
  shows "live_prices look maxAge t ps [] d = (prices, oldest)"
proof -
  let ?ps = "filter (live look maxAge t) ps"
  have "?ps \<noteq> []" using assms(1,2) by (auto simp: live_prices_spec)
  moreover have "ob_publishTime (the (look p)) \<le> c \<and> ob_publishTime (the (look p)) \<le> d" if "p \<in> set ?ps" for p
    using that assms(3) by (auto simp: live_def split: option.splits)
  ultimately have "fold (\<lambda>p m. min (ob_publishTime (the (look p))) m) ?ps c = fold (\<lambda>p m. min (ob_publishTime (the (look p))) m) ?ps d"
    by (rule fold_min_init)
  with assms(1) show ?thesis by (simp add: live_prices_spec)
qed

section \<open>What a push shows\<close>

text \<open>The outcome of a push to one feed, from its events, and the same of a prediction.\<close>

datatype outcome = Outcome_update int nat bool | Outcome_skip feed_skip int

fun outcome_of :: "sol_event list \<Rightarrow> outcome option" where
  "outcome_of [] = None"
| "outcome_of (ObservationPushed _ _ _ _ _ # es) = outcome_of es"
| "outcome_of (PriceUpdated _ price _ _ _ k # es) = Some (Outcome_update price k (es \<noteq> []))"
| "outcome_of (PriceUpdateSkipped _ r candidate # es) = Some (Outcome_skip r candidate)"
| "outcome_of (PriceReanchored _ _ _ _ # es) = outcome_of es"

fun predicted :: "prediction \<Rightarrow> outcome" where
  "predicted (Predict_update m k reanchor) = Outcome_update m k reanchor"
| "predicted (Predict_skip r (Some m) k) = Outcome_skip r m"
| "predicted (Predict_skip r None k) = Outcome_skip r (int k)"

text \<open>
  What \<open>setPublishers\<close> and \<open>setFeed\<close> guarantee of a feed, and times that a JavaScript number holds.
\<close>

definition feed_ok :: "adapter \<Rightarrow> hex \<Rightarrow> bool" where
  "feed_ok a i \<longleftrightarrow> (\<forall>p \<in> set (ad_publishers a). lower p = p) \<and> 1 \<le> fc_minPublishers (ad_feeds a i)
     \<and> (\<forall>p \<in> set (ad_publishers a). ob_publishTime (ad_observations a i p) \<le> MAX_SAFE_INTEGER)"

text \<open>The guards as the mirror has them, over the same numbers.\<close>

definition mirror_skip :: "feed_config \<Rightarrow> snapshot \<Rightarrow> reference_state \<Rightarrow> int \<Rightarrow> int list \<Rightarrow> int \<Rightarrow> int \<Rightarrow> feed_skip option" where
  "mirror_skip cfg prev ref now prices oldest m =
     (if list_ex (\<lambda>p. absDiff p m > applyBps m (fc_maxSpreadBps cfg)) prices then Some Skip_spread
      else if oldest < sp_publishTime prev then Some Skip_not_monotonic
      else if fc_maxJumpBps cfg \<noteq> 0 \<and> sp_price prev > 0 \<and> \<not> now - sp_writeTime prev > fc_maxAge cfg
        \<and> absDiff m (sp_price prev) > applyBps (sp_price prev) (fc_maxJumpBps cfg) then Some Skip_jump
      else if rf_enabled ref \<and> \<not> rf_ok ref \<and> rf_required ref then Some Skip_reference_unavailable
      else if rf_enabled ref \<and> rf_ok ref \<and> absDiff m (rf_price ref) > applyBps (rf_price ref) (rf_maxDivergenceBps ref)
      then Some Skip_divergence else None)"

lemma predictAggregate_eq:
  assumes "live_prices (\<lambda>p. if lower p = lower self then Some obs else fs_observations feed (lower p))
      (fc_maxAge (fs_cfg feed)) now pubs [] MAX_SAFE_INTEGER = (prices, oldest)"
  shows "predictAggregate feed pubs self obs now =
    (if int (length prices) < fc_minPublishers (fs_cfg feed) then Inr (Predict_skip Skip_quorum None (length prices))
     else case median prices of Inl e \<Rightarrow> Inl e
     | Inr m \<Rightarrow> Inr (case mirror_skip (fs_cfg feed) (fs_snapshot feed) (fs_reference feed) now prices oldest m of
         Some r \<Rightarrow> Predict_skip r (Some m) (length prices)
       | None \<Rightarrow> Predict_update m (length prices)
           (now - sp_writeTime (fs_snapshot feed) > fc_maxAge (fs_cfg feed) \<and> sp_price (fs_snapshot feed) > 0)))"
  using assms unfolding predictAggregate_def Let_def mirror_skip_def by (simp split: sum.splits)

lemma sol_guards_eq:
  assumes "sol_guards cfg prev ref reading now (sol_sort ps) oldest m = Inr (skip, staleFor)"
    and "rs = \<lparr>rf_enabled = xr_enabled ref, rf_required = xr_required ref, rf_maxDivergenceBps = xr_maxDivergenceBps ref,
       rf_ok = (xr_enabled ref \<and> fst reading), rf_price = (if xr_enabled ref then snd reading else 0)\<rparr>"
  shows "skip = mirror_skip cfg prev rs now ps oldest m" and "skip = None \<Longrightarrow> staleFor = now - sp_writeTime prev"
proof -
  obtain w wide where w: "m_applyBps m (fc_maxSpreadBps cfg) = Inr w" and wide: "spread_exceeds m w (sol_sort ps) = Inr wide"
    and rest: "(if wide then Inr (Some Skip_spread, 0)
     else if oldest < sp_publishTime prev then Inr (Some Skip_not_monotonic, 0)
     else sol_bind (u_sub now (sp_writeTime prev)) (\<lambda>staleFor.
     sol_bind (jump_skips cfg prev (staleFor > fc_maxAge cfg) m) (\<lambda>jump.
     if jump then Inr (Some Skip_jump, 0)
     else sol_bind (reference_skips ref reading m) (\<lambda>skip. Inr (skip, staleFor))))) = Inr (skip, staleFor)"
    using assms(1) by (auto simp: sol_guards_def sol_bind_Inr)
  have spread: "wide = list_ex (\<lambda>p. absDiff p m > applyBps m (fc_maxSpreadBps cfg)) ps"
    using spread_exceeds_eq [OF wide] m_applyBps_Inr [OF w] by (simp add: sol_sort_eq list_ex_iff)
  show "skip = mirror_skip cfg prev rs now ps oldest m"
  proof (cases "wide \<or> oldest < sp_publishTime prev")
    case True
    then show ?thesis using rest by (auto simp: mirror_skip_def spread split: if_splits)
  next
    case False
    then obtain jump r where jump: "jump_skips cfg prev (now - sp_writeTime prev > fc_maxAge cfg) m = Inr jump"
      and "jump \<and> skip = Some Skip_jump \<or> \<not> jump \<and> reference_skips ref reading m = Inr skip"
      using rest by (auto simp: sol_bind_Inr u_sub_def split: if_splits)
    then consider "jump" "skip = Some Skip_jump" | "\<not> jump" "reference_skips ref reading m = Inr skip" by blast
    then show ?thesis
    proof cases
      case 1
      then show ?thesis using jump_skips_eq [OF jump] False by (simp add: mirror_skip_def spread)
    next
      case 2
      then show ?thesis using jump_skips_eq [OF jump] reference_skips_eq [OF 2(2)] False
        by (auto simp: mirror_skip_def spread assms(2))
    qed
  qed
  show "skip = None \<Longrightarrow> staleFor = now - sp_writeTime prev"
    using rest by (auto simp: sol_bind_Inr u_sub_def split: if_splits)
qed

text \<open>The live prices and the oldest time of the mirror are those of the contract.\<close>

lemma mirror_live:
  assumes run: "live_observations (ad_observations a' i) maxAge now (ad_publishers a) [] 0 UINT64_MAX = Inr (prices, mc, old)"
    and a': "a' = a\<lparr>ad_observations := (ad_observations a)(i := (ad_observations a i)(lower self := obs))\<rparr>"
    and ok: "feed_ok a i" and obs: "ob_publishTime obs \<le> MAX_SAFE_INTEGER"
  shows "\<exists>old'. live_prices (\<lambda>p. if lower p = lower self then Some obs
       else fs_observations (read_feed symbolOf refs a i) (lower p)) maxAge now (ad_publishers a) [] MAX_SAFE_INTEGER = (prices, old')
     \<and> (prices \<noteq> [] \<longrightarrow> old' = old)"
proof -
  let ?look = "\<lambda>p. if lower p = lower self then Some obs else fs_observations (read_feed symbolOf refs a i) (lower p)"
  have look: "?look p = Some (ad_observations a' i p)" if p: "p \<in> set (ad_publishers a)" for p
  proof -
    have low: "lower p = p" using p ok by (simp add: feed_ok_def)
    then have "p \<in> set (map lower (ad_publishers a))" using p by (metis image_eqI list.set_map)
    with low show ?thesis by (simp add: a' read_feed_def del: set_map)
  qed
  have "live_prices ?look maxAge now (ad_publishers a) [] UINT64_MAX
      = live_prices (\<lambda>p. Some (ad_observations a' i p)) maxAge now (ad_publishers a) [] UINT64_MAX"
    by (rule live_prices_cong) (rule look)
  also have "\<dots> = (prices, old)" by (rule live_observations_eq [OF run])
  finally have got: "live_prices ?look maxAge now (ad_publishers a) [] UINT64_MAX = (prices, old)" .
  have early: "ob_publishTime ob \<le> UINT64_MAX \<and> ob_publishTime ob \<le> MAX_SAFE_INTEGER"
    if p: "p \<in> set (ad_publishers a)" and ob: "?look p = Some ob" for p ob
  proof -
    have "ob_publishTime (ad_observations a' i p) \<le> MAX_SAFE_INTEGER" using p ok obs by (simp add: a' feed_ok_def)
    moreover have "ob = ad_observations a' i p" using trans [OF ob [symmetric] look [OF p]] by simp
    ultimately show ?thesis by (simp add: MAX_SAFE_INTEGER_def UINT64_MAX_def)
  qed
  show ?thesis
  proof (cases "prices = []")
    case True
    have "\<exists>old'. live_prices ?look maxAge now (ad_publishers a) [] MAX_SAFE_INTEGER = (prices, old')"
      using got by (simp add: live_prices_spec)
    with True show ?thesis by blast
  next
    case False
    have "live_prices ?look maxAge now (ad_publishers a) [] MAX_SAFE_INTEGER = (prices, old)"
      by (rule live_prices_init [OF got False]) (rule early)
    then show ?thesis by blast
  qed
qed

lemma sol_aggregate_cases:
  assumes run: "sol_aggregate now reading i a = Inr (a', evs)"
    and live: "live_observations (ad_observations a i) (fc_maxAge (ad_feeds a i)) now (ad_publishers a) [] 0 UINT64_MAX = Inr (prices, mc, old)"
    and quorum: "\<not> int (length prices) < fc_minPublishers (ad_feeds a i)"
  obtains m skip stale where "sol_median (sol_sort prices) = Inr m"
    and "sol_guards (ad_feeds a i) (ad_snapshots a i) (ad_refs a i) reading now (sol_sort prices) old m = Inr (skip, stale)"
    and "evs = (case skip of Some r \<Rightarrow> [PriceUpdateSkipped i r m]
        | None \<Rightarrow> PriceUpdated i m mc old now (length prices) #
           (if stale > fc_maxAge (ad_feeds a i) \<and> sp_price (ad_snapshots a i) > 0
            then [PriceReanchored i (sp_price (ad_snapshots a i)) m stale] else []))"
  using run quorum unfolding sol_aggregate_def Let_def live
  by (auto simp: sol_bind_Inr split: option.splits)

lemma mirror_aggregate:
  assumes run: "sol_aggregate now (refs i) i a' = Inr (a'', evs)"
    and a': "a' = a\<lparr>ad_observations := (ad_observations a)(i := (ad_observations a i)(lower self := obs))\<rparr>"
    and ok: "feed_ok a i" and obs: "ob_publishTime obs \<le> MAX_SAFE_INTEGER"
  shows "\<exists>pr. predictAggregate (read_feed symbolOf refs a i) (ad_publishers a) self obs now = Inr pr \<and> outcome_of evs = Some (predicted pr)"
proof -
  let ?feed = "read_feed symbolOf refs a i" and ?cfg = "ad_feeds a i" and ?prev = "ad_snapshots a i" and ?ref = "ad_refs a i"
  have feed: "fs_cfg ?feed = ?cfg" "fs_snapshot ?feed = ?prev" by (simp_all add: read_feed_def)
  have same: "ad_feeds a' = ad_feeds a" "ad_snapshots a' = ad_snapshots a" "ad_refs a' = ad_refs a" "ad_publishers a' = ad_publishers a"
    by (simp_all add: a')
  obtain prices mc old where live: "live_observations (ad_observations a' i) (fc_maxAge ?cfg) now (ad_publishers a) [] 0 UINT64_MAX = Inr (prices, mc, old)"
    using run by (auto simp: sol_aggregate_def Let_def sol_bind_Inr same)
  obtain old' where prices: "live_prices (\<lambda>p. if lower p = lower self then Some obs else fs_observations ?feed (lower p))
      (fc_maxAge (fs_cfg ?feed)) now (ad_publishers a) [] MAX_SAFE_INTEGER = (prices, old')"
    and old': "prices \<noteq> [] \<Longrightarrow> old' = old"
    using mirror_live [OF live a' ok obs, of symbolOf refs] unfolding feed by blast
  note mirror = predictAggregate_eq [OF prices, unfolded feed]
  show ?thesis
  proof (cases "int (length prices) < fc_minPublishers ?cfg")
    case True
    have "evs = [PriceUpdateSkipped i Skip_quorum (int (length prices))]"
      using run live True by (simp add: sol_aggregate_def sol_bind_def same)
    with True show ?thesis unfolding mirror by simp
  next
    case False
    have ne: "prices \<noteq> []" using False ok by (auto simp: feed_ok_def)
    obtain m skip stale where m: "sol_median (sol_sort prices) = Inr m"
      and guards: "sol_guards ?cfg ?prev ?ref (refs i) now (sol_sort prices) old m = Inr (skip, stale)"
      and evs: "evs = (case skip of Some r \<Rightarrow> [PriceUpdateSkipped i r m]
        | None \<Rightarrow> PriceUpdated i m mc old now (length prices) #
           (if stale > fc_maxAge ?cfg \<and> sp_price ?prev > 0 then [PriceReanchored i (sp_price ?prev) m stale] else []))"
      by (rule sol_aggregate_cases [OF run, unfolded same, OF live False])
    have "fs_reference ?feed = \<lparr>rf_enabled = xr_enabled ?ref, rf_required = xr_required ?ref, rf_maxDivergenceBps = xr_maxDivergenceBps ?ref,
       rf_ok = (xr_enabled ?ref \<and> fst (refs i)), rf_price = (if xr_enabled ?ref then snd (refs i) else 0)\<rparr>"
      by (simp add: read_feed_def)
    from sol_guards_eq [OF guards this] have skip: "mirror_skip ?cfg ?prev (fs_reference ?feed) now prices old m = skip"
      and stale: "skip = None \<Longrightarrow> stale = now - sp_writeTime ?prev" by simp_all
    show ?thesis
      unfolding mirror sol_median_eq [OF m ne] old' [OF ne] evs using False stale
      by (cases skip) (simp_all add: skip)
  qed
qed

definition one_push :: "hex \<Rightarrow> int \<Rightarrow> int \<Rightarrow> price_push list" where
  "one_push i price confidence = [\<lparr>pp_id = i, pp_price = price, pp_confidence = confidence\<rparr>]"

lemma push_one_aggregates:
  assumes "pushPrices sender now refs t (one_push i price confidence) a = Inr (a', evs)"
  obtains evs' where "sol_aggregate now (refs i) i (a\<lparr>ad_observations := (ad_observations a)(i := (ad_observations a i)(sender :=
       \<lparr>ob_price = price, ob_confidence = confidence, ob_publishTime = t\<rparr>))\<rparr>) = Inr (a', evs')"
    and "evs = ObservationPushed i sender price confidence t # evs'" and "t \<le> now"
  using assms
  by (auto simp: pushPrices_def one_push_def push_one_def Let_def sol_bind_Inr bound128_Inr split: if_splits)

text \<open>
  C26. The mirror is exact. Whenever the contract accepts a push to a feed, what \<open>predictAggregate\<close> says of the
  storage read just before, at the time of the block, is what the events of the push show: the same
  skip reason and candidate, or an update to the same median from the same number of publishers, re-anchored or not.
\<close>

theorem mirror_is_exact:
  assumes "feed_ok a i" and "now \<le> MAX_SAFE_INTEGER"
    and "pushPrices (lower self) now refs t (one_push i price confidence) a = Inr (a', evs)"
  shows "\<exists>pr. predictAggregate (read_feed symbolOf refs a i) (ad_publishers a) self
       \<lparr>ob_price = price, ob_confidence = confidence, ob_publishTime = t\<rparr> now = Inr pr
     \<and> outcome_of evs = Some (predicted pr)"
  using assms(3)
proof (rule push_one_aggregates)
  fix evs'
  assume run: "sol_aggregate now (refs i) i (a\<lparr>ad_observations := (ad_observations a)(i := (ad_observations a i)(lower self :=
       \<lparr>ob_price = price, ob_confidence = confidence, ob_publishTime = t\<rparr>))\<rparr>) = Inr (a', evs')"
    and evs: "evs = ObservationPushed i (lower self) price confidence t # evs'" and "t \<le> now"
  then have "ob_publishTime \<lparr>ob_price = price, ob_confidence = confidence, ob_publishTime = t\<rparr> \<le> MAX_SAFE_INTEGER"
    using assms(2) by simp
  from mirror_aggregate [where refs = refs and i = i and symbolOf = symbolOf, OF run refl assms(1) this] evs show ?thesis by simp
qed

section \<open>A decision to publish is accepted\<close>

text \<open>Numbers far from the ends of the 128-bit range: prices below \<open>2 ^ 126\<close>.\<close>

definition small :: "int \<Rightarrow> bool" where
  "small v \<longleftrightarrow> 0 \<le> v \<and> v < 2 ^ 126"

definition bps_ok :: "int \<Rightarrow> bool" where
  "bps_ok b \<longleftrightarrow> 0 \<le> b \<and> b \<le> BPS_UNIT"

definition storage_ok :: "adapter \<Rightarrow> hex \<Rightarrow> (hex \<Rightarrow> bool \<times> int) \<Rightarrow> int \<Rightarrow> bool" where
  "storage_ok a i refs now \<longleftrightarrow>
     (\<forall>p \<in> set (ad_publishers a). small (ob_price (ad_observations a i p)) \<and> ob_publishTime (ad_observations a i p) \<le> now)
     \<and> small (sp_price (ad_snapshots a i)) \<and> sp_writeTime (ad_snapshots a i) \<le> now \<and> small (snd (refs i))
     \<and> bps_ok (fc_maxSpreadBps (ad_feeds a i)) \<and> bps_ok (fc_maxJumpBps (ad_feeds a i)) \<and> bps_ok (xr_maxDivergenceBps (ad_refs a i))"

lemma bound128_small: "- (2 ^ 127) \<le> v \<Longrightarrow> v < 2 ^ 127 \<Longrightarrow> bound128 v = Inr v"
  by (simp add: bound128_def I128_MAX_def I128_MIN_def)

lemma m_sub_small: "small a \<Longrightarrow> small b \<Longrightarrow> m_sub a b = Inr (a - b)"
  by (simp add: m_sub_def sol_bind_def bound128_small small_def)

lemma m_add_small: "small a \<Longrightarrow> small b \<Longrightarrow> m_add a b = Inr (a + b)"
  by (simp add: m_add_def sol_bind_def bound128_small small_def)

lemma m_applyBps_small:
  assumes "small a" and "bps_ok b"
  shows "m_applyBps a b = Inr (applyBps a b)"
proof -
  have "0 \<le> (a * b) sdiv BPS_UNIT" "(a * b) sdiv BPS_UNIT \<le> a"
    using assms sdiv_self_bound [of a b BPS_UNIT] sdiv_ge_0 [of "a * b" BPS_UNIT] by (auto simp: small_def bps_ok_def BPS_UNIT_def)
  then show ?thesis using assms
    by (simp add: m_applyBps_def sol_bind_def bound128_small small_def bps_ok_def applyBps_def BPS_UNIT_def)
qed

lemma live_observations_total:
  "(\<And>p. p \<in> set ps \<Longrightarrow> ob_publishTime (obs p) \<le> now) \<Longrightarrow> \<exists>r. live_observations obs maxAge now ps prices mc old = Inr r"
proof (induction ps arbitrary: prices mc old)
  case (Cons p ps)
  have p: "\<not> now < ob_publishTime (obs p)" using Cons.prems [of p] by simp
  have "\<exists>r. live_observations obs maxAge now ps pr' mc' old' = Inr r" for pr' mc' old' using Cons by simp
  with p show ?case by (simp add: Let_def u_sub_def sol_bind_def)
qed simp

lemma sol_median_total:
  assumes "\<And>x. x \<in> set xs \<Longrightarrow> small x" and "xs \<noteq> []"
  shows "\<exists>m. sol_median (sol_sort xs) = Inr m"
proof -
  have idx: "k < length xs \<Longrightarrow> small (js_sort cmp3 xs ! k)" for k
    using assms(1) nth_mem [of k "js_sort cmp3 xs"] by simp
  have "length xs div 2 < length xs" "length xs div 2 - 1 < length xs" using assms(2) by (simp_all add: less_imp_diff_less)
  from this [THEN idx] show ?thesis
    by (auto simp: sol_median_def sol_sort_eq Let_def sol_bind_def m_add_small)
qed

lemma spread_exceeds_total: "small m \<Longrightarrow> (\<And>p. p \<in> set ps \<Longrightarrow> small p) \<Longrightarrow> \<exists>b. spread_exceeds m w ps = Inr b"
  by (induction ps) (auto simp: sol_bind_def m_sub_small)

lemma sol_guards_total:
  assumes "small m" and "\<And>p. p \<in> set ps \<Longrightarrow> small p" and "storage_ok a i refs now"
  shows "\<exists>r. sol_guards (ad_feeds a i) (ad_snapshots a i) (ad_refs a i) (refs i) now ps old m = Inr r"
proof -
  obtain b where "spread_exceeds m (applyBps m (fc_maxSpreadBps (ad_feeds a i))) ps = Inr b"
    using spread_exceeds_total [of m ps] assms by blast
  with assms(1,3) show ?thesis
    by (simp add: sol_guards_def storage_ok_def m_applyBps_small u_sub_def jump_skips_def reference_skips_def m_sub_small sol_bind_def)
qed

lemma sol_aggregate_total:
  assumes "storage_ok a i refs now" and "1 \<le> fc_minPublishers (ad_feeds a i)"
  shows "\<exists>r. sol_aggregate now (refs i) i a = Inr r"
proof -
  obtain prices mc old where live: "live_observations (ad_observations a i) (fc_maxAge (ad_feeds a i)) now (ad_publishers a) [] 0 UINT64_MAX = Inr (prices, mc, old)"
  proof -
    have "\<exists>r. live_observations (ad_observations a i) (fc_maxAge (ad_feeds a i)) now (ad_publishers a) [] 0 UINT64_MAX = Inr r"
      by (rule live_observations_total) (use assms(1) in \<open>simp add: storage_ok_def\<close>)
    with that show ?thesis by auto
  qed
  have "prices = map (\<lambda>p. ob_price (ad_observations a i p)) (filter (live (\<lambda>p. Some (ad_observations a i p)) (fc_maxAge (ad_feeds a i)) now) (ad_publishers a))"
    using live_observations_eq [OF live] by (simp add: live_prices_spec)
  then have small: "x \<in> set prices \<Longrightarrow> small x" for x using assms(1) by (auto simp: storage_ok_def)
  show ?thesis
  proof (cases "int (length prices) < fc_minPublishers (ad_feeds a i)")
    case True
    then show ?thesis by (simp add: sol_aggregate_def Let_def live sol_bind_def)
  next
    case False
    have ne: "prices \<noteq> []" using False assms(2) by auto
    obtain m where m: "sol_median (sol_sort prices) = Inr m" using sol_median_total [OF small ne] by blast
    have "0 \<le> m \<and> m \<le> 2 ^ 126 - 1"
      by (rule median_between [OF sol_median_eq [OF m ne]], drule small) (simp add: small_def)
    then have "small m" by (simp add: small_def)
    then obtain skip stale where "sol_guards (ad_feeds a i) (ad_snapshots a i) (ad_refs a i) (refs i) now (sol_sort prices) old m = Inr (skip, stale)"
      using sol_guards_total [OF _ _ assms(1), of m "sol_sort prices" old] small by (auto simp: sol_sort_eq)
    then show ?thesis using False m by (simp add: sol_aggregate_def Let_def live sol_bind_def split: option.splits)
  qed
qed

text \<open>
  C28. A decision to publish lands as predicted. When \<open>decide\<close> publishes a feed and the storage it read is still in
  place at the next block, the contract accepts the push (it is not stale, not malformed and overflows
  nothing), the outcome is the predicted one, and a skip can only be for quorum or spread,
  which the pushed observation helps to clear.
\<close>

theorem published_push_is_accepted:
  assumes decision: "decide (read_feed symbolOf refs a i) agg ctx p = Inr (Publish price confidence pr why)"
    and ctx: "dc_publishers ctx = ad_publishers a" "lower (dc_self ctx) \<in> set (ad_publishers a)" "\<not> ad_paused a"
    and margin: "1 \<le> po_inclusionMarginSecs p" and numbers: "0 < price" "small price" "0 \<le> confidence" "small confidence"
    and ok: "feed_ok a i" "storage_ok a i refs (dc_chainNow ctx)" "dc_chainNow ctx < MAX_SAFE_INTEGER"
  shows "\<exists>a' evs. pushPrices (lower (dc_self ctx)) (dc_chainNow ctx + 1) refs (dc_publishTime ctx) (one_push i price confidence) a = Inr (a', evs)
     \<and> outcome_of evs = Some (predicted pr)
     \<and> (case pr of Predict_update _ _ _ \<Rightarrow> True | Predict_skip r _ _ \<Rightarrow> r \<in> set SEND_THROUGH)"
proof -
  let ?self = "lower (dc_self ctx)" and ?now = "dc_chainNow ctx + 1" and ?t = "dc_publishTime ctx"
  let ?obs = "\<lparr>ob_price = price, ob_confidence = confidence, ob_publishTime = dc_publishTime ctx\<rparr>"
  let ?a = "a\<lparr>ad_observations := (ad_observations a)(i := (ad_observations a i)(?self := ?obs))\<rparr>"
  note d = decide_publish [OF decision]
  have cfg: "fc_listed (ad_feeds a i)" "fc_active (ad_feeds a i)" and fresh: "?t \<le> dc_chainNow ctx" "?now - ?t \<le> fc_maxAge (ad_feeds a i)"
    using d(1,2,5,6) margin by (simp_all add: read_feed_def)
  have "?self \<in> set (map lower (ad_publishers a))" using ctx(2) ok(1) by (force simp: feed_ok_def)
  then have later: "ob_publishTime (ad_observations a i ?self) < ?t" using d(7) by (simp add: read_feed_def del: set_map)
  have "storage_ok ?a i refs ?now" using ok(2) numbers fresh(1) by (auto simp: storage_ok_def)
  moreover have "1 \<le> fc_minPublishers (ad_feeds ?a i)" using ok(1) by (simp add: feed_ok_def)
  ultimately obtain a' evs where agg: "sol_aggregate ?now (refs i) i ?a = Inr (a', evs)"
    using sol_aggregate_total [of ?a i refs ?now] by auto
  have push: "pushPrices ?self ?now refs ?t (one_push i price confidence) a = Inr (a', ObservationPushed i ?self price confidence ?t # evs)"
    using ctx cfg fresh later numbers agg
    by (simp add: pushPrices_def one_push_def push_one_def Let_def sol_bind_def bound128_small small_def u_sub_def)
  have "\<exists>pr. predictAggregate (read_feed symbolOf refs a i) (ad_publishers a) (dc_self ctx) ?obs ?now = Inr pr \<and> outcome_of evs = Some (predicted pr)"
    by (rule mirror_aggregate [where refs = refs and i = i, OF agg refl ok(1)]) (use fresh(1) ok(3) in simp)
  then have "outcome_of (ObservationPushed i ?self price confidence ?t # evs) = Some (predicted pr)"
    using d(8) ctx(1) by simp
  with push d(9) show ?thesis by blast
qed

section \<open>A concrete feed\<close>

definition sample_config :: feed_config where
  "sample_config = \<lparr>fc_listed = True, fc_active = True, fc_minPublishers = 2, fc_maxSpreadBps = 50, fc_maxJumpBps = 1000,
     fc_maxConfidenceBps = 100, fc_maxAge = 60\<rparr>"

definition sample_adapter :: adapter where
  "sample_adapter = \<lparr>ad_paused = False, ad_publishers = [''0xa'', ''0xb''], ad_feeds = (\<lambda>_. sample_config),
     ad_refs = (\<lambda>_. \<lparr>xr_enabled = False, xr_required = False, xr_maxDivergenceBps = 100\<rparr>),
     ad_observations = (\<lambda>_ q. if q = ''0xb'' then \<lparr>ob_price = 1002, ob_confidence = 1, ob_publishTime = 95\<rparr>
        else \<lparr>ob_price = 1000, ob_confidence = 1, ob_publishTime = 40\<rparr>),
     ad_snapshots = (\<lambda>_. \<lparr>sp_price = 1000, sp_confidence = 1, sp_publishTime = 40, sp_writeTime = 41, sp_sourceCount = 2\<rparr>)\<rparr>"

definition no_reference :: "hex \<Rightarrow> bool \<times> int" where
  "no_reference i = (False, 0)"

definition sample_context :: decide_context where
  "sample_context = \<lparr>dc_self = ''0xA'', dc_publishers = [''0xa'', ''0xb''], dc_publishTime = 99, dc_chainNow = 100\<rparr>"

definition sample_policy :: policy_options where
  "sample_policy = \<lparr>po_deviationBps = 20, po_heartbeatSecs = 30, po_inclusionMarginSecs = 5, po_maxRefDivergenceBps = 0\<rparr>"

lemma sample_feed_ok: "feed_ok sample_adapter ''BTC''"
proof -
  have "lower ''0xa'' = ''0xa''" "lower ''0xb'' = ''0xb''" by code_simp+
  then show ?thesis by (simp add: feed_ok_def sample_adapter_def sample_config_def MAX_SAFE_INTEGER_def)
qed

lemma sample_storage_ok: "storage_ok sample_adapter ''BTC'' no_reference 100"
  by (simp add: storage_ok_def small_def bps_ok_def sample_adapter_def sample_config_def no_reference_def BPS_UNIT_def)

theorem mirror_is_exact_witness:
  "\<exists>pr. predictAggregate (read_feed (\<lambda>_. ''BTC'') no_reference sample_adapter ''BTC'') [''0xa'', ''0xb''] ''0xA''
       \<lparr>ob_price = 1001, ob_confidence = 2, ob_publishTime = 99\<rparr> 101 = Inr pr
     \<and> predicted pr = Outcome_update 1001 2 False"
proof -
  let ?r = "pushPrices (lower ''0xA'') 101 no_reference 99 (one_push ''BTC'' 1001 2) sample_adapter"
  have "map_sum id (\<lambda>r. outcome_of (snd r)) ?r = Inr (Some (Outcome_update 1001 2 False))" by code_simp
  then obtain a' evs where run: "?r = Inr (a', evs)" "outcome_of evs = Some (Outcome_update 1001 2 False)"
    by (cases ?r) auto
  have "(101 :: int) \<le> MAX_SAFE_INTEGER" by (simp add: MAX_SAFE_INTEGER_def)
  from mirror_is_exact [OF sample_feed_ok this run(1), of "\<lambda>_. ''BTC''"] run(2) show ?thesis
    by (auto simp: sample_adapter_def)
qed

theorem published_push_is_accepted_witness:
  "\<exists>a' evs. pushPrices ''0xa'' 101 no_reference 99 (one_push ''BTC'' 1001 2) sample_adapter = Inr (a', evs)
     \<and> outcome_of evs = Some (Outcome_update 1001 2 False)"
proof -
  let ?agg = "Inr \<lparr>ag_symbol = ''BTC'', ag_price = 1001, ag_confidence = 2, ag_used = [''binance'', ''kraken''],
     ag_dropped = [], ag_oldestTs = 0\<rparr> :: aggregate_result"
  have d: "decide (read_feed (\<lambda>_. ''BTC'') no_reference sample_adapter ''BTC'') ?agg sample_context sample_policy
      = Inr (Publish 1001 2 (Predict_update 1001 2 False) Why_heartbeat)" by code_simp
  have self: "lower (dc_self sample_context) = ''0xa''" by code_simp
  have facts: "dc_publishers sample_context = ad_publishers sample_adapter" "lower (dc_self sample_context) \<in> set (ad_publishers sample_adapter)"
    "\<not> ad_paused sample_adapter" "1 \<le> po_inclusionMarginSecs sample_policy" "0 < (1001 :: int)" "small 1001" "0 \<le> (2 :: int)" "small 2"
    "storage_ok sample_adapter ''BTC'' no_reference (dc_chainNow sample_context)" "dc_chainNow sample_context < MAX_SAFE_INTEGER"
    using sample_storage_ok self
    by (simp_all add: sample_context_def sample_adapter_def sample_policy_def small_def MAX_SAFE_INTEGER_def)
  from published_push_is_accepted [OF d facts(1-8) sample_feed_ok facts(9,10)] self
  show ?thesis by (simp add: sample_context_def)
qed

end
