(* ===== verification/Display_Format.thy ===== *)
theory Display_Format
  imports Kryon_Prelude
begin

text \<open>
  Amounts as text and back, \<open>client/lib/format.ts\<close>: rescaling with explicit rounding, fixed-point text with
  optional thousands separators, and the strict parser of what a user typed. The regular
  expressions are written out as functions; text is ASCII with the no-break space.
\<close>

section \<open>Definitions\<close>

datatype rounding = Nearest | Round_down | Round_up

record fixed_options =
  fo_rounding :: rounding
  fo_grouping :: bool
  fo_signAlways :: bool

definition default_fixed :: fixed_options where
  "default_fixed = \<lparr>fo_rounding = Nearest, fo_grouping = True, fo_signAlways = False\<rparr>"

definition pow10 :: "nat \<Rightarrow> int" where "pow10 n = 10 ^ n"

definition rescale :: "int \<Rightarrow> nat \<Rightarrow> nat \<Rightarrow> rounding \<Rightarrow> int" where
  "rescale val decimals dp r =
     (if dp \<ge> decimals then val * pow10 (dp - decimals)
      else let q = pow10 (decimals - dp); neg = val < 0; a = (if neg then - val else val);
               rem = a mod q;
               w = (if rem > 0 \<and> (r = Round_up \<or> r = Nearest \<and> rem * 2 \<ge> q) then a div q + 1 else a div q)
           in if neg then - w else w)"

subsection \<open>Digits\<close>

definition digit_char :: "nat \<Rightarrow> char" where "digit_char n = char_of (48 + n)"

definition is_digit :: "char \<Rightarrow> bool" where
  "is_digit c \<longleftrightarrow> 48 \<le> (of_char c :: nat) \<and> (of_char c :: nat) \<le> 57"

definition digit_value :: "char \<Rightarrow> int" where "digit_value c = int (of_char c) - 48"

text \<open>\<open>toString\<close> of a natural number, and \<open>BigInt\<close> of digits.\<close>

fun nat_text :: "nat \<Rightarrow> string" where
  "nat_text n = (if n < 10 then [digit_char n] else nat_text (n div 10) @ [digit_char (n mod 10)])"

declare nat_text.simps [simp del]

definition digits_value :: "string \<Rightarrow> int" where
  "digits_value s = fold (\<lambda>c n. n * 10 + digit_value c) s 0"

definition padStart :: "nat \<Rightarrow> string \<Rightarrow> string" where
  "padStart n s = replicate (n - length s) CHR ''0'' @ s"

definition padEnd :: "nat \<Rightarrow> string \<Rightarrow> string" where
  "padEnd n s = s @ replicate (n - length s) CHR ''0''"

text \<open>A comma before every position with a multiple of three digits after it, the first excepted.\<close>

function group_digits :: "string \<Rightarrow> string" where
  "group_digits ds = (if length ds \<le> 3 then ds
     else group_digits (take (length ds - 3) ds) @ '','' @ drop (length ds - 3) ds)"
  by pat_completeness auto
termination by (relation "measure length") auto

declare group_digits.simps [simp del]

definition formatFixed :: "int \<Rightarrow> nat \<Rightarrow> nat \<Rightarrow> fixed_options \<Rightarrow> string" where
  "formatFixed val decimals dp opts =
     (let r = rescale val decimals dp (fo_rounding opts); neg = r < 0; a = (if neg then - r else r); unit = pow10 dp;
          whole = nat_text (nat (a div unit));
          frac = (if dp > 0 then ''.'' @ padStart dp (nat_text (nat (a mod unit))) else []);
          prefix = (if neg then ''-'' else if fo_signAlways opts \<and> a > 0 then ''+'' else [])
      in prefix @ (if fo_grouping opts then group_digits whole else whole) @ frac)"

subsection \<open>Parsing\<close>

definition is_space :: "char \<Rightarrow> bool" where
  "is_space c \<longleftrightarrow> (of_char c :: nat) \<in> {9, 10, 11, 12, 13, 32, 160}"

definition trim :: "string \<Rightarrow> string" where
  "trim s = rev (dropWhile is_space (rev (dropWhile is_space s)))"

text \<open>\<open>/,(?=\d{3}(?:\D|$))/g\<close>: a comma with exactly three digits after it goes.\<close>

definition three_digits :: "string \<Rightarrow> bool" where
  "three_digits s \<longleftrightarrow> length (takeWhile is_digit s) = 3"

fun strip_commas :: "string \<Rightarrow> string" where
  "strip_commas [] = []"
| "strip_commas (c # cs) = (if c = CHR '','' \<and> three_digits cs then strip_commas cs else c # strip_commas cs)"

text \<open>\<open>/^\d*\.?\d*$/\<close>\<close>

definition plain_decimal :: "string \<Rightarrow> bool" where
  "plain_decimal s \<longleftrightarrow> (case dropWhile is_digit s of [] \<Rightarrow> True | c # cs \<Rightarrow> c = CHR ''.'' \<and> list_all is_digit cs)"

definition parseAmount :: "string \<Rightarrow> nat \<Rightarrow> int option" where
  "parseAmount input decimals =
     (let txt = strip_commas (trim input) in
      if \<not> plain_decimal txt \<or> txt = [] \<or> txt = ''.'' then None
      else let whole = takeWhile (\<lambda>c. c \<noteq> CHR ''.'') txt; frac = tl (dropWhile (\<lambda>c. c \<noteq> CHR ''.'') txt)
           in if length frac > decimals then None
              else Some (digits_value whole * pow10 decimals + digits_value (padEnd decimals frac)))"

definition priceInput :: "nat \<Rightarrow> int \<Rightarrow> string" where
  "priceInput priceDecimals price = formatFixed price 18 priceDecimals (default_fixed\<lparr>fo_grouping := False\<rparr>)"

definition sizeInput :: "nat \<Rightarrow> int \<Rightarrow> string" where
  "sizeInput sizeDecimals sz = formatFixed sz 18 sizeDecimals (default_fixed\<lparr>fo_grouping := False, fo_rounding := Round_down\<rparr>)"

section \<open>Digits and their values\<close>

lemma of_digit_char [simp]: "n < 10 \<Longrightarrow> (of_char (digit_char n) :: nat) = 48 + n"
  by (simp add: digit_char_def)

lemma digit_char_digit [simp]: "n < 10 \<Longrightarrow> is_digit (digit_char n)"
  by (simp add: is_digit_def)

lemma digit_char_value [simp]: "n < 10 \<Longrightarrow> digit_value (digit_char n) = int n"
  by (simp add: digit_value_def)

lemma nat_text_digits: "list_all is_digit (nat_text n) \<and> nat_text n \<noteq> []"
proof (induction n rule: nat_text.induct)
  case (1 n)
  then show ?case by (subst (1 2) nat_text.simps) auto
qed

lemma digits_value_snoc [simp]: "digits_value (s @ [c]) = digits_value s * 10 + digit_value c"
  by (simp add: digits_value_def)

lemma digits_value_nat_text [simp]: "digits_value (nat_text n) = int n"
proof (induction n rule: nat_text.induct)
  case (1 n)
  show ?case
  proof (cases "n < 10")
    case True
    then show ?thesis by (subst nat_text.simps) (simp add: digits_value_def)
  next
    case False
    with 1 have "digits_value (nat_text n) = int (n div 10) * 10 + int (n mod 10)" by (subst nat_text.simps) simp
    then show ?thesis by presburger
  qed
qed

lemma digits_value_zeros: "digits_value (replicate k CHR ''0'' @ s) = digits_value s"
  by (induction k) (simp_all add: digits_value_def digit_value_def)

lemma digits_value_pad [simp]: "digits_value (padStart n s) = digits_value s"
  by (simp add: padStart_def digits_value_zeros)

lemma digits_value_trailing: "digits_value (s @ replicate k CHR ''0'') = digits_value s * 10 ^ k"
proof (induction k)
  case (Suc k)
  have "digits_value (s @ replicate (Suc k) CHR ''0'') = digits_value ((s @ replicate k CHR ''0'') @ [CHR ''0''])"
    by (metis append.assoc replicate_append_same replicate_Suc)
  also have "\<dots> = digits_value (s @ replicate k CHR ''0'') * 10" by (simp only: digits_value_snoc) (simp add: digit_value_def)
  finally show ?case using Suc by simp
qed simp

lemma length_nat_text: "n < 10 ^ k \<Longrightarrow> 0 < k \<Longrightarrow> length (nat_text n) \<le> k"
proof (induction n arbitrary: k rule: nat_text.induct)
  case (1 n)
  show ?case
  proof (cases "n < 10")
    case True
    with 1(3) show ?thesis by (subst nat_text.simps) simp
  next
    case False
    then obtain k' where k: "k = Suc k'" "0 < k'" using 1(2,3) by (cases k; cases "k - 1") auto
    then have "n div 10 < 10 ^ k'" using 1(2) by (simp add: less_mult_imp_div_less)
    from 1(1) [OF False this k(2)] show ?thesis using False k by (subst nat_text.simps) simp
  qed
qed

section \<open>Separators come out again\<close>

lemma digit_not_special: "is_digit c \<Longrightarrow> c \<noteq> CHR '','' \<and> c \<noteq> CHR ''.'' \<and> \<not> is_space c"
  by (auto simp: is_digit_def is_space_def)

lemma strip_digits: "list_all is_digit ds \<Longrightarrow> strip_commas (ds @ t) = ds @ strip_commas t"
  by (induction ds) (auto dest: digit_not_special)

definition no_digit_first :: "string \<Rightarrow> bool" where
  "no_digit_first t \<longleftrightarrow> (case t of [] \<Rightarrow> True | c # _ \<Rightarrow> \<not> is_digit c)"

lemma three_digits_group:
  assumes "list_all is_digit ds" and "length ds = 3" and "no_digit_first t"
  shows "three_digits (ds @ t)"
proof -
  have "takeWhile is_digit (ds @ t) = ds"
    using assms(1,3) by (cases t) (simp_all add: no_digit_first_def list_all_iff)
  with assms(2) show ?thesis unfolding three_digits_def by simp
qed

lemma strip_group:
  "list_all is_digit ds \<Longrightarrow> no_digit_first t \<Longrightarrow> strip_commas (group_digits ds @ t) = ds @ strip_commas t"
proof (induction ds arbitrary: t rule: group_digits.induct)
  case (1 ds)
  show ?case
  proof (cases "length ds \<le> 3")
    case True
    then show ?thesis using 1(2) by (subst group_digits.simps) (simp add: strip_digits)
  next
    case False
    define pre post where "pre = take (length ds - 3) ds" and "post = drop (length ds - 3) ds"
    have ds: "ds = pre @ post" by (simp add: pre_def post_def)
    have parts: "list_all is_digit pre" "list_all is_digit post" "length post = 3"
      using 1(2) False by (auto simp: pre_def post_def list_all_iff dest: in_set_takeD in_set_dropD)
    have "no_digit_first ('','' @ post @ t)" by (simp add: no_digit_first_def is_digit_def)
    from 1(1) [OF False parts(1) [unfolded pre_def] this]
    have "strip_commas (group_digits pre @ '','' @ post @ t) = pre @ strip_commas ('','' @ post @ t)" by (simp add: pre_def)
    moreover have "strip_commas ('','' @ post @ t) = post @ strip_commas t"
      using three_digits_group [OF parts(2,3) 1(3)] by (simp add: strip_digits [OF parts(2)])
    moreover have "group_digits ds = group_digits pre @ '','' @ post"
      using False by (subst group_digits.simps) (simp add: pre_def post_def)
    ultimately show ?thesis by (simp add: ds)
  qed
qed

lemma group_nonempty: "ds \<noteq> [] \<Longrightarrow> list_all is_digit ds \<Longrightarrow> \<exists>c cs. group_digits ds = c # cs \<and> is_digit c"
proof (induction ds rule: group_digits.induct)
  case (1 ds)
  show ?case
  proof (cases "length ds \<le> 3")
    case True
    then show ?thesis using 1(2,3) by (subst group_digits.simps) (cases ds; simp)
  next
    case False
    have "take (length ds - 3) ds \<noteq> []" "list_all is_digit (take (length ds - 3) ds)"
      using False 1(3) by (auto simp: list_all_iff dest: in_set_takeD)
    from 1(1) [OF False this] show ?thesis using False by (subst group_digits.simps) auto
  qed
qed

lemma group_last: "ds \<noteq> [] \<Longrightarrow> last (group_digits ds) = last ds"
  by (subst group_digits.simps) auto

lemma trim_id:
  assumes "s \<noteq> []" and "\<not> is_space (hd s)" and "\<not> is_space (last s)"
  shows "trim s = s"
proof -
  have "dropWhile is_space s = s" using assms(1,2) by (cases s) auto
  moreover have "dropWhile is_space (rev s) = rev s" using assms(1,3) by (cases "rev s") (auto simp: hd_rev [symmetric])
  ultimately show ?thesis by (simp add: trim_def)
qed

section \<open>What is shown parses to what was meant\<close>

text \<open>Plain fixed-point text: digits, and a point with digits when there are decimals.\<close>

lemma parse_fixed:
  assumes w: "list_all is_digit whole" "whole \<noteq> []" and f: "list_all is_digit frac" "length frac \<le> d"
    and shown: "shown = whole \<or> shown = group_digits whole"
  shows "parseAmount (shown @ (if frac = [] then [] else ''.'' @ frac)) d
     = Some (digits_value whole * pow10 d + digits_value frac * 10 ^ (d - length frac))"
proof -
  define t where "t = (if frac = [] then [] else ''.'' @ frac)"
  have t: "no_digit_first t" by (simp add: t_def no_digit_first_def is_digit_def)
  have st: "strip_commas t = t" using strip_digits [OF f(1), of "[]"] by (simp add: t_def)
  have strip: "strip_commas (shown @ t) = whole @ t" using shown strip_digits [OF w(1)] strip_group [OF w(1) t] st by auto
  obtain c cs where c: "shown = c # cs" "is_digit c"
    using shown w group_nonempty [OF w(2,1)] by (cases whole) auto
  have "is_digit (last whole)" "frac \<noteq> [] \<Longrightarrow> is_digit (last frac)" using w f(1) by (auto simp: list_all_iff)
  then have lastd: "is_digit (last (shown @ t))"
  proof (cases "frac = []")
    case True
    have "last shown = last whole" using shown group_last [OF w(2)] by auto
    with True \<open>is_digit (last whole)\<close> show ?thesis by (simp add: t_def)
  qed (simp add: t_def)
  have trimmed: "trim (shown @ t) = shown @ t"
    by (rule trim_id) (use c lastd digit_not_special in auto)
  have "whole @ t \<noteq> []" "whole @ t \<noteq> ''.''" using w by (cases whole; auto simp: is_digit_def)+
  moreover have "plain_decimal (whole @ t)"
    using w(1) f(1) by (auto simp: plain_decimal_def t_def dropWhile_append list_all_iff is_digit_def)
  moreover have "takeWhile (\<lambda>c. c \<noteq> CHR ''.'') (whole @ t) = whole"
    using w(1) digit_not_special by (auto simp: t_def list_all_iff takeWhile_append)
  moreover have "tl (dropWhile (\<lambda>c. c \<noteq> CHR ''.'') (whole @ t)) = frac"
    using w(1) digit_not_special by (auto simp: t_def list_all_iff dropWhile_append)
  ultimately show ?thesis
    unfolding parseAmount_def t_def [symmetric] trimmed strip Let_def using f(2)
    by (simp add: padEnd_def digits_value_trailing)
qed

lemma rescale_nonneg:
  assumes "0 \<le> val"
  shows "0 \<le> rescale val decimals dp r"
proof -
  have "0 \<le> val div 10 ^ (decimals - dp)" using assms by (simp add: pos_imp_zdiv_nonneg_iff)
  with assms show ?thesis by (auto simp: rescale_def pow10_def Let_def)
qed

text \<open>
  What rescaling may return, at the original scale: the multiple of the unit that the rounding asks for. There is only
  one, so a text that meets this shows exactly the rounded amount. A half goes up.
\<close>

definition rounds_to :: "int \<Rightarrow> int \<Rightarrow> rounding \<Rightarrow> int \<Rightarrow> bool" where
  "rounds_to val unit r w \<longleftrightarrow> unit dvd w \<and> (case r of
       Round_down \<Rightarrow> w \<le> val \<and> val < w + unit
     | Round_up \<Rightarrow> val \<le> w \<and> w < val + unit
     | Nearest \<Rightarrow> 2 * (val - w) < unit \<and> 2 * (w - val) \<le> unit)"

lemma rounds_to_unique:
  assumes "rounds_to val unit r v" and "rounds_to val unit r w"
  shows "v = w"
proof -
  have "unit dvd v - w" using assms by (simp add: rounds_to_def)
  then have "v - w \<noteq> 0 \<Longrightarrow> \<bar>unit\<bar> \<le> \<bar>v - w\<bar>" by (rule dvd_imp_le_int [rotated])
  moreover have "\<bar>v - w\<bar> < unit" using assms by (cases r) (auto simp: rounds_to_def abs_less_iff)
  ultimately show ?thesis by linarith
qed

lemma rescale_rounds:
  assumes "0 \<le> val" and "dp \<le> decimals"
  shows "rounds_to val (10 ^ (decimals - dp)) r (rescale val decimals dp r * 10 ^ (decimals - dp))"
proof (cases "dp \<ge> decimals")
  case True
  with assms show ?thesis by (cases r) (simp_all add: rescale_def pow10_def rounds_to_def)
next
  case False
  define q where "q = (10 :: int) ^ (decimals - dp)"
  have q: "0 < q" by (simp add: q_def)
  have split: "val = val div q * q + val mod q" "0 \<le> val mod q" "val mod q < q" using q by simp_all
  have "rescale val decimals dp r * q = (val div q) * q + (if val mod q > 0 \<and> (r = Round_up \<or> r = Nearest \<and> val mod q * 2 \<ge> q) then q else 0)"
    using False assms(1) by (cases r) (simp_all add: rescale_def Let_def pow10_def q_def [symmetric] distrib_right)
  moreover define X m where "X = val div q * q" and "m = val mod q"
  ultimately have res: "rescale val decimals dp r * q = X + (if m > 0 \<and> (r = Round_up \<or> r = Nearest \<and> m * 2 \<ge> q) then q else 0)"
    and val: "val = X + m" "0 \<le> m" "m < q" using split by simp_all
  have "q dvd rescale val decimals dp r * q" by simp
  then show ?thesis unfolding q_def [symmetric] rounds_to_def res using val by (cases r) auto
qed

text \<open>Every text of a non-negative amount parses to the amount that was asked for, and shows no comma unless separators are on.\<close>

lemma format_parses:
  assumes "0 \<le> val" and "dp \<le> decimals" and "\<not> fo_signAlways opts"
  shows "\<exists>w. parseAmount (formatFixed val decimals dp opts) decimals = Some w
     \<and> rounds_to val (10 ^ (decimals - dp)) (fo_rounding opts) w"
    and "\<not> fo_grouping opts \<Longrightarrow> list_all (\<lambda>c. is_digit c \<or> c = CHR ''.'') (formatFixed val decimals dp opts)"
proof -
  define r where "r = rescale val decimals dp (fo_rounding opts)"
  define w where "w = r * pow10 (decimals - dp)"
  define whole frac where "whole = nat_text (nat (r div pow10 dp))"
    and "frac = (if dp > 0 then padStart dp (nat_text (nat (r mod pow10 dp))) else [])"
  have r: "0 \<le> r" using rescale_nonneg [OF assms(1)] by (simp add: r_def)
  have unit: "0 < pow10 dp" by (simp add: pow10_def)
  have frac: "length frac = dp" "list_all is_digit frac" "digits_value frac = r mod pow10 dp"
  proof -
    have "nat (r mod pow10 dp) < 10 ^ dp" using unit pos_mod_bound [OF unit, of r] by (simp add: pow10_def nat_less_iff)
    from length_nat_text [OF this] show "length frac = dp" by (auto simp: frac_def padStart_def)
    show "list_all is_digit frac" using nat_text_digits by (auto simp: frac_def padStart_def list_all_iff is_digit_def)
    have "digits_value [] = 0" by (simp add: digits_value_def)
    then show "digits_value frac = r mod pow10 dp" using unit by (auto simp: frac_def pow10_def)
  qed
  have shown: "formatFixed val decimals dp opts
      = (if fo_grouping opts then group_digits whole else whole) @ (if frac = [] then [] else ''.'' @ frac)"
    using r assms(3) frac(1) by (auto simp: formatFixed_def Let_def r_def [symmetric] whole_def frac_def)
  have "parseAmount (formatFixed val decimals dp opts) decimals
      = Some (digits_value whole * pow10 decimals + digits_value frac * 10 ^ (decimals - dp))"
    unfolding shown using parse_fixed [of whole frac decimals "if fo_grouping opts then group_digits whole else whole"]
      nat_text_digits frac assms(2) by (simp add: whole_def)
  also have "digits_value whole * pow10 decimals + digits_value frac * 10 ^ (decimals - dp) = w"
  proof -
    have "pow10 decimals = pow10 dp * pow10 (decimals - dp)" using assms(2) by (simp add: pow10_def flip: power_add)
    moreover have "digits_value whole = r div pow10 dp" using r unit by (simp add: whole_def pos_imp_zdiv_nonneg_iff)
    moreover have "(r div pow10 dp) * pow10 dp + r mod pow10 dp = r" by simp
    ultimately show ?thesis using frac(3) unfolding w_def
      by (metis (no_types, lifting) distrib_right mult.assoc pow10_def)
  qed
  finally have parse: "parseAmount (formatFixed val decimals dp opts) decimals = Some w" .
  have "rounds_to val (10 ^ (decimals - dp)) (fo_rounding opts) w"
    using rescale_rounds [OF assms(1,2), of "fo_rounding opts"] by (simp add: w_def r_def pow10_def)
  then show "\<exists>w. parseAmount (formatFixed val decimals dp opts) decimals = Some w
     \<and> rounds_to val (10 ^ (decimals - dp)) (fo_rounding opts) w" using parse by blast
  show "list_all (\<lambda>c. is_digit c \<or> c = CHR ''.'') (formatFixed val decimals dp opts)" if "\<not> fo_grouping opts"
    using that nat_text_digits frac(2) unfolding shown whole_def by (auto simp: list_all_iff)
qed

text \<open>
  C30. What the app puts into an input is what the parser reads back. The text of \<open>formatFixed\<close> for a non-negative
  amount at any scale, with at most that many decimals, with or without separators, without a forced plus sign and with any rounding, parses to
  exactly the amount rounded as asked to the decimals shown (\<open>rounds_to\<close> has one solution): down to the multiple of
  the last place at or below it, up to the one at or above it, or to the nearest, a half going up. So with all
  decimals shown it is the amount itself. In particular the text of \<open>sizeInput\<close> has only digits and a point and
  parses to the largest size of the market's decimals that does not exceed its source, and that of
  \<open>priceInput\<close> to the nearest price.
\<close>

theorem shown_amount_parses_back:
  assumes "0 \<le> val" and "dp \<le> decimals" and "\<not> fo_signAlways opts" and "places \<le> 18"
  shows "(\<exists>w. parseAmount (formatFixed val decimals dp opts) decimals = Some w
       \<and> rounds_to val (10 ^ (decimals - dp)) (fo_rounding opts) w \<and> (dp = decimals \<longrightarrow> w = val))
    \<and> (\<exists>w. parseAmount (sizeInput places val) 18 = Some w
       \<and> 10 ^ (18 - places) dvd w \<and> w \<le> val \<and> val < w + 10 ^ (18 - places))
    \<and> (\<exists>w. parseAmount (priceInput places val) 18 = Some w
       \<and> 10 ^ (18 - places) dvd w \<and> 2 * (val - w) < 10 ^ (18 - places) \<and> 2 * (w - val) \<le> 10 ^ (18 - places))
    \<and> list_all (\<lambda>c. is_digit c \<or> c = CHR ''.'') (sizeInput places val)
    \<and> list_all (\<lambda>c. is_digit c \<or> c = CHR ''.'') (priceInput places val)"
proof (intro conjI)
  obtain w where w: "parseAmount (formatFixed val decimals dp opts) decimals = Some w"
      "rounds_to val (10 ^ (decimals - dp)) (fo_rounding opts) w"
    using format_parses(1) [OF assms(1-3)] by blast
  have "rounds_to val 1 (fo_rounding opts) val" by (cases "fo_rounding opts") (simp_all add: rounds_to_def)
  then have "dp = decimals \<longrightarrow> w = val" using w(2) rounds_to_unique by fastforce
  with w show "\<exists>w. parseAmount (formatFixed val decimals dp opts) decimals = Some w
       \<and> rounds_to val (10 ^ (decimals - dp)) (fo_rounding opts) w \<and> (dp = decimals \<longrightarrow> w = val)" by blast
  let ?s = "default_fixed\<lparr>fo_grouping := False, fo_rounding := Round_down\<rparr>" and ?p = "default_fixed\<lparr>fo_grouping := False\<rparr>"
  have s: "\<not> fo_signAlways ?s" "\<not> fo_grouping ?s" "fo_rounding ?s = Round_down"
    and p: "\<not> fo_signAlways ?p" "\<not> fo_grouping ?p" "fo_rounding ?p = Nearest" by (simp_all add: default_fixed_def)
  show "\<exists>w. parseAmount (sizeInput places val) 18 = Some w
       \<and> 10 ^ (18 - places) dvd w \<and> w \<le> val \<and> val < w + 10 ^ (18 - places)"
    using format_parses(1) [OF assms(1,4) s(1)] unfolding s(3) sizeInput_def by (auto simp: rounds_to_def)
  show "\<exists>w. parseAmount (priceInput places val) 18 = Some w
       \<and> 10 ^ (18 - places) dvd w \<and> 2 * (val - w) < 10 ^ (18 - places) \<and> 2 * (w - val) \<le> 10 ^ (18 - places)"
    using format_parses(1) [OF assms(1,4) p(1)] unfolding p(3) priceInput_def by (auto simp: rounds_to_def)
  show "list_all (\<lambda>c. is_digit c \<or> c = CHR ''.'') (sizeInput places val)"
    using format_parses(2) [OF assms(1,4) s(1,2)] by (simp add: sizeInput_def)
  show "list_all (\<lambda>c. is_digit c \<or> c = CHR ''.'') (priceInput places val)"
    using format_parses(2) [OF assms(1,4) p(1,2)] by (simp add: priceInput_def)
qed

theorem shown_amount_parses_back_witness:
  "formatFixed 1234567899 6 2 default_fixed = ''1,234.57''
   \<and> (\<exists>w. parseAmount ''1,234.57'' 6 = Some w \<and> rounds_to 1234567899 (10 ^ 4) Nearest w)
   \<and> sizeInput 4 123456789000000000 = ''0.1234''
   \<and> (\<exists>w. parseAmount ''0.1234'' 18 = Some w \<and> w \<le> 123456789000000000 \<and> 123456789000000000 < w + 10 ^ 14)"
proof -
  have shown: "formatFixed 1234567899 6 2 default_fixed = ''1,234.57''" "sizeInput 4 123456789000000000 = ''0.1234''"
    by code_simp+
  have opts: "\<not> fo_signAlways default_fixed" "fo_rounding default_fixed = Nearest" by (simp_all add: default_fixed_def)
  from shown_amount_parses_back [of 1234567899 2 6 default_fixed 2] opts shown
  have "\<exists>w. parseAmount ''1,234.57'' 6 = Some w \<and> rounds_to 1234567899 (10 ^ 4) Nearest w" by auto
  moreover from shown_amount_parses_back [of 123456789000000000 2 6 default_fixed 4] opts shown
  have "\<exists>w. parseAmount ''0.1234'' 18 = Some w \<and> w \<le> 123456789000000000 \<and> 123456789000000000 < w + 10 ^ 14" by auto
  ultimately show ?thesis using shown by simp
qed

text \<open>
  A comma is also dropped behind the point, where it separates nothing: a European 1234.567 is read as
  a thousandth of it.
\<close>

lemma comma_behind_point: "parseAmount ''1.234,567'' 6 = Some 1234567"
  by code_simp

end
