(* ===== verification/Order_Ticket.thy ===== *)
theory Order_Ticket
  imports Kryon_Math
begin

text \<open>
  The order ticket, \<open>client/lib/market/order-ticket.ts\<close>: the price to sign, the checks made before signing
  and the previews, with the position arithmetic of \<open>Kryon_Math\<close>. Basis points and fee rates are
  integers, so the code's \<open>Math.round\<close> of them is the identity. The texts of the errors are left out.
\<close>

section \<open>Input and result\<close>

datatype ticket_side = Buy | Sell
datatype order_kind = Market_order | Limit_order

record ticket_market =
  tm_active :: bool
  tm_initialMarginBps :: int
  tm_maintenanceMarginBps :: int
  tm_minFillNotional :: int
  tm_maxExecutionDeviationBps :: int

record ticket_health =
  th_equity :: int
  th_initialMarginRequired :: int
  th_maintenanceMarginRequired :: int

record ticket_input =
  ti_market :: ticket_market
  ti_side :: ticket_side
  ti_kind :: order_kind
  ti_size :: "int option"
  ti_limitPrice :: "int option"
  ti_slippageBps :: int
  ti_reduceOnly :: bool
  ti_postOnly :: bool
  ti_bestBid :: "int option"
  ti_bestAsk :: "int option"
  ti_indexPrice :: int
  ti_position :: position_state
  ti_health :: "ticket_health option"
  ti_makerRate :: int
  ti_takerRate :: int

datatype ticket_error = Market_inactive | No_size | No_price | No_reference_price | Below_min | Post_only_would_cross
  | Reduce_only_none | Reduce_only_wrong_side | Reduce_only_too_large | Insufficient_margin

record ticket_result =
  tt_limitPrice :: "int option"
  tt_execPrice :: "int option"
  tt_crosses :: bool
  tt_notional :: int
  tt_slippageClamped :: bool
  tt_fee :: int
  tt_orderMargin :: int
  tt_positionAfter :: position_state
  tt_liquidationPrice :: "int option"
  tt_marginHeadroom :: "int option"
  tt_errors :: "ticket_error list"

section \<open>The checks\<close>

definition is_buy :: "ticket_input \<Rightarrow> bool" where
  "is_buy x \<longleftrightarrow> ti_side x = Buy"

definition opposite_price :: "ticket_input \<Rightarrow> int option" where
  "opposite_price x = (if is_buy x then ti_bestAsk x else ti_bestBid x)"

text \<open>The price section: the limit price, whether slippage was cut to the band, and its errors.\<close>

definition ticket_price :: "ticket_input \<Rightarrow> int option \<times> bool \<times> ticket_error list" where
  "ticket_price x =
     (case ti_kind x of
        Limit_order \<Rightarrow> (case ti_limitPrice x of
            Some p \<Rightarrow> if p > 0 then (Some p, False, []) else (None, False, [No_price])
          | None \<Rightarrow> (None, False, [No_price]))
      | Market_order \<Rightarrow>
          (case (case opposite_price x of Some p \<Rightarrow> Some p
                 | None \<Rightarrow> if ti_indexPrice x > 0 then Some (ti_indexPrice x) else None) of
             None \<Rightarrow> (None, False, [No_reference_price])
           | Some reference \<Rightarrow>
             let slip = max 0 (ti_slippageBps x);
                 limitPrice = (if is_buy x then (reference * (BPS + slip)) sdiv BPS else (reference * (BPS - slip)) sdiv BPS);
                 band = max 0 (tm_maxExecutionDeviationBps (ti_market x));
                 edge = (if is_buy x then (ti_indexPrice x * (BPS + band)) sdiv BPS else (ti_indexPrice x * (BPS - band)) sdiv BPS);
                 clamp = (ti_indexPrice x > 0 \<and> (if is_buy x then limitPrice > edge else limitPrice < edge));
                 clamped = (if clamp then edge else limitPrice)
             in (Some (if clamped \<le> 0 then 1 else clamped), clamp, [])))"

definition reduce_only_errors :: "ticket_input \<Rightarrow> ticket_error list" where
  "reduce_only_errors x =
     (case ti_size x of None \<Rightarrow> []
      | Some sz \<Rightarrow> if \<not> ti_reduceOnly x \<or> sz \<le> 0 then []
         else let pos = ps_size (ti_position x) in
           if pos = 0 then [Reduce_only_none]
           else if (pos > 0) = is_buy x then [Reduce_only_wrong_side]
           else if sz > \<bar>pos\<bar> then [Reduce_only_too_large] else [])"

text \<open>
  The code computes one value after another; each is a function of the input here, in the order of
  the code.
\<close>

definition ticket_delta :: "ticket_input \<Rightarrow> int" where
  "ticket_delta x = (case ti_size x of None \<Rightarrow> 0 | Some sz \<Rightarrow> if is_buy x then sz else - sz)"

definition ticket_crosses :: "ticket_input \<Rightarrow> bool" where
  "ticket_crosses x = (case fst (ticket_price x) of None \<Rightarrow> False
     | Some l \<Rightarrow> (case opposite_price x of None \<Rightarrow> False | Some p \<Rightarrow> if is_buy x then l \<ge> p else l \<le> p))"

definition ticket_exec :: "ticket_input \<Rightarrow> int option" where
  "ticket_exec x = (if fst (ticket_price x) = None then None
     else if ticket_crosses x then opposite_price x else fst (ticket_price x))"

definition ticket_notional :: "ticket_input \<Rightarrow> int" where
  "ticket_notional x = (case ticket_exec x of None \<Rightarrow> 0
     | Some e \<Rightarrow> (case ti_size x of None \<Rightarrow> 0 | Some sz \<Rightarrow> notional sz e))"

definition early_errors :: "ticket_input \<Rightarrow> ticket_error list" where
  "early_errors x = snd (snd (ticket_price x))
     @ (if \<not> tm_active (ti_market x) \<and> \<not> ti_reduceOnly x then [Market_inactive] else [])
     @ (case ti_size x of None \<Rightarrow> [No_size] | Some sz \<Rightarrow> if sz \<le> 0 then [No_size] else [])
     @ (if ti_postOnly x \<and> ti_kind x = Limit_order \<and> ticket_crosses x then [Post_only_would_cross] else [])
     @ (if ticket_notional x > 0 \<and> ticket_notional x < tm_minFillNotional (ti_market x) then [Below_min] else [])
     @ reduce_only_errors x"

definition ticket_fee :: "ticket_input \<Rightarrow> int" where
  "ticket_fee x = (if ticket_notional x > 0
     then feeFor (ticket_notional x) (if ticket_crosses x then ti_takerRate x else ti_makerRate x) else 0)"

definition unchanged :: "position_state \<Rightarrow> fill_result" where
  "unchanged p = \<lparr>ps_size = ps_size p, ps_openNotional = ps_openNotional p, fr_realized = 0, fr_increased = False\<rparr>"

definition ticket_after :: "ticket_input \<Rightarrow> fill_result" where
  "ticket_after x = (case ticket_exec x of None \<Rightarrow> unchanged (ti_position x)
     | Some e \<Rightarrow> if ticket_delta x \<noteq> 0 then applyFill (ti_position x) (ticket_delta x) e else unchanged (ti_position x))"

text \<open>The margin section, when there is an account, an index and an order: equity, margin and maintenance after the fill.\<close>

definition equity_after :: "ticket_input \<Rightarrow> ticket_health \<Rightarrow> int \<Rightarrow> int" where
  "equity_after x h e = th_equity h - ticket_fee x + (ticket_delta x * (ti_indexPrice x - e)) sdiv E18"

definition margin_after :: "ticket_input \<Rightarrow> ticket_health \<Rightarrow> int" where
  "margin_after x h = (let im = tm_initialMarginBps (ti_market x); index = ti_indexPrice x in
     th_initialMarginRequired h - marginAt (ps_size (ti_position x)) index im + marginAt (ps_size (ticket_after x)) index im)"

definition other_maintenance :: "ticket_input \<Rightarrow> ticket_health \<Rightarrow> int" where
  "other_maintenance x h = th_maintenanceMarginRequired h
     - marginAt (ps_size (ti_position x)) (ti_indexPrice x) (tm_maintenanceMarginBps (ti_market x))"

definition ticket_margin :: "ticket_input \<Rightarrow> (ticket_health \<times> int) option" where
  "ticket_margin x = (case ti_health x of None \<Rightarrow> None
     | Some h \<Rightarrow> if ti_indexPrice x > 0 \<and> ticket_delta x \<noteq> 0 then map_option (\<lambda>e. (h, e)) (ticket_exec x) else None)"

definition ticket_headroom :: "ticket_input \<Rightarrow> int option" where
  "ticket_headroom x = map_option (\<lambda>(h, e). equity_after x h e - margin_after x h) (ticket_margin x)"

definition margin_errors :: "ticket_input \<Rightarrow> ticket_error list" where
  "margin_errors x = (case ticket_headroom x of None \<Rightarrow> []
     | Some r \<Rightarrow> if fr_increased (ticket_after x) \<and> r < 0 then [Insufficient_margin] else [])"

definition ticket_liquidation :: "ticket_input \<Rightarrow> int option" where
  "ticket_liquidation x = (case ticket_margin x of None \<Rightarrow> None
     | Some (h, e) \<Rightarrow> liquidationPrice \<lparr>li_size = ps_size (ticket_after x), li_equity = equity_after x h e,
         li_price = ti_indexPrice x, li_maintenanceMarginBps = tm_maintenanceMarginBps (ti_market x),
         li_otherMaintenance = Some (if other_maintenance x h > 0 then other_maintenance x h else 0)\<rparr>)"

definition evaluateTicket :: "ticket_input \<Rightarrow> ticket_result" where
  "evaluateTicket x = \<lparr>tt_limitPrice = fst (ticket_price x), tt_execPrice = ticket_exec x, tt_crosses = ticket_crosses x,
     tt_notional = ticket_notional x, tt_slippageClamped = fst (snd (ticket_price x)), tt_fee = ticket_fee x,
     tt_orderMargin = (ticket_notional x * tm_initialMarginBps (ti_market x)) sdiv BPS,
     tt_positionAfter = \<lparr>ps_size = ps_size (ticket_after x), ps_openNotional = ps_openNotional (ticket_after x)\<rparr>,
     tt_liquidationPrice = ticket_liquidation x, tt_marginHeadroom = ticket_headroom x,
     tt_errors = early_errors x @ margin_errors x\<rparr>"

definition maxOrderSize :: "int \<Rightarrow> int \<Rightarrow> int \<Rightarrow> int \<Rightarrow> int \<Rightarrow> int" where
  "maxOrderSize headroom price initialMarginBps takerRate step =
     (if headroom \<le> 0 \<or> price \<le> 0 \<or> step \<le> 0 then 0
      else let perUnit = (price * (initialMarginBps * 100 + max 0 takerRate)) sdiv 1000000 in
        if perUnit \<le> 0 then 0
        else let raw = (headroom * 10 ^ 18) sdiv perUnit in (raw sdiv step) * step)"

section \<open>The price is inside the band\<close>

lemma market_price_in_band:
  assumes "ti_kind x = Market_order" and "0 < ti_indexPrice x" and "0 \<le> tm_maxExecutionDeviationBps (ti_market x)"
    and "fst (ticket_price x) = Some l"
  shows "0 < l" and "is_buy x \<Longrightarrow> l \<le> (ti_indexPrice x * (BPS + tm_maxExecutionDeviationBps (ti_market x))) sdiv BPS"
    and "\<not> is_buy x \<Longrightarrow> (ti_indexPrice x * (BPS - tm_maxExecutionDeviationBps (ti_market x))) sdiv BPS \<le> l"
proof -
  have pos: "1 \<le> (ti_indexPrice x * (BPS + tm_maxExecutionDeviationBps (ti_market x))) sdiv BPS"
    using assms(2,3) by (subst sdiv_le_iff) (auto simp: BPS_def intro: order_trans [of _ "ti_indexPrice x * 10000"])
  show "0 < l" using assms by (auto simp: ticket_price_def Let_def split: option.splits if_splits)
  show "is_buy x \<Longrightarrow> l \<le> (ti_indexPrice x * (BPS + tm_maxExecutionDeviationBps (ti_market x))) sdiv BPS"
    using assms pos by (auto simp: ticket_price_def Let_def split: option.splits if_splits)
  show "\<not> is_buy x \<Longrightarrow> (ti_indexPrice x * (BPS - tm_maxExecutionDeviationBps (ti_market x))) sdiv BPS \<le> l"
    using assms by (auto simp: ticket_price_def Let_def split: option.splits if_splits)
qed

section \<open>An order without errors\<close>

lemma no_early_errors:
  assumes "early_errors x = []"
  obtains sz where "ti_size x = Some sz" and "0 < sz" and "snd (snd (ticket_price x)) = []" and "reduce_only_errors x = []"
    and "tm_active (ti_market x) \<or> ti_reduceOnly x"
    and "0 < ticket_notional x \<Longrightarrow> tm_minFillNotional (ti_market x) \<le> ticket_notional x"
    and "ti_postOnly x \<Longrightarrow> ti_kind x = Limit_order \<Longrightarrow> \<not> ticket_crosses x"
  using assms by (auto simp: early_errors_def not_le not_less split: option.splits if_splits)

lemma priced: "snd (snd (ticket_price x)) = [] \<Longrightarrow> \<exists>l. fst (ticket_price x) = Some l \<and> 0 < l"
  by (auto simp: ticket_price_def Let_def split: option.splits if_splits order_kind.splits)

lemma exec_at_or_better:
  assumes "fst (ticket_price x) = Some l" and "0 < l" and "\<And>p. opposite_price x = Some p \<Longrightarrow> 0 < p"
  obtains e where "ticket_exec x = Some e" and "0 < e" and "if is_buy x then e \<le> l else l \<le> e"
proof (cases "ticket_crosses x")
  case True
  then obtain p where "opposite_price x = Some p" "if is_buy x then p \<le> l else l \<le> p"
    using assms(1) by (auto simp: ticket_crosses_def split: option.splits if_splits)
  then show thesis using True assms by (intro that [of p]) (auto simp: ticket_exec_def)
next
  case False
  then show thesis using assms by (intro that [of l]) (auto simp: ticket_exec_def)
qed

lemma reduce_only_shrinks:
  assumes "reduce_only_errors x = []" and "ti_reduceOnly x" and "ti_size x = Some sz" and "0 < sz" and "ticket_exec x = Some e"
  shows "\<bar>ps_size (ticket_after x)\<bar> = \<bar>ps_size (ti_position x)\<bar> - sz" and "\<not> fr_increased (ticket_after x)"
proof -
  let ?p = "ps_size (ti_position x)"
  have p: "?p \<noteq> 0" "(?p > 0) \<noteq> is_buy x" "sz \<le> \<bar>?p\<bar>"
    using assms(1-4) by (auto simp: reduce_only_errors_def Let_def split: if_splits)
  then show "\<bar>ps_size (ticket_after x)\<bar> = \<bar>?p\<bar> - sz" "\<not> fr_increased (ticket_after x)"
    using assms(3-5) by (auto simp: ticket_after_def ticket_delta_def applyFill_def Let_def split: if_splits)
qed

definition band_ok :: "ticket_input \<Rightarrow> int \<Rightarrow> bool" where
  "band_ok x l \<longleftrightarrow> (let band = tm_maxExecutionDeviationBps (ti_market x) in
     if is_buy x then l \<le> (ti_indexPrice x * (BPS + band)) sdiv BPS else (ti_indexPrice x * (BPS - band)) sdiv BPS \<le> l)"

text \<open>
  The margin clause is stated in the terms of the account, not of the ticket: what the fill realizes
  and how it moves the position's unrealized PnL at the index. The code computes it as one product.
\<close>

lemma sdiv_error: "\<bar>E18 * (a sdiv E18) - a\<bar> < E18"
proof (cases "0 \<le> a")
  case True
  then show ?thesis
    using sdiv_mult_le [of a E18] sdiv_mult_gt [of a E18] by (auto simp: abs_less_iff algebra_simps)
next
  case False
  then show ?thesis
    using sdiv_mult_le [of "- a" E18] sdiv_mult_gt [of "- a" E18] by (auto simp: abs_less_iff algebra_simps)
qed

definition fill_gain :: "position_state \<Rightarrow> int \<Rightarrow> int \<Rightarrow> int \<Rightarrow> int" where
  "fill_gain p delta price index = (let a = applyFill p delta price in
     fr_realized a + unrealizedPnl (ps_size a) (ps_openNotional a) index
       - unrealizedPnl (ps_size p) (ps_openNotional p) index)"

lemma unrealized_value:
  assumes "position_ok p"
  shows "unrealizedPnl (ps_size p) (ps_openNotional p) index = (ps_size p * index) sdiv E18 - ps_openNotional p"
  using assms by (auto simp: unrealizedPnl_def mulDiv_def position_ok_def)

lemma fill_gain_value:
  assumes "position_ok p" and "0 \<le> price"
  shows "fill_gain p delta price index
    = ((ps_size p + delta) * index) sdiv E18 - (ps_size p * index) sdiv E18 - (delta * price) sdiv E18"
proof -
  have "ps_openNotional (applyFill p delta price)
      = ps_openNotional p + (delta * price) sdiv E18 + fr_realized (applyFill p delta price)"
    by (auto simp: applyFill_unfold notional_def mulDiv_def)
  then show ?thesis
    unfolding fill_gain_def Let_def unrealized_value [OF assms(1)] unrealized_value [OF applyFill_position_ok [OF assms]]
    unfolding applyFill_size by linarith
qed

lemma fill_gain_bound:
  assumes "position_ok p" and "0 \<le> price"
  shows "(delta * (index - price)) sdiv E18 \<le> fill_gain p delta price index + 3"
proof -
  let ?d = "\<lambda>a. E18 * (a sdiv E18) - a"
  let ?s = "ps_size p"
  have "E18 * ((delta * (index - price)) sdiv E18 - fill_gain p delta price index)
      = ?d (delta * (index - price)) - ?d ((?s + delta) * index) + ?d (?s * index) + ?d (delta * price)"
    unfolding fill_gain_value [OF assms] by (simp add: algebra_simps)
  also have "\<dots> < E18 * 4"
    using sdiv_error [of "delta * (index - price)"] sdiv_error [of "(?s + delta) * index"]
      sdiv_error [of "?s * index"] sdiv_error [of "delta * price"]
    unfolding abs_less_iff by linarith
  finally show ?thesis by (simp add: mult_less_cancel_left_pos)
qed


definition sample_ticket :: ticket_input where
  "sample_ticket = \<lparr>ti_market = \<lparr>tm_active = True, tm_initialMarginBps = 1000, tm_maintenanceMarginBps = 500,
       tm_minFillNotional = 5 * 10 ^ 18, tm_maxExecutionDeviationBps = 200\<rparr>,
     ti_side = Buy, ti_kind = Market_order, ti_size = Some (10 ^ 17), ti_limitPrice = None, ti_slippageBps = 500,
     ti_reduceOnly = False, ti_postOnly = False, ti_bestBid = None, ti_bestAsk = Some (101 * 10 ^ 18),
     ti_indexPrice = 100 * 10 ^ 18, ti_position = \<lparr>ps_size = 0, ps_openNotional = 0\<rparr>,
     ti_health = Some \<lparr>th_equity = 2 * 10 ^ 18, th_initialMarginRequired = 0, th_maintenanceMarginRequired = 0\<rparr>,
     ti_makerRate = 100, ti_takerRate = 350\<rparr>"


text \<open>An order so small that its notional rounds to zero passes the minimum check.\<close>

lemma dust_passes_minimum:
  "tt_errors (evaluateTicket (sample_ticket\<lparr>ti_size := Some 1, ti_kind := Limit_order, ti_limitPrice := Some (10 ^ 17), ti_bestAsk := None\<rparr>)) = []"
  by code_simp

end
