(* ===== verification/Keeper_Calls.thy ===== *)
theory Keeper_Calls
  imports Keeper_Runtime Reconciler_Jobs Display_Format
begin

text \<open>
  What every sending keeper of \<open>client/lib/keepers\<close> is built from: its state (the sender of its
  key, the \<open>KeeperAction\<close> table, its counters), the questions it asks of the chain and the database, the
  two calls it makes on the sender, the decoding of reverts (\<open>reverts.ts\<close>) and of receipt logs.

  What answers a question may change between any two of them. So the state carries a trace of what was asked, with the
  answer, and of what was called, and each answer is a function of the trace so far, supplied by the
  environment; nothing is assumed of it. The trace is there for the properties and is never read by a keeper.
\<close>

section \<open>State and effects\<close>

record 'e keeper =
  kk_sender :: sender
  kk_actions :: action_table
  kk_metrics :: metrics
  kk_trace :: "'e list"

datatype keeper_error = Call_fault tx_error | Read_fault chain_fault | Config_fault string | Keeper_out_of_passes

type_synonym ('e, 'a) keeper_act = "('e keeper, keeper_error, 'a) act"

definition ask :: "('e list \<Rightarrow> chain_fault + 'a) \<Rightarrow> ('a \<Rightarrow> 'e) \<Rightarrow> ('e, 'a) keeper_act" where
  "ask answer event = (\<lambda>s. case answer (kk_trace s) of
     Inl e \<Rightarrow> (Inl (Read_fault e), s) | Inr x \<Rightarrow> (Inr x, s\<lparr>kk_trace := kk_trace s @ [event x]\<rparr>))"

definition log_event :: "'e \<Rightarrow> ('e, unit) keeper_act" where
  "log_event e = act_mod (\<lambda>s. s\<lparr>kk_trace := kk_trace s @ [e]\<rparr>)"

definition on_tx :: "'a sender_act \<Rightarrow> ('e, 'a) keeper_act" where
  "on_tx m = (\<lambda>s. case m (kk_sender s) of
     (Inl e, t) \<Rightarrow> (Inl (Call_fault e), s\<lparr>kk_sender := t\<rparr>) | (Inr x, t) \<Rightarrow> (Inr x, s\<lparr>kk_sender := t\<rparr>))"

definition count_by :: "string \<Rightarrow> int \<Rightarrow> ('e, unit) keeper_act" where
  "count_by name n = act_mod (\<lambda>s. s\<lparr>kk_metrics := inc name n (kk_metrics s)\<rparr>)"

definition gauge :: "string \<Rightarrow> int \<Rightarrow> ('e, unit) keeper_act" where
  "gauge name v = act_mod (\<lambda>s. s\<lparr>kk_metrics := set_gauge name v (kk_metrics s)\<rparr>)"

definition record_action :: "string \<Rightarrow> action_input \<Rightarrow> ('e, int) keeper_act" where
  "record_action network i = (\<lambda>s. let (k, t) = action_record network i (kk_actions s) in (Inr k, s\<lparr>kk_actions := t\<rparr>))"

definition update_action :: "int \<Rightarrow> action_patch \<Rightarrow> ('e, unit) keeper_act" where
  "update_action i p = act_mod (\<lambda>s. s\<lparr>kk_actions := action_update i p (kk_actions s)\<rparr>)"

definition no_action_patch :: action_patch where
  "no_action_patch = \<lparr>kp_status = None, kp_txJobId = None, kp_blockNumber = None, kp_payload = None\<rparr>"

section \<open>Payloads\<close>

text \<open>A \<open>bigint\<close> is written as its decimal text.\<close>

definition int_text :: "int \<Rightarrow> string" where
  "int_text n = (if n < 0 then ''-'' @ nat_text (nat (- n)) else nat_text (nat n))"

definition big_json :: "int \<Rightarrow> json" where
  "big_json n = JStr (int_text n)"

definition text_json :: "string option \<Rightarrow> json" where
  "text_json x = (case x of None \<Rightarrow> JNull | Some t \<Rightarrow> JStr t)"

text \<open>\<open>{ ...o, k: v }\<close>, and \<open>m.set(k, v)\<close> of a map kept in the order of insertion.\<close>

fun set_field :: "'k \<Rightarrow> 'v \<Rightarrow> ('k \<times> 'v) list \<Rightarrow> ('k \<times> 'v) list" where
  "set_field k v [] = [(k, v)]"
| "set_field k v ((k', v') # o') = (if k' = k then (k, v) # o' else (k', v') # set_field k v o')"

fun with_field :: "string \<Rightarrow> json \<Rightarrow> json \<Rightarrow> json" where
  "with_field k v (JObj o') = JObj (set_field k v o')"
| "with_field k v j = JObj [(k, v)]"

fun field :: "string \<Rightarrow> json \<Rightarrow> json option" where
  "field k (JObj o') = map_of o' k"
| "field k j = None"

text \<open>\<open>s.split(c)\<close>\<close>

fun split_on :: "char \<Rightarrow> string \<Rightarrow> string list" where
  "split_on c [] = [[]]"
| "split_on c (x # xs) = (if x = c then [] # split_on c xs
     else case split_on c xs of [] \<Rightarrow> [[x]] | w # ws \<Rightarrow> (x # w) # ws)"

section \<open>Reverts\<close>

text \<open>The JavaScript error a call threw: its texts, and its graph of causes.\<close>

record thrown =
  th_fault :: keeper_fault
  th_heap :: call_heap
  th_root :: nat

definition decodeError :: "error_abi \<Rightarrow> thrown \<Rightarrow> decoded_error" where
  "decodeError abi e = (case extractRevertData (th_heap e) (th_root e) of
     None \<Rightarrow> no_error | Some d \<Rightarrow> decodeRevert abi d)"

section \<open>Receipt logs\<close>

text \<open>
  A log is its address and what \<open>decodeEventLog\<close> makes of it with the keeper's interface: nothing
  when it throws, else the name of the event and its arguments.
\<close>

datatype abi_value = Abi_big int | Abi_num int | Abi_text string | Abi_bool bool

record event_log =
  el_address :: address
  el_event :: "(string \<times> (string \<times> abi_value) list) option"

fun abi_json :: "abi_value \<Rightarrow> json" where
  "abi_json (Abi_big n) = big_json n"
| "abi_json (Abi_num n) = JNum n"
| "abi_json (Abi_text t) = JStr t"
| "abi_json (Abi_bool b) = JBool b"

fun abi_number :: "abi_value option \<Rightarrow> int option" where
  "abi_number (Some (Abi_big n)) = Some n"
| "abi_number (Some (Abi_num n)) = Some n"
| "abi_number _ = None"

fun abi_text :: "abi_value option \<Rightarrow> string option" where
  "abi_text (Some (Abi_text t)) = Some t"
| "abi_text _ = None"

section \<open>Calls on the sender\<close>

text \<open>What the environment answers during one call: the node's answers, what is thrown, the logs of a receipt.\<close>

record call_env =
  ce_estimate :: "chain_fault + int"
  ce_submit :: "nat \<Rightarrow> submit_view"
  ce_started :: int
  ce_wait :: "nat \<Rightarrow> wait_view"
  ce_passes :: nat
  ce_thrown :: "keeper_error \<Rightarrow> thrown"
  ce_logs :: "hex \<Rightarrow> event_log list"

record keeper_deps =
  kd_network :: string
  kd_sender :: sender_options
  kd_abi :: error_abi

text \<open>\<open>try { job = await sender.submit(req) } catch (err) { ... }\<close>\<close>

definition try_submit :: "keeper_deps \<Rightarrow> call_env \<Rightarrow> tx_request \<Rightarrow> ('e, thrown + tx_job) keeper_act" where
  "try_submit d env req = act_catch
     (act_bind (on_tx (submit (kd_sender d) (ce_estimate env) (ce_submit env) req)) (\<lambda>job. act_ret (Inr job)))
     (\<lambda>err. act_ret (Inl (ce_thrown env err)))"

text \<open>\<open>try { out = await sender.wait(job) } catch (err) { ... }\<close>: nothing when it threw.\<close>

definition try_wait :: "keeper_deps \<Rightarrow> call_env \<Rightarrow> tx_job \<Rightarrow> ('e, tx_receipt option) keeper_act" where
  "try_wait d env job = act_bind
     (act_catch (act_bind (on_tx (wait (kd_sender d) (ce_started env) (ce_wait env) (ce_passes env) job)) (\<lambda>r. act_ret (Inr r)))
        (\<lambda>err. act_ret (Inl err)))
     (\<lambda>r. case r of Inl err \<Rightarrow> act_ret None
        | Inr None \<Rightarrow> act_throw Keeper_out_of_passes
        | Inr (Some outcome) \<Rightarrow> act_ret (Some (oc_receipt outcome)))"

definition guard_in_flight :: "keeper_deps \<Rightarrow> (string \<Rightarrow> recovery_env) \<Rightarrow> ('e, bool) keeper_act" where
  "guard_in_flight d env = act_bind (on_tx (stillInFlight (kd_sender d) env)) (\<lambda>r.
     case r of None \<Rightarrow> act_throw Keeper_out_of_passes | Some b \<Rightarrow> act_ret b)"

section \<open>Rules\<close>

lemma wp_ask [act_wp]:
  "wp (ask answer event) Q E = (\<lambda>s. case answer (kk_trace s) of Inl e \<Rightarrow> E (Read_fault e) s
     | Inr x \<Rightarrow> Q x (s\<lparr>kk_trace := kk_trace s @ [event x]\<rparr>))"
  by (simp add: wp_def ask_def fun_eq_iff split: sum.splits)

lemma wp_log_event [act_wp]: "wp (log_event e) Q E = (\<lambda>s. Q () (s\<lparr>kk_trace := kk_trace s @ [e]\<rparr>))"
  by (simp add: log_event_def wp_mod)

lemma wp_on_tx [act_wp]:
  "wp (on_tx m) Q E = (\<lambda>s. wp m (\<lambda>x t. Q x (s\<lparr>kk_sender := t\<rparr>)) (\<lambda>e t. E (Call_fault e) (s\<lparr>kk_sender := t\<rparr>)) (kk_sender s))"
  by (simp add: wp_def on_tx_def fun_eq_iff split: prod.splits sum.splits)

lemma wp_count_by [act_wp]: "wp (count_by name n) Q E = (\<lambda>s. Q () (s\<lparr>kk_metrics := inc name n (kk_metrics s)\<rparr>))"
  by (simp add: count_by_def wp_mod)

lemma wp_gauge [act_wp]: "wp (gauge name v) Q E = (\<lambda>s. Q () (s\<lparr>kk_metrics := set_gauge name v (kk_metrics s)\<rparr>))"
  by (simp add: gauge_def wp_mod)

lemma wp_record_action [act_wp]:
  "wp (record_action network i) Q E = (\<lambda>s. Q (kt_nextId (kk_actions s)) (s\<lparr>kk_actions := snd (action_record network i (kk_actions s))\<rparr>))"
  by (simp add: wp_def record_action_def action_record_def fun_eq_iff)

lemma wp_update_action [act_wp]:
  "wp (update_action i p) Q E = (\<lambda>s. Q () (s\<lparr>kk_actions := action_update i p (kk_actions s)\<rparr>))"
  by (simp add: update_action_def wp_mod)

text \<open>A call on the sender changes the sender alone.\<close>

lemma wp_try_submit_frame:
  "(\<And>r k. Q r (s\<lparr>kk_sender := k\<rparr>)) \<Longrightarrow> wp (try_submit d env req) Q E s"
  unfolding try_submit_def by (simp add: act_wp wp_any)

lemma wp_try_wait_frame:
  "(\<And>r k. Q r (s\<lparr>kk_sender := k\<rparr>)) \<Longrightarrow> (\<And>e k. E e (s\<lparr>kk_sender := k\<rparr>)) \<Longrightarrow> wp (try_wait d env job) Q E s"
  unfolding try_wait_def by (simp add: act_wp wp_any split: option.splits)

lemma wp_guard_in_flight_frame:
  "(\<And>r k. Q r (s\<lparr>kk_sender := k\<rparr>)) \<Longrightarrow> (\<And>e k. E e (s\<lparr>kk_sender := k\<rparr>)) \<Longrightarrow> wp (guard_in_flight d env) Q E s"
  unfolding guard_in_flight_def by (auto simp: act_wp intro!: wp_any split: option.splits)

section \<open>What a trace keeps\<close>

text \<open>
  \<open>on_trace P\<close> is an invariant of the trace alone. Everything that does not add to the trace keeps it; the
  collection \<open>act_keeps\<close> knows them all.
\<close>

definition on_trace :: "('e list \<Rightarrow> bool) \<Rightarrow> 'e keeper \<Rightarrow> bool" where
  "on_trace P s = P (kk_trace s)"

lemma keeps_on_tx [act_keeps]: "keeps (on_trace P) (on_tx m)"
  unfolding keeps_def wp_on_tx by (auto simp: on_trace_def intro: wp_any)

lemma keeps_silent [act_keeps]:
  "keeps (on_trace P) (count_by name n)" "keeps (on_trace P) (gauge name v)"
  "keeps (on_trace P) (record_action network i)" "keeps (on_trace P) (update_action k p)"
  by (simp_all add: keeps_def act_wp on_trace_def)

lemma keeps_try_submit [act_keeps]: "keeps (on_trace P) (try_submit d env req)"
  unfolding try_submit_def by (intro act_keeps)

lemma keeps_try_wait [act_keeps]: "keeps (on_trace P) (try_wait d env job)"
  unfolding try_wait_def by (intro act_keeps)

lemma keeps_guard_in_flight [act_keeps]: "keeps (on_trace P) (guard_in_flight d env)"
  unfolding guard_in_flight_def by (intro act_keeps)

lemma keeps_ask: "(\<And>x tr. P tr \<Longrightarrow> P (tr @ [event x])) \<Longrightarrow> keeps (on_trace P) (ask answer event)"
  by (simp add: keeps_def act_wp on_trace_def split: sum.splits)

lemma keeps_log_event: "(\<And>tr. P tr \<Longrightarrow> P (tr @ [e])) \<Longrightarrow> keeps (on_trace P) (log_event e)"
  by (simp add: keeps_def act_wp on_trace_def)

text \<open>The same for an action whose value matters: what is known of the trace before is known after.\<close>

lemma wp_silent:
  assumes "keeps (on_trace P) m" and "P (kk_trace s)" and "\<And>x t. P (kk_trace t) \<Longrightarrow> Q x t" and "\<And>e t. P (kk_trace t) \<Longrightarrow> E e t"
  shows "wp m Q E s"
proof -
  have "wp m (\<lambda>_. on_trace P) (\<lambda>_. on_trace P) s" using assms(1,2) by (simp add: keeps_def on_trace_def)
  then show ?thesis by (rule wp_mono) (use assms(3,4) in \<open>auto simp: on_trace_def\<close>)
qed

text \<open>Every event of a trace meets a condition on what came before it.\<close>

definition each_event :: "('e list \<Rightarrow> 'e \<Rightarrow> bool) \<Rightarrow> 'e list \<Rightarrow> bool" where
  "each_event C tr \<longleftrightarrow> (\<forall>pre e post. tr = pre @ e # post \<longrightarrow> C pre e)"

lemma each_event_Nil [simp]: "each_event C []"
  by (simp add: each_event_def)

lemma each_event_snoc [simp]: "each_event C (tr @ [e]) \<longleftrightarrow> each_event C tr \<and> C tr e" (is "?l = ?r")
proof
  assume l: ?l
  then have "C pre x" if "tr = pre @ x # post" for pre x post
    using that unfolding each_event_def by (metis append_Cons append_assoc)
  then have "each_event C tr" by (simp add: each_event_def)
  moreover have "C tr e" using l by (simp add: each_event_def)
  ultimately show ?r by simp
next
  assume r: ?r
  have "C pre x" if eq: "tr @ [e] = pre @ x # post" for pre x post
  proof (cases post rule: rev_cases)
    case Nil
    then show ?thesis using eq r by simp
  next
    case (snoc ys y)
    then have "tr = pre @ x # ys" using eq by (metis append_Cons append_assoc butlast_snoc)
    then show ?thesis using r unfolding each_event_def by blast
  qed
  then show ?l by (simp add: each_event_def)
qed

text \<open>Maps kept in the order of insertion.\<close>

lemma map_of_set_field [simp]: "map_of (set_field k v m) = (map_of m)(k \<mapsto> v)"
  by (induction k v m rule: set_field.induct) auto

lemma fst_set_field: "map fst (set_field k v m) = (if k \<in> fst ` set m then map fst m else map fst m @ [k])"
  by (induction k v m rule: set_field.induct) auto

lemma distinct_set_field [simp]: "distinct (map fst m) \<Longrightarrow> distinct (map fst (set_field k v m))"
  by (simp add: fst_set_field)

lemma set_set_field: "set (set_field k v m) \<subseteq> insert (k, v) (set m)"
  by (induction k v m rule: set_field.induct) auto

text \<open>What a sum answers after a function on its value.\<close>

lemma map_sum_Inr: "map_sum id f x = Inr y \<longleftrightarrow> (\<exists>z. x = Inr z \<and> y = f z)"
  by (cases x) auto

section \<open>Samples\<close>

definition sample_deps :: keeper_deps where
  "sample_deps = \<lparr>kd_network = ''arc'', kd_sender = sample_options, kd_abi = (\<lambda>_. None)\<rparr>"

definition sample_call :: "int \<Rightarrow> call_env" where
  "sample_call i = \<lparr>ce_estimate = Inr 100, ce_submit = sample_submit_view, ce_started = 0, ce_wait = sample_wait_view, ce_passes = 2,
     ce_thrown = (\<lambda>_. \<lparr>th_fault = \<lparr>cf_name = [], cf_message = [], cf_details = None, kf_shortMessage = None\<rparr>, th_heap = [], th_root = 0\<rparr>),
     ce_logs = (\<lambda>_. [])\<rparr>"

definition new_keeper :: "'e keeper" where
  "new_keeper = \<lparr>kk_sender = fresh_sender, kk_actions = \<lparr>kt_rows = [], kt_nextId = 1\<rparr>, kk_metrics = new_metrics, kk_trace = []\<rparr>"

end
