(* ===== verification/Liquidation_Keeper.thy ===== *)
theory Liquidation_Keeper
  imports Keeper_Calls Kryon_Math
begin

text \<open>
  The liquidation and ADL keeper, \<open>client/lib/keepers/liquidation.ts\<close>, with the health scan of
  \<open>client/lib/chain/collateral.ts\<close>: selection, the liquidation steps of an account, one ADL step, bad debt, and the
  reconciliation with the indexer. An SQL query is a list operation on the rows the environment shows. Gauges that the
  code divides down to a float are kept in the unit before that division. Log lines are left out.
\<close>

section \<open>Selection\<close>

record account_health =
  ah_collateralValue :: int
  ah_unrealizedPnl :: int
  ah_equity :: int
  ah_initialMarginRequired :: int
  ah_maintenanceMarginRequired :: int
  ah_freeCollateral :: int
  ah_marginRatio :: int
  ah_liquidatable :: bool

type_synonym health_map = "(address \<times> account_health option) list"

record liq_candidate =
  lc_trader :: address
  lc_health :: account_health
  lc_shortfall :: int

record selection =
  se_liquidatable :: "liq_candidate list"
  se_blocked :: "address list"
  se_healthy :: nat

fun split_health :: "health_map \<Rightarrow> selection" where
  "split_health [] = \<lparr>se_liquidatable = [], se_blocked = [], se_healthy = 0\<rparr>"
| "split_health ((trader, h) # rest) = (let r = split_health rest in
     case h of None \<Rightarrow> r\<lparr>se_blocked := trader # se_blocked r\<rparr>
     | Some a \<Rightarrow> if \<not> ah_liquidatable a then r\<lparr>se_healthy := se_healthy r + 1\<rparr>
        else r\<lparr>se_liquidatable := \<lparr>lc_trader = trader, lc_health = a,
               lc_shortfall = ah_maintenanceMarginRequired a - ah_equity a\<rparr> # se_liquidatable r\<rparr>)"

definition by_shortfall :: "liq_candidate \<Rightarrow> liq_candidate \<Rightarrow> int" where
  "by_shortfall a b = (if lc_shortfall a = lc_shortfall b then 0 else if lc_shortfall a > lc_shortfall b then -1 else 1)"

definition selectCandidates :: "health_map \<Rightarrow> nat \<Rightarrow> selection" where
  "selectCandidates health maxAccounts = (let r = split_health health
     in r\<lparr>se_liquidatable := take maxAccounts (js_sort by_shortfall (se_liquidatable r))\<rparr>)"

record open_position =
  op_marketId :: int
  op_size :: int
  op_openNotional :: int

definition adl_unrealizedPnl :: "int \<Rightarrow> int \<Rightarrow> int \<Rightarrow> int" where
  "adl_unrealizedPnl sz openNotional price =
     (let a = (if sz < 0 then - sz else sz); n = (a * price) sdiv 10 ^ 18 in (if sz > 0 then n else - n) - openNotional)"

definition market_notional :: "(int \<Rightarrow> int option) \<Rightarrow> open_position \<Rightarrow> int" where
  "market_notional index p = ((if op_size p < 0 then - op_size p else op_size p) * get_or index (op_marketId p) 0) sdiv 10 ^ 18"

fun pick_market :: "(int \<Rightarrow> int option) \<Rightarrow> open_position list \<Rightarrow> (int \<times> int) option \<Rightarrow> (int \<times> int) option" where
  "pick_market index [] best = best"
| "pick_market index (p # ps) best =
     (if op_size p = 0 then pick_market index ps best
      else let n = market_notional index p in
        pick_market index ps (case best of None \<Rightarrow> Some (op_marketId p, n)
          | Some (m, b) \<Rightarrow> if n > b then Some (op_marketId p, n) else Some (m, b)))"

definition pickLiquidationMarket :: "open_position list \<Rightarrow> (int \<Rightarrow> int option) \<Rightarrow> int option" where
  "pickLiquidationMarket ps index = map_option fst (pick_market index ps None)"

record counterparty =
  cp_trader :: address
  cp_size :: int
  cp_openNotional :: int

fun pick_counterparty :: "int \<Rightarrow> int \<Rightarrow> counterparty list \<Rightarrow> (address \<times> int) option \<Rightarrow> (address \<times> int) option" where
  "pick_counterparty backstopSize price [] best = best"
| "pick_counterparty backstopSize price (c # cs) best =
     (if cp_size c = 0 \<or> (cp_size c > 0) = (backstopSize > 0) then pick_counterparty backstopSize price cs best
      else let upnl = adl_unrealizedPnl (cp_size c) (cp_openNotional c) price in
        if upnl \<le> 0 then pick_counterparty backstopSize price cs best
        else pick_counterparty backstopSize price cs (case best of None \<Rightarrow> Some (cp_trader c, upnl)
          | Some (t, b) \<Rightarrow> if upnl > b then Some (cp_trader c, upnl) else Some (t, b)))"

definition pickAdlCounterparty :: "int \<Rightarrow> counterparty list \<Rightarrow> int \<Rightarrow> (address \<times> int) option" where
  "pickAdlCounterparty backstopSize cs price = pick_counterparty backstopSize price cs None"

section \<open>Reverts\<close>

datatype liq_revert = Rv_healthy | Rv_oracle | Rv_paused | Rv_no_position | Rv_no_shortfall | Rv_not_in_profit | Rv_unknown

definition classifyLiquidationRevert :: "string option \<Rightarrow> liq_revert" where
  "classifyLiquidationRevert name = (case name of None \<Rightarrow> Rv_unknown
     | Some n \<Rightarrow>
         if n \<in> {''NotLiquidatable'', ''InvalidAmount'', ''LiquidationWouldNotImproveHealth''} then Rv_healthy
         else if n \<in> {''StaleOracle'', ''OracleConfidenceTooWide'', ''InvalidPrice''} then Rv_oracle
         else if n \<in> {''EnforcedPause'', ''ExecutionPaused''} then Rv_paused
         else if n \<in> {''PositionNotFound'', ''HasOpenPositions''} then Rv_no_position
         else if n = ''NoBadDebtToOffset'' then Rv_no_shortfall
         else if n \<in> {''PositionNotInProfit'', ''DirectionMismatch''} then Rv_not_in_profit
         else Rv_unknown)"

fun liq_revert_text :: "liq_revert \<Rightarrow> string" where
  "liq_revert_text Rv_healthy = ''healthy''"
| "liq_revert_text Rv_oracle = ''oracle''"
| "liq_revert_text Rv_paused = ''paused''"
| "liq_revert_text Rv_no_position = ''no-position''"
| "liq_revert_text Rv_no_shortfall = ''no-shortfall''"
| "liq_revert_text Rv_not_in_profit = ''not-in-profit''"
| "liq_revert_text Rv_unknown = ''unknown''"

datatype send_class = Cls liq_revert | Cls_reverted | Cls_unconfirmed

fun send_class_text :: "send_class \<Rightarrow> string" where
  "send_class_text (Cls c) = liq_revert_text c"
| "send_class_text Cls_reverted = ''reverted''"
| "send_class_text Cls_unconfirmed = ''unconfirmed''"

datatype send_result = Sent tx_receipt | Not_sent send_class "string option"

text \<open>The events of one contract in a receipt, in the order of its logs.\<close>

definition eventsFrom :: "event_log list \<Rightarrow> address \<Rightarrow> (string \<times> (string \<times> abi_value) list) list" where
  "eventsFrom logs addr = List.map_filter el_event (filter (\<lambda>l. lower (el_address l) = lower addr) logs)"

section \<open>Options, environment and trace\<close>

datatype liq_call = Liquidate address int | Adl address int | SettleBadDebt address

record bad_debt_state =
  bd_positionCount :: int
  bd_balance :: int
  bd_recordedDebt :: int
  bd_operating :: int

datatype liq_event =
    Health_read health_map
  | Positions_read address "open_position list"
  | Index_read int "int option"
  | Shortfall_read "int option"
  | Counterparties_read int "counterparty list"
  | Debt_read address bad_debt_state
  | Other_read
  | Called liq_call

type_synonym liq_keeper = "liq_event keeper"
type_synonym 'a liq_act = "(liq_event, 'a) keeper_act"

record indexed_position =
  ix_network :: string
  ix_marketId :: int
  ix_trader :: address
  ix_size :: int
  ix_openNotional :: int

record indexed_account =
  ia_network :: string
  ia_address :: address
  ia_ledgerBalance :: int

record liq_options =
  lo_deps :: keeper_deps
  lo_liquidation :: address
  lo_insurance :: address
  lo_encode :: "liq_call \<Rightarrow> hex"
  lo_maxAccountsPerTick :: nat
  lo_maxStepsPerAccount :: nat
  lo_indexerGraceMs :: int
  lo_adlMinShortfall :: int

text \<open>The answers of the node and of the database, and the tables the indexer owns, at each point of the trace.\<close>

record liq_env =
  le_paused :: "liq_event list \<Rightarrow> chain_fault + bool \<times> bool \<times> bool"
  le_health :: "liq_event list \<Rightarrow> address list \<Rightarrow> chain_fault + (address \<Rightarrow> account_health option)"
  le_positions :: "liq_event list \<Rightarrow> address \<Rightarrow> chain_fault + open_position list"
  le_index :: "liq_event list \<Rightarrow> int \<Rightarrow> chain_fault + int"
  le_shortfall :: "liq_event list \<Rightarrow> thrown + int"
  le_debt :: "liq_event list \<Rightarrow> address \<Rightarrow> chain_fault + bad_debt_state"
  le_solvency :: "liq_event list \<Rightarrow> chain_fault + int \<times> int"
  le_positionRows :: "liq_event list \<Rightarrow> indexed_position list"
  le_accountRows :: "liq_event list \<Rightarrow> indexed_account list"
  le_indexedTx :: "liq_event list \<Rightarrow> (string \<times> string \<times> hex) list"
  le_updatedAt :: "int \<Rightarrow> int"
  le_now :: int
  le_recovery :: "string \<Rightarrow> recovery_env"
  le_call :: "int \<Rightarrow> call_env"

abbreviation lo_network :: "liq_options \<Rightarrow> string" where
  "lo_network opts \<equiv> kd_network (lo_deps opts)"

section \<open>The chain, over the node's answers\<close>

definition chain_paused :: "liq_env \<Rightarrow> bool liq_act" where
  "chain_paused env = act_bind (ask (le_paused env) (\<lambda>_. Other_read)) (\<lambda>(a, b, c). act_ret (a \<or> b \<or> c))"

fun read_health_slices :: "liq_env \<Rightarrow> address list list \<Rightarrow> health_map \<Rightarrow> health_map liq_act" where
  "read_health_slices env [] out = act_ret out"
| "read_health_slices env (slice # rest) out =
     act_bind (ask (\<lambda>tr. map_sum id (\<lambda>f. map (\<lambda>a. (a, f a)) slice) (le_health env tr slice)) Health_read)
       (\<lambda>rs. read_health_slices env rest (out @ rs))"

text \<open>The accounts asked for are distinct, so every \<open>out.set\<close> appends.\<close>

definition readAccountHealth :: "liq_env \<Rightarrow> address list \<Rightarrow> health_map liq_act" where
  "readAccountHealth env accounts = read_health_slices env (chunkFills 200 accounts) []"

definition positionsOf :: "liq_env \<Rightarrow> address \<Rightarrow> open_position list liq_act" where
  "positionsOf env trader = ask (\<lambda>tr. le_positions env tr trader) (Positions_read trader)"

definition indexPrice :: "liq_env \<Rightarrow> int \<Rightarrow> int option liq_act" where
  "indexPrice env marketId = ask (\<lambda>tr. Inr (case le_index env tr marketId of Inl _ \<Rightarrow> None | Inr p \<Rightarrow> Some p)) (Index_read marketId)"

text \<open>\<open>String(err)\<close>\<close>

definition error_string :: "thrown \<Rightarrow> string" where
  "error_string e = cf_name (th_fault e) @ '': '' @ cf_message (th_fault e)"

definition unfundedShortfall :: "liq_options \<Rightarrow> liq_env \<Rightarrow> int option liq_act" where
  "unfundedShortfall opts env = ask (\<lambda>tr. case le_shortfall env tr of
       Inr x \<Rightarrow> Inr (Some x)
     | Inl e \<Rightarrow> if de_errorName (decodeError (kd_abi (lo_deps opts)) e) = Some ''StaleOracle''
                  \<or> contains_text ''StaleOracle'' (error_string e)
                then Inr None else Inl (chain_fault.truncate (th_fault e))) Shortfall_read"

definition badDebtState :: "liq_env \<Rightarrow> address \<Rightarrow> bad_debt_state liq_act" where
  "badDebtState env trader = ask (\<lambda>tr. le_debt env tr trader) (Debt_read trader)"

definition openTraders :: "liq_options \<Rightarrow> liq_env \<Rightarrow> address list liq_act" where
  "openTraders opts env = ask (\<lambda>tr. Inr (remdups (map ix_trader (filter (\<lambda>r. ix_network r = lo_network opts
       \<and> ix_size r \<noteq> 0 \<and> ix_trader r \<noteq> lower (lo_insurance opts)) (le_positionRows env tr))))) (\<lambda>_. Other_read)"

section \<open>Sending one call\<close>

fun call_kind :: "liq_call \<Rightarrow> string" where
  "call_kind (Liquidate a m) = ''liquidation.liquidate''"
| "call_kind (Adl a m) = ''liquidation.adl''"
| "call_kind (SettleBadDebt a) = ''liquidation.settle-bad-debt''"

fun call_to :: "liq_options \<Rightarrow> liq_call \<Rightarrow> address" where
  "call_to opts (SettleBadDebt a) = lo_insurance opts"
| "call_to opts c = lo_liquidation opts"

definition payload_market :: "(string \<times> json) list \<Rightarrow> int option" where
  "payload_market p = (case map_of p ''marketId'' of Some (JNum m) \<Rightarrow> Some m | _ \<Rightarrow> None)"

definition payload_account :: "(string \<times> json) list \<Rightarrow> address option" where
  "payload_account p = (case map_of p ''trader'' of Some (JStr a) \<Rightarrow> Some a
     | _ \<Rightarrow> (case map_of p ''counterparty'' of Some (JStr a) \<Rightarrow> Some a | _ \<Rightarrow> None))"

definition event_json :: "string \<times> (string \<times> abi_value) list \<Rightarrow> json" where
  "event_json e = JObj [(''event'', JStr (fst e)), (''args'', JObj (map (\<lambda>(k, v). (k, abi_json v)) (snd e)))]"

definition preflight_json :: "string option \<Rightarrow> string \<Rightarrow> thrown \<Rightarrow> json" where
  "preflight_json name cls e = JObj [(''errorName'', text_json name), (''cls'', JStr cls),
     (''error'', JStr (errorMessage (th_fault e)))]"

definition liq_send :: "liq_options \<Rightarrow> liq_env \<Rightarrow> liq_call \<Rightarrow> (string \<times> json) list \<Rightarrow> send_result liq_act" where
  "liq_send opts env call payload =
     act_then (log_event (Called call))
    (act_bind (record_action (lo_network opts) \<lparr>ai_kind = call_kind call, ai_marketId = payload_market payload,
         ai_account = payload_account payload, ai_payload = JObj payload, ai_status = None, ai_txJobId = None\<rparr>) (\<lambda>i.
     let ce = le_call env i in
     act_bind (try_submit (lo_deps opts) ce \<lparr>tr_to = call_to opts call, tr_data = lo_encode opts call, tr_value = None,
         tr_gas = None, tr_label = call_kind call\<rparr>) (\<lambda>r. case r of
       Inl err \<Rightarrow>
         let name = de_errorName (decodeError (kd_abi (lo_deps opts)) err); cls = classifyLiquidationRevert name in
         act_then (count_by (''liq_preflight_reverted_total.'' @ liq_revert_text cls) 1)
        (act_then (update_action i (no_action_patch\<lparr>kp_status := Some Act_failed,
             kp_payload := Some (JObj (set_field ''preflight'' (preflight_json name (liq_revert_text cls) err) payload))\<rparr>))
           (act_ret (Not_sent (Cls cls) name)))
     | Inr job \<Rightarrow>
         act_then (update_action i (no_action_patch\<lparr>kp_status := Some Act_submitted, kp_txJobId := Some (Some (tj_id job))\<rparr>))
        (act_bind (try_wait (lo_deps opts) ce job) (\<lambda>out. case out of
           None \<Rightarrow> act_ret (Not_sent Cls_unconfirmed None)
         | Some receipt \<Rightarrow>
             if \<not> rc_success receipt
             then act_then (update_action i (no_action_patch\<lparr>kp_status := Some Act_failed,
                      kp_blockNumber := Some (Some (rc_blockNumber receipt))\<rparr>))
                 (act_then (count_by ''liq_reverted_total'' 1) (act_ret (Not_sent Cls_reverted None)))
             else
               let logs = ce_logs ce (rc_hash receipt);
                   events = map event_json (eventsFrom logs (lo_liquidation opts) @ eventsFrom logs (lo_insurance opts));
                   indexed = (case call of SettleBadDebt _ \<Rightarrow> JNull | _ \<Rightarrow> JBool False)
               in act_then (update_action i (no_action_patch\<lparr>kp_status := Some Act_confirmed,
                      kp_blockNumber := Some (Some (rc_blockNumber receipt)),
                      kp_payload := Some (JObj (set_field ''indexed'' indexed (set_field ''events'' (JArr events)
                         (set_field ''txHash'' (JStr (rc_hash receipt)) payload))))\<rparr>))
                    (act_ret (Sent receipt)))))))"

section \<open>Liquidating one account\<close>

fun read_prices :: "liq_env \<Rightarrow> open_position list \<Rightarrow> (int \<Rightarrow> int option) \<Rightarrow> (int \<Rightarrow> int option) liq_act" where
  "read_prices env [] prices = act_ret prices"
| "read_prices env (p # ps) prices = act_bind (indexPrice env (op_marketId p)) (\<lambda>x.
     read_prices env ps (prices(op_marketId p \<mapsto> (case x of None \<Rightarrow> 0 | Some v \<Rightarrow> v))))"

definition health_liquidatable :: "account_health option \<Rightarrow> bool" where
  "health_liquidatable h = (case h of None \<Rightarrow> False | Some a \<Rightarrow> ah_liquidatable a)"

text \<open>
  The \<open>while\<close> loop, with the number of steps it may still take. The result is the number of steps
  and \<open>stillLiquidatable\<close>, which is nothing when the protocol paused.
\<close>

fun liquidate_steps ::
  "liq_options \<Rightarrow> liq_env \<Rightarrow> address \<Rightarrow> nat \<Rightarrow> nat \<Rightarrow> account_health option \<Rightarrow> (nat \<times> bool option) liq_act" where
  "liquidate_steps opts env trader 0 steps health = act_ret (steps, Some (health_liquidatable health))"
| "liquidate_steps opts env trader (Suc n) steps health = (case health of
     None \<Rightarrow> act_ret (steps, Some False)
   | Some h \<Rightarrow>
     if \<not> ah_liquidatable h then act_ret (steps, Some False)
     else
       act_bind (positionsOf env trader) (\<lambda>positions.
       act_bind (read_prices env positions Map.empty) (\<lambda>prices.
         case pickLiquidationMarket positions prices of
           None \<Rightarrow> act_ret (steps, Some True)
         | Some marketId \<Rightarrow>
             act_bind (liq_send opts env (Liquidate trader marketId)
                 [(''trader'', JStr trader), (''marketId'', JNum marketId), (''step'', JNum (int steps + 1)),
                  (''equity'', big_json (ah_equity h)),
                  (''maintenanceMarginRequired'', big_json (ah_maintenanceMarginRequired h))]) (\<lambda>r. case r of
               Not_sent cls name \<Rightarrow>
                 if cls = Cls Rv_paused then act_ret (steps, None) else act_ret (steps, Some True)
             | Sent receipt \<Rightarrow>
                 act_then (count_by ''liq_liquidations_total'' 1)
                (act_bind (readAccountHealth env [trader]) (\<lambda>m.
                   liquidate_steps opts env trader n (Suc steps)
                     (case map_of m trader of None \<Rightarrow> None | Some x \<Rightarrow> x)))))))"

definition liquidateAccount :: "liq_options \<Rightarrow> liq_env \<Rightarrow> liq_candidate \<Rightarrow> (address \<times> nat \<times> bool option) liq_act" where
  "liquidateAccount opts env c = act_bind
     (liquidate_steps opts env (lc_trader c) (lo_maxStepsPerAccount opts) 0 (Some (lc_health c)))
     (\<lambda>(steps, still). act_ret (lc_trader c, steps, still))"

fun liquidate_all ::
  "liq_options \<Rightarrow> liq_env \<Rightarrow> liq_candidate list \<Rightarrow> (address \<times> nat \<times> bool option) list
     \<Rightarrow> (address \<times> nat \<times> bool option) list liq_act" where
  "liquidate_all opts env [] out = act_ret out"
| "liquidate_all opts env (c # cs) out = act_bind (liquidateAccount opts env c) (\<lambda>r.
     if snd (snd r) = None then act_ret (out @ [r]) else liquidate_all opts env cs (out @ [r]))"

section \<open>ADL\<close>

datatype adl_result = Adl_done address int int | Adl_skipped string

definition counterparties :: "liq_options \<Rightarrow> liq_env \<Rightarrow> int \<Rightarrow> counterparty list liq_act" where
  "counterparties opts env marketId = ask (\<lambda>tr. Inr
     (map (\<lambda>r. \<lparr>cp_trader = ix_trader r, cp_size = ix_size r, cp_openNotional = ix_openNotional r\<rparr>)
       (filter (\<lambda>r. ix_network r = lo_network opts \<and> ix_marketId r = marketId \<and> ix_size r \<noteq> 0
            \<and> ix_trader r \<noteq> lower (lo_insurance opts)) (le_positionRows env tr)))) (Counterparties_read marketId)"

definition haircut_of :: "liq_options \<Rightarrow> event_log list \<Rightarrow> int" where
  "haircut_of opts logs = (case find (\<lambda>e. fst e = ''Deleveraged'') (eventsFrom logs (lo_liquidation opts)) of
     None \<Rightarrow> 0
   | Some e \<Rightarrow> (case abi_number (map_of (snd e) ''haircut'') of None \<Rightarrow> 0 | Some h \<Rightarrow> h))"

fun adl_markets :: "liq_options \<Rightarrow> liq_env \<Rightarrow> int \<Rightarrow> open_position list \<Rightarrow> adl_result liq_act" where
  "adl_markets opts env shortfall [] = act_ret (Adl_skipped ''no-counterparty'')"
| "adl_markets opts env shortfall (bs # rest) =
     (if op_size bs = 0 then adl_markets opts env shortfall rest
      else act_bind (indexPrice env (op_marketId bs)) (\<lambda>price. case price of
        None \<Rightarrow> adl_markets opts env shortfall rest
      | Some px \<Rightarrow> act_bind (counterparties opts env (op_marketId bs)) (\<lambda>rows.
          case pickAdlCounterparty (op_size bs) rows px of
            None \<Rightarrow> adl_markets opts env shortfall rest
          | Some (trader, upnl) \<Rightarrow>
              act_bind (act_get (\<lambda>s. kt_nextId (kk_actions s))) (\<lambda>i.
              act_bind (liq_send opts env (Adl trader (op_marketId bs))
                 [(''counterparty'', JStr trader), (''marketId'', JNum (op_marketId bs)),
                  (''shortfall'', big_json shortfall), (''expectedUpnl'', big_json upnl)]) (\<lambda>r. case r of
                Not_sent cls name \<Rightarrow> act_ret (Adl_skipped (send_class_text cls))
              | Sent receipt \<Rightarrow>
                  let haircut = haircut_of opts (ce_logs (le_call env i) (rc_hash receipt)) in
                  act_then (count_by ''adl_total'' 1)
                 (act_then (count_by ''adl_haircut_total_1e18'' haircut)
                    (act_ret (Adl_done trader (op_marketId bs) haircut))))))))"

definition adlStep :: "liq_options \<Rightarrow> liq_env \<Rightarrow> adl_result liq_act" where
  "adlStep opts env = act_bind (unfundedShortfall opts env) (\<lambda>x. case x of
     None \<Rightarrow> act_then (count_by ''adl_blocked_on_oracle_total'' 1) (act_ret (Adl_skipped ''oracle''))
   | Some shortfall \<Rightarrow>
       act_then (gauge ''insurance_unfunded_shortfall'' (shortfall sdiv 10 ^ 12))
       (if shortfall \<le> 0 then act_ret (Adl_skipped ''no-shortfall'')
        else if shortfall < lo_adlMinShortfall opts
        then act_then (gauge ''insurance_unfunded_shortfall_dust'' shortfall) (act_ret (Adl_skipped ''dust''))
        else act_bind (positionsOf env (lo_insurance opts)) (adl_markets opts env shortfall)))"

section \<open>Bad debt\<close>

definition debtors :: "liq_options \<Rightarrow> liq_env \<Rightarrow> address list liq_act" where
  "debtors opts env = ask (\<lambda>tr. Inr (map ia_address (take 50 (filter (\<lambda>r. ia_network r = lo_network opts
       \<and> ia_ledgerBalance r < 0 \<and> ia_address r \<noteq> lower (lo_insurance opts)) (le_accountRows env tr))))) (\<lambda>_. Other_read)"

definition debt_settleable :: "bad_debt_state \<Rightarrow> bool" where
  "debt_settleable st \<longleftrightarrow> \<not> (bd_positionCount st \<noteq> 0 \<or> bd_balance st \<ge> 0)
     \<and> \<not> (bd_operating st \<le> 0 \<and> bd_recordedDebt st = - bd_balance st)"

fun settle_debtors :: "liq_options \<Rightarrow> liq_env \<Rightarrow> address list \<Rightarrow> address list \<Rightarrow> address list liq_act" where
  "settle_debtors opts env [] settled = act_ret settled"
| "settle_debtors opts env (trader # rest) settled = act_bind (badDebtState env trader) (\<lambda>st.
     if \<not> debt_settleable st then settle_debtors opts env rest settled
     else act_bind (liq_send opts env (SettleBadDebt trader)
            [(''trader'', JStr trader), (''deficit'', big_json (- bd_balance st))]) (\<lambda>r. case r of
              Sent receipt \<Rightarrow> act_then (count_by ''bad_debt_settled_total'' 1) (settle_debtors opts env rest (settled @ [trader]))
            | Not_sent cls name \<Rightarrow> settle_debtors opts env rest settled))"

definition settleBadDebts :: "liq_options \<Rightarrow> liq_env \<Rightarrow> address list liq_act" where
  "settleBadDebts opts env = act_bind (debtors opts env) (\<lambda>rows. settle_debtors opts env rows [])"

section \<open>Reconciliation with the indexer\<close>

text \<open>\<open>payload->>'indexed' = 'false'\<close>, and \<open>String(payload.txHash)\<close>.\<close>

definition marked_unindexed :: "json \<Rightarrow> bool" where
  "marked_unindexed p \<longleftrightarrow> field ''indexed'' p = Some (JBool False) \<or> field ''indexed'' p = Some (JStr ''false'')"

definition payload_tx :: "json \<Rightarrow> string" where
  "payload_tx p = (case field ''txHash'' p of Some (JStr h) \<Rightarrow> h | Some JNull \<Rightarrow> ''null'' | None \<Rightarrow> ''undefined''
     | Some (JNum n) \<Rightarrow> int_text n | Some (JBool b) \<Rightarrow> if b then ''true'' else ''false'' | Some _ \<Rightarrow> ''[object Object]'')"

definition unindexed_actions :: "string \<Rightarrow> action_table \<Rightarrow> keeper_action list" where
  "unindexed_actions network t = take 200 (js_sort by_action_id (filter (\<lambda>a. kn_network a = network \<and> kn_status a = Act_confirmed
     \<and> kn_kind a \<in> {''liquidation.liquidate'', ''liquidation.adl''} \<and> marked_unindexed (kn_payload a)) (kt_rows t)))"

fun reconcile_actions :: "liq_options \<Rightarrow> liq_env \<Rightarrow> keeper_action list \<Rightarrow> int \<Rightarrow> int liq_act" where
  "reconcile_actions opts env [] missing = act_ret missing"
| "reconcile_actions opts env (a # rest) missing =
     (let table = (if kn_kind a = ''liquidation.adl'' then ''DeleverageEvent'' else ''LiquidationEvent'') in
      act_bind (ask (\<lambda>tr. Inr (list_ex (\<lambda>(t, network, h). t = table \<and> network = lo_network opts
            \<and> lower h = lower (payload_tx (kn_payload a))) (le_indexedTx env tr))) (\<lambda>_. Other_read)) (\<lambda>hit.
        if hit then act_then (update_action (kn_id a) (no_action_patch\<lparr>kp_payload := Some (with_field ''indexed'' (JBool True) (kn_payload a))\<rparr>))
               (reconcile_actions opts env rest missing)
        else reconcile_actions opts env rest
               (if le_now env - le_updatedAt env (kn_id a) > lo_indexerGraceMs opts then missing + 1 else missing)))"

definition reconcileIndexed :: "liq_options \<Rightarrow> liq_env \<Rightarrow> unit liq_act" where
  "reconcileIndexed opts env = act_bind (act_get (\<lambda>s. unindexed_actions (lo_network opts) (kk_actions s))) (\<lambda>pending.
     act_bind (reconcile_actions opts env pending 0) (\<lambda>missing. gauge ''liq_unindexed_actions'' missing))"

section \<open>The tick\<close>

datatype liq_status = Liq_paused | Liq_in_flight | Liq_ran

record liq_tick_result =
  lr_status :: liq_status
  lr_liquidated :: "(address \<times> nat \<times> bool option) list"
  lr_blocked :: "address list"
  lr_adl :: "adl_result option"
  lr_badDebtSettled :: "address list"

definition liq_idle :: "liq_status \<Rightarrow> liq_tick_result" where
  "liq_idle st = \<lparr>lr_status = st, lr_liquidated = [], lr_blocked = [], lr_adl = None, lr_badDebtSettled = []\<rparr>"

definition solvency_gauge :: "liq_env \<Rightarrow> unit liq_act" where
  "solvency_gauge env = act_catch
     (act_bind (ask (le_solvency env) (\<lambda>_. Other_read)) (\<lambda>(assets, liabilities).
        gauge ''vault_solvency_surplus'' ((assets - liabilities) sdiv 10 ^ 12)))
     (\<lambda>_. act_ret ())"

definition run_liquidations :: "liq_options \<Rightarrow> liq_env \<Rightarrow> (selection \<times> (address \<times> nat \<times> bool option) list) liq_act" where
  "run_liquidations opts env =
     act_bind (openTraders opts env) (\<lambda>traders.
     act_bind (readAccountHealth env traders) (\<lambda>health.
     let sel = selectCandidates health (lo_maxAccountsPerTick opts) in
     act_then (gauge ''liq_accounts_scanned'' (int (length traders)))
    (act_then (gauge ''liq_accounts_liquidatable'' (int (length (se_liquidatable sel))))
    (act_then (gauge ''liq_accounts_blocked_on_oracle'' (int (length (se_blocked sel))))
    (act_bind (liquidate_all opts env (se_liquidatable sel) []) (\<lambda>rs. act_ret (sel, rs)))))))"

definition liq_tick :: "liq_options \<Rightarrow> liq_env \<Rightarrow> liq_tick_result liq_act" where
  "liq_tick opts env =
     act_bind (chain_paused env) (\<lambda>paused.
     act_then (gauge ''liq_paused'' (if paused then 1 else 0))
     (if paused then act_ret (liq_idle Liq_paused)
      else act_bind (guard_in_flight (lo_deps opts) (le_recovery env)) (\<lambda>inFlight.
        if inFlight then act_ret (liq_idle Liq_in_flight)
        else act_bind (run_liquidations opts env) (\<lambda>(sel, liquidated).
        act_bind (adlStep opts env) (\<lambda>adl.
        act_bind (settleBadDebts opts env) (\<lambda>settled.
        act_then (solvency_gauge env)
       (act_then (reconcileIndexed opts env)
          (act_ret \<lparr>lr_status = Liq_ran, lr_liquidated = liquidated, lr_blocked = se_blocked sel,
                    lr_adl = Some adl, lr_badDebtSettled = settled\<rparr>))))))))"

end
