(* ===== verification/Liquidation_Safety.thy ===== *)
theory Liquidation_Safety
  imports Liquidation_Keeper
begin

text \<open>
  What a liquidation tick may do: a fold over the trace gives what the keeper has read and not yet spent on a call; every call must be
  justified by it. The theorem says that of every call of every tick, whatever chain and database answer.
\<close>

section \<open>What has been read\<close>

record liq_known =
  lw_health :: "address \<Rightarrow> account_health option"
  lw_positions :: "(address \<times> open_position list) option"
  lw_prices :: "int \<Rightarrow> int option"
  lw_shortfall :: "int option"
  lw_rows :: "(int \<times> counterparty list) option"
  lw_debt :: "(address \<times> bad_debt_state) option"

definition nothing_known :: liq_known where
  "nothing_known = \<lparr>lw_health = Map.empty, lw_positions = None, lw_prices = Map.empty, lw_shortfall = None, lw_rows = None, lw_debt = None\<rparr>"

text \<open>A call spends what was read: only a new read can justify another one.\<close>

fun learn :: "liq_known \<Rightarrow> liq_event \<Rightarrow> liq_known" where
  "learn k (Health_read rs) = k\<lparr>lw_health := (\<lambda>a. case map_of rs a of Some r \<Rightarrow> r | None \<Rightarrow> lw_health k a)\<rparr>"
| "learn k (Positions_read a ps) = k\<lparr>lw_positions := Some (a, ps), lw_prices := Map.empty\<rparr>"
| "learn k (Index_read m p) = k\<lparr>lw_prices := (lw_prices k)(m := p)\<rparr>"
| "learn k (Shortfall_read x) = k\<lparr>lw_shortfall := x\<rparr>"
| "learn k (Counterparties_read m rs) = k\<lparr>lw_rows := Some (m, rs)\<rparr>"
| "learn k (Debt_read a st) = k\<lparr>lw_debt := Some (a, st)\<rparr>"
| "learn k Other_read = k"
| "learn k (Called c) = k\<lparr>lw_health := (case c of Liquidate a m \<Rightarrow> (lw_health k)(a := None) | _ \<Rightarrow> lw_health k),
     lw_positions := None, lw_shortfall := None, lw_rows := None, lw_debt := None\<rparr>"

definition known :: "liq_event list \<Rightarrow> liq_known" where
  "known tr = foldl learn nothing_known tr"

definition largest_market :: "(int \<Rightarrow> int option) \<Rightarrow> open_position list \<Rightarrow> int \<Rightarrow> bool" where
  "largest_market index ps m \<longleftrightarrow> (\<exists>p \<in> set ps. op_marketId p = m \<and> op_size p \<noteq> 0
     \<and> (\<forall>q \<in> set ps. op_size q \<noteq> 0 \<longrightarrow> market_notional index q \<le> market_notional index p))"

definition opposite_side :: "int \<Rightarrow> counterparty \<Rightarrow> bool" where
  "opposite_side sz c \<longleftrightarrow> cp_size c \<noteq> 0 \<and> (cp_size c > 0) \<noteq> (sz > 0)"

definition profit :: "int \<Rightarrow> counterparty \<Rightarrow> int" where
  "profit price c = adl_unrealizedPnl (cp_size c) (cp_openNotional c) price"

definition most_profitable :: "int \<Rightarrow> int \<Rightarrow> counterparty list \<Rightarrow> address \<Rightarrow> bool" where
  "most_profitable sz price rows a \<longleftrightarrow> (\<exists>c \<in> set rows. cp_trader c = a \<and> opposite_side sz c \<and> 0 < profit price c
     \<and> (\<forall>q \<in> set rows. opposite_side sz q \<longrightarrow> profit price q \<le> profit price c))"

fun justified :: "liq_options \<Rightarrow> liq_known \<Rightarrow> liq_call \<Rightarrow> bool" where
  "justified opts k (Liquidate a m) \<longleftrightarrow>
     (\<exists>h ps. lw_health k a = Some h \<and> ah_liquidatable h \<and> lw_positions k = Some (a, ps) \<and> largest_market (lw_prices k) ps m)"
| "justified opts k (Adl a m) \<longleftrightarrow>
     (\<exists>x ps bs price rows. lw_shortfall k = Some x \<and> 0 < x \<and> lo_adlMinShortfall opts \<le> x
        \<and> lw_positions k = Some (lo_insurance opts, ps) \<and> bs \<in> set ps \<and> op_marketId bs = m \<and> op_size bs \<noteq> 0
        \<and> lw_prices k m = Some price \<and> lw_rows k = Some (m, rows) \<and> most_profitable (op_size bs) price rows a)"
| "justified opts k (SettleBadDebt a) \<longleftrightarrow>
     (\<exists>st. lw_debt k = Some (a, st) \<and> bd_positionCount st = 0 \<and> bd_balance st < 0
        \<and> (0 < bd_operating st \<or> bd_recordedDebt st \<noteq> - bd_balance st))"

definition trace_ok :: "liq_options \<Rightarrow> liq_event list \<Rightarrow> bool" where
  "trace_ok opts = each_event (\<lambda>pre e. \<forall>c. e = Called c \<longrightarrow> justified opts (known pre) c)"

fun is_liquidate :: "liq_event \<Rightarrow> bool" where
  "is_liquidate (Called (Liquidate a m)) = True"
| "is_liquidate _ = False"

fun is_adl :: "liq_event \<Rightarrow> bool" where
  "is_adl (Called (Adl a m)) = True"
| "is_adl _ = False"

text \<open>At most \<open>n\<close> liquidations and \<open>k\<close> ADL calls, all justified.\<close>

definition sound :: "liq_options \<Rightarrow> nat \<Rightarrow> nat \<Rightarrow> liq_event list \<Rightarrow> bool" where
  "sound opts n k tr \<longleftrightarrow> trace_ok opts tr \<and> length (filter is_liquidate tr) \<le> n \<and> length (filter is_adl tr) \<le> k"

section \<open>Traces\<close>

lemma known_Nil [simp]: "known [] = nothing_known"
  by (simp add: known_def)

lemma known_append [simp]: "known (tr @ es) = foldl learn (known tr) es"
  by (simp add: known_def)

lemma trace_ok_Nil [simp]: "trace_ok opts []"
  by (simp add: trace_ok_def)

lemma trace_ok_snoc [simp]:
  "trace_ok opts (tr @ [e]) \<longleftrightarrow> trace_ok opts tr \<and> (\<forall>c. e = Called c \<longrightarrow> justified opts (known tr) c)"
  by (simp add: trace_ok_def)

lemma sound_read [simp]:
  "sound opts n k (tr @ [Health_read rs]) = sound opts n k tr" "sound opts n k (tr @ [Positions_read a ps]) = sound opts n k tr"
  "sound opts n k (tr @ [Index_read m p]) = sound opts n k tr" "sound opts n k (tr @ [Shortfall_read x]) = sound opts n k tr"
  "sound opts n k (tr @ [Counterparties_read m cs]) = sound opts n k tr" "sound opts n k (tr @ [Debt_read a st]) = sound opts n k tr"
  "sound opts n k (tr @ [Other_read]) = sound opts n k tr"
  by (simp_all add: sound_def)

lemma sound_two_reads [simp]: "sound opts n k (tr @ [Index_read m p, Counterparties_read m' cs]) = sound opts n k tr"
  using sound_read(5) [of opts n k "tr @ [Index_read m p]"] by simp

lemma sound_liquidate: "sound opts n k tr \<Longrightarrow> justified opts (known tr) (Liquidate a m) \<Longrightarrow> sound opts (Suc n) k (tr @ [Called (Liquidate a m)])"
  by (simp add: sound_def)

lemma sound_adl: "sound opts n k tr \<Longrightarrow> justified opts (known tr) (Adl a m) \<Longrightarrow> sound opts n (Suc k) (tr @ [Called (Adl a m)])"
  by (simp add: sound_def)

lemma sound_settle: "sound opts n k tr \<Longrightarrow> justified opts (known tr) (SettleBadDebt a) \<Longrightarrow> sound opts n k (tr @ [Called (SettleBadDebt a)])"
  by (simp add: sound_def)

lemma sound_mono: "sound opts n k tr \<Longrightarrow> n \<le> n' \<Longrightarrow> k \<le> k' \<Longrightarrow> sound opts n' k' tr"
  by (auto simp: sound_def)

section \<open>The choices are best\<close>

lemma pick_market_best:
  assumes "pick_market index ps best = Some (m, n)"
  shows "(best = Some (m, n) \<or> (\<exists>p \<in> set ps. op_marketId p = m \<and> op_size p \<noteq> 0 \<and> market_notional index p = n))
    \<and> (\<forall>q \<in> set ps. op_size q \<noteq> 0 \<longrightarrow> market_notional index q \<le> n) \<and> (\<forall>b. best = Some b \<longrightarrow> snd b \<le> n)"
  using assms
proof (induction ps arbitrary: best)
  case (Cons p ps)
  show ?case
  proof (cases "op_size p = 0")
    case True
    with Cons show ?thesis by auto
  next
    case False
    let ?n = "market_notional index p"
    let ?b = "case best of None \<Rightarrow> Some (op_marketId p, ?n) | Some (m, b) \<Rightarrow> if ?n > b then Some (op_marketId p, ?n) else Some (m, b)"
    have "pick_market index ps ?b = Some (m, n)" using Cons.prems False by (simp add: Let_def)
    from Cons.IH [OF this] False show ?thesis by (auto split: option.splits if_splits)
  qed
qed simp

lemma pickLiquidationMarket_largest: "pickLiquidationMarket ps index = Some m \<Longrightarrow> largest_market index ps m"
  using pick_market_best [of index ps None m] by (auto simp: pickLiquidationMarket_def largest_market_def)

lemma pick_counterparty_best:
  assumes "pick_counterparty sz price cs best = Some (a, n)"
  shows "(best = Some (a, n) \<or> (\<exists>c \<in> set cs. cp_trader c = a \<and> opposite_side sz c \<and> 0 < profit price c \<and> profit price c = n))
    \<and> (\<forall>q \<in> set cs. opposite_side sz q \<longrightarrow> 0 < profit price q \<longrightarrow> profit price q \<le> n) \<and> (\<forall>b. best = Some b \<longrightarrow> snd b \<le> n)"
  using assms
proof (induction cs arbitrary: best)
  case (Cons c cs)
  show ?case
  proof (cases "\<not> opposite_side sz c \<or> profit price c \<le> 0")
    case True
    then have "pick_counterparty sz price cs best = Some (a, n)"
      using Cons.prems by (auto simp: opposite_side_def profit_def Let_def split: if_splits)
    from Cons.IH [OF this] True show ?thesis by auto
  next
    case False
    let ?b = "case best of None \<Rightarrow> Some (cp_trader c, profit price c)
      | Some (t, b) \<Rightarrow> if profit price c > b then Some (cp_trader c, profit price c) else Some (t, b)"
    have "cp_size c \<noteq> 0" "(cp_size c > 0) \<noteq> (sz > 0)" "\<not> profit price c \<le> 0"
      using False by (simp_all add: opposite_side_def)
    then have "pick_counterparty sz price (c # cs) best = pick_counterparty sz price cs ?b"
      by (simp add: Let_def flip: profit_def)
    then have "pick_counterparty sz price cs ?b = Some (a, n)" using Cons.prems by simp
    from Cons.IH [OF this] False show ?thesis by (auto split: option.splits if_splits)
  qed
qed simp

lemma pickAdlCounterparty_best: "pickAdlCounterparty sz cs price = Some (a, u) \<Longrightarrow> most_profitable sz price cs a"
  using pick_counterparty_best [of sz price cs None a u]
  unfolding pickAdlCounterparty_def most_profitable_def by fastforce

text \<open>Only the value at a market matters, so an unread price and the zero the code stores for it are the same.\<close>

lemma largest_market_cong:
  "(\<And>m. get_or f m 0 = get_or g m 0) \<Longrightarrow> largest_market f ps m = largest_market g ps m"
  by (simp add: largest_market_def market_notional_def)

section \<open>Selection\<close>

interpretation shortfall: comparator by_shortfall
  by unfold_locales (auto simp: by_shortfall_def split: if_splits)

lemma split_health_mem:
  "c \<in> set (se_liquidatable (split_health hs)) \<Longrightarrow> (lc_trader c, Some (lc_health c)) \<in> set hs \<and> ah_liquidatable (lc_health c)"
  by (induction hs rule: split_health.induct) (auto simp: Let_def split: option.splits if_splits)

lemma split_health_distinct:
  "distinct (map fst hs) \<Longrightarrow> distinct (map lc_trader (se_liquidatable (split_health hs)))"
proof (induction hs rule: split_health.induct)
  case (2 trader h rest)
  then have "trader \<notin> lc_trader ` set (se_liquidatable (split_health rest))"
    using split_health_mem [of _ rest] by force
  with 2 show ?case by (auto simp: Let_def split: option.splits)
qed simp

lemma selected:
  assumes "distinct (map fst hs)" and "cs = se_liquidatable (selectCandidates hs n)"
  shows "distinct (map lc_trader cs)" and "length cs \<le> n"
    and "\<And>c. c \<in> set cs \<Longrightarrow> (lc_trader c, Some (lc_health c)) \<in> set hs \<and> ah_liquidatable (lc_health c)"
proof -
  let ?all = "js_sort by_shortfall (se_liquidatable (split_health hs))"
  have cs: "cs = take n ?all" using assms(2) by (simp add: selectCandidates_def Let_def)
  have "distinct (map lc_trader ?all)"
    using split_health_distinct [OF assms(1)] by (metis distinct_js_sort mset_js_sort mset_map mset_eq_imp_distinct_iff)
  then show "distinct (map lc_trader cs)" unfolding cs take_map [symmetric] by (rule distinct_take)
  show "length cs \<le> n" by (simp add: cs)
  show "(lc_trader c, Some (lc_health c)) \<in> set hs \<and> ah_liquidatable (lc_health c)" if "c \<in> set cs" for c
    using that set_take_subset [of n ?all] split_health_mem by (fastforce simp: cs)
qed

section \<open>The tick keeps the trace justified\<close>

lemma keeps_sound_ask [act_keeps]:
  "(\<And>x c. event x \<noteq> Called c) \<Longrightarrow> keeps (on_trace (sound opts n k)) (ask answer event)"
proof (rule keeps_ask)
  fix x tr
  assume "\<And>x c. event x \<noteq> Called c" and "sound opts n k tr"
  then show "sound opts n k (tr @ [event x])" by (cases "event x") auto
qed

text \<open>A send adds its call to the trace and nothing else, whatever happens to it.\<close>

lemma wp_liq_send:
  assumes "\<And>r t. kk_trace t = kk_trace s @ [Called call] \<Longrightarrow> Q r t"
    and "\<And>e t. kk_trace t = kk_trace s @ [Called call] \<Longrightarrow> E e t"
  shows "wp (liq_send opts env call payload) Q E s"
  unfolding liq_send_def wp_then wp_log_event Let_def
  by (rule wp_silent [where P = "\<lambda>tr. tr = kk_trace s @ [Called call]"]) (intro act_keeps | simp add: assms)+

text \<open>What reading prices leaves alone, and what it adds.\<close>

definition same_reads :: "liq_event list \<Rightarrow> liq_event list \<Rightarrow> bool" where
  "same_reads tr tr' \<longleftrightarrow> lw_health (known tr') = lw_health (known tr) \<and> lw_positions (known tr') = lw_positions (known tr)
     \<and> lw_shortfall (known tr') = lw_shortfall (known tr)"

lemma wp_read_prices:
  assumes "sound opts n k (kk_trace s)" and "\<And>m. get_or (lw_prices (known (kk_trace s))) m 0 = get_or prices m 0"
  shows "wp (read_prices env ps prices)
     (\<lambda>prices' t. sound opts n k (kk_trace t) \<and> same_reads (kk_trace s) (kk_trace t)
        \<and> (\<forall>m. get_or (lw_prices (known (kk_trace t))) m 0 = get_or prices' m 0))
     (\<lambda>_ t. sound opts n k (kk_trace t)) s"
  using assms
proof (induction ps arbitrary: prices s)
  case Nil
  then show ?case by (simp add: act_wp same_reads_def)
next
  case (Cons p ps)
  show ?case
    unfolding read_prices.simps wp_bind indexPrice_def wp_ask sum.case
    by (rule wp_mono [OF Cons.IH])
      (use Cons.prems in \<open>auto simp: same_reads_def get_or_def fun_upd_def split: option.splits\<close>)
qed

lemma wp_liquidate_steps:
  assumes "sound opts n k (kk_trace s)" and "\<And>h. health = Some h \<Longrightarrow> lw_health (known (kk_trace s)) a = Some h"
  shows "wp (liquidate_steps opts env a r steps health)
     (\<lambda>res t. sound opts (n + r) k (kk_trace t)
        \<and> (\<forall>b. b \<noteq> a \<longrightarrow> lw_health (known (kk_trace t)) b = lw_health (known (kk_trace s)) b))
     (\<lambda>_ t. sound opts (n + r) k (kk_trace t)) s"
  using assms
proof (induction r arbitrary: n s steps health)
  case 0
  then show ?case by (simp add: act_wp)
next
  case (Suc r)
  let ?tr = "kk_trace s"
  have weak: "sound opts (n + Suc r) k tr" if "sound opts n k tr" for tr
    using that by (rule sound_mono) simp_all
  show ?case
  proof (cases "health_liquidatable health")
    case False
    then show ?thesis using weak [OF Suc.prems(1)] by (auto simp: act_wp health_liquidatable_def split: option.splits)
  next
    case True
    then obtain h where h: "health = Some h" "ah_liquidatable h" by (auto simp: health_liquidatable_def split: option.splits)
    have known_h: "lw_health (known ?tr) a = Some h" using Suc.prems(2) h(1) by blast
    define Q :: "(nat \<times> bool option) \<Rightarrow> liq_keeper \<Rightarrow> bool" where
      "Q = (\<lambda>res t. sound opts (n + Suc r) k (kk_trace t)
        \<and> (\<forall>b. b \<noteq> a \<longrightarrow> lw_health (known (kk_trace t)) b = lw_health (known ?tr) b))"
    define E :: "keeper_error \<Rightarrow> liq_keeper \<Rightarrow> bool" where "E = (\<lambda>_ t. sound opts (n + Suc r) k (kk_trace t))"
    have again: "wp (liquidate_steps opts env a r (Suc steps) health') Q E t"
      if "sound opts (Suc n) k (kk_trace t)" "\<And>x. health' = Some x \<Longrightarrow> lw_health (known (kk_trace t)) a = Some x"
        "\<And>b. b \<noteq> a \<Longrightarrow> lw_health (known (kk_trace t)) b = lw_health (known ?tr) b" for t health'
      by (rule wp_mono [OF Suc.IH [OF that(1,2)]]) (use that(3) in \<open>auto simp: Q_def E_def\<close>)
    have reread: "wp (readAccountHealth env [a]) (\<lambda>m. wp (liquidate_steps opts env a r (Suc steps)
        (case map_of m a of None \<Rightarrow> None | Some x \<Rightarrow> x)) Q E) E t"
      if "sound opts (Suc n) k (kk_trace t)" "\<And>b. b \<noteq> a \<Longrightarrow> lw_health (known (kk_trace t)) b = lw_health (known ?tr) b" for t
    proof -
      have one: "chunkFills 200 [a] = [[a]]" by (simp add: chunkFills.simps)
      have "sound opts (n + Suc r) k (kk_trace t)" using that(1) by (rule sound_mono) simp_all
      then have "E e t" for e by (simp add: E_def)
      then show ?thesis
        using that by (cases "le_health env (kk_trace t) [a]") (auto simp: readAccountHealth_def one act_wp intro!: again)
    qed
    have call: "wp (liq_send opts env (Liquidate a m) payload) (\<lambda>x. wp (case x of
          Not_sent cls name \<Rightarrow> if cls = Cls Rv_paused then act_ret (steps, None) else act_ret (steps, Some True)
        | Sent receipt \<Rightarrow> act_then (count_by ''liq_liquidations_total'' 1) (act_bind (readAccountHealth env [a])
            (\<lambda>m. liquidate_steps opts env a r (Suc steps) (case map_of m a of None \<Rightarrow> None | Some x \<Rightarrow> x)))) Q E) E t"
      if t: "sound opts n k (kk_trace t)" "same_reads (?tr @ [Positions_read a ps]) (kk_trace t)"
        "largest_market (lw_prices (known (kk_trace t))) ps m" for t m payload ps
    proof (rule wp_liq_send, goal_cases)
      case (1 x u)
      have "justified opts (known (kk_trace t)) (Liquidate a m)"
        using t(2,3) known_h h(2) by (simp add: same_reads_def)
      then have s: "sound opts (Suc n) k (kk_trace u)" using t(1) 1 by (simp add: sound_liquidate)
      then have "sound opts (n + Suc r) k (kk_trace u)" by (rule sound_mono) simp_all
      moreover have rest: "lw_health (known (kk_trace u)) b = lw_health (known ?tr) b" if "b \<noteq> a" for b
        using t(2) 1 that by (simp add: same_reads_def)
      ultimately have "Q r' u" for r' by (simp add: Q_def)
      then show ?case using reread [of "u\<lparr>kk_metrics := y\<rparr>" for y] s rest by (simp add: act_wp split: send_result.splits)
    next
      case (2 e u)
      have "justified opts (known (kk_trace t)) (Liquidate a m)"
        using t(2,3) known_h h(2) by (simp add: same_reads_def)
      then have "sound opts (Suc n) k (kk_trace u)" using t(1) 2 by (simp add: sound_liquidate)
      then have "sound opts (n + Suc r) k (kk_trace u)" by (rule sound_mono) simp_all
      then show ?case by (simp add: E_def)
    qed
    have go: "(if \<not> ah_liquidatable h then x else y) = y" for x y :: "(nat \<times> bool option) liq_act" using h(2) by simp
    have "wp (liquidate_steps opts env a (Suc r) steps health) Q E s"
      unfolding h(1) liquidate_steps.simps option.case go wp_bind
        positionsOf_def wp_ask
    proof (cases "le_positions env ?tr a", goal_cases)
      case (1 e)
      then show ?case using weak [OF Suc.prems(1)] by (simp add: E_def)
    next
      case (2 ps)
      let ?u = "s\<lparr>kk_trace := ?tr @ [Positions_read a ps]\<rparr>"
      have "sound opts n k (kk_trace ?u)" "\<And>m. get_or (lw_prices (known (kk_trace ?u))) m 0 = get_or Map.empty m 0"
        using Suc.prems(1) by simp_all
      note prices = wp_read_prices [OF this]
      show ?case
        unfolding 2 sum.case
      proof (rule wp_mono [OF prices], goal_cases)
        case (1 prices t)
        then have t: "sound opts n k (kk_trace t)" "same_reads (?tr @ [Positions_read a ps]) (kk_trace t)" by simp_all
        have largest: "largest_market (lw_prices (known (kk_trace t))) ps m" if "pickLiquidationMarket ps prices = Some m" for m
          using pickLiquidationMarket_largest [OF that] 1 largest_market_cong [of "lw_prices (known (kk_trace t))" prices] by simp
        have "Q (steps, Some True) t" using weak [OF t(1)] t(2) by (simp add: Q_def same_reads_def)
        then show ?case
          using call [OF t largest] by (simp add: act_wp split: option.split)
      next
        case (2 e t)
        then show ?case using weak by (simp add: E_def)
      qed
    qed
    then show ?thesis by (simp add: Q_def E_def)
  qed
qed

lemma wp_read_health_slices:
  assumes "sound opts n k (kk_trace s)" and "distinct (map fst out @ concat slices)"
    and "\<And>a h. (a, h) \<in> set out \<Longrightarrow> lw_health (known (kk_trace s)) a = h"
  shows "wp (read_health_slices env slices out)
     (\<lambda>res t. sound opts n k (kk_trace t) \<and> map fst res = map fst out @ concat slices
        \<and> (\<forall>a h. (a, h) \<in> set res \<longrightarrow> lw_health (known (kk_trace t)) a = h))
     (\<lambda>_ t. sound opts n k (kk_trace t)) s"
  using assms
proof (induction slices arbitrary: out s)
  case Nil
  then show ?case by (simp add: act_wp)
next
  case (Cons slice rest)
  show ?case
  proof (cases "le_health env (kk_trace s) slice")
    case (Inl e)
    then show ?thesis using Cons.prems(1) by (simp add: act_wp)
  next
    case (Inr f)
    let ?rs = "map (\<lambda>a. (a, f a)) slice"
    let ?u = "s\<lparr>kk_trace := kk_trace s @ [Health_read ?rs]\<rparr>"
    have fresh: "set slice \<inter> fst ` set out = {}" using Cons.prems(2) by auto
    have look: "map_of ?rs a = (if a \<in> set slice then Some (f a) else None)" for a by (induction slice) auto
    have "wp (read_health_slices env rest (out @ ?rs))
       (\<lambda>res t. sound opts n k (kk_trace t) \<and> map fst res = map fst (out @ ?rs) @ concat rest
          \<and> (\<forall>a h. (a, h) \<in> set res \<longrightarrow> lw_health (known (kk_trace t)) a = h))
       (\<lambda>_ t. sound opts n k (kk_trace t)) ?u"
    proof (rule Cons.IH)
      show "sound opts n k (kk_trace ?u)" using Cons.prems(1) by simp
      show "distinct (map fst (out @ ?rs) @ concat rest)" using Cons.prems(2) by (simp add: comp_def)
      show "lw_health (known (kk_trace ?u)) a = h" if "(a, h) \<in> set (out @ ?rs)" for a h
      proof (cases "a \<in> set slice")
        case True
        then have "(a, h) \<notin> set out" using fresh by (metis IntI empty_iff fst_conv imageI)
        with that True show ?thesis by (auto simp: look)
      next
        case False
        with that have "(a, h) \<in> set out" by auto
        then have "lw_health (known (kk_trace s)) a = h" by (rule Cons.prems(3))
        with False show ?thesis by (simp add: look)
      qed
    qed
    then show ?thesis using Inr by (simp add: wp_bind wp_ask comp_def)
  qed
qed

lemma wp_liquidate_all:
  assumes "sound opts n k (kk_trace s)" and "distinct (map lc_trader cs)"
    and "\<And>c. c \<in> set cs \<Longrightarrow> lw_health (known (kk_trace s)) (lc_trader c) = Some (lc_health c)"
  shows "wp (liquidate_all opts env cs out)
     (\<lambda>_ t. sound opts (n + length cs * lo_maxStepsPerAccount opts) k (kk_trace t))
     (\<lambda>_ t. sound opts (n + length cs * lo_maxStepsPerAccount opts) k (kk_trace t)) s"
  using assms
proof (induction cs arbitrary: n s out)
  case Nil
  then show ?case by (simp add: act_wp)
next
  case (Cons c cs)
  let ?m = "lo_maxStepsPerAccount opts"
  have one: "wp (liquidate_steps opts env (lc_trader c) ?m 0 (Some (lc_health c)))
     (\<lambda>res t. sound opts (n + ?m) k (kk_trace t)
        \<and> (\<forall>b. b \<noteq> lc_trader c \<longrightarrow> lw_health (known (kk_trace t)) b = lw_health (known (kk_trace s)) b))
     (\<lambda>_ t. sound opts (n + ?m) k (kk_trace t)) s"
    using Cons.prems by (intro wp_liquidate_steps) auto
  define N where "N = n + length (c # cs) * ?m"
  have weak: "sound opts (N) k tr" if "sound opts (n + ?m) k tr" for tr
    using that by (rule sound_mono) (simp_all add: N_def)
  have more: "wp (liquidate_all opts env cs out')
     (\<lambda>_ t. sound opts (N) k (kk_trace t))
     (\<lambda>_ t. sound opts (N) k (kk_trace t)) t"
    if t: "sound opts (n + ?m) k (kk_trace t)"
      "\<forall>b. b \<noteq> lc_trader c \<longrightarrow> lw_health (known (kk_trace t)) b = lw_health (known (kk_trace s)) b" for t out'
  proof -
    have "lw_health (known (kk_trace t)) (lc_trader d) = Some (lc_health d)" if "d \<in> set cs" for d
    proof -
      have "lc_trader d \<in> lc_trader ` set cs" using that by (rule imageI)
      then have "lc_trader d \<noteq> lc_trader c" using Cons.prems(2) by auto
      with t(2) have "lw_health (known (kk_trace t)) (lc_trader d) = lw_health (known (kk_trace s)) (lc_trader d)" by blast
      then show ?thesis using Cons.prems(3) [of d] that by simp
    qed
    with Cons.IH [of "n + ?m" t out', OF t(1)] Cons.prems(2) show ?thesis by (simp add: N_def algebra_simps)
  qed
  have "wp (liquidate_all opts env (c # cs) out) (\<lambda>_ t. sound opts N k (kk_trace t)) (\<lambda>_ t. sound opts N k (kk_trace t)) s"
    unfolding liquidate_all.simps liquidateAccount_def wp_bind
    by (rule wp_mono [OF one]) (auto simp: act_wp intro: weak more)
  then show ?case by (simp add: N_def)
qed

lemma wp_adl_markets:
  assumes "sound opts n k (kk_trace s)" and "lw_shortfall (known (kk_trace s)) = Some x" and "0 < x" and "lo_adlMinShortfall opts \<le> x"
    and "lw_positions (known (kk_trace s)) = Some (lo_insurance opts, ps)" and "set bss \<subseteq> set ps"
  shows "wp (adl_markets opts env x bss) (\<lambda>_ t. sound opts n (Suc k) (kk_trace t)) (\<lambda>_ t. sound opts n (Suc k) (kk_trace t)) s"
  using assms
proof (induction bss arbitrary: s)
  case Nil
  then show ?case by (auto simp: act_wp intro: sound_mono)
next
  case (Cons bs rest)
  let ?Q = "\<lambda>_ t. sound opts n (Suc k) (kk_trace t)"
  let ?i = "Index_read (op_marketId bs)" and ?c = "Counterparties_read (op_marketId bs)"
  have next_market: "wp (adl_markets opts env x rest) ?Q ?Q t"
    if "sound opts n k (kk_trace t)" "lw_shortfall (known (kk_trace t)) = Some x"
      "lw_positions (known (kk_trace t)) = Some (lo_insurance opts, ps)" for t
    using that Cons.prems(3,4,6) by (intro Cons.IH) auto
  have call: "wp (liq_send opts env (Adl a (op_marketId bs)) payload) Q ?Q t"
    if t: "kk_trace t = (kk_trace s @ [?i (Some px)]) @ [?c rows]" and pick: "pickAdlCounterparty (op_size bs) rows px = Some (a, u)"
      and bs: "op_size bs \<noteq> 0" and Q: "\<And>r u. sound opts n (Suc k) (kk_trace u) \<Longrightarrow> Q r u" for t px rows a u payload Q
  proof -
    have k: "lw_shortfall (known (kk_trace t)) = Some x" "lw_positions (known (kk_trace t)) = Some (lo_insurance opts, ps)"
      "lw_prices (known (kk_trace t)) (op_marketId bs) = Some px" "lw_rows (known (kk_trace t)) = Some (op_marketId bs, rows)"
      using Cons.prems(2,5) t by simp_all
    have mem: "bs \<in> set ps" using Cons.prems(6) by simp
    have "justified opts (known (kk_trace t)) (Adl a (op_marketId bs))"
      unfolding justified.simps
      by (rule exI [of _ x], rule exI [of _ ps], rule exI [of _ bs], rule exI [of _ px], rule exI [of _ rows])
        (intro conjI k mem bs refl pickAdlCounterparty_best [OF pick] Cons.prems(3,4))
    moreover have "sound opts n k (kk_trace t)" unfolding t sound_read by (rule Cons.prems(1))
    ultimately have "sound opts n (Suc k) (kk_trace t @ [Called (Adl a (op_marketId bs))])" by (rule sound_adl [rotated])
    with Q show ?thesis by (intro wp_liq_send) simp_all
  qed
  show ?case
  proof (cases "op_size bs = 0")
    case True
    then show ?thesis using next_market Cons.prems by simp
  next
    case False
    have after: "wp (counterparties opts env (op_marketId bs)) (\<lambda>rows. wp (case pickAdlCounterparty (op_size bs) rows px of
          None \<Rightarrow> adl_markets opts env x rest
        | Some (trader, upnl) \<Rightarrow>
              act_bind (act_get (\<lambda>s. kt_nextId (kk_actions s))) (\<lambda>i.
              act_bind (liq_send opts env (Adl trader (op_marketId bs))
                 [(''counterparty'', JStr trader), (''marketId'', JNum (op_marketId bs)),
                  (''shortfall'', big_json x), (''expectedUpnl'', big_json upnl)]) (\<lambda>r. case r of
                Not_sent cls name \<Rightarrow> act_ret (Adl_skipped (send_class_text cls))
              | Sent receipt \<Rightarrow>
                  let haircut = haircut_of opts (ce_logs (le_call env i) (rc_hash receipt)) in
                  act_then (count_by ''adl_total'' 1)
                 (act_then (count_by ''adl_haircut_total_1e18'' haircut)
                    (act_ret (Adl_done trader (op_marketId bs) haircut)))))) ?Q ?Q) ?Q (s\<lparr>kk_trace := kk_trace s @ [?i (Some px)]\<rparr>)" for px
      unfolding counterparties_def wp_ask sum.case
      using Cons.prems False
      by (auto simp: act_wp Let_def split: option.split send_result.split intro!: next_market call)
    show ?thesis
      using False next_market Cons.prems after
      by (auto simp: indexPrice_def wp_bind wp_ask split: sum.splits)
  qed
qed

lemma keeps_settle_debtors: "keeps (on_trace (sound opts n k)) (settle_debtors opts env traders settled)"
proof (induction traders arbitrary: settled)
  case Nil
  then show ?case by (simp add: keeps_ret)
next
  case (Cons trader rest)
  let ?I = "on_trace (sound opts n k)"
  have "wp (settle_debtors opts env (trader # rest) settled) (\<lambda>_. ?I) (\<lambda>_. ?I) s" if s: "?I s" for s
  proof (cases "le_debt env (kk_trace s) trader")
    case (Inl e)
    then show ?thesis using s by (simp add: badDebtState_def act_wp)
  next
    case (Inr st)
    let ?u = "s\<lparr>kk_trace := kk_trace s @ [Debt_read trader st]\<rparr>"
    have u: "?I ?u" using s by (simp add: on_trace_def)
    have rest: "wp (settle_debtors opts env rest out) (\<lambda>_. ?I) (\<lambda>_. ?I) t" if "?I t" for t out
      using Cons.IH that by (simp add: keeps_def)
    have "wp (liq_send opts env (SettleBadDebt trader) p) (\<lambda>r. wp (case r of
              Sent receipt \<Rightarrow> act_then (count_by ''bad_debt_settled_total'' 1) (settle_debtors opts env rest (settled @ [trader]))
            | Not_sent cls name \<Rightarrow> settle_debtors opts env rest settled) (\<lambda>_. ?I) (\<lambda>_. ?I)) (\<lambda>_. ?I) ?u"
      if "debt_settleable st" for p
    proof -
      have "justified opts (known (kk_trace ?u)) (SettleBadDebt trader)" using that by (auto simp: debt_settleable_def)
      with u have "sound opts n k (kk_trace ?u @ [Called (SettleBadDebt trader)])"
        by (intro sound_settle) (simp_all add: on_trace_def)
      then show ?thesis
        by (intro wp_liq_send) (auto simp: act_wp on_trace_def intro!: rest split: send_result.split)
    qed
    with Inr u rest show ?thesis by (auto simp: badDebtState_def wp_bind wp_ask)
  qed
  then show ?case by (simp add: keeps_def)
qed

lemma keeps_reconcile_actions: "keeps (on_trace (sound opts n k)) (reconcile_actions opts env as missing)"
  by (induction as arbitrary: missing) (auto simp: Let_def intro!: act_keeps)

lemma wp_run_liquidations:
  assumes "sound opts 0 0 (kk_trace s)"
  shows "wp (run_liquidations opts env)
     (\<lambda>_ t. sound opts (lo_maxAccountsPerTick opts * lo_maxStepsPerAccount opts) 0 (kk_trace t))
     (\<lambda>_ t. sound opts (lo_maxAccountsPerTick opts * lo_maxStepsPerAccount opts) 0 (kk_trace t)) s"
proof -
  define N where "N = lo_maxAccountsPerTick opts * lo_maxStepsPerAccount opts"
  define P :: "liq_event list \<Rightarrow> bool" where "P = sound opts N 0"
  have weak: "P tr" if "sound opts n 0 tr" "n \<le> N" for tr n
    using that sound_mono [of opts n 0 tr N 0] by (simp add: P_def)
  have batch: "wp (liquidate_all opts env cs []) (\<lambda>_ t. P (kk_trace t)) (\<lambda>_ t. P (kk_trace t)) t"
    if t: "sound opts 0 0 (kk_trace t)" and health: "distinct (map fst hs)"
      "\<And>a h. (a, h) \<in> set hs \<Longrightarrow> lw_health (known (kk_trace t)) a = h"
      and cs: "cs = se_liquidatable (selectCandidates hs (lo_maxAccountsPerTick opts))" for t hs cs
  proof -
    note sel = selected [OF health(1) cs]
    have "length cs * lo_maxStepsPerAccount opts \<le> N" using sel(2) by (simp add: N_def)
    moreover have "wp (liquidate_all opts env cs [])
        (\<lambda>_ t. sound opts (0 + length cs * lo_maxStepsPerAccount opts) 0 (kk_trace t))
        (\<lambda>_ t. sound opts (0 + length cs * lo_maxStepsPerAccount opts) 0 (kk_trace t)) t"
      using sel(1,3) health(2) by (intro wp_liquidate_all [OF t]) blast+
    ultimately show ?thesis by (elim wp_mono) (auto intro: weak)
  qed
  have "wp (run_liquidations opts env) (\<lambda>_ t. P (kk_trace t)) (\<lambda>_ t. P (kk_trace t)) s"
    unfolding run_liquidations_def openTraders_def wp_bind wp_ask sum.case readAccountHealth_def
  proof (rule wp_mono [OF wp_read_health_slices [of opts 0 0]], goal_cases)
    case (4 hs t)
    then have "distinct (map fst hs)" by (simp add: concat_chunkFills)
    with 4 show ?case by (auto simp: Let_def act_wp intro!: wp_mono [OF batch])
  qed (use assms in \<open>auto simp: concat_chunkFills intro: weak\<close>)
  then show ?thesis by (simp add: P_def N_def)
qed

lemma wp_adlStep:
  assumes "sound opts n k (kk_trace s)"
  shows "wp (adlStep opts env) (\<lambda>_ t. sound opts n (Suc k) (kk_trace t)) (\<lambda>_ t. sound opts n (Suc k) (kk_trace t)) s"
proof -
  have weak: "sound opts n (Suc k) tr" if "sound opts n k tr" for tr
    using that by (rule sound_mono) simp_all
  have markets: "wp (adl_markets opts env x ps) (\<lambda>_ t. sound opts n (Suc k) (kk_trace t)) (\<lambda>_ t. sound opts n (Suc k) (kk_trace t)) t"
    if t: "kk_trace t = (kk_trace s @ [Shortfall_read (Some x)]) @ [Positions_read (lo_insurance opts) ps]"
      and x: "\<not> x \<le> 0" "\<not> x < lo_adlMinShortfall opts" for t x ps
  proof (rule wp_adl_markets [where ps = ps])
    show "sound opts n k (kk_trace t)" unfolding t sound_read by (rule assms)
  qed (use t x in simp_all)
  show ?thesis
    using weak [OF assms] assms
    by (auto simp: adlStep_def unfundedShortfall_def positionsOf_def wp_bind wp_then wp_ask wp_gauge wp_ret wp_count_by weak
        split: sum.splits option.splits intro!: markets)
qed

text \<open>
  C31. Every call of a liquidation tick is justified by what the tick itself has just read, whatever the chain and the
  database answer and wherever a send fails. A liquidation names an account whose last health read was
  liquidatable and that has not been called since, and its open position with the largest notional at
  the index; ADL needs a positive unfunded shortfall of at least the minimum and names the most profitable position on the
  side opposite to the backstop; bad debt is settled only for a closed account with a negative balance where
  capital or the record would change. There are at most \<open>maxAccountsPerTick\<close> times
  \<open>maxStepsPerAccount\<close> liquidations and at most one ADL.
\<close>

theorem liquidation_calls_are_justified:
  assumes "kk_trace s = []"
  shows "sound opts (lo_maxAccountsPerTick opts * lo_maxStepsPerAccount opts) 1 (kk_trace (snd (liq_tick opts env s)))"
proof -
  define N where "N = lo_maxAccountsPerTick opts * lo_maxStepsPerAccount opts"
  let ?I = "on_trace (sound opts N (Suc 0))"
  have weak: "?I t" if "sound opts n k (kk_trace t)" "n \<le> N" "k \<le> Suc 0" for t n k
    using sound_mono [OF that] by (simp add: on_trace_def)
  have tail: "keeps ?I (settleBadDebts opts env)" "keeps ?I (solvency_gauge env)" "keeps ?I (reconcileIndexed opts env)"
    by (auto simp: settleBadDebts_def debtors_def solvency_gauge_def reconcileIndexed_def
        intro!: act_keeps keeps_settle_debtors keeps_reconcile_actions)
  have rest: "wp (act_bind (settleBadDebts opts env) (\<lambda>settled. act_then (solvency_gauge env)
       (act_then (reconcileIndexed opts env) (act_ret (f settled))))) (\<lambda>_. ?I) (\<lambda>_. ?I) t" if "?I t" for t and f :: "address list \<Rightarrow> liq_tick_result"
    by (rule wp_keeps [where I = ?I]) (intro act_keeps tail, rule that)
  have decide: "wp (act_bind (run_liquidations opts env) (\<lambda>(sel, liquidated). act_bind (adlStep opts env) (\<lambda>adl.
       act_bind (settleBadDebts opts env) (\<lambda>settled. act_then (solvency_gauge env) (act_then (reconcileIndexed opts env)
          (act_ret (f sel liquidated adl settled))))))) (\<lambda>_. ?I) (\<lambda>_. ?I) t"
    if t: "sound opts 0 0 (kk_trace t)" for t and f :: "selection \<Rightarrow> (address \<times> nat \<times> bool option) list \<Rightarrow> adl_result \<Rightarrow> address list \<Rightarrow> liq_tick_result"
    unfolding wp_bind
  proof (rule wp_mono [OF wp_run_liquidations [OF t]], goal_cases)
    case (1 r u)
    then show ?case
      unfolding N_def [symmetric] case_prod_beta wp_bind [symmetric]
      by (subst wp_bind, elim wp_adlStep [THEN wp_mono]) (auto simp: on_trace_def intro!: rest)
  qed (auto simp flip: N_def intro: weak)
  have start: "wp (guard_in_flight (lo_deps opts) (le_recovery env)) (\<lambda>_ t. sound opts 0 0 (kk_trace t)) (\<lambda>_ t. sound opts 0 0 (kk_trace t)) t"
    if "sound opts 0 0 (kk_trace t)" for t
    by (rule wp_silent [where P = "sound opts 0 0"]) (use that in \<open>auto intro: act_keeps\<close>)
  have quiet: "?I t" if "sound opts 0 0 (kk_trace t)" for t using that by (rule weak) simp_all
  have "sound opts 0 0 (kk_trace s)" using assms by (simp add: sound_def)
  then have "wp (liq_tick opts env) (\<lambda>_. ?I) (\<lambda>_. ?I) s"
    unfolding liq_tick_def chain_paused_def
    by (auto simp: wp_bind wp_ask wp_ret wp_then wp_gauge split: sum.splits
        intro!: quiet wp_mono [OF start] decide [unfolded wp_bind [of "run_liquidations opts env"]])
  then show ?thesis by (simp add: wp_final on_trace_def N_def)
qed

definition sample_health :: "bool \<Rightarrow> account_health" where
  "sample_health sick = \<lparr>ah_collateralValue = 0, ah_unrealizedPnl = 0, ah_equity = 1, ah_initialMarginRequired = 9,
     ah_maintenanceMarginRequired = 5, ah_freeCollateral = 0, ah_marginRatio = 0, ah_liquidatable = sick\<rparr>"

definition sample_liq_options :: liq_options where
  "sample_liq_options = \<lparr>lo_deps = sample_deps, lo_liquidation = ''0xl'', lo_insurance = ''0xi'', lo_encode = call_kind,
     lo_maxAccountsPerTick = 2, lo_maxStepsPerAccount = 3, lo_indexerGraceMs = 0, lo_adlMinShortfall = 1\<rparr>"

text \<open>One account is under water until it has been liquidated once.\<close>

definition sample_liq_env :: liq_env where
  "sample_liq_env = \<lparr>le_paused = (\<lambda>_. Inr (False, False, False)),
     le_health = (\<lambda>tr as. Inr (\<lambda>a. Some (sample_health (\<not> list_ex is_liquidate tr)))),
     le_positions = (\<lambda>_ a. Inr [\<lparr>op_marketId = 1, op_size = 10 ^ 18, op_openNotional = 3\<rparr>, \<lparr>op_marketId = 2, op_size = 2, op_openNotional = 0\<rparr>]),
     le_index = (\<lambda>_ m. Inr 2), le_shortfall = (\<lambda>_. Inr 0), le_debt = (\<lambda>_ a. Inr \<lparr>bd_positionCount = 1, bd_balance = 0, bd_recordedDebt = 0, bd_operating = 0\<rparr>),
     le_solvency = (\<lambda>_. Inr (1, 0)),
     le_positionRows = (\<lambda>_. [\<lparr>ix_network = ''arc'', ix_marketId = 1, ix_trader = ''0xa'', ix_size = - (10 ^ 18), ix_openNotional = -9\<rparr>]),
     le_accountRows = (\<lambda>_. []), le_indexedTx = (\<lambda>_. []), le_updatedAt = (\<lambda>_. 0), le_now = 0,
     le_recovery = (\<lambda>_. \<lparr>re_started = 0, re_view = sample_wait_view, re_passes = 2\<rparr>), le_call = sample_call\<rparr>"

theorem liquidation_calls_are_justified_witness:
  "list_ex is_liquidate (kk_trace (snd (liq_tick sample_liq_options sample_liq_env new_keeper)))
   \<and> sound sample_liq_options 6 1 (kk_trace (snd (liq_tick sample_liq_options sample_liq_env new_keeper)))"
proof -
  have "list_ex is_liquidate (kk_trace (snd (liq_tick sample_liq_options sample_liq_env new_keeper)))" by code_simp
  moreover have "kk_trace (new_keeper :: liq_keeper) = []" by (simp add: new_keeper_def)
  ultimately show ?thesis
    using liquidation_calls_are_justified [of new_keeper sample_liq_options sample_liq_env] by (simp add: sample_liq_options_def)
qed

end
