(* ===== verification/Funding_Keeper.thy ===== *)
theory Funding_Keeper
  imports Keeper_Calls
begin

text \<open>
  The funding keeper, \<open>client/lib/keepers/funding.ts\<close>: the plan from chain state, the order of what is due, one
  update and the tick; and how many seconds one update of \<open>FundingLib.sol\<close> charges. Log lines are left out; the
  gauge of the rate is kept at scale 1e18.
\<close>

section \<open>The plan\<close>

definition MAX_FUNDING_ELAPSED_SECS :: int where "MAX_FUNDING_ELAPSED_SECS = 3600"

record market_funding =
  mf_marketId :: int
  mf_active :: bool
  mf_lastUpdate :: int
  mf_longIndex :: int
  mf_shortIndex :: int
  mf_ratePerHour :: int

datatype funding_skip = Fs_inactive | Fs_not_due | Fs_same_timestamp

record due_update =
  du_marketId :: int
  du_elapsed :: int
  du_shortfallSecs :: int
  du_first :: bool

datatype funding_plan = Plan_update due_update | Plan_skip int funding_skip

definition plan_market :: "int \<Rightarrow> int \<Rightarrow> market_funding \<Rightarrow> funding_plan" where
  "plan_market chainNow dueAfterSecs m =
     (if \<not> mf_active m then Plan_skip (mf_marketId m) Fs_inactive
      else if mf_lastUpdate m = 0
      then Plan_update \<lparr>du_marketId = mf_marketId m, du_elapsed = 0, du_shortfallSecs = 0, du_first = True\<rparr>
      else let elapsed = chainNow - mf_lastUpdate m in
        if elapsed \<le> 0 then Plan_skip (mf_marketId m) Fs_same_timestamp
        else if elapsed < dueAfterSecs then Plan_skip (mf_marketId m) Fs_not_due
        else Plan_update \<lparr>du_marketId = mf_marketId m, du_elapsed = elapsed,
               du_shortfallSecs = max 0 (elapsed - MAX_FUNDING_ELAPSED_SECS), du_first = False\<rparr>)"

definition planFunding :: "market_funding list \<Rightarrow> int \<Rightarrow> int \<Rightarrow> funding_plan list" where
  "planFunding ms chainNow dueAfterSecs = map (plan_market chainNow dueAfterSecs) ms"

definition by_overdue :: "due_update \<Rightarrow> due_update \<Rightarrow> int" where
  "by_overdue a b = (if du_first a = du_first b then du_elapsed b - du_elapsed a else if du_first a then -1 else 1)"

fun planned_update :: "funding_plan \<Rightarrow> due_update option" where
  "planned_update (Plan_update u) = Some u"
| "planned_update (Plan_skip m r) = None"

definition orderDue :: "funding_plan list \<Rightarrow> due_update list" where
  "orderDue plans = js_sort by_overdue (List.map_filter planned_update plans)"

section \<open>Receipts and reverts\<close>

definition is_funding_updated :: "address \<Rightarrow> int \<Rightarrow> event_log \<Rightarrow> bool" where
  "is_funding_updated engine marketId l \<longleftrightarrow> lower (el_address l) = lower engine
     \<and> (case el_event l of None \<Rightarrow> False | Some (name, args) \<Rightarrow>
          name = ''FundingUpdated'' \<and> abi_number (map_of args ''marketId'') = Some marketId)"

definition fundingUpdatedFrom :: "event_log list \<Rightarrow> address \<Rightarrow> int \<Rightarrow> (string \<times> abi_value) list option" where
  "fundingUpdatedFrom logs engine marketId = (case find (is_funding_updated engine marketId) logs of
     None \<Rightarrow> None
   | Some l \<Rightarrow> (case el_event l of None \<Rightarrow> None | Some (name, args) \<Rightarrow> Some (set_field ''marketId'' (Abi_num marketId) args)))"

datatype funding_revert = Fr_oracle | Fr_not_keeper | Fr_paused | Fr_config | Fr_unknown

definition classifyFundingRevert :: "string option \<Rightarrow> funding_revert" where
  "classifyFundingRevert name = (case name of None \<Rightarrow> Fr_unknown
     | Some n \<Rightarrow>
         if n \<in> {''StaleOracle'', ''OracleConfidenceTooWide'', ''InvalidPrice''} then Fr_oracle
         else if n = ''AccessControlUnauthorizedAccount'' then Fr_not_keeper
         else if n \<in> {''EnforcedPause'', ''ExecutionPaused''} then Fr_paused
         else if n \<in> {''InvalidConfig'', ''UnknownMarket''} then Fr_config
         else Fr_unknown)"

fun funding_revert_text :: "funding_revert \<Rightarrow> string" where
  "funding_revert_text Fr_oracle = ''oracle''"
| "funding_revert_text Fr_not_keeper = ''not-keeper''"
| "funding_revert_text Fr_paused = ''paused''"
| "funding_revert_text Fr_config = ''config''"
| "funding_revert_text Fr_unknown = ''unknown''"

section \<open>State of the chain\<close>

datatype fund_event = Fund_read | State_read int "market_funding list" | Fund_called int

type_synonym fund_keeper = "fund_event keeper"
type_synonym 'a fund_act = "(fund_event, 'a) keeper_act"

record funding_options =
  uo_deps :: keeper_deps
  uo_engine :: address
  uo_encode :: "int \<Rightarrow> hex"
  uo_dueAfterSecs :: int
  uo_maxPerTick :: nat

definition new_funding_keeper_ok :: "funding_options \<Rightarrow> bool" where
  "new_funding_keeper_ok opts \<longleftrightarrow> \<not> uo_dueAfterSecs opts \<ge> MAX_FUNDING_ELAPSED_SECS"

text \<open>
  The block, the flags with the market ids, and for the ids the pairs of \<open>market\<close> (active) and \<open>fundingState\<close> (long and short
  index, rate, last update), as the two multicalls at that block return them.
\<close>

record funding_env =
  ue_block :: "fund_event list \<Rightarrow> chain_fault + int \<times> int"
  ue_flags :: "fund_event list \<Rightarrow> int \<Rightarrow> chain_fault + bool \<times> bool \<times> int list"
  ue_markets :: "fund_event list \<Rightarrow> int \<Rightarrow> int list \<Rightarrow> chain_fault + (bool \<times> int \<times> int \<times> int \<times> int) list"
  ue_recovery :: "string \<Rightarrow> recovery_env"
  ue_call :: "int \<Rightarrow> call_env"

record funding_view =
  fv_chainNow :: int
  fv_paused :: bool
  fv_hasRole :: bool
  fv_markets :: "market_funding list"

definition market_of :: "int \<times> bool \<times> int \<times> int \<times> int \<times> int \<Rightarrow> market_funding" where
  "market_of x = (case x of (i, active, longIndex, shortIndex, rate, lastUpdate) \<Rightarrow>
     \<lparr>mf_marketId = i, mf_active = active, mf_lastUpdate = lastUpdate, mf_longIndex = longIndex,
      mf_shortIndex = shortIndex, mf_ratePerHour = rate\<rparr>)"

definition read_funding :: "funding_env \<Rightarrow> funding_view fund_act" where
  "read_funding env =
     act_bind (ask (ue_block env) (\<lambda>_. Fund_read)) (\<lambda>(blockNumber, timestamp).
     act_bind (ask (\<lambda>tr. ue_flags env tr blockNumber) (\<lambda>_. Fund_read)) (\<lambda>(paused, hasRole, ids).
     act_bind (ask (\<lambda>tr. if ids = [] then Inr [] else map_sum id (\<lambda>rs. map market_of (zip ids rs)) (ue_markets env tr blockNumber ids))
         (State_read timestamp)) (\<lambda>ms.
       act_ret \<lparr>fv_chainNow = timestamp, fv_paused = paused, fv_hasRole = hasRole, fv_markets = ms\<rparr>)))"

section \<open>One update\<close>

datatype fund_outcome = Fo_confirmed | Fo_reverted | Fo_preflight | Fo_unconfirmed

definition plan_payload :: "due_update \<Rightarrow> int \<Rightarrow> (string \<times> json) list" where
  "plan_payload p chainNow = [(''chainNow'', JNum chainNow), (''elapsed'', JNum (du_elapsed p)),
     (''shortfallSecs'', JNum (du_shortfallSecs p))]"

definition market_counter :: "string \<Rightarrow> int \<Rightarrow> string" where
  "market_counter name m = name @ ''.'' @ int_text m"

definition update_funding :: "funding_options \<Rightarrow> funding_env \<Rightarrow> due_update \<Rightarrow> int \<Rightarrow> fund_outcome fund_act" where
  "update_funding opts env p chainNow =
     act_then (log_event (Fund_called (du_marketId p)))
    (act_bind (record_action (kd_network (uo_deps opts)) \<lparr>ai_kind = ''funding.update'', ai_marketId = Some (du_marketId p),
         ai_account = None, ai_payload = JObj (plan_payload p chainNow @ [(''first'', JBool (du_first p))]),
         ai_status = None, ai_txJobId = None\<rparr>) (\<lambda>i.
     let ce = ue_call env i in
     act_bind (try_submit (uo_deps opts) ce \<lparr>tr_to = uo_engine opts, tr_data = uo_encode opts (du_marketId p), tr_value = None,
         tr_gas = None, tr_label = ''funding.update '' @ int_text (du_marketId p)\<rparr>) (\<lambda>r. case r of
       Inl err \<Rightarrow>
         let name = de_errorName (decodeError (kd_abi (uo_deps opts)) err); cls = funding_revert_text (classifyFundingRevert name) in
         act_then (count_by (''funding_preflight_reverted_total.'' @ cls) 1)
        (act_then (update_action i (no_action_patch\<lparr>kp_status := Some Act_failed,
             kp_payload := Some (JObj [(''chainNow'', JNum chainNow), (''elapsed'', JNum (du_elapsed p)),
                (''preflight'', JObj [(''errorName'', text_json name), (''cls'', JStr cls),
                    (''error'', JStr (errorMessage (th_fault err)))])])\<rparr>))
           (act_ret Fo_preflight))
     | Inr job \<Rightarrow>
         act_then (update_action i (no_action_patch\<lparr>kp_status := Some Act_submitted, kp_txJobId := Some (Some (tj_id job))\<rparr>))
        (act_then (count_by ''funding_sent_total'' 1)
        (act_bind (try_wait (uo_deps opts) ce job) (\<lambda>out. case out of
           None \<Rightarrow> act_ret Fo_unconfirmed
         | Some receipt \<Rightarrow>
             let failed = no_action_patch\<lparr>kp_status := Some Act_failed, kp_blockNumber := Some (Some (rc_blockNumber receipt))\<rparr> in
             if \<not> rc_success receipt
             then act_then (count_by ''funding_reverted_total'' 1) (act_then (update_action i failed) (act_ret Fo_reverted))
             else (case fundingUpdatedFrom (ce_logs ce (rc_hash receipt)) (uo_engine opts) (du_marketId p) of
               None \<Rightarrow> act_then (update_action i (failed\<lparr>kp_payload := Some (JObj [(''chainNow'', JNum chainNow),
                          (''note'', JStr ''no FundingUpdated in receipt'')])\<rparr>)) (act_ret Fo_reverted)
             | Some ev \<Rightarrow>
                 act_then (update_action i (failed\<lparr>kp_status := Some Act_confirmed, kp_payload := Some (JObj (plan_payload p chainNow
                     @ [(''event'', JObj (map (\<lambda>(k, v). (k, abi_json v)) ev))]))\<rparr>))
                (act_then (count_by (market_counter ''funding_updated_total'' (du_marketId p)) 1)
                (act_then (gauge (market_counter ''funding_rate_per_hour'' (du_marketId p))
                     (case abi_number (map_of ev ''ratePerHour'') of None \<Rightarrow> 0 | Some x \<Rightarrow> x))
                   (act_ret Fo_confirmed))))))))))"

section \<open>The tick\<close>

datatype fund_status = Ft_paused | Ft_not_keeper | Ft_in_flight | Ft_idle | Ft_ran

record fund_tick_result =
  ft_status :: fund_status
  ft_plans :: "funding_plan list"
  ft_results :: "(int \<times> fund_outcome) list"

fun update_all :: "funding_options \<Rightarrow> funding_env \<Rightarrow> int \<Rightarrow> due_update list \<Rightarrow> (int \<times> fund_outcome) list \<Rightarrow> (int \<times> fund_outcome) list fund_act" where
  "update_all opts env chainNow [] results = act_ret results"
| "update_all opts env chainNow (p # ps) results =
     act_then (act_when (du_shortfallSecs p > 0)
         (count_by (market_counter ''funding_shortfall_secs_total'' (du_marketId p)) (du_shortfallSecs p)))
    (act_bind (update_funding opts env p chainNow) (\<lambda>r.
       update_all opts env chainNow ps (set_field (du_marketId p) r results)))"

definition age_gauges :: "int \<Rightarrow> market_funding list \<Rightarrow> unit fund_act" where
  "age_gauges chainNow ms = act_each (\<lambda>m. act_when (mf_active m \<and> mf_lastUpdate m > 0)
     (gauge (market_counter ''funding_age_s'' (mf_marketId m)) (chainNow - mf_lastUpdate m))) ms"

definition funding_tick :: "funding_options \<Rightarrow> funding_env \<Rightarrow> fund_tick_result fund_act" where
  "funding_tick opts env =
     act_bind (read_funding env) (\<lambda>v.
     act_then (gauge ''funding_paused'' (if fv_paused v then 1 else 0))
     (if fv_paused v then act_ret \<lparr>ft_status = Ft_paused, ft_plans = [], ft_results = []\<rparr>
      else if \<not> fv_hasRole v
      then act_then (count_by ''funding_not_keeper_total'' 1) (act_ret \<lparr>ft_status = Ft_not_keeper, ft_plans = [], ft_results = []\<rparr>)
      else act_bind (guard_in_flight (uo_deps opts) (ue_recovery env)) (\<lambda>inFlight.
        if inFlight then act_ret \<lparr>ft_status = Ft_in_flight, ft_plans = [], ft_results = []\<rparr>
        else
          let plans = planFunding (fv_markets v) (fv_chainNow v) (uo_dueAfterSecs opts);
              due = take (uo_maxPerTick opts) (orderDue plans) in
          act_then (age_gauges (fv_chainNow v) (fv_markets v))
          (if due = [] then act_ret \<lparr>ft_status = Ft_idle, ft_plans = plans, ft_results = []\<rparr>
           else act_bind (update_all opts env (fv_chainNow v) due []) (\<lambda>results.
             act_ret \<lparr>ft_status = Ft_ran, ft_plans = plans, ft_results = results\<rparr>)))))"

section \<open>What an update charges\<close>

text \<open>\<open>FundingLib.updateFromPremium\<close> charges the elapsed seconds up to an hour and moves \<open>lastUpdate\<close>; the first update starts the clock.\<close>

definition charged_secs :: "int \<Rightarrow> int \<Rightarrow> int" where
  "charged_secs lastUpdate now =
     (if lastUpdate = 0 \<or> now \<le> lastUpdate then 0
      else let elapsed = now - lastUpdate in if elapsed > MAX_FUNDING_ELAPSED_SECS then MAX_FUNDING_ELAPSED_SECS else elapsed)"

text \<open>
  A market over ticks of the keeper: at each tick the chain time \<open>t\<close> it decides at, and the time \<open>l\<close> of the
  block the update lands in, if it sends one. The result is the last update, the seconds charged and the times of the updates.
\<close>

fun funding_run :: "int \<Rightarrow> market_funding \<Rightarrow> (int \<times> int) list \<Rightarrow> int \<times> int list \<Rightarrow> market_funding \<times> int \<times> int list" where
  "funding_run dueAfter m [] acc = (m, acc)"
| "funding_run dueAfter m ((t, l) # ts) acc = (case planFunding [m] t dueAfter of
     [Plan_update u] \<Rightarrow> funding_run dueAfter (m\<lparr>mf_lastUpdate := l\<rparr>) ts
        (fst acc + charged_secs (mf_lastUpdate m) l, snd acc @ [l])
   | _ \<Rightarrow> funding_run dueAfter m ts acc)"

section \<open>No second is lost and none is charged twice\<close>

text \<open>
  Ticks that are close enough together: each decides after the block of the one before, and lands at most \<open>gap\<close>
  seconds after the one before decided.
\<close>

fun timely :: "int \<Rightarrow> int \<Rightarrow> int \<Rightarrow> (int \<times> int) list \<Rightarrow> bool" where
  "timely gap tp lp [] \<longleftrightarrow> True"
| "timely gap tp lp ((t, l) # ts) \<longleftrightarrow> lp \<le> t \<and> t \<le> l \<and> l - tp \<le> gap \<and> timely gap t l ts"

definition last_decision :: "int \<Rightarrow> (int \<times> int) list \<Rightarrow> int" where
  "last_decision tp ts = (if ts = [] then tp else fst (last ts))"

lemma successively_snoc: "successively P (xs @ [x]) \<longleftrightarrow> successively P xs \<and> (xs = [] \<or> P (last xs) x)"
  by (induction P xs rule: successively.induct) auto

lemma funding_run_inv:
  assumes "mf_active m" and "0 < mf_lastUpdate m" and "0 < dueAfter" and "mf_lastUpdate m \<le> lp" and "tp \<le> lp"
    and "tp - mf_lastUpdate m < dueAfter" and "timely (MAX_FUNDING_ELAPSED_SECS - dueAfter) tp lp ts"
    and "successively (\<lambda>a b. a + dueAfter \<le> b) (L # landed)" and "last (L # landed) = mf_lastUpdate m" and "c = mf_lastUpdate m - L"
    and "funding_run dueAfter m ts (c, landed) = (m', c', landed')"
  shows "c' = mf_lastUpdate m' - L \<and> successively (\<lambda>a b. a + dueAfter \<le> b) (L # landed')
    \<and> last_decision tp ts - mf_lastUpdate m' < dueAfter"
  using assms
proof (induction ts arbitrary: m c landed tp lp)
  case Nil
  then show ?case by (auto simp: last_decision_def)
next
  case (Cons x ts)
  obtain t l where x: "x = (t, l)" by (cases x)
  have last: "last_decision tp (x # ts) = last_decision t ts" by (simp add: last_decision_def x)
  have tl: "lp \<le> t" "t \<le> l" "l - tp \<le> MAX_FUNDING_ELAPSED_SECS - dueAfter" "timely (MAX_FUNDING_ELAPSED_SECS - dueAfter) t l ts"
    using Cons.prems(7) by (simp_all add: x)
  show ?case
  proof (cases "t - mf_lastUpdate m < dueAfter")
    case True
    then have "funding_run dueAfter m (x # ts) (c, landed) = funding_run dueAfter m ts (c, landed)"
      using Cons.prems(1-4) by (auto simp: x planFunding_def plan_market_def Let_def)
    then have "funding_run dueAfter m ts (c, landed) = (m', c', landed')" using Cons.prems(11) by simp
    then show ?thesis
      unfolding last using Cons.prems tl True by (intro Cons.IH [where lp = l]) auto
  next
    case False
    let ?m = "m\<lparr>mf_lastUpdate := l\<rparr>"
    have charge: "charged_secs (mf_lastUpdate m) l = l - mf_lastUpdate m"
      using False Cons.prems(2-6) tl by (simp add: charged_secs_def Let_def)
    have "funding_run dueAfter m (x # ts) (c, landed) = funding_run dueAfter ?m ts (c + charged_secs (mf_lastUpdate m) l, landed @ [l])"
      using False Cons.prems(1-3) by (simp add: x planFunding_def plan_market_def Let_def)
    then have run: "funding_run dueAfter ?m ts (c + (l - mf_lastUpdate m), landed @ [l]) = (m', c', landed')"
      using Cons.prems(11) by (simp add: charge)
    have spaced: "successively (\<lambda>a b. a + dueAfter \<le> b) (L # landed @ [l])"
      using successively_snoc [of "\<lambda>a b. a + dueAfter \<le> b" "L # landed" l] Cons.prems(8,9) False tl(2) by simp
    show ?thesis
      unfolding last
    proof (rule Cons.IH [OF _ _ _ _ _ _ tl(4) spaced _ _ run])
      show "last (L # landed @ [l]) = mf_lastUpdate ?m" by simp
      show "c + (l - mf_lastUpdate m) = mf_lastUpdate ?m - L" using Cons.prems(10) by simp
    qed (use Cons.prems(1-6) tl in auto)
  qed
qed

text \<open>
  C32. No second of funding is lost or charged twice. If the keeper ticks so often that an update lands within
  \<open>3600 - dueAfterSecs\<close> seconds of the decision before, then over any number of ticks the contract charges
  exactly the time from the first update to the last, although it caps one update at an hour; two updates are never closer than
  \<open>dueAfterSecs\<close>, so no averaging window is cut short; and at every decision the market is less than \<open>dueAfterSecs\<close> behind.
\<close>

theorem no_funding_is_lost:
  assumes "new_funding_keeper_ok opts" and "0 < uo_dueAfterSecs opts" and "mf_active m" and "0 < mf_lastUpdate m"
    and "timely (MAX_FUNDING_ELAPSED_SECS - uo_dueAfterSecs opts) (mf_lastUpdate m) (mf_lastUpdate m) ts"
    and "funding_run (uo_dueAfterSecs opts) m ts (0, []) = (m', charged, landed)"
  shows "charged = mf_lastUpdate m' - mf_lastUpdate m
    \<and> successively (\<lambda>a b. a + uo_dueAfterSecs opts \<le> b) (mf_lastUpdate m # landed)
    \<and> last_decision (mf_lastUpdate m) ts - mf_lastUpdate m' < uo_dueAfterSecs opts"
  by (rule funding_run_inv [OF assms(3,4,2) _ _ _ assms(5) _ _ _ assms(6)]) (use assms(2) in simp_all)

definition sample_market :: market_funding where
  "sample_market = \<lparr>mf_marketId = 1, mf_active = True, mf_lastUpdate = 1000, mf_longIndex = 0, mf_shortIndex = 0, mf_ratePerHour = 0\<rparr>"

definition sample_funding_options :: funding_options where
  "sample_funding_options = \<lparr>uo_deps = sample_deps, uo_engine = ''0xe'',
     uo_encode = int_text, uo_dueAfterSecs = 100, uo_maxPerTick = 4\<rparr>"

theorem no_funding_is_lost_witness:
  "\<exists>m'. funding_run 100 sample_market [(1050, 1050), (1500, 1510), (2000, 2010)] (0, []) = (m', 1010, [1510, 2010])
     \<and> 1010 = mf_lastUpdate m' - 1000"
proof -
  let ?ts = "[(1050, 1050), (1500, 1510), (2000, 2010)] :: (int \<times> int) list"
  have run: "funding_run (uo_dueAfterSecs sample_funding_options) sample_market ?ts (0, [])
      = (sample_market\<lparr>mf_lastUpdate := 2010\<rparr>, 1010, [1510, 2010])"
    by (simp add: sample_funding_options_def sample_market_def planFunding_def plan_market_def charged_secs_def MAX_FUNDING_ELAPSED_SECS_def Let_def)
  have "timely (MAX_FUNDING_ELAPSED_SECS - uo_dueAfterSecs sample_funding_options) (mf_lastUpdate sample_market) (mf_lastUpdate sample_market) ?ts"
    "new_funding_keeper_ok sample_funding_options" "0 < uo_dueAfterSecs sample_funding_options" "mf_active sample_market"
    "0 < mf_lastUpdate sample_market"
    by (simp_all add: sample_funding_options_def sample_market_def MAX_FUNDING_ELAPSED_SECS_def new_funding_keeper_ok_def)
  from no_funding_is_lost [OF this(2,3,4,5,1) run]
  have "1010 = mf_lastUpdate (sample_market\<lparr>mf_lastUpdate := 2010\<rparr>) - mf_lastUpdate sample_market" by blast
  moreover have "uo_dueAfterSecs sample_funding_options = 100" "mf_lastUpdate sample_market = 1000"
    by (simp_all add: sample_funding_options_def sample_market_def)
  ultimately show ?thesis using run by (intro exI [of _ "sample_market\<lparr>mf_lastUpdate := 2010\<rparr>"]) simp
qed

section \<open>What a tick sends\<close>

definition fund_called :: "fund_event list \<Rightarrow> int list" where
  "fund_called tr = List.map_filter (\<lambda>e. case e of Fund_called i \<Rightarrow> Some i | _ \<Rightarrow> None) tr"

lemma fund_called_append [simp]: "fund_called (tr @ tr') = fund_called tr @ fund_called tr'"
  by (simp add: fund_called_def map_filter_def)

lemma fund_called_Cons [simp]: "fund_called (e # tr) = (case e of Fund_called i \<Rightarrow> [i] | _ \<Rightarrow> []) @ fund_called tr" "fund_called [] = []"
  by (simp_all add: fund_called_def map_filter_def split: fund_event.split)

interpretation overdue: comparator by_overdue
  by unfold_locales (auto simp: by_overdue_def split: if_splits)

text \<open>The update of a market adds its call to the trace and nothing else, whatever happens to it.\<close>

lemma wp_update_funding:
  assumes "\<And>r t. kk_trace t = kk_trace s @ [Fund_called (du_marketId p)] \<Longrightarrow> Q r t"
    and "\<And>e t. kk_trace t = kk_trace s @ [Fund_called (du_marketId p)] \<Longrightarrow> E e t"
  shows "wp (update_funding opts env p chainNow) Q E s"
  unfolding update_funding_def wp_then wp_log_event Let_def
  by (rule wp_silent [where P = "\<lambda>tr. tr = kk_trace s @ [Fund_called (du_marketId p)]"]) (intro act_keeps | simp add: assms)+

definition called_prefix :: "fund_event list \<Rightarrow> int list \<Rightarrow> fund_event list \<Rightarrow> bool" where
  "called_prefix tr ids tr' \<longleftrightarrow> (\<exists>k. tr' = tr @ map Fund_called (take k ids))"

lemma called_prefix_refl [simp]: "called_prefix tr ids tr"
  unfolding called_prefix_def by (intro exI [of _ 0]) simp

lemma called_prefix_step: "called_prefix (tr @ [Fund_called i]) ids tr' \<Longrightarrow> called_prefix tr (i # ids) tr'"
  unfolding called_prefix_def by (elim exE, rule_tac x = "Suc k" in exI) simp

lemma wp_update_all:
  "wp (update_all opts env chainNow ps results)
     (\<lambda>_ t. called_prefix (kk_trace s) (map du_marketId ps) (kk_trace t))
     (\<lambda>_ t. called_prefix (kk_trace s) (map du_marketId ps) (kk_trace t)) s"
proof (induction ps arbitrary: results s)
  case Nil
  then show ?case by (simp add: act_wp)
next
  case (Cons p ps)
  define P :: "fund_keeper \<Rightarrow> bool" where "P = (\<lambda>t. called_prefix (kk_trace s) (map du_marketId (p # ps)) (kk_trace t))"
  have more: "wp (update_all opts env chainNow ps rs) (\<lambda>_. P) (\<lambda>_. P) t"
    if "kk_trace t = kk_trace s @ [Fund_called (du_marketId p)]" for t rs
    using Cons.IH [of rs t] by (rule wp_mono) (auto simp: P_def that intro: called_prefix_step)
  have one: "P t" if "kk_trace t = kk_trace s @ [Fund_called (du_marketId p)]" for t
    using called_prefix_refl [of "kk_trace t" "map du_marketId ps"] by (auto simp: P_def that intro: called_prefix_step)
  have call: "wp (update_funding opts env p chainNow) (\<lambda>r. wp (update_all opts env chainNow ps (set_field (du_marketId p) r results)) (\<lambda>_. P) (\<lambda>_. P)) (\<lambda>_. P) t"
    if "kk_trace t = kk_trace s" for t
    by (rule wp_update_funding) (simp_all add: that more one)
  have "wp (update_all opts env chainNow (p # ps) results) (\<lambda>_. P) (\<lambda>_. P) s"
    unfolding update_all.simps wp_then wp_bind by (simp add: act_when_def act_wp call)
  then show ?case by (simp add: P_def)
qed

definition due_by :: "int \<Rightarrow> int \<Rightarrow> market_funding \<Rightarrow> bool" where
  "due_by dueAfter now m \<longleftrightarrow> mf_active m \<and> (mf_lastUpdate m = 0 \<or> 0 < now - mf_lastUpdate m \<and> dueAfter \<le> now - mf_lastUpdate m)"

lemma planned_due:
  assumes "u \<in> set (List.map_filter planned_update (planFunding ms now dueAfter))"
  shows "\<exists>m \<in> set ms. mf_marketId m = du_marketId u \<and> due_by dueAfter now m"
proof -
  obtain m where m: "m \<in> set ms" "planned_update (plan_market now dueAfter m) = Some u"
    using assms by (auto simp: map_filter_def planFunding_def)
  then have "mf_marketId m = du_marketId u \<and> due_by dueAfter now m"
    by (auto simp: plan_market_def due_by_def Let_def split: if_splits)
  with m(1) show ?thesis by blast
qed

lemma set_orderDue:
  "u \<in> set (orderDue (planFunding ms now dueAfter)) \<Longrightarrow> \<exists>m \<in> set ms. mf_marketId m = du_marketId u \<and> due_by dueAfter now m"
  using planned_due by (simp add: orderDue_def)

lemma plan_market_id: "planned_update (plan_market now dueAfter m) = Some u \<Longrightarrow> du_marketId u = mf_marketId m"
  by (auto simp: plan_market_def Let_def split: if_splits)

lemma map_filter_ids:
  "distinct (map mf_marketId ms) \<Longrightarrow> distinct (map du_marketId (List.map_filter planned_update (planFunding ms now dueAfter)))"
proof (induction ms)
  case (Cons m ms)
  have "mf_marketId m \<notin> du_marketId ` set (List.map_filter planned_update (planFunding ms now dueAfter))"
  proof
    assume "mf_marketId m \<in> du_marketId ` set (List.map_filter planned_update (planFunding ms now dueAfter))"
    then obtain x where "x \<in> set ms" "mf_marketId x = mf_marketId m" using planned_due [of _ ms now dueAfter] by fastforce
    then have "mf_marketId m \<in> mf_marketId ` set ms" by (metis imageI)
    with Cons.prems show False by simp
  qed
  with Cons show ?case
    by (cases "planned_update (plan_market now dueAfter m)") (auto simp: planFunding_def map_filter_simps dest: plan_market_id)
qed (simp add: planFunding_def map_filter_simps)

lemma distinct_orderDue:
  assumes "distinct (map mf_marketId ms)"
  shows "distinct (map du_marketId (orderDue (planFunding ms now dueAfter)))"
  using map_filter_ids [OF assms] unfolding orderDue_def
  by (metis mset_js_sort mset_map mset_eq_imp_distinct_iff)

lemma wp_read_funding:
  assumes "fund_called (kk_trace s) = []" and "\<And>tr b p h ids. ue_flags env tr b = Inr (p, h, ids) \<Longrightarrow> distinct ids"
  shows "wp (read_funding env) (\<lambda>v t. fund_called (kk_trace t) = [] \<and> State_read (fv_chainNow v) (fv_markets v) \<in> set (kk_trace t)
       \<and> distinct (map mf_marketId (fv_markets v))) (\<lambda>_ t. fund_called (kk_trace t) = []) s"
proof -
  have "distinct (map mf_marketId (map market_of (zip ids rs)))" if "distinct ids" for ids :: "int list" and rs
  proof -
    have "map mf_marketId (map market_of (zip ids rs)) = map fst (zip ids rs)" by (auto simp: market_of_def split: prod.split)
    with that show ?thesis by (simp add: map_fst_zip_take)
  qed
  then show ?thesis
    using assms by (auto simp: read_funding_def act_wp map_sum_Inr split: sum.splits)
qed

text \<open>
  A tick sends only what is due. With distinct market ids in the contract, the calls of a tick are, in order, a prefix of the
  most overdue markets, each active and due against the chain time read in this tick, none twice, at most
  \<open>maxPerTick\<close> of them.
\<close>

theorem funding_tick_sends_what_is_due:
  assumes "kk_trace s = []" and "\<And>tr b p h ids. ue_flags env tr b = Inr (p, h, ids) \<Longrightarrow> distinct ids"
  shows "fund_called (kk_trace (snd (funding_tick opts env s))) = []
    \<or> (\<exists>now ms. State_read now ms \<in> set (kk_trace (snd (funding_tick opts env s)))
        \<and> (\<exists>k. fund_called (kk_trace (snd (funding_tick opts env s)))
             = take k (map du_marketId (take (uo_maxPerTick opts) (orderDue (planFunding ms now (uo_dueAfterSecs opts))))))
        \<and> distinct (fund_called (kk_trace (snd (funding_tick opts env s))))
        \<and> (\<forall>i \<in> set (fund_called (kk_trace (snd (funding_tick opts env s)))).
             \<exists>m \<in> set ms. mf_marketId m = i \<and> due_by (uo_dueAfterSecs opts) now m))"
proof -
  define P :: "fund_event list \<Rightarrow> bool" where "P = (\<lambda>tr. fund_called tr = []
    \<or> (\<exists>now ms k. State_read now ms \<in> set tr \<and> distinct (map mf_marketId ms)
        \<and> fund_called tr = take k (map du_marketId (take (uo_maxPerTick opts) (orderDue (planFunding ms now (uo_dueAfterSecs opts)))))))"
  have calls: "wp (update_all opts env now (take (uo_maxPerTick opts) (orderDue (planFunding ms now (uo_dueAfterSecs opts)))) [])
      (\<lambda>_. on_trace P) (\<lambda>_. on_trace P) t"
    if "fund_called (kk_trace t) = []" "State_read now ms \<in> set (kk_trace t)" "distinct (map mf_marketId ms)" for now ms t
  proof -
    let ?ids = "map du_marketId (take (uo_maxPerTick opts) (orderDue (planFunding ms now (uo_dueAfterSecs opts))))"
    have all: "fund_called (map Fund_called is) = is" for "is" by (induction "is") simp_all
    have "P tr" if pre: "called_prefix (kk_trace t) ?ids tr" for tr
    proof -
      obtain k where k: "tr = kk_trace t @ map Fund_called (take k ?ids)" using pre unfolding called_prefix_def by blast
      then have "fund_called tr = take k ?ids" using \<open>fund_called (kk_trace t) = []\<close> by (simp add: all)
      moreover have "State_read now ms \<in> set tr" using k \<open>State_read now ms \<in> set (kk_trace t)\<close> by simp
      ultimately show ?thesis using \<open>distinct (map mf_marketId ms)\<close> unfolding P_def by blast
    qed
    then show ?thesis by (intro wp_mono [OF wp_update_all]) (auto simp: on_trace_def)
  qed
  have quiet: "wp m (\<lambda>x t. kk_trace t = kk_trace u) (\<lambda>_ t. kk_trace t = kk_trace u) u"
    if "\<And>Q. keeps (on_trace Q) m" for m :: "'b fund_act" and u
    by (rule wp_silent [where P = "\<lambda>tr. tr = kk_trace u"]) (use that in auto)
  have ages: "keeps (on_trace Q) (age_gauges now ms)" for Q now ms
    unfolding age_gauges_def by (intro act_keeps)
  have "wp (funding_tick opts env) (\<lambda>_. on_trace P) (\<lambda>_. on_trace P) s"
    unfolding funding_tick_def wp_bind
  proof (rule wp_mono [OF wp_read_funding], goal_cases)
    case (3 v t)
    have idle: "on_trace P u" if "kk_trace u = kk_trace t" for u using 3 that by (simp add: on_trace_def P_def)
    have aged: "wp (age_gauges now ms) (\<lambda>_. Q) E u"
      if "\<And>w. kk_trace w = kk_trace u \<Longrightarrow> Q w" "\<And>e w. kk_trace w = kk_trace u \<Longrightarrow> E e w" for now ms Q E u
      by (rule wp_mono [OF quiet [OF ages]]) (use that in auto)
    show ?case
      using 3 idle by (auto simp: act_wp Let_def intro!: wp_mono [OF quiet [OF keeps_guard_in_flight]] aged calls)
  next
    case (4 e t)
    then show ?case by (simp add: on_trace_def P_def)
  qed (use assms in auto)
  then have "P (kk_trace (snd (funding_tick opts env s)))" by (simp add: wp_final on_trace_def)
  then show ?thesis
  proof (unfold P_def, elim disjE exE conjE, goal_cases)
    case (2 now ms k)
    let ?due = "take (uo_maxPerTick opts) (orderDue (planFunding ms now (uo_dueAfterSecs opts)))"
    have "distinct (map du_marketId ?due)" using distinct_orderDue [OF 2(3)] by (simp flip: take_map)
    moreover have "\<exists>m \<in> set ms. mf_marketId m = i \<and> due_by (uo_dueAfterSecs opts) now m" if "i \<in> set (take k (map du_marketId ?due))" for i
      using that set_orderDue [of _ ms now "uo_dueAfterSecs opts"] by (fastforce dest: in_set_takeD)
    ultimately show ?thesis using 2(2,4) by (intro disjI2 exI [of _ now] exI [of _ ms]) auto
  qed simp
qed

definition sample_funding_env :: funding_env where
  "sample_funding_env = \<lparr>ue_block = (\<lambda>_. Inr (1, 2000)), ue_flags = (\<lambda>_ b. Inr (False, True, [1, 2, 3])),
     ue_markets = (\<lambda>_ b ids. Inr [(True, 0, 0, 0, 1950), (True, 0, 0, 0, 1500), (False, 0, 0, 0, 9)]),
     ue_recovery = (\<lambda>_. \<lparr>re_started = 0, re_view = sample_wait_view, re_passes = 2\<rparr>),
     ue_call = sample_call\<rparr>"

abbreviation sample_fund_keeper :: fund_keeper where
  "sample_fund_keeper \<equiv> new_keeper"

theorem funding_tick_sends_what_is_due_witness:
  "fund_called (kk_trace (snd (funding_tick sample_funding_options sample_funding_env sample_fund_keeper))) = [2]
   \<and> distinct (fund_called (kk_trace (snd (funding_tick sample_funding_options sample_funding_env sample_fund_keeper))))"
proof -
  have called: "fund_called (kk_trace (snd (funding_tick sample_funding_options sample_funding_env sample_fund_keeper))) = [2]"
    by code_simp
  have "kk_trace sample_fund_keeper = []" by (simp add: new_keeper_def)
  moreover have "distinct ids" if "ue_flags sample_funding_env tr b = Inr (p, h, ids)" for tr b p h ids
    using that by (auto simp: sample_funding_env_def)
  ultimately have "distinct (fund_called (kk_trace (snd (funding_tick sample_funding_options sample_funding_env sample_fund_keeper))))"
    using funding_tick_sends_what_is_due [of sample_fund_keeper sample_funding_env sample_funding_options] called by auto
  with called show ?thesis by simp
qed

end
