(* ===== verification/Fee_Tier_Bot.thy ===== *)
theory Fee_Tier_Bot
  imports Keeper_Calls
begin

text \<open>
  The fee-tier bot, \<open>client/lib/keepers/fee-tier.ts\<close>: the schedule and its parser, the target tier of a volume, the
  difference to the chain, and the tick. The regular expression of a step is written out as a function. Log lines, and with them
  the memory of the last idle reason, are left out.
\<close>

section \<open>The schedule\<close>

definition MAX_TIER :: int where "MAX_TIER = 16"
definition USD6 :: int where "USD6 = 1000000"

record tier_step =
  ts_tier :: int
  ts_minVolume :: int

datatype schedule_error = Schedule_not_set | Not_a_step string | Tier_outside int | Tier_not_positive int | Tier_twice int | Tier_not_above int int

text \<open>\<open>/^\s*(\d+)\s*:\s*(\d+)\s*$/\<close>: the two runs of digits.\<close>

definition step_digits :: "string \<Rightarrow> (string \<times> string) option" where
  "step_digits part =
     (let s = dropWhile is_space part; tier = takeWhile is_digit s; r = dropWhile is_space (dropWhile is_digit s)
      in case r of [] \<Rightarrow> None
       | c # r' \<Rightarrow> if c \<noteq> CHR '':'' then None
           else let v = dropWhile is_space r'; usd = takeWhile is_digit v; rest = dropWhile is_digit v
             in if tier = [] \<or> usd = [] \<or> \<not> list_all is_space rest then None else Some (tier, usd))"

definition parse_step :: "string \<Rightarrow> schedule_error + tier_step" where
  "parse_step part = (case step_digits part of None \<Rightarrow> Inl (Not_a_step part)
     | Some (t, u) \<Rightarrow> let tier = digits_value t; minUsd = digits_value u in
         if tier < 1 \<or> tier > MAX_TIER then Inl (Tier_outside tier)
         else if minUsd \<le> 0 then Inl (Tier_not_positive tier)
         else Inr \<lparr>ts_tier = tier, ts_minVolume = minUsd * USD6\<rparr>)"

fun parse_steps :: "string list \<Rightarrow> schedule_error + tier_step list" where
  "parse_steps [] = Inr []"
| "parse_steps (p # ps) = (case parse_step p of Inl e \<Rightarrow> Inl e
     | Inr s \<Rightarrow> (case parse_steps ps of Inl e \<Rightarrow> Inl e | Inr ss \<Rightarrow> Inr (s # ss)))"

definition by_tier :: "tier_step \<Rightarrow> tier_step \<Rightarrow> int" where
  "by_tier a b = ts_tier a - ts_tier b"

fun check_steps :: "tier_step list \<Rightarrow> schedule_error option" where
  "check_steps (a # b # ss) =
     (if ts_tier b = ts_tier a then Some (Tier_twice (ts_tier b))
      else if ts_minVolume b \<le> ts_minVolume a then Some (Tier_not_above (ts_tier b) (ts_tier a))
      else check_steps (b # ss))"
| "check_steps _ = None"

definition parseSchedule :: "string option \<Rightarrow> schedule_error + tier_step list" where
  "parseSchedule raw = (case raw of None \<Rightarrow> Inl Schedule_not_set
     | Some txt \<Rightarrow> if txt = [] \<or> trim txt = [] then Inl Schedule_not_set
        else case parse_steps (split_on CHR '','' txt) of Inl e \<Rightarrow> Inl e
          | Inr steps \<Rightarrow> let ss = js_sort by_tier steps in
              (case check_steps ss of Some e \<Rightarrow> Inl e | None \<Rightarrow> Inr ss))"

definition targetTier :: "int \<Rightarrow> tier_step list \<Rightarrow> int" where
  "targetTier volume30d schedule = fold (\<lambda>s tier. if volume30d \<ge> ts_minVolume s then ts_tier s else tier) schedule 0"

section \<open>The difference to the chain\<close>

record tier_change =
  tc_account :: address
  tc_from :: int
  tc_to :: int
  tc_volume30d :: int

definition by_change :: "tier_change \<Rightarrow> tier_change \<Rightarrow> int" where
  "by_change a b = (let d = \<bar>tc_to b - tc_from b\<bar> - \<bar>tc_to a - tc_from a\<bar> in
     if d \<noteq> 0 then d
     else if tc_volume30d a = tc_volume30d b then (if tc_account a < tc_account b then -1 else 1)
     else if tc_volume30d a > tc_volume30d b then -1 else 1)"

definition tier_change_for :: "(address \<Rightarrow> int option) \<Rightarrow> tier_step list \<Rightarrow> address \<times> int \<Rightarrow> tier_change option" where
  "tier_change_for volumes schedule x = (case x of (account, old) \<Rightarrow>
     let v = get_or volumes account 0; new = targetTier v schedule
     in if new \<noteq> old then Some \<lparr>tc_account = account, tc_from = old, tc_to = new, tc_volume30d = v\<rparr> else None)"

definition diffTiers :: "(address \<Rightarrow> int option) \<Rightarrow> (address \<times> int) list \<Rightarrow> tier_step list \<Rightarrow> nat \<Rightarrow> tier_change list \<times> int" where
  "diffTiers volumes onChain schedule max_changes =
     (let found = js_sort by_change (List.map_filter (tier_change_for volumes schedule) onChain)
      in (take max_changes found, max 0 (int (length found) - int max_changes)))"

section \<open>Chain and tables\<close>

datatype tier_event =
    Gate_read bool
  | Stats_read "int option"
  | Defined_read "int list"
  | Role_read bool
  | Volumes_read "(address \<times> int) list"
  | Tiered_read "address list"
  | Tiers_read "(address \<times> int) list"
  | Tier_called address int

type_synonym tier_keeper = "tier_event keeper"
type_synonym 'a tier_act = "(tier_event, 'a) keeper_act"

record analytics_row =
  ay_network :: string
  ay_address :: address
  ay_volume30d :: int

record tiered_row =
  td_network :: string
  td_address :: address
  td_feeTier :: int

record tier_options =
  fo_deps :: keeper_deps
  fo_feeRouter :: address
  fo_encode :: "address \<Rightarrow> int \<Rightarrow> hex"
  fo_schedule :: "tier_step list"
  fo_enabled :: bool
  fo_maxChangesPerTick :: "nat option"
  fo_maxStatsAgeMs :: "int option"

text \<open>
  The answers of the node and the rows of the tables at each point of the trace. A tier read that failed inside a multicall is nothing.
\<close>

record tier_env =
  tn_paused :: "tier_event list \<Rightarrow> chain_fault + bool"
  tn_hasRole :: "tier_event list \<Rightarrow> chain_fault + bool"
  tn_tierSet :: "tier_event list \<Rightarrow> chain_fault + (int \<Rightarrow> bool)"
  tn_accountTier :: "tier_event list \<Rightarrow> chain_fault + (address \<Rightarrow> int option)"
  tn_statsAge :: "tier_event list \<Rightarrow> int option"
  tn_analytics :: "tier_event list \<Rightarrow> analytics_row list"
  tn_accounts :: "tier_event list \<Rightarrow> tiered_row list"
  tn_recovery :: "string \<Rightarrow> recovery_env"
  tn_call :: "int \<Rightarrow> call_env"

abbreviation fo_network :: "tier_options \<Rightarrow> string" where
  "fo_network opts \<equiv> kd_network (fo_deps opts)"

text \<open>\<open>new Map(rows.map(...))\<close>: a later row of the same key wins.\<close>

definition map_of_entries :: "('k \<times> 'v) list \<Rightarrow> ('k \<times> 'v) list" where
  "map_of_entries rows = fold (\<lambda>(k, v) m. set_field k v m) rows []"

definition qualifying :: "tier_options \<Rightarrow> tier_env \<Rightarrow> int \<Rightarrow> (address \<times> int) list tier_act" where
  "qualifying opts env minVolume = ask (\<lambda>tr. Inr (map_of_entries (map (\<lambda>r. (lower (ay_address r), ay_volume30d r))
     (filter (\<lambda>r. ay_network r = fo_network opts \<and> ay_volume30d r \<ge> minVolume) (tn_analytics env tr))))) Volumes_read"

definition tiered :: "tier_options \<Rightarrow> tier_env \<Rightarrow> address list tier_act" where
  "tiered opts env = ask (\<lambda>tr. Inr (map (\<lambda>r. lower (td_address r))
     (filter (\<lambda>r. td_network r = fo_network opts \<and> td_feeTier r > 0) (tn_accounts env tr)))) Tiered_read"

definition volumes_of :: "tier_options \<Rightarrow> tier_env \<Rightarrow> address list \<Rightarrow> (address \<times> int) list tier_act" where
  "volumes_of opts env accounts =
     (if accounts = [] then act_ret []
      else ask (\<lambda>tr. Inr (map_of_entries (map (\<lambda>r. (lower (ay_address r), ay_volume30d r))
         (filter (\<lambda>r. ay_network r = fo_network opts \<and> ay_address r \<in> set (map lower accounts)) (tn_analytics env tr))))) Volumes_read)"

fun accountTiers :: "tier_env \<Rightarrow> address list list \<Rightarrow> (address \<times> int) list \<Rightarrow> (address \<times> int) list tier_act" where
  "accountTiers env [] out = act_ret out"
| "accountTiers env (slice # rest) out =
     act_bind (ask (\<lambda>tr. map_sum id (\<lambda>f. List.map_filter (\<lambda>a. map_option (Pair a) (f a)) slice) (tn_accountTier env tr)) Tiers_read)
       (\<lambda>rs. accountTiers env rest (fold (\<lambda>(a, t) m. set_field a t m) rs out))"

definition definedTiers :: "tier_env \<Rightarrow> int list \<Rightarrow> int list tier_act" where
  "definedTiers env tiers = ask (\<lambda>tr. map_sum id (\<lambda>f. filter f tiers) (tn_tierSet env tr)) Defined_read"

section \<open>Applying one change\<close>

datatype tier_outcome = To_confirmed | To_reverted | To_preflight | To_unconfirmed

definition is_tier_set :: "address \<Rightarrow> address \<Rightarrow> event_log \<Rightarrow> bool" where
  "is_tier_set feeRouter account l \<longleftrightarrow> lower (el_address l) = lower feeRouter
     \<and> (case el_event l of None \<Rightarrow> False | Some (name, args) \<Rightarrow> name = ''FeeTierSet''
          \<and> (case abi_text (map_of args ''account'') of None \<Rightarrow> False | Some a \<Rightarrow> lower a = lower account))"

definition feeTierSetFrom :: "event_log list \<Rightarrow> address \<Rightarrow> address \<Rightarrow> int option" where
  "feeTierSetFrom logs feeRouter account = (case find (is_tier_set feeRouter account) logs of None \<Rightarrow> None
     | Some l \<Rightarrow> (case el_event l of None \<Rightarrow> None | Some (name, args) \<Rightarrow> abi_number (map_of args ''tier'')))"

definition change_payload :: "tier_change \<Rightarrow> (string \<times> json) list" where
  "change_payload c = [(''from'', JNum (tc_from c)), (''to'', JNum (tc_to c))]"

definition apply_change :: "tier_options \<Rightarrow> tier_env \<Rightarrow> tier_change \<Rightarrow> tier_outcome tier_act" where
  "apply_change opts env c =
     act_then (log_event (Tier_called (tc_account c) (tc_to c)))
    (act_bind (record_action (fo_network opts) \<lparr>ai_kind = ''fee_tier.set'', ai_marketId = None, ai_account = Some (tc_account c),
         ai_payload = JObj (change_payload c @ [(''volume30d'', big_json (tc_volume30d c))]), ai_status = None, ai_txJobId = None\<rparr>) (\<lambda>i.
     let ce = tn_call env i in
     act_bind (try_submit (fo_deps opts) ce \<lparr>tr_to = fo_feeRouter opts, tr_data = fo_encode opts (tc_account c) (tc_to c),
         tr_value = None, tr_gas = None,
         tr_label = ''fee_tier.set '' @ tc_account c @ '' '' @ int_text (tc_from c) @ ''->'' @ int_text (tc_to c)\<rparr>) (\<lambda>r. case r of
       Inl err \<Rightarrow>
         act_then (update_action i (no_action_patch\<lparr>kp_status := Some Act_failed, kp_payload := Some (JObj (change_payload c
             @ [(''preflight'', JObj [(''errorName'', text_json (de_errorName (decodeError (kd_abi (fo_deps opts)) err))),
                  (''error'', JStr (errorMessage (th_fault err)))])]))\<rparr>))
        (act_then (count_by ''fee_tier_preflight_reverted_total'' 1) (act_ret To_preflight))
     | Inr job \<Rightarrow>
         act_then (update_action i (no_action_patch\<lparr>kp_status := Some Act_submitted, kp_txJobId := Some (Some (tj_id job))\<rparr>))
        (act_bind (try_wait (fo_deps opts) ce job) (\<lambda>out. case out of
           None \<Rightarrow> act_ret To_unconfirmed
         | Some receipt \<Rightarrow>
             let failed = no_action_patch\<lparr>kp_status := Some Act_failed, kp_blockNumber := Some (Some (rc_blockNumber receipt))\<rparr> in
             if \<not> rc_success receipt
             then act_then (update_action i failed) (act_then (count_by ''fee_tier_reverted_total'' 1) (act_ret To_reverted))
             else if feeTierSetFrom (ce_logs ce (rc_hash receipt)) (fo_feeRouter opts) (tc_account c) \<noteq> Some (tc_to c)
             then act_then (update_action i (failed\<lparr>kp_payload := Some (JObj (change_payload c
                      @ [(''note'', JStr ''no matching FeeTierSet in receipt'')]))\<rparr>)) (act_ret To_reverted)
             else act_then (update_action i (failed\<lparr>kp_status := Some Act_confirmed\<rparr>))
                 (act_then (count_by (if tc_to c > tc_from c then ''fee_tier_upgrades_total'' else ''fee_tier_downgrades_total'') 1)
                    (act_ret To_confirmed)))))))"

text \<open>The loop over the changes stops at the first one that did not settle.\<close>

fun apply_all :: "tier_options \<Rightarrow> tier_env \<Rightarrow> tier_change list \<Rightarrow> (tier_change \<times> tier_outcome) list \<Rightarrow> (tier_change \<times> tier_outcome) list tier_act" where
  "apply_all opts env [] applied = act_ret applied"
| "apply_all opts env (c # cs) applied = act_bind (apply_change opts env c) (\<lambda>outcome.
     if outcome = To_unconfirmed then act_ret (applied @ [(c, outcome)])
     else apply_all opts env cs (applied @ [(c, outcome)]))"

section \<open>The tick\<close>

datatype tier_idle = Ti_paused | Ti_stats_stale | Ti_tier_undefined | Ti_in_flight | Ti_lacks_role

fun idle_counter :: "tier_idle \<Rightarrow> string" where
  "idle_counter Ti_paused = ''fee_tier_idle_paused_total''"
| "idle_counter Ti_stats_stale = ''fee_tier_idle_stats_stale_total''"
| "idle_counter Ti_tier_undefined = ''fee_tier_idle_tier_undefined_total''"
| "idle_counter Ti_in_flight = ''fee_tier_idle_in_flight_total''"
| "idle_counter Ti_lacks_role = ''fee_tier_idle_lacks_role_total''"

datatype tier_tick_result =
    Tier_idle tier_idle
  | Tier_ran bool "tier_change list" int "(tier_change \<times> tier_outcome) list"

definition go_idle :: "tier_idle \<Rightarrow> tier_tick_result tier_act" where
  "go_idle r = act_then (count_by (idle_counter r) 1) (act_ret (Tier_idle r))"

definition new_tier_bot_ok :: "tier_options \<Rightarrow> bool" where
  "new_tier_bot_ok opts \<longleftrightarrow> fo_schedule opts \<noteq> []"

definition tier_max :: "tier_options \<Rightarrow> nat" where
  "tier_max opts = (case fo_maxChangesPerTick opts of None \<Rightarrow> 20 | Some n \<Rightarrow> n)"

definition tier_maxAge :: "tier_options \<Rightarrow> int" where
  "tier_maxAge opts = (case fo_maxStatsAgeMs opts of None \<Rightarrow> 2 * 3600000 | Some n \<Rightarrow> n)"

text \<open>The candidates with their volumes and their tiers on chain.\<close>

definition read_candidates :: "tier_options \<Rightarrow> tier_env \<Rightarrow> ((address \<times> int) list \<times> (address \<times> int) list \<times> nat) tier_act" where
  "read_candidates opts env =
     act_bind (qualifying opts env (ts_minVolume (hd (fo_schedule opts)))) (\<lambda>qual.
     act_bind (tiered opts env) (\<lambda>held.
     let candidates = rev (remdups (rev (map fst qual @ held))) in
     act_bind (volumes_of opts env (filter (\<lambda>a. map_of qual a = None) candidates)) (\<lambda>rest.
     let volumes = fold (\<lambda>(a, v) m. set_field a v m) rest qual in
     act_bind (accountTiers env (chunkFills 200 candidates) []) (\<lambda>onChain.
       act_ret (volumes, onChain, length candidates)))))"

definition tier_work :: "tier_options \<Rightarrow> tier_env \<Rightarrow> tier_tick_result tier_act" where
  "tier_work opts env =
     act_bind (read_candidates opts env) (\<lambda>(volumes, onChain, n).
     let (changes, deferred) = diffTiers (map_of volumes) onChain (fo_schedule opts) (tier_max opts) in
     act_then (gauge ''fee_tier_candidates'' (int n))
    (act_then (gauge ''fee_tier_pending_changes'' (int (length changes) + deferred))
    (if \<not> fo_enabled opts
     then act_then (count_by ''fee_tier_dry_run_ticks_total'' 1) (act_ret (Tier_ran True changes deferred []))
     else act_bind (apply_all opts env changes []) (\<lambda>applied. act_ret (Tier_ran False changes deferred applied)))))"

definition tier_tick :: "tier_options \<Rightarrow> tier_env \<Rightarrow> tier_tick_result tier_act" where
  "tier_tick opts env =
     act_bind (ask (tn_paused env) Gate_read) (\<lambda>paused.
     if paused then go_idle Ti_paused
     else act_bind (ask (\<lambda>tr. Inr (tn_statsAge env tr)) Stats_read) (\<lambda>age.
     if age = None \<or> the age > tier_maxAge opts then go_idle Ti_stats_stale
     else let tiers = map ts_tier (fo_schedule opts) in
     act_bind (definedTiers env tiers) (\<lambda>def'.
     if filter (\<lambda>t. t \<notin> set def') tiers \<noteq> [] then go_idle Ti_tier_undefined
     else if \<not> fo_enabled opts then tier_work opts env
     else act_bind (ask (tn_hasRole env) Role_read) (\<lambda>role.
     if \<not> role then go_idle Ti_lacks_role
     else act_bind (guard_in_flight (fo_deps opts) (tn_recovery env)) (\<lambda>inFlight.
     if inFlight then go_idle Ti_in_flight else tier_work opts env)))))"

section \<open>A parsed schedule ranks volumes\<close>

interpretation tier: comparator by_tier
  by unfold_locales (auto simp: by_tier_def)

definition ranks :: "tier_step \<Rightarrow> tier_step \<Rightarrow> bool" where
  "ranks a b \<longleftrightarrow> ts_tier a < ts_tier b \<and> ts_minVolume a < ts_minVolume b"

lemma checked_ranks:
  "check_steps ss = None \<Longrightarrow> sorted_wrt (\<lambda>a b. by_tier a b \<le> 0) ss \<Longrightarrow> sorted_wrt ranks ss"
proof (induction ss rule: check_steps.induct)
  case (1 a b ss)
  then have ab: "ranks a b" by (auto simp: ranks_def by_tier_def split: if_splits)
  have rest: "sorted_wrt ranks (b # ss)" using 1 by (auto split: if_splits)
  with ab have "\<forall>x \<in> set (b # ss). ranks a x" by (auto simp: ranks_def)
  with rest show ?case by simp
qed simp_all

definition step_ok :: "tier_step \<Rightarrow> bool" where
  "step_ok s \<longleftrightarrow> 1 \<le> ts_tier s \<and> ts_tier s \<le> MAX_TIER \<and> 0 < ts_minVolume s"

lemma parse_steps_ok: "parse_steps ps = Inr ss \<Longrightarrow> length ss = length ps \<and> (\<forall>s \<in> set ss. step_ok s)"
  by (induction ps arbitrary: ss)
    (auto simp: parse_step_def step_ok_def USD6_def Let_def split: option.splits sum.splits if_splits)

lemma split_on_nonempty: "split_on c x \<noteq> []"
  by (induction c x rule: split_on.induct) (auto split: list.splits)

lemma target_fold:
  assumes "sorted_wrt ranks ss" and "\<forall>s \<in> set ss. t < ts_tier s"
  shows "fold (\<lambda>s tier. if v \<ge> ts_minVolume s then ts_tier s else tier) ss t
     = Max (insert t (ts_tier ` {s \<in> set ss. ts_minVolume s \<le> v}))"
  using assms
proof (induction ss arbitrary: t)
  case Nil
  then show ?case by simp
next
  case (Cons s ss)
  let ?f = "\<lambda>s tier. if v \<ge> ts_minVolume s then ts_tier s else tier"
  have fin: "finite (ts_tier ` {x \<in> set ss. ts_minVolume x \<le> v})" by simp
  show ?case
  proof (cases "ts_minVolume s \<le> v")
    case True
    have "{x \<in> set (s # ss). ts_minVolume x \<le> v} = insert s {x \<in> set ss. ts_minVolume x \<le> v}" using True by auto
    moreover have "fold ?f ss (ts_tier s) = Max (insert (ts_tier s) (ts_tier ` {x \<in> set ss. ts_minVolume x \<le> v}))"
      using Cons.prems by (intro Cons.IH) (auto simp: ranks_def)
    moreover have "t < ts_tier s" using Cons.prems(2) by simp
    moreover have "Max (insert t (insert (ts_tier s) M)) = Max (insert (ts_tier s) M)" if "finite M" for M :: "int set"
    proof -
      have "ts_tier s \<le> Max (insert (ts_tier s) M)" using that by simp
      then have "t \<le> Max (insert (ts_tier s) M)" using \<open>t < ts_tier s\<close> by linarith
      with that show ?thesis by (subst Max_insert) (auto simp: max_def)
    qed
    ultimately show ?thesis using True fin by simp
  next
    case False
    have "{x \<in> set (s # ss). ts_minVolume x \<le> v} = {x \<in> set ss. ts_minVolume x \<le> v}" using False by auto
    moreover have "fold ?f ss t = Max (insert t (ts_tier ` {x \<in> set ss. ts_minVolume x \<le> v}))"
      using Cons.prems by (intro Cons.IH) auto
    ultimately show ?thesis using False by simp
  qed
qed

text \<open>
  A schedule that parses is one to rank by. It has at least one step, its tiers lie in 1..16 and go up strictly together
  with their positive thresholds; the target tier of a volume is the highest tier whose threshold the volume meets, and 0
  below the first; so more volume never means a lower tier.
\<close>

theorem parsed_schedule_ranks:
  assumes "parseSchedule raw = Inr schedule"
  shows "schedule \<noteq> [] \<and> sorted_wrt ranks schedule \<and> (\<forall>s \<in> set schedule. step_ok s)
    \<and> (\<forall>v. targetTier v schedule = Max (insert 0 (ts_tier ` {s \<in> set schedule. ts_minVolume s \<le> v})))
    \<and> (\<forall>v w. v \<le> w \<longrightarrow> targetTier v schedule \<le> targetTier w schedule)"
proof -
  obtain body steps where steps: "parse_steps (split_on CHR '','' body) = Inr steps" "schedule = js_sort by_tier steps" "check_steps schedule = None"
    using assms by (auto simp: parseSchedule_def Let_def split: option.splits if_splits sum.splits)
  have ne: "schedule \<noteq> []"
    using parse_steps_ok [OF steps(1)] split_on_nonempty [of "CHR '',''" body] length_js_sort [of by_tier steps] steps(2)
    by (metis length_0_conv list.size(3))
  have rank: "sorted_wrt ranks schedule" by (rule checked_ranks [OF steps(3)]) (simp add: steps(2) tier.js_sort_sorted)
  have ok: "\<forall>s \<in> set schedule. step_ok s" using parse_steps_ok [OF steps(1)] by (simp add: steps(2))
  have target: "targetTier v schedule = Max (insert 0 (ts_tier ` {s \<in> set schedule. ts_minVolume s \<le> v}))" for v
    unfolding targetTier_def by (rule target_fold [OF rank]) (use ok in \<open>auto simp: step_ok_def\<close>)
  have "targetTier v schedule \<le> targetTier w schedule" if "v \<le> w" for v w
    unfolding target by (rule Max_mono) (use that in auto)
  with ne rank ok target show ?thesis by blast
qed

theorem parsed_schedule_ranks_witness:
  "parseSchedule (Some '' 2 :10, 1: 5'') = Inr [\<lparr>ts_tier = 1, ts_minVolume = 5000000\<rparr>, \<lparr>ts_tier = 2, ts_minVolume = 10000000\<rparr>]
   \<and> targetTier 7 [\<lparr>ts_tier = 1, ts_minVolume = 5000000\<rparr>, \<lparr>ts_tier = 2, ts_minVolume = 10000000\<rparr>]
      \<le> targetTier 9000000 [\<lparr>ts_tier = 1, ts_minVolume = 5000000\<rparr>, \<lparr>ts_tier = 2, ts_minVolume = 10000000\<rparr>]"
proof -
  have parsed: "parseSchedule (Some '' 2 :10, 1: 5'') = Inr [\<lparr>ts_tier = 1, ts_minVolume = 5000000\<rparr>, \<lparr>ts_tier = 2, ts_minVolume = 10000000\<rparr>]"
    by code_simp
  with parsed_schedule_ranks [OF parsed] show ?thesis by auto
qed

end
