(* ===== verification/Refill_Keeper.thy ===== *)
theory Refill_Keeper
  imports Keeper_Calls
begin

text \<open>
  The gas refill of the service keys, \<open>client/lib/keepers/refill.ts\<close>: the targets and their parser, the plan, and one
  run, with the sum over the \<open>KeeperAction\<close> rows of the day. A gauge of a balance is kept at scale 1e6. Log lines are left
  out. The day of a row's \<open>updatedAt\<close>, which the database sets, is a parameter.
\<close>

section \<open>Targets\<close>

definition USDC18 :: int where "USDC18 = 10 ^ 18"

record refill_target =
  rt_name :: string
  rt_address :: address

text \<open>\<open>/^0x[0-9a-fA-F]{40}$/\<close>\<close>

definition is_hex_digit :: "char \<Rightarrow> bool" where
  "is_hex_digit c \<longleftrightarrow> is_digit c \<or> (CHR ''a'' \<le> c \<and> c \<le> CHR ''f'') \<or> (CHR ''A'' \<le> c \<and> c \<le> CHR ''F'')"

definition is_address :: "string \<Rightarrow> bool" where
  "is_address a \<longleftrightarrow> take 2 a = ''0x'' \<and> length a = 42 \<and> list_all is_hex_digit (drop 2 a)"

definition parse_target :: "string \<Rightarrow> string + refill_target" where
  "parse_target entry = (case map trim (split_on CHR '':'' entry) of
     name # addr # _ \<Rightarrow> if name = [] \<or> addr = [] \<or> \<not> is_address addr then Inl entry
        else Inr \<lparr>rt_name = name, rt_address = addr\<rparr>
   | _ \<Rightarrow> Inl entry)"

fun parse_entries :: "string list \<Rightarrow> string + refill_target list" where
  "parse_entries [] = Inr []"
| "parse_entries (e # es) = (case parse_target e of Inl x \<Rightarrow> Inl x
     | Inr t \<Rightarrow> (case parse_entries es of Inl x \<Rightarrow> Inl x | Inr ts \<Rightarrow> Inr (t # ts)))"

definition parseTargets :: "string option \<Rightarrow> string + refill_target list" where
  "parseTargets raw = (case raw of None \<Rightarrow> Inr []
     | Some body \<Rightarrow> if body = [] then Inr []
         else parse_entries (filter (\<lambda>e. e \<noteq> []) (map trim (split_on CHR '','' body))))"

section \<open>The plan\<close>

record refill_policy =
  rl_floor :: int
  rl_target :: int
  rl_maxPerRun :: int
  rl_maxPerTargetPerDay :: int
  rl_funderAlert :: int

record refill_input =
  ri_name :: string
  ri_address :: address
  ri_balance :: int
  ri_spentToday :: int

datatype refill_cap = Cap_run | Cap_day | Cap_funder

datatype refill_plan =
    Refill_ok string address int
  | Refill_top_up string address int int
  | Refill_capped string address int int refill_cap

definition by_balance :: "refill_input \<Rightarrow> refill_input \<Rightarrow> int" where
  "by_balance a b = cmp3 (ri_balance a) (ri_balance b)"

definition least_of :: "int \<Rightarrow> int list \<Rightarrow> int" where
  "least_of x xs = fold (\<lambda>v m. if v < m then v else m) xs x"

definition day_left :: "refill_policy \<Rightarrow> refill_input \<Rightarrow> int" where
  "day_left p t = (if rl_maxPerTargetPerDay p > ri_spentToday t then rl_maxPerTargetPerDay p - ri_spentToday t else 0)"

fun plan_each :: "refill_policy \<Rightarrow> int \<Rightarrow> int \<Rightarrow> refill_input list \<Rightarrow> refill_plan list" where
  "plan_each p runLeft funderLeft [] = []"
| "plan_each p runLeft funderLeft (t # ts) =
     (if ri_balance t \<ge> rl_floor p then Refill_ok (ri_name t) (ri_address t) (ri_balance t) # plan_each p runLeft funderLeft ts
      else let wanted = rl_target p - ri_balance t; dayLeft = day_left p t; amount = least_of wanted [dayLeft, runLeft, funderLeft] in
        if amount \<le> 0
        then Refill_capped (ri_name t) (ri_address t) (ri_balance t) wanted
               (if dayLeft \<le> 0 then Cap_day else if runLeft \<le> 0 then Cap_run else Cap_funder) # plan_each p runLeft funderLeft ts
        else Refill_top_up (ri_name t) (ri_address t) (ri_balance t) amount
               # plan_each p (runLeft - amount) (funderLeft - amount) ts)"

text \<open>Nothing when the target is not above the floor: the code throws.\<close>

definition planRefills :: "refill_input list \<Rightarrow> int \<Rightarrow> refill_policy \<Rightarrow> refill_plan list option" where
  "planRefills ts funderBalance p =
     (if rl_target p \<le> rl_floor p then None
      else Some (plan_each p (rl_maxPerRun p) (if funderBalance > USDC18 then funderBalance - USDC18 else 0) (js_sort by_balance ts)))"

section \<open>What was spent today\<close>

text \<open>
  The query over \<open>KeeperAction\<close>, for one account. The amount of a row is the decimal text this service writes as \<open>payload.amount\<close>;
  a row without one adds nothing.
\<close>

definition row_amount :: "keeper_action \<Rightarrow> int" where
  "row_amount r = (case field ''amount'' (kn_payload r) of
     Some (JStr t) \<Rightarrow> (case t of c # ds \<Rightarrow> if c = CHR ''-'' then - digits_value ds else digits_value t | [] \<Rightarrow> 0)
   | Some (JNum n) \<Rightarrow> n
   | _ \<Rightarrow> 0)"

definition counts_today :: "string \<Rightarrow> int \<Rightarrow> (int \<Rightarrow> int) \<Rightarrow> address \<Rightarrow> keeper_action \<Rightarrow> bool" where
  "counts_today network today updatedDay a r \<longleftrightarrow> kn_network r = network \<and> kn_kind r = ''refill.top-up''
     \<and> kn_status r \<in> {Act_confirmed, Act_submitted} \<and> updatedDay (kn_id r) = today \<and> map_option lower (kn_account r) = Some a"

definition spent_today :: "string \<Rightarrow> int \<Rightarrow> (int \<Rightarrow> int) \<Rightarrow> action_table \<Rightarrow> address \<Rightarrow> int" where
  "spent_today network today updatedDay t a =
     sum_list (map row_amount (filter (counts_today network today updatedDay a) (kt_rows t)))"

section \<open>One run\<close>

datatype refill_event = Spent_read | Funder_read int | Balance_read address int | Refill_called address int

type_synonym refill_keeper = "refill_event keeper"
type_synonym 'a refill_act = "(refill_event, 'a) keeper_act"

record refill_options =
  ro_deps :: keeper_deps
  ro_targets :: "refill_target list"
  ro_policy :: refill_policy
  ro_execute :: bool

record refill_env =
  rn_today :: int
  rn_updatedDay :: "int \<Rightarrow> int"
  rn_sql :: "refill_event list \<Rightarrow> chain_fault option"
  rn_balance :: "refill_event list \<Rightarrow> address \<Rightarrow> chain_fault + int"
  rn_recovery :: "string \<Rightarrow> recovery_env"
  rn_call :: "int \<Rightarrow> call_env"

definition read_spent :: "refill_options \<Rightarrow> refill_env \<Rightarrow> (address \<Rightarrow> int) refill_act" where
  "read_spent opts env =
     act_then (ask (\<lambda>tr. case rn_sql env tr of Some e \<Rightarrow> Inl e | None \<Rightarrow> Inr ()) (\<lambda>_. Spent_read))
       (act_get (\<lambda>s. spent_today (kd_network (ro_deps opts)) (rn_today env) (rn_updatedDay env) (kk_actions s)))"

fun read_balances :: "refill_env \<Rightarrow> (address \<Rightarrow> int) \<Rightarrow> refill_target list \<Rightarrow> refill_input list refill_act" where
  "read_balances env spent [] = act_ret []"
| "read_balances env spent (t # ts) =
     act_bind (ask (\<lambda>tr. rn_balance env tr (rt_address t)) (Balance_read (rt_address t))) (\<lambda>balance.
     act_then (gauge (''refill_target_balance_usdc.'' @ rt_name t) (balance sdiv 10 ^ 12))
    (act_bind (read_balances env spent ts) (\<lambda>rest.
       act_ret (\<lparr>ri_name = rt_name t, ri_address = rt_address t, ri_balance = balance, ri_spentToday = spent (lower (rt_address t))\<rparr> # rest))))"

fun cap_text :: "refill_cap \<Rightarrow> string" where
  "cap_text Cap_run = ''run''"
| "cap_text Cap_day = ''day''"
| "cap_text Cap_funder = ''funder''"

definition top_up :: "refill_options \<Rightarrow> refill_env \<Rightarrow> string \<Rightarrow> address \<Rightarrow> int \<Rightarrow> int \<Rightarrow> bool refill_act" where
  "top_up opts env name a balance amount =
     act_bind (record_action (kd_network (ro_deps opts)) \<lparr>ai_kind = ''refill.top-up'', ai_marketId = None, ai_account = Some a,
         ai_payload = JObj [(''target'', JStr name), (''balance'', big_json balance), (''amount'', big_json amount)],
         ai_status = None, ai_txJobId = None\<rparr>) (\<lambda>i.
     let ce = rn_call env i in
     act_then (log_event (Refill_called a amount))
    (act_bind (try_submit (ro_deps opts) ce \<lparr>tr_to = a, tr_data = ''0x'', tr_value = Some amount, tr_gas = Some 21000,
         tr_label = ''refill '' @ name\<rparr>) (\<lambda>r. case r of
       Inl err \<Rightarrow> act_then (update_action i (no_action_patch\<lparr>kp_status := Some Act_failed,
           kp_payload := Some (JObj [(''target'', JStr name), (''amount'', big_json amount), (''error'', JStr (errorMessage (th_fault err)))])\<rparr>))
         (act_ret False)
     | Inr job \<Rightarrow>
         act_then (update_action i (no_action_patch\<lparr>kp_status := Some Act_submitted, kp_txJobId := Some (Some (tj_id job))\<rparr>))
        (act_bind (try_wait (ro_deps opts) ce job) (\<lambda>out. case out of
           None \<Rightarrow> act_ret False
         | Some receipt \<Rightarrow>
             act_then (update_action i (no_action_patch\<lparr>kp_status := Some (if rc_success receipt then Act_confirmed else Act_failed),
                 kp_blockNumber := Some (Some (rc_blockNumber receipt))\<rparr>))
            (act_then (act_when (rc_success receipt) (count_by (''refill_topups_total.'' @ name) 1))
               (act_ret (rc_success receipt))))))))"

fun refill_all :: "refill_options \<Rightarrow> refill_env \<Rightarrow> refill_plan list \<Rightarrow> string list \<Rightarrow> string list refill_act" where
  "refill_all opts env [] sent = act_ret sent"
| "refill_all opts env (Refill_capped name a balance wanted cap # ps) sent =
     act_then (count_by (''refill_capped_total.'' @ cap_text cap) 1) (refill_all opts env ps sent)"
| "refill_all opts env (Refill_ok name a balance # ps) sent = refill_all opts env ps sent"
| "refill_all opts env (Refill_top_up name a balance amount # ps) sent =
     (if \<not> ro_execute opts then refill_all opts env ps sent
      else act_bind (top_up opts env name a balance amount) (\<lambda>ok.
        refill_all opts env ps (if ok then sent @ [name] else sent)))"

definition refillOnce :: "refill_options \<Rightarrow> refill_env \<Rightarrow> (refill_plan list \<times> string list) refill_act" where
  "refillOnce opts env =
     act_bind (if ro_execute opts then guard_in_flight (ro_deps opts) (rn_recovery env) else act_ret False) (\<lambda>inFlight.
     if inFlight then act_ret ([], [])
     else act_bind (read_spent opts env) (\<lambda>spent.
     act_bind (ask (\<lambda>tr. rn_balance env tr (so_address (kd_sender (ro_deps opts)))) Funder_read) (\<lambda>funder.
     act_then (gauge ''refill_funder_balance_usdc'' (funder sdiv 10 ^ 12))
    (act_bind (read_balances env spent (ro_targets opts)) (\<lambda>withBalances.
     case planRefills withBalances funder (ro_policy opts) of
       None \<Rightarrow> act_throw (Config_fault ''refill target must be above the floor'')
     | Some plans \<Rightarrow> act_bind (refill_all opts env plans []) (\<lambda>sent. act_ret (plans, sent)))))))"

section \<open>Every cap holds\<close>

fun topped :: "refill_plan list \<Rightarrow> (address \<times> int) list" where
  "topped [] = []"
| "topped (Refill_top_up name a balance amount # ps) = (a, amount) # topped ps"
| "topped (p # ps) = topped ps"

lemma topped_cases:
  "topped (p # ps) = (case p of Refill_top_up name a balance amount \<Rightarrow> [(a, amount)] | _ \<Rightarrow> []) @ topped ps"
  by (cases p) auto

lemma least_of: "least_of x xs = Min (insert x (set xs))"
proof (induction xs arbitrary: x)
  case Nil
  then show ?case by (simp add: least_of_def)
next
  case (Cons y ys)
  have "least_of x (y # ys) = least_of (min x y) ys" by (simp add: least_of_def min_def)
  also have "\<dots> = Min (insert (min x y) (set ys))" by (rule Cons.IH)
  also have "\<dots> = Min (insert x (set (y # ys)))"
    by (cases "set ys = {}") (simp_all add: min.assoc min.commute min.left_commute)
  finally show ?case .
qed

text \<open>What a top-up of an input respects.\<close>

definition within_caps :: "refill_policy \<Rightarrow> refill_input list \<Rightarrow> address \<times> int \<Rightarrow> bool" where
  "within_caps p ts c \<longleftrightarrow> (\<exists>t \<in> set ts. ri_address t = fst c \<and> ri_balance t < rl_floor p \<and> 0 < snd c
     \<and> ri_balance t + snd c \<le> rl_target p \<and> ri_spentToday t + snd c \<le> rl_maxPerTargetPerDay p)"

lemma within_caps_mono: "within_caps p ts c \<Longrightarrow> within_caps p (t # ts) c"
  by (auto simp: within_caps_def)

lemma least_of_le: "least_of x [y, r, f] \<le> x" "least_of x [y, r, f] \<le> y" "least_of x [y, r, f] \<le> r" "least_of x [y, r, f] \<le> f"
  by (simp_all add: least_of)

lemma plan_each_caps:
  "\<forall>c \<in> set (topped (plan_each p r f ts)). within_caps p ts c"
proof (induction ts arbitrary: r f)
  case (Cons t ts)
  define amount where "amount = least_of (rl_target p - ri_balance t) [day_left p t, r, f]"
  have rest: "\<forall>c \<in> set (topped (plan_each p r' f' ts)). within_caps p (t # ts) c" for r' f'
    using Cons.IH within_caps_mono by blast
  have "within_caps p (t # ts) (ri_address t, amount)" if "\<not> ri_balance t \<ge> rl_floor p" "\<not> amount \<le> 0"
  proof -
    have "amount \<le> rl_target p - ri_balance t" "amount \<le> day_left p t" by (simp_all only: amount_def least_of_le)
    then show ?thesis using that by (simp add: within_caps_def day_left_def split: if_splits)
  qed
  with rest show ?case by (simp add: amount_def [symmetric] Let_def)
qed simp

lemma plan_each_total:
  "sum_list (map snd (topped (plan_each p r f ts))) \<le> max 0 (min r f)"
proof (induction ts arbitrary: r f)
  case (Cons t ts)
  define amount where "amount = least_of (rl_target p - ri_balance t) [day_left p t, r, f]"
  have "amount \<le> r" "amount \<le> f" by (simp_all only: amount_def least_of_le)
  moreover have "sum_list (map snd (topped (plan_each p (r - amount) (f - amount) ts))) \<le> max 0 (min (r - amount) (f - amount))"
    by (rule Cons.IH)
  ultimately show ?case using Cons.IH [of r f] by (simp add: amount_def [symmetric] Let_def)
qed simp

lemma plan_each_addresses: "fst ` set (topped (plan_each p r f ts)) \<subseteq> ri_address ` set ts"
  using plan_each_caps [of p r f ts] by (force simp: within_caps_def)

lemma plan_each_distinct:
  "distinct (map (lower \<circ> ri_address) ts) \<Longrightarrow> distinct (map (lower \<circ> fst) (topped (plan_each p r f ts)))"
proof (induction ts arbitrary: r f)
  case (Cons t ts)
  have new: "lower (ri_address t) \<notin> (lower \<circ> fst) ` set (topped (plan_each p r' f' ts))" for r' f'
  proof -
    have "(lower \<circ> fst) ` set (topped (plan_each p r' f' ts)) \<subseteq> (lower \<circ> ri_address) ` set ts"
      using plan_each_addresses [of p r' f' ts] by (metis image_comp image_mono)
    moreover have "lower (ri_address t) \<notin> (lower \<circ> ri_address) ` set ts" using Cons.prems by simp
    ultimately show ?thesis by blast
  qed
  have "distinct (map (lower \<circ> fst) (topped (plan_each p r' f' ts)))" for r' f'
    using Cons.IH Cons.prems by (simp add: comp_def)
  with new show ?case by (simp add: Let_def comp_def)
qed simp

section \<open>What a run does to the table and the trace\<close>

definition ids_below_next :: "action_table \<Rightarrow> bool" where
  "ids_below_next t \<longleftrightarrow> (\<forall>r \<in> set (kt_rows t). kn_id r < kt_nextId t)"

lemma row_amount_big: "field ''amount'' (kn_payload r) = Some (big_json n) \<Longrightarrow> 0 \<le> n \<Longrightarrow> row_amount r = n"
proof -
  assume "field ''amount'' (kn_payload r) = Some (big_json n)" and n: "0 \<le> n"
  then have "field ''amount'' (kn_payload r) = Some (JStr (nat_text (nat n)))" by (simp add: big_json_def int_text_def)
  moreover obtain c ds where ds: "nat_text (nat n) = c # ds" "is_digit c"
    using nat_text_digits [of "nat n"] by (cases "nat_text (nat n)") auto
  moreover have "digits_value (c # ds) = n" using digits_value_nat_text [of "nat n"] n ds by simp
  ultimately show ?thesis by (auto simp: row_amount_def is_digit_def)
qed

text \<open>A table with the row of one top-up more, in whatever status it ended.\<close>

definition one_more :: "address \<Rightarrow> int \<Rightarrow> action_table \<Rightarrow> action_table \<Rightarrow> bool" where
  "one_more a amount t u \<longleftrightarrow> kt_nextId u = kt_nextId t + 1 \<and> (\<exists>r. kt_rows u = kt_rows t @ [r] \<and> kn_id r = kt_nextId t
     \<and> kn_account r = (if a = [] then None else Some (lower a)) \<and> row_amount r = amount)"

lemma one_more_update:
  assumes "one_more a amount t u" and "ids_below_next t" and "0 \<le> amount"
    and "\<And>o'. kp_payload p = Some o' \<Longrightarrow> field ''amount'' o' = Some (big_json amount)"
  shows "one_more a amount t (action_update (kt_nextId t) p u)"
proof -
  have old: "map (\<lambda>r. if kn_id r = kt_nextId t then patch_action p r else r) (kt_rows t) = kt_rows t"
    using assms(2) by (intro map_idI) (auto simp: ids_below_next_def)
  obtain r where r: "kt_nextId u = kt_nextId t + 1" "kt_rows u = kt_rows t @ [r]" "kn_id r = kt_nextId t"
    "kn_account r = (if a = [] then None else Some (lower a))" "row_amount r = amount"
    using assms(1) unfolding one_more_def by blast
  have "row_amount (patch_action p r) = amount"
  proof (cases "kp_payload p")
    case None
    then show ?thesis using r(5) by (simp add: patch_action_def row_amount_def)
  next
    case (Some o')
    then show ?thesis using assms(3) assms(4) [OF Some] by (intro row_amount_big) (simp_all add: patch_action_def)
  qed
  then have "kt_rows (action_update (kt_nextId t) p u) = kt_rows t @ [patch_action p r] \<and> kn_id (patch_action p r) = kt_nextId t
     \<and> kn_account (patch_action p r) = (if a = [] then None else Some (lower a)) \<and> row_amount (patch_action p r) = amount
     \<and> kt_nextId (action_update (kt_nextId t) p u) = kt_nextId t + 1"
    using r(1-4) old by (simp add: action_update_def patch_action_def)
  then show ?thesis unfolding one_more_def by blast
qed

lemma one_more_record:
  assumes "ai_account i = Some a" and "field ''amount'' (ai_payload i) = Some (big_json amount)" and "0 \<le> amount"
  shows "one_more a amount t (snd (action_record network i t))"
  using assms by (auto simp: one_more_def action_record_def intro!: row_amount_big)

lemma one_more_ids: "one_more a amount t u \<Longrightarrow> ids_below_next t \<Longrightarrow> ids_below_next u"
  unfolding one_more_def ids_below_next_def by fastforce

lemma one_more_spent:
  assumes "one_more a amount t u" and "0 \<le> amount"
  shows "spent_today n d upd u x \<le> spent_today n d upd t x + (if lower a = x then amount else 0)"
  using assms by (auto simp: one_more_def spent_today_def counts_today_def)

lemma top_up_step:
  assumes table: "ids_below_next (kk_actions s)" and amount: "0 \<le> amount"
  shows "wp (top_up opts env name a balance amount)
    (\<lambda>_ t. kk_trace t = kk_trace s @ [Refill_called a amount] \<and> one_more a amount (kk_actions s) (kk_actions t))
    (\<lambda>_ t. kk_trace t = kk_trace s @ [Refill_called a amount] \<and> one_more a amount (kk_actions s) (kk_actions t)) s"
proof -
  define J where "J u \<longleftrightarrow> kk_trace u = kk_trace s @ [Refill_called a amount] \<and> one_more a amount (kk_actions s) (kk_actions u)"
    for u :: refill_keeper
  note row = one_more_update [OF _ table amount] one_more_record [OF _ _ amount]
  have "wp (top_up opts env name a balance amount) (\<lambda>_. J) (\<lambda>_. J) s"
    unfolding top_up_def Let_def act_wp
    apply (rule wp_try_submit_frame)
    apply (simp add: act_wp split: sum.split)
    apply (intro conjI allI impI)
     apply (auto simp: J_def no_action_patch_def intro!: row) [1]
    apply (rule wp_try_wait_frame)
     apply (auto simp: J_def no_action_patch_def intro!: row split: option.split)
    done
  then show ?thesis by (rule wp_mono) (simp_all add: J_def)
qed

text \<open>The calls of a run are a prefix of the planned ones, and the table knows them all.\<close>

definition ran :: "refill_options \<Rightarrow> (address \<times> int) list \<Rightarrow> refill_keeper \<Rightarrow> refill_keeper \<Rightarrow> bool" where
  "ran opts planned s t \<longleftrightarrow> (\<exists>k. let cs = take k planned in
     kk_trace t = kk_trace s @ map (\<lambda>(a, v). Refill_called a v) cs \<and> (cs = [] \<or> ro_execute opts)
     \<and> (\<forall>n d upd x. spent_today n d upd (kk_actions t) x
          \<le> spent_today n d upd (kk_actions s) x + sum_list (map snd (filter (\<lambda>c. lower (fst c) = x) cs))))"

lemma ran_none: "kk_trace t = kk_trace s \<Longrightarrow> kk_actions t = kk_actions s \<Longrightarrow> ran opts planned s t"
  by (auto simp: ran_def Let_def intro!: exI [of _ 0])

lemma ran_step:
  assumes "kk_trace t = kk_trace s @ [Refill_called a v]" and "one_more a v (kk_actions s) (kk_actions t)" and "0 \<le> v"
    and "ran opts planned t u" and "ro_execute opts"
  shows "ran opts ((a, v) # planned) s u"
proof -
  obtain k where k: "kk_trace u = kk_trace t @ map (\<lambda>(a, v). Refill_called a v) (take k planned)"
    "\<And>n d upd x. spent_today n d upd (kk_actions u) x
          \<le> spent_today n d upd (kk_actions t) x + sum_list (map snd (filter (\<lambda>c. lower (fst c) = x) (take k planned)))"
    using assms(4) unfolding ran_def Let_def by blast
  have "spent_today n d upd (kk_actions u) x \<le> spent_today n d upd (kk_actions s) x
     + sum_list (map snd (filter (\<lambda>c. lower (fst c) = x) (take (Suc k) ((a, v) # planned))))" for n d upd x
    using k(2) [of n d upd x] one_more_spent [OF assms(2,3), of n d upd x] by (auto split: if_splits)
  then show ?thesis unfolding ran_def Let_def
    by (intro exI [of _ "Suc k"]) (use k(1) assms(1,5) in auto)
qed

lemma refill_all_ran:
  assumes "ids_below_next (kk_actions s)" and "\<forall>c \<in> set (topped ps). 0 < snd c"
  shows "wp (refill_all opts env ps sent) (\<lambda>_. ran opts (topped ps) s) (\<lambda>_. ran opts (topped ps) s) s"
  using assms
proof (induction opts env ps sent arbitrary: s rule: refill_all.induct)
  case (1 opts env sent)
  then show ?case by (simp add: act_wp ran_none)
next
  case (2 opts env name a balance wanted cap ps sent)
  have frame: "ran opts (topped ps) (s\<lparr>kk_metrics := m\<rparr>) = ran opts (topped ps) s" for m
    by (simp add: ran_def fun_eq_iff)
  show ?case using 2(1) [of "s\<lparr>kk_metrics := m\<rparr>" for m] 2(2,3) by (simp add: act_wp frame)
next
  case (3 opts env name a balance ps sent)
  then show ?case by simp
next
  case (4 opts env name a balance amount ps sent)
  have pos: "0 \<le> amount" using 4(4) by simp
  show ?case
  proof (cases "ro_execute opts")
    case False
    then have "wp (refill_all opts env ps sent) (\<lambda>_. ran opts (topped ps) s) (\<lambda>_. ran opts (topped ps) s) s" using 4 by simp
    moreover have "ran opts (topped ps) s t \<Longrightarrow> ran opts ((a, amount) # topped ps) s t" for t
      using False by (auto simp: ran_def Let_def intro!: exI [of _ 0])
    ultimately show ?thesis using False by (auto elim!: wp_mono)
  next
    case True
    have more: "wp (refill_all opts env ps sent') (\<lambda>_. ran opts ((a, amount) # topped ps) s) (\<lambda>_. ran opts ((a, amount) # topped ps) s) t"
      if "kk_trace t = kk_trace s @ [Refill_called a amount]" "one_more a amount (kk_actions s) (kk_actions t)"
        "sent' = (if ok then sent @ [name] else sent)" for t sent' ok
    proof -
      have "ids_below_next (kk_actions t)" using one_more_ids [OF that(2)] 4(3) by simp
      then have "wp (refill_all opts env ps sent') (\<lambda>_. ran opts (topped ps) t) (\<lambda>_. ran opts (topped ps) t) t"
        using 4(2) [of t ok] True that(3) 4(4) by simp
      then show ?thesis by (rule wp_mono) (use ran_step [OF that(1,2) pos _ True] in auto)
    qed
    have "ran opts ((a, amount) # topped ps) s t"
      if "kk_trace t = kk_trace s @ [Refill_called a amount]" "one_more a amount (kk_actions s) (kk_actions t)" for t
      by (rule ran_step [OF that pos _ True]) (simp add: ran_none)
    then show ?thesis using True
      by (simp add: wp_bind) (rule wp_mono [OF top_up_step [OF 4(3) pos]], auto intro: more)
  qed
qed

section \<open>A run stays within every cap\<close>

fun refill_calls :: "refill_event list \<Rightarrow> (address \<times> int) list" where
  "refill_calls [] = []"
| "refill_calls (Refill_called a v # tr) = (a, v) # refill_calls tr"
| "refill_calls (e # tr) = refill_calls tr"

lemma refill_calls_append [simp]: "refill_calls (xs @ ys) = refill_calls xs @ refill_calls ys"
  by (induction xs rule: refill_calls.induct) auto

lemma refill_calls_called [simp]: "refill_calls (map (\<lambda>(a, v). Refill_called a v) cs) = cs"
  by (induction cs) auto

definition balance_event :: "refill_input \<Rightarrow> refill_event" where
  "balance_event x = Balance_read (ri_address x) (ri_balance x)"

lemma refill_calls_balances [simp]: "refill_calls (map balance_event xs) = []"
  by (induction xs) (auto simp: balance_event_def)

lemma read_balances_spec:
  "wp (read_balances env spent ts)
     (\<lambda>xs t. kk_actions t = kk_actions s \<and> kk_trace t = kk_trace s @ map balance_event xs
        \<and> map ri_address xs = map rt_address ts \<and> (\<forall>x \<in> set xs. ri_spentToday x = spent (lower (ri_address x))))
     (\<lambda>_ t. kk_actions t = kk_actions s \<and> refill_calls (kk_trace t) = refill_calls (kk_trace s)) s"
proof (induction ts arbitrary: s)
  case Nil
  then show ?case by (simp add: act_wp)
next
  case (Cons t ts)
  have rest: "wp (read_balances env spent ts)
     (\<lambda>xs u. kk_actions u = kk_actions s \<and> kk_trace u = kk_trace s @ map balance_event
           (\<lparr>ri_name = rt_name t, ri_address = rt_address t, ri_balance = b, ri_spentToday = spent (lower (rt_address t))\<rparr> # xs)
        \<and> map ri_address xs = map rt_address ts \<and> (\<forall>x \<in> set xs. ri_spentToday x = spent (lower (ri_address x))))
     (\<lambda>_ u. kk_actions u = kk_actions s \<and> refill_calls (kk_trace u) = refill_calls (kk_trace s))
     (s\<lparr>kk_trace := kk_trace s @ [Balance_read (rt_address t) b], kk_metrics := m\<rparr>)" for b m
    by (rule wp_mono [OF Cons.IH]) (auto simp: balance_event_def)
  show ?case
    by (simp add: act_wp split: sum.split) (intro allI impI, rule wp_mono [OF rest], auto)
qed

definition run_ok :: "refill_options \<Rightarrow> refill_env \<Rightarrow> refill_keeper \<Rightarrow> refill_keeper \<Rightarrow> bool" where
  "run_ok opts env s t \<longleftrightarrow> (let p = ro_policy opts; calls = refill_calls (kk_trace t); total = sum_list (map snd calls);
       spent = spent_today (kd_network (ro_deps opts)) (rn_today env) (rn_updatedDay env) in
     (calls \<noteq> [] \<longrightarrow> ro_execute opts \<and> total \<le> rl_maxPerRun p \<and> (\<exists>funder. Funder_read funder \<in> set (kk_trace t) \<and> total + USDC18 \<le> funder))
     \<and> (\<forall>(a, v) \<in> set calls. \<exists>b. Balance_read a b \<in> set (kk_trace t) \<and> b < rl_floor p \<and> 0 < v \<and> b + v \<le> rl_target p)
     \<and> (\<forall>x. spent (kk_actions t) x \<le> max (spent (kk_actions s) x) (rl_maxPerTargetPerDay p)))"

lemma run_ok_none: "refill_calls (kk_trace t) = [] \<Longrightarrow> kk_actions t = kk_actions s \<Longrightarrow> run_ok opts env s t"
  by (simp add: run_ok_def Let_def)

lemma distinct_filter_single:
  assumes "distinct (map f xs)" shows "filter (\<lambda>x. f x = y) xs = [] \<or> (\<exists>x \<in> set xs. filter (\<lambda>x. f x = y) xs = [x])"
  using assms
proof (induction xs)
  case (Cons x xs)
  show ?case
  proof (cases "f x = y")
    case True
    then have "filter (\<lambda>x. f x = y) xs = []" using Cons.prems by (auto simp: filter_empty_conv) (metis imageI)
    with True show ?thesis by simp
  qed (use Cons in auto)
qed simp

lemma sum_take_pos: "\<forall>x \<in> set xs. 0 < snd x \<Longrightarrow> sum_list (map snd (take k xs)) \<le> sum_list (map snd (xs :: ('a \<times> int) list))"
proof (induction xs arbitrary: k)
  case (Cons x xs)
  have "0 \<le> sum_list (map snd xs)" using Cons.prems by (intro sum_list_nonneg) auto
  then show ?case using Cons by (cases k) auto
qed simp

lemma calls_run_ok:
  assumes inputs: "distinct (map (lower \<circ> ri_address) xs)"
    "\<forall>x \<in> set xs. Balance_read (ri_address x) (ri_balance x) \<in> set (kk_trace u)
       \<and> ri_spentToday x = spent_today (kd_network (ro_deps opts)) (rn_today env) (rn_updatedDay env) (kk_actions s) (lower (ri_address x))"
    and funder: "Funder_read funder \<in> set (kk_trace u)"
    and before: "refill_calls (kk_trace u) = []" "kk_actions u = kk_actions s"
    and plans: "planRefills xs funder (ro_policy opts) = Some plans"
    and ran: "ran opts (topped plans) u t"
  shows "run_ok opts env s t"
proof -
  define p f where "p = ro_policy opts" and "f = (if funder > USDC18 then funder - USDC18 else 0)"
  define spent where "spent = spent_today (kd_network (ro_deps opts)) (rn_today env) (rn_updatedDay env)"
  have plans: "plans = plan_each p (rl_maxPerRun p) f (js_sort by_balance xs)"
    using plans by (auto simp: planRefills_def p_def f_def split: if_splits)
  have caps: "\<forall>c \<in> set (topped plans). within_caps p xs c"
    using plan_each_caps [of p "rl_maxPerRun p" f "js_sort by_balance xs"] by (simp add: plans within_caps_def)
  have pos: "\<forall>c \<in> set (topped plans). 0 < snd c" using caps by (auto simp: within_caps_def)
  obtain k where k: "kk_trace t = kk_trace u @ map (\<lambda>(a, v). Refill_called a v) (take k (topped plans))"
    "take k (topped plans) = [] \<or> ro_execute opts"
    "\<And>x. spent (kk_actions t) x \<le> spent (kk_actions s) x + sum_list (map snd (filter (\<lambda>c. lower (fst c) = x) (take k (topped plans))))"
    using ran before(2) unfolding ran_def Let_def spent_def by metis
  define cs where "cs = take k (topped plans)"
  have calls: "refill_calls (kk_trace t) = cs" using k(1) before(1) by (simp add: cs_def)
  have in_plans: "set cs \<subseteq> set (topped plans)" by (auto simp: cs_def dest: in_set_takeD)
  have "sum_list (map snd cs) \<le> max 0 (min (rl_maxPerRun p) f)"
    using sum_take_pos [OF pos] plan_each_total [of p "rl_maxPerRun p" f "js_sort by_balance xs"] unfolding cs_def plans
    by (rule order_trans)
  moreover have "0 < sum_list (map snd cs)" if "cs \<noteq> []"
  proof -
    have "\<forall>c \<in> set cs. 0 < snd c" using pos in_plans by blast
    then have "\<forall>c \<in> set (tl cs). 0 \<le> snd c" by (cases cs) (auto intro: less_imp_le)
    then have "0 \<le> sum_list (map snd (tl cs))" by (intro sum_list_nonneg) auto
    with \<open>\<forall>c \<in> set cs. 0 < snd c\<close> that show ?thesis by (cases cs) auto
  qed
  ultimately have total: "cs \<noteq> [] \<longrightarrow> ro_execute opts \<and> sum_list (map snd cs) \<le> rl_maxPerRun p
     \<and> sum_list (map snd cs) + USDC18 \<le> funder"
    using k(2) by (auto simp: cs_def [symmetric] f_def split: if_splits)
  have each: "\<exists>b. Balance_read a b \<in> set (kk_trace t) \<and> b < rl_floor p \<and> 0 < v \<and> b + v \<le> rl_target p"
    if "(a, v) \<in> set cs" for a v
  proof -
    have "within_caps p xs (a, v)" using caps in_plans that by blast
    then obtain x where "x \<in> set xs" "ri_address x = a" "ri_balance x < rl_floor p" "0 < v" "ri_balance x + v \<le> rl_target p"
      by (auto simp: within_caps_def)
    then show ?thesis using inputs(2) k(1) by auto
  qed
  have day: "spent (kk_actions t) x \<le> max (spent (kk_actions s) x) (rl_maxPerTargetPerDay p)" for x
  proof -
    have "mset (map (lower \<circ> ri_address) (js_sort by_balance xs)) = mset (map (lower \<circ> ri_address) xs)" by simp
    then have "distinct (map (lower \<circ> ri_address) (js_sort by_balance xs))" using inputs(1) by (metis mset_eq_imp_distinct_iff)
    then have "distinct (map (\<lambda>c. lower (fst c)) (topped plans))"
      using plan_each_distinct [of "js_sort by_balance xs" p "rl_maxPerRun p" f] by (simp add: plans comp_def)
    then have "distinct (map (\<lambda>c. lower (fst c)) cs)" by (simp add: cs_def take_map [symmetric])
    then consider "filter (\<lambda>c. lower (fst c) = x) cs = []"
      | c where "c \<in> set cs" "filter (\<lambda>c. lower (fst c) = x) cs = [c]"
      using distinct_filter_single [of "\<lambda>c. lower (fst c)" cs x] by blast
    then show ?thesis
    proof cases
      case 1
      then show ?thesis using k(3) [of x] by (simp add: cs_def)
    next
      case (2 c)
      have "c \<in> set (filter (\<lambda>c. lower (fst c) = x) cs)" by (simp add: 2(2))
      then have "lower (fst c) = x" by simp
      moreover obtain y where "y \<in> set xs" "ri_address y = fst c" "ri_spentToday y + snd c \<le> rl_maxPerTargetPerDay p"
        using caps in_plans 2(1) unfolding within_caps_def by blast
      ultimately have "spent (kk_actions s) x + snd c \<le> rl_maxPerTargetPerDay p" using inputs(2) by (auto simp: spent_def)
      then show ?thesis using k(3) [of x] 2(2) by (simp add: cs_def)
    qed
  qed
  have "Funder_read funder \<in> set (kk_trace t)" using funder k(1) by simp
  with total each day show ?thesis
    unfolding run_ok_def Let_def calls p_def [symmetric] spent_def [symmetric] by blast
qed

text \<open>
  C33. A run of the refill spends within every cap of the policy, whatever the chain answers and whichever transfer fails. It calls for no
  transfer in a dry run; the transfers together stay within the cap of the run and leave the funder one USDC for its own gas;
  each goes to a key whose balance was read below the floor, and fills it to the target at most; and over the rows of the
  day the amount of no key passes its daily allowance, whatever of it was spent before the run.
\<close>

theorem refill_stays_within_caps:
  assumes "distinct (map (lower \<circ> rt_address) (ro_targets opts))" and "ids_below_next (kk_actions s)" and "kk_trace s = []"
  shows "run_ok opts env s (snd (refillOnce opts env s))"
proof -
  define G where "G = run_ok opts env s"
  define spent where "spent = spent_today (kd_network (ro_deps opts)) (rn_today env) (rn_updatedDay env) (kk_actions s)"
  have quiet: "G t" if "refill_calls (kk_trace t) = []" "kk_actions t = kk_actions s" for t
    using that by (simp add: G_def run_ok_none)
  have sending: "wp (case planRefills xs funder (ro_policy opts) of None \<Rightarrow> act_throw (Config_fault m)
       | Some plans \<Rightarrow> act_bind (refill_all opts env plans []) (\<lambda>sent. act_ret (plans, sent))) (\<lambda>_. G) (\<lambda>_. G) u"
    if u: "kk_actions u = kk_actions s" "kk_trace u = pre @ map balance_event xs" "refill_calls pre = []" "Funder_read funder \<in> set pre"
      and xs: "map ri_address xs = map rt_address (ro_targets opts)" "\<forall>x \<in> set xs. ri_spentToday x = spent (lower (ri_address x))"
    for xs u funder pre m
  proof (cases "planRefills xs funder (ro_policy opts)")
    case None
    then show ?thesis using u by (simp add: act_wp quiet)
  next
    case (Some plans)
    have "distinct (map lower (map ri_address xs))" using assms(1) unfolding xs(1) by (simp add: comp_def)
    then have dist: "distinct (map (lower \<circ> ri_address) xs)" by simp
    have "plans = plan_each (ro_policy opts) (rl_maxPerRun (ro_policy opts)) (if funder > USDC18 then funder - USDC18 else 0) (js_sort by_balance xs)"
      using Some by (auto simp: planRefills_def split: if_splits)
    then have pos: "\<forall>c \<in> set (topped plans). 0 < snd c"
      using plan_each_caps unfolding within_caps_def by blast
    have "G t" if "ran opts (topped plans) u t" for t
      unfolding G_def using dist _ _ _ _ Some that by (rule calls_run_ok) (use u xs(2) in \<open>auto simp: spent_def balance_event_def\<close>)
    moreover have "ids_below_next (kk_actions u)" using assms(2) u(1) by simp
    ultimately show ?thesis using Some
      by (simp add: act_wp) (rule wp_mono [OF refill_all_ran [OF _ pos]], auto)
  qed
  have reading: "wp (act_bind (read_balances env spent (ro_targets opts)) (\<lambda>xs.
       case planRefills xs funder (ro_policy opts) of None \<Rightarrow> act_throw (Config_fault m)
       | Some plans \<Rightarrow> act_bind (refill_all opts env plans []) (\<lambda>sent. act_ret (plans, sent)))) (\<lambda>_. G) (\<lambda>_. G) u"
    if "kk_actions u = kk_actions s" "refill_calls (kk_trace u) = []" "Funder_read funder \<in> set (kk_trace u)" for u funder m
    unfolding wp_bind using that by (intro wp_mono [OF read_balances_spec]) (auto intro: quiet sending)
  have body: "wp (refillOnce opts env) (\<lambda>_. G) (\<lambda>_. G) s"
    unfolding refillOnce_def wp_bind wp_if wp_ret using assms(3)
    by (auto simp: act_wp read_spent_def quiet spent_def [symmetric] intro!: wp_guard_in_flight_frame reading [unfolded wp_bind] simp del: wp_option split: sum.split option.split)
  show ?thesis using body by (simp add: wp_final G_def)
qed

definition sample_refill :: refill_options where
  "sample_refill = \<lparr>ro_deps = sample_deps, ro_targets = [\<lparr>rt_name = ''o'', rt_address = ''0x1''\<rparr>],
     ro_policy = \<lparr>rl_floor = 5, rl_target = 25, rl_maxPerRun = 100, rl_maxPerTargetPerDay = 7, rl_funderAlert = 100\<rparr>, ro_execute = True\<rparr>"

definition sample_refill_env :: refill_env where
  "sample_refill_env = \<lparr>rn_today = 1, rn_updatedDay = (\<lambda>_. 1), rn_sql = (\<lambda>_. None),
     rn_balance = (\<lambda>_ a. Inr (if a = ''0x1'' then 2 else 2 * USDC18)), rn_recovery = (\<lambda>_. \<lparr>re_started = 0, re_view = sample_wait_view, re_passes = 2\<rparr>), rn_call = sample_call\<rparr>"

theorem refill_stays_within_caps_witness:
  "refill_calls (kk_trace (snd (refillOnce sample_refill sample_refill_env new_keeper))) = [(''0x1'', 7)]
   \<and> run_ok sample_refill sample_refill_env new_keeper (snd (refillOnce sample_refill sample_refill_env new_keeper))"
proof
  show "refill_calls (kk_trace (snd (refillOnce sample_refill sample_refill_env new_keeper))) = [(''0x1'', 7)]" by code_simp
  show "run_ok sample_refill sample_refill_env new_keeper (snd (refillOnce sample_refill sample_refill_env new_keeper))"
    by (rule refill_stays_within_caps) (simp_all add: sample_refill_def ids_below_next_def new_keeper_def)
qed

end
