(* ===== verification/Backstop_Plan.thy ===== *)
theory Backstop_Plan
  imports Execution_Band Kryon_Math
begin

text \<open>
  The plan of the backstop unwinder, the pure part of \<open>client/lib/keepers/backstop.ts\<close>: the unwind band, the worst price
  a fill can be accepted at, the limit price, and the slices of one tick; and the checks of
  \<open>Insurance.onBackstopFill\<close> that every fill of such an order must pass. An absent entry of a map and a null are one: the code
  tests both alike.
\<close>

section \<open>Data\<close>

record unwind_limits =
  ul_maxDeviationBps :: int
  ul_maxFillNotional :: int
  ul_maxDailyNotional :: int
  ul_usedToday :: int

record backstop_position =
  bp_marketId :: int
  bp_size :: int

record open_unwind_order =
  ou_orderHash :: hex
  ou_marketId :: int
  ou_isLong :: bool
  ou_remaining :: int
  ou_limitPrice :: int
  ou_expiry :: int

record unwind_input =
  ui_positions :: "backstop_position list"
  ui_limits :: unwind_limits
  ui_index :: "int \<Rightarrow> int option"
  ui_minFillNotional :: "int \<Rightarrow> int option"
  ui_open :: "open_unwind_order list"
  ui_priceOffsetBps :: int
  ui_maxOrdersPerTick :: nat

record planned_slice =
  sl_marketId :: int
  sl_isLong :: bool
  sl_size :: int
  sl_limitPrice :: int
  sl_index :: int
  sl_worstNotional :: int

datatype unwind_skip = Order_open | Stale_index | No_budget | Below_min_notional | Not_configured | Tick_limit

record unwind_plan =
  up_slices :: "planned_slice list"
  up_skipped :: "(int \<times> unwind_skip) list"
  up_budget :: int

section \<open>Prices\<close>

definition ceilDiv :: "int \<Rightarrow> int \<Rightarrow> int" where
  "ceilDiv a b = (a + b - 1) sdiv b"

text \<open>The band: its low and its high edge.\<close>

definition unwindBand :: "int \<Rightarrow> int \<Rightarrow> int \<times> int" where
  "unwindBand index deviationBps = (let d = (index * deviationBps) sdiv BPS in (index - d, index + d))"

definition worstFillPrice :: "bool \<Rightarrow> int \<Rightarrow> int \<Rightarrow> int \<Rightarrow> int" where
  "worstFillPrice isLong limitPrice index deviationBps =
     (let high = snd (unwindBand index deviationBps) in if isLong then min limitPrice high else high)"

definition unwindLimitPrice :: "bool \<Rightarrow> int \<Rightarrow> int \<Rightarrow> int \<Rightarrow> int" where
  "unwindLimitPrice isLong index offsetBps deviationBps =
     (let off = (if offsetBps > deviationBps then deviationBps else if offsetBps < 0 then 0 else offsetBps);
          (low, high) = unwindBand index deviationBps;
          p = (if isLong then (index * (BPS + off)) sdiv BPS else ceilDiv (index * (BPS - off)) BPS)
      in if p < low then low else if p > high then high else p)"

section \<open>The plan\<close>

text \<open>What an open order is reserved at: its worst price at the index, or its limit with the band on top when there is none.\<close>

definition open_worst :: "unwind_limits \<Rightarrow> (int \<Rightarrow> int option) \<Rightarrow> open_unwind_order \<Rightarrow> int" where
  "open_worst limits index o' = (case index (ou_marketId o') of
     Some idx \<Rightarrow> if idx \<noteq> 0 then worstFillPrice (ou_isLong o') (ou_limitPrice o') idx (ul_maxDeviationBps limits)
        else (ou_limitPrice o' * (BPS + ul_maxDeviationBps limits)) sdiv BPS
   | None \<Rightarrow> (ou_limitPrice o' * (BPS + ul_maxDeviationBps limits)) sdiv BPS)"

definition reserved_for :: "unwind_limits \<Rightarrow> (int \<Rightarrow> int option) \<Rightarrow> open_unwind_order \<Rightarrow> int" where
  "reserved_for limits index o' = (ou_remaining o' * open_worst limits index o') sdiv E18 + 1"

definition unwind_budget :: "unwind_input \<Rightarrow> int" where
  "unwind_budget i = (let limits = ui_limits i;
       budget = ul_maxDailyNotional limits - ul_usedToday limits - sum_list (map (reserved_for limits (ui_index i)) (ui_open i))
     in if budget < 0 then 0 else budget)"

definition exposure :: "(int \<Rightarrow> int option) \<Rightarrow> backstop_position \<Rightarrow> int" where
  "exposure index p = (case index (bp_marketId p) of None \<Rightarrow> 0 | Some idx \<Rightarrow> \<bar>bp_size p\<bar> * idx)"

definition by_exposure :: "(int \<Rightarrow> int option) \<Rightarrow> backstop_position \<Rightarrow> backstop_position \<Rightarrow> int" where
  "by_exposure index a b = (let na = exposure index a; nb = exposure index b in
     if na = nb then bp_marketId a - bp_marketId b else if na > nb then -1 else 1)"

definition skip_market :: "int \<Rightarrow> unwind_skip \<Rightarrow> unwind_plan \<Rightarrow> unwind_plan" where
  "skip_market m r plan = plan\<lparr>up_skipped := up_skipped plan @ [(m, r)]\<rparr>"

text \<open>One held position: the plan so far and the budget left.\<close>

definition plan_position :: "unwind_input \<Rightarrow> backstop_position \<Rightarrow> unwind_plan \<times> int \<Rightarrow> unwind_plan \<times> int" where
  "plan_position i p st = (let (plan, budget) = st; m = bp_marketId p; limits = ui_limits i in
     if m \<in> ou_marketId ` set (ui_open i) then (skip_market m Order_open plan, budget)
     else case ui_index i m of None \<Rightarrow> (skip_market m Stale_index plan, budget) | Some idx \<Rightarrow>
     if idx \<le> 0 then (skip_market m Stale_index plan, budget)
     else case ui_minFillNotional i m of None \<Rightarrow> (skip_market m Not_configured plan, budget) | Some minNotional \<Rightarrow>
     if length (up_slices plan) \<ge> ui_maxOrdersPerTick i then (skip_market m Tick_limit plan, budget)
     else
       let isLong = bp_size p < 0;
           limitPrice = unwindLimitPrice isLong idx (ui_priceOffsetBps i) (ul_maxDeviationBps limits);
           worst = worstFillPrice isLong limitPrice idx (ul_maxDeviationBps limits);
           cap = min (ul_maxFillNotional limits) budget in
       if cap \<le> 0 then (skip_market m No_budget plan, budget)
       else
         let sz = min \<bar>bp_size p\<bar> ((cap * E18) sdiv worst); worstNotional = (sz * worst) sdiv E18 in
         if sz = 0 \<or> (sz * limitPrice) sdiv E18 < minNotional
         then (skip_market m (if sz < \<bar>bp_size p\<bar> then No_budget else Below_min_notional) plan, budget)
         else (plan\<lparr>up_slices := up_slices plan @ [\<lparr>sl_marketId = m, sl_isLong = isLong, sl_size = sz,
                  sl_limitPrice = limitPrice, sl_index = idx, sl_worstNotional = worstNotional\<rparr>]\<rparr>, budget - (worstNotional + 1)))"

definition planUnwind :: "unwind_input \<Rightarrow> unwind_plan" where
  "planUnwind i = fst (fold (plan_position i)
     (js_sort (by_exposure (ui_index i)) (filter (\<lambda>p. bp_size p \<noteq> 0) (ui_positions i)))
     (\<lparr>up_slices = [], up_skipped = [], up_budget = unwind_budget i\<rparr>, unwind_budget i))"

section \<open>The contract\<close>

text \<open>
  \<open>Insurance.onBackstopFill\<close> after the check of its caller: the notional unwound on the day so far, and the new one or the
  error. The bounds of \<open>KryonMath\<close> at 128 bits are left out: prices and sizes here are far below.
\<close>

datatype unwind_revert = BackstopUnwindDisabled | PriceOutsideBand | BackstopLimitExceeded

definition on_backstop_fill :: "unwind_limits \<Rightarrow> int \<Rightarrow> int \<Rightarrow> int \<Rightarrow> int \<Rightarrow> unwind_revert + int" where
  "on_backstop_fill limits index sz price used =
     (if ul_maxDeviationBps limits = 0 then Inl BackstopUnwindDisabled
      else if \<bar>price - index\<bar> > (index * ul_maxDeviationBps limits) sdiv BPS then Inl PriceOutsideBand
      else let n = (sz * price) sdiv E18 in
        if n > ul_maxFillNotional limits then Inl BackstopLimitExceeded
        else if used + n > ul_maxDailyNotional limits then Inl BackstopLimitExceeded
        else Inr (used + n))"

fun on_backstop_fills :: "unwind_limits \<Rightarrow> (int \<times> int \<times> int) list \<Rightarrow> int \<Rightarrow> unwind_revert + int" where
  "on_backstop_fills limits [] used = Inr used"
| "on_backstop_fills limits ((index, sz, price) # fs) used = (case on_backstop_fill limits index sz price used of
     Inl e \<Rightarrow> Inl e | Inr used' \<Rightarrow> on_backstop_fills limits fs used')"

section \<open>The slices\<close>

lemma band_around:
  assumes "0 < idx" and "0 \<le> dev" and "unwindBand idx dev = (low, high)"
  shows "low \<le> idx" "idx \<le> high"
  using assms sdiv_ge_0 [of "idx * dev" BPS] by (auto simp: unwindBand_def Let_def)

lemma limit_in_band:
  assumes "0 < idx" and "0 \<le> dev" and "unwindBand idx dev = (low, high)"
  shows "low \<le> unwindLimitPrice isLong idx off dev" "unwindLimitPrice isLong idx off dev \<le> high"
  using band_around [OF assms] assms(3) by (auto simp: unwindLimitPrice_def Let_def)

lemma buy_limit_pos:
  assumes "0 < idx" and "0 \<le> dev"
  shows "0 < unwindLimitPrice True idx off dev"
proof -
  obtain low high where band: "unwindBand idx dev = (low, high)" by fastforce
  define o' where "o' = (if off > dev then dev else if off < 0 then 0 else off)"
  have "0 \<le> o'" using assms(2) by (simp add: o'_def)
  then have "idx * BPS sdiv BPS \<le> (idx * (BPS + o')) sdiv BPS"
    using assms(1) by (intro sdiv_mono) (simp_all add: algebra_simps)
  then have "idx \<le> (idx * (BPS + o')) sdiv BPS" using assms(1) by (simp add: BPS_def sdiv_nonneg)
  then show ?thesis
    using band_around [OF assms band] assms(1) band by (auto simp: unwindLimitPrice_def Let_def o'_def)
qed

lemma worst_pos:
  assumes "0 < idx" and "0 \<le> dev"
  shows "0 < worstFillPrice isLong (unwindLimitPrice isLong idx off dev) idx dev"
proof -
  obtain low high where band: "unwindBand idx dev = (low, high)" by fastforce
  then show ?thesis
    using band_around [OF assms band] buy_limit_pos [OF assms, of off] assms(1)
    by (cases isLong) (auto simp: worstFillPrice_def Let_def)
qed

text \<open>What a slice is, with respect to the input it was planned from.\<close>

definition slice_ok :: "unwind_input \<Rightarrow> planned_slice \<Rightarrow> bool" where
  "slice_ok i s \<longleftrightarrow> (\<exists>p \<in> set (ui_positions i). bp_marketId p = sl_marketId s \<and> bp_size p \<noteq> 0
       \<and> sl_isLong s = (bp_size p < 0) \<and> 0 < sl_size s \<and> sl_size s \<le> \<bar>bp_size p\<bar>)
     \<and> sl_marketId s \<notin> ou_marketId ` set (ui_open i)
     \<and> ui_index i (sl_marketId s) = Some (sl_index s) \<and> 0 < sl_index s
     \<and> fst (unwindBand (sl_index s) (ul_maxDeviationBps (ui_limits i))) \<le> sl_limitPrice s
     \<and> sl_limitPrice s \<le> snd (unwindBand (sl_index s) (ul_maxDeviationBps (ui_limits i)))
     \<and> (\<exists>m. ui_minFillNotional i (sl_marketId s) = Some m \<and> m \<le> (sl_size s * sl_limitPrice s) sdiv E18)
     \<and> sl_worstNotional s = (sl_size s * worstFillPrice (sl_isLong s) (sl_limitPrice s) (sl_index s) (ul_maxDeviationBps (ui_limits i))) sdiv E18
     \<and> 0 < worstFillPrice (sl_isLong s) (sl_limitPrice s) (sl_index s) (ul_maxDeviationBps (ui_limits i))
     \<and> sl_worstNotional s \<le> ul_maxFillNotional (ui_limits i)"

definition plan_ok :: "unwind_input \<Rightarrow> unwind_plan \<times> int \<Rightarrow> bool" where
  "plan_ok i st \<longleftrightarrow> (\<forall>s \<in> set (up_slices (fst st)). slice_ok i s) \<and> length (up_slices (fst st)) \<le> ui_maxOrdersPerTick i
     \<and> sum_list (map (\<lambda>s. sl_worstNotional s + 1) (up_slices (fst st))) = unwind_budget i - snd st \<and> -1 \<le> snd st
     \<and> (up_slices (fst st) \<noteq> [] \<longrightarrow> 0 < unwind_budget i)"

lemma plan_ok_budget: "plan_ok i (plan, b) \<Longrightarrow> b \<le> unwind_budget i"
proof -
  assume ok: "plan_ok i (plan, b)"
  have "0 \<le> sl_worstNotional s + 1" if "slice_ok i s" for s
    using that by (auto simp: slice_ok_def intro!: add_nonneg_nonneg sdiv_ge_0)
  then have "0 \<le> sum_list (map (\<lambda>s. sl_worstNotional s + 1) (up_slices plan))"
    using ok by (intro sum_list_nonneg) (auto simp: plan_ok_def)
  then show ?thesis using ok by (simp add: plan_ok_def)
qed

lemma floor_fits:
  assumes "0 < worst" and "0 \<le> cap" and "sz \<le> (cap * E18) sdiv worst" and "0 \<le> sz"
  shows "(sz * worst) sdiv E18 \<le> cap"
proof -
  have "sz * worst \<le> (cap * E18) sdiv worst * worst" using assms by (intro mult_right_mono) auto
  also have "\<dots> \<le> cap * E18" using sdiv_mult_le [of "cap * E18" worst] assms by simp
  finally have "(sz * worst) sdiv E18 \<le> (cap * E18) sdiv E18" using assms by (intro sdiv_mono) auto
  moreover have "(cap * E18) sdiv E18 = cap" using assms(2) by (simp add: sdiv_nonneg E18_def)
  ultimately show ?thesis by simp
qed

lemma plan_ok_skip: "plan_ok i (plan, b) \<Longrightarrow> plan_ok i (skip_market m r plan, b)"
  by (simp add: plan_ok_def skip_market_def)

lemma plan_position_ok:
  assumes st: "plan_ok i st" and p: "p \<in> set (ui_positions i)" "bp_size p \<noteq> 0" and dev: "0 \<le> ul_maxDeviationBps (ui_limits i)"
  shows "plan_ok i (plan_position i p st)"
proof -
  obtain plan budget where s: "st = (plan, budget)" by fastforce
  let ?m = "bp_marketId p" and ?dev = "ul_maxDeviationBps (ui_limits i)"
  show ?thesis
  proof (cases "?m \<notin> ou_marketId ` set (ui_open i) \<and> (\<exists>idx m. ui_index i ?m = Some idx \<and> 0 < idx \<and> ui_minFillNotional i ?m = Some m)
      \<and> length (up_slices plan) < ui_maxOrdersPerTick i")
    case False
    have skips: "plan_ok i (skip_market ?m r plan, budget)" for r using st by (simp add: s plan_ok_skip)
    show ?thesis
    proof (cases "?m \<in> ou_marketId ` set (ui_open i)")
      case True
      then show ?thesis by (simp add: plan_position_def s Let_def skips)
    next
      case closed: False
      show ?thesis
      proof (cases "ui_index i ?m")
        case None
        then show ?thesis using closed by (simp add: plan_position_def s Let_def skips)
      next
        case (Some idx)
        then show ?thesis using closed False
          by (cases "ui_minFillNotional i ?m"; cases "idx \<le> 0") (simp_all add: plan_position_def s Let_def skips)
      qed
    qed
  next
    case True
    then obtain idx m where here: "?m \<notin> ou_marketId ` set (ui_open i)" "ui_index i ?m = Some idx" "0 < idx" "ui_minFillNotional i ?m = Some m"
      "length (up_slices plan) < ui_maxOrdersPerTick i" by blast
    define isLong limit worst cap sz where "isLong = (bp_size p < 0)" and "limit = unwindLimitPrice isLong idx (ui_priceOffsetBps i) ?dev"
      and "worst = worstFillPrice isLong limit idx ?dev" and "cap = min (ul_maxFillNotional (ui_limits i)) budget"
      and "sz = min \<bar>bp_size p\<bar> ((cap * E18) sdiv worst)"
    define new where "new = \<lparr>sl_marketId = ?m, sl_isLong = isLong, sl_size = sz, sl_limitPrice = limit, sl_index = idx,
       sl_worstNotional = (sz * worst) sdiv E18\<rparr>"
    have step: "plan_position i p st = (if cap \<le> 0 then (skip_market ?m No_budget plan, budget)
        else if sz = 0 \<or> (sz * limit) sdiv E18 < m then (skip_market ?m (if sz < \<bar>bp_size p\<bar> then No_budget else Below_min_notional) plan, budget)
        else (plan\<lparr>up_slices := up_slices plan @ [new]\<rparr>, budget - ((sz * worst) sdiv E18 + 1)))"
      using here unfolding new_def sz_def cap_def worst_def limit_def isLong_def by (simp add: plan_position_def s Let_def)
    show ?thesis
    proof (cases "cap \<le> 0 \<or> sz = 0 \<or> (sz * limit) sdiv E18 < m")
      case True
      then show ?thesis using st unfolding step by (auto simp: s plan_ok_skip)
    next
      case False
      have worst: "0 < worst" unfolding worst_def limit_def by (rule worst_pos [OF here(3) dev])
      have "0 \<le> (cap * E18) sdiv worst" using worst False by (intro sdiv_ge_0) simp_all
      then have sz: "0 \<le> sz" "sz \<le> (cap * E18) sdiv worst" "sz \<le> \<bar>bp_size p\<bar>" by (auto simp: sz_def)
      have fits: "(sz * worst) sdiv E18 \<le> cap" using worst sz False by (intro floor_fits) simp_all
      obtain low high where band: "unwindBand idx ?dev = (low, high)" by fastforce
      have "low \<le> limit" "limit \<le> high" unfolding limit_def using limit_in_band [OF here(3) dev band] by auto
      then have "slice_ok i new"
        using here p sz False fits worst band unfolding slice_ok_def new_def worst_def [symmetric]
        by (auto simp: isLong_def [symmetric] worst_def [symmetric] cap_def intro!: bexI [of _ p])
      moreover have "sum_list (map (\<lambda>s. sl_worstNotional s + 1) (up_slices plan @ [new])) = unwind_budget i - (budget - ((sz * worst) sdiv E18 + 1))"
        using st by (simp add: plan_ok_def s new_def)
      moreover have "0 < unwind_budget i" using plan_ok_budget st False unfolding s cap_def by fastforce
      ultimately show ?thesis
        using st False fits here(5) unfolding step by (auto simp: plan_ok_def s cap_def)
    qed
  qed
qed

lemma planUnwind_ok:
  assumes "0 \<le> ul_maxDeviationBps (ui_limits i)"
  shows "\<exists>b. plan_ok i (planUnwind i, b)"
proof -
  have "plan_ok i (fold (plan_position i) ps st)" if "plan_ok i st" and "\<forall>p \<in> set ps. p \<in> set (ui_positions i) \<and> bp_size p \<noteq> 0" for ps st
    using that
  proof (induction ps arbitrary: st)
    case (Cons p ps)
    have "plan_ok i (plan_position i p st)" using Cons.prems by (intro plan_position_ok [OF _ _ _ assms]) simp_all
    then show ?case using Cons by simp
  qed simp
  from this [of "(\<lparr>up_slices = [], up_skipped = [], up_budget = unwind_budget i\<rparr>, unwind_budget i)"
      "js_sort (by_exposure (ui_index i)) (filter (\<lambda>p. bp_size p \<noteq> 0) (ui_positions i))"]
  have "plan_ok i (fold (plan_position i) (js_sort (by_exposure (ui_index i)) (filter (\<lambda>p. bp_size p \<noteq> 0) (ui_positions i)))
      (\<lparr>up_slices = [], up_skipped = [], up_budget = unwind_budget i\<rparr>, unwind_budget i))"
    by (auto simp: plan_ok_def unwind_budget_def Let_def)
  then show ?thesis unfolding planUnwind_def by (metis prod.collapse)
qed

section \<open>What is planned fits the contract\<close>

text \<open>
  An order of the backstop, open or just planned: its side, what is left of it, its limit, and the index it was priced at. A fill of
  it names the index, a size and a price; it respects the limit of a buy, and lies in the band.
\<close>

record unwind_order =
  wo_isLong :: bool
  wo_size :: int
  wo_limitPrice :: int
  wo_index :: "int option"

definition unwind_orders :: "unwind_input \<Rightarrow> unwind_plan \<Rightarrow> unwind_order list" where
  "unwind_orders i plan =
     map (\<lambda>o'. \<lparr>wo_isLong = ou_isLong o', wo_size = ou_remaining o', wo_limitPrice = ou_limitPrice o', wo_index = ui_index i (ou_marketId o')\<rparr>)
        (ui_open i)
   @ map (\<lambda>s. \<lparr>wo_isLong = sl_isLong s, wo_size = sl_size s, wo_limitPrice = sl_limitPrice s, wo_index = Some (sl_index s)\<rparr>) (up_slices plan)"

type_synonym unwind_fill = "int \<times> int \<times> int"

definition fill_notional :: "unwind_fill \<Rightarrow> int" where
  "fill_notional f = (case f of (index, sz, price) \<Rightarrow> (sz * price) sdiv E18)"

lemma fill_notional_eq [simp]: "fill_notional (index, sz, price) = (sz * price) sdiv E18"
  by (simp add: fill_notional_def)

definition fill_of :: "unwind_limits \<Rightarrow> unwind_order \<Rightarrow> unwind_fill \<Rightarrow> bool" where
  "fill_of limits o' f = (case f of (index, sz, price) \<Rightarrow> wo_index o' = Some index \<and> 0 < index \<and> 0 \<le> sz \<and> 0 \<le> price
     \<and> (wo_isLong o' \<longrightarrow> price \<le> wo_limitPrice o') \<and> \<bar>price - index\<bar> \<le> (index * ul_maxDeviationBps limits) sdiv BPS)"

definition fills_of :: "nat \<Rightarrow> (nat \<times> unwind_fill) list \<Rightarrow> unwind_fill list" where
  "fills_of k fs = map snd (filter (\<lambda>f. fst f = k) fs)"

definition filled_size :: "unwind_fill list \<Rightarrow> int" where
  "filled_size fs = sum_list (map (\<lambda>(index, sz, price). sz) fs)"

definition order_worst :: "unwind_limits \<Rightarrow> unwind_order \<Rightarrow> int" where
  "order_worst limits o' = (case wo_index o' of None \<Rightarrow> 0
     | Some idx \<Rightarrow> worstFillPrice (wo_isLong o') (wo_limitPrice o') idx (ul_maxDeviationBps limits))"

lemma fill_price_worst: "fill_of limits o' (index, sz, price) \<Longrightarrow> price \<le> order_worst limits o'"
  by (auto simp: fill_of_def order_worst_def worstFillPrice_def unwindBand_def Let_def)

lemma sdiv_add_le: "0 \<le> a \<Longrightarrow> 0 \<le> b \<Longrightarrow> a sdiv E18 + b sdiv E18 \<le> (a + b) sdiv E18"
  by (simp add: sdiv_nonneg div_add1_eq [of a b E18] pos_imp_zdiv_nonneg_iff)

lemma order_notional:
  assumes "\<forall>f \<in> set fs. fill_of limits o' f"
  shows "0 \<le> sum_list (map fill_notional fs) \<and> 0 \<le> filled_size fs
    \<and> (fs \<noteq> [] \<longrightarrow> sum_list (map fill_notional fs) \<le> (filled_size fs * order_worst limits o') sdiv E18)"
  using assms
proof (induction fs)
  case (Cons f fs)
  obtain index sz price where f: "f = (index, sz, price)" by (cases f) auto
  have here: "fill_of limits o' (index, sz, price)" using Cons.prems f by simp
  then have pos: "0 \<le> sz" "0 \<le> price" by (auto simp: fill_of_def)
  have worst: "price \<le> order_worst limits o'" by (rule fill_price_worst [OF here])
  have IH: "0 \<le> sum_list (map fill_notional fs)" "0 \<le> filled_size fs"
    "fs \<noteq> [] \<longrightarrow> sum_list (map fill_notional fs) \<le> (filled_size fs * order_worst limits o') sdiv E18"
    using Cons by auto
  have one: "(sz * price) sdiv E18 \<le> (sz * order_worst limits o') sdiv E18"
    using pos worst by (intro sdiv_mono mult_left_mono) auto
  have "0 \<le> filled_size fs * order_worst limits o'" "0 \<le> sz * order_worst limits o'" using pos worst IH(2) by auto
  then have "(sz * order_worst limits o') sdiv E18 + (filled_size fs * order_worst limits o') sdiv E18
      \<le> ((sz + filled_size fs) * order_worst limits o') sdiv E18"
    using sdiv_add_le [of "sz * order_worst limits o'" "filled_size fs * order_worst limits o'"] by (simp add: distrib_right)
  moreover have "0 \<le> (sz * price) sdiv E18" using pos by (intro sdiv_ge_0) auto
  moreover have "filled_size (f # fs) = sz + filled_size fs" by (simp add: f filled_size_def)
  moreover have "sum_list (map fill_notional fs) \<le> (filled_size fs * order_worst limits o') sdiv E18" if "fs \<noteq> []" using IH(3) that by simp
  moreover have "0 \<le> (filled_size fs * order_worst limits o') sdiv E18" using \<open>0 \<le> filled_size fs * order_worst limits o'\<close> by (intro sdiv_ge_0) auto
  ultimately show ?case using IH(1,2) one pos by (cases "fs = []") (auto simp: f)
qed (simp add: filled_size_def)

lemma sum_by_order:
  fixes g :: "unwind_fill \<Rightarrow> int"
  shows "\<forall>f \<in> set fs. fst f < n \<Longrightarrow> sum_list (map (g \<circ> snd) fs) = (\<Sum>k < n. sum_list (map g (fills_of k fs)))"
proof (induction fs)
  case (Cons f fs)
  have "(\<Sum>k < n. sum_list (map g (fills_of k (f # fs)))) = (\<Sum>k < n. (if k = fst f then g (snd f) else 0) + sum_list (map g (fills_of k fs)))"
    by (intro sum.cong refl) (auto simp: fills_of_def)
  also have "\<dots> = g (snd f) + (\<Sum>k < n. sum_list (map g (fills_of k fs)))"
    using Cons.prems by (simp add: sum.distrib sum.delta)
  finally show ?case using Cons by simp
qed (simp add: fills_of_def)

lemma contract_accepts:
  assumes "\<forall>f \<in> set fs. 0 \<le> fill_notional f \<and> fill_notional f \<le> ul_maxFillNotional limits
       \<and> (\<exists>o'. fill_of limits o' f)"
    and "used + sum_list (map fill_notional fs) \<le> ul_maxDailyNotional limits" and "ul_maxDeviationBps limits \<noteq> 0"
  shows "on_backstop_fills limits fs used = Inr (used + sum_list (map fill_notional fs))"
  using assms(1,2)
proof (induction fs arbitrary: used)
  case (Cons f fs)
  obtain index sz price where f: "f = (index, sz, price)" by (cases f) auto
  have "0 \<le> sum_list (map fill_notional fs)" using Cons.prems(1) by (intro sum_list_nonneg) auto
  then have "on_backstop_fill limits index sz price used = Inr (used + fill_notional f)"
    using Cons.prems assms(3) by (auto simp: on_backstop_fill_def f fill_of_def Let_def)
  then show ?case using Cons by (simp add: f add.assoc)
qed simp

definition order_caps :: "unwind_input \<Rightarrow> unwind_plan \<Rightarrow> int list" where
  "order_caps i plan = map (reserved_for (ui_limits i) (ui_index i)) (ui_open i) @ map sl_worstNotional (up_slices plan)"

lemma length_order_caps [simp]: "length (order_caps i plan) = length (unwind_orders i plan)"
  by (simp add: order_caps_def unwind_orders_def)

definition open_ok :: "unwind_input \<Rightarrow> bool" where
  "open_ok i \<longleftrightarrow> (\<forall>o' \<in> set (ui_open i). 0 \<le> ou_remaining o' \<and> 0 \<le> ou_limitPrice o'
     \<and> (case ui_index i (ou_marketId o') of None \<Rightarrow> True | Some idx \<Rightarrow> 0 \<le> idx))"

lemma reserved_nonneg:
  assumes "open_ok i" and "0 \<le> ul_maxDeviationBps (ui_limits i)" and "o' \<in> set (ui_open i)"
  shows "0 \<le> reserved_for (ui_limits i) (ui_index i) o'"
proof -
  have ok: "0 \<le> ou_remaining o'" "0 \<le> ou_limitPrice o'" "\<And>idx. ui_index i (ou_marketId o') = Some idx \<Longrightarrow> 0 \<le> idx"
    using assms(1,3) by (auto simp: open_ok_def split: option.splits)
  have "0 \<le> worstFillPrice (ou_isLong o') (ou_limitPrice o') idx (ul_maxDeviationBps (ui_limits i))" if "0 \<le> idx" for idx
    using that ok(2) assms(2) by (auto simp: worstFillPrice_def unwindBand_def Let_def intro!: add_nonneg_nonneg sdiv_ge_0)
  moreover have "0 \<le> (ou_limitPrice o' * (BPS + ul_maxDeviationBps (ui_limits i))) sdiv BPS"
    using ok(2) assms(2) by (intro sdiv_ge_0) auto
  ultimately have "0 \<le> open_worst (ui_limits i) (ui_index i) o'" using ok(3) by (auto simp: open_worst_def split: option.splits)
  then show ?thesis using ok(1) unfolding reserved_for_def by (intro add_nonneg_nonneg sdiv_ge_0) auto
qed

lemma fills_within_cap:
  assumes k: "k < length (unwind_orders i plan)" and plan: "\<forall>s \<in> set (up_slices plan). slice_ok i s"
    and ok: "open_ok i" "0 \<le> ul_maxDeviationBps (ui_limits i)"
    and fills: "\<forall>f \<in> set fs. fill_of (ui_limits i) (unwind_orders i plan ! k) f"
    and sz: "filled_size fs \<le> wo_size (unwind_orders i plan ! k)"
  shows "sum_list (map fill_notional fs) \<le> order_caps i plan ! k"
proof -
  let ?o = "unwind_orders i plan ! k" and ?L = "length (ui_open i)"
  have caps: "order_caps i plan ! k \<ge> 0 \<and> (fs \<noteq> [] \<longrightarrow> (wo_size ?o * order_worst (ui_limits i) ?o) sdiv E18 \<le> order_caps i plan ! k)"
  proof (cases "k < ?L")
    case True
    then have o': "ui_open i ! k \<in> set (ui_open i)" by simp
    have "?o = \<lparr>wo_isLong = ou_isLong (ui_open i ! k), wo_size = ou_remaining (ui_open i ! k), wo_limitPrice = ou_limitPrice (ui_open i ! k),
        wo_index = ui_index i (ou_marketId (ui_open i ! k))\<rparr>" using True by (simp add: unwind_orders_def nth_append)
    moreover have "\<exists>idx. wo_index ?o = Some idx \<and> 0 < idx" if "fs \<noteq> []"
      using that fills by (cases fs) (auto simp: fill_of_def)
    ultimately show ?thesis
      using True reserved_nonneg [OF ok o'] by (auto simp: order_caps_def nth_append reserved_for_def open_worst_def order_worst_def)
  next
    case False
    define s where "s = up_slices plan ! (k - ?L)"
    have s: "s \<in> set (up_slices plan)" using k False by (auto simp: s_def unwind_orders_def intro!: nth_mem)
    then have "slice_ok i s" using plan by blast
    moreover have "?o = \<lparr>wo_isLong = sl_isLong s, wo_size = sl_size s, wo_limitPrice = sl_limitPrice s, wo_index = Some (sl_index s)\<rparr>"
      "order_caps i plan ! k = sl_worstNotional s"
      using k False by (auto simp: unwind_orders_def order_caps_def nth_append s_def)
    ultimately show ?thesis by (auto simp: slice_ok_def order_worst_def intro!: sdiv_ge_0)
  qed
  show ?thesis
  proof (cases "fs = []")
    case True
    then show ?thesis using caps by simp
  next
    case False
    then obtain index q price where "fill_of (ui_limits i) ?o (index, q, price)" using fills by (cases fs) auto
    then have "0 \<le> order_worst (ui_limits i) ?o" using fill_price_worst by (fastforce simp: fill_of_def)
    then have "(filled_size fs * order_worst (ui_limits i) ?o) sdiv E18 \<le> (wo_size ?o * order_worst (ui_limits i) ?o) sdiv E18"
      using sz order_notional [OF fills] by (intro sdiv_mono mult_right_mono) auto
    then show ?thesis using order_notional [OF fills] caps False by auto
  qed
qed

lemma elem_le_sum: "(x :: int) \<in> set xs \<Longrightarrow> \<forall>y \<in> set xs. 0 \<le> y \<Longrightarrow> x \<le> sum_list xs"
proof (induction xs)
  case (Cons y ys)
  then have "0 \<le> sum_list ys" by (intro sum_list_nonneg) auto
  with Cons show ?case by auto
qed simp

text \<open>
  C34. What the unwinder plans, the contract takes. Every slice of a plan closes part of a position that Insurance holds, is priced inside
  the band and worth the minimum at its limit; and with the index as it was read, the orders that were open and the new slices
  together can be filled in any sequence of partial fills, at any price their limits and the band allow, without
  the contract ever refusing one for a cap, as long as no fill of an older order is over the cap of one fill.
\<close>

theorem planned_unwinds_fit_the_contract:
  assumes dev: "0 < ul_maxDeviationBps (ui_limits i)" and plan: "plan = planUnwind i" "up_slices plan \<noteq> []" and ok: "open_ok i"
    and fills: "\<forall>(k, f) \<in> set fs. k < length (unwind_orders i plan) \<and> fill_of (ui_limits i) (unwind_orders i plan ! k) f
        \<and> (k < length (ui_open i) \<longrightarrow> fill_notional f \<le> ul_maxFillNotional (ui_limits i))"
    and sizes: "\<forall>k < length (unwind_orders i plan). filled_size (fills_of k fs) \<le> wo_size (unwind_orders i plan ! k)"
  shows "(\<forall>s \<in> set (up_slices plan). slice_ok i s) \<and> length (up_slices plan) \<le> ui_maxOrdersPerTick i
    \<and> on_backstop_fills (ui_limits i) (map snd fs) (ul_usedToday (ui_limits i))
        = Inr (ul_usedToday (ui_limits i) + sum_list (map fill_notional (map snd fs)))"
proof -
  let ?os = "unwind_orders i plan" and ?lim = "ui_limits i"
  obtain b where inv: "plan_ok i (plan, b)" using planUnwind_ok [of i] dev plan(1) by auto
  then have slices: "\<forall>s \<in> set (up_slices plan). slice_ok i s" "length (up_slices plan) \<le> ui_maxOrdersPerTick i" by (auto simp: plan_ok_def)
  have of_order: "\<forall>f \<in> set (fills_of k fs). fill_of ?lim (?os ! k) f" for k using fills by (auto simp: fills_of_def)
  have cap: "sum_list (map fill_notional (fills_of k fs)) \<le> order_caps i plan ! k" if "k < length ?os" for k
    using that dev sizes by (intro fills_within_cap [OF _ slices(1) ok _ of_order]) auto
  have "sum_list (map fill_notional (map snd fs)) = (\<Sum>k < length ?os. sum_list (map fill_notional (fills_of k fs)))"
    using sum_by_order [of fs "length ?os" fill_notional] fills by fastforce
  also have "\<dots> \<le> (\<Sum>k < length ?os. order_caps i plan ! k)" by (rule sum_mono) (simp add: cap)
  also have "\<dots> = sum_list (order_caps i plan)" by (simp add: sum_list_sum_nth atLeast0LessThan)
  finally have total: "sum_list (map fill_notional (map snd fs)) \<le> sum_list (map (reserved_for ?lim (ui_index i)) (ui_open i))
     + sum_list (map sl_worstNotional (up_slices plan))" by (simp add: order_caps_def)
  have plus_one: "sum_list (map (\<lambda>s. sl_worstNotional s + 1) ss) = sum_list (map sl_worstNotional ss) + int (length ss)" for ss
    by (induction ss) auto
  have worst_nonneg: "0 \<le> sum_list (map sl_worstNotional (up_slices plan))"
    using slices(1) by (intro sum_list_nonneg) (auto simp: slice_ok_def intro!: sdiv_ge_0)
  have "sum_list (map sl_worstNotional (up_slices plan)) + int (length (up_slices plan)) \<le> unwind_budget i + 1"
    using inv by (simp add: plan_ok_def plus_one)
  moreover have "1 \<le> int (length (up_slices plan))" using plan(2) by (cases "up_slices plan") auto
  moreover have "0 < unwind_budget i" using inv plan(2) by (simp add: plan_ok_def)
  ultimately have daily: "ul_usedToday ?lim + sum_list (map fill_notional (map snd fs)) \<le> ul_maxDailyNotional ?lim"
    using total by (auto simp: unwind_budget_def Let_def split: if_splits)
  have "0 \<le> fill_notional f \<and> fill_notional f \<le> ul_maxFillNotional ?lim \<and> (\<exists>o'. fill_of ?lim o' f)" if "f \<in> set (map snd fs)" for f
  proof -
    from that obtain k where k: "(k, f) \<in> set fs" by auto
    then have f: "k < length ?os" "fill_of ?lim (?os ! k) f" "k < length (ui_open i) \<longrightarrow> fill_notional f \<le> ul_maxFillNotional ?lim"
      using fills by auto
    have nonneg: "0 \<le> fill_notional g" if "fill_of ?lim o' g" for g o' using that by (auto simp: fill_of_def fill_notional_def intro!: sdiv_ge_0)
    have "fill_notional f \<le> ul_maxFillNotional ?lim"
    proof (cases "k < length (ui_open i)")
      case False
      have "f \<in> set (fills_of k fs)" using k by (force simp: fills_of_def)
      then have "fill_notional f \<le> sum_list (map fill_notional (fills_of k fs))"
        using of_order [of k] nonneg by (intro elem_le_sum) auto
      also have "\<dots> \<le> order_caps i plan ! k" by (rule cap [OF f(1)])
      also have "\<dots> = sl_worstNotional (up_slices plan ! (k - length (ui_open i)))"
        using False f(1) by (simp add: order_caps_def unwind_orders_def nth_append)
      also have "\<dots> \<le> ul_maxFillNotional ?lim"
      proof -
        have "up_slices plan ! (k - length (ui_open i)) \<in> set (up_slices plan)"
          using False f(1) by (intro nth_mem) (auto simp: unwind_orders_def)
        then show ?thesis using slices(1) unfolding slice_ok_def by blast
      qed
      finally show ?thesis .
    qed (use f(3) in simp)
    then show ?thesis using f(2) nonneg by blast
  qed
  then have "on_backstop_fills ?lim (map snd fs) (ul_usedToday ?lim) = Inr (ul_usedToday ?lim + sum_list (map fill_notional (map snd fs)))"
    using daily dev by (intro contract_accepts) auto
  with slices show ?thesis by blast
qed

definition sample_unwind :: unwind_input where
  "sample_unwind = \<lparr>ui_positions = [\<lparr>bp_marketId = 1, bp_size = 5 * E18\<rparr>, \<lparr>bp_marketId = 2, bp_size = - 9 * E18\<rparr>],
     ui_limits = \<lparr>ul_maxDeviationBps = 100, ul_maxFillNotional = 300, ul_maxDailyNotional = 1000, ul_usedToday = 10\<rparr>,
     ui_index = (\<lambda>m. Some 100), ui_minFillNotional = (\<lambda>m. Some 1),
     ui_open = [\<lparr>ou_orderHash = ''h'', ou_marketId = 1, ou_isLong = False, ou_remaining = 5 * E18, ou_limitPrice = 99, ou_expiry = 9\<rparr>],
     ui_priceOffsetBps = 25, ui_maxOrdersPerTick = 4\<rparr>"

theorem planned_unwinds_fit_the_contract_witness:
  "on_backstop_fills (ui_limits sample_unwind) [(100, E18, 101), (100, 2 * E18, 100)] 10 = Inr (10 + (101 + 200))"
proof -
  let ?fs = "[(0, 100, E18, 101), (1, 100, 2 * E18, 100)] :: (nat \<times> unwind_fill) list"
  have orders: "unwind_orders sample_unwind (planUnwind sample_unwind)
      = [\<lparr>wo_isLong = False, wo_size = 5 * E18, wo_limitPrice = 99, wo_index = Some 100\<rparr>,
         \<lparr>wo_isLong = True, wo_size = 3 * E18, wo_limitPrice = 100, wo_index = Some 100\<rparr>]"
    by code_simp
  have "on_backstop_fills (ui_limits sample_unwind) (map snd ?fs) (ul_usedToday (ui_limits sample_unwind))
      = Inr (ul_usedToday (ui_limits sample_unwind) + sum_list (map fill_notional (map snd ?fs)))"
  proof (rule conjunct2 [OF conjunct2 [OF planned_unwinds_fit_the_contract [of sample_unwind "planUnwind sample_unwind" ?fs]]])
    show "up_slices (planUnwind sample_unwind) \<noteq> []" by code_simp
    show "open_ok sample_unwind" by (simp add: open_ok_def sample_unwind_def E18_def)
    show "\<forall>(k, f) \<in> set ?fs. k < length (unwind_orders sample_unwind (planUnwind sample_unwind))
        \<and> fill_of (ui_limits sample_unwind) (unwind_orders sample_unwind (planUnwind sample_unwind) ! k) f
        \<and> (k < length (ui_open sample_unwind) \<longrightarrow> fill_notional f \<le> ul_maxFillNotional (ui_limits sample_unwind))"
      unfolding orders by code_simp
    show "\<forall>k < length (unwind_orders sample_unwind (planUnwind sample_unwind)).
        filled_size (fills_of k ?fs) \<le> wo_size (unwind_orders sample_unwind (planUnwind sample_unwind) ! k)"
      unfolding orders by code_simp
  qed (simp_all add: sample_unwind_def)
  then show ?thesis by (simp add: sample_unwind_def sdiv_nonneg E18_def)
qed

text \<open>
  The reserve for an order in a market without a price is too small for a sell. Its limit lies under the index by the offset, so the
  limit with the band on top stays below the top of the band, where the contract still takes the fill once the price is back.
\<close>

definition stale_unwind :: unwind_input where
  "stale_unwind = sample_unwind\<lparr>ui_index := (\<lambda>m. if m = 1 then None else Some 10000),
     ui_limits := \<lparr>ul_maxDeviationBps = 1000, ul_maxFillNotional = 60000, ul_maxDailyNotional = 100000, ul_usedToday = 0\<rparr>,
     ui_open := [\<lparr>ou_orderHash = ''h'', ou_marketId = 1, ou_isLong = False, ou_remaining = 5 * E18,
        ou_limitPrice = unwindLimitPrice False 10000 25 1000, ou_expiry = 9\<rparr>]\<rparr>"

lemma stale_sell_is_under_reserved:
  "map (\<lambda>s. (sl_size s, sl_limitPrice s)) (up_slices (planUnwind stale_unwind)) = [(4502643391521197007, 10025)]
   \<and> on_backstop_fills (ui_limits stale_unwind) [(10000, 5 * E18, 11000), (10000, 4502643391521197007, 10025)] 0
      = Inl BackstopLimitExceeded"
  by code_simp

end
