(* ===== verification/Backstop_Keeper.thy ===== *)
theory Backstop_Keeper
  imports Backstop_Plan Keeper_Calls
begin

text \<open>
  The backstop unwinder, the stateful part of \<open>client/lib/keepers/backstop.ts\<close>: closing finished intents, the tick, and the reads of
  the chain and of the order book. The order intake it submits to, and the signing of an order, are parameters. The unwinder
  sends no transaction, so the sender of its state never changes. Log lines, and with them the memory of the last idle
  reason, are left out; the budget gauge is kept at scale 1e18.
\<close>

definition MAX_UNWIND_TTL_SECONDS :: int where "MAX_UNWIND_TTL_SECONDS = 3600"

section \<open>Questions and answers\<close>

record order_state =
  os_status :: order_status
  os_filledSize :: int
  os_expiry :: int

record unwind_body =
  ub_order :: order
  ub_signature :: hex
  ub_chainId :: int

datatype submit_answer = Submit_ok hex bool | Submit_refused string string

datatype backstop_event =
    Bk_limits unwind_limits
  | Bk_paused bool
  | Bk_role bool
  | Bk_positions "backstop_position list"
  | Bk_open "open_unwind_order list"
  | Bk_index int "int option"
  | Bk_min int "int option"
  | Bk_state hex "order_state option"
  | Bk_nonce int
  | Bk_posted unwind_body

type_synonym backstop_keeper = "backstop_event keeper"
type_synonym 'a backstop_act = "(backstop_event, 'a) keeper_act"

record backstop_options =
  ko_network :: string
  ko_chainId :: int
  ko_signer :: address
  ko_insurance :: address
  ko_sign :: "order \<Rightarrow> hex"
  ko_ttlSeconds :: "int option"
  ko_priceOffsetBps :: "int option"
  ko_maxOrdersPerTick :: "nat option"

record backstop_env =
  kb_now :: int
  kb_limits :: "backstop_event list \<Rightarrow> chain_fault + int \<times> int \<times> int \<times> int"
  kb_paused :: "backstop_event list \<Rightarrow> chain_fault + bool \<times> bool \<times> bool"
  kb_hasRole :: "backstop_event list \<Rightarrow> address \<Rightarrow> chain_fault + bool"
  kb_positions :: "backstop_event list \<Rightarrow> address \<Rightarrow> chain_fault + (int \<times> int) list"
  kb_index :: "backstop_event list \<Rightarrow> int \<Rightarrow> chain_fault + int"
  kb_orders :: "backstop_event list \<Rightarrow> order_row list"
  kb_markets :: "backstop_event list \<Rightarrow> market_row list"
  kb_nonce :: "backstop_event list \<Rightarrow> int"
  kb_submit :: "backstop_event list \<Rightarrow> unwind_body \<Rightarrow> keeper_fault + submit_answer"

definition unwind_ttl :: "backstop_options \<Rightarrow> int" where
  "unwind_ttl opts = (case ko_ttlSeconds opts of None \<Rightarrow> 1800 | Some t \<Rightarrow> t)"

definition new_unwinder_ok :: "backstop_options \<Rightarrow> bool" where
  "new_unwinder_ok opts \<longleftrightarrow> \<not> (unwind_ttl opts \<le> 0 \<or> unwind_ttl opts > MAX_UNWIND_TTL_SECONDS)"

definition unwind_offset :: "backstop_options \<Rightarrow> int" where
  "unwind_offset opts = (case ko_priceOffsetBps opts of None \<Rightarrow> 25 | Some x \<Rightarrow> x)"

definition unwind_maxOrders :: "backstop_options \<Rightarrow> nat" where
  "unwind_maxOrders opts = (case ko_maxOrdersPerTick opts of None \<Rightarrow> 4 | Some n \<Rightarrow> n)"

section \<open>Chain and book\<close>

definition backstop_limits_of :: "backstop_env \<Rightarrow> unwind_limits backstop_act" where
  "backstop_limits_of env = ask (\<lambda>tr. map_sum id (\<lambda>(dev, fill, daily, used). \<lparr>ul_maxDeviationBps = dev, ul_maxFillNotional = fill,
       ul_maxDailyNotional = daily, ul_usedToday = used\<rparr>) (kb_limits env tr)) Bk_limits"

definition backstop_paused :: "backstop_env \<Rightarrow> bool backstop_act" where
  "backstop_paused env = ask (\<lambda>tr. map_sum id (\<lambda>(a, b, c). a \<or> b \<or> c) (kb_paused env tr)) Bk_paused"

definition backstop_hasRole :: "backstop_options \<Rightarrow> backstop_env \<Rightarrow> bool backstop_act" where
  "backstop_hasRole opts env = ask (\<lambda>tr. kb_hasRole env tr (ko_signer opts)) Bk_role"

definition backstop_positions :: "backstop_options \<Rightarrow> backstop_env \<Rightarrow> backstop_position list backstop_act" where
  "backstop_positions opts env = ask (\<lambda>tr. map_sum id (map (\<lambda>(i, sz). \<lparr>bp_marketId = i, bp_size = sz\<rparr>)) (kb_positions env tr (ko_insurance opts)))
     Bk_positions"

definition backstop_index :: "backstop_env \<Rightarrow> int \<Rightarrow> int option backstop_act" where
  "backstop_index env m = ask (\<lambda>tr. Inr (case kb_index env tr m of Inl _ \<Rightarrow> None | Inr p \<Rightarrow> Some p)) (Bk_index m)"

definition open_row :: "string \<Rightarrow> address \<Rightarrow> int \<Rightarrow> order_row \<Rightarrow> bool" where
  "open_row network owner nowSec r \<longleftrightarrow> ow_network r = network \<and> ow_owner r = lower owner
     \<and> ow_status r \<in> {OPEN, PARTIALLY_FILLED} \<and> ow_expiry r > nowSec"

definition openOrders :: "backstop_options \<Rightarrow> backstop_env \<Rightarrow> open_unwind_order list backstop_act" where
  "openOrders opts env = ask (\<lambda>tr. Inr (map (\<lambda>r. \<lparr>ou_orderHash = ow_orderHash r, ou_marketId = ow_marketId r, ou_isLong = ow_isLong r,
       ou_remaining = ow_size r - ow_filledSize r, ou_limitPrice = ow_limitPrice r, ou_expiry = ow_expiry r\<rparr>)
     (filter (open_row (ko_network opts) (ko_insurance opts) (kb_now env)) (kb_orders env tr)))) Bk_open"

definition market_minimum :: "string \<Rightarrow> int \<Rightarrow> market_row list \<Rightarrow> int option" where
  "market_minimum network m rows = (case find (\<lambda>r. mr_network r = network \<and> mr_id r = m) rows of None \<Rightarrow> None
     | Some r \<Rightarrow> if \<not> mr_active r then None else mr_params r ''minFillNotional'')"

definition backstop_minFill :: "backstop_options \<Rightarrow> backstop_env \<Rightarrow> int \<Rightarrow> int option backstop_act" where
  "backstop_minFill opts env m = ask (\<lambda>tr. Inr (market_minimum (ko_network opts) m (kb_markets env tr))) (Bk_min m)"

definition orderState :: "backstop_env \<Rightarrow> hex \<Rightarrow> order_state option backstop_act" where
  "orderState env h = ask (\<lambda>tr. Inr (map_option (\<lambda>r. \<lparr>os_status = ow_status r, os_filledSize = ow_filledSize r, os_expiry = ow_expiry r\<rparr>)
     (find (\<lambda>r. ow_orderHash r = lower h) (kb_orders env tr)))) (Bk_state h)"

section \<open>Closing finished intents\<close>

fun order_status_text :: "order_status \<Rightarrow> string" where
  "order_status_text OPEN = ''OPEN''"
| "order_status_text PARTIALLY_FILLED = ''PARTIALLY_FILLED''"
| "order_status_text FILLED = ''FILLED''"
| "order_status_text CANCELLED = ''CANCELLED''"
| "order_status_text EXPIRED = ''EXPIRED''"

definition payload_hash :: "json \<Rightarrow> hex option" where
  "payload_hash p = (case field ''orderHash'' p of Some (JStr h) \<Rightarrow> if h = [] then None else Some h | _ \<Rightarrow> None)"

definition unwind_ended :: "int \<Rightarrow> order_state option \<Rightarrow> bool" where
  "unwind_ended nowSec st = (case st of None \<Rightarrow> True
     | Some x \<Rightarrow> os_expiry x \<le> nowSec \<or> os_status x \<in> {FILLED, EXPIRED, CANCELLED})"

definition ended_patch :: "keeper_action \<Rightarrow> order_state option \<Rightarrow> action_patch" where
  "ended_patch a st =
     (let filled = (case st of None \<Rightarrow> 0 | Some x \<Rightarrow> os_filledSize x);
          final = (case st of None \<Rightarrow> ''MISSING'' | Some x \<Rightarrow> order_status_text (os_status x))
      in no_action_patch\<lparr>kp_status := Some (if filled > 0 then Act_confirmed else Skipped),
           kp_payload := Some (with_field ''finalStatus'' (JStr final) (with_field ''filledSize'' (big_json filled) (kn_payload a)))\<rparr>)"

fun close_each :: "backstop_env \<Rightarrow> keeper_action list \<Rightarrow> nat \<Rightarrow> nat backstop_act" where
  "close_each env [] closed = act_ret closed"
| "close_each env (a # as) closed = (case payload_hash (kn_payload a) of
     None \<Rightarrow> act_then (update_action (kn_id a) (no_action_patch\<lparr>kp_status := Some Act_failed,
           kp_payload := Some (with_field ''error'' (JStr ''no orderHash'') (kn_payload a))\<rparr>)) (close_each env as closed)
   | Some h \<Rightarrow> act_bind (orderState env h) (\<lambda>st.
       if \<not> unwind_ended (kb_now env) st then close_each env as closed
       else act_then (update_action (kn_id a) (ended_patch a st)) (close_each env as (closed + 1))))"

definition closeFinished :: "backstop_options \<Rightarrow> backstop_env \<Rightarrow> nat backstop_act" where
  "closeFinished opts env = act_bind (act_get (\<lambda>s. action_open (ko_network opts) ''backstop.unwind'' (kk_actions s)))
     (\<lambda>as. close_each env as 0)"

section \<open>The tick\<close>

datatype unwind_idle = Bi_limits_unset | Bi_paused | Bi_signer_lacks_role | Bi_flat

fun unwind_idle_counter :: "unwind_idle \<Rightarrow> string" where
  "unwind_idle_counter Bi_limits_unset = ''backstop_idle_limits_unset_total''"
| "unwind_idle_counter Bi_paused = ''backstop_idle_paused_total''"
| "unwind_idle_counter Bi_signer_lacks_role = ''backstop_idle_signer_lacks_role_total''"
| "unwind_idle_counter Bi_flat = ''backstop_idle_flat_total''"

fun skip_counter :: "unwind_skip \<Rightarrow> string" where
  "skip_counter Order_open = ''backstop_skip_order_open_total''"
| "skip_counter Stale_index = ''backstop_skip_stale_index_total''"
| "skip_counter No_budget = ''backstop_skip_no_budget_total''"
| "skip_counter Below_min_notional = ''backstop_skip_below_min_notional_total''"
| "skip_counter Not_configured = ''backstop_skip_not_configured_total''"
| "skip_counter Tick_limit = ''backstop_skip_tick_limit_total''"

datatype unwind_result =
    Unwind_idle unwind_idle nat
  | Unwind_ran "(hex \<times> planned_slice) list" "(int \<times> string \<times> string) list" unwind_plan nat

definition unwind_go_idle :: "unwind_idle \<Rightarrow> nat \<Rightarrow> unwind_result backstop_act" where
  "unwind_go_idle r closed = act_then (gauge ''backstop_idle'' 1)
     (act_then (count_by (unwind_idle_counter r) 1) (act_ret (Unwind_idle r closed)))"

definition slice_order :: "backstop_options \<Rightarrow> int \<Rightarrow> int \<Rightarrow> planned_slice \<Rightarrow> order" where
  "slice_order opts nowSec nonce s = \<lparr>od_owner = ko_insurance opts, od_marketId = sl_marketId s, od_isLong = sl_isLong s, od_size = sl_size s,
     od_limitPrice = sl_limitPrice s, od_reduceOnly = True, od_nonce = nonce, od_expiry = nowSec + unwind_ttl opts,
     od_referrer = ZERO_ADDRESS\<rparr>"

definition limits_json :: "unwind_limits \<Rightarrow> json" where
  "limits_json l = JObj [(''maxDeviationBps'', big_json (ul_maxDeviationBps l)), (''maxFillNotional'', big_json (ul_maxFillNotional l)),
     (''maxDailyNotional'', big_json (ul_maxDailyNotional l)), (''usedToday'', big_json (ul_usedToday l))]"

definition slice_payload :: "backstop_options \<Rightarrow> unwind_limits \<Rightarrow> planned_slice \<Rightarrow> order \<Rightarrow> (string \<times> json) list" where
  "slice_payload opts limits s o' = [(''marketId'', JNum (sl_marketId s)), (''isLong'', JBool (sl_isLong s)), (''size'', big_json (sl_size s)),
     (''limitPrice'', big_json (sl_limitPrice s)), (''index'', big_json (sl_index s)), (''worstNotional'', big_json (sl_worstNotional s)),
     (''nonce'', big_json (od_nonce o')), (''expiry'', big_json (od_expiry o')), (''signer'', JStr (ko_signer opts)), (''limits'', limits_json limits)]"

definition slice_action :: "backstop_options \<Rightarrow> planned_slice \<Rightarrow> (string \<times> json) list \<Rightarrow> action_status \<Rightarrow> action_input" where
  "slice_action opts s payload st = \<lparr>ai_kind = ''backstop.unwind'', ai_marketId = Some (sl_marketId s), ai_account = Some (ko_insurance opts),
     ai_payload = JObj payload, ai_status = Some st, ai_txJobId = None\<rparr>"

definition submit_body :: "backstop_env \<Rightarrow> unwind_body \<Rightarrow> submit_answer backstop_act" where
  "submit_body env body = ask (\<lambda>tr. Inr (case kb_submit env tr body of Inl e \<Rightarrow> Submit_refused ''error'' (errorMessage e) | Inr r \<Rightarrow> r))
     (\<lambda>_. Bk_posted body)"

fun post_slices :: "backstop_options \<Rightarrow> backstop_env \<Rightarrow> unwind_limits \<Rightarrow> planned_slice list \<Rightarrow> (hex \<times> planned_slice) list
     \<Rightarrow> (int \<times> string \<times> string) list \<Rightarrow> ((hex \<times> planned_slice) list \<times> (int \<times> string \<times> string) list) backstop_act" where
  "post_slices opts env limits [] posted rejected = act_ret (posted, rejected)"
| "post_slices opts env limits (s # ss) posted rejected =
     act_bind (ask (\<lambda>tr. Inr (kb_nonce env tr)) Bk_nonce) (\<lambda>nonce.
     let o' = slice_order opts (kb_now env) nonce s; payload = slice_payload opts limits s o' in
     act_bind (submit_body env \<lparr>ub_order = o', ub_signature = ko_sign opts o', ub_chainId = ko_chainId opts\<rparr>) (\<lambda>r. case r of
       Submit_refused code error \<Rightarrow>
         act_then (count_by ''backstop_orders_rejected_total'' 1)
        (act_bind (record_action (ko_network opts) (slice_action opts s
             (payload @ [(''rejected'', JStr code), (''error'', JStr error)]) Act_failed)) (\<lambda>_.
           post_slices opts env limits ss posted (rejected @ [(sl_marketId s, code, error)])))
     | Submit_ok h duplicate \<Rightarrow>
         act_bind (record_action (ko_network opts) (slice_action opts s (payload @ [(''orderHash'', JStr h)]) Act_submitted)) (\<lambda>_.
         act_then (count_by ''backstop_orders_posted_total'' 1)
           (post_slices opts env limits ss (posted @ [(h, s)]) rejected))))"

fun read_markets :: "backstop_options \<Rightarrow> backstop_env \<Rightarrow> int list \<Rightarrow> (int \<Rightarrow> int option) \<Rightarrow> (int \<Rightarrow> int option)
     \<Rightarrow> ((int \<Rightarrow> int option) \<times> (int \<Rightarrow> int option)) backstop_act" where
  "read_markets opts env [] index minFill = act_ret (index, minFill)"
| "read_markets opts env (m # ms) index minFill =
     act_bind (backstop_index env m) (\<lambda>idx.
     act_bind (backstop_minFill opts env m) (\<lambda>mn.
       read_markets opts env ms (index(m := idx)) (minFill(m := mn))))"

definition unwind_held :: "backstop_options \<Rightarrow> backstop_env \<Rightarrow> unwind_limits \<Rightarrow> backstop_position list \<Rightarrow> nat \<Rightarrow> unwind_result backstop_act" where
  "unwind_held opts env limits positions closed =
     act_bind (openOrders opts env) (\<lambda>opn.
     act_bind (read_markets opts env (rev (remdups (rev (map bp_marketId positions @ map ou_marketId opn)))) (\<lambda>_. None) (\<lambda>_. None))
       (\<lambda>(index, minFill).
     let plan = planUnwind \<lparr>ui_positions = positions, ui_limits = limits, ui_index = index, ui_minFillNotional = minFill, ui_open = opn,
          ui_priceOffsetBps = unwind_offset opts, ui_maxOrdersPerTick = unwind_maxOrders opts\<rparr> in
     act_then (gauge ''backstop_daily_budget_usdc'' (up_budget plan))
    (act_then (act_each (\<lambda>(m, r). count_by (skip_counter r) 1) (up_skipped plan))
    (act_bind (post_slices opts env limits (up_slices plan) [] []) (\<lambda>(posted, rejected).
       act_ret (Unwind_ran posted rejected plan closed))))))"

definition backstop_tick :: "backstop_options \<Rightarrow> backstop_env \<Rightarrow> unwind_result backstop_act" where
  "backstop_tick opts env =
     act_bind (closeFinished opts env) (\<lambda>closed.
     act_bind (backstop_limits_of env) (\<lambda>limits.
     if ul_maxDeviationBps limits = 0 then unwind_go_idle Bi_limits_unset closed
     else act_bind (backstop_paused env) (\<lambda>paused.
     if paused then unwind_go_idle Bi_paused closed
     else act_bind (backstop_hasRole opts env) (\<lambda>role.
     if \<not> role then unwind_go_idle Bi_signer_lacks_role closed
     else act_bind (backstop_positions opts env) (\<lambda>all.
     let positions = filter (\<lambda>p. bp_size p \<noteq> 0) all in
     act_then (gauge ''backstop_positions'' (int (length positions)))
    (if positions = [] then unwind_go_idle Bi_flat closed
     else act_then (gauge ''backstop_idle'' 0) (unwind_held opts env limits positions closed)))))))"

section \<open>What a tick posts\<close>

fun posted_bodies :: "backstop_event list \<Rightarrow> unwind_body list" where
  "posted_bodies [] = []"
| "posted_bodies (Bk_posted b # tr) = b # posted_bodies tr"
| "posted_bodies (e # tr) = posted_bodies tr"

lemma posted_append [simp]: "posted_bodies (xs @ ys) = posted_bodies xs @ posted_bodies ys"
  by (induction xs rule: posted_bodies.induct) auto

text \<open>The order of a slice as the contract wants it: of the Insurance contract, reduce-only, signed, and gone within the hour.\<close>

definition posted_as :: "backstop_options \<Rightarrow> backstop_env \<Rightarrow> unwind_body \<Rightarrow> planned_slice \<Rightarrow> bool" where
  "posted_as opts env b s \<longleftrightarrow> od_owner (ub_order b) = ko_insurance opts \<and> od_reduceOnly (ub_order b)
     \<and> od_marketId (ub_order b) = sl_marketId s \<and> od_isLong (ub_order b) = sl_isLong s \<and> od_size (ub_order b) = sl_size s
     \<and> od_limitPrice (ub_order b) = sl_limitPrice s \<and> kb_now env < od_expiry (ub_order b)
     \<and> od_expiry (ub_order b) \<le> kb_now env + MAX_UNWIND_TTL_SECONDS \<and> ub_signature b = ko_sign opts (ub_order b)"

lemma slice_posted_as:
  "new_unwinder_ok opts \<Longrightarrow>
   posted_as opts env \<lparr>ub_order = slice_order opts (kb_now env) n s, ub_signature = ko_sign opts (slice_order opts (kb_now env) n s), ub_chainId = c\<rparr> s"
  by (simp add: posted_as_def slice_order_def new_unwinder_ok_def)

definition posted_prefix :: "backstop_options \<Rightarrow> backstop_env \<Rightarrow> planned_slice list \<Rightarrow> backstop_event list \<Rightarrow> backstop_event list \<Rightarrow> bool" where
  "posted_prefix opts env slices before after \<longleftrightarrow> (\<exists>evs ss rest. after = before @ evs \<and> slices = ss @ rest
     \<and> list_all2 (posted_as opts env) (posted_bodies evs) ss)"

lemma posted_prefix_none: "posted_prefix opts env slices tr tr"
  unfolding posted_prefix_def by (rule exI [of _ "[]"], rule exI [of _ "[]"], rule exI [of _ slices]) simp

lemma posted_prefix_cons:
  assumes "posted_prefix opts env ss (tr @ [Bk_nonce n, Bk_posted b]) tr'" and "posted_as opts env b s"
  shows "posted_prefix opts env (s # ss) tr tr'"
proof -
  obtain evs ss' rest where "tr' = (tr @ [Bk_nonce n, Bk_posted b]) @ evs" "ss = ss' @ rest"
    "list_all2 (posted_as opts env) (posted_bodies evs) ss'" using assms(1) unfolding posted_prefix_def by blast
  then have "tr' = tr @ (Bk_nonce n # Bk_posted b # evs) \<and> s # ss = (s # ss') @ rest
     \<and> list_all2 (posted_as opts env) (posted_bodies (Bk_nonce n # Bk_posted b # evs)) (s # ss')" using assms(2) by simp
  then show ?thesis unfolding posted_prefix_def by blast
qed

lemma post_slices_prefix:
  assumes ok: "new_unwinder_ok opts"
  shows "wp (post_slices opts env limits slices posted rejected)
    (\<lambda>_ t. posted_prefix opts env slices (kk_trace s) (kk_trace t)) (\<lambda>_ t. posted_prefix opts env slices (kk_trace s) (kk_trace t)) s"
proof (induction slices arbitrary: posted rejected s)
  case Nil
  then show ?case by (simp add: act_wp posted_prefix_none)
next
  case (Cons sl slices)
  have rest: "wp (post_slices opts env limits slices p r) (\<lambda>_ t. posted_prefix opts env (sl # slices) (kk_trace s) (kk_trace t))
      (\<lambda>_ t. posted_prefix opts env (sl # slices) (kk_trace s) (kk_trace t)) u"
    if "kk_trace u = kk_trace s @ [Bk_nonce n, Bk_posted b]" "posted_as opts env b sl" for u n b p r
    by (rule wp_mono [OF Cons.IH]) (use that in \<open>auto intro: posted_prefix_cons\<close>)
  show ?case
    by (simp add: act_wp submit_body_def Let_def slice_posted_as [OF ok] rest split: sum.split submit_answer.split)
qed

text \<open>A map of the tick holds only what was read.\<close>

definition maps_read :: "backstop_event list \<Rightarrow> (int \<Rightarrow> int option) \<Rightarrow> (int \<Rightarrow> int option) \<Rightarrow> bool" where
  "maps_read tr index minFill \<longleftrightarrow> (\<forall>m v. index m = Some v \<longrightarrow> Bk_index m (Some v) \<in> set tr)
     \<and> (\<forall>m v. minFill m = Some v \<longrightarrow> Bk_min m (Some v) \<in> set tr)"

lemma read_markets_spec:
  assumes "posted_bodies (kk_trace s) = []" and "maps_read (kk_trace s) index minFill"
  shows "wp (read_markets opts env ms index minFill)
    (\<lambda>r t. posted_bodies (kk_trace t) = [] \<and> set (kk_trace s) \<subseteq> set (kk_trace t) \<and> maps_read (kk_trace t) (fst r) (snd r))
    (\<lambda>_ t. posted_bodies (kk_trace t) = []) s"
  using assms
proof (induction ms arbitrary: s index minFill)
  case Nil
  then show ?case by (simp add: act_wp)
next
  case (Cons m ms)
  have "wp (read_markets opts env ms (index(m := x)) (minFill(m := y)))
    (\<lambda>r t. posted_bodies (kk_trace t) = [] \<and> set (kk_trace s) \<subseteq> set (kk_trace t) \<and> maps_read (kk_trace t) (fst r) (snd r))
    (\<lambda>_ t. posted_bodies (kk_trace t) = []) (s\<lparr>kk_trace := kk_trace s @ [Bk_index m x, Bk_min m y]\<rparr>)" for x y
    by (rule wp_mono [OF Cons.IH]) (use Cons.prems in \<open>auto simp: maps_read_def\<close>)
  then show ?case by (simp add: act_wp backstop_index_def backstop_minFill_def)
qed

definition read_from :: "backstop_event list \<Rightarrow> unwind_input \<Rightarrow> bool" where
  "read_from tr i \<longleftrightarrow> Bk_limits (ui_limits i) \<in> set tr \<and> 0 < ul_maxDeviationBps (ui_limits i) \<and> Bk_paused False \<in> set tr \<and> Bk_role True \<in> set tr
     \<and> (\<exists>all. Bk_positions all \<in> set tr \<and> ui_positions i = filter (\<lambda>p. bp_size p \<noteq> 0) all) \<and> Bk_open (ui_open i) \<in> set tr
     \<and> maps_read tr (ui_index i) (ui_minFillNotional i)"

definition posts_ok :: "backstop_options \<Rightarrow> backstop_env \<Rightarrow> backstop_event list \<Rightarrow> bool" where
  "posts_ok opts env tr \<longleftrightarrow> posted_bodies tr = [] \<or>
     (\<exists>i ss rest. read_from tr i \<and> ui_maxOrdersPerTick i = unwind_maxOrders opts \<and> up_slices (planUnwind i) = ss @ rest
        \<and> list_all2 (posted_as opts env) (posted_bodies tr) ss)"

lemma posts_ok_prefix:
  assumes "posted_bodies tr = []" and "read_from tr i" and "ui_maxOrdersPerTick i = unwind_maxOrders opts"
    and "posted_prefix opts env (up_slices (planUnwind i)) tr tr'"
  shows "posts_ok opts env tr'"
proof -
  obtain evs ss rest where t: "tr' = tr @ evs" "up_slices (planUnwind i) = ss @ rest" "list_all2 (posted_as opts env) (posted_bodies evs) ss"
    using assms(4) unfolding posted_prefix_def by blast
  have "read_from tr' i" using assms(2) unfolding t(1) by (auto simp: read_from_def maps_read_def)
  then show ?thesis using t assms(1,3) unfolding posts_ok_def by auto
qed

lemma close_each_silent: "keeps (on_trace (\<lambda>tr. posted_bodies tr = [])) (close_each env as n)"
  by (induction env as n rule: close_each.induct)
    (auto simp: orderState_def intro!: act_keeps keeps_ask split: option.split)

lemma wp_count_each: "(\<And>m. Q () (u\<lparr>kk_metrics := m\<rparr>)) \<Longrightarrow> wp (act_each (\<lambda>(m, r). count_by (skip_counter r) 1) xs) Q E u"
proof (induction xs arbitrary: u)
  case Nil
  then have "Q () (u\<lparr>kk_metrics := kk_metrics u\<rparr>)" by blast
  then show ?case by (simp add: act_wp)
next
  case (Cons x xs)
  have "wp (act_each (\<lambda>(m, r). count_by (skip_counter r) 1) xs) Q E (u\<lparr>kk_metrics := m\<rparr>)" for m
    using Cons.prems by (intro Cons.IH) simp
  then show ?case by (cases x) (simp add: act_wp)
qed

lemma unwind_held_posts:
  assumes "new_unwinder_ok opts" and tr: "posted_bodies (kk_trace s) = []"
    and reads: "Bk_limits limits \<in> set (kk_trace s)" "0 < ul_maxDeviationBps limits" "Bk_paused False \<in> set (kk_trace s)"
      "Bk_role True \<in> set (kk_trace s)" "Bk_positions all \<in> set (kk_trace s)" "positions = filter (\<lambda>p. bp_size p \<noteq> 0) all"
  shows "wp (unwind_held opts env limits positions closed) (\<lambda>_ t. posts_ok opts env (kk_trace t)) (\<lambda>_ t. posts_ok opts env (kk_trace t)) s"
proof -
  have posting: "wp (act_bind (post_slices opts env limits (up_slices (planUnwind i)) [] []) (\<lambda>(posted, rejected).
       act_ret (Unwind_ran posted rejected (planUnwind i) closed)))
      (\<lambda>_ t. posts_ok opts env (kk_trace t)) (\<lambda>_ t. posts_ok opts env (kk_trace t)) u"
    if "posted_bodies (kk_trace u) = []" "read_from (kk_trace u) i" "ui_maxOrdersPerTick i = unwind_maxOrders opts" for i u
    unfolding wp_bind
    by (rule wp_mono [OF post_slices_prefix [OF assms(1)]]) (auto simp: act_wp split: prod.splits intro: posts_ok_prefix [OF that])
  have planned: "wp (act_then (gauge g x) (act_then (act_each (\<lambda>(m, r). count_by (skip_counter r) 1) (up_skipped (planUnwind i)))
       (act_bind (post_slices opts env limits (up_slices (planUnwind i)) [] []) (\<lambda>(posted, rejected).
          act_ret (Unwind_ran posted rejected (planUnwind i) closed)))))
      (\<lambda>_ t. posts_ok opts env (kk_trace t)) (\<lambda>_ t. posts_ok opts env (kk_trace t)) u"
    if "posted_bodies (kk_trace u) = []" "read_from (kk_trace u) i" "ui_maxOrdersPerTick i = unwind_maxOrders opts" for i u g x
    unfolding wp_then wp_gauge by (rule wp_count_each, rule posting) (use that in simp_all)
  have market_reads: "wp (act_bind (read_markets opts env ms (\<lambda>_. None) (\<lambda>_. None)) (\<lambda>(index, minFill).
       let plan = planUnwind \<lparr>ui_positions = positions, ui_limits = limits, ui_index = index, ui_minFillNotional = minFill, ui_open = opn,
            ui_priceOffsetBps = unwind_offset opts, ui_maxOrdersPerTick = unwind_maxOrders opts\<rparr> in
       act_then (gauge g (up_budget plan)) (act_then (act_each (\<lambda>(m, r). count_by (skip_counter r) 1) (up_skipped plan))
         (act_bind (post_slices opts env limits (up_slices plan) [] []) (\<lambda>(posted, rejected).
            act_ret (Unwind_ran posted rejected plan closed))))))
      (\<lambda>_ t. posts_ok opts env (kk_trace t)) (\<lambda>_ t. posts_ok opts env (kk_trace t)) (s\<lparr>kk_trace := kk_trace s @ [Bk_open opn]\<rparr>)" for ms opn g
    unfolding wp_bind
  proof (rule wp_mono [OF read_markets_spec])
    show "posted_bodies (kk_trace (s\<lparr>kk_trace := kk_trace s @ [Bk_open opn]\<rparr>)) = []" using tr by simp
    show "maps_read (kk_trace (s\<lparr>kk_trace := kk_trace s @ [Bk_open opn]\<rparr>)) (\<lambda>_. None) (\<lambda>_. None)" by (simp add: maps_read_def)
  next
    fix r and t :: backstop_keeper
    assume r: "posted_bodies (kk_trace t) = [] \<and> set (kk_trace (s\<lparr>kk_trace := kk_trace s @ [Bk_open opn]\<rparr>)) \<subseteq> set (kk_trace t)
      \<and> maps_read (kk_trace t) (fst r) (snd r)"
    obtain index minFill where p: "r = (index, minFill)" by fastforce
    define i where "i = \<lparr>ui_positions = positions, ui_limits = limits, ui_index = index, ui_minFillNotional = minFill, ui_open = opn,
            ui_priceOffsetBps = unwind_offset opts, ui_maxOrdersPerTick = unwind_maxOrders opts\<rparr>"
    have "read_from (kk_trace t) i" using r reads by (auto simp: read_from_def i_def p)
    moreover have "ui_maxOrdersPerTick i = unwind_maxOrders opts" by (simp add: i_def)
    ultimately show "wp (case r of (index, minFill) \<Rightarrow>
       let plan = planUnwind \<lparr>ui_positions = positions, ui_limits = limits, ui_index = index, ui_minFillNotional = minFill, ui_open = opn,
            ui_priceOffsetBps = unwind_offset opts, ui_maxOrdersPerTick = unwind_maxOrders opts\<rparr> in
       act_then (gauge g (up_budget plan)) (act_then (act_each (\<lambda>(m, r). count_by (skip_counter r) 1) (up_skipped plan))
         (act_bind (post_slices opts env limits (up_slices plan) [] []) (\<lambda>(posted, rejected).
            act_ret (Unwind_ran posted rejected plan closed)))))
      (\<lambda>_ t. posts_ok opts env (kk_trace t)) (\<lambda>_ t. posts_ok opts env (kk_trace t)) t"
      using r by (simp add: p Let_def i_def [symmetric] planned)
  qed (simp add: posts_ok_def)
  show ?thesis
    unfolding unwind_held_def openOrders_def wp_bind [of "ask _ _"] by (simp add: wp_ask market_reads)
qed

text \<open>
  C35. The orders a tick posts are the slices it planned from what it has just read, in order and within the limit of a tick: each is
  reduce-only, of the Insurance contract, expires within the hour and carries the signature of exactly that order, closes part of a position
  that was read, has a limit in the band of the index that was read, and its worst fill is within the fill cap.
  Nothing is posted while unwinding is disabled, the protocol paused, or the signer without its role.
\<close>

theorem unwinder_posts_only_its_plan:
  assumes "new_unwinder_ok opts" and "kk_trace s = []" and "\<And>tr l. kb_limits env tr = Inr l \<Longrightarrow> 0 \<le> fst l"
  defines "tr \<equiv> kk_trace (snd (backstop_tick opts env s))"
  shows "posted_bodies tr = [] \<or>
     (\<exists>i ss rest. read_from tr i \<and> up_slices (planUnwind i) = ss @ rest \<and> length ss \<le> unwind_maxOrders opts
        \<and> list_all2 (posted_as opts env) (posted_bodies tr) ss \<and> (\<forall>sl \<in> set ss. slice_ok i sl))"
proof -
  define ok where "ok t \<longleftrightarrow> posts_ok opts env (kk_trace t)" for t :: backstop_keeper
  have quiet: "ok t" if "posted_bodies (kk_trace t) = []" for t using that by (simp add: ok_def posts_ok_def)
  have idle: "wp (unwind_go_idle r closed) (\<lambda>_. ok) (\<lambda>_. ok) u" if "posted_bodies (kk_trace u) = []" for r closed u
    using that by (simp add: unwind_go_idle_def act_wp quiet)
  have held: "wp (unwind_held opts env limits (filter (\<lambda>p. bp_size p \<noteq> 0) all) closed) (\<lambda>_. ok) (\<lambda>_. ok) u"
    if "posted_bodies (kk_trace u) = []" "Bk_limits limits \<in> set (kk_trace u)" "0 < ul_maxDeviationBps limits"
      "Bk_paused False \<in> set (kk_trace u)" "Bk_role True \<in> set (kk_trace u)" "Bk_positions all \<in> set (kk_trace u)" for limits all closed u
    by (rule wp_mono [OF unwind_held_posts [OF assms(1) that refl]]) (simp_all add: ok_def)
  have dev: "0 < ul_maxDeviationBps l" if "map_sum id (\<lambda>(dev, fill, daily, used). \<lparr>ul_maxDeviationBps = dev, ul_maxFillNotional = fill,
       ul_maxDailyNotional = daily, ul_usedToday = used\<rparr>) (kb_limits env tr') = Inr l" "ul_maxDeviationBps l \<noteq> 0" for l tr'
    using that assms(3) by (fastforce simp: map_sum_Inr)
  have closing: "keeps (on_trace (\<lambda>tr. posted_bodies tr = [])) (closeFinished opts env)"
    unfolding closeFinished_def by (intro act_keeps close_each_silent)
  have "wp (backstop_tick opts env) (\<lambda>_. ok) (\<lambda>_. ok) s"
    unfolding backstop_tick_def wp_bind [of "closeFinished _ _"]
  proof (rule wp_silent [OF closing])
    fix closed and t :: backstop_keeper
    assume t: "posted_bodies (kk_trace t) = []"
    show "wp (act_bind (backstop_limits_of env) (\<lambda>limits.
       if ul_maxDeviationBps limits = 0 then unwind_go_idle Bi_limits_unset closed
       else act_bind (backstop_paused env) (\<lambda>paused.
       if paused then unwind_go_idle Bi_paused closed
       else act_bind (backstop_hasRole opts env) (\<lambda>role.
       if \<not> role then unwind_go_idle Bi_signer_lacks_role closed
       else act_bind (backstop_positions opts env) (\<lambda>all.
       let positions = filter (\<lambda>p. bp_size p \<noteq> 0) all in
       act_then (gauge ''backstop_positions'' (int (length positions)))
      (if positions = [] then unwind_go_idle Bi_flat closed
       else act_then (gauge ''backstop_idle'' 0) (unwind_held opts env limits positions closed))))))) (\<lambda>_. ok) (\<lambda>_. ok) t"
      using t unfolding backstop_limits_of_def backstop_paused_def backstop_hasRole_def backstop_positions_def Let_def
      by (auto simp: wp_bind wp_ask wp_then wp_gauge wp_if quiet intro!: idle held dev split: sum.split)
  qed (use assms(2) in \<open>simp_all add: quiet\<close>)
  then have "posts_ok opts env tr" by (simp add: wp_final ok_def tr_def)
  then consider "posted_bodies tr = []"
    | i ss rest where "read_from tr i" "ui_maxOrdersPerTick i = unwind_maxOrders opts" "up_slices (planUnwind i) = ss @ rest"
        "list_all2 (posted_as opts env) (posted_bodies tr) ss"
    unfolding posts_ok_def by blast
  then show ?thesis
  proof cases
    case 2
    then obtain b where "plan_ok i (planUnwind i, b)" using planUnwind_ok [of i] by (auto simp: read_from_def)
    then have "\<forall>sl \<in> set ss. slice_ok i sl" "length ss \<le> unwind_maxOrders opts" using 2(2,3) by (auto simp: plan_ok_def)
    with 2 show ?thesis by blast
  qed simp
qed

definition sample_unwinder :: backstop_options where
  "sample_unwinder = \<lparr>ko_network = ''arc'', ko_chainId = 1, ko_signer = ''0xs'', ko_insurance = ''0xi'', ko_sign = (\<lambda>_. ''sig''),
     ko_ttlSeconds = None, ko_priceOffsetBps = None, ko_maxOrdersPerTick = None\<rparr>"

definition sample_unwind_env :: backstop_env where
  "sample_unwind_env = \<lparr>kb_now = 100, kb_limits = (\<lambda>_. Inr (100, 300, 1000, 10)), kb_paused = (\<lambda>_. Inr (False, False, False)),
     kb_hasRole = (\<lambda>_ _. Inr True), kb_positions = (\<lambda>_ _. Inr [(1, - 2)]), kb_index = (\<lambda>_ _. Inr 100), kb_orders = (\<lambda>_. []),
     kb_markets = (\<lambda>_. [\<lparr>mr_network = ''arc'', mr_id = 1, mr_symbol = [], mr_oracleId = [], mr_active = True, mr_params = (\<lambda>_. Some 0),
        mr_paramsOracleId = None\<rparr>]),
     kb_nonce = (\<lambda>tr. int (length tr)), kb_submit = (\<lambda>_ _. Inr (Submit_ok ''h'' False))\<rparr>"

definition sample_unwinder_input :: unwind_input where
  "sample_unwinder_input = \<lparr>ui_positions = [\<lparr>bp_marketId = 1, bp_size = - 2\<rparr>], ui_limits = \<lparr>ul_maxDeviationBps = 100, ul_maxFillNotional = 300,
     ul_maxDailyNotional = 1000, ul_usedToday = 10\<rparr>, ui_index = (\<lambda>_. None)(1 := Some 100), ui_minFillNotional = (\<lambda>_. None)(1 := Some 0),
     ui_open = [], ui_priceOffsetBps = 25, ui_maxOrdersPerTick = 4\<rparr>"

lemma sample_plan: "up_slices (planUnwind sample_unwinder_input) = [\<lparr>sl_marketId = 1, sl_isLong = True, sl_size = 2, sl_limitPrice = 100, sl_index = 100, sl_worstNotional = 0\<rparr>]"
  "up_skipped (planUnwind sample_unwinder_input) = []"
  by code_simp+

theorem unwinder_posts_only_its_plan_witness:
  "let tr = kk_trace (snd (backstop_tick sample_unwinder sample_unwind_env new_keeper)) in
     map (\<lambda>b. (od_isLong (ub_order b), od_size (ub_order b), od_expiry (ub_order b))) (posted_bodies tr) = [(True, 2, 1900)]
     \<and> (\<exists>i ss rest. read_from tr i \<and> up_slices (planUnwind i) = ss @ rest \<and> (\<forall>sl \<in> set ss. slice_ok i sl) \<and> ss \<noteq> [])"
proof -
  have posted: "map (\<lambda>b. (od_isLong (ub_order b), od_size (ub_order b), od_expiry (ub_order b)))
      (posted_bodies (kk_trace (snd (backstop_tick sample_unwinder sample_unwind_env new_keeper)))) = [(True, 2, 1900)]"
    unfolding backstop_tick_def unwind_held_def
    by (simp add: closeFinished_def action_open_def act_get_def act_bind_def act_then_def sample_plan [unfolded sample_unwinder_input_def]
      backstop_limits_of_def backstop_paused_def backstop_hasRole_def backstop_positions_def openOrders_def backstop_index_def
      backstop_minFill_def ask_def gauge_def count_by_def act_mod_def act_ret_def sample_unwinder_def sample_unwind_env_def new_keeper_def
      unwind_offset_def unwind_maxOrders_def Let_def submit_body_def record_action_def action_record_def slice_order_def unwind_ttl_def
      slice_action_def market_minimum_def)
  define tr where "tr = kk_trace (snd (backstop_tick sample_unwinder sample_unwind_env new_keeper))"
  have "new_unwinder_ok sample_unwinder"
    by (simp add: new_unwinder_ok_def unwind_ttl_def sample_unwinder_def MAX_UNWIND_TTL_SECONDS_def)
  moreover have "kk_trace (new_keeper :: backstop_keeper) = []" by (simp add: new_keeper_def)
  moreover have "kb_limits sample_unwind_env tr' = Inr l \<Longrightarrow> 0 \<le> fst l" for tr' l by (auto simp: sample_unwind_env_def)
  ultimately have "posted_bodies tr = [] \<or> (\<exists>i ss rest. read_from tr i \<and> up_slices (planUnwind i) = ss @ rest
      \<and> length ss \<le> unwind_maxOrders sample_unwinder
      \<and> list_all2 (posted_as sample_unwinder sample_unwind_env) (posted_bodies tr) ss \<and> (\<forall>sl \<in> set ss. slice_ok i sl))"
    unfolding tr_def by (rule unwinder_posts_only_its_plan)
  moreover have some: "posted_bodies tr \<noteq> []" using posted unfolding tr_def by (metis list.map_disc_iff list.distinct(1))
  ultimately obtain i ss rest where "read_from tr i" "up_slices (planUnwind i) = ss @ rest" "\<forall>sl \<in> set ss. slice_ok i sl"
    "list_all2 (posted_as sample_unwinder sample_unwind_env) (posted_bodies tr) ss" by blast
  moreover then have "ss \<noteq> []" using some by auto
  ultimately show ?thesis using posted unfolding Let_def tr_def by blast
qed

end
