(* ===== verification/Oracle_Sources.thy ===== *)
theory Oracle_Sources
  imports Oracle_Aggregate Keeper_Calls
begin

text \<open>
  The venue adapters of the publisher, \<open>client/lib/oracle/sources.ts\<close>: parsing of the answers of Binance, Coinbase and Kraken, the
  health of a venue per symbol, and the collection of quotes. What \<open>fetchJson\<close> answers is a parameter, by venue and request, and
  so are \<open>parseUnits\<close> of viem and \<open>Date.parse\<close>. The venues are asked in parallel; the model takes their answers in the order of
  the list. Error texts are constructors.
\<close>

section \<open>Prices\<close>

datatype source_error = Price_not_text | Unparseable string | Nonpositive_price | Pair_missing | Venue_error string
  | Fetch_error string | Bad_answer | Quote_too_old int

text \<open>\<open>/^\d+(\.\d+)?$/\<close>\<close>

definition decimal_text :: "string \<Rightarrow> bool" where
  "decimal_text s \<longleftrightarrow> takeWhile is_digit s \<noteq> [] \<and> (case dropWhile is_digit s of [] \<Rightarrow> True
     | c # ds \<Rightarrow> c = CHR ''.'' \<and> ds \<noteq> [] \<and> list_all is_digit ds)"

definition parsePrice :: "(string \<Rightarrow> int) \<Rightarrow> json option \<Rightarrow> source_error + int" where
  "parsePrice parseUnits raw = (case (case raw of Some (JStr s) \<Rightarrow> Some s | Some (JNum n) \<Rightarrow> Some (int_text n) | _ \<Rightarrow> None) of
     None \<Rightarrow> Inl Price_not_text
   | Some r \<Rightarrow> let s = trim r in
       if \<not> decimal_text s then Inl (Unparseable s)
       else let v = parseUnits s in if v \<le> 0 then Inl Nonpositive_price else Inr v)"

section \<open>Venues\<close>

record source_result =
  sr_quotes :: "source_quote list"
  sr_errors :: "(string \<times> source_error) list"

record price_source =
  ps_name :: string
  ps_supports :: "string \<Rightarrow> bool"
  ps_fetch :: "string list \<Rightarrow> source_error + source_result"

text \<open>What the venues answer to a request: for the batch ones by the list of pairs, for Coinbase by product.\<close>

record venue_env =
  ve_binance :: "string list \<Rightarrow> string + json"
  ve_coinbase :: "string \<Rightarrow> string + json"
  ve_kraken :: "string list \<Rightarrow> string + json"
  ve_now :: int
  ve_parseDate :: "string \<Rightarrow> int option"
  ve_parseUnits :: "string \<Rightarrow> int"

definition no_result :: source_result where
  "no_result = \<lparr>sr_quotes = [], sr_errors = []\<rparr>"

definition DEFAULT_VENUES :: "string \<Rightarrow> string list" where
  "DEFAULT_VENUES symbol =
     (if symbol \<in> {''BTC'', ''ETH'', ''SOL'', ''XRP'', ''BNB''} then [''binance'', ''coinbase'', ''kraken'']
      else if symbol \<in> {''TRX'', ''USDC''} then [''binance'', ''kraken''] else [])"

definition venueSupports :: "string \<Rightarrow> string \<Rightarrow> bool" where
  "venueSupports name symbol \<longleftrightarrow> name \<in> set (DEFAULT_VENUES symbol)"

text \<open>\<open>try { push(quote) } catch { push(error) }\<close>\<close>

definition add_quote :: "string \<Rightarrow> string \<Rightarrow> source_error + int \<times> int \<Rightarrow> source_result \<Rightarrow> source_result" where
  "add_quote source symbol r out = (case r of
     Inl e \<Rightarrow> out\<lparr>sr_errors := sr_errors out @ [(symbol, e)]\<rparr>
   | Inr (price, ts) \<Rightarrow> out\<lparr>sr_quotes := sr_quotes out @ [\<lparr>qt_source = source, qt_symbol = symbol, qt_price = price, qt_ts = ts\<rparr>]\<rparr>)"

definition all_failed :: "string list \<Rightarrow> source_error \<Rightarrow> source_result" where
  "all_failed symbols e = \<lparr>sr_quotes = [], sr_errors = map (\<lambda>s. (s, e)) symbols\<rparr>"

definition fetch_each :: "string \<Rightarrow> (string \<Rightarrow> source_error + int \<times> int) \<Rightarrow> string list \<Rightarrow> source_result" where
  "fetch_each source one symbols = fold (\<lambda>s. add_quote source s (one s)) symbols no_result"

definition binance_pair :: "string \<Rightarrow> string" where
  "binance_pair s = (if s = ''USDC'' then ''USDCUSDT'' else s @ ''USDC'')"

text \<open>\<open>bySymbol\<close>: the last row of a pair wins, and its price may be absent.\<close>

fun binance_rows :: "json \<Rightarrow> (string \<times> json option) list" where
  "binance_rows (JArr rows) = List.map_filter (\<lambda>r. case field ''symbol'' r of Some (JStr s) \<Rightarrow> Some (s, field ''price'' r) | _ \<Rightarrow> None) rows"
| "binance_rows j = []"

definition binance_one :: "venue_env \<Rightarrow> (string \<times> json option) list \<Rightarrow> string \<Rightarrow> source_error + int \<times> int" where
  "binance_one env rows symbol = (case map_of (rev rows) (binance_pair symbol) of None \<Rightarrow> Inl Pair_missing
     | Some raw \<Rightarrow> map_sum id (\<lambda>p. (p, ve_now env)) (parsePrice (ve_parseUnits env) raw))"

definition binance_fetch :: "venue_env \<Rightarrow> string list \<Rightarrow> source_error + source_result" where
  "binance_fetch env symbols = Inr (if symbols = [] then no_result
     else case ve_binance env (map binance_pair symbols) of
       Inl e \<Rightarrow> all_failed symbols (Fetch_error e)
     | Inr rows \<Rightarrow> fetch_each ''binance'' (binance_one env (binance_rows rows)) symbols)"

definition coinbase_one :: "venue_env \<Rightarrow> string \<Rightarrow> source_error + int \<times> int" where
  "coinbase_one env symbol = (case ve_coinbase env (symbol @ ''-USD'') of
     Inl e \<Rightarrow> Inl (Fetch_error e)
   | Inr JNull \<Rightarrow> Inl Bad_answer
   | Inr r \<Rightarrow> (case field ''message'' r of Some (JStr m) \<Rightarrow> Inl (Venue_error m)
       | _ \<Rightarrow> let t = (case field ''time'' r of Some (JStr x) \<Rightarrow> ve_parseDate env x | _ \<Rightarrow> None)
              in map_sum id (\<lambda>p. (p, case t of None \<Rightarrow> ve_now env | Some ts \<Rightarrow> ts)) (parsePrice (ve_parseUnits env) (field ''price'' r))))"

definition coinbase_fetch :: "venue_env \<Rightarrow> string list \<Rightarrow> source_error + source_result" where
  "coinbase_fetch env symbols = Inr (fetch_each ''coinbase'' (coinbase_one env) symbols)"

definition krakenPair :: "string \<Rightarrow> string" where
  "krakenPair symbol = (if symbol = ''BTC'' then ''XBT'' else symbol) @ ''USD''"

text \<open>\<open>k in result\<close> throws when the result is not an object; the price is \<open>c[0]\<close>, absent when any step is.\<close>

definition krakenResultKey :: "json \<Rightarrow> string \<Rightarrow> source_error + string option" where
  "krakenResultKey result symbol = (let b = (if symbol = ''BTC'' then ''XBT'' else symbol) in case result of
     JObj o' \<Rightarrow> Inr (find (\<lambda>k. map_of o' k \<noteq> None) [b @ ''USD'', ''X'' @ b @ ''ZUSD''])
   | JArr _ \<Rightarrow> Inr None
   | _ \<Rightarrow> Inl Bad_answer)"

definition first_close :: "json \<Rightarrow> string \<Rightarrow> json option" where
  "first_close result key = (case field key result of None \<Rightarrow> None
     | Some t \<Rightarrow> (case field ''c'' t of Some (JArr (x # xs)) \<Rightarrow> Some x | _ \<Rightarrow> None))"

definition kraken_one :: "venue_env \<Rightarrow> json \<Rightarrow> json list \<Rightarrow> string \<Rightarrow> source_error + int \<times> int" where
  "kraken_one env result errs symbol = (case krakenResultKey result symbol of
     Inl e \<Rightarrow> Inl e
   | Inr None \<Rightarrow> Inl (case errs of JStr e # _ \<Rightarrow> Venue_error e | _ # _ \<Rightarrow> Bad_answer | [] \<Rightarrow> Pair_missing)
   | Inr (Some key) \<Rightarrow> map_sum id (\<lambda>p. (p, ve_now env)) (parsePrice (ve_parseUnits env) (first_close result key)))"

definition kraken_fetch :: "venue_env \<Rightarrow> string list \<Rightarrow> source_error + source_result" where
  "kraken_fetch env symbols = Inr (if symbols = [] then no_result
     else case ve_kraken env (map krakenPair symbols) of
       Inl e \<Rightarrow> all_failed symbols (Fetch_error e)
     | Inr body \<Rightarrow>
         let errs = (case field ''error'' body of Some (JArr es) \<Rightarrow> es | _ \<Rightarrow> []);
             result = (case field ''result'' body of None \<Rightarrow> JObj [] | Some JNull \<Rightarrow> JObj [] | Some r \<Rightarrow> r)
         in fetch_each ''kraken'' (kraken_one env result errs) symbols)"

definition binanceSource :: "venue_env \<Rightarrow> price_source" where
  "binanceSource env = \<lparr>ps_name = ''binance'', ps_supports = venueSupports ''binance'', ps_fetch = binance_fetch env\<rparr>"

definition coinbaseSource :: "venue_env \<Rightarrow> price_source" where
  "coinbaseSource env = \<lparr>ps_name = ''coinbase'', ps_supports = venueSupports ''coinbase'', ps_fetch = coinbase_fetch env\<rparr>"

definition krakenSource :: "venue_env \<Rightarrow> price_source" where
  "krakenSource env = \<lparr>ps_name = ''kraken'', ps_supports = venueSupports ''kraken'', ps_fetch = kraken_fetch env\<rparr>"

definition defaultSources :: "venue_env \<Rightarrow> price_source list" where
  "defaultSources env = [binanceSource env, coinbaseSource env, krakenSource env]"

section \<open>Health and collection\<close>

record source_state =
  ss_failures :: nat
  ss_lastOk :: "int option"
  ss_lastError :: "source_error option"

type_synonym source_health = "string \<Rightarrow> source_state option"

definition health_key :: "string \<Rightarrow> string \<Rightarrow> string" where
  "health_key source symbol = source @ '':'' @ symbol"

definition health_get :: "source_health \<Rightarrow> string \<Rightarrow> string \<Rightarrow> source_state" where
  "health_get h source symbol = get_or h (health_key source symbol) \<lparr>ss_failures = 0, ss_lastOk = None, ss_lastError = None\<rparr>"

definition health_ok :: "string \<Rightarrow> string \<Rightarrow> int \<Rightarrow> source_health \<Rightarrow> source_health" where
  "health_ok source symbol at h = h(health_key source symbol \<mapsto> \<lparr>ss_failures = 0, ss_lastOk = Some at, ss_lastError = None\<rparr>)"

definition health_fail :: "string \<Rightarrow> string \<Rightarrow> source_error \<Rightarrow> source_health \<Rightarrow> source_health" where
  "health_fail source symbol e h = (let prev = health_get h source symbol
     in h(health_key source symbol \<mapsto> \<lparr>ss_failures = ss_failures prev + 1, ss_lastOk = ss_lastOk prev, ss_lastError = Some e\<rparr>))"

definition healthy :: "source_health \<Rightarrow> string \<Rightarrow> string \<Rightarrow> bool" where
  "healthy h source symbol \<longleftrightarrow> ss_failures (health_get h source symbol) = 0"

type_synonym quote_map = "string \<Rightarrow> source_quote list option"

text \<open>One quote of a venue: too old, or taken.\<close>

definition take_quote :: "price_source \<Rightarrow> int \<Rightarrow> int \<Rightarrow> source_quote \<Rightarrow> source_health \<times> quote_map \<Rightarrow> source_health \<times> quote_map" where
  "take_quote src now maxQuoteAgeMs q st = (let (h, m) = st; age = now - qt_ts q in
     if age > maxQuoteAgeMs then (health_fail (ps_name src) (qt_symbol q) (Quote_too_old age) h, m)
     else (health_ok (ps_name src) (qt_symbol q) now h,
           case m (qt_symbol q) of None \<Rightarrow> m | Some qs \<Rightarrow> m(qt_symbol q \<mapsto> qs @ [q])))"

definition collect_source :: "string list \<Rightarrow> int \<Rightarrow> int \<Rightarrow> price_source \<Rightarrow> source_health \<times> quote_map \<Rightarrow> source_health \<times> quote_map" where
  "collect_source symbols now maxQuoteAgeMs src st =
     (let wanted = filter (ps_supports src) symbols in
      if wanted = [] then st
      else case ps_fetch src wanted of
        Inl e \<Rightarrow> (fold (\<lambda>s. health_fail (ps_name src) s e) wanted (fst st), snd st)
      | Inr res \<Rightarrow> fold (take_quote src now maxQuoteAgeMs) (sr_quotes res)
          (fold (\<lambda>(s, e). health_fail (ps_name src) s e) (sr_errors res) (fst st), snd st))"

definition collectQuotes :: "price_source list \<Rightarrow> string list \<Rightarrow> source_health \<Rightarrow> int \<Rightarrow> int \<Rightarrow> source_health \<times> quote_map" where
  "collectQuotes sources symbols h now maxQuoteAgeMs =
     fold (collect_source symbols now maxQuoteAgeMs) sources (h, \<lambda>s. if s \<in> set symbols then Some [] else None)"

section \<open>The contract of a venue\<close>

text \<open>
  A venue prices each symbol it is asked for at most once, under its own name, with a positive price, and only symbols it is
  configured for.
\<close>

definition own_quotes :: "string \<Rightarrow> string list \<Rightarrow> source_quote list \<Rightarrow> bool" where
  "own_quotes name wanted qs \<longleftrightarrow> distinct (map qt_symbol qs)
     \<and> (\<forall>q \<in> set qs. qt_source q = name \<and> qt_symbol q \<in> set wanted \<and> 0 < qt_price q)"

definition quotes_ok :: "string list \<Rightarrow> int \<Rightarrow> int \<Rightarrow> string list \<Rightarrow> quote_map \<Rightarrow> bool" where
  "quotes_ok symbols now maxAge names m \<longleftrightarrow> (\<forall>s. case m s of None \<Rightarrow> s \<notin> set symbols
     | Some qs \<Rightarrow> distinct (map qt_source qs) \<and> (\<forall>q \<in> set qs. qt_symbol q = s \<and> 0 < qt_price q \<and> now - qt_ts q \<le> maxAge
          \<and> qt_source q \<in> set names \<and> qt_source q \<in> set (DEFAULT_VENUES s)))"

locale venue =
  fixes src :: price_source
  assumes fetched: "ps_fetch src wanted = Inr res \<Longrightarrow> distinct wanted \<Longrightarrow> own_quotes (ps_name src) wanted (sr_quotes res)"
    and supported: "ps_supports src s \<Longrightarrow> ps_name src \<in> set (DEFAULT_VENUES s)"
begin

lemma take_quotes_ok:
  assumes "quotes_ok symbols now maxAge (ps_name src # names) m" and "own_quotes (ps_name src) wanted qs"
    and "\<forall>s \<in> set wanted. ps_supports src s" and "\<forall>q \<in> set qs. \<forall>qs'. m (qt_symbol q) = Some qs' \<longrightarrow> ps_name src \<notin> qt_source ` set qs'"
  shows "quotes_ok symbols now maxAge (ps_name src # names) (snd (fold (take_quote src now maxAge) qs (h, m)))"
  using assms
proof (induction qs arbitrary: h m)
  case (Cons q qs)
  have q: "qt_source q = ps_name src" "ps_supports src (qt_symbol q)" "0 < qt_price q" "own_quotes (ps_name src) wanted qs"
    "\<forall>x \<in> set qs. qt_symbol x \<noteq> qt_symbol q" using Cons.prems(2,3) by (auto simp: own_quotes_def image_iff)
  have venue: "ps_name src \<in> set (DEFAULT_VENUES (qt_symbol q))" by (rule supported [OF q(2)])
  show ?case
  proof (cases "now - qt_ts q > maxAge \<or> m (qt_symbol q) = None")
    case True
    then have "snd (take_quote src now maxAge q (h, m)) = m" by (auto simp: take_quote_def Let_def)
    then show ?thesis using Cons.IH [of m "fst (take_quote src now maxAge q (h, m))"] Cons.prems q(4)
      by (cases "take_quote src now maxAge q (h, m)") auto
  next
    case False
    then obtain old where old: "m (qt_symbol q) = Some old" "now - qt_ts q \<le> maxAge" by auto
    define m' where "m' = m(qt_symbol q \<mapsto> old @ [q])"
    have "snd (take_quote src now maxAge q (h, m)) = m'" using old by (simp add: take_quote_def Let_def m'_def)
    moreover have "quotes_ok symbols now maxAge (ps_name src # names) m'"
      unfolding quotes_ok_def
    proof (rule allI)
      fix s
      show "case m' s of None \<Rightarrow> s \<notin> set symbols
         | Some qs \<Rightarrow> distinct (map qt_source qs) \<and> (\<forall>x \<in> set qs. qt_symbol x = s \<and> 0 < qt_price x \<and> now - qt_ts x \<le> maxAge
              \<and> qt_source x \<in> set (ps_name src # names) \<and> qt_source x \<in> set (DEFAULT_VENUES s))"
        using Cons.prems(1,4) [unfolded quotes_ok_def] old q(1,3) venue
        by (cases "s = qt_symbol q") (auto simp: m'_def split: option.splits dest: spec [of _ s])
    qed
    moreover have "\<forall>x \<in> set qs. \<forall>qs'. m' (qt_symbol x) = Some qs' \<longrightarrow> ps_name src \<notin> qt_source ` set qs'"
      using Cons.prems(4) q(5) by (auto simp: m'_def)
    ultimately show ?thesis using Cons.IH [of m' "fst (take_quote src now maxAge q (h, m))"] Cons.prems(3) q(4)
      by (cases "take_quote src now maxAge q (h, m)") auto
  qed
qed simp

lemma collect_source_ok:
  assumes "quotes_ok symbols now maxAge names m" and "ps_name src \<notin> set names" and "distinct symbols"
  shows "quotes_ok symbols now maxAge (ps_name src # names) (snd (collect_source symbols now maxAge src (h, m)))"
proof -
  have at: "m s = None \<Longrightarrow> s \<notin> set symbols"
    "m s = Some qs \<Longrightarrow> distinct (map qt_source qs) \<and> (\<forall>q \<in> set qs. qt_symbol q = s \<and> 0 < qt_price q \<and> now - qt_ts q \<le> maxAge
       \<and> qt_source q \<in> set names \<and> qt_source q \<in> set (DEFAULT_VENUES s))" for s qs
    using assms(1) [unfolded quotes_ok_def, rule_format, of s] by simp_all
  have weak: "quotes_ok symbols now maxAge (ps_name src # names) m"
    unfolding quotes_ok_def using at by (auto split: option.split)
  have fresh: "m s = Some qs' \<Longrightarrow> ps_name src \<notin> qt_source ` set qs'" for s qs'
    using at(2) assms(2) by (metis imageE)
  have wanted: "distinct (filter (ps_supports src) symbols)" using assms(3) by simp
  show ?thesis
  proof (cases "filter (ps_supports src) symbols = []")
    case True
    then show ?thesis using weak by (simp add: collect_source_def Let_def)
  next
    case some: False
    show ?thesis
    proof (cases "ps_fetch src (filter (ps_supports src) symbols)")
      case (Inl e)
      then show ?thesis using weak some by (simp add: collect_source_def Let_def)
    next
      case (Inr res)
      have "quotes_ok symbols now maxAge (ps_name src # names) (snd (fold (take_quote src now maxAge) (sr_quotes res) (h', m)))" for h'
        by (rule take_quotes_ok [OF weak fetched [OF Inr wanted]]) (use fresh in auto)
      then show ?thesis using Inr some by (simp add: collect_source_def Let_def)
    qed
  qed
qed

end

lemma fetch_each_quotes:
  assumes "\<And>s p ts. one s = Inr (p, ts) \<Longrightarrow> 0 < p" and "distinct symbols"
  shows "own_quotes source symbols (sr_quotes (fetch_each source one symbols))"
proof -
  have "sr_quotes (fold (\<lambda>s. add_quote source s (one s)) ss out) = sr_quotes out @ List.map_filter (\<lambda>s. case one s of Inl e \<Rightarrow> None
      | Inr (p, ts) \<Rightarrow> Some \<lparr>qt_source = source, qt_symbol = s, qt_price = p, qt_ts = ts\<rparr>) ss" for ss out
    by (induction ss arbitrary: out) (auto simp: add_quote_def map_filter_simps split: sum.splits)
  then have qs: "sr_quotes (fetch_each source one symbols) = List.map_filter (\<lambda>s. case one s of Inl e \<Rightarrow> None
      | Inr (p, ts) \<Rightarrow> Some \<lparr>qt_source = source, qt_symbol = s, qt_price = p, qt_ts = ts\<rparr>) symbols"
    by (simp add: fetch_each_def no_result_def)
  have "own_quotes source ss (List.map_filter (\<lambda>s. case one s of Inl e \<Rightarrow> None
      | Inr (p, ts) \<Rightarrow> Some \<lparr>qt_source = source, qt_symbol = s, qt_price = p, qt_ts = ts\<rparr>) ss)" if "distinct ss" for ss
    using that by (induction ss) (auto simp: own_quotes_def map_filter_simps assms(1) split: sum.splits)
  then show ?thesis using assms(2) by (simp add: qs)
qed

lemma parsePrice_pos: "parsePrice parseUnits raw = Inr p \<Longrightarrow> 0 < p"
  by (auto simp: parsePrice_def Let_def split: option.splits json.splits if_splits)

lemma own_quotes_none [simp]: "own_quotes n ss (sr_quotes no_result)" "own_quotes n ss (sr_quotes (all_failed ts e))"
  by (simp_all add: own_quotes_def no_result_def all_failed_def)

interpretation binance: venue "binanceSource env" for env
  by unfold_locales
    (auto simp: binanceSource_def binance_fetch_def venueSupports_def binance_one_def map_sum_Inr
      intro!: fetch_each_quotes dest: parsePrice_pos split: if_splits sum.splits option.splits)

interpretation coinbase: venue "coinbaseSource env" for env
  by unfold_locales
    (auto simp: coinbaseSource_def coinbase_fetch_def venueSupports_def coinbase_one_def map_sum_Inr Let_def
      intro!: fetch_each_quotes dest: parsePrice_pos split: if_splits sum.splits option.splits json.splits)

interpretation kraken: venue "krakenSource env" for env
  by unfold_locales
    (auto simp: krakenSource_def kraken_fetch_def venueSupports_def kraken_one_def map_sum_Inr Let_def
      intro!: fetch_each_quotes dest: parsePrice_pos split: if_splits sum.splits option.splits)

section \<open>A price rests on different venues\<close>

lemma collected_ok:
  assumes "distinct symbols"
  shows "quotes_ok symbols now maxAge [''kraken'', ''coinbase'', ''binance''] (snd (collectQuotes (defaultSources env) symbols h now maxAge))"
proof -
  let ?m = "\<lambda>s. if s \<in> set symbols then Some [] else None"
  have start: "quotes_ok symbols now maxAge [] ?m" by (simp add: quotes_ok_def)
  obtain h1 m1 where s1: "collect_source symbols now maxAge (binanceSource env) (h, ?m) = (h1, m1)" by fastforce
  have one: "quotes_ok symbols now maxAge [''binance''] m1"
    using binance.collect_source_ok [OF start _ assms, of env h] s1 by (simp add: binanceSource_def)
  obtain h2 m2 where s2: "collect_source symbols now maxAge (coinbaseSource env) (h1, m1) = (h2, m2)" by fastforce
  have two: "quotes_ok symbols now maxAge [''coinbase'', ''binance''] m2"
    using coinbase.collect_source_ok [OF one _ assms, of env h1] s2 by (simp add: coinbaseSource_def)
  show ?thesis
    using kraken.collect_source_ok [OF two _ assms, of env h2] s1 s2 by (simp add: collectQuotes_def defaultSources_def krakenSource_def)
qed

lemma split_quotes_names:
  "split_quotes first d qs = Inr (kept, dropped) \<Longrightarrow> set (map qt_source kept) \<subseteq> set (map qt_source qs)
     \<and> (distinct (map qt_source qs) \<longrightarrow> distinct (map qt_source kept))"
proof (induction qs arbitrary: kept dropped)
  case (Cons q qs)
  then obtain k' d' x where "split_quotes first d qs = Inr (k', d')" "deviationBps (qt_price q) first = Inr x"
    "kept = (if x > d then k' else q # k')" by (auto split: sum.splits if_splits)
  with Cons.IH [of k' d'] show ?case by auto
qed simp

lemma median_pos: "median xs = Inr m \<Longrightarrow> \<forall>x \<in> set xs. 0 < x \<Longrightarrow> 0 < m"
  by (metis less_le_trans median_attained)

lemma median_some: "xs \<noteq> [] \<Longrightarrow> \<exists>m. median xs = Inr m"
  by (auto simp: median_def Let_def)

lemma split_quotes_some: "0 < first \<Longrightarrow> \<exists>r. split_quotes first d qs = Inr r"
  by (induction qs) (auto simp: deviationBps_def)

lemma foldr_min_pos: "0 < (x :: int) \<Longrightarrow> \<forall>y \<in> set ys. 0 < y \<Longrightarrow> 0 < foldr min ys x"
  by (induction ys) auto

lemma aggregate_some:
  assumes "\<forall>q \<in> set qs. 0 < qt_price q"
  shows "\<exists>r. aggregate s qs opts = Inr r"
proof (cases "length qs < max 2 (ao_minSources opts)")
  case True
  then show ?thesis by (simp add: aggregate_def Let_def)
next
  case False
  then have ne: "qs \<noteq> []" by auto
  then obtain first where first: "median (map qt_price qs) = Inr first" using median_some [of "map qt_price qs"] by auto
  have pos: "0 < first" using median_pos [OF first] assms by simp
  obtain kept dropped where split: "split_quotes first (ao_maxSourceDeviationBps opts) qs = Inr (kept, dropped)"
    using split_quotes_some [OF pos, of "ao_maxSourceDeviationBps opts" qs] by auto
  have "0 < foldr min (tl (map qt_price qs)) (hd (map qt_price qs))"
    using ne assms by (cases qs) (auto intro!: foldr_min_pos)
  then have spread: "\<exists>d. deviationBps hi (foldr min (tl (map qt_price qs)) (hd (map qt_price qs))) = Inr d" for hi
    by (simp add: deviationBps_def)
  show ?thesis
  proof (cases "length kept < max 2 (ao_minSources opts)")
    case True
    then show ?thesis using False first split spread [of "foldr max (tl (map qt_price qs)) (hd (map qt_price qs))"]
      by (auto simp: aggregate_def Let_def)
  next
    case enough: False
    then have "kept \<noteq> []" by auto
    then obtain price where "median (map qt_price kept) = Inr price" using median_some [of "map qt_price kept"] by auto
    then show ?thesis using False first split enough by (auto simp: aggregate_def Let_def)
  qed
qed

text \<open>
  C36. What the publisher aggregates comes from different venues. With the default sources each venue gives a symbol at most one
  quote: positive, fresh, and only for symbols it is configured for. So a price that \<open>aggregate\<close> makes of them rests on at least two
  different venues of the symbol, and no fewer than the configured number; aggregation never throws on them.
\<close>

theorem price_rests_on_different_venues:
  assumes "distinct symbols" and "snd (collectQuotes (defaultSources env) symbols h now maxAge) s = Some quotes"
  shows "(\<forall>q \<in> set quotes. qt_symbol q = s \<and> 0 < qt_price q \<and> now - qt_ts q \<le> maxAge \<and> qt_source q \<in> set (DEFAULT_VENUES s))
    \<and> distinct (map qt_source quotes)
    \<and> (\<exists>r. aggregate s quotes opts = Inr r)
    \<and> (\<forall>a. aggregate s quotes opts = Inr (Inr a) \<longrightarrow> distinct (ag_used a) \<and> set (ag_used a) \<subseteq> set (DEFAULT_VENUES s)
         \<and> max 2 (ao_minSources opts) \<le> length (ag_used a) \<and> 0 < ag_price a)"
proof -
  note ok = collected_ok [OF assms(1), of now maxAge env h, unfolded quotes_ok_def, rule_format, of s, unfolded assms(2), simplified]
  have pos: "\<forall>q \<in> set quotes. 0 < qt_price q" using ok by blast
  have used: "distinct (ag_used a) \<and> set (ag_used a) \<subseteq> set (DEFAULT_VENUES s) \<and> max 2 (ao_minSources opts) \<le> length (ag_used a) \<and> 0 < ag_price a"
    if agg: "aggregate s quotes opts = Inr (Inr a)" for a
  proof -
    obtain first kept dropped where parts: "split_quotes first (ao_maxSourceDeviationBps opts) quotes = Inr (kept, dropped)"
      "max 2 (ao_minSources opts) \<le> length kept" "median (map qt_price kept) = Inr (ag_price a)" "mset (ag_used a) = mset (map qt_source kept)"
      using agg by (rule aggregate_parts)
    have names: "distinct (ag_used a) = distinct (map qt_source kept)" "set (ag_used a) = set (map qt_source kept)" "length (ag_used a) = length kept"
      using parts(4) by (metis mset_eq_imp_distinct_iff, metis set_mset_mset, metis size_mset length_map)
    have "\<forall>x \<in> set (map qt_price kept). 0 < x" using split_quotes_kept [OF parts(1)] pos by auto
    then show ?thesis using names split_quotes_names [OF parts(1)] parts(2) median_pos [OF parts(3)] ok by auto
  qed
  show ?thesis using ok aggregate_some [OF pos, of s opts] used by auto
qed

text \<open>A frozen Coinbase book and a Kraken answer under its own name: two venues price bitcoin.\<close>

definition sample_venues :: venue_env where
  "sample_venues = \<lparr>ve_binance = (\<lambda>_. Inr (JArr [JObj [(''symbol'', JStr ''BTCUSDC''), (''price'', JStr '' 100 '')]])),
     ve_coinbase = (\<lambda>_. Inr (JObj [(''price'', JStr ''250''), (''time'', JStr ''t'')])),
     ve_kraken = (\<lambda>_. Inr (JObj [(''error'', JArr []), (''result'', JObj [(''XXBTZUSD'', JObj [(''c'', JArr [JStr ''101''])])])])),
     ve_now = 5000, ve_parseDate = (\<lambda>_. Some 10), ve_parseUnits = digits_value\<rparr>"

definition sample_collected :: "source_quote list" where
  "sample_collected = [\<lparr>qt_source = ''binance'', qt_symbol = ''BTC'', qt_price = 100, qt_ts = 5000\<rparr>,
     \<lparr>qt_source = ''kraken'', qt_symbol = ''BTC'', qt_price = 101, qt_ts = 5000\<rparr>]"

theorem price_rests_on_different_venues_witness:
  "snd (collectQuotes (defaultSources sample_venues) [''BTC''] (\<lambda>_. None) 5000 100) ''BTC'' = Some sample_collected
   \<and> distinct (map qt_source sample_collected)"
proof -
  have run: "snd (collectQuotes (defaultSources sample_venues) [''BTC''] (\<lambda>_. None) 5000 100) ''BTC'' = Some sample_collected"
    by code_simp
  have "distinct [''BTC'']" by simp
  from price_rests_on_different_venues [OF this run] run show ?thesis by blast
qed

end
