(* ===== verification/Oracle_Publisher.thy ===== *)
theory Oracle_Publisher
  imports Oracle_Sources Oracle_Guards Keeper_Calls
begin

text \<open>
  The publisher's tick, \<open>client/lib/oracle/publisher.ts\<close>, with what it reads through \<open>oracle/chain.ts\<close> and
  \<open>chain/refprice.ts\<close> and the payload of \<open>chain/oracle.ts\<close>: state, quotes, the peg, a decision per feed, one push, its receipt,
  and the back-off of feeds whose update the contract refuses.

  The state is that of a sending keeper with the memory of the publisher beside it. Gauges that hold a
  fraction of a dollar are kept in units of \<open>1e-8\<close>. Log lines are left out, but not the alerts.
\<close>

section \<open>State\<close>

record backoff =
  bo_until :: int
  bo_failures :: nat
  bo_reason :: string

record oracle_state =
  ov_paused :: bool
  ov_publishers :: "address list"
  ov_feeds :: "feed_state list"
  ov_chainNow :: int
  ov_tradedFeedIds :: "hex list option"

datatype publisher_event =
    Ov_state oracle_state
  | Ov_read
  | Ov_clock int
  | Ov_quotes quote_map
  | Ov_usdc "int option"
  | Ov_push "(string \<times> int \<times> int) list" int
  | Ov_refused "string option" "string list"
  | Ov_simulated string bool
  | Ov_alert string

record publisher =
  pb_keeper :: "publisher_event keeper"
  pb_backoff :: "string \<Rightarrow> backoff option"
  pb_health :: source_health
  pb_lastAlert :: "string \<Rightarrow> int option"
  pb_markets :: "(int \<times> hex list) option"

datatype publisher_error = Pub_keeper keeper_error | Pub_median agg_throw | Pub_encode string

type_synonym 'a pub_act = "(publisher, publisher_error, 'a) act"

definition on_keeper :: "(publisher_event, 'a) keeper_act \<Rightarrow> 'a pub_act" where
  "on_keeper m = (\<lambda>s. case m (pb_keeper s) of
     (Inl e, t) \<Rightarrow> (Inl (Pub_keeper e), s\<lparr>pb_keeper := t\<rparr>) | (Inr x, t) \<Rightarrow> (Inr x, s\<lparr>pb_keeper := t\<rparr>))"

record publisher_options =
  pp_deps :: keeper_deps
  pp_oracle :: address
  pp_aggregate :: aggregate_options
  pp_policy :: policy_options
  pp_idlePolicy :: "policy_options option"
  pp_maxQuoteAgeMs :: int
  pp_usdcDepegHaltBps :: int
  pp_depegFailClosed :: bool
  pp_backdateSecs :: int
  pp_alertAfterSecs :: int
  pp_hexToString :: "hex \<Rightarrow> string"
  pp_encodeCall :: "(hex \<times> int \<times> int) list \<Rightarrow> int \<Rightarrow> string + hex"
  pp_usdcReference :: "address option"
  pp_usdcReferenceMaxAgeSecs :: "int option"
  pp_riskParams :: "address option"
  pp_marketsTtlMs :: "int option"

definition pub_self :: "publisher_options \<Rightarrow> address" where
  "pub_self opts = so_address (kd_sender (pp_deps opts))"

text \<open>One feed as the five reads answer it: configuration, snapshot, reference feed, reference price, observations.\<close>

type_synonym raw_feed = "feed_config \<times> snapshot \<times> (bool \<times> bool \<times> int) \<times> (bool \<times> int) \<times> observation list"

record publisher_env =
  pv_clock :: "publisher_event list \<Rightarrow> int"
  pv_block :: "publisher_event list \<Rightarrow> chain_fault + int \<times> int"
  pv_head :: "publisher_event list \<Rightarrow> int \<Rightarrow> chain_fault + bool \<times> address list \<times> hex list"
  pv_feeds :: "publisher_event list \<Rightarrow> int \<Rightarrow> hex list \<Rightarrow> address list \<Rightarrow> chain_fault + raw_feed list"
  pv_marketIds :: "publisher_event list \<Rightarrow> chain_fault + int list"
  pv_markets :: "publisher_event list \<Rightarrow> int list \<Rightarrow> chain_fault + (hex \<times> bool \<times> bool) list"
  pv_round :: "publisher_event list \<Rightarrow> chain_fault + int \<times> int \<times> int \<times> int \<times> int"
  pv_sources :: "price_source list"
  pv_simulate :: "publisher_event list \<Rightarrow> hex \<Rightarrow> thrown option"
  pv_call :: "int \<Rightarrow> call_env"

section \<open>Reads\<close>

definition pub_ask :: "(publisher_event list \<Rightarrow> chain_fault + 'a) \<Rightarrow> ('a \<Rightarrow> publisher_event) \<Rightarrow> 'a pub_act" where
  "pub_ask answer event = on_keeper (ask answer event)"

definition pub_now :: "publisher_env \<Rightarrow> int pub_act" where
  "pub_now env = pub_ask (\<lambda>tr. Inr (pv_clock env tr)) Ov_clock"

text \<open>\<open>bytes32("BTC")\<close> to \<open>"BTC"\<close>: the text without the zeros at its end.\<close>

definition symbolOf :: "publisher_options \<Rightarrow> hex \<Rightarrow> string" where
  "symbolOf opts i = rev (dropWhile (\<lambda>c. c = CHR 0x00) (rev (pp_hexToString opts i)))"

definition traded_ids :: "(hex \<times> bool \<times> bool) list \<Rightarrow> hex list" where
  "traded_ids params = remdups (map (\<lambda>(i, _, _). lower i) (filter (\<lambda>(_, active, listed). active \<and> listed) params))"

definition read_traded :: "publisher_env \<Rightarrow> int \<Rightarrow> hex list option pub_act" where
  "read_traded env nowMs =
     act_bind (pub_ask (pv_marketIds env) (\<lambda>_. Ov_read)) (\<lambda>marketIds.
     act_bind (if marketIds = [] then act_ret [] else pub_ask (\<lambda>tr. pv_markets env tr marketIds) (\<lambda>_. Ov_read)) (\<lambda>params.
     act_then (act_mod (\<lambda>s. s\<lparr>pb_markets := Some (nowMs, traded_ids params)\<rparr>))
       (act_ret (Some (traded_ids params)))))"

definition tradedFeedIds :: "publisher_options \<Rightarrow> publisher_env \<Rightarrow> int \<Rightarrow> hex list option pub_act" where
  "tradedFeedIds opts env nowMs =
     (if pp_riskParams opts = None then act_ret None
      else act_bind (act_get pb_markets) (\<lambda>cached. case cached of
          None \<Rightarrow> read_traded env nowMs
        | Some (at, feedIds) \<Rightarrow>
            if nowMs - at < (case pp_marketsTtlMs opts of None \<Rightarrow> 60000 | Some t \<Rightarrow> t) then act_ret (Some feedIds)
            else read_traded env nowMs))"

definition feed_of :: "publisher_options \<Rightarrow> address list \<Rightarrow> hex \<times> raw_feed \<Rightarrow> feed_state" where
  "feed_of opts pubs x = (case x of (i, cfg, snap, (enabled, required, maxDivergence), (refOk, refPrice), obs) \<Rightarrow>
     \<lparr>fs_id = i, fs_symbol = symbolOf opts i, fs_cfg = cfg, fs_snapshot = snap,
      fs_observations = map_of (rev (zip (map lower pubs) obs)),
      fs_reference = \<lparr>rf_enabled = enabled, rf_required = required, rf_maxDivergenceBps = maxDivergence, rf_ok = refOk, rf_price = refPrice\<rparr>\<rparr>)"

definition readState :: "publisher_options \<Rightarrow> publisher_env \<Rightarrow> oracle_state pub_act" where
  "readState opts env =
     act_bind (pub_ask (pv_block env) (\<lambda>_. Ov_read)) (\<lambda>(blockNumber, timestamp).
     act_bind (pub_ask (\<lambda>tr. pv_head env tr blockNumber) (\<lambda>_. Ov_read)) (\<lambda>(paused, pubs, ids).
     act_bind (if ids = [] then act_ret [] else pub_ask (\<lambda>tr. pv_feeds env tr blockNumber ids pubs) (\<lambda>_. Ov_read)) (\<lambda>res.
     act_bind (pub_now env) (\<lambda>now.
     act_bind (tradedFeedIds opts env now) (\<lambda>traded.
     let st = \<lparr>ov_paused = paused, ov_publishers = pubs, ov_feeds = map (feed_of opts pubs) (zip ids res),
               ov_chainNow = timestamp, ov_tradedFeedIds = traded\<rparr> in
     act_then (on_keeper (log_event (Ov_state st))) (act_ret st))))))"

definition scaleTo1e18 :: "int \<Rightarrow> int \<Rightarrow> keeper_error + int" where
  "scaleTo1e18 answer decimals =
     (if decimals < 0 \<or> decimals > 18 then Inl (Config_fault (''unsupported feed decimals '' @ int_text decimals))
      else Inr (answer * 10 ^ nat (18 - decimals)))"

text \<open>Decimals, round, answer, its time and the round it was answered in: a price, or none when unusable.\<close>

definition readReferencePrice :: "int \<Rightarrow> int \<Rightarrow> int \<times> int \<times> int \<times> int \<times> int \<Rightarrow> keeper_error + int option" where
  "readReferencePrice maxAge now x = (case x of (decimals, roundId, answer, updatedAt, answeredInRound) \<Rightarrow>
     if answer \<le> 0 \<or> updatedAt = 0 \<or> answeredInRound < roundId then Inr None
     else if now - updatedAt > maxAge then Inr None
     else map_sum id Some (scaleTo1e18 answer decimals))"

definition readUsdcReference :: "publisher_options \<Rightarrow> publisher_env \<Rightarrow> int \<Rightarrow> int option pub_act" where
  "readUsdcReference opts env chainNow =
     (if pp_usdcReference opts = None then act_ret None
      else act_bind (pub_ask (pv_round env) (\<lambda>_. Ov_read)) (\<lambda>r.
        case readReferencePrice (case pp_usdcReferenceMaxAgeSecs opts of None \<Rightarrow> 90000 | Some a \<Rightarrow> a) chainNow r of
          Inl e \<Rightarrow> act_throw (Pub_keeper e) | Inr p \<Rightarrow> act_ret p))"

section \<open>The payload\<close>

definition oracleId :: "string \<Rightarrow> bool" where
  "oracleId symbol \<longleftrightarrow> 0 < length symbol \<and> length symbol \<le> 32"

definition encodePushPrices :: "publisher_options \<Rightarrow> (string \<times> int \<times> int) list \<Rightarrow> int \<Rightarrow> publisher_error + hex" where
  "encodePushPrices opts updates publishTime =
     (if updates = [] then Inl (Pub_encode ''pushPrices needs at least one update'')
      else if \<not> distinct (map fst updates) then Inl (Pub_encode ''duplicate symbol in pushPrices batch'')
      else case find (\<lambda>(_, price, confidence). price \<le> 0 \<or> confidence < 0) updates of
        Some (symbol, price, _) \<Rightarrow> Inl (Pub_encode ((if price \<le> 0 then ''non-positive price for '' else ''negative confidence for '') @ symbol))
      | None \<Rightarrow> (case find (\<lambda>(symbol, _). \<not> oracleId symbol) updates of
          Some (symbol, _) \<Rightarrow> Inl (Pub_encode (''invalid oracle symbol '' @ symbol))
        | None \<Rightarrow> map_sum Pub_encode id (pp_encodeCall opts updates publishTime)))"

section \<open>Reverts and receipts\<close>

datatype oracle_revert = Or_stale | Or_not_publisher | Or_paused | Or_unknown_feed | Or_inactive_feed | Or_invalid_price | Or_unknown

definition classifyRevert :: "string option \<Rightarrow> oracle_revert" where
  "classifyRevert name = (case name of None \<Rightarrow> Or_unknown | Some n \<Rightarrow>
     if n = ''StaleOracle'' then Or_stale
     else if n \<in> {''AccessControlUnauthorizedAccount'', ''NotPublisher''} then Or_not_publisher
     else if n \<in> {''EnforcedPause'', ''ExecutionPaused''} then Or_paused
     else if n = ''UnknownFeed'' then Or_unknown_feed
     else if n = ''InvalidConfig'' then Or_inactive_feed
     else if n \<in> {''InvalidPrice'', ''MathOverflow''} then Or_invalid_price
     else Or_unknown)"

fun oracle_revert_text :: "oracle_revert \<Rightarrow> string" where
  "oracle_revert_text Or_stale = ''stale''"
| "oracle_revert_text Or_not_publisher = ''not-a-publisher''"
| "oracle_revert_text Or_paused = ''paused''"
| "oracle_revert_text Or_unknown_feed = ''unknown-feed''"
| "oracle_revert_text Or_inactive_feed = ''inactive-feed''"
| "oracle_revert_text Or_invalid_price = ''invalid-price''"
| "oracle_revert_text Or_unknown = ''unknown''"

datatype feed_outcome = Fo_updated int int bool | Fo_skipped feed_skip int | Fo_observed

definition int_arg :: "(string \<times> abi_value) list \<Rightarrow> string \<Rightarrow> int" where
  "int_arg args name = (case abi_number (map_of args name) of None \<Rightarrow> 0 | Some n \<Rightarrow> n)"

definition onchain_skip :: "int \<Rightarrow> feed_skip" where
  "onchain_skip n = (if 0 \<le> n \<and> nat n < length ONCHAIN_SKIP_REASONS then ONCHAIN_SKIP_REASONS ! nat n else Skip_quorum)"

definition outcome_log :: "address \<Rightarrow> event_log \<Rightarrow> (hex \<Rightarrow> feed_outcome option) \<times> hex list \<Rightarrow> (hex \<Rightarrow> feed_outcome option) \<times> hex list" where
  "outcome_log oracle l acc =
     (if lower (el_address l) \<noteq> lower oracle then acc
      else case el_event l of None \<Rightarrow> acc | Some (name, args) \<Rightarrow>
        (case abi_text (map_of args ''id'') of None \<Rightarrow> acc | Some i \<Rightarrow>
          let (out, reanchored) = acc in
          if name = ''ObservationPushed'' then (if out i = None then out(i \<mapsto> Fo_observed) else out, reanchored)
          else if name = ''PriceUpdated'' then (out(i \<mapsto> Fo_updated (int_arg args ''price'') (int_arg args ''sourceCount'') False), reanchored)
          else if name = ''PriceUpdateSkipped''
          then (out(i \<mapsto> Fo_skipped (onchain_skip (int_arg args ''reason'')) (int_arg args ''candidate'')), reanchored)
          else if name = ''PriceReanchored'' then (out, i # reanchored)
          else acc))"

definition mark_reanchored :: "hex \<Rightarrow> (hex \<Rightarrow> feed_outcome option) \<Rightarrow> hex \<Rightarrow> feed_outcome option" where
  "mark_reanchored i out = (case out i of Some (Fo_updated p n _) \<Rightarrow> out(i \<mapsto> Fo_updated p n True) | _ \<Rightarrow> out)"

definition outcomesFromReceipt :: "event_log list \<Rightarrow> address \<Rightarrow> hex \<Rightarrow> feed_outcome option" where
  "outcomesFromReceipt logs oracle = (let (out, reanchored) = fold (outcome_log oracle) logs (Map.empty, [])
     in fold mark_reanchored reanchored out)"

section \<open>Alerts, freshness and back-off\<close>

definition pub_count :: "string \<Rightarrow> int \<Rightarrow> unit pub_act" where
  "pub_count name n = on_keeper (count_by name n)"

definition pub_gauge :: "string \<Rightarrow> int \<Rightarrow> unit pub_act" where
  "pub_gauge name v = on_keeper (gauge name v)"

definition toFloat :: "int \<Rightarrow> int" where
  "toFloat v = v sdiv 10 ^ 10"

definition pub_alert :: "publisher_options \<Rightarrow> publisher_env \<Rightarrow> string \<Rightarrow> unit pub_act" where
  "pub_alert opts env key =
     act_bind (pub_now env) (\<lambda>now.
     act_bind (act_get (\<lambda>s. get_or (pb_lastAlert s) key 0)) (\<lambda>lastTime.
     act_then (pub_count (''oracle_alert_total.'' @ hd (split_on (CHR '':'') key)) 1)
       (act_when (\<not> now - lastTime < pp_alertAfterSecs opts * 1000)
         (act_then (act_mod (\<lambda>s. s\<lparr>pb_lastAlert := (pb_lastAlert s)(key \<mapsto> now)\<rparr>))
            (on_keeper (log_event (Ov_alert key)))))))"

definition feed_age :: "int \<Rightarrow> feed_state \<Rightarrow> int option" where
  "feed_age chainNow f = (if sp_writeTime (fs_snapshot f) = 0 then None else Some (chainNow - sp_writeTime (fs_snapshot f)))"

definition freshness :: "publisher_options \<Rightarrow> publisher_env \<Rightarrow> oracle_state \<Rightarrow> unit pub_act" where
  "freshness opts env st = act_each (\<lambda>f.
     if \<not> fc_active (fs_cfg f) then act_ret ()
     else act_then (pub_gauge (''oracle_feed_age_s.'' @ fs_symbol f) (case feed_age (ov_chainNow st) f of None \<Rightarrow> - 1 | Some a \<Rightarrow> a))
         (act_then (act_when (sp_price (fs_snapshot f) > 0)
             (pub_gauge (''oracle_feed_price.'' @ fs_symbol f) (toFloat (sp_price (fs_snapshot f)))))
           (act_when (case feed_age (ov_chainNow st) f of None \<Rightarrow> True | Some a \<Rightarrow> a > pp_alertAfterSecs opts)
             (pub_alert opts env (''stale:'' @ fs_symbol f))))) (ov_feeds st)"

definition BACKOFF_MIN_MS :: int where "BACKOFF_MIN_MS = 5000"
definition BACKOFF_MAX_MS :: int where "BACKOFF_MAX_MS = 300000"

definition backoff_after :: "backoff option \<Rightarrow> string \<Rightarrow> int \<Rightarrow> backoff" where
  "backoff_after prev reason now =
     (let failures = (case prev of None \<Rightarrow> 0 | Some b \<Rightarrow> bo_failures b) + 1;
          delay = min BACKOFF_MAX_MS (BACKOFF_MIN_MS * 2 ^ (failures - 1))
      in \<lparr>bo_until = now + delay, bo_failures = failures, bo_reason = reason\<rparr>)"

definition backOff :: "publisher_env \<Rightarrow> string \<Rightarrow> string \<Rightarrow> unit pub_act" where
  "backOff env symbol reason =
     act_bind (pub_now env) (\<lambda>now.
     act_then (act_mod (\<lambda>s. s\<lparr>pb_backoff := (pb_backoff s)(symbol \<mapsto> backoff_after (pb_backoff s symbol) reason now)\<rparr>))
       (pub_count (''oracle_backoff_total.'' @ symbol) 1))"

fun hold_text :: "hold_reason \<Rightarrow> string" where
  "hold_text Hold_sources = ''sources''"
| "hold_text Hold_disagreement = ''disagreement''"
| "hold_text Hold_confidence = ''confidence''"
| "hold_text Hold_divergence = ''divergence''"
| "hold_text Hold_reference_unavailable = ''reference-unavailable''"
| "hold_text Hold_publish_time = ''publish-time''"
| "hold_text Hold_jump = ''jump''"
| "hold_text Hold_not_monotonic = ''not-monotonic''"

definition onHold :: "publisher_options \<Rightarrow> publisher_env \<Rightarrow> string \<Rightarrow> hold_reason \<Rightarrow> unit pub_act" where
  "onHold opts env symbol reason =
     act_then (pub_count (''oracle_hold_total.'' @ hold_text reason) 1)
       (act_when (reason = Hold_divergence) (pub_alert opts env (''divergence:'' @ symbol)))"

section \<open>The decisions\<close>

record pub_update =
  pu_feed :: feed_state
  pu_price :: int
  pu_confidence :: int
  pu_why :: publish_why

type_synonym decisions = "(string \<times> decision) list"

definition quotes_of :: "quote_map \<Rightarrow> string \<Rightarrow> source_quote list" where
  "quotes_of q s = (case q s of None \<Rightarrow> [] | Some qs \<Rightarrow> qs)"

definition is_traded :: "oracle_state \<Rightarrow> feed_state \<Rightarrow> bool" where
  "is_traded st f = (case ov_tradedFeedIds st of None \<Rightarrow> True | Some ids \<Rightarrow> lower (fs_id f) \<in> set ids)"

definition feed_policy :: "publisher_options \<Rightarrow> oracle_state \<Rightarrow> feed_state \<Rightarrow> policy_options" where
  "feed_policy opts st f = (if is_traded st f then pp_policy opts
     else case pp_idlePolicy opts of None \<Rightarrow> pp_policy opts | Some p \<Rightarrow> p)"

definition backing_off :: "(string \<Rightarrow> backoff option) \<Rightarrow> int \<Rightarrow> string \<Rightarrow> bool" where
  "backing_off bo nowMs symbol = (case bo symbol of None \<Rightarrow> False | Some b \<Rightarrow> bo_until b > nowMs)"

definition feed_decision ::
  "publisher_options \<Rightarrow> oracle_state \<Rightarrow> int \<Rightarrow> feed_state \<Rightarrow> aggregate_result \<Rightarrow> agg_throw + decision" where
  "feed_decision opts st publishTime f agg = decide f agg
     \<lparr>dc_self = pub_self opts, dc_publishers = ov_publishers st, dc_publishTime = publishTime, dc_chainNow = ov_chainNow st\<rparr>
     (feed_policy opts st f)"

definition note_dropped :: "string \<Rightarrow> aggregate_result \<Rightarrow> unit pub_act" where
  "note_dropped symbol agg = (case agg of Inl _ \<Rightarrow> act_ret ()
     | Inr a \<Rightarrow> act_when (ag_dropped a \<noteq> []) (pub_count (''oracle_source_dropped_total.'' @ symbol) (int (length (ag_dropped a)))))"

definition median_lift :: "agg_throw + 'a \<Rightarrow> 'a pub_act" where
  "median_lift r = (case r of Inl e \<Rightarrow> act_throw (Pub_median e) | Inr x \<Rightarrow> act_ret x)"

fun decide_feeds :: "publisher_options \<Rightarrow> publisher_env \<Rightarrow> oracle_state \<Rightarrow> quote_map \<Rightarrow> int \<Rightarrow> int \<Rightarrow> feed_state list \<Rightarrow> decisions
    \<Rightarrow> pub_update list \<Rightarrow> (decisions \<times> pub_update list) pub_act" where
  "decide_feeds opts env st quotes nowMs publishTime [] ds toPublish = act_ret (ds, toPublish)"
| "decide_feeds opts env st quotes nowMs publishTime (f # fs) ds toPublish =
     (let symbol = fs_symbol f; current = quotes_of quotes symbol in
      act_then (pub_gauge (''oracle_sources_live.'' @ symbol) (int (length current)))
     (act_bind (act_get pb_backoff) (\<lambda>bo.
      if backing_off bo nowMs symbol
      then decide_feeds opts env st quotes nowMs publishTime fs (set_field symbol (Hold Hold_sources) ds) toPublish
      else act_bind (median_lift (aggregate symbol current (pp_aggregate opts))) (\<lambda>agg.
        act_then (act_when (\<not> is_traded st f) (pub_count ''oracle_idle_feed_ticks_total'' 1))
       (act_bind (median_lift (feed_decision opts st publishTime f agg)) (\<lambda>d.
        act_then (case d of Hold r \<Rightarrow> onHold opts env symbol r | _ \<Rightarrow> act_ret ())
       (act_then (note_dropped symbol agg)
         (decide_feeds opts env st quotes nowMs publishTime fs (set_field symbol d ds)
            (case d of Publish price confidence _ why \<Rightarrow>
               toPublish @ [\<lparr>pu_feed = f, pu_price = price, pu_confidence = confidence, pu_why = why\<rparr>] | _ \<Rightarrow> toPublish)))))))))"

section \<open>A refused push\<close>

definition as_update :: "pub_update \<Rightarrow> string \<times> int \<times> int" where
  "as_update u = (fs_symbol (pu_feed u), pu_price u, pu_confidence u)"

definition isolate_one :: "publisher_options \<Rightarrow> publisher_env \<Rightarrow> int \<Rightarrow> pub_update \<Rightarrow> unit pub_act" where
  "isolate_one opts env publishTime u =
     act_bind (act_lift (encodePushPrices opts [as_update u] publishTime)) (\<lambda>one.
     act_bind (pub_ask (\<lambda>tr. Inr (pv_simulate env tr one)) (\<lambda>r. Ov_simulated (fs_symbol (pu_feed u)) (r = None))) (\<lambda>r.
     case r of None \<Rightarrow> act_ret ()
     | Some err \<Rightarrow> backOff env (fs_symbol (pu_feed u))
         (case de_errorName (decodeError (kd_abi (pp_deps opts)) err) of None \<Rightarrow> ''revert'' | Some n \<Rightarrow> n)))"

definition unknown_hit :: "oracle_revert \<Rightarrow> string list \<Rightarrow> pub_update list \<Rightarrow> pub_update option" where
  "unknown_hit cls errorArgs batch = (case errorArgs of [] \<Rightarrow> None
     | a # _ \<Rightarrow> if cls = Or_unknown_feed then find (\<lambda>u. lower (fs_id (pu_feed u)) = lower a) batch else None)"

definition onRevert :: "publisher_options \<Rightarrow> publisher_env \<Rightarrow> oracle_revert \<Rightarrow> string list \<Rightarrow> pub_update list \<Rightarrow> int \<Rightarrow> unit pub_act" where
  "onRevert opts env cls errorArgs batch publishTime =
     (if cls = Or_not_publisher then pub_alert opts env ''not-a-publisher''
      else if cls \<in> {Or_paused, Or_stale} then act_ret ()
      else case unknown_hit cls errorArgs batch of
        Some u \<Rightarrow> backOff env (fs_symbol (pu_feed u)) ''UnknownFeed''
      | None \<Rightarrow> act_each (isolate_one opts env publishTime) batch)"

section \<open>The push\<close>

datatype publisher_status = Pt_paused | Pt_not_publisher | Pt_depeg_halt | Pt_nothing_due | Pt_published | Pt_reverted | Pt_send_failed

record publisher_result =
  pt_status :: publisher_status
  pt_decisions :: decisions
  pt_outcomes :: "(string \<times> feed_outcome) list option"
  pt_revert :: "oracle_revert option"

definition pub_result :: "publisher_status \<Rightarrow> decisions \<Rightarrow> publisher_result" where
  "pub_result status ds = \<lparr>pt_status = status, pt_decisions = ds, pt_outcomes = None, pt_revert = None\<rparr>"

fun why_text :: "publish_why \<Rightarrow> string" where
  "why_text Why_new = ''new''"
| "why_text Why_deviation = ''deviation''"
| "why_text Why_heartbeat = ''heartbeat''"

fun oracle_skip_text :: "feed_skip \<Rightarrow> string" where
  "oracle_skip_text Skip_quorum = ''quorum''"
| "oracle_skip_text Skip_spread = ''spread''"
| "oracle_skip_text Skip_jump = ''jump''"
| "oracle_skip_text Skip_divergence = ''divergence''"
| "oracle_skip_text Skip_reference_unavailable = ''reference-unavailable''"
| "oracle_skip_text Skip_not_monotonic = ''not-monotonic''"

fun outcome_json :: "feed_outcome \<Rightarrow> json" where
  "outcome_json (Fo_updated p n re) = JObj [(''kind'', JStr ''updated''), (''price'', big_json p), (''sourceCount'', JNum n), (''reanchored'', JBool re)]"
| "outcome_json (Fo_skipped r c) = JObj [(''kind'', JStr ''skipped''), (''reason'', JStr (oracle_skip_text r)), (''candidate'', big_json c)]"
| "outcome_json Fo_observed = JObj [(''kind'', JStr ''observed'')]"

definition push_payload :: "publisher_options \<Rightarrow> (string \<times> int \<times> int) list \<Rightarrow> int \<Rightarrow> (string \<times> json) list" where
  "push_payload opts updates publishTime = [(''publisher'', JStr (pub_self opts)), (''publishTime'', JNum publishTime),
     (''updates'', JArr (map (\<lambda>(s, p, c). JObj [(''symbol'', JStr s), (''price'', big_json p), (''confidence'', big_json c)]) updates))]"

fun note_outcome :: "string \<Rightarrow> feed_outcome \<Rightarrow> unit pub_act" where
  "note_outcome symbol (Fo_updated price n re) =
     act_then (pub_count (''oracle_updated_total.'' @ symbol) 1)
    (act_then (pub_gauge (''oracle_last_price.'' @ symbol) (toFloat price))
       (act_when re (pub_count (''oracle_reanchor_total.'' @ symbol) 1)))"
| "note_outcome symbol (Fo_skipped r c) = pub_count (''oracle_skipped_total.'' @ oracle_skip_text r) 1"
| "note_outcome symbol Fo_observed = act_ret ()"

fun note_outcomes :: "(hex \<Rightarrow> feed_outcome option) \<Rightarrow> pub_update list \<Rightarrow> (string \<times> feed_outcome) list \<Rightarrow> (string \<times> feed_outcome) list pub_act" where
  "note_outcomes byId [] outcomes = act_ret outcomes"
| "note_outcomes byId (u # us) outcomes =
     (let symbol = fs_symbol (pu_feed u); r = (case byId (fs_id (pu_feed u)) of None \<Rightarrow> Fo_observed | Some x \<Rightarrow> x) in
      act_then (act_mod (\<lambda>s. s\<lparr>pb_backoff := (pb_backoff s)(symbol := None)\<rparr>))
     (act_then (note_outcome symbol r)
        (note_outcomes byId us (set_field symbol r outcomes))))"

definition pub_update_action :: "int \<Rightarrow> action_patch \<Rightarrow> unit pub_act" where
  "pub_update_action i p = on_keeper (update_action i p)"

text \<open>A push refused in pre-flight, a push that was broadcast, and the push.\<close>

definition push_refused :: "publisher_options \<Rightarrow> publisher_env \<Rightarrow> decisions \<Rightarrow> pub_update list \<Rightarrow> int \<Rightarrow> (string \<times> json) list \<Rightarrow> int \<Rightarrow> thrown
    \<Rightarrow> publisher_result pub_act" where
  "push_refused opts env ds batch publishTime payload i err =
     (let de = decodeError (kd_abi (pp_deps opts)) err; cls = classifyRevert (de_errorName de) in
      act_then (on_keeper (log_event (Ov_refused (de_errorName de) (de_errorArgs de))))
     (act_then (pub_count (''oracle_push_reverted_total.'' @ oracle_revert_text cls) 1)
     (act_then (pub_update_action i (no_action_patch\<lparr>kp_status := Some Act_failed, kp_payload := Some (JObj (payload
           @ [(''preflight'', JObj [(''errorName'', text_json (de_errorName de)), (''errorArgs'', JArr (map JStr (de_errorArgs de))),
                (''cls'', JStr (oracle_revert_text cls)), (''error'', JStr (errorMessage (th_fault err)))])]))\<rparr>))
     (act_then (onRevert opts env cls (de_errorArgs de) batch publishTime)
        (act_ret ((pub_result Pt_send_failed ds)\<lparr>pt_revert := Some cls\<rparr>))))))"

definition push_mined :: "publisher_options \<Rightarrow> event_log list \<Rightarrow> decisions \<Rightarrow> pub_update list \<Rightarrow> (string \<times> json) list \<Rightarrow> int \<Rightarrow> tx_receipt
    \<Rightarrow> publisher_result pub_act" where
  "push_mined opts logs ds batch payload i receipt =
     (let ended = no_action_patch\<lparr>kp_status := Some Act_failed, kp_blockNumber := Some (Some (rc_blockNumber receipt))\<rparr> in
      if \<not> rc_success receipt
      then act_then (pub_count ''oracle_push_reverted_total.onchain'' 1)
          (act_then (pub_update_action i ended) (act_ret (pub_result Pt_reverted ds)))
      else act_bind (note_outcomes (outcomesFromReceipt logs (pp_oracle opts)) batch []) (\<lambda>outcomes.
           act_then (pub_update_action i (ended\<lparr>kp_status := Some Act_confirmed,
                kp_payload := Some (JObj (payload @ [(''outcomes'', JObj (map (\<lambda>(s, r). (s, outcome_json r)) outcomes))]))\<rparr>))
             (act_ret ((pub_result Pt_published ds)\<lparr>pt_outcomes := Some outcomes\<rparr>))))"

definition push_sent :: "publisher_options \<Rightarrow> call_env \<Rightarrow> decisions \<Rightarrow> pub_update list \<Rightarrow> (string \<times> json) list \<Rightarrow> int \<Rightarrow> tx_job
    \<Rightarrow> publisher_result pub_act" where
  "push_sent opts ce ds batch payload i job =
     act_then (pub_update_action i (no_action_patch\<lparr>kp_status := Some Act_submitted, kp_txJobId := Some (Some (tj_id job))\<rparr>))
    (act_then (pub_count ''oracle_push_total'' 1)
    (act_bind (on_keeper (try_wait (pp_deps opts) ce job)) (\<lambda>out. case out of
       None \<Rightarrow> act_ret (pub_result Pt_send_failed ds)
     | Some receipt \<Rightarrow> push_mined opts (ce_logs ce (rc_hash receipt)) ds batch payload i receipt)))"

definition send_push :: "publisher_options \<Rightarrow> publisher_env \<Rightarrow> decisions \<Rightarrow> pub_update list \<Rightarrow> int \<Rightarrow> publisher_result pub_act" where
  "send_push opts env ds batch publishTime =
     (let updates = map as_update batch; payload = push_payload opts updates publishTime in
      act_bind (act_lift (encodePushPrices opts updates publishTime)) (\<lambda>data.
      act_bind (on_keeper (record_action (kd_network (pp_deps opts)) \<lparr>ai_kind = ''oracle.push'', ai_marketId = None, ai_account = None,
          ai_payload = JObj (payload @ [(''why'', JArr (map (\<lambda>u. JStr (why_text (pu_why u))) batch))]), ai_status = None, ai_txJobId = None\<rparr>)) (\<lambda>i.
      act_then (on_keeper (log_event (Ov_push updates publishTime)))
     (act_bind (on_keeper (try_submit (pp_deps opts) (pv_call env i) \<lparr>tr_to = pp_oracle opts, tr_data = data, tr_value = None, tr_gas = None,
          tr_label = ''oracle.push '' @ nat_text (length updates)\<rparr>)) (\<lambda>r. case r of
        Inl err \<Rightarrow> push_refused opts env ds batch publishTime payload i err
      | Inr job \<Rightarrow> push_sent opts (pv_call env i) ds batch payload i job)))))"

section \<open>The tick\<close>

definition is_publisher :: "publisher_options \<Rightarrow> oracle_state \<Rightarrow> bool" where
  "is_publisher opts st \<longleftrightarrow> list_ex (\<lambda>p. lower p = lower (pub_self opts)) (ov_publishers st)"

definition pub_collect :: "publisher_options \<Rightarrow> publisher_env \<Rightarrow> string list \<Rightarrow> int \<Rightarrow> quote_map pub_act" where
  "pub_collect opts env symbols nowMs =
     act_bind (act_get (\<lambda>s. collectQuotes (pv_sources env) symbols (pb_health s) nowMs (pp_maxQuoteAgeMs opts))) (\<lambda>(h, q).
     act_then (act_mod (\<lambda>s. s\<lparr>pb_health := h\<rparr>)) (act_then (on_keeper (log_event (Ov_quotes q))) (act_ret q)))"

definition usdc_readings :: "quote_map \<Rightarrow> int option \<Rightarrow> int list" where
  "usdc_readings q ref = map qt_price (quotes_of q ''USDC'') @ (case ref of None \<Rightarrow> [] | Some p \<Rightarrow> [p])"

definition publish_time :: "publisher_options \<Rightarrow> oracle_state \<Rightarrow> int \<Rightarrow> int" where
  "publish_time opts st nowMs = min (ov_chainNow st) (nowMs div 1000) - pp_backdateSecs opts"

definition pub_priced :: "publisher_options \<Rightarrow> publisher_env \<Rightarrow> oracle_state \<Rightarrow> quote_map \<Rightarrow> int \<Rightarrow> publisher_result pub_act" where
  "pub_priced opts env st quotes nowMs =
     (let publishTime = publish_time opts st nowMs in
      act_bind (decide_feeds opts env st quotes nowMs publishTime (ov_feeds st) [] []) (\<lambda>(ds, batch).
      act_then (freshness opts env st)
        (if batch = [] then act_ret (pub_result Pt_nothing_due ds) else send_push opts env ds batch publishTime)))"

definition pub_halted :: "publisher_options \<Rightarrow> publisher_env \<Rightarrow> oracle_state \<Rightarrow> publisher_result pub_act" where
  "pub_halted opts env st =
     act_then (pub_count ''oracle_depeg_halt_total'' 1)
    (act_then (pub_alert opts env ''depeg'')
    (act_then (freshness opts env st)
       (act_ret (pub_result Pt_depeg_halt []))))"

definition pub_live :: "publisher_options \<Rightarrow> publisher_env \<Rightarrow> oracle_state \<Rightarrow> publisher_result pub_act" where
  "pub_live opts env st =
     act_bind (pub_now env) (\<lambda>nowMs.
     act_bind (pub_collect opts env (map fs_symbol (filter (\<lambda>f. fc_listed (fs_cfg f) \<and> fc_active (fs_cfg f)) (ov_feeds st)) @ [''USDC'']) nowMs) (\<lambda>quotes.
     act_bind (act_catch (readUsdcReference opts env (ov_chainNow st)) (\<lambda>_. act_ret None)) (\<lambda>ref.
     act_then (on_keeper (log_event (Ov_usdc ref)))
    (act_bind (median_lift (depegGuard (usdc_readings quotes ref) (pp_usdcDepegHaltBps opts) (pp_depegFailClosed opts))) (\<lambda>peg. case peg of
       Peg_halt_no_reading \<Rightarrow> act_then (pub_gauge ''oracle_usdc_readings'' 0) (pub_halted opts env st)
     | Peg_halt_depeg _ n _ \<Rightarrow> act_then (pub_gauge ''oracle_usdc_readings'' (int n)) (pub_halted opts env st)
     | Peg_ok _ n deviation \<Rightarrow>
         act_then (pub_gauge ''oracle_usdc_readings'' (int n))
        (act_then (pub_gauge ''oracle_usdc_deviation_bps'' deviation)
           (pub_priced opts env st quotes nowMs)))))))"

definition publisher_tick :: "publisher_options \<Rightarrow> publisher_env \<Rightarrow> publisher_result pub_act" where
  "publisher_tick opts env =
     act_bind (readState opts env) (\<lambda>st.
     act_then (pub_gauge ''oracle_paused'' (if ov_paused st then 1 else 0))
     (if ov_paused st then act_ret (pub_result Pt_paused [])
      else if \<not> is_publisher opts st
      then act_then (pub_count ''oracle_not_publisher_total'' 1)
          (act_then (pub_alert opts env ''not-a-publisher'') (act_ret (pub_result Pt_not_publisher [])))
      else pub_live opts env st))"

end
