(* ===== verification/Publisher_Safety.thy ===== *)
theory Publisher_Safety
  imports Oracle_Publisher
begin

text \<open>
  What a tick of the publisher can do: it pushes once, what is due and nothing else, and a refused push holds back only the feeds that are to blame.
  The proofs follow the tick with predicates of the trace and the back-off, \<open>calm\<close> up to the push, then
  \<open>sent_only\<close>, \<open>isolated\<close> and \<open>mined\<close> for the stages of the push.
\<close>

section \<open>What is quiet\<close>

text \<open>
  A predicate that looks only at the back-off and at the pushes, refusals and simulations of the trace survives everything
  the publisher does beside sending.
\<close>

abbreviation pub_trace :: "publisher \<Rightarrow> publisher_event list" where
  "pub_trace s \<equiv> kk_trace (pb_keeper s)"

fun loud :: "publisher_event \<Rightarrow> bool" where
  "loud (Ov_push _ _) \<longleftrightarrow> True"
| "loud (Ov_refused _ _) \<longleftrightarrow> True"
| "loud (Ov_simulated _ _) \<longleftrightarrow> True"
| "loud _ \<longleftrightarrow> False"

definition steady :: "(publisher \<Rightarrow> bool) \<Rightarrow> bool" where
  "steady J \<longleftrightarrow> (\<forall>s t es. J s \<longrightarrow> pb_backoff t = pb_backoff s \<longrightarrow> pub_trace t = pub_trace s @ es \<longrightarrow> (\<forall>e \<in> set es. \<not> loud e) \<longrightarrow> J t)"

lemma steadyD: "steady J \<Longrightarrow> J s \<Longrightarrow> pb_backoff t = pb_backoff s \<Longrightarrow> pub_trace t = pub_trace s @ es \<Longrightarrow> (\<And>e. e \<in> set es \<Longrightarrow> \<not> loud e) \<Longrightarrow> J t"
  unfolding steady_def by blast

lemma steady_same: "steady J \<Longrightarrow> J s \<Longrightarrow> pb_backoff t = pb_backoff s \<Longrightarrow> pub_trace t = pub_trace s \<Longrightarrow> J t"
  by (rule steadyD [where es = "[]"]) simp_all

lemma steady_snoc: "steady J \<Longrightarrow> J s \<Longrightarrow> pb_backoff t = pb_backoff s \<Longrightarrow> pub_trace t = pub_trace s @ [e] \<Longrightarrow> \<not> loud e \<Longrightarrow> J t"
  by (rule steadyD [where es = "[e]"]) simp_all

lemma wp_on_keeper [act_wp]:
  "wp (on_keeper m) Q E = (\<lambda>s. wp m (\<lambda>x t. Q x (s\<lparr>pb_keeper := t\<rparr>)) (\<lambda>e t. E (Pub_keeper e) (s\<lparr>pb_keeper := t\<rparr>)) (pb_keeper s))"
  by (simp add: wp_def on_keeper_def fun_eq_iff split: prod.splits sum.splits)

lemma wp_pub_ask [act_wp]:
  "wp (pub_ask answer event) Q E = (\<lambda>s. case answer (pub_trace s) of Inl e \<Rightarrow> E (Pub_keeper (Read_fault e)) s
     | Inr x \<Rightarrow> Q x (s\<lparr>pb_keeper := (pb_keeper s)\<lparr>kk_trace := pub_trace s @ [event x]\<rparr>\<rparr>))"
  by (simp add: pub_ask_def act_wp fun_eq_iff split: sum.splits)

lemma wp_pub_now [act_wp]:
  "wp (pub_now env) Q E = (\<lambda>s. Q (pv_clock env (pub_trace s))
     (s\<lparr>pb_keeper := (pb_keeper s)\<lparr>kk_trace := pub_trace s @ [Ov_clock (pv_clock env (pub_trace s))]\<rparr>\<rparr>))"
  by (simp add: pub_now_def act_wp)

lemma keeps_pub_ask: "steady J \<Longrightarrow> (\<And>x. \<not> loud (event x)) \<Longrightarrow> keeps J (pub_ask answer event)"
  unfolding keeps_def wp_pub_ask by (auto split: sum.splits elim: steady_snoc)

lemma keeps_pub_log: "steady J \<Longrightarrow> \<not> loud e \<Longrightarrow> keeps J (on_keeper (log_event e))"
  unfolding keeps_def by (auto simp: act_wp elim: steady_snoc)

lemma keeps_pub_now [act_keeps]: "steady J \<Longrightarrow> keeps J (pub_now env)"
  unfolding pub_now_def by (rule keeps_pub_ask) auto

lemma keeps_pub_silent [act_keeps]:
  "steady J \<Longrightarrow> keeps J (pub_count name n)" "steady J \<Longrightarrow> keeps J (pub_gauge name v)"
  "steady J \<Longrightarrow> keeps J (on_keeper (record_action network i))" "steady J \<Longrightarrow> keeps J (pub_update_action k p)"
  "steady J \<Longrightarrow> keeps J (act_mod (\<lambda>s. s\<lparr>pb_lastAlert := f s\<rparr>))" "steady J \<Longrightarrow> keeps J (act_mod (\<lambda>s. s\<lparr>pb_markets := g s\<rparr>))"
  "steady J \<Longrightarrow> keeps J (act_mod (\<lambda>s. s\<lparr>pb_health := h s\<rparr>))"
  by (auto simp: keeps_def act_wp pub_count_def pub_gauge_def pub_update_action_def elim: steady_same)

lemma keeps_median_lift [act_keeps]: "keeps J (median_lift r)"
  by (auto simp: median_lift_def intro: act_keeps)

lemma keeps_pub_alert [act_keeps]: "steady J \<Longrightarrow> keeps J (pub_alert opts env key)"
  unfolding pub_alert_def by (intro act_keeps keeps_pub_log) auto

lemma keeps_freshness [act_keeps]: "steady J \<Longrightarrow> keeps J (freshness opts env st)"
  unfolding freshness_def by (intro act_keeps)

lemma keeps_onHold [act_keeps]: "steady J \<Longrightarrow> keeps J (onHold opts env symbol r)"
  unfolding onHold_def by (intro act_keeps)

lemma keeps_note_dropped [act_keeps]: "steady J \<Longrightarrow> keeps J (note_dropped symbol agg)"
  unfolding note_dropped_def by (intro act_keeps)

lemma keeps_read_traded: "steady J \<Longrightarrow> keeps J (read_traded env now)"
  unfolding read_traded_def by (intro act_keeps keeps_pub_ask) auto

lemma keeps_tradedFeedIds [act_keeps]: "steady J \<Longrightarrow> keeps J (tradedFeedIds opts env now)"
  unfolding tradedFeedIds_def by (auto intro!: act_keeps keeps_read_traded split: option.splits)

lemma keeps_readUsdc [act_keeps]: "steady J \<Longrightarrow> keeps J (readUsdcReference opts env now)"
  unfolding readUsdcReference_def by (auto intro!: act_keeps keeps_pub_ask split: option.splits)

section \<open>Before the push\<close>

fun pushes :: "publisher_event list \<Rightarrow> ((string \<times> int \<times> int) list \<times> int) list" where
  "pushes [] = []"
| "pushes (e # es) = (case e of Ov_push us t \<Rightarrow> (us, t) # pushes es | _ \<Rightarrow> pushes es)"

lemma pushes_append [simp]: "pushes (xs @ ys) = pushes xs @ pushes ys"
  by (induction xs) (auto split: publisher_event.splits)

lemma pushes_quiet: "\<forall>e \<in> set es. \<not> loud e \<Longrightarrow> pushes es = []"
  by (induction es) (auto split: publisher_event.splits)

text \<open>Nothing sent, nothing refused, the back-off as it was, and the events of \<open>T\<close> seen.\<close>

definition calm :: "(string \<Rightarrow> backoff option) \<Rightarrow> publisher_event set \<Rightarrow> publisher \<Rightarrow> bool" where
  "calm bo T s \<longleftrightarrow> pb_backoff s = bo \<and> (\<forall>e \<in> set (pub_trace s). \<not> loud e) \<and> T \<subseteq> set (pub_trace s)"

lemma steady_calm [intro, simp]: "steady (calm bo T)"
  by (auto simp: steady_def calm_def)

lemma calm_mono: "calm bo T s \<Longrightarrow> S \<subseteq> T \<Longrightarrow> calm bo S s"
  by (auto simp: calm_def)

lemma wp_calm: "keeps (calm bo T) m \<Longrightarrow> calm bo T s \<Longrightarrow> wp m (\<lambda>_. calm bo T) (\<lambda>_. calm bo T) s"
  by (simp add: keeps_def)

lemma calm_backoff: "calm bo T s \<Longrightarrow> pb_backoff s = bo"
  by (simp add: calm_def)

text \<open>Quiet steps before the rest of an action.\<close>

lemma wp_then_calm:
  assumes "keeps (calm bo T) m" and "calm bo T s" and "\<And>t. calm bo T t \<Longrightarrow> wp k Q (\<lambda>_. calm bo T) t"
  shows "wp (act_then m k) Q (\<lambda>_. calm bo T) s"
  unfolding wp_then by (rule wp_mono [OF wp_calm [OF assms(1,2)]]) (use assms(3) in auto)

lemma wp_bind_calm:
  assumes "keeps (calm bo T) m" and "calm bo T s" and "\<And>x t. calm bo T t \<Longrightarrow> wp (k x) Q (\<lambda>_. calm bo T) t"
  shows "wp (act_bind m k) Q (\<lambda>_. calm bo T) s"
  unfolding wp_bind by (rule wp_mono [OF wp_calm [OF assms(1,2)]]) (use assms(3) in auto)

lemma wp_median:
  assumes "calm bo T s" and "\<And>x. r = Inr x \<Longrightarrow> wp (k x) Q (\<lambda>_. calm bo T) s"
  shows "wp (act_bind (median_lift r) k) Q (\<lambda>_. calm bo T) s"
  using assms by (cases r) (simp_all add: median_lift_def act_wp)

lemma wp_ifI: "(b \<Longrightarrow> wp m Q E s) \<Longrightarrow> (\<not> b \<Longrightarrow> wp k Q E s) \<Longrightarrow> wp (if b then m else k) Q E s"
  by simp

text \<open>The updates that are due: the feeds not backing off for which the decision is to publish.\<close>

definition due_update :: "publisher_options \<Rightarrow> oracle_state \<Rightarrow> quote_map \<Rightarrow> (string \<Rightarrow> backoff option) \<Rightarrow> int \<Rightarrow> int \<Rightarrow> feed_state \<Rightarrow> pub_update list" where
  "due_update opts st q bo nowMs publishTime f =
     (if backing_off bo nowMs (fs_symbol f) then []
      else case aggregate (fs_symbol f) (quotes_of q (fs_symbol f)) (pp_aggregate opts) of Inl _ \<Rightarrow> []
      | Inr agg \<Rightarrow> (case feed_decision opts st publishTime f agg of
          Inr (Publish price confidence _ why) \<Rightarrow> [\<lparr>pu_feed = f, pu_price = price, pu_confidence = confidence, pu_why = why\<rparr>]
        | _ \<Rightarrow> []))"

definition due_updates :: "publisher_options \<Rightarrow> oracle_state \<Rightarrow> quote_map \<Rightarrow> (string \<Rightarrow> backoff option) \<Rightarrow> int \<Rightarrow> int \<Rightarrow> pub_update list" where
  "due_updates opts st q bo nowMs publishTime = concat (map (due_update opts st q bo nowMs publishTime) (ov_feeds st))"

lemma decide_feeds_spec:
  assumes "calm bo T s"
  shows "wp (decide_feeds opts env st q nowMs pt fs ds acc)
     (\<lambda>r t. calm bo T t \<and> snd r = acc @ concat (map (due_update opts st q bo nowMs pt) fs)) (\<lambda>_. calm bo T) s"
  using assms
proof (induction fs arbitrary: ds acc s)
  case Nil
  then show ?case by (simp add: act_wp)
next
  case (Cons f fs)
  let ?Q = "\<lambda>r t. calm bo T t \<and> snd r = acc @ concat (map (due_update opts st q bo nowMs pt) (f # fs))"
  have rest: "wp (decide_feeds opts env st q nowMs pt fs ds' acc') ?Q (\<lambda>_. calm bo T) t"
    if "calm bo T t" "acc' = acc @ due_update opts st q bo nowMs pt f" for ds' acc' t
    by (rule wp_mono [OF Cons.IH [OF that(1)]]) (simp_all add: that(2))
  show ?case
  proof (simp only: decide_feeds.simps Let_def, rule wp_then_calm [OF keeps_pub_silent(2) [OF steady_calm] Cons.prems],
      simp only: wp_bind wp_get, rule wp_ifI)
    fix t
    assume t: "calm bo T t" and "backing_off (pb_backoff t) nowMs (fs_symbol f)"
    then show "wp (decide_feeds opts env st q nowMs pt fs (set_field (fs_symbol f) (Hold Hold_sources) ds) acc) ?Q (\<lambda>_. calm bo T) t"
      by (intro rest) (simp_all add: due_update_def calm_backoff)
  next
    fix t
    assume t: "calm bo T t" and bo: "\<not> backing_off (pb_backoff t) nowMs (fs_symbol f)"
    show "wp (act_bind (median_lift (aggregate (fs_symbol f) (quotes_of q (fs_symbol f)) (pp_aggregate opts))) (\<lambda>agg.
        act_then (act_when (\<not> is_traded st f) (pub_count ''oracle_idle_feed_ticks_total'' 1))
       (act_bind (median_lift (feed_decision opts st pt f agg)) (\<lambda>d.
        act_then (case d of Hold r \<Rightarrow> onHold opts env (fs_symbol f) r | _ \<Rightarrow> act_ret ())
       (act_then (note_dropped (fs_symbol f) agg)
         (decide_feeds opts env st q nowMs pt fs (set_field (fs_symbol f) d ds)
            (case d of Publish price confidence _ why \<Rightarrow>
               acc @ [\<lparr>pu_feed = f, pu_price = price, pu_confidence = confidence, pu_why = why\<rparr>] | _ \<Rightarrow> acc))))))) ?Q (\<lambda>_. calm bo T) t"
    proof (rule wp_median [OF t], rule wp_then_calm [OF _ t], (intro act_keeps steady_calm)[1], rule wp_median, assumption,
        rule wp_then_calm, (auto split: decision.splits intro!: act_keeps)[1], assumption, rule wp_then_calm, (intro act_keeps steady_calm)[1], assumption)
      fix agg d u
      assume "aggregate (fs_symbol f) (quotes_of q (fs_symbol f)) (pp_aggregate opts) = Inr agg" "feed_decision opts st pt f agg = Inr d" "calm bo T u"
      then show "wp (decide_feeds opts env st q nowMs pt fs (set_field (fs_symbol f) d ds)
            (case d of Publish price confidence _ why \<Rightarrow>
               acc @ [\<lparr>pu_feed = f, pu_price = price, pu_confidence = confidence, pu_why = why\<rparr>] | _ \<Rightarrow> acc)) ?Q (\<lambda>_. calm bo T) u"
        using bo calm_backoff [OF t] by (intro rest) (auto simp: due_update_def split: decision.splits)
    qed
  qed
qed

lemma calm_log:
  "calm bo T s \<Longrightarrow> \<not> loud e \<Longrightarrow> calm bo (insert e T) (s\<lparr>pb_keeper := (pb_keeper s)\<lparr>kk_trace := pub_trace s @ [e]\<rparr>\<rparr>)"
  by (auto simp: calm_def)

lemma readState_spec:
  assumes "calm bo T s"
  shows "wp (readState opts env) (\<lambda>st. calm bo (insert (Ov_state st) T)) (\<lambda>_. calm bo T) s"
  unfolding readState_def Let_def case_prod_beta
  by (intro wp_bind_calm [OF _ assms] wp_bind_calm keeps_pub_ask keeps_pub_now keeps_tradedFeedIds act_keeps steady_calm)
     (auto simp: act_wp intro!: calm_log)

text \<open>How a tick comes to a push: only then is anything loud.\<close>

definition push_reason :: "publisher_options \<Rightarrow> (string \<Rightarrow> backoff option) \<Rightarrow> oracle_state \<Rightarrow> quote_map \<Rightarrow> int option \<Rightarrow> int \<Rightarrow> bool" where
  "push_reason opts bo st q ref nowMs \<longleftrightarrow> \<not> ov_paused st \<and> is_publisher opts st
     \<and> (\<exists>p n d. depegGuard (usdc_readings q ref) (pp_usdcDepegHaltBps opts) (pp_depegFailClosed opts) = Inr (Peg_ok p n d))"

text \<open>Why a tick that returns has pushed nothing.\<close>

definition held_back :: "publisher_options \<Rightarrow> (string \<Rightarrow> backoff option) \<Rightarrow> publisher_event list \<Rightarrow> publisher_result \<Rightarrow> bool" where
  "held_back opts bo tr r \<longleftrightarrow> (\<exists>st. Ov_state st \<in> set tr
     \<and> (ov_paused st \<and> pt_status r = Pt_paused
        \<or> \<not> is_publisher opts st \<and> pt_status r = Pt_not_publisher
        \<or> (\<exists>q ref. {Ov_usdc ref, Ov_quotes q} \<subseteq> set tr \<and> pt_status r = Pt_depeg_halt
            \<and> (\<forall>p n d. depegGuard (usdc_readings q ref) (pp_usdcDepegHaltBps opts) (pp_depegFailClosed opts) \<noteq> Inr (Peg_ok p n d)))
        \<or> (\<exists>q ref nowMs. {Ov_usdc ref, Ov_quotes q, Ov_clock nowMs} \<subseteq> set tr \<and> push_reason opts bo st q ref nowMs
            \<and> due_updates opts st q bo nowMs (publish_time opts st nowMs) = [] \<and> pt_status r = Pt_nothing_due)))"

lemma publisher_tick_shape:
  assumes s: "calm bo {} s"
    and quiet: "\<And>r t. calm bo {} t \<Longrightarrow> held_back opts bo (pub_trace t) r \<Longrightarrow> Q r t" and fail: "\<And>e t. calm bo {} t \<Longrightarrow> E e t"
    and send: "\<And>st q ref nowMs ds t. calm bo {Ov_usdc ref, Ov_quotes q, Ov_clock nowMs, Ov_state st} t \<Longrightarrow> push_reason opts bo st q ref nowMs
       \<Longrightarrow> due_updates opts st q bo nowMs (publish_time opts st nowMs) \<noteq> []
       \<Longrightarrow> wp (send_push opts env ds (due_updates opts st q bo nowMs (publish_time opts st nowMs)) (publish_time opts st nowMs)) Q E t"
  shows "wp (publisher_tick opts env) Q E s"
proof -
  have err: "E e t" if "calm bo T t" for e t T using fail calm_mono [OF that] by blast
  have ret: "wp (act_ret r) Q E t" if "calm bo T t" "held_back opts bo (pub_trace t) r" for r t T
    using quiet calm_mono [OF that(1)] that(2) by (simp add: act_wp)
  have step: "wp (act_bind m k) Q E u" if "calm bo T u" "keeps (calm bo T) m" "\<And>x t. calm bo T t \<Longrightarrow> wp (k x) Q E t"
    for m :: "'x pub_act" and k T u
    unfolding wp_bind by (rule wp_mono [OF wp_calm [OF that(2,1)]]) (use that(3) err in auto)
  have then_step: "wp (act_then m k') Q E u" if "calm bo T u" "keeps (calm bo T) m" "\<And>t. calm bo T t \<Longrightarrow> wp k' Q E t"
    for m :: "unit pub_act" and k' T u
    unfolding act_then_def by (rule step [OF that])
  have log: "wp (act_then (on_keeper (log_event e)) k) Q E u"
    if "calm bo T u" "\<not> loud e" "\<And>t. calm bo (insert e T) t \<Longrightarrow> wp k Q E t" for e k T u
    using that(3) calm_log [OF that(1,2)] by (simp add: act_wp)
  have now: "wp (act_bind (pub_now env) k) Q E u" if "calm bo T u" "\<And>n t. calm bo (insert (Ov_clock n) T) t \<Longrightarrow> wp (k n) Q E t" for k T u
    using that(2) calm_log [OF that(1), of "Ov_clock _"] by (simp add: act_wp)
  have collect: "wp (act_bind (pub_collect opts env symbols nowMs) k) Q E u"
    if u: "calm bo T u" and k: "\<And>q t. calm bo (insert (Ov_quotes q) T) t \<Longrightarrow> wp (k q) Q E t" for symbols nowMs k T u
  proof -
    have "calm bo T (u\<lparr>pb_health := h\<rparr>)" for h using u by (simp add: calm_def)
    from calm_log [OF this, of "Ov_quotes _"] show ?thesis by (auto simp: pub_collect_def act_wp intro!: k split: prod.splits)
  qed
  have halted: "wp (pub_halted opts env st) Q E t" if "calm bo {Ov_usdc ref, Ov_quotes q, Ov_clock nowMs, Ov_state st} t"
      "\<forall>p n d. depegGuard (usdc_readings q ref) (pp_usdcDepegHaltBps opts) (pp_depegFailClosed opts) \<noteq> Inr (Peg_ok p n d)" for st q ref nowMs t
  proof -
    have "wp (act_ret (pub_result Pt_depeg_halt [])) Q E u" if "calm bo {Ov_usdc ref, Ov_quotes q, Ov_clock nowMs, Ov_state st} u" for u
      using that \<open>\<forall>p n d. _\<close> by (intro ret [OF that]) (auto simp: held_back_def pub_result_def calm_def)
    then show ?thesis
      unfolding pub_halted_def by (intro then_step [OF that(1)] then_step act_keeps steady_calm) auto
  qed
  have priced: "wp (pub_priced opts env st q nowMs) Q E t"
    if t: "calm bo {Ov_usdc ref, Ov_quotes q, Ov_clock nowMs, Ov_state st} t" and reason: "push_reason opts bo st q ref nowMs" for st q nowMs ref t
    unfolding pub_priced_def Let_def wp_bind
  proof (rule wp_mono [OF decide_feeds_spec [OF t]], unfold case_prod_beta)
    fix r :: "decisions \<times> pub_update list" and u
    assume "calm bo {Ov_usdc ref, Ov_quotes q, Ov_clock nowMs, Ov_state st} u \<and>
        snd r = [] @ concat (map (due_update opts st q bo nowMs (publish_time opts st nowMs)) (ov_feeds st))"
    then have u: "calm bo {Ov_usdc ref, Ov_quotes q, Ov_clock nowMs, Ov_state st} u"
      and batch: "snd r = due_updates opts st q bo nowMs (publish_time opts st nowMs)" by (simp_all add: due_updates_def)
    show "wp (act_then (freshness opts env st) (if snd r = [] then act_ret (pub_result Pt_nothing_due (fst r))
         else send_push opts env (fst r) (snd r) (publish_time opts st nowMs))) Q E u"
    proof (rule then_step [OF u keeps_freshness [OF steady_calm]])
      fix x
      assume x: "calm bo {Ov_usdc ref, Ov_quotes q, Ov_clock nowMs, Ov_state st} x"
      have "held_back opts bo (pub_trace x) (pub_result Pt_nothing_due (fst r))" if "snd r = []"
        using x reason that unfolding held_back_def batch calm_def by (auto simp: pub_result_def)
      then show "wp (if snd r = [] then act_ret (pub_result Pt_nothing_due (fst r))
         else send_push opts env (fst r) (snd r) (publish_time opts st nowMs)) Q E x"
        using send [OF x reason] ret [OF x] by (simp add: batch)
    qed
  qed (rule err)
  have live: "wp (pub_live opts env st) Q E t" if t: "calm bo {Ov_state st} t" "\<not> ov_paused st" "is_publisher opts st" for st t
    unfolding pub_live_def
  proof (rule now [OF t(1)], rule collect, assumption, rule step, assumption)
    fix nowMs q u
    show "keeps (calm bo T) (act_catch (readUsdcReference opts env (ov_chainNow st)) (\<lambda>_. act_ret None))" for T by (intro act_keeps steady_calm)
    fix ref u
    assume u: "calm bo {Ov_quotes q, Ov_clock nowMs, Ov_state st} u"
    have gauge: "wp (act_then (pub_gauge n v) k) Q E x" if "calm bo T x" "\<And>y. calm bo T y \<Longrightarrow> wp k Q E y" for n v k T x
      by (rule then_step [OF that(1) _ that(2)]) (intro act_keeps steady_calm, assumption)
    show "wp (act_then (on_keeper (log_event (Ov_usdc ref)))
        (act_bind (median_lift (depegGuard (usdc_readings q ref) (pp_usdcDepegHaltBps opts) (pp_depegFailClosed opts))) (\<lambda>peg. case peg of
         Peg_ok _ n deviation \<Rightarrow>
           act_then (pub_gauge ''oracle_usdc_readings'' (int n))
          (act_then (pub_gauge ''oracle_usdc_deviation_bps'' deviation) (pub_priced opts env st q nowMs))
       | Peg_halt_depeg _ n _ \<Rightarrow> act_then (pub_gauge ''oracle_usdc_readings'' (int n)) (pub_halted opts env st)
       | Peg_halt_no_reading \<Rightarrow> act_then (pub_gauge ''oracle_usdc_readings'' 0) (pub_halted opts env st)))) Q E u"
    proof (rule log [OF u])
      fix x
      assume x: "calm bo {Ov_usdc ref, Ov_quotes q, Ov_clock nowMs, Ov_state st} x"
      have halt: "wp (act_then (pub_gauge ''oracle_usdc_readings'' n) (pub_halted opts env st)) Q E x"
        if "\<forall>p n d. depegGuard (usdc_readings q ref) (pp_usdcDepegHaltBps opts) (pp_depegFailClosed opts) \<noteq> Inr (Peg_ok p n d)" for n
        by (rule gauge [OF x halted [OF _ that]])
      have ok: "wp (act_then (pub_gauge ''oracle_usdc_readings'' (int n))
          (act_then (pub_gauge ''oracle_usdc_deviation_bps'' d) (pub_priced opts env st q nowMs))) Q E x"
        if "depegGuard (usdc_readings q ref) (pp_usdcDepegHaltBps opts) (pp_depegFailClosed opts) = Inr (Peg_ok p n d)" for p n d
        using t(2,3) that by (intro gauge [OF x gauge] priced) (auto simp: push_reason_def)
      show "wp (act_bind (median_lift (depegGuard (usdc_readings q ref) (pp_usdcDepegHaltBps opts) (pp_depegFailClosed opts))) (\<lambda>peg. case peg of
         Peg_ok _ n deviation \<Rightarrow>
           act_then (pub_gauge ''oracle_usdc_readings'' (int n))
          (act_then (pub_gauge ''oracle_usdc_deviation_bps'' deviation) (pub_priced opts env st q nowMs))
       | Peg_halt_depeg _ n _ \<Rightarrow> act_then (pub_gauge ''oracle_usdc_readings'' (int n)) (pub_halted opts env st)
       | Peg_halt_no_reading \<Rightarrow> act_then (pub_gauge ''oracle_usdc_readings'' 0) (pub_halted opts env st))) Q E x"
        using err [OF x] ok halt
        by (auto simp: median_lift_def wp_bind wp_throw wp_ret split: sum.splits depeg_verdict.splits)
    qed simp
  qed
  show ?thesis
    unfolding publisher_tick_def wp_bind
  proof (rule wp_mono [OF readState_spec [OF s]])
    fix st t
    assume "calm bo {Ov_state st} t"
    then show "wp (act_then (pub_gauge ''oracle_paused'' (if ov_paused st then 1 else 0))
       (if ov_paused st then act_ret (pub_result Pt_paused [])
        else if \<not> is_publisher opts st
        then act_then (pub_count ''oracle_not_publisher_total'' 1)
            (act_then (pub_alert opts env ''not-a-publisher'') (act_ret (pub_result Pt_not_publisher [])))
        else pub_live opts env st)) Q E t"
    proof (rule then_step [OF _ keeps_pub_silent(2) [OF steady_calm]])
      fix u
      assume u: "calm bo {Ov_state st} u"
      have seen: "Ov_state st \<in> set (pub_trace u)" using u by (simp add: calm_def)
      have paused: "wp (act_ret (pub_result Pt_paused [])) Q E u" if "ov_paused st"
        using seen that by (intro ret [OF u]) (auto simp: held_back_def pub_result_def)
      have stranger: "wp (act_then (pub_count n v) (act_then (pub_alert opts env key) (act_ret (pub_result Pt_not_publisher [])))) Q E u"
        if "\<not> is_publisher opts st" for n v key
      proof (rule then_step [OF u keeps_pub_silent(1) [OF steady_calm]], rule then_step [OF _ keeps_pub_alert [OF steady_calm]], assumption)
        fix x
        assume x: "calm bo {Ov_state st} x"
        then show "wp (act_ret (pub_result Pt_not_publisher [])) Q E x"
          using that by (intro ret [OF x]) (auto simp: held_back_def pub_result_def calm_def)
      qed
      from paused stranger live [OF u] show "wp (if ov_paused st then act_ret (pub_result Pt_paused [])
        else if \<not> is_publisher opts st
        then act_then (pub_count ''oracle_not_publisher_total'' 1)
            (act_then (pub_alert opts env ''not-a-publisher'') (act_ret (pub_result Pt_not_publisher [])))
        else pub_live opts env st) Q E u" by simp
    qed
  qed (rule err)
qed

section \<open>After the push\<close>

definition symbols_of :: "pub_update list \<Rightarrow> string list" where
  "symbols_of us = map (\<lambda>u. fs_symbol (pu_feed u)) us"

lemma symbols_of_simps [simp]: "symbols_of [] = []" "symbols_of (u # us) = fs_symbol (pu_feed u) # symbols_of us"
  by (simp_all add: symbols_of_def)

lemma map_fst_as_update [simp]: "map fst (map as_update us) = symbols_of us"
  by (simp add: symbols_of_def as_update_def)

text \<open>What a refused push does to the back-off of a feed: one step, taken at a time that was read.\<close>

definition stepped_back :: "(string \<Rightarrow> backoff option) \<Rightarrow> publisher \<Rightarrow> string \<Rightarrow> bool" where
  "stepped_back bo t symbol \<longleftrightarrow> (\<exists>now reason. Ov_clock now \<in> set (pub_trace t) \<and> pb_backoff t symbol = Some (backoff_after (bo symbol) reason now))"

text \<open>While a refused batch is taken apart: the feeds of \<open>D\<close> have been simulated, and exactly those that failed stepped back.\<close>

definition isolated :: "(string \<Rightarrow> backoff option) \<Rightarrow> publisher_event set \<Rightarrow> (string \<times> int \<times> int) list \<times> int \<Rightarrow> string set \<Rightarrow> publisher \<Rightarrow> bool" where
  "isolated bo T p D t \<longleftrightarrow> T \<subseteq> set (pub_trace t) \<and> pushes (pub_trace t) = [p]
     \<and> (\<forall>symbol b. Ov_simulated symbol b \<in> set (pub_trace t) \<longrightarrow> symbol \<in> D)
     \<and> (\<forall>symbol. pb_backoff t symbol = bo symbol \<and> Ov_simulated symbol False \<notin> set (pub_trace t)
          \<or> stepped_back bo t symbol \<and> Ov_simulated symbol False \<in> set (pub_trace t) \<and> Ov_simulated symbol True \<notin> set (pub_trace t))"

lemma wp_backOff [act_wp]:
  "wp (backOff env symbol reason) Q E = (\<lambda>s. let now = pv_clock env (pub_trace s) in
     Q () (s\<lparr>pb_backoff := (pb_backoff s)(symbol \<mapsto> backoff_after (pb_backoff s symbol) reason now),
        pb_keeper := (pb_keeper s)\<lparr>kk_trace := pub_trace s @ [Ov_clock now],
           kk_metrics := inc (''oracle_backoff_total.'' @ symbol) 1 (kk_metrics (pb_keeper s))\<rparr>\<rparr>))"
  by (simp add: backOff_def pub_count_def act_wp Let_def)

lemma isolated_step:
  assumes s: "isolated bo T p D s" and new: "symbol \<notin> D"
    and tr: "pub_trace t = pub_trace s @ Ov_simulated symbol ok # es" and quiet: "\<forall>e \<in> set es. \<not> loud e"
    and same: "\<And>x. x \<noteq> symbol \<Longrightarrow> pb_backoff t x = pb_backoff s x"
    and ok: "ok \<Longrightarrow> pb_backoff t symbol = pb_backoff s symbol"
    and fail: "\<not> ok \<Longrightarrow> Ov_clock now \<in> set es \<and> pb_backoff t symbol = Some (backoff_after (pb_backoff s symbol) reason now)"
  shows "isolated bo T p (insert symbol D) t"
proof -
  have old: "Ov_simulated symbol b \<notin> set (pub_trace s)" for b using s new unfolding isolated_def by blast
  have sims: "Ov_simulated x b \<in> set (pub_trace t) \<longleftrightarrow> Ov_simulated x b \<in> set (pub_trace s) \<or> (x = symbol \<and> b = ok)" for x b
    using quiet by (auto simp: tr)
  have steps: "stepped_back bo s x \<Longrightarrow> x \<noteq> symbol \<Longrightarrow> stepped_back bo t x" for x
    unfolding stepped_back_def by (auto simp: same tr)
  have start: "pb_backoff s symbol = bo symbol" using s old unfolding isolated_def by blast
  have "stepped_back bo t symbol" if "\<not> ok" using fail [OF that] start unfolding stepped_back_def by (auto simp: tr)
  then have at: "pb_backoff t x = bo x \<and> Ov_simulated x False \<notin> set (pub_trace t)
      \<or> stepped_back bo t x \<and> Ov_simulated x False \<in> set (pub_trace t) \<and> Ov_simulated x True \<notin> set (pub_trace t)" for x
    using s steps same ok start old unfolding isolated_def sims by (cases "x = symbol"; cases ok) auto
  have "T \<subseteq> set (pub_trace t)" "pushes (pub_trace t) = [p]" using s pushes_quiet [OF quiet] by (auto simp: isolated_def tr)
  moreover have "\<forall>x b. Ov_simulated x b \<in> set (pub_trace t) \<longrightarrow> x \<in> insert symbol D" using s unfolding isolated_def sims by blast
  ultimately show ?thesis unfolding isolated_def using at by blast
qed

lemma isolate_one_step:
  assumes s: "isolated bo T p D s" and new: "fs_symbol (pu_feed u) \<notin> D"
  shows "wp (isolate_one opts env pt u) (\<lambda>_. isolated bo T p (insert (fs_symbol (pu_feed u)) D)) (\<lambda>_. isolated bo T p D) s"
  unfolding isolate_one_def
  by (auto simp: act_wp Let_def s split: sum.splits option.splits intro!: isolated_step [OF s new])

lemma isolate_all:
  assumes "isolated bo T p D s" and "distinct (symbols_of us)" and "set (symbols_of us) \<inter> D = {}"
  shows "wp (act_each (isolate_one opts env pt) us) (\<lambda>_. isolated bo T p (D \<union> set (symbols_of us)))
    (\<lambda>_ t. \<exists>D' \<subseteq> D \<union> set (symbols_of us). isolated bo T p D' t) s"
  using assms
proof (induction us arbitrary: D s)
  case Nil
  then show ?case by (simp add: act_wp)
next
  case (Cons u us)
  have "wp (isolate_one opts env pt u) (\<lambda>_. isolated bo T p (insert (fs_symbol (pu_feed u)) D)) (\<lambda>_. isolated bo T p D) s"
    using Cons.prems by (intro isolate_one_step) auto
  then show ?case
    unfolding act_each.simps wp_then
  proof (rule wp_mono)
    fix t
    assume t: "isolated bo T p (insert (fs_symbol (pu_feed u)) D) t"
    show "wp (act_each (isolate_one opts env pt) us) (\<lambda>_. isolated bo T p (D \<union> set (symbols_of (u # us))))
      (\<lambda>_ t. \<exists>D' \<subseteq> D \<union> set (symbols_of (u # us)). isolated bo T p D' t) t"
      using Cons.IH [OF t] Cons.prems by auto
  qed auto
qed

text \<open>
  What a tick leaves of the back-off of a feed. It is as before; or the feed was pushed, and either its entry went when the push was
  mined, or the push was refused in pre-flight for a cause that can lie with the feed, which then stepped back:
  its update alone failed, or the revert is an \<open>UnknownFeed\<close> whose argument is the id of this feed, as the contract lists it.
\<close>

definition isolable :: "oracle_revert \<Rightarrow> bool" where
  "isolable cls \<longleftrightarrow> cls \<notin> {Or_not_publisher, Or_paused, Or_stale}"

definition common_cause :: "string option \<Rightarrow> bool" where
  "common_cause name \<longleftrightarrow> name \<in> Some ` {''StaleOracle'', ''AccessControlUnauthorizedAccount'', ''NotPublisher'',
     ''EnforcedPause'', ''ExecutionPaused''}"

lemma isolable_iff: "isolable (classifyRevert name) \<longleftrightarrow> \<not> common_cause name"
  by (auto simp: isolable_def common_cause_def classifyRevert_def split: option.splits if_splits)

lemma unknown_feed_iff: "classifyRevert name = Or_unknown_feed \<longleftrightarrow> name = Some ''UnknownFeed''"
  by (auto simp: classifyRevert_def split: option.splits if_splits)

definition was_refused :: "publisher_event list \<Rightarrow> bool" where
  "was_refused tr \<longleftrightarrow> (\<exists>name args. Ov_refused name args \<in> set tr)"

definition feed_at_fault :: "publisher_event list \<Rightarrow> string \<Rightarrow> bool" where
  "feed_at_fault tr symbol \<longleftrightarrow> (\<exists>name args. Ov_refused name args \<in> set tr \<and> \<not> common_cause name
     \<and> (Ov_simulated symbol False \<in> set tr
        \<or> name = Some ''UnknownFeed'' \<and> (\<exists>st f i rest. args = i # rest \<and> Ov_state st \<in> set tr
             \<and> f \<in> set (ov_feeds st) \<and> fs_symbol f = symbol \<and> lower (fs_id f) = lower i)))"

definition of_state :: "publisher_event set \<Rightarrow> pub_update list \<Rightarrow> bool" where
  "of_state T batch \<longleftrightarrow> (\<exists>st. Ov_state st \<in> T \<and> pu_feed ` set batch \<subseteq> set (ov_feeds st))"

definition backoff_fate :: "(string \<Rightarrow> backoff option) \<Rightarrow> string list \<Rightarrow> publisher \<Rightarrow> string \<Rightarrow> bool" where
  "backoff_fate bo symbols t symbol \<longleftrightarrow> pb_backoff t symbol = bo symbol
     \<or> symbol \<in> set symbols \<and> (pb_backoff t symbol = None \<and> \<not> was_refused (pub_trace t)
          \<or> stepped_back bo t symbol \<and> feed_at_fault (pub_trace t) symbol)"

definition after_push :: "(string \<Rightarrow> backoff option) \<Rightarrow> publisher_event set \<Rightarrow> pub_update list \<Rightarrow> int \<Rightarrow> publisher \<Rightarrow> bool" where
  "after_push bo T batch publishTime t \<longleftrightarrow> T \<subseteq> set (pub_trace t) \<and> pushes (pub_trace t) = [(map as_update batch, publishTime)] \<and> distinct (symbols_of batch)
     \<and> (\<forall>u \<in> set batch. 0 < pu_price u)
     \<and> (\<forall>symbol. backoff_fate bo (symbols_of batch) t symbol)
     \<and> (\<forall>symbol. Ov_simulated symbol True \<in> set (pub_trace t) \<longrightarrow> pb_backoff t symbol = bo symbol)"

text \<open>The stages of a push: sent, refused, mined.\<close>

definition sent_only :: "(string \<Rightarrow> backoff option) \<Rightarrow> publisher_event set \<Rightarrow> (string \<times> int \<times> int) list \<times> int \<Rightarrow> publisher \<Rightarrow> bool" where
  "sent_only bo T p t \<longleftrightarrow> T \<subseteq> set (pub_trace t) \<and> pushes (pub_trace t) = [p] \<and> pb_backoff t = bo
     \<and> (\<forall>symbol b. Ov_simulated symbol b \<notin> set (pub_trace t))"

definition mined :: "(string \<Rightarrow> backoff option) \<Rightarrow> publisher_event set \<Rightarrow> (string \<times> int \<times> int) list \<times> int \<Rightarrow> string set \<Rightarrow> publisher \<Rightarrow> bool" where
  "mined bo T p D t \<longleftrightarrow> T \<subseteq> set (pub_trace t) \<and> pushes (pub_trace t) = [p]
     \<and> (\<forall>symbol. pb_backoff t symbol = bo symbol \<or> symbol \<in> D \<and> pb_backoff t symbol = None)
     \<and> \<not> was_refused (pub_trace t) \<and> (\<forall>symbol b. Ov_simulated symbol b \<notin> set (pub_trace t))"

lemma steady_sent [intro, simp]: "steady (sent_only bo T p)"
  by (auto simp: steady_def sent_only_def pushes_quiet)

lemma steady_mined [intro, simp]: "steady (mined bo T p D)"
  by (fastforce simp: steady_def mined_def pushes_quiet was_refused_def)

lemma sent_isolated: "sent_only bo T p t \<Longrightarrow> isolated bo T p {} t"
  by (auto simp: sent_only_def isolated_def)

lemma note_outcomes_mined:
  assumes "mined bo T p D s"
  shows "wp (note_outcomes byId us outcomes) (\<lambda>_. mined bo T p (D \<union> set (symbols_of us))) E s"
  using assms
proof (induction us arbitrary: D s outcomes)
  case Nil
  then show ?case by (simp add: act_wp)
next
  case (Cons u us)
  let ?s = "s\<lparr>pb_backoff := (pb_backoff s)(fs_symbol (pu_feed u) := None)\<rparr>"
  have "mined bo T p (insert (fs_symbol (pu_feed u)) D) ?s" using Cons.prems by (auto simp: mined_def)
  moreover have "wp (note_outcome symbol r) (\<lambda>_ t. J t) E s'" if "steady J" "J s'" for symbol r J and s' :: publisher
    by (cases r) (use that in \<open>auto simp: act_wp pub_count_def pub_gauge_def elim: steady_same\<close>)
  ultimately have "wp (note_outcome symbol r) (\<lambda>_. mined bo T p (insert (fs_symbol (pu_feed u)) D)) E ?s" for symbol r by blast
  then show ?case
    unfolding note_outcomes.simps Let_def wp_then wp_mod
  proof (rule wp_mono)
    fix t
    assume t: "mined bo T p (insert (fs_symbol (pu_feed u)) D) t"
    from Cons.IH [OF t] show "wp (note_outcomes byId us (set_field (fs_symbol (pu_feed u)) (case byId (fs_id (pu_feed u)) of None \<Rightarrow> Fo_observed | Some x \<Rightarrow> x)
        outcomes)) (\<lambda>_. mined bo T p (D \<union> set (symbols_of (u # us)))) E t" by simp
  qed
qed

lemma sent_after:
  assumes "sent_only bo (insert e T) (map as_update batch, pt) t" and "distinct (symbols_of batch)" and "\<forall>u \<in> set batch. 0 < pu_price u"
  shows "after_push bo T batch pt t"
  using assms by (auto simp: after_push_def sent_only_def backoff_fate_def)

lemma onRevert_after:
  assumes s: "sent_only bo (insert (Ov_refused name args) T) (map as_update batch, pt) s"
    and batch: "distinct (symbols_of batch)" "\<forall>u \<in> set batch. 0 < pu_price u" and st: "of_state T batch"
  shows "wp (onRevert opts env (classifyRevert name) args batch pt) (\<lambda>_. after_push bo T batch pt) (\<lambda>_. after_push bo T batch pt) s"
proof -
  let ?T = "insert (Ov_refused name args) T" and ?p = "(map as_update batch, pt)" and ?after = "after_push bo T batch pt"
  have unchanged: "?after t" if "sent_only bo ?T ?p t" for t
    using that batch by (rule sent_after)
  show ?thesis
  proof (cases "isolable (classifyRevert name)")
    case False
    have "wp (pub_alert opts env key) (\<lambda>_. ?after) (\<lambda>_. ?after) s" for key
    proof (rule wp_mono)
      show "wp (pub_alert opts env key) (\<lambda>_. sent_only bo ?T ?p) (\<lambda>_. sent_only bo ?T ?p) s"
        using keeps_pub_alert [OF steady_sent] s by (simp add: keeps_def)
    qed (rule unchanged, assumption)+
    with False unchanged [OF s] show ?thesis by (auto simp: onRevert_def isolable_def act_wp)
  next
    case True
    show ?thesis
    proof (cases "unknown_hit (classifyRevert name) args batch")
      case None
      have taken: "?after t" if D: "D \<subseteq> set (symbols_of batch)" and t: "isolated bo ?T ?p D t" for D t
      proof -
        have ref: "Ov_refused name args \<in> set (pub_trace t)" and T: "T \<subseteq> set (pub_trace t)" "pushes (pub_trace t) = [?p]"
          using t by (auto simp: isolated_def)
        have "backoff_fate bo (symbols_of batch) t x" for x
          using t D True ref unfolding isolated_def backoff_fate_def feed_at_fault_def isolable_iff by blast
        moreover have "pb_backoff t x = bo x" if "Ov_simulated x True \<in> set (pub_trace t)" for x
          using t that unfolding isolated_def by blast
        ultimately show ?thesis using T batch unfolding after_push_def by blast
      qed
      have "wp (act_each (isolate_one opts env pt) batch) (\<lambda>_. ?after) (\<lambda>_. ?after) s"
        by (rule wp_mono [OF isolate_all [OF sent_isolated [OF s] batch(1)]]) (use taken in auto)
      with None True show ?thesis by (auto simp: onRevert_def isolable_def)
    next
      case (Some u)
      then obtain i rest where u: "u \<in> set batch" "name = Some ''UnknownFeed''"
          and named: "args = i # rest" "lower (fs_id (pu_feed u)) = lower i"
        by (auto simp: unknown_hit_def find_Some_iff unknown_feed_iff split: list.splits if_splits)
      let ?x = "fs_symbol (pu_feed u)"
      have listed: "\<exists>st f. Ov_state st \<in> T \<and> f \<in> set (ov_feeds st) \<and> fs_symbol f = ?x \<and> lower (fs_id f) = lower i"
        using st u(1) named(2) unfolding of_state_def by blast
      have bo: "pb_backoff s = bo" and sims: "Ov_simulated x b \<notin> set (pub_trace s)" and ref: "Ov_refused name args \<in> set (pub_trace s)"
        and T: "T \<subseteq> set (pub_trace s)" "pushes (pub_trace s) = [?p]" for x b using s by (auto simp: sent_only_def)
      have "?after t" if t: "t = s\<lparr>pb_backoff := (pb_backoff s)(fs_symbol (pu_feed u) \<mapsto> backoff_after (pb_backoff s (fs_symbol (pu_feed u))) ''UnknownFeed'' now),
           pb_keeper := (pb_keeper s)\<lparr>kk_trace := pub_trace s @ [Ov_clock now], kk_metrics := m\<rparr>\<rparr>" for now m t
      proof -
        have "fs_symbol (pu_feed u) \<in> set (symbols_of batch)" using u(1) by (simp add: symbols_of_def)
        moreover have "feed_at_fault (pub_trace t) ?x"
        proof -
          have "Ov_refused name args \<in> set (pub_trace t)" "T \<subseteq> set (pub_trace t)" using ref T(1) by (auto simp: t)
          with listed u(2) named(1) True show ?thesis unfolding feed_at_fault_def isolable_iff by blast
        qed
        ultimately have "backoff_fate bo (symbols_of batch) t x" for x unfolding backoff_fate_def stepped_back_def t bo by auto
        then show ?thesis using sims T batch by (auto simp: after_push_def t)
      qed
      with Some True show ?thesis by (auto simp: onRevert_def isolable_def act_wp Let_def)
    qed
  qed
qed

lemma encodePushPrices_ok:
  assumes "encodePushPrices opts updates t = Inr data"
  shows "distinct (map fst updates)" "\<forall>(symbol, price, confidence) \<in> set updates. 0 < price \<and> 0 \<le> confidence"
  using assms by (auto simp: encodePushPrices_def find_None_iff not_le not_less split: if_splits option.splits)

lemma keeps_pub_calls [act_keeps]:
  "steady J \<Longrightarrow> keeps J (on_keeper (try_submit d ce req))" "steady J \<Longrightarrow> keeps J (on_keeper (try_wait d ce job))"
  unfolding keeps_def wp_on_keeper
  by (auto intro!: wp_try_submit_frame wp_try_wait_frame elim: steady_same)

text \<open>A step that keeps \<open>J\<close>, where \<open>J\<close> is good enough for an end.\<close>

lemma bind_through:
  assumes "keeps J m" and "J t" and "\<And>x t. J t \<Longrightarrow> wp (k x) (\<lambda>_. A) (\<lambda>_. A) t" and "\<And>t. J t \<Longrightarrow> A t"
  shows "wp (act_bind m k) (\<lambda>_. A) (\<lambda>_. A) t"
proof -
  have "wp m (\<lambda>_. J) (\<lambda>_. J) t" using assms(1,2) by (simp add: keeps_def)
  then show ?thesis unfolding wp_bind by (rule wp_mono) (erule assms(3,4))+
qed

lemma then_through:
  assumes "keeps J m" and "J t" and "\<And>t. J t \<Longrightarrow> wp k (\<lambda>_. A) (\<lambda>_. A) t" and "\<And>t. J t \<Longrightarrow> A t"
  shows "wp (act_then m k) (\<lambda>_. A) (\<lambda>_. A) t"
  unfolding act_then_def using assms by (rule bind_through)

lemma bind_lift: "wp (act_bind (act_lift (Inr x)) k) Q E s = wp (k x) Q E s"
  by (simp add: act_wp)

lemma then_log: "wp (act_then (on_keeper (log_event e)) k) Q E s = wp k Q E (s\<lparr>pb_keeper := (pb_keeper s)\<lparr>kk_trace := pub_trace s @ [e]\<rparr>\<rparr>)"
  by (simp add: act_wp)

lemma mined_after:
  assumes "mined bo T (map as_update batch, pt) D t" and "D \<subseteq> set (symbols_of batch)"
    and "distinct (symbols_of batch)" and "\<forall>u \<in> set batch. 0 < pu_price u"
  shows "after_push bo T batch pt t"
  using assms unfolding after_push_def mined_def backoff_fate_def by blast

lemma push_refused_after:
  assumes t: "mined bo T (map as_update batch, pt) {} t" and batch: "distinct (symbols_of batch)" "\<forall>u \<in> set batch. 0 < pu_price u"
    and st: "of_state T batch"
  shows "wp (push_refused opts env ds batch pt payload i err) (\<lambda>_. after_push bo T batch pt) (\<lambda>_. after_push bo T batch pt) t"
proof -
  define de where "de = decodeError (kd_abi (pp_deps opts)) err"
  have "sent_only bo (insert (Ov_refused (de_errorName de) (de_errorArgs de)) T) (map as_update batch, pt)
      (t\<lparr>pb_keeper := (pb_keeper t)\<lparr>kk_trace := pub_trace t @ [Ov_refused (de_errorName de) (de_errorArgs de)]\<rparr>\<rparr>)"
    using t by (auto simp: mined_def sent_only_def)
  then show ?thesis
    unfolding push_refused_def Let_def then_log de_def [symmetric]
  proof (rule then_through [OF keeps_pub_silent(1) [OF steady_sent] _ then_through [OF keeps_pub_silent(4) [OF steady_sent]]])
    fix x
    assume "sent_only bo (insert (Ov_refused (de_errorName de) (de_errorArgs de)) T) (map as_update batch, pt) x"
    from onRevert_after [OF this batch st]
    show "wp (act_then (onRevert opts env (classifyRevert (de_errorName de)) (de_errorArgs de) batch pt)
        (act_ret ((pub_result Pt_send_failed ds)\<lparr>pt_revert := Some (classifyRevert (de_errorName de))\<rparr>)))
        (\<lambda>_. after_push bo T batch pt) (\<lambda>_. after_push bo T batch pt) x"
      by (simp add: wp_then wp_ret)
  qed (assumption | rule sent_after [OF _ batch])+
qed

lemma push_mined_after:
  assumes x: "mined bo T (map as_update batch, pt) {} x" and batch: "distinct (symbols_of batch)" "\<forall>u \<in> set batch. 0 < pu_price u"
  shows "wp (push_mined opts logs ds batch payload i receipt) (\<lambda>_. after_push bo T batch pt) (\<lambda>_. after_push bo T batch pt) x"
proof -
  let ?p = "(map as_update batch, pt)" and ?after = "after_push bo T batch pt"
  note quiet = mined_after [OF _ _ batch]
  have notes': "wp (note_outcomes f batch []) (\<lambda>_. mined bo T ?p (set (symbols_of batch))) (\<lambda>_. ?after) x" for f
    using note_outcomes_mined [OF x, of f batch] by simp
  have confirmed: "wp (act_then (pub_update_action i p2) (act_ret r)) (\<lambda>_. ?after) (\<lambda>_. ?after) y"
    if "mined bo T ?p (set (symbols_of batch)) y" for p2 r y
    by (rule then_through [OF keeps_pub_silent(4) [OF steady_mined] that]) (auto simp: wp_ret intro: quiet)
  have reverted: "wp (act_then (pub_count n c) (act_then (pub_update_action i p1) (act_ret r))) (\<lambda>_. ?after) (\<lambda>_. ?after) x" for n c p1 r
  proof (rule then_through [OF keeps_pub_silent(1) [OF steady_mined] x then_through [OF keeps_pub_silent(4) [OF steady_mined]]])
    fix y
    assume "mined bo T ?p {} y"
    then show "wp (act_ret r) (\<lambda>_. ?after) (\<lambda>_. ?after) y" using quiet by (simp add: wp_ret)
  qed (assumption | erule quiet, simp)+
  show ?thesis
    unfolding push_mined_def Let_def
    by (auto simp: wp_bind reverted intro!: wp_mono [OF notes'] confirmed)
qed

lemma send_push_encoded:
  assumes s: "calm bo T s" and enc: "encodePushPrices opts (map as_update batch) pt = Inr data" and st: "of_state T batch"
  shows "wp (send_push opts env ds batch pt) (\<lambda>_. after_push bo T batch pt) (\<lambda>_. after_push bo T batch pt) s"
proof -
  let ?p = "(map as_update batch, pt)" and ?after = "after_push bo T batch pt"
  have batch: "distinct (symbols_of batch)" "\<forall>u \<in> set batch. 0 < pu_price u"
    using encodePushPrices_ok [OF enc] unfolding map_fst_as_update by (auto simp: as_update_def)
  have quiet: "mined bo T ?p {} t \<Longrightarrow> ?after t" for t by (rule mined_after [OF _ _ batch]) auto
  have sent: "wp (push_sent opts ce ds batch payload i job) (\<lambda>_. ?after) (\<lambda>_. ?after) t" if "mined bo T ?p {} t" for ce payload i job t
    unfolding push_sent_def
  proof (rule then_through [OF keeps_pub_silent(4) [OF steady_mined] that then_through [OF keeps_pub_silent(1) [OF steady_mined] _
        bind_through [OF keeps_pub_calls(2) [OF steady_mined]]]])
    fix out x
    assume "mined bo T ?p {} x"
    then show "wp (case out of None \<Rightarrow> act_ret (pub_result Pt_send_failed ds)
        | Some receipt \<Rightarrow> push_mined opts (ce_logs ce (rc_hash receipt)) ds batch payload i receipt) (\<lambda>_. ?after) (\<lambda>_. ?after) x"
      using push_mined_after [OF _ batch] quiet by (cases out) (simp_all add: wp_ret)
  qed (assumption | erule quiet)+
  have started: "mined bo T ?p {} (t\<lparr>pb_keeper := (pb_keeper t)\<lparr>kk_trace := pub_trace t @ [Ov_push (map as_update batch) pt]\<rparr>\<rparr>)" if "calm bo T t" for t
    using that by (auto simp: mined_def calm_def was_refused_def pushes_quiet)
  have recorded: "calm bo T (s\<lparr>pb_keeper := (pb_keeper s)\<lparr>kk_actions := k\<rparr>\<rparr>)" for k using s by (simp add: calm_def)
  have tail: "wp (act_bind (on_keeper (try_submit d ce req)) (\<lambda>r. case r of
        Inl err \<Rightarrow> push_refused opts env ds batch pt payload i err
      | Inr job \<Rightarrow> push_sent opts ce ds batch payload i job)) (\<lambda>_. ?after) (\<lambda>_. ?after)
        (t\<lparr>pb_keeper := (pb_keeper t)\<lparr>kk_trace := pub_trace t @ [Ov_push (map as_update batch) pt]\<rparr>\<rparr>)"
    if "calm bo T t" for d ce req payload i t
    by (rule bind_through [OF keeps_pub_calls(1) [OF steady_mined] started [OF that] _ quiet])
       (auto split: sum.splits intro: push_refused_after [OF _ batch st] sent)
  show ?thesis
    unfolding send_push_def Let_def enc bind_lift
    using tail [OF recorded] by (simp add: then_log wp_bind wp_on_keeper wp_record_action)
qed

lemma send_push_after:
  assumes s: "calm bo T s" and st: "of_state T batch"
  shows "wp (send_push opts env ds batch pt) (\<lambda>_. after_push bo T batch pt) (\<lambda>_ t. calm bo {} t \<or> after_push bo T batch pt t) s"
proof (cases "encodePushPrices opts (map as_update batch) pt")
  case (Inl e)
  then show ?thesis using calm_mono [OF s] by (auto simp: send_push_def act_wp Let_def)
next
  case (Inr data)
  show ?thesis by (rule wp_mono [OF send_push_encoded [OF s Inr st]]) simp_all
qed

text \<open>How a tick ends.\<close>

definition tick_pushed :: "publisher_options \<Rightarrow> (string \<Rightarrow> backoff option) \<Rightarrow> publisher \<Rightarrow> bool" where
  "tick_pushed opts bo t \<longleftrightarrow>
    (\<exists>st q ref nowMs updates. updates = due_updates opts st q bo nowMs (publish_time opts st nowMs) \<and> updates \<noteq> []
       \<and> push_reason opts bo st q ref nowMs
       \<and> after_push bo {Ov_usdc ref, Ov_quotes q, Ov_clock nowMs, Ov_state st} updates (publish_time opts st nowMs) t)"

lemma due_updates_feeds: "u \<in> set (due_updates opts st q bo nowMs pt) \<Longrightarrow> pu_feed u \<in> set (ov_feeds st)"
  by (auto simp: due_updates_def due_update_def Let_def split: if_splits sum.splits decision.splits)

lemma publisher_tick_end:
  assumes "pub_trace s = []"
  shows "wp (publisher_tick opts env)
     (\<lambda>r t. calm (pb_backoff s) {} t \<and> held_back opts (pb_backoff s) (pub_trace t) r \<or> tick_pushed opts (pb_backoff s) t)
     (\<lambda>_ t. calm (pb_backoff s) {} t \<or> tick_pushed opts (pb_backoff s) t) s"
proof (rule publisher_tick_shape)
  show "calm (pb_backoff s) {} s" using assms by (simp add: calm_def)
  fix st q ref nowMs ds t
  assume "calm (pb_backoff s) {Ov_usdc ref, Ov_quotes q, Ov_clock nowMs, Ov_state st} t" "push_reason opts (pb_backoff s) st q ref nowMs"
    "due_updates opts st q (pb_backoff s) nowMs (publish_time opts st nowMs) \<noteq> []"
  then show "wp (send_push opts env ds (due_updates opts st q (pb_backoff s) nowMs (publish_time opts st nowMs)) (publish_time opts st nowMs))
      (\<lambda>r t. calm (pb_backoff s) {} t \<and> held_back opts (pb_backoff s) (pub_trace t) r \<or> tick_pushed opts (pb_backoff s) t)
      (\<lambda>_ t. calm (pb_backoff s) {} t \<or> tick_pushed opts (pb_backoff s) t) t"
    by (intro wp_mono [OF send_push_after]) (auto simp: tick_pushed_def of_state_def due_updates_feeds)
qed simp_all

lemma pushes_calm: "calm bo T t \<Longrightarrow> pushes (pub_trace t) = []"
  by (auto simp: calm_def intro: pushes_quiet)

lemma publisher_tick_final:
  assumes "pub_trace s = []"
  shows "calm (pb_backoff s) {} (snd (publisher_tick opts env s)) \<or> tick_pushed opts (pb_backoff s) (snd (publisher_tick opts env s))"
  using publisher_tick_end [OF assms, of opts env] unfolding wp_def by (auto split: prod.splits sum.splits)

text \<open>
  C37. What the publisher pushes. Whatever is answered, a tick pushes at most once, and only when the contract is not paused, this key publishes
  and the peg holds. The push holds exactly the updates that are due, in the order of the feeds, each of a different symbol and at a
  positive price: a feed is in it if and only if it is not backing off and \<open>decide\<close>, on the state read and the aggregate of
  the quotes collected, says to publish. A tick that returns without a push was paused, no publisher, halted by the peg, or had nothing due.
\<close>

theorem publisher_pushes_what_it_decided:
  fixes opts :: publisher_options and env :: publisher_env
  assumes "pub_trace s = []"
  defines "tr \<equiv> pub_trace (snd (publisher_tick opts env s))"
  shows "(pushes tr = [] \<and> (case fst (publisher_tick opts env s) of Inl e \<Rightarrow> True | Inr r \<Rightarrow> held_back opts (pb_backoff s) tr r)) \<or>
    (\<exists>st q ref nowMs updates. {Ov_usdc ref, Ov_quotes q, Ov_clock nowMs, Ov_state st} \<subseteq> set tr
       \<and> push_reason opts (pb_backoff s) st q ref nowMs
       \<and> updates = due_updates opts st q (pb_backoff s) nowMs (publish_time opts st nowMs)
       \<and> pushes tr = [(map as_update updates, publish_time opts st nowMs)]
       \<and> updates \<noteq> [] \<and> distinct (symbols_of updates) \<and> (\<forall>u \<in> set updates. 0 < pu_price u))"
proof (cases "tick_pushed opts (pb_backoff s) (snd (publisher_tick opts env s))")
  case True
  then show ?thesis unfolding tick_pushed_def after_push_def tr_def by blast
next
  case False
  then show ?thesis
    using publisher_tick_end [OF assms(1), of opts env] pushes_calm unfolding wp_def tr_def
    by (fastforce split: prod.splits sum.splits)
qed

text \<open>
  C38. Isolation of a bad feed. Whatever is answered, a tick changes the back-off of no feed but those it pushed. Where the push was refused
  for a cause that can lie with a feed (not the key's role, a pause or a stale time), a feed steps back only if its update failed alone too, or the
  revert is an \<open>UnknownFeed\<close> that names it: its argument is the id of that feed in the state read. It steps back by one more failure,
  and for five seconds to five minutes from a time that was read. A feed whose own update would have been accepted is
  not held back by the others. Where the push was not refused, an entry can only go.
\<close>

theorem only_failing_feeds_back_off:
  fixes opts :: publisher_options and env :: publisher_env
  assumes "pub_trace s = []"
  defines "t \<equiv> snd (publisher_tick opts env s)"
  shows "(pb_backoff t symbol = pb_backoff s symbol
     \<or> symbol \<in> fst ` set (concat (map fst (pushes (pub_trace t))))
        \<and> (pb_backoff t symbol = None \<and> \<not> was_refused (pub_trace t)
           \<or> feed_at_fault (pub_trace t) symbol
             \<and> (\<exists>now b. Ov_clock now \<in> set (pub_trace t) \<and> pb_backoff t symbol = Some b
                  \<and> now + 5000 \<le> bo_until b \<and> bo_until b \<le> now + 300000
                  \<and> bo_failures b = (case pb_backoff s symbol of None \<Rightarrow> 0 | Some b' \<Rightarrow> bo_failures b') + 1)))
     \<and> (Ov_simulated symbol True \<in> set (pub_trace t) \<longrightarrow> pb_backoff t symbol = pb_backoff s symbol)"
proof -
  have after: "now + 5000 \<le> bo_until (backoff_after prev reason now) \<and> bo_until (backoff_after prev reason now) \<le> now + 300000
      \<and> bo_failures (backoff_after prev reason now) = (case prev of None \<Rightarrow> 0 | Some b' \<Rightarrow> bo_failures b') + 1" for prev reason now
    by (auto simp: backoff_after_def Let_def BACKOFF_MIN_MS_def BACKOFF_MAX_MS_def)
  have "calm (pb_backoff s) {} t \<or> (\<exists>batch pt. pushes (pub_trace t) = [(map as_update batch, pt)]
      \<and> backoff_fate (pb_backoff s) (symbols_of batch) t symbol
      \<and> (Ov_simulated symbol True \<in> set (pub_trace t) \<longrightarrow> pb_backoff t symbol = pb_backoff s symbol))"
    using publisher_tick_final [OF assms(1), of opts env] unfolding tick_pushed_def after_push_def t_def by blast
  then show ?thesis
  proof
    assume "calm (pb_backoff s) {} t"
    then show ?thesis by (auto simp: calm_def)
  next
    assume "\<exists>batch pt. pushes (pub_trace t) = [(map as_update batch, pt)] \<and> backoff_fate (pb_backoff s) (symbols_of batch) t symbol
      \<and> (Ov_simulated symbol True \<in> set (pub_trace t) \<longrightarrow> pb_backoff t symbol = pb_backoff s symbol)"
    then obtain batch pt where push: "pushes (pub_trace t) = [(map as_update batch, pt)]"
      and fate: "backoff_fate (pb_backoff s) (symbols_of batch) t symbol"
      and ok: "Ov_simulated symbol True \<in> set (pub_trace t) \<longrightarrow> pb_backoff t symbol = pb_backoff s symbol" by blast
    have "set (symbols_of batch) = fst ` set (map as_update batch)" unfolding map_fst_as_update [symmetric] by (simp only: set_map)
    then have "set (symbols_of batch) = fst ` set (concat (map fst (pushes (pub_trace t))))" by (simp add: push)
    with fate ok after show ?thesis unfolding backoff_fate_def stepped_back_def by (metis (no_types, lifting))
  qed
qed

text \<open>One feed, two venues, no observation yet: the price goes out.\<close>

definition sample_source :: "string \<Rightarrow> int \<Rightarrow> price_source" where
  "sample_source name price = \<lparr>ps_name = name, ps_supports = (\<lambda>s. s = ''BTC''),
     ps_fetch = (\<lambda>_. Inr \<lparr>sr_quotes = [\<lparr>qt_source = name, qt_symbol = ''BTC'', qt_price = price, qt_ts = 100000\<rparr>], sr_errors = []\<rparr>)\<rparr>"

definition sample_publisher :: publisher_options where
  "sample_publisher = \<lparr>pp_deps = sample_deps, pp_oracle = ''0xoracle'',
     pp_aggregate = \<lparr>ao_minSources = 2, ao_maxSourceDeviationBps = 100\<rparr>,
     pp_policy = \<lparr>po_deviationBps = 10, po_heartbeatSecs = 30, po_inclusionMarginSecs = 2, po_maxRefDivergenceBps = 0\<rparr>,
     pp_idlePolicy = None, pp_maxQuoteAgeMs = 3000, pp_usdcDepegHaltBps = 100, pp_depegFailClosed = False, pp_backdateSecs = 1,
     pp_alertAfterSecs = 60, pp_hexToString = (\<lambda>i. i), pp_encodeCall = (\<lambda>_ _. Inr ''0xdata''), pp_usdcReference = None,
     pp_usdcReferenceMaxAgeSecs = None, pp_riskParams = None, pp_marketsTtlMs = None\<rparr>"

definition sample_raw_feed :: raw_feed where
  "sample_raw_feed = (\<lparr>fc_listed = True, fc_active = True, fc_minPublishers = 1, fc_maxSpreadBps = 50, fc_maxJumpBps = 1000,
      fc_maxConfidenceBps = 200, fc_maxAge = 60\<rparr>,
     \<lparr>sp_price = 0, sp_confidence = 0, sp_publishTime = 0, sp_writeTime = 0, sp_sourceCount = 0\<rparr>, (False, False, 0), (False, 0),
     [\<lparr>ob_price = 0, ob_confidence = 0, ob_publishTime = 0\<rparr>])"

definition sample_publisher_env :: publisher_env where
  "sample_publisher_env = \<lparr>pv_clock = (\<lambda>_. 100000), pv_block = (\<lambda>_. Inr (7, 100)),
     pv_head = (\<lambda>_ _. Inr (False, [so_address sample_options], [''BTC''])), pv_feeds = (\<lambda>_ _ _ _. Inr [sample_raw_feed]),
     pv_marketIds = (\<lambda>_. Inr []), pv_markets = (\<lambda>_ _. Inr []), pv_round = (\<lambda>_. Inr (8, 0, 0, 0, 0)),
     pv_sources = [sample_source ''a'' 10000, sample_source ''b'' 10002], pv_simulate = (\<lambda>_ _. None), pv_call = sample_call\<rparr>"

definition new_publisher :: publisher where
  "new_publisher = \<lparr>pb_keeper = new_keeper, pb_backoff = Map.empty, pb_health = Map.empty, pb_lastAlert = Map.empty, pb_markets = None\<rparr>"


definition sample_state :: oracle_state where
  "sample_state = \<lparr>ov_paused = False, ov_publishers = [so_address sample_options],
     ov_feeds = [feed_of sample_publisher [so_address sample_options] (''BTC'', sample_raw_feed)], ov_chainNow = 100, ov_tradedFeedIds = None\<rparr>"

text \<open>The same world with any node behind the push and its simulations.\<close>

abbreviation sample_node :: "(int \<Rightarrow> call_env) \<Rightarrow> (publisher_event list \<Rightarrow> hex \<Rightarrow> thrown option) \<Rightarrow> publisher_env" where
  "sample_node c v \<equiv> sample_publisher_env\<lparr>pv_simulate := v, pv_call := c\<rparr>"

lemma sample_read:
  "readState sample_publisher (sample_node c v) new_publisher = (Inr sample_state, new_publisher\<lparr>pb_keeper := new_keeper\<lparr>kk_trace :=
     [Ov_read, Ov_read, Ov_read, Ov_clock 100000, Ov_state sample_state]\<rparr>\<rparr>)"
proof -
  have "pp_riskParams sample_publisher = None" by (simp add: sample_publisher_def)
  then show ?thesis
    by (simp add: readState_def pub_now_def pub_ask_def on_keeper_def ask_def log_event_def tradedFeedIds_def act_defs sample_state_def
        sample_publisher_env_def new_publisher_def new_keeper_def Let_def)
qed

lemma sample_quotes:
  "quotes_of (snd (collectQuotes (pv_sources sample_publisher_env) [''BTC'', ''USDC''] Map.empty 100000 3000)) ''BTC'' =
     [\<lparr>qt_source = ''a'', qt_symbol = ''BTC'', qt_price = 10000, qt_ts = 100000\<rparr>, \<lparr>qt_source = ''b'', qt_symbol = ''BTC'', qt_price = 10002, qt_ts = 100000\<rparr>]"
  "quotes_of (snd (collectQuotes (pv_sources sample_publisher_env) [''BTC'', ''USDC''] Map.empty 100000 3000)) ''USDC'' = []"
  by code_simp+

lemma sample_decision:
  "case aggregate ''BTC'' [\<lparr>qt_source = ''a'', qt_symbol = ''BTC'', qt_price = 10000, qt_ts = 100000\<rparr>, \<lparr>qt_source = ''b'', qt_symbol = ''BTC'', qt_price = 10002, qt_ts = 100000\<rparr>]
     (pp_aggregate sample_publisher) of Inl _ \<Rightarrow> False | Inr agg \<Rightarrow>
   (case feed_decision sample_publisher sample_state 99 (hd (ov_feeds sample_state)) agg of Inr (Publish p c _ _) \<Rightarrow> p = 10001 \<and> c = 1 | _ \<Rightarrow> False)"
  by code_simp

definition sample_update :: pub_update where
  "sample_update = \<lparr>pu_feed = hd (ov_feeds sample_state), pu_price = 10001, pu_confidence = 1, pu_why = Why_new\<rparr>"

lemma sample_agg: "aggregate ''BTC'' [\<lparr>qt_source = ''a'', qt_symbol = ''BTC'', qt_price = 10000, qt_ts = 100000\<rparr>, \<lparr>qt_source = ''b'', qt_symbol = ''BTC'', qt_price = 10002, qt_ts = 100000\<rparr>]
     (pp_aggregate sample_publisher) = Inr (Inr \<lparr>ag_symbol = ''BTC'', ag_price = 10001, ag_confidence = 1, ag_used = [''a'', ''b''], ag_dropped = [], ag_oldestTs = 100000\<rparr>)"
  by code_simp

lemma sample_dec: "feed_decision sample_publisher sample_state 99 (hd (ov_feeds sample_state)) (Inr \<lparr>ag_symbol = ''BTC'', ag_price = 10001, ag_confidence = 1, ag_used = [''a'', ''b''], ag_dropped = [], ag_oldestTs = 100000\<rparr>)
   = Inr (Publish 10001 1 (Predict_update 10001 1 False) Why_new)"
  by code_simp

lemma sample_encode: "encodePushPrices sample_publisher [as_update sample_update] 99 = Inr ''0xdata''" by code_simp

lemma sample_feed: "ov_feeds sample_state = [hd (ov_feeds sample_state)]"
  by (simp add: sample_state_def)

lemma sample_facts: "fs_symbol (hd (ov_feeds sample_state)) = ''BTC''"
  "fc_listed (fs_cfg (hd (ov_feeds sample_state)))" "fc_active (fs_cfg (hd (ov_feeds sample_state)))" "ov_tradedFeedIds sample_state = None"
  "is_publisher sample_publisher sample_state" "\<not> ov_paused sample_state" "publish_time sample_publisher sample_state 100000 = 99"
  "depegGuard [] (pp_usdcDepegHaltBps sample_publisher) (pp_depegFailClosed sample_publisher) = Inr (Peg_ok ONE 0 0)"
  "pp_usdcReference sample_publisher = None" "pp_maxQuoteAgeMs sample_publisher = 3000"
  by code_simp+

lemma wp_freshness: "calm bo T s \<Longrightarrow> (\<And>t. calm bo T t \<Longrightarrow> Q () t) \<Longrightarrow> wp (freshness opts env st) Q E s"
  unfolding freshness_def
  by (rule wp_each [where I = "calm bo T"]) (auto simp: act_wp pub_gauge_def pub_count_def pub_alert_def calm_def)

text \<open>The tick comes to the push of one update, whatever the push then does.\<close>

lemma sample_tick:
  assumes send: "\<And>ds t. calm Map.empty {Ov_state sample_state} t \<Longrightarrow>
      wp (send_push sample_publisher (sample_node c v) ds [sample_update] 99) (\<lambda>_. Q) (\<lambda>_. Q) t"
  shows "wp (publisher_tick sample_publisher (sample_node c v)) (\<lambda>_. Q) (\<lambda>_. Q) new_publisher"
proof -
  let ?T = "{Ov_state sample_state}" and ?env = "sample_node c v"
  have fresh: "wp (act_then (freshness sample_publisher ?env sample_state)
      (send_push sample_publisher ?env ds [sample_update] 99)) (\<lambda>_. Q) (\<lambda>_. Q) t" if "calm Map.empty ?T t" for ds t
    unfolding wp_then by (rule wp_freshness [OF that send])
  have priced: "wp (pub_priced sample_publisher ?env sample_state q 100000) (\<lambda>_. Q) (\<lambda>_. Q) t"
    if t: "calm Map.empty ?T t" and q: "quotes_of q ''BTC'' = [\<lparr>qt_source = ''a'', qt_symbol = ''BTC'', qt_price = 10000, qt_ts = 100000\<rparr>, \<lparr>qt_source = ''b'', qt_symbol = ''BTC'', qt_price = 10002, qt_ts = 100000\<rparr>]" for q t
  proof -
    have "calm Map.empty ?T (t\<lparr>pb_keeper := (pb_keeper t)\<lparr>kk_metrics := m\<rparr>\<rparr>)" for m using t by (simp add: calm_def)
    from fresh [OF this] show ?thesis
      using t unfolding pub_priced_def Let_def sample_facts(7) by (subst sample_feed)
        (simp add: Let_def wp_bind wp_get wp_then wp_ret wp_on_keeper pub_gauge_def wp_gauge sample_facts q sample_agg sample_dec median_lift_def calm_backoff
           backing_off_def is_traded_def act_when_def note_dropped_def sample_update_def)
  qed
  have start: "calm Map.empty ?T (new_publisher\<lparr>pb_health := h, pb_keeper := new_keeper\<lparr>kk_trace := es, kk_metrics := m\<rparr>\<rparr>)"
    if "\<forall>e \<in> set es. \<not> loud e" "Ov_state sample_state \<in> set es" for h m es using that by (simp add: calm_def new_publisher_def)
  obtain h q where collected: "collectQuotes (pv_sources sample_publisher_env) [''BTC'', ''USDC''] Map.empty 100000 3000 = (h, q)"
    by (cases "collectQuotes (pv_sources sample_publisher_env) [''BTC'', ''USDC''] Map.empty 100000 3000") auto
  note q = sample_quotes [unfolded collected, simplified]
  note go = priced [OF start q(1)]
  have live: "wp (pub_live sample_publisher ?env sample_state) (\<lambda>_. Q) (\<lambda>_. Q) (new_publisher\<lparr>pb_keeper := new_keeper\<lparr>kk_trace := es, kk_metrics := m\<rparr>\<rparr>)"
    if "\<forall>e \<in> set es. \<not> loud e" "Ov_state sample_state \<in> set es" for m es
  proof -
    have quotes: "map fs_symbol (filter (\<lambda>f. fc_listed (fs_cfg f) \<and> fc_active (fs_cfg f)) (ov_feeds sample_state)) @ [''USDC''] = [''BTC'', ''USDC'']"
      by (subst sample_feed) (simp add: sample_facts)
    have clock: "pv_clock sample_publisher_env = (\<lambda>_. 100000)" "pb_health new_publisher = Map.empty"
      by (simp_all add: sample_publisher_env_def new_publisher_def)
    show ?thesis
      unfolding pub_live_def pub_collect_def quotes
      using that go [of "es @ [Ov_clock 100000, Ov_quotes q, Ov_usdc None]"]
      by (simp add: clock collected sample_facts q(2) usdc_readings_def readUsdcReference_def median_lift_def pub_gauge_def act_wp)
  qed
  show ?thesis
    unfolding publisher_tick_def wp_bind
    using live by (simp add: wp_def [of "readState _ _"] sample_read sample_facts wp_then pub_gauge_def wp_on_keeper wp_gauge)
qed

lemma sample_of_state: "of_state {Ov_state sample_state} [sample_update]"
proof -
  have "hd (ov_feeds sample_state) \<in> set (ov_feeds sample_state)" by (simp add: sample_state_def)
  then show ?thesis by (simp add: of_state_def sample_update_def)
qed

lemma sample_node_self: "sample_node (pv_call sample_publisher_env) (pv_simulate sample_publisher_env) = sample_publisher_env"
  by (simp add: sample_publisher_env_def)

lemma sample_push:
  "pushes (pub_trace (snd (publisher_tick sample_publisher sample_publisher_env new_publisher))) = [([(''BTC'', 10001, 1)], 99)]"
proof -
  let ?Q = "\<lambda>t. pushes (pub_trace t) = [([(''BTC'', 10001, 1)], 99)]"
  have "wp (send_push sample_publisher env ds [sample_update] 99) (\<lambda>_. ?Q) (\<lambda>_. ?Q) t" if "calm Map.empty {Ov_state sample_state} t" for env ds t
    by (rule wp_mono [OF send_push_encoded [OF that _ sample_of_state]])
      (simp_all add: sample_encode after_push_def, simp_all add: as_update_def sample_update_def sample_facts)
  from sample_tick [OF this, of "pv_call sample_publisher_env" "pv_simulate sample_publisher_env"] show ?thesis
    unfolding sample_node_self wp_def by (simp split: prod.splits sum.splits)
qed

theorem publisher_pushes_what_it_decided_witness:
  "let tr = pub_trace (snd (publisher_tick sample_publisher sample_publisher_env new_publisher)) in
     pushes tr = [([(''BTC'', 10001, 1)], 99)]
     \<and> (\<exists>st q ref nowMs. {Ov_usdc ref, Ov_quotes q, Ov_clock nowMs, Ov_state st} \<subseteq> set tr
          \<and> push_reason sample_publisher Map.empty st q ref nowMs
          \<and> map as_update (due_updates sample_publisher st q Map.empty nowMs (publish_time sample_publisher st nowMs)) = [(''BTC'', 10001, 1)])"
proof -
  have "pub_trace new_publisher = []" "pb_backoff new_publisher = Map.empty" by (simp_all add: new_publisher_def new_keeper_def)
  with publisher_pushes_what_it_decided [of new_publisher sample_publisher sample_publisher_env] sample_push show ?thesis
    unfolding Let_def by fastforce
qed

text \<open>A node that refuses the push when gas is estimated, and the update alone in a simulation too.\<close>

definition refusing_call :: "int \<Rightarrow> call_env" where
  "refusing_call i = (sample_call i)\<lparr>ce_estimate := Inl not_found\<rparr>"

definition refusing_env :: publisher_env where
  "refusing_env = sample_node refusing_call (\<lambda>_ _. Some (ce_thrown (sample_call 0) Keeper_out_of_passes))"

lemma sample_refused:
  "let t = snd (publisher_tick sample_publisher refusing_env new_publisher) in
     was_refused (pub_trace t) \<and> map_option bo_failures (pb_backoff t ''BTC'') = Some 1"
proof -
  let ?Q = "\<lambda>t. was_refused (pub_trace t) \<and> map_option bo_failures (pb_backoff t ''BTC'') = Some 1"
  have no: "decodeError abi (ce_thrown (sample_call i) e) = no_error" for abi i e
    by (simp add: decodeError_def sample_call_def) code_simp
  have env: "pv_call refusing_env = refusing_call" "pv_clock refusing_env = (\<lambda>_. 100000)"
    "pv_simulate refusing_env = (\<lambda>_ _. Some (ce_thrown (sample_call 0) Keeper_out_of_passes))"
    by (simp_all add: refusing_env_def sample_publisher_env_def)
  have call: "ce_estimate (refusing_call i) = Inl not_found" "ce_thrown (refusing_call i) = ce_thrown (sample_call i)" for i
    by (simp_all add: refusing_call_def)
  have symbols: "fs_symbol (pu_feed sample_update) = ''BTC''" by (simp add: sample_update_def sample_facts)
  have refused: "wp (push_refused sample_publisher refusing_env ds [sample_update] 99 payload i (ce_thrown (sample_call i) e)) (\<lambda>_. ?Q) (\<lambda>_. ?Q) t"
    if "pb_backoff t = Map.empty" for ds payload i e t
    using that unfolding push_refused_def Let_def no
    by (simp add: act_wp no_error_def onRevert_def classifyRevert_def unknown_hit_def isolate_one_def backOff_def sample_encode env no symbols
        pub_count_def pub_update_action_def was_refused_def backoff_after_def Let_def) blast
  have submit: "wp (try_submit d (refusing_call i) \<lparr>tr_to = a, tr_data = x, tr_value = None, tr_gas = None, tr_label = l\<rparr>) P E k
      = P (Inl (ce_thrown (sample_call i) (Call_fault (Chain_fault not_found)))) k" for d i a x l P E k
    by (simp add: try_submit_def submit_def act_wp call chain_read_def)
  have "wp (send_push sample_publisher refusing_env ds [sample_update] 99) (\<lambda>_. ?Q) (\<lambda>_. ?Q) t"
    if "calm Map.empty {Ov_state sample_state} t" for ds t
  proof -
    have "pb_backoff t = Map.empty" using that by (simp add: calm_def)
    then show ?thesis unfolding send_push_def Let_def list.map sample_encode bind_lift
      by (simp only: wp_bind wp_then wp_on_keeper wp_record_action wp_log_event env submit sum.case) (rule refused, simp)
  qed
  from sample_tick [OF this [unfolded refusing_env_def]] show ?thesis
    unfolding refusing_env_def wp_def by (simp add: Let_def split: prod.splits sum.splits)
qed

theorem only_failing_feeds_back_off_witness:
  "let t = snd (publisher_tick sample_publisher refusing_env new_publisher) in
     was_refused (pub_trace t) \<and> feed_at_fault (pub_trace t) ''BTC''
     \<and> (\<exists>now b. Ov_clock now \<in> set (pub_trace t) \<and> pb_backoff t ''BTC'' = Some b \<and> now + 5000 \<le> bo_until b
          \<and> bo_until b \<le> now + 300000 \<and> bo_failures b = 1)"
proof -
  let ?t = "snd (publisher_tick sample_publisher refusing_env new_publisher)"
  have init: "pub_trace new_publisher = []" "pb_backoff new_publisher = Map.empty" by (simp_all add: new_publisher_def new_keeper_def)
  obtain b where b: "was_refused (pub_trace ?t)" "pb_backoff ?t ''BTC'' = Some b" using sample_refused by (auto simp: Let_def)
  from only_failing_feeds_back_off [OF init(1), of sample_publisher refusing_env "''BTC''"] init(2) b
  have "feed_at_fault (pub_trace ?t) ''BTC'' \<and> (\<exists>now b. Ov_clock now \<in> set (pub_trace ?t) \<and> pb_backoff ?t ''BTC'' = Some b
     \<and> now + 5000 \<le> bo_until b \<and> bo_until b \<le> now + 300000 \<and> bo_failures b = 1)" by auto
  then show ?thesis using b(1) by (simp add: Let_def)
qed

end
