(* ===== verification/Order_Intake.thy ===== *)
theory Order_Intake
  imports Matcher_Book Keeper_Calls
begin

text \<open>
  Order and cancel intake, \<open>client/lib/validation.ts\<close>, with \<open>insertOrder\<close> of \<open>lib/queries/orders.ts\<close>, the route
  \<open>app/api/orders/route.ts\<close> and the submission of the backstop's book. The checks of the contract that intake stands in for,
  \<open>OrderGateway._consume\<close>, \<open>_checkNotional\<close>, \<open>cancelSigned\<close> and \<open>OrderLib.isValidSignature\<close>, are modelled beside it: what
  intake accepts, the gateway takes.

  Typed-data hashing, \<open>recoverAddress\<close> and the answer to an \<open>eth_call\<close> are parameters. The texts of
  the errors are left out; their codes, statuses and contract errors are not. A query that throws is an \<open>Inl\<close>.
\<close>

section \<open>Bounds and rejections\<close>

definition UINT32_MAX :: int where "UINT32_MAX = 2 ^ 32 - 1"
definition UINT64_BOUND :: int where "UINT64_BOUND = 2 ^ 64 - 1"
definition UINT256_MAX :: int where "UINT256_MAX = 2 ^ 256 - 1"
definition INT128_MAX :: int where "INT128_MAX = 2 ^ 127 - 1"
definition HALF_N :: int where "HALF_N = 0x7fffffffffffffffffffffffffffffff5d576e7357a4501ddfe92f46681b20a0"
definition MIN_TTL_SECONDS :: int where "MIN_TTL_SECONDS = 5"
definition MAX_TTL_SECONDS :: int where "MAX_TTL_SECONDS = MAX_ORDER_TTL_SECONDS"
definition MAX_CANCEL_ALL_WINDOW_SECONDS :: int where "MAX_CANCEL_ALL_WINDOW_SECONDS = 300"
definition MAX_SIGNATURE_BYTES :: nat where "MAX_SIGNATURE_BYTES = 1024"
definition MAX_BODY_BYTES :: int where "MAX_BODY_BYTES = 4096"

datatype reject_code = Rej_invalid_body | Rej_invalid_field | Rej_wrong_chain | Rej_bad_signature | Rej_signature_unverifiable
  | Rej_expired | Rej_expiry_too_far | Rej_nonce_cancelled | Rej_nonce_reused | Rej_unknown_market | Rej_market_inactive
  | Rej_market_not_configured | Rej_below_min_notional | Rej_overflow | Rej_rate_limited | Rej_body_too_large

record rejection =
  re_code :: reject_code
  re_status :: int
  re_contractError :: "string option"

fun REJECTIONS :: "reject_code \<Rightarrow> int \<times> string option" where
  "REJECTIONS Rej_invalid_body = (400, None)"
| "REJECTIONS Rej_invalid_field = (400, Some ''ZeroAddress / InvalidAmount (ABI bounds)'')"
| "REJECTIONS Rej_wrong_chain = (400, Some ''InvalidSignature (domain chainId)'')"
| "REJECTIONS Rej_bad_signature = (401, Some ''InvalidSignature'')"
| "REJECTIONS Rej_signature_unverifiable = (503, None)"
| "REJECTIONS Rej_expired = (400, Some ''OrderExpired (block.timestamp > expiry)'')"
| "REJECTIONS Rej_expiry_too_far = (400, Some ''OrderExpired (expiry > now + MAX_ORDER_TTL)'')"
| "REJECTIONS Rej_nonce_cancelled = (400, Some ''OrderCancelled (nonce < minNonce)'')"
| "REJECTIONS Rej_nonce_reused = (409, Some ''NonceReused'')"
| "REJECTIONS Rej_unknown_market = (400, Some ''UnknownMarket'')"
| "REJECTIONS Rej_market_inactive = (400, Some ''MarketInactive'')"
| "REJECTIONS Rej_market_not_configured = (400, Some ''UnknownMarket (no MarketParamsSet indexed)'')"
| "REJECTIONS Rej_below_min_notional = (400, Some ''FillBelowMinNotional'')"
| "REJECTIONS Rej_overflow = (400, Some ''MathOverflow'')"
| "REJECTIONS Rej_rate_limited = (429, None)"
| "REJECTIONS Rej_body_too_large = (413, None)"

definition reject :: "reject_code \<Rightarrow> rejection" where
  "reject code = (let (status, contractError) = REJECTIONS code in \<lparr>re_code = code, re_status = status, re_contractError = contractError\<rparr>)"

section \<open>Fields\<close>

fun asObject :: "json \<Rightarrow> (string \<times> json) list option" where
  "asObject (JObj o') = Some o'"
| "asObject _ = None"

text \<open>A non-negative integer as a decimal text or a safe JSON integer.\<close>

definition uint_text :: "string \<Rightarrow> int \<Rightarrow> int option" where
  "uint_text s bound = (if s \<noteq> [] \<and> length s \<le> 78 \<and> list_all is_digit s \<and> digits_value s \<le> bound then Some (digits_value s) else None)"

fun uint :: "json option \<Rightarrow> int \<Rightarrow> int option" where
  "uint (Some (JStr s)) bound = uint_text s bound"
| "uint (Some (JNum n)) bound = (if 0 \<le> n \<and> n \<le> 2 ^ 53 - 1 then uint_text (nat_text (nat n)) bound else None)"
| "uint _ bound = None"

fun address_field :: "json option \<Rightarrow> address option" where
  "address_field (Some (JStr a)) = (if take 2 a = ''0x'' \<and> length a = 42 \<and> list_all hex_digit (drop 2 a) then Some (lower a) else None)"
| "address_field _ = None"

fun signatureHex :: "json option \<Rightarrow> hex option" where
  "signatureHex (Some (JStr v)) =
     (if take 2 v = ''0x'' \<and> length v \<ge> 4 \<and> even (length v) \<and> list_all hex_digit (drop 2 v)
         \<and> (length v - 2) div 2 \<le> MAX_SIGNATURE_BYTES then Some (lower v) else None)"
| "signatureHex _ = None"

fun bool_field :: "json option \<Rightarrow> bool option" where
  "bool_field (Some (JBool b)) = Some b"
| "bool_field _ = None"

definition claimedOwner :: "json \<Rightarrow> string" where
  "claimedOwner body = (case asObject body of None \<Rightarrow> ''invalid'' | Some b \<Rightarrow>
     (case map_of b ''owner'' of Some (JStr o') \<Rightarrow> lower (take 42 o') | _ \<Rightarrow> ''invalid''))"

definition zeroAddress :: address where
  "zeroAddress = ''0x'' @ replicate 40 CHR ''0''"

section \<open>Signatures\<close>

definition hex_value :: "string \<Rightarrow> int" where
  "hex_value s = fold (\<lambda>c n. n * 16 + (if is_digit c then digit_value c
     else if c \<ge> CHR ''a'' then int (of_char c) - 87 else int (of_char c) - 55)) s 0"

definition ERC1271_MAGIC :: string where "ERC1271_MAGIC = ''0x1626ba7e''"

text \<open>What \<open>eth_call\<close> answers: data, a revert, or no answer.\<close>

datatype call_answer = Returned hex | Reverted | No_answer

definition isErc1271Magic :: "hex \<Rightarrow> bool" where
  "isErc1271Magic data \<longleftrightarrow> length data \<ge> 2 + 64 \<and> lower (take 66 data) = ERC1271_MAGIC @ replicate 56 CHR ''0''"

text \<open>\<open>rpcErc1271Checker\<close>: nothing when it throws.\<close>

fun rpcErc1271 :: "call_answer \<Rightarrow> bool option" where
  "rpcErc1271 (Returned data) = Some (isErc1271Magic data)"
| "rpcErc1271 Reverted = Some False"
| "rpcErc1271 No_answer = None"

definition recoverStrict :: "(hex \<Rightarrow> hex \<Rightarrow> address option) \<Rightarrow> hex \<Rightarrow> hex \<Rightarrow> address option" where
  "recoverStrict recover digest sig =
     (if length sig \<noteq> 2 + 130 then None
      else let s = hex_value (take 64 (drop 66 sig)); v = hex_value (take 2 (drop 130 sig)) in
        if s > HALF_N \<or> (v \<noteq> 27 \<and> v \<noteq> 28) then None
        else map_option lower (recover digest sig))"

record intake_context =
  ic_network :: string
  ic_chainId :: int
  ic_gateway :: address
  ic_nowSec :: int
  ic_recover :: "hex \<Rightarrow> hex \<Rightarrow> address option"
  ic_call :: "address \<Rightarrow> hex \<Rightarrow> hex \<Rightarrow> call_answer"
  ic_hashOrder :: "int \<Rightarrow> address \<Rightarrow> order \<Rightarrow> hex"
  ic_hashCancel :: "int \<Rightarrow> address \<Rightarrow> address \<times> int \<times> int \<Rightarrow> hex"
  ic_markets :: "string + market_row list"
  ic_accounts :: "string + account_row list"

definition verifySignature :: "intake_context \<Rightarrow> address \<Rightarrow> hex \<Rightarrow> hex \<Rightarrow> rejection option" where
  "verifySignature ctx owner digest sig =
     (if recoverStrict (ic_recover ctx) digest sig = Some owner then None
      else case rpcErc1271 (ic_call ctx owner digest sig) of
        None \<Rightarrow> Some (reject Rej_signature_unverifiable)
      | Some valid \<Rightarrow> if valid then None else Some (reject Rej_bad_signature))"

section \<open>Orders\<close>

record parsed_order =
  po_order :: order
  po_signature :: hex
  po_chainId :: "int option"

definition need :: "'a option \<Rightarrow> ('a \<Rightarrow> rejection + 'b) \<Rightarrow> rejection + 'b" where
  "need x f = (case x of None \<Rightarrow> Inl (reject Rej_invalid_field) | Some v \<Rightarrow> f v)"

definition owner_field :: "(string \<times> json) list \<Rightarrow> address option" where
  "owner_field b = (case address_field (map_of b ''owner'') of None \<Rightarrow> None | Some a \<Rightarrow> if a = zeroAddress then None else Some a)"

definition referrer_field :: "(string \<times> json) list \<Rightarrow> address option" where
  "referrer_field b = (if map_of b ''referrer'' \<in> {None, Some JNull} then Some zeroAddress else address_field (map_of b ''referrer''))"

definition chainId_field :: "(string \<times> json) list \<Rightarrow> int option option" where
  "chainId_field b = (case map_of b ''chainId'' of None \<Rightarrow> Some None | Some c \<Rightarrow> map_option Some (uint (Some c) (2 ^ 53)))"

definition parseOrder :: "json \<Rightarrow> rejection + parsed_order" where
  "parseOrder body = (case asObject body of None \<Rightarrow> Inl (reject Rej_invalid_body) | Some b \<Rightarrow>
     need (owner_field b) (\<lambda>owner.
     need (case uint (map_of b ''marketId'') UINT32_MAX of Some m \<Rightarrow> if m = 0 then None else Some m | None \<Rightarrow> None) (\<lambda>marketId.
     need (bool_field (map_of b ''isLong'')) (\<lambda>isLong.
     need (bool_field (map_of b ''reduceOnly'')) (\<lambda>reduceOnly.
     need (uint (map_of b ''size'') UINT256_MAX) (\<lambda>sz.
     need (uint (map_of b ''limitPrice'') UINT256_MAX) (\<lambda>limitPrice.
     if sz = 0 \<or> limitPrice = 0 then Inl (reject Rej_invalid_field) else
     need (uint (map_of b ''nonce'') UINT256_MAX) (\<lambda>nonce.
     need (uint (map_of b ''expiry'') UINT64_BOUND) (\<lambda>expiry.
     need (referrer_field b) (\<lambda>referrer.
     need (signatureHex (map_of b ''signature'')) (\<lambda>sig.
     need (chainId_field b) (\<lambda>chainId.
     if sz > INT128_MAX \<or> limitPrice > INT128_MAX \<or> (sz * limitPrice) sdiv E18 > INT128_MAX then Inl (reject Rej_overflow)
     else Inr \<lparr>po_order = \<lparr>od_owner = owner, od_marketId = marketId, od_isLong = isLong, od_size = sz, od_limitPrice = limitPrice,
            od_reduceOnly = reduceOnly, od_nonce = nonce, od_expiry = expiry, od_referrer = referrer\<rparr>,
          po_signature = sig, po_chainId = chainId\<rparr>))))))))))))"

definition checkExpiry :: "int \<Rightarrow> int \<Rightarrow> rejection option" where
  "checkExpiry expiry nowSec =
     (if expiry \<le> nowSec + MIN_TTL_SECONDS then Some (reject Rej_expired)
      else if expiry > nowSec + MAX_TTL_SECONDS then Some (reject Rej_expiry_too_far)
      else None)"

record validated_order =
  vo_order :: order
  vo_orderHash :: hex
  vo_signature :: hex

text \<open>A check that may reject before the rest.\<close>

definition unless_rejected :: "rejection option \<Rightarrow> 'f + rejection + 'a \<Rightarrow> 'f + rejection + 'a" where
  "unless_rejected problem k = (case problem of Some r \<Rightarrow> Inr (Inl r) | None \<Rightarrow> k)"

definition fault_or :: "'f + 'a \<Rightarrow> ('a \<Rightarrow> 'f + 'b) \<Rightarrow> 'f + 'b" where
  "fault_or x k = (case x of Inl e \<Rightarrow> Inl e | Inr v \<Rightarrow> k v)"

definition market_problem :: "string \<Rightarrow> market_row list \<Rightarrow> order \<Rightarrow> rejection option" where
  "market_problem network rows ord =
     (case find (\<lambda>r. mr_network r = network \<and> mr_id r = od_marketId ord) rows of
        None \<Rightarrow> Some (reject Rej_unknown_market)
      | Some m \<Rightarrow>
          if \<not> mr_active m then Some (reject Rej_market_inactive)
          else case mr_params m ''minFillNotional'' of
            None \<Rightarrow> Some (reject Rej_market_not_configured)
          | Some minFillNotional \<Rightarrow>
              if (od_size ord * od_limitPrice ord) sdiv E18 < minFillNotional then Some (reject Rej_below_min_notional) else None)"

definition nonce_floor :: "string \<Rightarrow> account_row list \<Rightarrow> address \<Rightarrow> int" where
  "nonce_floor network rows owner = (case find (\<lambda>r. ac_network r = network \<and> ac_address r = owner) rows of None \<Rightarrow> 0 | Some r \<Rightarrow> ac_minValidNonce r)"

definition validateOrderSubmission :: "json \<Rightarrow> intake_context \<Rightarrow> string + rejection + validated_order" where
  "validateOrderSubmission body ctx = (case parseOrder body of Inl r \<Rightarrow> Inr (Inl r) | Inr parsed \<Rightarrow>
     let ord = po_order parsed; sig = po_signature parsed; orderHash = lower (ic_hashOrder ctx (ic_chainId ctx) (ic_gateway ctx) ord) in
     unless_rejected (if po_chainId parsed \<noteq> None \<and> po_chainId parsed \<noteq> Some (ic_chainId ctx) then Some (reject Rej_wrong_chain) else None)
    (unless_rejected (checkExpiry (od_expiry ord) (ic_nowSec ctx))
    (unless_rejected (verifySignature ctx (od_owner ord) orderHash sig)
    (fault_or (ic_markets ctx) (\<lambda>markets.
     unless_rejected (market_problem (ic_network ctx) markets ord)
    (fault_or (ic_accounts ctx) (\<lambda>accounts.
     unless_rejected (if od_nonce ord < nonce_floor (ic_network ctx) accounts (od_owner ord) then Some (reject Rej_nonce_cancelled) else None)
       (Inr (Inr \<lparr>vo_order = ord, vo_orderHash = orderHash, vo_signature = sig\<rparr>)))))))))"

section \<open>Cancels\<close>

record cancel_body =
  cb_owner :: address
  cb_nonce :: int
  cb_deadline :: int

record cancel_all =
  ca_owner :: address
  ca_marketId :: int
  ca_deadline :: int

definition checkChain :: "(string \<times> json) list \<Rightarrow> intake_context \<Rightarrow> rejection option" where
  "checkChain b ctx = (case map_of b ''chainId'' of None \<Rightarrow> None
     | Some c \<Rightarrow> (case uint (Some c) (2 ^ 53) of None \<Rightarrow> Some (reject Rej_invalid_field)
         | Some n \<Rightarrow> if n = ic_chainId ctx then None else Some (reject Rej_wrong_chain)))"

definition first_problem :: "rejection option \<Rightarrow> rejection + 'a \<Rightarrow> rejection + 'a" where
  "first_problem problem k = (case problem of Some r \<Rightarrow> Inl r | None \<Rightarrow> k)"

definition validateCancel :: "json \<Rightarrow> intake_context \<Rightarrow> rejection + cancel_body \<times> hex" where
  "validateCancel body ctx = (case asObject body of None \<Rightarrow> Inl (reject Rej_invalid_body) | Some b \<Rightarrow>
     need (owner_field b) (\<lambda>owner.
     need (uint (map_of b ''nonce'') UINT256_MAX) (\<lambda>nonce.
     need (uint (map_of b ''deadline'') UINT64_BOUND) (\<lambda>deadline.
     need (signatureHex (map_of b ''signature'')) (\<lambda>sig.
     first_problem (checkChain b ctx)
    (first_problem (if deadline < ic_nowSec ctx then Some (reject Rej_expired) else None)
    (first_problem (verifySignature ctx owner (ic_hashCancel ctx (ic_chainId ctx) (ic_gateway ctx) (owner, nonce, deadline)) sig)
       (Inr (\<lparr>cb_owner = owner, cb_nonce = nonce, cb_deadline = deadline\<rparr>, sig)))))))))"

definition validateCancelAll :: "(int \<Rightarrow> address \<Rightarrow> cancel_all \<Rightarrow> hex) \<Rightarrow> json \<Rightarrow> intake_context \<Rightarrow> rejection + cancel_all \<times> hex" where
  "validateCancelAll hashCancelAll body ctx = (case asObject body of None \<Rightarrow> Inl (reject Rej_invalid_body) | Some b \<Rightarrow>
     need (owner_field b) (\<lambda>owner.
     need (if map_of b ''marketId'' = None then Some 0 else uint (map_of b ''marketId'') UINT32_MAX) (\<lambda>marketId.
     need (uint (map_of b ''deadline'') UINT64_BOUND) (\<lambda>deadline.
     need (signatureHex (map_of b ''signature'')) (\<lambda>sig.
     first_problem (checkChain b ctx)
    (first_problem (if deadline < ic_nowSec ctx then Some (reject Rej_expired)
        else if deadline > ic_nowSec ctx + MAX_CANCEL_ALL_WINDOW_SECONDS then Some (reject Rej_expiry_too_far) else None)
    (let c = \<lparr>ca_owner = owner, ca_marketId = marketId, ca_deadline = deadline\<rparr> in
     first_problem (verifySignature ctx owner (hashCancelAll (ic_chainId ctx) (ic_gateway ctx) c) sig) (Inr (c, sig)))))))))"

section \<open>The stored order and the route\<close>

datatype insert_outcome = Inserted | Duplicate | Nonce_reused

definition new_order_row :: "string \<Rightarrow> validated_order \<Rightarrow> int \<Rightarrow> order_row" where
  "new_order_row network v now = (let ord = vo_order v in
     \<lparr>ow_network = network, ow_orderHash = vo_orderHash v, ow_owner = lower (od_owner ord), ow_marketId = od_marketId ord,
      ow_isLong = od_isLong ord, ow_size = od_size ord, ow_limitPrice = od_limitPrice ord, ow_reduceOnly = od_reduceOnly ord,
      ow_nonce = od_nonce ord, ow_expiry = od_expiry ord,
      ow_referrer = (if od_referrer ord = zeroAddress then None else Some (lower (od_referrer ord))),
      ow_signature = vo_signature v, ow_status = OPEN, ow_filledSize = 0, ow_createdAt = now\<rparr>)"

text \<open>
  The one statement of \<open>insertOrder\<close>: the account if it is new, the order unless its hash is stored. The unique index on
  network, owner and nonce fails the statement, and then nothing is written.
\<close>

definition insertOrder :: "order_row \<Rightarrow> db \<Rightarrow> insert_outcome \<times> db" where
  "insertOrder r d =
     (let accounts = (if \<exists>a \<in> set (db_accounts d). ac_network a = ow_network r \<and> ac_address a = ow_owner r then db_accounts d
            else db_accounts d @ [\<lparr>ac_network = ow_network r, ac_address = ow_owner r, ac_minValidNonce = 0\<rparr>])
      in if \<exists>x \<in> set (db_orders d). ow_orderHash x = ow_orderHash r then (Duplicate, d\<lparr>db_accounts := accounts\<rparr>)
      else if \<exists>x \<in> set (db_orders d). ow_network x = ow_network r \<and> ow_owner x = ow_owner r \<and> ow_nonce x = ow_nonce r then (Nonce_reused, d)
      else (Inserted, d\<lparr>db_accounts := accounts, db_orders := db_orders d @ [r]\<rparr>))"

text \<open>A request as the server sees it: the declared length, the text or nothing when it cannot be read, its size in bytes.\<close>

record http_request =
  hr_declared :: "int option"
  hr_text :: "string option"
  hr_bytes :: int

definition readBoundedJson :: "(string \<Rightarrow> json option) \<Rightarrow> http_request \<Rightarrow> rejection + json" where
  "readBoundedJson parse req =
     (if (case hr_declared req of None \<Rightarrow> False | Some n \<Rightarrow> n > MAX_BODY_BYTES) then Inl (reject Rej_body_too_large)
      else case hr_text req of None \<Rightarrow> Inl (reject Rej_invalid_body)
      | Some text' \<Rightarrow> if hr_bytes req > MAX_BODY_BYTES then Inl (reject Rej_body_too_large)
          else case parse text' of None \<Rightarrow> Inl (reject Rej_invalid_body) | Some body \<Rightarrow> Inr body)"

datatype order_response = Response_created hex | Response_duplicate hex | Response_rejected rejection | Response_unavailable | Response_internal

fun response_status :: "order_response \<Rightarrow> int" where
  "response_status (Response_created h) = 201"
| "response_status (Response_duplicate h) = 200"
| "response_status (Response_rejected r) = re_status r"
| "response_status Response_unavailable = 503"
| "response_status Response_internal = 500"

text \<open>
  \<open>POST /api/orders\<close>: the two rate limits, keyed by the claimed owner and by the caller, and whether the contracts are configured, are
  answers of the environment.
\<close>

record intake_env =
  ie_parse :: "string \<Rightarrow> json option"
  ie_rate_owner :: "string \<Rightarrow> bool"
  ie_rate_ip :: bool
  ie_configured :: bool
  ie_now :: int

definition post_order :: "intake_env \<Rightarrow> intake_context \<Rightarrow> http_request \<Rightarrow> db \<Rightarrow> order_response \<times> db" where
  "post_order env ctx req d = (case readBoundedJson (ie_parse env) req of Inl r \<Rightarrow> (Response_rejected r, d)
     | Inr body \<Rightarrow>
         if \<not> (ie_rate_owner env (''order-owner:'' @ claimedOwner body) \<and> ie_rate_ip env) then (Response_rejected (reject Rej_rate_limited), d)
         else if \<not> ie_configured env then (Response_unavailable, d)
         else (case validateOrderSubmission body ctx of
             Inl e \<Rightarrow> (Response_internal, d)
           | Inr (Inl r) \<Rightarrow> (Response_rejected r, d)
           | Inr (Inr v) \<Rightarrow> (case insertOrder (new_order_row (ic_network ctx) v (ie_now env)) d of
                 (Nonce_reused, d') \<Rightarrow> (Response_rejected (reject Rej_nonce_reused), d')
               | (Inserted, d') \<Rightarrow> (Response_created (vo_orderHash v), d')
               | (Duplicate, d') \<Rightarrow> (Response_duplicate (vo_orderHash v), d'))))"

end
