(* ===== verification/Intake_Gateway.thy ===== *)
theory Intake_Gateway
  imports Order_Intake
begin

text \<open>
  What intake accepts, the gateway takes. The checks of \<open>OrderGateway.sol\<close> and \<open>OrderLib.sol\<close> that an order or a signed cancel meets are
  modelled here with their reverts, \<open>orderState\<close> packed into one word as in the contract. An accepted order is proved to pass \<open>_consume\<close> at
  every block up to its expiry while the chain still has what intake saw, and \<open>_checkNotional\<close> for every fill worth the minimum of its market; then that the body
  the unwinder sends parses to the order it was made from, and that an inserted order stays in the book for as long as its row is open.
\<close>

section \<open>The gateway\<close>

datatype gateway_error = Gw_ZeroAddress | Gw_InvalidAmount | Gw_OrderExpired | Gw_OrderCancelled | Gw_NonceReused | Gw_OrderOverfilled
  | Gw_MathOverflow | Gw_PriceOutsideBand | Gw_InvalidSignature | Gw_FillBelowMinNotional

record gateway =
  gw_minNonce :: "address \<Rightarrow> int"
  gw_cancelled :: "address \<Rightarrow> int \<Rightarrow> bool"
  gw_orderState :: "address \<Rightarrow> int \<Rightarrow> int"

text \<open>OpenZeppelin's \<open>tryRecover\<close>, whether an account has code, and a gas-capped \<open>staticcall\<close>: its data, or nothing when it failed.\<close>

record chain_wallets =
  cw_tryRecover :: "hex \<Rightarrow> hex \<Rightarrow> address option"
  cw_hasCode :: "address \<Rightarrow> bool"
  cw_staticcall :: "address \<Rightarrow> hex \<Rightarrow> hex \<Rightarrow> hex option"

definition isValidERC1271Signature :: "chain_wallets \<Rightarrow> address \<Rightarrow> hex \<Rightarrow> hex \<Rightarrow> bool" where
  "isValidERC1271Signature cw signer digest sig = (case cw_staticcall cw signer digest sig of None \<Rightarrow> False
     | Some data \<Rightarrow> (length data - 2) div 2 > 31 \<and> lower (take 64 (drop 2 data)) = drop 2 ERC1271_MAGIC @ replicate 56 CHR ''0'')"

definition isValidSignature :: "chain_wallets \<Rightarrow> address \<Rightarrow> hex \<Rightarrow> hex \<Rightarrow> bool" where
  "isValidSignature cw signer digest sig =
     (if cw_tryRecover cw digest sig = Some signer then True
      else if \<not> cw_hasCode cw signer then False
      else isValidERC1271Signature cw signer digest sig)"

definition digest_prefix :: "hex \<Rightarrow> int" where
  "digest_prefix digest = hex_value (drop 2 digest) div 2 ^ 128"

definition gateway_consume :: "gateway \<Rightarrow> chain_wallets \<Rightarrow> int \<Rightarrow> order \<Rightarrow> hex \<Rightarrow> hex \<Rightarrow> int \<Rightarrow> int \<Rightarrow> gateway_error + gateway" where
  "gateway_consume g cw now ord digest sig fillSize fillPrice =
     (let owner = od_owner ord; nonce = od_nonce ord; state = gw_orderState g owner nonce; prefix = digest_prefix digest;
          following = state mod 2 ^ 128 + fillSize in
      if owner = zeroAddress then Inl Gw_ZeroAddress
      else if od_size ord = 0 \<or> od_limitPrice ord = 0 then Inl Gw_InvalidAmount
      else if now > od_expiry ord then Inl Gw_OrderExpired
      else if od_expiry ord > now + MAX_ORDER_TTL_SECONDS then Inl Gw_OrderExpired
      else if nonce < gw_minNonce g owner \<or> gw_cancelled g owner nonce then Inl Gw_OrderCancelled
      else if state \<noteq> 0 \<and> state div 2 ^ 128 \<noteq> prefix then Inl Gw_NonceReused
      else if following > od_size ord then Inl Gw_OrderOverfilled
      else if following > 2 ^ 128 - 1 then Inl Gw_MathOverflow
      else if (if od_isLong ord then fillPrice > od_limitPrice ord else fillPrice < od_limitPrice ord) then Inl Gw_PriceOutsideBand
      else if \<not> isValidSignature cw owner digest sig then Inl Gw_InvalidSignature
      else Inr (g\<lparr>gw_orderState := (gw_orderState g)(owner := (gw_orderState g owner)(nonce := prefix * 2 ^ 128 + following))\<rparr>))"

definition gateway_notional :: "int \<Rightarrow> int \<Rightarrow> int \<Rightarrow> gateway_error + int" where
  "gateway_notional minFillNotional sz price =
     (if sz > INT128_MAX \<or> price > INT128_MAX then Inl Gw_MathOverflow
      else let notional = (sz * price) sdiv E18 in
        if notional > INT128_MAX \<or> notional < - (2 ^ 127) then Inl Gw_MathOverflow
        else if notional < minFillNotional then Inl Gw_FillBelowMinNotional else Inr notional)"

definition gateway_cancelSigned :: "gateway \<Rightarrow> chain_wallets \<Rightarrow> int \<Rightarrow> cancel_body \<Rightarrow> hex \<Rightarrow> hex \<Rightarrow> gateway_error + gateway" where
  "gateway_cancelSigned g cw now c digest sig =
     (if now > cb_deadline c then Inl Gw_OrderExpired
      else if \<not> isValidSignature cw (cb_owner c) digest sig then Inl Gw_InvalidSignature
      else Inr (g\<lparr>gw_cancelled := (gw_cancelled g)(cb_owner c := (gw_cancelled g (cb_owner c))(cb_nonce c := True))\<rparr>))"

section \<open>Signatures mean the same on both sides\<close>

text \<open>
  What both sides rely on: an accepted recovery is OpenZeppelin's, a call answers on chain what it answered to intake, and an account
  without code answers no data.
\<close>

definition wallets_agree :: "intake_context \<Rightarrow> chain_wallets \<Rightarrow> bool" where
  "wallets_agree ctx cw \<longleftrightarrow>
     (\<forall>d s a. recoverStrict (ic_recover ctx) d s = Some a \<longrightarrow> cw_tryRecover cw d s = Some a)
     \<and> (\<forall>a d s x. ic_call ctx a d s = Returned x \<longrightarrow> cw_staticcall cw a d s = Some x)
     \<and> (\<forall>a d s. \<not> cw_hasCode cw a \<longrightarrow> cw_staticcall cw a d s = Some ''0x'')"

lemma lower_append: "lower (xs @ ys) = lower xs @ lower ys"
  by (simp add: lower_def)

lemma lower_take_drop: "lower (drop n (take m xs)) = drop n (lower (take m xs))"
  by (simp add: lower_def drop_map)

lemma magic_on_chain:
  assumes "isErc1271Magic data"
  shows "(length data - 2) div 2 > 31 \<and> lower (take 64 (drop 2 data)) = drop 2 ERC1271_MAGIC @ replicate 56 CHR ''0''"
proof -
  have len: "66 \<le> length data" and word: "lower (take 66 data) = ERC1271_MAGIC @ replicate 56 CHR ''0''"
    using assms by (auto simp: isErc1271Magic_def)
  have "31 < (length data - 2) div 2" using len by linarith
  moreover have "take 64 (drop 2 data) = drop 2 (take 66 data)" by (simp add: drop_take)
  then have "lower (take 64 (drop 2 data)) = drop 2 ERC1271_MAGIC @ replicate 56 CHR ''0''"
    by (simp add: lower_take_drop word ERC1271_MAGIC_def)
  ultimately show ?thesis by blast
qed

lemma verified_on_chain:
  assumes "verifySignature ctx owner digest sig = None" and "wallets_agree ctx cw"
  shows "isValidSignature cw owner digest sig"
proof (cases "recoverStrict (ic_recover ctx) digest sig = Some owner")
  case True
  then show ?thesis using assms(2) by (simp add: wallets_agree_def isValidSignature_def)
next
  case False
  then obtain data where data: "ic_call ctx owner digest sig = Returned data" "isErc1271Magic data"
    using assms(1) by (auto simp: verifySignature_def split: option.splits if_splits elim!: rpcErc1271.elims)
  then have call: "cw_staticcall cw owner digest sig = Some data" using assms(2) by (simp add: wallets_agree_def)
  have "data \<noteq> ''0x''" using data(2) by (auto simp: isErc1271Magic_def)
  then have "cw_hasCode cw owner" using assms(2) call unfolding wallets_agree_def by (metis option.inject)
  then show ?thesis using call magic_on_chain [OF data(2)] by (simp add: isValidSignature_def isValidERC1271Signature_def)
qed

section \<open>What intake has checked\<close>

lemma need_Inr [simp]: "need x f = Inr y \<longleftrightarrow> (\<exists>v. x = Some v \<and> f v = Inr y)"
  by (simp add: need_def split: option.splits)

lemma unless_rejected_Inr [simp]: "unless_rejected p k = Inr (Inr y) \<longleftrightarrow> p = None \<and> k = Inr (Inr y)"
  by (simp add: unless_rejected_def split: option.splits)

lemma first_problem_Inr [simp]: "first_problem p k = Inr y \<longleftrightarrow> p = None \<and> k = Inr y"
  by (simp add: first_problem_def split: option.splits)

lemma fault_or_Inr [simp]: "fault_or x k = Inr y \<longleftrightarrow> (\<exists>v. x = Inr v \<and> k v = Inr y)"
  by (simp add: fault_or_def split: sum.splits)

lemma digits_nonneg: "list_all is_digit s \<Longrightarrow> 0 \<le> digits_value s"
proof (induction s rule: rev_induct)
  case (snoc c s)
  then show ?case by (auto simp: is_digit_def digit_value_def)
qed (simp add: digits_value_def)

lemma uint_bounds: "uint x bound = Some n \<Longrightarrow> 0 \<le> n \<and> n \<le> bound"
  by (induction x bound rule: uint.induct) (auto simp: uint_text_def digits_nonneg split: if_splits)

definition order_bounded :: "order \<Rightarrow> bool" where
  "order_bounded ord \<longleftrightarrow> od_owner ord \<noteq> zeroAddress \<and> 0 < od_marketId ord \<and> od_marketId ord \<le> UINT32_MAX
     \<and> 0 < od_size ord \<and> od_size ord \<le> INT128_MAX \<and> 0 < od_limitPrice ord \<and> od_limitPrice ord \<le> INT128_MAX
     \<and> (od_size ord * od_limitPrice ord) sdiv E18 \<le> INT128_MAX
     \<and> 0 \<le> od_nonce ord \<and> od_nonce ord \<le> UINT256_MAX \<and> 0 \<le> od_expiry ord \<and> od_expiry ord \<le> UINT64_BOUND
     \<and> lower (od_owner ord) = od_owner ord"

lemma owner_field_lower: "owner_field b = Some a \<Longrightarrow> a \<noteq> zeroAddress \<and> lower a = a"
  by (auto simp: owner_field_def split: option.splits if_splits elim!: address_field.elims)

lemma parseOrder_bounded:
  assumes "parseOrder body = Inr p"
  shows "order_bounded (po_order p)"
proof -
  obtain b where b: "asObject body = Some b" using assms by (auto simp: parseOrder_def split: option.splits)
  from assms obtain owner m sz price nonce expiry isLong reduceOnly referrer sig c where
    fields: "owner_field b = Some owner" "uint (map_of b ''marketId'') UINT32_MAX = Some m" "m \<noteq> 0"
      "uint (map_of b ''size'') UINT256_MAX = Some sz" "uint (map_of b ''limitPrice'') UINT256_MAX = Some price" "sz \<noteq> 0" "price \<noteq> 0"
      "uint (map_of b ''nonce'') UINT256_MAX = Some nonce" "uint (map_of b ''expiry'') UINT64_BOUND = Some expiry"
      "sz \<le> INT128_MAX" "price \<le> INT128_MAX" "(sz * price) sdiv E18 \<le> INT128_MAX"
    and p: "p = \<lparr>po_order = \<lparr>od_owner = owner, od_marketId = m, od_isLong = isLong, od_size = sz, od_limitPrice = price,
            od_reduceOnly = reduceOnly, od_nonce = nonce, od_expiry = expiry, od_referrer = referrer\<rparr>, po_signature = sig, po_chainId = c\<rparr>"
    unfolding parseOrder_def b option.case by (auto split: if_splits option.splits)
  show ?thesis
    using owner_field_lower [OF fields(1)] fields(3,6,7,10,11,12) uint_bounds [OF fields(2)] uint_bounds [OF fields(4)] uint_bounds [OF fields(5)]
      uint_bounds [OF fields(8)] uint_bounds [OF fields(9)]
    unfolding order_bounded_def p by simp
qed

text \<open>Everything an accepted order has passed.\<close>

lemma validated_parts:
  assumes "validateOrderSubmission body ctx = Inr (Inr v)"
  shows "order_bounded (vo_order v)"
    "checkExpiry (od_expiry (vo_order v)) (ic_nowSec ctx) = None"
    "verifySignature ctx (od_owner (vo_order v)) (vo_orderHash v) (vo_signature v) = None"
    "\<exists>markets. ic_markets ctx = Inr markets \<and> market_problem (ic_network ctx) markets (vo_order v) = None"
    "\<exists>accounts. ic_accounts ctx = Inr accounts \<and> nonce_floor (ic_network ctx) accounts (od_owner (vo_order v)) \<le> od_nonce (vo_order v)"
    "vo_orderHash v = lower (ic_hashOrder ctx (ic_chainId ctx) (ic_gateway ctx) (vo_order v))"
  using assms parseOrder_bounded unfolding validateOrderSubmission_def Let_def
  by (auto split: sum.splits if_splits)

lemma find_listed: "find P xs = Some x \<Longrightarrow> x \<in> set xs \<and> P x"
  by (metis find_Some_iff nth_mem)

lemma packed: "0 \<le> f \<Longrightarrow> f < w \<Longrightarrow> (p * w + f) mod w = f \<and> (p * w + f) div w = (p :: int)"
  by (simp add: mod_pos_pos_trivial div_pos_pos_trivial)

text \<open>
  C39. Intake is never looser than \<open>_consume\<close> and \<open>_checkNotional\<close> of the gateway, on a chain that has not moved away from what
  intake saw: the owner's nonce floor is no higher than the one read, the nonce is neither cancelled on chain nor bound to another
  order, and wallets answer as they did. An order that was accepted passes every check of \<open>_consume\<close> at any block from intake to its expiry, for
  every fill within what is left of it at a price within its limit, and the counter of its nonce grows by exactly that fill. Its market is listed
  and active in the rows that were read, and by the minimum of that market \<open>_checkNotional\<close> takes the full order at its limit and every such fill
  that is itself worth the minimum, for a short also within the 128-bit range; a fill worth less it refuses, however small a part of an accepted order it is.
\<close>

theorem accepted_orders_pass_the_gateway:
  assumes accepted: "validateOrderSubmission body ctx = Inr (Inr v)" and wallets: "wallets_agree ctx cw"
    and time: "ic_nowSec ctx \<le> t" "t \<le> od_expiry (vo_order v)"
    and floor: "ic_accounts ctx = Inr accounts" "gw_minNonce g (od_owner (vo_order v)) \<le> nonce_floor (ic_network ctx) accounts (od_owner (vo_order v))"
    and state: "state = gw_orderState g (od_owner (vo_order v)) (od_nonce (vo_order v))" "\<not> gw_cancelled g (od_owner (vo_order v)) (od_nonce (vo_order v))"
      "state = 0 \<or> state div 2 ^ 128 = digest_prefix (vo_orderHash v)"
    and fill: "0 < sz" "state mod 2 ^ 128 + sz \<le> od_size (vo_order v)"
      "if od_isLong (vo_order v) then price \<le> od_limitPrice (vo_order v) else od_limitPrice (vo_order v) \<le> price"
  shows "(\<exists>g'. gateway_consume g cw t (vo_order v) (vo_orderHash v) (vo_signature v) sz price = Inr g'
       \<and> gw_orderState g' (od_owner (vo_order v)) (od_nonce (vo_order v)) mod 2 ^ 128 = state mod 2 ^ 128 + sz
       \<and> gw_orderState g' (od_owner (vo_order v)) (od_nonce (vo_order v)) div 2 ^ 128 = digest_prefix (vo_orderHash v))
     \<and> (\<exists>markets m low. ic_markets ctx = Inr markets \<and> m \<in> set markets \<and> mr_network m = ic_network ctx \<and> mr_id m = od_marketId (vo_order v)
          \<and> mr_active m \<and> mr_params m ''minFillNotional'' = Some low
          \<and> gateway_notional low (od_size (vo_order v)) (od_limitPrice (vo_order v)) = Inr ((od_size (vo_order v) * od_limitPrice (vo_order v)) sdiv E18)
          \<and> (0 \<le> price \<and> (od_isLong (vo_order v) \<or> price \<le> INT128_MAX \<and> (sz * price) sdiv E18 \<le> INT128_MAX) \<longrightarrow>
               gateway_notional low sz price = (if (sz * price) sdiv E18 < low then Inl Gw_FillBelowMinNotional else Inr ((sz * price) sdiv E18))))"
proof
  let ?o = "vo_order v"
  note parts = validated_parts [OF accepted]
  have bounded: "order_bounded ?o" by (rule parts(1))
  have expiry: "od_expiry ?o \<le> t + MAX_ORDER_TTL_SECONDS"
    using parts(2) time by (auto simp: checkExpiry_def MAX_TTL_SECONDS_def split: if_splits)
  have nonce: "gw_minNonce g (od_owner ?o) \<le> od_nonce ?o" using parts(5) floor by auto
  have valid: "isValidSignature cw (od_owner ?o) (vo_orderHash v) (vo_signature v)" by (rule verified_on_chain [OF parts(3) wallets])
  have "od_size ?o \<le> 2 ^ 127 - 1" using bounded by (simp add: order_bounded_def INT128_MAX_def)
  also have "\<dots> < (2 :: int) ^ 128" by simp
  finally have following: "0 \<le> state mod 2 ^ 128 + sz" "state mod 2 ^ 128 + sz < 2 ^ 128"
    using fill(1,2) pos_mod_sign [of "2 ^ 128" state] by simp_all
  have pass1: "(od_owner ?o = zeroAddress) = False" "(od_size ?o = 0 \<or> od_limitPrice ?o = 0) = False"
    using bounded by (simp_all add: order_bounded_def)
  have pass2: "(od_expiry ?o < t) = False" "(t + MAX_ORDER_TTL_SECONDS < od_expiry ?o) = False"
    "(od_nonce ?o < gw_minNonce g (od_owner ?o) \<or> gw_cancelled g (od_owner ?o) (od_nonce ?o)) = False"
    using time(2) expiry nonce state(2) by simp_all
  have pass3: "(state \<noteq> 0 \<and> state div 2 ^ 128 \<noteq> digest_prefix (vo_orderHash v)) = False" using state(3) by blast
  have pass4: "(od_size ?o < state mod 2 ^ 128 + sz) = False" using fill(2) unfolding eq_False by linarith
  have pass5: "(2 ^ 128 - 1 < state mod 2 ^ 128 + sz) = False" using following(2) unfolding eq_False by linarith
  have pass6: "(if od_isLong ?o then od_limitPrice ?o < price else price < od_limitPrice ?o) = False"
    using fill(3) by (cases "od_isLong ?o") simp_all
  have pass7: "(\<not> isValidSignature cw (od_owner ?o) (vo_orderHash v) (vo_signature v)) = False" using valid by simp
  note pass = pass1 pass2 pass3 pass4 pass5 pass6 pass7
  have "gateway_consume g cw t ?o (vo_orderHash v) (vo_signature v) sz price =
      Inr (g\<lparr>gw_orderState := (gw_orderState g)(od_owner ?o := (gw_orderState g (od_owner ?o))(od_nonce ?o :=
          digest_prefix (vo_orderHash v) * 2 ^ 128 + (state mod 2 ^ 128 + sz)))\<rparr>)"
    unfolding gateway_consume_def Let_def state(1) [symmetric] pass if_False by (rule refl)
  then show "\<exists>g'. gateway_consume g cw t ?o (vo_orderHash v) (vo_signature v) sz price = Inr g'
       \<and> gw_orderState g' (od_owner ?o) (od_nonce ?o) mod 2 ^ 128 = state mod 2 ^ 128 + sz
       \<and> gw_orderState g' (od_owner ?o) (od_nonce ?o) div 2 ^ 128 = digest_prefix (vo_orderHash v)"
    using packed [OF following, of "digest_prefix (vo_orderHash v)"] by (simp only: gateway.simps fun_upd_same Inr_inject ex_simps simp_thms) simp
  obtain markets where "ic_markets ctx = Inr markets" "market_problem (ic_network ctx) markets ?o = None" using parts(4) by blast
  moreover then obtain m low where m: "m \<in> set markets" "mr_network m = ic_network ctx" "mr_id m = od_marketId ?o" "mr_active m"
    "mr_params m ''minFillNotional'' = Some low" "low \<le> (od_size ?o * od_limitPrice ?o) sdiv E18"
    by (auto simp: market_problem_def split: option.splits if_splits dest!: find_listed)
  moreover have "0 \<le> (od_size ?o * od_limitPrice ?o) sdiv E18" using bounded by (intro sdiv_ge_0) (simp_all add: order_bounded_def)
  then have "gateway_notional low (od_size ?o) (od_limitPrice ?o) = Inr ((od_size ?o * od_limitPrice ?o) sdiv E18)"
    using bounded m(6) by (simp add: gateway_notional_def order_bounded_def Let_def)
  moreover have "gateway_notional low sz price = (if (sz * price) sdiv E18 < low then Inl Gw_FillBelowMinNotional else Inr ((sz * price) sdiv E18))"
    if p: "0 \<le> price" "od_isLong ?o \<or> price \<le> INT128_MAX \<and> (sz * price) sdiv E18 \<le> INT128_MAX"
  proof -
    have low: "0 \<le> (sz * price) sdiv E18" using fill(1) p(1) by (intro sdiv_ge_0) simp_all
    have small: "sz \<le> od_size ?o" using fill(2) pos_mod_sign [of "2 ^ 128" state] by simp
    have "sz \<le> INT128_MAX \<and> price \<le> INT128_MAX \<and> (sz * price) sdiv E18 \<le> INT128_MAX"
    proof (cases "od_isLong ?o")
      case True
      then have "price \<le> od_limitPrice ?o" using fill(3) by simp
      moreover from this have "sz * price \<le> od_size ?o * od_limitPrice ?o" using small fill(1) p(1) by (intro mult_mono) simp_all
      then have "(sz * price) sdiv E18 \<le> (od_size ?o * od_limitPrice ?o) sdiv E18" using fill(1) p(1) by (intro sdiv_mono) simp_all
      ultimately show ?thesis using bounded small by (simp add: order_bounded_def)
    next
      case False
      then show ?thesis using p(2) bounded small by (simp add: order_bounded_def)
    qed
    then show ?thesis using low by (simp add: gateway_notional_def Let_def)
  qed
  ultimately show "\<exists>markets m low. ic_markets ctx = Inr markets \<and> m \<in> set markets \<and> mr_network m = ic_network ctx \<and> mr_id m = od_marketId ?o
          \<and> mr_active m \<and> mr_params m ''minFillNotional'' = Some low
          \<and> gateway_notional low (od_size ?o) (od_limitPrice ?o) = Inr ((od_size ?o * od_limitPrice ?o) sdiv E18)
          \<and> (0 \<le> price \<and> (od_isLong ?o \<or> price \<le> INT128_MAX \<and> (sz * price) sdiv E18 \<le> INT128_MAX) \<longrightarrow>
               gateway_notional low sz price = (if (sz * price) sdiv E18 < low then Inl Gw_FillBelowMinNotional else Inr ((sz * price) sdiv E18)))" by blast
qed

text \<open>A cancel that was accepted can be made final on chain, by anyone and up to its deadline.\<close>

lemma accepted_cancels_pass_the_gateway:
  assumes "validateCancel body ctx = Inr (c, sig)" and "wallets_agree ctx cw" and "t \<le> cb_deadline c"
  shows "\<exists>g'. gateway_cancelSigned g cw t c (ic_hashCancel ctx (ic_chainId ctx) (ic_gateway ctx) (cb_owner c, cb_nonce c, cb_deadline c)) sig = Inr g'
    \<and> gw_cancelled g' (cb_owner c) (cb_nonce c)"
proof -
  have "verifySignature ctx (cb_owner c) (ic_hashCancel ctx (ic_chainId ctx) (ic_gateway ctx) (cb_owner c, cb_nonce c, cb_deadline c)) sig = None"
    using assms(1) by (auto simp: validateCancel_def split: option.splits)
  from verified_on_chain [OF this assms(2)] assms(3) show ?thesis by (simp add: gateway_cancelSigned_def)
qed

section \<open>Bodies\<close>

text \<open>The body of an order, amounts as decimal text, as \<open>keepers/backstop.ts\<close> submits it.\<close>

definition order_body :: "order \<Rightarrow> hex \<Rightarrow> int \<Rightarrow> json" where
  "order_body ord sig chainId = JObj [(''owner'', JStr (od_owner ord)), (''marketId'', JNum (od_marketId ord)), (''isLong'', JBool (od_isLong ord)),
     (''size'', big_json (od_size ord)), (''limitPrice'', big_json (od_limitPrice ord)), (''reduceOnly'', JBool (od_reduceOnly ord)),
     (''nonce'', big_json (od_nonce ord)), (''expiry'', big_json (od_expiry ord)), (''referrer'', JStr (od_referrer ord)),
     (''signature'', JStr sig), (''chainId'', JNum chainId)]"

lemma uint_text_nat: "0 \<le> n \<Longrightarrow> n \<le> bound \<Longrightarrow> bound \<le> UINT256_MAX \<Longrightarrow> uint_text (nat_text (nat n)) bound = Some n"
proof -
  assume n: "0 \<le> n" "n \<le> bound" "bound \<le> UINT256_MAX"
  have "n \<le> 2 ^ 256 - 1" using n by (simp add: UINT256_MAX_def)
  also have "\<dots> < (10 :: int) ^ 78" by simp
  finally have "nat n < 10 ^ 78" by (simp add: nat_less_iff n(1))
  then have "length (nat_text (nat n)) \<le> 78" by (intro length_nat_text) simp_all
  then show ?thesis using n nat_text_digits [of "nat n"] by (simp add: uint_text_def)
qed

definition address_text :: "address \<Rightarrow> bool" where
  "address_text a \<longleftrightarrow> take 2 a = ''0x'' \<and> length a = 42 \<and> list_all hex_digit (drop 2 a) \<and> lower a = a"

lemma address_field_text: "address_text a \<Longrightarrow> address_field (Some (JStr a)) = Some a"
  by (simp add: address_text_def)

lemma uint_big: "0 \<le> n \<Longrightarrow> n \<le> bound \<Longrightarrow> bound \<le> UINT256_MAX \<Longrightarrow> uint (Some (big_json n)) bound = Some n"
  by (simp add: big_json_def int_text_def uint_text_nat)

lemma uint_num: "0 \<le> n \<Longrightarrow> n \<le> 2 ^ 53 - 1 \<Longrightarrow> n \<le> bound \<Longrightarrow> bound \<le> UINT256_MAX \<Longrightarrow> uint (Some (JNum n)) bound = Some n"
  by (simp add: uint_text_nat)

lemma parse_order_body:
  assumes bounded: "order_bounded ord" and owner: "address_text (od_owner ord)" and referrer: "address_text (od_referrer ord)"
    and sig: "signatureHex (Some (JStr sig)) = Some sig'" and chain: "0 \<le> chainId" "chainId \<le> 2 ^ 53 - 1"
  shows "parseOrder (order_body ord sig chainId) = Inr \<lparr>po_order = ord, po_signature = sig', po_chainId = Some chainId\<rparr>"
proof -
  obtain b where b: "order_body ord sig chainId = JObj b" and fields: "map_of b ''owner'' = Some (JStr (od_owner ord))"
    "map_of b ''marketId'' = Some (JNum (od_marketId ord))" "map_of b ''isLong'' = Some (JBool (od_isLong ord))"
    "map_of b ''size'' = Some (big_json (od_size ord))" "map_of b ''limitPrice'' = Some (big_json (od_limitPrice ord))"
    "map_of b ''reduceOnly'' = Some (JBool (od_reduceOnly ord))" "map_of b ''nonce'' = Some (big_json (od_nonce ord))"
    "map_of b ''expiry'' = Some (big_json (od_expiry ord))" "map_of b ''referrer'' = Some (JStr (od_referrer ord))"
    "map_of b ''signature'' = Some (JStr sig)" "map_of b ''chainId'' = Some (JNum chainId)"
    by (auto simp: order_body_def)
  have bounds: "UINT32_MAX \<le> 2 ^ 53 - 1" "UINT32_MAX \<le> UINT256_MAX" "UINT64_BOUND \<le> UINT256_MAX" "INT128_MAX \<le> UINT256_MAX"
    "(2 :: int) ^ 53 \<le> UINT256_MAX"
    by (simp_all add: UINT32_MAX_def UINT256_MAX_def UINT64_BOUND_def INT128_MAX_def)
  have owner': "owner_field b = Some (od_owner ord)"
    using owner bounded by (simp only: owner_field_def fields address_field_text option.case order_bounded_def if_False)
  have referrer': "referrer_field b = Some (od_referrer ord)" using address_field_text [OF referrer] by (simp add: referrer_field_def fields)
  have market: "uint (map_of b ''marketId'') UINT32_MAX = Some (od_marketId ord)"
    unfolding fields using bounded bounds by (intro uint_num) (auto simp: order_bounded_def)
  have amounts: "uint (map_of b ''size'') UINT256_MAX = Some (od_size ord)" "uint (map_of b ''limitPrice'') UINT256_MAX = Some (od_limitPrice ord)"
    "uint (map_of b ''nonce'') UINT256_MAX = Some (od_nonce ord)" "uint (map_of b ''expiry'') UINT64_BOUND = Some (od_expiry ord)"
    unfolding fields using bounded bounds by (intro uint_big; force simp: order_bounded_def)+
  have chain': "chainId_field b = Some (Some chainId)"
    unfolding chainId_field_def fields option.case using chain bounds by (subst uint_num) auto
  have "od_marketId ord \<noteq> 0" "od_size ord \<noteq> 0" "od_limitPrice ord \<noteq> 0" "\<not> INT128_MAX < od_size ord" "\<not> INT128_MAX < od_limitPrice ord"
    "\<not> INT128_MAX < (od_size ord * od_limitPrice ord) sdiv E18"
    using bounded by (auto simp: order_bounded_def)
  then show ?thesis
    unfolding parseOrder_def b asObject.simps option.case owner' market fields(3,6) amounts referrer' fields(10) sig chain'
    by (simp add: need_def)
qed

text \<open>
  The body of an order parses back to the order. Every order within the bounds of the Solidity types, written as the body with its amounts as
  decimal text, parses to exactly that order, with the signature in lower case and the chain id: intake refuses no such order for its form,
  and the terms that are stored are the terms that were signed.
\<close>

theorem order_body_parses:
  assumes bounded: "order_bounded ord" and owner: "address_text (od_owner ord)" and referrer: "address_text (od_referrer ord)"
    and sig: "signatureHex (Some (JStr sig)) = Some sig'" and chain: "0 \<le> chainId" "chainId \<le> 2 ^ 53 - 1"
  shows "parseOrder (order_body ord sig chainId) = Inr \<lparr>po_order = ord, po_signature = sig', po_chainId = Some chainId\<rparr>"
  using assms by (rule parse_order_body)

section \<open>From the route to the book\<close>

lemma post_order_created:
  assumes "post_order env ctx req d = (Response_created h, d')"
  obtains body v where "validateOrderSubmission body ctx = Inr (Inr v)" "h = vo_orderHash v"
    "insertOrder (new_order_row (ic_network ctx) v (ie_now env)) d = (Inserted, d')"
  using assms unfolding post_order_def
  by (auto split: sum.splits if_splits prod.splits insert_outcome.splits)

text \<open>A row that is still open is in the book of its market until it expires.\<close>

lemma open_row_in_book:
  assumes "r \<in> set (db_orders d)" and "ow_status r \<in> {OPEN, PARTIALLY_FILLED}" and "now < ow_expiry r"
  shows "toEngineOrder r (pendingReservation d (ow_network r) (\<lambda>f. fl_marketId f = ow_marketId r) (ow_orderHash r))
    \<in> set (loadOrders d (ow_network r) (ow_marketId r) now)"
  using assms unfolding loadOrders_def by (auto simp: TRADEABLE_def intro!: image_eqI)

lemma unused_not_reserved:
  assumes "\<forall>f \<in> set (db_fills d). fl_makerOrderHash f \<noteq> h \<and> fl_takerOrderHash f \<noteq> h"
  shows "pendingReservation d n extra h = 0"
proof -
  have "map (fill_uses h) (filter (reserving n extra) (db_fills d)) = map (\<lambda>_. 0) (filter (reserving n extra) (db_fills d))"
    using assms by (intro map_cong) (auto simp: fill_uses_def)
  from arg_cong [OF this, of sum_list] show ?thesis by (simp only: pendingReservation_def sum_list_0)
qed

text \<open>
  C40. An order that was answered with 201 is stored as it was signed, and stays tradeable for as long as its row is open. Exactly one row is added, with every
  signed term, open and unfilled; no other order, fill, position or market changes, and of the accounts at most the owner's is added. In any later
  database in which that row is still open or partially filled (so neither cancelled, nor marked expired, nor retired), the book of its market has the order at every time
  before its expiry, under its hash, side and limit, with its size less what is filled and reserved, which is its full size while no fill
  uses it; and as long as some of it is left and the nonce floor that the matcher reads is no higher than the one intake read, the engine takes
  it: the only ground on which it can be left out of a run is a reduce-only order without a position to reduce.
\<close>

theorem accepted_order_reaches_the_book:
  assumes created: "post_order env ctx req d = (Response_created h, d')" and accounts: "ic_accounts ctx = Inr accounts"
  shows "\<exists>ord r sig. order_bounded ord \<and> h = lower (ic_hashOrder ctx (ic_chainId ctx) (ic_gateway ctx) ord)
     \<and> r = \<lparr>ow_network = ic_network ctx, ow_orderHash = h, ow_owner = od_owner ord, ow_marketId = od_marketId ord, ow_isLong = od_isLong ord,
         ow_size = od_size ord, ow_limitPrice = od_limitPrice ord, ow_reduceOnly = od_reduceOnly ord, ow_nonce = od_nonce ord, ow_expiry = od_expiry ord,
         ow_referrer = (if od_referrer ord = zeroAddress then None else Some (lower (od_referrer ord))), ow_signature = sig, ow_status = OPEN,
         ow_filledSize = 0, ow_createdAt = ie_now env\<rparr>
     \<and> db_orders d' = db_orders d @ [r] \<and> db_fills d' = db_fills d \<and> db_positions d' = db_positions d \<and> db_markets d' = db_markets d
     \<and> db_accounts d' \<in> {db_accounts d, db_accounts d @ [\<lparr>ac_network = ic_network ctx, ac_address = od_owner ord, ac_minValidNonce = 0\<rparr>]}
     \<and> (\<forall>later st filled now. r\<lparr>ow_status := st, ow_filledSize := filled\<rparr> \<in> set (db_orders later) \<and> st \<in> {OPEN, PARTIALLY_FILLED}
         \<and> now < od_expiry ord \<longrightarrow>
         (\<exists>x \<in> set (loadOrders later (ic_network ctx) (od_marketId ord) now).
            eo_orderHash x = h \<and> eo_owner x = od_owner ord \<and> eo_isLong x = od_isLong ord \<and> eo_limitPrice x = od_limitPrice ord
            \<and> eo_size x = od_size ord \<and> eo_reduceOnly x = od_reduceOnly ord
            \<and> eo_filledSize x = filled + pendingReservation later (ic_network ctx) (\<lambda>f. fl_marketId f = od_marketId ord) h
            \<and> (filled = 0 \<and> (\<forall>f \<in> set (db_fills later). fl_makerOrderHash f \<noteq> h \<and> fl_takerOrderHash f \<noteq> h) \<longrightarrow> eo_filledSize x = 0)
            \<and> (\<forall>i l. ei_nowSec i = now \<and> ic_nowSec ctx \<le> now \<and> eo_filledSize x < od_size ord
                \<and> get_or (ei_minValidNonce i) (od_owner ord) 0 \<le> nonce_floor (ic_network ctx) accounts (od_owner ord)
                \<longrightarrow> ineligible i l x \<in> (if od_reduceOnly ord then {None, Some Reduce_only_no_position} else {None}))))"
proof -
  obtain body v where v: "validateOrderSubmission body ctx = Inr (Inr v)" "h = vo_orderHash v"
    "insertOrder (new_order_row (ic_network ctx) v (ie_now env)) d = (Inserted, d')"
    using created by (rule post_order_created)
  let ?o = "vo_order v" and ?n = "ic_network ctx"
  define r where "r = new_order_row ?n v (ie_now env)"
  note parts = validated_parts [OF v(1)]
  have bounded: "order_bounded ?o" by (rule parts(1))
  have row: "r = \<lparr>ow_network = ?n, ow_orderHash = h, ow_owner = od_owner ?o, ow_marketId = od_marketId ?o, ow_isLong = od_isLong ?o,
         ow_size = od_size ?o, ow_limitPrice = od_limitPrice ?o, ow_reduceOnly = od_reduceOnly ?o, ow_nonce = od_nonce ?o, ow_expiry = od_expiry ?o,
         ow_referrer = (if od_referrer ?o = zeroAddress then None else Some (lower (od_referrer ?o))), ow_signature = vo_signature v, ow_status = OPEN,
         ow_filledSize = 0, ow_createdAt = ie_now env\<rparr>"
    using bounded by (simp add: r_def new_order_row_def Let_def order_bounded_def v(2))
  have stored: "db_orders d' = db_orders d @ [r] \<and> db_fills d' = db_fills d \<and> db_positions d' = db_positions d \<and> db_markets d' = db_markets d
     \<and> db_accounts d' \<in> {db_accounts d, db_accounts d @ [\<lparr>ac_network = ?n, ac_address = od_owner ?o, ac_minValidNonce = 0\<rparr>]}"
    using v(3) unfolding r_def [symmetric] by (auto simp: insertOrder_def Let_def row split: if_splits)
  have booked: "\<exists>x \<in> set (loadOrders later ?n (od_marketId ?o) now).
            eo_orderHash x = h \<and> eo_owner x = od_owner ?o \<and> eo_isLong x = od_isLong ?o \<and> eo_limitPrice x = od_limitPrice ?o
            \<and> eo_size x = od_size ?o \<and> eo_reduceOnly x = od_reduceOnly ?o
            \<and> eo_filledSize x = filled + pendingReservation later ?n (\<lambda>f. fl_marketId f = od_marketId ?o) h
            \<and> (filled = 0 \<and> (\<forall>f \<in> set (db_fills later). fl_makerOrderHash f \<noteq> h \<and> fl_takerOrderHash f \<noteq> h) \<longrightarrow> eo_filledSize x = 0)
            \<and> (\<forall>i l. ei_nowSec i = now \<and> ic_nowSec ctx \<le> now \<and> eo_filledSize x < od_size ?o
                \<and> get_or (ei_minValidNonce i) (od_owner ?o) 0 \<le> nonce_floor ?n accounts (od_owner ?o)
                \<longrightarrow> ineligible i l x \<in> (if od_reduceOnly ?o then {None, Some Reduce_only_no_position} else {None}))"
    if later: "r\<lparr>ow_status := st, ow_filledSize := filled\<rparr> \<in> set (db_orders later)" "st \<in> {OPEN, PARTIALLY_FILLED}" "now < od_expiry ?o"
    for later st filled now
  proof -
    let ?x = "toEngineOrder (r\<lparr>ow_status := st, ow_filledSize := filled\<rparr>) (pendingReservation later ?n (\<lambda>f. fl_marketId f = od_marketId ?o) h)"
    have "?x \<in> set (loadOrders later ?n (od_marketId ?o) now)"
      using open_row_in_book [OF later(1), of now] later(2,3) by (simp add: row)
    moreover have "od_expiry ?o \<le> now + MAX_ORDER_TTL_SECONDS" if "ic_nowSec ctx \<le> now"
      using parts(2) that by (auto simp: checkExpiry_def MAX_TTL_SECONDS_def split: if_splits)
    moreover have "nonce_floor ?n accounts (od_owner ?o) \<le> od_nonce ?o" using parts(5) accounts by auto
    ultimately show ?thesis
      using later(3) unused_not_reserved [of later h ?n "\<lambda>f. fl_marketId f = od_marketId ?o"]
      by (intro bexI [of _ ?x]) (auto simp: ineligible_def toEngineOrder_def row)
  qed
  show ?thesis
    by (intro exI [of _ ?o] exI [of _ r] exI [of _ "vo_signature v"])
      (use bounded parts(6) v(2) row stored booked in blast)
qed

section \<open>A submitted order\<close>

definition sample_owner :: address where "sample_owner = ''0x'' @ replicate 40 CHR ''a''"

definition sample_signature :: hex where "sample_signature = ''0x'' @ replicate 128 CHR ''1'' @ ''1b''"

definition sample_order :: order where
  "sample_order = \<lparr>od_owner = sample_owner, od_marketId = 1, od_isLong = True, od_size = 2 * 10 ^ 18, od_limitPrice = 5 * 10 ^ 18, od_reduceOnly = False,
     od_nonce = 7, od_expiry = 2000, od_referrer = zeroAddress\<rparr>"

definition sample_intake :: intake_context where
  "sample_intake = \<lparr>ic_network = ''arc'', ic_chainId = 5, ic_gateway = ''0xg'', ic_nowSec = 1000, ic_recover = (\<lambda>_ _. Some sample_owner),
     ic_call = (\<lambda>_ _ _. No_answer), ic_hashOrder = (\<lambda>_ _ _. ''0xAB''), ic_hashCancel = (\<lambda>_ _ _. ''0xcd''),
     ic_markets = Inr [\<lparr>mr_network = ''arc'', mr_id = 1, mr_symbol = ''BTC'', mr_oracleId = ''0x1'', mr_active = True,
        mr_params = (\<lambda>k. if k = ''minFillNotional'' then Some (10 ^ 18) else None), mr_paramsOracleId = None\<rparr>],
     ic_accounts = Inr [\<lparr>ac_network = ''arc'', ac_address = sample_owner, ac_minValidNonce = 3\<rparr>]\<rparr>"

definition sample_validated :: validated_order where
  "sample_validated = \<lparr>vo_order = sample_order, vo_orderHash = ''0xab'', vo_signature = sample_signature\<rparr>"

lemma sample_accepted: "validateOrderSubmission (order_body sample_order sample_signature 5) sample_intake = Inr (Inr sample_validated)"
proof -
  have "order_bounded sample_order" "address_text (od_owner sample_order)" "address_text (od_referrer sample_order)"
    "signatureHex (Some (JStr sample_signature)) = Some sample_signature" by code_simp+
  then have parsed: "parseOrder (order_body sample_order sample_signature 5) = Inr \<lparr>po_order = sample_order, po_signature = sample_signature, po_chainId = Some 5\<rparr>"
    by (rule parse_order_body) simp_all
  have "checkExpiry (od_expiry sample_order) (ic_nowSec sample_intake) = None" "lower ''0xAB'' = ''0xab''"
    "recoverStrict (\<lambda>_ _. Some sample_owner) ''0xab'' sample_signature = Some sample_owner" by code_simp+
  then show ?thesis
    unfolding validateOrderSubmission_def parsed
    by (simp add: sample_intake_def unless_rejected_def fault_or_def verifySignature_def market_problem_def nonce_floor_def
        sample_order_def sample_validated_def E18_def sdiv_nonneg)
qed

theorem order_body_parses_witness:
  "parseOrder (order_body sample_order sample_signature 5) = Inr \<lparr>po_order = sample_order, po_signature = sample_signature, po_chainId = Some 5\<rparr>"
proof (rule order_body_parses)
  show "order_bounded sample_order" by code_simp
  show "address_text (od_owner sample_order)" "address_text (od_referrer sample_order)" by code_simp+
  show "signatureHex (Some (JStr sample_signature)) = Some sample_signature" by code_simp
qed simp_all

definition sample_wallets :: chain_wallets where
  "sample_wallets = \<lparr>cw_tryRecover = (\<lambda>_ _. Some sample_owner), cw_hasCode = (\<lambda>_. False), cw_staticcall = (\<lambda>_ _ _. Some ''0x'')\<rparr>"

definition sample_gateway :: gateway where
  "sample_gateway = \<lparr>gw_minNonce = (\<lambda>_. 3), gw_cancelled = (\<lambda>_ _. False), gw_orderState = (\<lambda>_ _. 0)\<rparr>"

lemma lower_sample_owner: "lower sample_owner = sample_owner"
  by code_simp

theorem accepted_orders_pass_the_gateway_witness:
  "(\<exists>g'. gateway_consume sample_gateway sample_wallets 1500 sample_order ''0xab'' sample_signature (10 ^ 18) (4 * 10 ^ 18) = Inr g'
     \<and> gw_orderState g' sample_owner 7 mod 2 ^ 128 = 10 ^ 18)
   \<and> gateway_notional (10 ^ 18) (10 ^ 18) (4 * 10 ^ 18) = Inr (4 * 10 ^ 18)"
proof -
  have agree: "wallets_agree sample_intake sample_wallets"
    using lower_sample_owner by (auto simp: wallets_agree_def sample_intake_def sample_wallets_def recoverStrict_def Let_def split: if_splits)
  let ?v = sample_validated
  have worth: "(10 ^ 18 * (4 * 10 ^ 18)) sdiv E18 = (4 * 10 ^ 18 :: int)" by (simp add: E18_def sdiv_nonneg)
  have "(\<exists>g'. gateway_consume sample_gateway sample_wallets 1500 (vo_order ?v) (vo_orderHash ?v) (vo_signature ?v) (10 ^ 18) (4 * 10 ^ 18) = Inr g'
      \<and> gw_orderState g' (od_owner (vo_order ?v)) (od_nonce (vo_order ?v)) mod 2 ^ 128 = 0 mod 2 ^ 128 + 10 ^ 18
      \<and> gw_orderState g' (od_owner (vo_order ?v)) (od_nonce (vo_order ?v)) div 2 ^ 128 = digest_prefix (vo_orderHash ?v))
    \<and> (\<exists>markets m low. ic_markets sample_intake = Inr markets \<and> m \<in> set markets \<and> mr_network m = ic_network sample_intake
          \<and> mr_id m = od_marketId (vo_order ?v) \<and> mr_active m \<and> mr_params m ''minFillNotional'' = Some low
          \<and> gateway_notional low (od_size (vo_order ?v)) (od_limitPrice (vo_order ?v)) = Inr ((od_size (vo_order ?v) * od_limitPrice (vo_order ?v)) sdiv E18)
          \<and> (0 \<le> (4 * 10 ^ 18 :: int) \<and> (od_isLong (vo_order ?v) \<or> 4 * 10 ^ 18 \<le> INT128_MAX \<and> (10 ^ 18 * (4 * 10 ^ 18)) sdiv E18 \<le> INT128_MAX) \<longrightarrow>
               gateway_notional low (10 ^ 18) (4 * 10 ^ 18)
                 = (if (10 ^ 18 * (4 * 10 ^ 18)) sdiv E18 < low then Inl Gw_FillBelowMinNotional else Inr ((10 ^ 18 * (4 * 10 ^ 18)) sdiv E18))))"
    by (rule accepted_orders_pass_the_gateway [OF sample_accepted agree, of 1500 "[\<lparr>ac_network = ''arc'', ac_address = sample_owner, ac_minValidNonce = 3\<rparr>]"])
      (simp_all add: sample_intake_def sample_validated_def sample_order_def sample_gateway_def nonce_floor_def)
  then show ?thesis unfolding worth
    by (auto simp: sample_validated_def sample_order_def sample_intake_def)
qed

definition sample_request :: http_request where
  "sample_request = \<lparr>hr_declared = None, hr_text = Some ''{}'', hr_bytes = 900\<rparr>"

definition sample_intake_env :: intake_env where
  "sample_intake_env = \<lparr>ie_parse = (\<lambda>_. Some (order_body sample_order sample_signature 5)), ie_rate_owner = (\<lambda>_. True), ie_rate_ip = True,
     ie_configured = True, ie_now = 1000000\<rparr>"

definition empty_db :: db where
  "empty_db = \<lparr>db_markets = [], db_orders = [], db_fills = [], db_positions = [], db_accounts = []\<rparr>"

definition sample_engine :: engine_input where
  "sample_engine = \<lparr>ei_marketId = 1, ei_nowSec = 1200, ei_orders = [], ei_positions = Map.empty, ei_minValidNonce = Map.empty, ei_minFillNotional = 1, ei_acceptPrice = None\<rparr>"

theorem accepted_order_reaches_the_book_witness:
  "\<exists>d'. post_order sample_intake_env sample_intake sample_request empty_db = (Response_created ''0xab'', d') \<and> length (db_orders d') = 1
     \<and> (\<exists>x \<in> set (loadOrders (d'\<lparr>db_orders := map (\<lambda>r. r\<lparr>ow_status := PARTIALLY_FILLED, ow_filledSize := 10\<rparr>) (db_orders d')\<rparr>) ''arc'' 1 1200).
          eo_orderHash x = ''0xab'' \<and> eo_filledSize x = 10 \<and> eo_size x = 2 * 10 ^ 18 \<and> ineligible sample_engine (new_ledger Map.empty) x = None)"
proof -
  have body: "ie_parse sample_intake_env = (\<lambda>_. Some (order_body sample_order sample_signature 5))" "ie_configured sample_intake_env" "ie_rate_ip sample_intake_env"
    "ie_rate_owner sample_intake_env = (\<lambda>_. True)" by (simp_all add: sample_intake_env_def)
  define r0 d' where "r0 = new_order_row (ic_network sample_intake) sample_validated (ie_now sample_intake_env)" and "d' = snd (insertOrder r0 empty_db)"
  have inserted: "insertOrder r0 empty_db = (Inserted, d')" unfolding d'_def by (simp add: insertOrder_def empty_db_def)
  have created: "post_order sample_intake_env sample_intake sample_request empty_db = (Response_created ''0xab'', d')"
    using inserted unfolding r0_def
    by (simp add: post_order_def readBoundedJson_def sample_request_def MAX_BODY_BYTES_def body sample_accepted sample_validated_def)
  have orders: "db_orders d' = [r0]" "db_fills d' = []" unfolding d'_def by (simp_all add: insertOrder_def empty_db_def)
  have r0: "ow_marketId r0 = 1" "ow_expiry r0 = 2000" "ow_size r0 = 2 * 10 ^ 18" "\<not> ow_reduceOnly r0"
    by (simp_all add: r0_def new_order_row_def Let_def sample_validated_def sample_order_def)
  define later where "later = d'\<lparr>db_orders := map (\<lambda>r. r\<lparr>ow_status := PARTIALLY_FILLED, ow_filledSize := 10\<rparr>) (db_orders d')\<rparr>"
  have accounts: "ic_accounts sample_intake = Inr [\<lparr>ac_network = ''arc'', ac_address = sample_owner, ac_minValidNonce = 3\<rparr>]"
    by (simp add: sample_intake_def)
  from accepted_order_reaches_the_book [OF created accounts] show ?thesis
  proof (elim exE conjE, goal_cases)
    case (1 ord r sig)
    note row = 1(3)
    have same: "r = r0" using 1(4) orders(1) by (simp add: empty_db_def)
    have terms: "od_marketId ord = 1" "od_expiry ord = 2000" "od_size ord = 2 * 10 ^ 18" "\<not> od_reduceOnly ord"
      using r0 arg_cong [OF row, of ow_marketId] arg_cong [OF row, of ow_expiry] arg_cong [OF row, of ow_size] arg_cong [OF row, of ow_reduceOnly]
      unfolding same order_row.simps by simp_all
    have member: "r\<lparr>ow_status := PARTIALLY_FILLED, ow_filledSize := 10\<rparr> \<in> set (db_orders later) \<and> PARTIALLY_FILLED \<in> {OPEN, PARTIALLY_FILLED}
        \<and> 1200 < od_expiry ord"
      unfolding same terms by (simp add: later_def orders(1))
    from 1(9) [rule_format, OF member] obtain x where x: "x \<in> set (loadOrders later (ic_network sample_intake) (od_marketId ord) 1200)"
        "eo_orderHash x = ''0xab''" "eo_size x = od_size ord"
        "eo_filledSize x = 10 + pendingReservation later (ic_network sample_intake) (\<lambda>f. fl_marketId f = od_marketId ord) ''0xab''"
      and takes: "\<And>i l. ei_nowSec i = 1200 \<and> ic_nowSec sample_intake \<le> 1200 \<and> eo_filledSize x < od_size ord
                \<and> get_or (ei_minValidNonce i) (od_owner ord) 0
                   \<le> nonce_floor (ic_network sample_intake) [\<lparr>ac_network = ''arc'', ac_address = sample_owner, ac_minValidNonce = 3\<rparr>] (od_owner ord)
                \<Longrightarrow> ineligible i l x \<in> (if od_reduceOnly ord then {None, Some Reduce_only_no_position} else {None})"
      by blast
    have filled: "eo_filledSize x = 10" using x(4) by (simp add: pendingReservation_def later_def orders(2))
    have "ineligible sample_engine (new_ledger Map.empty) x = None"
      using takes [of sample_engine "new_ledger Map.empty"] filled terms
      by (simp add: sample_engine_def sample_intake_def nonce_floor_def)
    with x filled terms have "\<exists>x \<in> set (loadOrders later ''arc'' 1 1200). eo_orderHash x = ''0xab'' \<and> eo_filledSize x = 10 \<and> eo_size x = 2 * 10 ^ 18
        \<and> ineligible sample_engine (new_ledger Map.empty) x = None" by (intro bexI [of _ x]) (simp_all add: sample_intake_def)
    with created orders(1) show ?case unfolding later_def by (intro exI [of _ d']) simp
  qed
qed

text \<open>
  Intake reads the nonce floor but not the single cancels of the gateway: the same order under a nonce that was cancelled on chain is accepted, and no
  fill of it can be consumed.
\<close>

lemma cancelled_nonce_is_accepted:
  "validateOrderSubmission (order_body sample_order sample_signature 5) sample_intake = Inr (Inr sample_validated)
   \<and> gateway_consume (sample_gateway\<lparr>gw_cancelled := (\<lambda>_ n. n = 7)\<rparr>) sample_wallets 1500 sample_order ''0xab'' sample_signature 10 (4 * 10 ^ 18)
     = Inl Gw_OrderCancelled"
proof -
  have "od_owner sample_order \<noteq> zeroAddress" by code_simp
  then show ?thesis
    using sample_accepted by (simp add: gateway_consume_def Let_def sample_gateway_def sample_order_def MAX_ORDER_TTL_SECONDS_def)
qed

end
