(* ===== verification/Projections.thy ===== *)
theory Projections
  imports Matcher_Book Keeper_Calls
begin

text \<open>
  What the indexer makes of the protocol's logs, \<open>client/lib/indexer/decode.ts\<close> and
  \<open>client/lib/indexer/projections.ts\<close>: decoding and normalising a log, one handler per event, and the reset before a
  rebuild. The database is a record of tables with the constraints of \<open>kryon-protocol/prisma/schema.prisma\<close> the statements run
  into: primary and unique keys, foreign keys, column types. A violated one throws.

  Handlers work on JSON text as the code does: amounts are decimal text until a \<open>Decimal\<close> column takes them.
  The tables that only collect rows share one form, a key and the columns the handler names. Sums of amounts are
  taken to fit a column's 78 digits; \<open>updatedAt\<close> and \<open>createdAt\<close> are left out.
  What viem decodes (\<open>decodeEventLog\<close>, \<open>decodeErrorResult\<close>, \<open>hexToString\<close>) is a parameter.
\<close>

section \<open>Tables\<close>

record stored_event =
  se_network :: string
  se_blockNumber :: int
  se_blockTimestamp :: int
  se_txHash :: hex
  se_logIndex :: int
  se_contract :: address
  se_eventName :: string
  se_args :: json

record event_row = stored_event +
  ev_blockHash :: hex
  ev_topic0 :: hex

text \<open>A cell as the handlers fill it: text, decimal text for a \<open>Decimal\<close> column, integer text or a number for a \<open>BigInt\<close> or \<open>Int\<close> column.\<close>

datatype cell = Cell_text string | Cell_decimal string | Cell_bigint string | Cell_int "int option" | Cell_null

record log_row =
  lr_network :: string
  lr_blockNumber :: int
  lr_txHash :: hex
  lr_logIndex :: int
  lr_cols :: "(string \<times> cell) list"

record market_proj =
  mj_network :: string
  mj_id :: int
  mj_symbol :: string
  mj_oracleId :: hex
  mj_active :: bool
  mj_params :: json
  mj_makerRate :: int
  mj_takerRate :: int
  mj_lastMark :: int
  mj_lastIndex :: int
  mj_longFundingIndex :: int
  mj_shortFundingIndex :: int
  mj_fundingRatePerHour :: int
  mj_longOpenInterest :: int
  mj_shortOpenInterest :: int

record account_proj =
  aj_network :: string
  aj_address :: address
  aj_feeTier :: int
  aj_minValidNonce :: int

record position_proj =
  pj_network :: string
  pj_trader :: address
  pj_marketId :: int
  pj_size :: int
  pj_openNotional :: int
  pj_lastPrice :: int
  pj_realizedPnlCum :: int
  pj_lastBlockNumber :: int
  pj_lastLogIndex :: int

record fill_proj =
  fj_network :: string
  fj_fillId :: hex
  fj_status :: fill_status
  fj_rejectReason :: "string option"
  fj_marketId :: int
  fj_maker :: address
  fj_taker :: address
  fj_makerOrderHash :: hex
  fj_takerOrderHash :: hex
  fj_takerIsBuy :: bool
  fj_size :: int
  fj_price :: int
  fj_makerFee :: int
  fj_takerFee :: int
  fj_makerTier :: int
  fj_takerTier :: int
  fj_blockNumber :: "int option"
  fj_txHash :: "hex option"
  fj_logIndex :: "int option"

datatype gov_status = Gov_scheduled | Gov_executed | Gov_cancelled

record governance_op =
  go_network :: string
  go_operationId :: hex
  go_predecessor :: hex
  go_salt :: hex
  go_calls :: "json list"
  go_delaySeconds :: int
  go_readyAt :: int
  go_status :: gov_status
  go_scheduledTxHash :: hex
  go_executedTxHash :: "hex option"
  go_cancelledTxHash :: "hex option"

record index_db =
  ix_events :: "event_row list"
  ix_cursor :: "string \<times> string \<Rightarrow> (int \<times> hex) option"
  ix_logs :: "string \<Rightarrow> log_row list"
  ix_markets :: "market_proj list"
  ix_accounts :: "account_proj list"
  ix_positions :: "position_proj list"
  ix_orders :: "order_row list"
  ix_fills :: "fill_proj list"
  ix_governance :: "governance_op list"

datatype index_error = Bad_decimal string | Bad_integer | Unique_violation string | Foreign_key_violation string
  | Not_null_violation | Bad_date | Bad_hex | Type_error string | Log_outside int | Source_failed string

type_synonym 'a query = "(index_db, index_error, 'a) act"

section \<open>Decoding\<close>

text \<open>A decoded argument: what viem hands out.\<close>

datatype js_value = JS_undefined | JS_null | JS_bool bool | JS_number int | JS_bigint int | JS_string string
  | JS_array "js_value list" | JS_object "(string \<times> js_value) list"

fun normalize :: "js_value \<Rightarrow> json" where
  "normalize (JS_bigint v) = JStr (int_text v)"
| "normalize (JS_string v) = JStr (if take 2 v = ''0x'' then lower v else v)"
| "normalize (JS_number v) = JNum v"
| "normalize (JS_bool b) = JBool b"
| "normalize JS_null = JNull"
| "normalize JS_undefined = JNull"
| "normalize (JS_array vs) = JArr (map normalize vs)"
| "normalize (JS_object fs) = JObj (map (\<lambda>(k, v). (k, normalize v)) fs)"

record raw_log =
  rl_address :: address
  rl_blockNumber :: int
  rl_transactionHash :: hex
  rl_logIndex :: int
  rl_topics :: "hex list"
  rl_data :: hex

text \<open>The contracts by name, in the order of the deployment record, and viem's decoders: \<open>None\<close> where they throw. An event
  decodes to its name and arguments, both possibly undefined.\<close>

record index_env =
  xe_contracts :: "(string \<times> address) list"
  xe_decodeEventLog :: "string \<Rightarrow> hex list \<Rightarrow> hex \<Rightarrow> (string option \<times> js_value option) option"
  xe_decodeErrorResult :: "hex \<Rightarrow> (string \<times> js_value list) option"
  xe_hexToString :: "hex \<Rightarrow> string option"

definition registry_addresses :: "index_env \<Rightarrow> address list" where
  "registry_addresses e = map snd (xe_contracts e)"

definition nameOf :: "index_env \<Rightarrow> address \<Rightarrow> string option" where
  "nameOf e a = map_of_rows (map (\<lambda>(n, b). (lower b, n)) (xe_contracts e)) (lower a)"

definition decode_raw :: "raw_log \<Rightarrow> string \<times> json" where
  "decode_raw l = (''Unknown'', JObj [(''topics'', JArr (map (\<lambda>t. JStr (lower t)) (rl_topics l))), (''data'', JStr (lower (rl_data l)))])"

definition decode :: "index_env \<Rightarrow> raw_log \<Rightarrow> string \<times> json" where
  "decode e l = (case nameOf e (rl_address l) of None \<Rightarrow> decode_raw l
     | Some name \<Rightarrow> (case xe_decodeEventLog e name (rl_topics l) (rl_data l) of None \<Rightarrow> decode_raw l
         | Some (eventName, args) \<Rightarrow>
             ((case eventName of None \<Rightarrow> ''Unknown'' | Some n \<Rightarrow> n),
              normalize (case args of None \<Rightarrow> JS_object [] | Some JS_null \<Rightarrow> JS_object [] | Some v \<Rightarrow> v))))"

definition strip_nuls :: "string \<Rightarrow> string" where
  "strip_nuls v = rev (dropWhile (\<lambda>c. of_char c = (0 :: nat)) (rev v))"

definition bytes32ToString :: "index_env \<Rightarrow> hex \<Rightarrow> index_error + string" where
  "bytes32ToString e v = (case xe_hexToString e v of None \<Rightarrow> Inl Bad_hex | Some t \<Rightarrow> Inr (strip_nuls t))"

subsection \<open>Reading arguments\<close>

text \<open>\<open>String(x)\<close> and \<open>Number(x)\<close>; \<open>None\<close> is \<open>undefined\<close>, and of \<open>Number\<close> it is NaN. Numbers are integers: the text
  of one is decimal, and other text (no argument read as a number is hexadecimal) counts as NaN.\<close>

fun join_with :: "string \<Rightarrow> string list \<Rightarrow> string" where
  "join_with sep [] = []"
| "join_with sep [x] = x"
| "join_with sep (x # y # xs) = x @ sep @ join_with sep (y # xs)"

fun json_String :: "json \<Rightarrow> string" where
  "json_String JNull = ''null''"
| "json_String (JBool b) = (if b then ''true'' else ''false'')"
| "json_String (JNum v) = int_text v"
| "json_String (JStr t) = t"
| "json_String (JArr vs) = join_with '','' (map (\<lambda>v. case v of JNull \<Rightarrow> [] | _ \<Rightarrow> json_String v) vs)"
| "json_String (JObj fs) = ''[object Object]''"

definition js_String :: "json option \<Rightarrow> string" where
  "js_String j = (case j of None \<Rightarrow> ''undefined'' | Some v \<Rightarrow> json_String v)"

definition integer_text :: "string \<Rightarrow> int option" where
  "integer_text t = (case t of [] \<Rightarrow> None
     | c # ds \<Rightarrow> if c = CHR ''-'' then (if ds \<noteq> [] \<and> list_all is_digit ds then Some (- digits_value ds) else None)
                else if list_all is_digit t then Some (digits_value t) else None)"

definition js_Number :: "json option \<Rightarrow> int option" where
  "js_Number j = (case j of None \<Rightarrow> None | Some JNull \<Rightarrow> Some 0 | Some (JBool b) \<Rightarrow> Some (if b then 1 else 0)
     | Some (JNum v) \<Rightarrow> Some v | Some (JStr t) \<Rightarrow> if t = [] then Some 0 else integer_text t | Some _ \<Rightarrow> None)"

definition arg :: "json \<Rightarrow> string \<Rightarrow> json option" where
  "arg a k = (case a of JObj fs \<Rightarrow> map_of fs k | _ \<Rightarrow> None)"

definition s_arg :: "json \<Rightarrow> string \<Rightarrow> string" where "s_arg a k = js_String (arg a k)"

definition n_arg :: "json \<Rightarrow> string \<Rightarrow> int option" where "n_arg a k = js_Number (arg a k)"

definition neg_text :: "string \<Rightarrow> string" where
  "neg_text v = (if take 1 v = ''-'' then drop 1 v else if v = ''0'' then ''0'' else ''-'' @ v)"

definition abs_text :: "string \<Rightarrow> string" where
  "abs_text v = (if take 1 v = ''-'' then drop 1 v else v)"

text \<open>\<open>decodeRevertReason\<close>.\<close>

definition decodeRevertReason :: "index_env \<Rightarrow> hex \<Rightarrow> string" where
  "decodeRevertReason e data = (if data = ''0x'' then ''empty revert''
     else case xe_decodeErrorResult e data of None \<Rightarrow> lower data
       | Some (errorName, args) \<Rightarrow>
           (let rendered = map (\<lambda>a. json_String (normalize a)) args
            in if rendered = [] then errorName else errorName @ ''('' @ join_with '', '' rendered @ '')''))"

section \<open>Statements\<close>

text \<open>A parameter bound to a \<open>Decimal(78, 0)\<close>, an \<open>Int\<close> or a \<open>BigInt\<close> column.\<close>

definition as_decimal :: "string \<Rightarrow> index_error + int" where
  "as_decimal t = (case integer_text t of None \<Rightarrow> Inl (Bad_decimal t)
     | Some v \<Rightarrow> if \<bar>v\<bar> < 10 ^ 78 then Inr v else Inl (Bad_decimal t))"

definition as_int :: "int option \<Rightarrow> index_error + int" where
  "as_int v = (case v of None \<Rightarrow> Inl Bad_integer
     | Some i \<Rightarrow> if - (2 ^ 31) \<le> i \<and> i < 2 ^ 31 then Inr i else Inl Bad_integer)"

definition as_bigint :: "string \<Rightarrow> index_error + int" where
  "as_bigint t = (case integer_text t of None \<Rightarrow> Inl Bad_integer
     | Some i \<Rightarrow> if - (2 ^ 63) \<le> i \<and> i < 2 ^ 63 then Inr i else Inl Bad_integer)"

fun cell_error :: "cell \<Rightarrow> index_error option" where
  "cell_error (Cell_decimal t) = (case as_decimal t of Inl e \<Rightarrow> Some e | Inr _ \<Rightarrow> None)"
| "cell_error (Cell_bigint t) = (case as_bigint t of Inl e \<Rightarrow> Some e | Inr _ \<Rightarrow> None)"
| "cell_error (Cell_int v) = (case as_int v of Inl e \<Rightarrow> Some e | Inr _ \<Rightarrow> None)"
| "cell_error _ = None"

fun cells_error :: "(string \<times> cell) list \<Rightarrow> index_error option" where
  "cells_error [] = None"
| "cells_error ((k, c) # cs) = (case cell_error c of Some e \<Rightarrow> Some e | None \<Rightarrow> cells_error cs)"

text \<open>The unique key of a table of log rows: the log, and for two of them the account and the kind of the row as well.\<close>

definition wide_key :: "string \<Rightarrow> bool" where
  "wide_key tbl \<longleftrightarrow> tbl = ''BalanceChange'' \<or> tbl = ''PnlEvent''"

definition same_log_row :: "string \<Rightarrow> log_row \<Rightarrow> log_row \<Rightarrow> bool" where
  "same_log_row tbl r t \<longleftrightarrow> lr_network r = lr_network t \<and> lr_txHash r = lr_txHash t \<and> lr_logIndex r = lr_logIndex t
     \<and> (wide_key tbl \<longrightarrow> map_of (lr_cols r) ''address'' = map_of (lr_cols t) ''address''
                      \<and> map_of (lr_cols r) ''kind'' = map_of (lr_cols t) ''kind'')"

definition has_market :: "string \<Rightarrow> int \<Rightarrow> index_db \<Rightarrow> bool" where
  "has_market network i d \<longleftrightarrow> (\<exists>m \<in> set (ix_markets d). mj_network m = network \<and> mj_id m = i)"

definition has_account :: "string \<Rightarrow> address \<Rightarrow> index_db \<Rightarrow> bool" where
  "has_account network a d \<longleftrightarrow> (\<exists>r \<in> set (ix_accounts d). aj_network r = network \<and> aj_address r = a)"

definition add_log :: "string \<Rightarrow> log_row \<Rightarrow> index_db \<Rightarrow> index_db" where
  "add_log tbl row d = (if list_ex (same_log_row tbl row) (ix_logs d tbl) then d
     else d\<lparr>ix_logs := (ix_logs d)(tbl := ix_logs d tbl @ [row])\<rparr>)"

text \<open>Only \<open>FundingUpdate\<close> among them refers to the market.\<close>

definition market_cell :: "(string \<times> cell) list \<Rightarrow> int option" where
  "market_cell cols = (case map_of cols ''marketId'' of Some (Cell_int v) \<Rightarrow> v | _ \<Rightarrow> None)"

definition insertRow :: "string \<Rightarrow> stored_event \<Rightarrow> (string \<times> cell) list \<Rightarrow> unit query" where
  "insertRow tbl ev cols = (case cells_error cols of Some e \<Rightarrow> act_throw e
     | None \<Rightarrow> act_bind (act_get (\<lambda>d. tbl = ''FundingUpdate'' \<longrightarrow> (case market_cell cols of None \<Rightarrow> False | Some i \<Rightarrow> has_market (se_network ev) i d))) (\<lambda>linked.
         if linked then act_mod (add_log tbl \<lparr>lr_network = se_network ev, lr_blockNumber = se_blockNumber ev,
           lr_txHash = se_txHash ev, lr_logIndex = se_logIndex ev, lr_cols = cols\<rparr>)
         else act_throw (Foreign_key_violation tbl)))"

definition add_account :: "string \<Rightarrow> address \<Rightarrow> index_db \<Rightarrow> index_db" where
  "add_account network a d = (if has_account network a d then d
     else d\<lparr>ix_accounts := ix_accounts d @ [\<lparr>aj_network = network, aj_address = a, aj_feeTier = 0, aj_minValidNonce = 0\<rparr>]\<rparr>)"

definition ensureAccount :: "string \<Rightarrow> address \<Rightarrow> unit query" where
  "ensureAccount network a = act_mod (add_account network a)"

definition pnl :: "stored_event \<Rightarrow> address \<Rightarrow> int option \<Rightarrow> string \<Rightarrow> string \<Rightarrow> string \<Rightarrow> string \<Rightarrow> unit query" where
  "pnl ev a marketId kind amount sz price = (if amount = ''0'' then act_ret ()
     else insertRow ''PnlEvent'' ev [(''address'', Cell_text a), (''marketId'', Cell_int marketId), (''kind'', Cell_text kind),
       (''amount'', Cell_decimal amount), (''size'', Cell_decimal sz), (''price'', Cell_decimal price)])"

text \<open>\<open>refreshOrders\<close>: the settled size of the named orders, and the status it gives them.\<close>

definition settled_for :: "string \<Rightarrow> hex \<Rightarrow> fill_proj list \<Rightarrow> int" where
  "settled_for network h fills = sum_list (map fj_size (filter (\<lambda>f. fj_network f = network \<and> fj_status f = SETTLED
     \<and> (fj_makerOrderHash f = h \<or> fj_takerOrderHash f = h)) fills))"

definition refreshed :: "int \<Rightarrow> order_row \<Rightarrow> order_row" where
  "refreshed filled r = r\<lparr>ow_filledSize := min (ow_size r) filled,
     ow_status := (if ow_status r \<in> {CANCELLED, EXPIRED} then ow_status r
       else if filled \<ge> ow_size r then FILLED else if filled > 0 then PARTIALLY_FILLED else OPEN)\<rparr>"

definition refreshOrders :: "string \<Rightarrow> hex list \<Rightarrow> index_db \<Rightarrow> index_db" where
  "refreshOrders network hashes d = d\<lparr>ix_orders := map (\<lambda>r. if ow_network r = network \<and> ow_orderHash r \<in> set hashes
     then refreshed (settled_for network (ow_orderHash r) (ix_fills d)) r else r) (ix_orders d)\<rparr>"

definition update_market :: "string \<Rightarrow> int \<Rightarrow> (market_proj \<Rightarrow> market_proj) \<Rightarrow> index_db \<Rightarrow> index_db" where
  "update_market network i f d = d\<lparr>ix_markets := map (\<lambda>m. if mj_network m = network \<and> mj_id m = i then f m else m) (ix_markets d)\<rparr>"

definition update_account :: "string \<Rightarrow> address \<Rightarrow> (account_proj \<Rightarrow> account_proj) \<Rightarrow> index_db \<Rightarrow> index_db" where
  "update_account network a f d = d\<lparr>ix_accounts := map (\<lambda>r. if aj_network r = network \<and> aj_address r = a then f r else r) (ix_accounts d)\<rparr>"

definition update_governance :: "string \<Rightarrow> hex \<Rightarrow> (governance_op \<Rightarrow> governance_op) \<Rightarrow> index_db \<Rightarrow> index_db" where
  "update_governance network i f d = d\<lparr>ix_governance := map (\<lambda>r. if go_network r = network \<and> go_operationId r = i then f r else r) (ix_governance d)\<rparr>"

definition cancel_orders :: "(order_row \<Rightarrow> bool) \<Rightarrow> index_db \<Rightarrow> index_db" where
  "cancel_orders p d = d\<lparr>ix_orders := map (\<lambda>r. if p r \<and> ow_status r \<in> set TRADEABLE then r\<lparr>ow_status := CANCELLED\<rparr> else r) (ix_orders d)\<rparr>"

section \<open>Handlers\<close>

type_synonym handler = "index_env \<Rightarrow> stored_event \<Rightarrow> unit query"

definition texts :: "json \<Rightarrow> string list \<Rightarrow> (string \<times> cell) list" where
  "texts a cols = map (\<lambda>c. (c, Cell_decimal (s_arg a c))) cols"

subsection \<open>Markets\<close>

text \<open>The upsert of a market: on a new one the symbol must not be another market's.\<close>

definition put_market :: "string \<Rightarrow> int \<Rightarrow> string \<Rightarrow> hex \<Rightarrow> unit query" where
  "put_market network i symbol oracleId = act_bind (act_get (\<lambda>d. (has_market network i d,
       \<exists>m \<in> set (ix_markets d). mj_network m = network \<and> mj_symbol m = symbol))) (\<lambda>(known, taken).
     if known then act_mod (update_market network i (\<lambda>m. m\<lparr>mj_oracleId := oracleId\<rparr>))
     else if taken then act_throw (Unique_violation ''Market'')
     else act_mod (\<lambda>d. d\<lparr>ix_markets := ix_markets d @ [\<lparr>mj_network = network, mj_id = i, mj_symbol = symbol, mj_oracleId = oracleId,
       mj_active = False, mj_params = JObj [], mj_makerRate = 0, mj_takerRate = 0, mj_lastMark = 0, mj_lastIndex = 0,
       mj_longFundingIndex = 0, mj_shortFundingIndex = 0, mj_fundingRatePerHour = 0, mj_longOpenInterest = 0,
       mj_shortOpenInterest = 0\<rparr>]\<rparr>))"

definition market_listed :: handler where
  "market_listed e ev = (let a = se_args ev; oracleId = s_arg a ''oracleId'' in
     act_bind (act_lift (bytes32ToString e oracleId)) (\<lambda>name.
     act_bind (act_lift (as_int (n_arg a ''marketId''))) (\<lambda>i.
     put_market (se_network ev) i (if name = [] then oracleId else name) oracleId)))"

definition market_params_set :: handler where
  "market_params_set e ev = (let a = se_args ev in
     case arg a ''params'' of None \<Rightarrow> act_throw (Type_error ''params'') | Some JNull \<Rightarrow> act_throw (Type_error ''params'')
     | Some params \<Rightarrow>
         act_bind (act_lift (as_int (n_arg a ''marketId''))) (\<lambda>i.
         act_mod (update_market (se_network ev) i (\<lambda>m. m\<lparr>mj_params := params, mj_active := (arg params ''active'' = Some (JBool True))\<rparr>))))"

definition market_active_set :: handler where
  "market_active_set e ev = (let a = se_args ev in
     act_bind (act_lift (as_int (n_arg a ''marketId''))) (\<lambda>i.
     act_mod (update_market (se_network ev) i (\<lambda>m. m\<lparr>mj_active := (arg a ''active'' = Some (JBool True))\<rparr>))))"

definition market_fees_set :: handler where
  "market_fees_set e ev = (let a = se_args ev in
     act_bind (act_lift (as_int (n_arg a ''marketId''))) (\<lambda>i.
     act_bind (act_lift (as_int (n_arg a ''makerRate''))) (\<lambda>mk.
     act_bind (act_lift (as_int (n_arg a ''takerRate''))) (\<lambda>tk.
     act_mod (update_market (se_network ev) i (\<lambda>m. m\<lparr>mj_makerRate := mk, mj_takerRate := tk\<rparr>))))))"

subsection \<open>Oracle and funding\<close>

definition price_updated :: handler where
  "price_updated e ev = (let a = se_args ev in
     act_then (insertRow ''OracleSnapshot'' ev [(''oracleId'', Cell_text (s_arg a ''id'')), (''price'', Cell_decimal (s_arg a ''price'')),
       (''confidence'', Cell_decimal (s_arg a ''confidence'')), (''publishTime'', Cell_bigint (s_arg a ''publishTime'')),
       (''writeTime'', Cell_bigint (s_arg a ''writeTime'')), (''sourceCount'', Cell_int (n_arg a ''sourceCount''))])
     (act_bind (act_lift (as_decimal (s_arg a ''price''))) (\<lambda>price.
     act_mod (\<lambda>d. d\<lparr>ix_markets := map (\<lambda>m. if mj_network m = se_network ev \<and> mj_oracleId m = s_arg a ''id''
       then m\<lparr>mj_lastIndex := price\<rparr> else m) (ix_markets d)\<rparr>))))"

definition funding_updated :: handler where
  "funding_updated e ev = (let a = se_args ev; i = n_arg a ''marketId'' in
     act_then (insertRow ''FundingUpdate'' ev ((''marketId'', Cell_int i)
       # texts a [''longIndex'', ''shortIndex'', ''ratePerHour'', ''premium'', ''mark'', ''index'']))
     (act_bind (act_lift (as_int i)) (\<lambda>mid.
     act_bind (act_lift (as_decimal (s_arg a ''longIndex''))) (\<lambda>l.
     act_bind (act_lift (as_decimal (s_arg a ''shortIndex''))) (\<lambda>sh.
     act_bind (act_lift (as_decimal (s_arg a ''ratePerHour''))) (\<lambda>r.
     act_bind (act_lift (as_decimal (s_arg a ''mark''))) (\<lambda>mark.
     act_mod (update_market (se_network ev) mid (\<lambda>m. m\<lparr>mj_longFundingIndex := l, mj_shortFundingIndex := sh,
       mj_fundingRatePerHour := r, mj_lastMark := mark\<rparr>)))))))))"

definition funding_settled :: handler where
  "funding_settled e ev = (let a = se_args ev; who = s_arg a ''trader''; i = n_arg a ''marketId''; amount = s_arg a ''amount'' in
     act_then (insertRow ''FundingPayment'' ev [(''address'', Cell_text who), (''marketId'', Cell_int i), (''amount'', Cell_decimal amount)])
       (pnl ev who i ''FUNDING'' amount ''0'' ''0''))"

subsection \<open>Positions\<close>

definition same_position :: "position_proj \<Rightarrow> position_proj \<Rightarrow> bool" where
  "same_position p r \<longleftrightarrow> pj_network r = pj_network p \<and> pj_trader r = pj_trader p \<and> pj_marketId r = pj_marketId p"

definition log_before :: "int \<times> int \<Rightarrow> int \<times> int \<Rightarrow> bool" where
  "log_before x y \<longleftrightarrow> fst x < fst y \<or> fst x = fst y \<and> snd x < snd y"

definition pj_log :: "position_proj \<Rightarrow> int \<times> int" where
  "pj_log p = (pj_lastBlockNumber p, pj_lastLogIndex p)"

text \<open>The position upsert, and whether it wrote: an event not after the last one applied changes nothing.\<close>

definition put_position :: "position_proj \<Rightarrow> bool query" where
  "put_position p = act_bind (act_get (\<lambda>d. (find (same_position p) (ix_positions d),
       has_market (pj_network p) (pj_marketId p) d \<and> has_account (pj_network p) (pj_trader p) d))) (\<lambda>(old, linked). case old of
       None \<Rightarrow> if linked then act_then (act_mod (\<lambda>d. d\<lparr>ix_positions := ix_positions d @ [p]\<rparr>)) (act_ret True)
               else act_throw (Foreign_key_violation ''Position'')
     | Some r \<Rightarrow> if log_before (pj_log r) (pj_log p)
               then act_then (act_mod (\<lambda>d. d\<lparr>ix_positions := map (\<lambda>r. if same_position p r
                      then p\<lparr>pj_realizedPnlCum := pj_realizedPnlCum r + pj_realizedPnlCum p\<rparr> else r) (ix_positions d)\<rparr>)) (act_ret True)
               else act_ret False)"

definition open_interest :: "string \<Rightarrow> int \<Rightarrow> (int \<Rightarrow> int) \<Rightarrow> position_proj list \<Rightarrow> int" where
  "open_interest network i part ps = sum_list (map (\<lambda>p. part (pj_size p)) (filter (\<lambda>p. pj_network p = network \<and> pj_marketId p = i) ps))"

definition refresh_interest :: "string \<Rightarrow> int \<Rightarrow> index_db \<Rightarrow> index_db" where
  "refresh_interest network i d = update_market network i (\<lambda>m. m\<lparr>
     mj_longOpenInterest := open_interest network i (\<lambda>s. if s > 0 then s else 0) (ix_positions d),
     mj_shortOpenInterest := open_interest network i (\<lambda>s. if s < 0 then - s else 0) (ix_positions d)\<rparr>) d"

definition position_kind :: "string \<Rightarrow> string" where
  "position_kind reason = (if reason = ''LIQUIDATION'' then ''LIQUIDATION'' else if reason = ''ADL'' then ''DELEVERAGE'' else ''REALIZED_TRADE'')"

definition position_changed :: handler where
  "position_changed e ev = (let a = se_args ev; trader = s_arg a ''trader'' in
     act_then (ensureAccount (se_network ev) trader)
     (act_bind (act_lift (as_int (n_arg a ''marketId''))) (\<lambda>i.
     act_bind (act_lift (as_decimal (s_arg a ''size''))) (\<lambda>sz.
     act_bind (act_lift (as_decimal (s_arg a ''openNotional''))) (\<lambda>open.
     act_bind (act_lift (as_decimal (s_arg a ''price''))) (\<lambda>price.
     act_bind (act_lift (as_decimal (s_arg a ''realizedPnl''))) (\<lambda>realized.
     act_bind (put_position \<lparr>pj_network = se_network ev, pj_trader = trader, pj_marketId = i, pj_size = sz, pj_openNotional = open,
       pj_lastPrice = price, pj_realizedPnlCum = realized, pj_lastBlockNumber = se_blockNumber ev, pj_lastLogIndex = se_logIndex ev\<rparr>) (\<lambda>applied.
     if \<not> applied then act_ret ()
     else act_then (act_mod (refresh_interest (se_network ev) i))
       (act_bind (act_lift (bytes32ToString e (s_arg a ''reason''))) (\<lambda>reason.
        pnl ev trader (Some i) (position_kind reason) (s_arg a ''realizedPnl'') (abs_text (s_arg a ''sizeDelta'')) (s_arg a ''price'')))))))))))"

subsection \<open>Orders and fills\<close>

definition same_fill :: "fill_proj \<Rightarrow> fill_proj \<Rightarrow> bool" where
  "same_fill f r \<longleftrightarrow> fj_network r = fj_network f \<and> fj_fillId r = fj_fillId f"

text \<open>The fill upsert. The log a fill settled in is a unique key too (a null never conflicts).\<close>

definition put_fill :: "fill_proj \<Rightarrow> unit query" where
  "put_fill f = act_bind (act_get (\<lambda>d. (list_ex (same_fill f) (ix_fills d),
       list_ex (\<lambda>r. \<not> same_fill f r \<and> fj_network r = fj_network f \<and> fj_txHash r \<noteq> None \<and> fj_logIndex r \<noteq> None
                  \<and> fj_txHash r = fj_txHash f \<and> fj_logIndex r = fj_logIndex f) (ix_fills d),
       has_market (fj_network f) (fj_marketId f) d))) (\<lambda>(known, taken, linked).
     if taken then act_throw (Unique_violation ''Fill'')
     else if \<not> linked then act_throw (Foreign_key_violation ''Fill'')
     else if known then act_mod (\<lambda>d. d\<lparr>ix_fills := map (\<lambda>r. if same_fill f r then f else r) (ix_fills d)\<rparr>)
     else act_mod (\<lambda>d. d\<lparr>ix_fills := ix_fills d @ [f]\<rparr>))"

definition on_fill_settled :: handler where
  "on_fill_settled e ev = (let a = se_args ev; maker = s_arg a ''makerOrderHash''; taker = s_arg a ''takerOrderHash'' in
     act_bind (act_lift (as_int (n_arg a ''marketId''))) (\<lambda>i.
     act_bind (act_lift (as_decimal (s_arg a ''size''))) (\<lambda>sz.
     act_bind (act_lift (as_decimal (s_arg a ''price''))) (\<lambda>price.
     act_bind (act_lift (as_decimal (s_arg a ''makerFee''))) (\<lambda>makerFee.
     act_bind (act_lift (as_decimal (s_arg a ''takerFee''))) (\<lambda>takerFee.
     act_bind (act_lift (as_int (n_arg a ''makerTier''))) (\<lambda>makerTier.
     act_bind (act_lift (as_int (n_arg a ''takerTier''))) (\<lambda>takerTier.
     act_then (put_fill \<lparr>fj_network = se_network ev, fj_fillId = s_arg a ''fillId'', fj_status = SETTLED, fj_rejectReason = None,
       fj_marketId = i, fj_maker = s_arg a ''maker'', fj_taker = s_arg a ''taker'', fj_makerOrderHash = maker, fj_takerOrderHash = taker,
       fj_takerIsBuy = (arg a ''takerIsBuy'' = Some (JBool True)), fj_size = sz, fj_price = price, fj_makerFee = makerFee,
       fj_takerFee = takerFee, fj_makerTier = makerTier, fj_takerTier = takerTier, fj_blockNumber = Some (se_blockNumber ev),
       fj_txHash = Some (se_txHash ev), fj_logIndex = Some (se_logIndex ev)\<rparr>)
     (act_mod (refreshOrders (se_network ev) [maker, taker]))))))))))"

definition fill_rejected :: handler where
  "fill_rejected e ev = (let a = se_args ev in
     act_mod (\<lambda>d. d\<lparr>ix_fills := map (\<lambda>f. if fj_network f = se_network ev \<and> fj_fillId f = s_arg a ''fillId'' \<and> fj_status f \<noteq> SETTLED
       then f\<lparr>fj_status := REJECTED, fj_rejectReason := Some (decodeRevertReason e (s_arg a ''reason''))\<rparr> else f) (ix_fills d)\<rparr>))"

definition order_cancelled :: handler where
  "order_cancelled e ev = (let a = se_args ev in
     act_bind (act_lift (as_decimal (s_arg a ''nonce''))) (\<lambda>nonce.
     act_mod (cancel_orders (\<lambda>r. ow_network r = se_network ev \<and> ow_owner r = s_arg a ''owner'' \<and> ow_nonce r = nonce))))"

definition nonces_cancelled_up_to :: handler where
  "nonces_cancelled_up_to e ev = (let a = se_args ev; owner = s_arg a ''owner'' in
     act_then (ensureAccount (se_network ev) owner)
     (act_bind (act_lift (as_decimal (s_arg a ''minNonce''))) (\<lambda>minNonce.
     act_then (act_mod (update_account (se_network ev) owner (\<lambda>r. r\<lparr>aj_minValidNonce := max (aj_minValidNonce r) minNonce\<rparr>)))
     (act_mod (cancel_orders (\<lambda>r. ow_network r = se_network ev \<and> ow_owner r = owner \<and> ow_nonce r < minNonce))))))"

subsection \<open>Vault balances\<close>

definition deposited :: handler where
  "deposited e ev = (let a = se_args ev in
     insertRow ''BalanceChange'' ev [(''address'', Cell_text (s_arg a ''account'')), (''kind'', Cell_text ''DEPOSIT''),
       (''counterparty'', Cell_text (s_arg a ''payer'')), (''amount'', Cell_decimal (s_arg a ''amount'')),
       (''internalAmount'', Cell_decimal (s_arg a ''internalAmount''))])"

definition withdrawn :: handler where
  "withdrawn e ev = (let a = se_args ev in
     insertRow ''BalanceChange'' ev [(''address'', Cell_text (s_arg a ''account'')), (''kind'', Cell_text ''WITHDRAWAL''),
       (''counterparty'', Cell_text (s_arg a ''to'')), (''amount'', Cell_decimal (s_arg a ''amount'')),
       (''internalAmount'', Cell_decimal (s_arg a ''internalAmount''))])"

definition transfer_row :: "address \<Rightarrow> string \<Rightarrow> address \<Rightarrow> string \<Rightarrow> string \<Rightarrow> (string \<times> cell) list" where
  "transfer_row who kind other amount reason = [(''address'', Cell_text who), (''kind'', Cell_text kind), (''counterparty'', Cell_text other),
     (''internalAmount'', Cell_decimal amount), (''reason'', Cell_text reason)]"

definition internal_transfer :: handler where
  "internal_transfer e ev = (let a = se_args ev; amount = s_arg a ''amount''; reason = s_arg a ''reason'';
      (payer, payee, amount) = (if take 1 amount = ''-'' then (s_arg a ''to'', s_arg a ''from'', abs_text amount)
                                else (s_arg a ''from'', s_arg a ''to'', amount)) in
     act_then (insertRow ''BalanceChange'' ev (transfer_row payer ''TRANSFER_OUT'' payee amount reason))
       (insertRow ''BalanceChange'' ev (transfer_row payee ''TRANSFER_IN'' payer amount reason)))"

subsection \<open>Liquidation, deleveraging, backstop\<close>

definition liquidated :: handler where
  "liquidated e ev = (let a = se_args ev in
     act_then (insertRow ''LiquidationEvent'' ev ((''trader'', Cell_text (s_arg a ''trader'')) # (''liquidator'', Cell_text (s_arg a ''liquidator''))
       # (''marketId'', Cell_int (n_arg a ''marketId''))
       # texts a [''closeSize'', ''price'', ''realizedPnl'', ''penalty'', ''reward'', ''equityBefore'', ''equityAfter'']))
     (pnl ev (s_arg a ''trader'') (n_arg a ''marketId'') ''LIQUIDATION_PENALTY'' (neg_text (s_arg a ''penalty'')) ''0'' ''0''))"

definition deleveraged :: handler where
  "deleveraged e ev = (let a = se_args ev in
     insertRow ''DeleverageEvent'' ev ((''counterparty'', Cell_text (s_arg a ''counterparty'')) # (''keeper'', Cell_text (s_arg a ''keeper''))
       # (''marketId'', Cell_int (n_arg a ''marketId'')) # texts a [''closeSize'', ''price'', ''realizedPnl'', ''haircut'']))"

definition backstop_unwound :: handler where
  "backstop_unwound e ev = (let a = se_args ev in
     insertRow ''BackstopUnwind'' ev ((''marketId'', Cell_int (n_arg a ''marketId'')) # texts a [''size'', ''price'', ''notional'', ''dayTotal'']))"

subsection \<open>Fees\<close>

definition fee_accrued :: handler where
  "fee_accrued e ev = (let a = se_args ev; referrer = s_arg a ''referrer'' in
     act_then (insertRow ''FeeAccrual'' ev ((''marketId'', Cell_int (n_arg a ''marketId'')) # (''payer'', Cell_text (s_arg a ''payer''))
       # (''referrer'', if referrer = ZERO_ADDRESS then Cell_null else Cell_text referrer)
       # texts a [''amount'', ''toTreasury'', ''toInsurance'', ''toReferral'']))
     (pnl ev (s_arg a ''payer'') (n_arg a ''marketId'') ''FEE'' (neg_text (s_arg a ''amount'')) ''0'' ''0''))"

definition fee_claimed :: handler where
  "fee_claimed e ev = (let a = se_args ev in
     insertRow ''FeeClaim'' ev [(''bucket'', Cell_text (s_arg a ''bucket'')), (''recipient'', Cell_text (s_arg a ''recipient'')),
       (''amount'', Cell_decimal (s_arg a ''amount'')), (''internalAmount'', Cell_decimal (s_arg a ''internalAmount''))])"

definition fee_tier_set :: handler where
  "fee_tier_set e ev = (let a = se_args ev; who = s_arg a ''account'' in
     act_then (insertRow ''FeeTierAssignment'' ev [(''address'', Cell_text who), (''tier'', Cell_int (n_arg a ''tier''))])
     (act_then (ensureAccount (se_network ev) who)
     (act_bind (act_lift (as_int (n_arg a ''tier''))) (\<lambda>tier.
     act_mod (update_account (se_network ev) who (\<lambda>r. r\<lparr>aj_feeTier := tier\<rparr>))))))"

subsection \<open>Governance\<close>

definition ZERO_BYTES32 :: hex where "ZERO_BYTES32 = ''0x'' @ replicate 64 CHR ''0''"

definition MAX_DATE_MS :: int where "MAX_DATE_MS = 8640000000000000"

definition same_operation :: "governance_op \<Rightarrow> governance_op \<Rightarrow> bool" where
  "same_operation g r \<longleftrightarrow> go_network r = go_network g \<and> go_operationId r = go_operationId g"

text \<open>The upsert of an operation: the first call of a schedule replaces the calls and clears what a former schedule left, a later one appends.\<close>

definition reschedule :: "bool \<Rightarrow> governance_op \<Rightarrow> governance_op \<Rightarrow> governance_op" where
  "reschedule first g r = r\<lparr>go_calls := (if first then go_calls g else go_calls r @ go_calls g),
     go_predecessor := go_predecessor g, go_delaySeconds := go_delaySeconds g, go_readyAt := go_readyAt g, go_status := Gov_scheduled,
     go_scheduledTxHash := go_scheduledTxHash g, go_salt := (if first then go_salt g else go_salt r),
     go_executedTxHash := (if first then None else go_executedTxHash r),
     go_cancelledTxHash := (if first then None else go_cancelledTxHash r)\<rparr>"

definition put_operation :: "bool \<Rightarrow> governance_op \<Rightarrow> index_db \<Rightarrow> index_db" where
  "put_operation first g d = (if list_ex (same_operation g) (ix_governance d)
     then d\<lparr>ix_governance := map (\<lambda>r. if same_operation g r then reschedule first g r else r) (ix_governance d)\<rparr>
     else d\<lparr>ix_governance := ix_governance d @ [g]\<rparr>)"

definition call_scheduled :: handler where
  "call_scheduled e ev = (let a = se_args ev; index = n_arg a ''index'' in
     case js_Number (Some (JStr (s_arg a ''delay''))) of None \<Rightarrow> act_throw Bad_date
     | Some delay \<Rightarrow> (let readyAt = se_blockTimestamp ev + delay * 1000 in
         if MAX_DATE_MS < \<bar>readyAt\<bar> then act_throw Bad_date
         else act_bind (act_lift (as_bigint (s_arg a ''delay''))) (\<lambda>delaySeconds.
           act_mod (put_operation (index = Some 0) \<lparr>go_network = se_network ev, go_operationId = s_arg a ''id'',
             go_predecessor = s_arg a ''predecessor'', go_salt = ZERO_BYTES32,
             go_calls = [JObj [(''index'', case index of None \<Rightarrow> JNull | Some i \<Rightarrow> JNum i), (''target'', JStr (s_arg a ''target'')),
               (''value'', JStr (s_arg a ''value'')), (''data'', JStr (s_arg a ''data''))]],
             go_delaySeconds = delaySeconds, go_readyAt = readyAt, go_status = Gov_scheduled, go_scheduledTxHash = se_txHash ev,
             go_executedTxHash = None, go_cancelledTxHash = None\<rparr>))))"

definition call_salt :: handler where
  "call_salt e ev = (let a = se_args ev in
     act_mod (update_governance (se_network ev) (s_arg a ''id'') (\<lambda>r. r\<lparr>go_salt := s_arg a ''salt''\<rparr>)))"

definition call_executed :: handler where
  "call_executed e ev = (let a = se_args ev in act_mod (update_governance (se_network ev) (s_arg a ''id'')
     (\<lambda>r. r\<lparr>go_status := Gov_executed, go_executedTxHash := Some (se_txHash ev)\<rparr>)))"

definition call_cancelled :: handler where
  "call_cancelled e ev = (let a = se_args ev in act_mod (update_governance (se_network ev) (s_arg a ''id'')
     (\<lambda>r. r\<lparr>go_status := Gov_cancelled, go_cancelledTxHash := Some (se_txHash ev)\<rparr>)))"

section \<open>Applying an event\<close>

definition HANDLERS :: "(string \<times> handler) list" where
  "HANDLERS = [
     (''riskParams.MarketListed'', market_listed), (''riskParams.MarketParamsSet'', market_params_set),
     (''riskParams.MarketActiveSet'', market_active_set), (''feeRouter.MarketFeesSet'', market_fees_set),
     (''oracleAdapter.PriceUpdated'', price_updated), (''engine.FundingUpdated'', funding_updated),
     (''engine.FundingSettled'', funding_settled), (''engine.PositionChanged'', position_changed),
     (''orderGateway.FillSettled'', on_fill_settled), (''orderGateway.FillRejected'', fill_rejected),
     (''orderGateway.OrderCancelled'', order_cancelled), (''orderGateway.NoncesCancelledUpTo'', nonces_cancelled_up_to),
     (''vault.Deposited'', deposited), (''vault.Withdrawn'', withdrawn), (''vault.InternalTransfer'', internal_transfer),
     (''liquidation.Liquidated'', liquidated), (''liquidation.Deleveraged'', deleveraged), (''insurance.BackstopUnwound'', backstop_unwound),
     (''feeRouter.FeeAccrued'', fee_accrued), (''feeRouter.FeeClaimed'', fee_claimed), (''feeRouter.FeeTierSet'', fee_tier_set),
     (''timelock.CallScheduled'', call_scheduled), (''timelock.CallSalt'', call_salt), (''timelock.CallExecuted'', call_executed),
     (''timelock.Cancelled'', call_cancelled)]"

definition handler_of :: "string option \<Rightarrow> stored_event \<Rightarrow> handler option" where
  "handler_of contract ev = (case contract of None \<Rightarrow> None | Some c \<Rightarrow> map_of HANDLERS (c @ ''.'' @ se_eventName ev))"

definition applyEvent :: "index_env \<Rightarrow> string option \<Rightarrow> stored_event \<Rightarrow> bool query" where
  "applyEvent e contract ev = (case handler_of contract ev of None \<Rightarrow> act_ret False
     | Some h \<Rightarrow> act_then (h e ev) (act_ret True))"

section \<open>Reset\<close>

definition LOG_TABLES :: "string list" where
  "LOG_TABLES = [''OracleSnapshot'', ''FundingUpdate'', ''FundingPayment'', ''LiquidationEvent'', ''DeleverageEvent'',
     ''BackstopUnwind'', ''FeeAccrual'', ''FeeClaim'', ''FeeTierAssignment'', ''BalanceChange'', ''PnlEvent'']"

definition DERIVED_TABLES :: "string list" where
  "DERIVED_TABLES = LOG_TABLES @ [''Position'', ''GovernanceOperation'']"

definition delete_from :: "string \<Rightarrow> string \<Rightarrow> index_db \<Rightarrow> index_db" where
  "delete_from network tbl d = (if tbl = ''Position'' then d\<lparr>ix_positions := filter (\<lambda>r. pj_network r \<noteq> network) (ix_positions d)\<rparr>
     else if tbl = ''GovernanceOperation'' then d\<lparr>ix_governance := filter (\<lambda>r. go_network r \<noteq> network) (ix_governance d)\<rparr>
     else d\<lparr>ix_logs := (ix_logs d)(tbl := filter (\<lambda>r. lr_network r \<noteq> network) (ix_logs d tbl))\<rparr>)"

definition reset_fill :: "fill_proj \<Rightarrow> fill_proj" where
  "reset_fill f = f\<lparr>fj_status := PENDING, fj_rejectReason := None, fj_blockNumber := None, fj_txHash := None, fj_logIndex := None\<rparr>"

definition reset_order :: "order_row \<Rightarrow> order_row" where
  "reset_order r = r\<lparr>ow_filledSize := 0, ow_status := (if ow_status r \<in> {PARTIALLY_FILLED, FILLED} then OPEN else ow_status r)\<rparr>"

definition reset_account :: "account_proj \<Rightarrow> account_proj" where
  "reset_account r = r\<lparr>aj_feeTier := 0, aj_minValidNonce := 0\<rparr>"

definition reset_market :: "market_proj \<Rightarrow> market_proj" where
  "reset_market m = m\<lparr>mj_active := False, mj_params := JObj [], mj_makerRate := 0, mj_takerRate := 0, mj_lastMark := 0, mj_lastIndex := 0,
     mj_longFundingIndex := 0, mj_shortFundingIndex := 0, mj_fundingRatePerHour := 0, mj_longOpenInterest := 0, mj_shortOpenInterest := 0\<rparr>"

definition resetProjections :: "string \<Rightarrow> index_db \<Rightarrow> index_db" where
  "resetProjections network d = (let d1 = fold (delete_from network) DERIVED_TABLES d in
     d1\<lparr>ix_fills := map (\<lambda>f. if fj_network f = network then reset_fill f else f) (ix_fills d1),
       ix_orders := map (\<lambda>r. if ow_network r = network then reset_order r else r) (ix_orders d1),
       ix_accounts := map (\<lambda>r. if aj_network r = network then reset_account r else r) (ix_accounts d1),
       ix_markets := map (\<lambda>m. if mj_network m = network then reset_market m else m) (ix_markets d1)\<rparr>)"

end
