(* ===== verification/Indexer.thy ===== *)
theory Indexer
  imports Projections
begin

text \<open>
  The indexer, \<open>client/lib/indexer/indexer.ts\<close>, run by \<open>client/scripts/state-indexer.ts\<close>. A window of logs is stored, projected and
  the cursor moved in one transaction (\<open>db.ts\<close>); a rebuild replays the stored events. The state is the database and
  the window size the process holds. The chain is a parameter, a record of reads, one for each step: what the provider answers may
  change between steps.
\<close>

section \<open>The chain\<close>

record provider_error =
  pv_details :: "string option"
  pv_message :: string

record log_source =
  ls_getBlockNumber :: "string + int"
  ls_getBlock :: "int \<Rightarrow> string + hex \<times> int"
  ls_getLogs :: "address list \<Rightarrow> int \<Rightarrow> int \<Rightarrow> provider_error + raw_log list"

record indexer_opts =
  io_network :: string
  io_startBlock :: int
  io_maxWindow :: int

record indexer =
  in_db :: index_db
  in_window :: int

record window_result =
  wr_fromBlock :: int
  wr_toBlock :: int
  wr_logs :: int

definition CURSOR_STREAM :: string where "CURSOR_STREAM = ''protocol''"

definition provider_text :: "provider_error \<Rightarrow> string" where
  "provider_text e = (case pv_details e of Some t \<Rightarrow> t | None \<Rightarrow> pv_message e)"

definition isRangeError :: "provider_error \<Rightarrow> bool" where
  "isRangeError e = list_ex (\<lambda>p. contains_text p (lower (provider_text e)))
     [''block range'', ''too many'', ''limit exceeded'', ''query returned more than'', ''response size'', ''range is too large'', ''exceed'']"

section \<open>One window\<close>

definition cursor :: "indexer_opts \<Rightarrow> index_db \<Rightarrow> int option" where
  "cursor opts d = map_option fst (ix_cursor d (io_network opts, CURSOR_STREAM))"

definition first_block :: "indexer_opts \<Rightarrow> index_db \<Rightarrow> int" where
  "first_block opts d = (case cursor opts d of None \<Rightarrow> io_startBlock opts | Some b \<Rightarrow> b + 1)"

text \<open>The loop of \<open>step\<close>: a range error halves the window.\<close>

function fetch :: "log_source \<Rightarrow> address list \<Rightarrow> int \<Rightarrow> int \<Rightarrow> int \<Rightarrow> (provider_error + int \<times> raw_log list) \<times> int" where
  "fetch src addrs head fromBlock window = (let toBlock = min head (fromBlock + window - 1) in
     case ls_getLogs src addrs fromBlock toBlock of Inr logs \<Rightarrow> (Inr (toBlock, logs), window)
     | Inl e \<Rightarrow> if window > 1 \<and> isRangeError e then fetch src addrs head fromBlock (window sdiv 2) else (Inl e, window))"
  by pat_completeness auto
termination by (relation "measure (\<lambda>(_, _, _, _, w). nat w)") (auto simp: sdiv_nonneg)

declare fetch.simps [simp del]

definition log_order :: "raw_log \<Rightarrow> raw_log \<Rightarrow> int" where
  "log_order x y = (if rl_blockNumber x = rl_blockNumber y then rl_logIndex x - rl_logIndex y
     else if rl_blockNumber x < rl_blockNumber y then -1 else 1)"

definition unique_first :: "'a list \<Rightarrow> 'a list" where
  "unique_first xs = rev (remdups (rev xs))"

fun read_blocks :: "log_source \<Rightarrow> int list \<Rightarrow> index_error + (int \<Rightarrow> (hex \<times> int) option)" where
  "read_blocks src [] = Inr Map.empty"
| "read_blocks src (b # bs) = (case ls_getBlock src b of Inl e \<Rightarrow> Inl (Source_failed e)
     | Inr x \<Rightarrow> (case read_blocks src bs of Inl e \<Rightarrow> Inl e | Inr m \<Rightarrow> Inr (m(b \<mapsto> x))))"

definition event_of :: "index_env \<Rightarrow> indexer_opts \<Rightarrow> hex \<times> int \<Rightarrow> raw_log \<Rightarrow> event_row" where
  "event_of e opts block l = (let (eventName, args) = decode e l in
     \<lparr>se_network = io_network opts, se_blockNumber = rl_blockNumber l, se_blockTimestamp = snd block * 1000,
      se_txHash = lower (rl_transactionHash l), se_logIndex = rl_logIndex l, se_contract = lower (rl_address l),
      se_eventName = eventName, se_args = args, ev_blockHash = lower (fst block),
      ev_topic0 = lower (case rl_topics l of [] \<Rightarrow> ZERO_BYTES32 | t # _ \<Rightarrow> t)\<rparr>)"

definition same_event :: "event_row \<Rightarrow> event_row \<Rightarrow> bool" where
  "same_event x y \<longleftrightarrow> se_network y = se_network x \<and> se_txHash y = se_txHash x \<and> se_logIndex y = se_logIndex x"

text \<open>Projecting one stored row, live and in a rebuild.\<close>

definition project :: "index_env \<Rightarrow> event_row \<Rightarrow> bool query" where
  "project e row = applyEvent e (nameOf e (se_contract row)) (stored_event.truncate row)"

definition store_event :: "index_env \<Rightarrow> event_row \<Rightarrow> unit query" where
  "store_event e row = act_bind (act_get (\<lambda>d. list_ex (same_event row) (ix_events d))) (\<lambda>stored.
     if stored then act_ret ()
     else act_then (act_mod (\<lambda>d. d\<lparr>ix_events := ix_events d @ [row]\<rparr>)) (act_then (project e row) (act_ret ())))"

definition record_log :: "index_env \<Rightarrow> indexer_opts \<Rightarrow> (int \<Rightarrow> (hex \<times> int) option) \<Rightarrow> int \<Rightarrow> int \<Rightarrow> raw_log \<Rightarrow> unit query" where
  "record_log e opts blocks fromBlock toBlock l =
     (if rl_blockNumber l < fromBlock \<or> rl_blockNumber l > toBlock then act_throw (Log_outside (rl_blockNumber l))
      else case blocks (rl_blockNumber l) of None \<Rightarrow> act_throw (Type_error ''block'')
        | Some block \<Rightarrow> store_event e (event_of e opts block l))"

definition setCursor :: "string \<Rightarrow> int \<Rightarrow> hex \<Rightarrow> index_db \<Rightarrow> index_db" where
  "setCursor network b h d = d\<lparr>ix_cursor := (ix_cursor d)((network, CURSOR_STREAM) \<mapsto> (b, lower h))\<rparr>"

definition commit :: "index_env \<Rightarrow> indexer_opts \<Rightarrow> log_source \<Rightarrow> int \<Rightarrow> int \<Rightarrow> raw_log list \<Rightarrow> unit query" where
  "commit e opts src fromBlock toBlock logs = (let ordered = js_sort log_order logs in
     act_bind (act_lift (read_blocks src (unique_first (map rl_blockNumber ordered @ [toBlock])))) (\<lambda>blocks.
     act_atomic (act_then (act_each (record_log e opts blocks fromBlock toBlock) ordered)
       (case blocks toBlock of None \<Rightarrow> act_throw (Type_error ''block'')
        | Some (h, _) \<Rightarrow> act_mod (setCursor (io_network opts) toBlock h)))))"

definition on_index :: "'a query \<Rightarrow> (indexer, index_error, 'a) act" where
  "on_index m = (\<lambda>s. case m (in_db s) of (r, d) \<Rightarrow> (r, s\<lparr>in_db := d\<rparr>))"

definition grow_window :: "indexer_opts \<Rightarrow> indexer \<Rightarrow> indexer" where
  "grow_window opts s = (if in_window s < io_maxWindow opts then s\<lparr>in_window := min (io_maxWindow opts) (in_window s * 2)\<rparr> else s)"

definition step :: "index_env \<Rightarrow> indexer_opts \<Rightarrow> log_source \<Rightarrow> (indexer, index_error, window_result option) act" where
  "step e opts src = act_bind (act_get (\<lambda>s. first_block opts (in_db s))) (\<lambda>fromBlock.
     act_bind (act_lift (case ls_getBlockNumber src of Inl m \<Rightarrow> Inl (Source_failed m) | Inr h \<Rightarrow> Inr h)) (\<lambda>head.
     if fromBlock > head then act_ret None
     else act_bind (act_get in_window) (\<lambda>w. case fetch src (registry_addresses e) head fromBlock w of (r, w') \<Rightarrow>
       act_then (act_mod (in_window_update (\<lambda>_. w')))
       (case r of Inl err \<Rightarrow> act_throw (Source_failed (provider_text err))
        | Inr (toBlock, logs) \<Rightarrow>
            act_then (on_index (commit e opts src fromBlock toBlock logs))
            (act_then (act_mod (grow_window opts))
            (act_ret (Some \<lparr>wr_fromBlock = fromBlock, wr_toBlock = toBlock, wr_logs = int (length logs)\<rparr>)))))))"

section \<open>Runs\<close>

text \<open>\<open>catchUp\<close>: the number of windows until \<open>step\<close> has nothing to do; \<open>None\<close> when the fuel ran out first.\<close>

fun catchUp :: "nat \<Rightarrow> index_env \<Rightarrow> indexer_opts \<Rightarrow> log_source \<Rightarrow> int \<Rightarrow> indexer \<Rightarrow> ((index_error + int) \<times> indexer) option" where
  "catchUp 0 e opts src windows s = None"
| "catchUp (Suc fuel) e opts src windows s = (case step e opts src s of (Inl err, t) \<Rightarrow> Some (Inl err, t)
     | (Inr None, t) \<Rightarrow> Some (Inr windows, t)
     | (Inr (Some _), t) \<Rightarrow> catchUp fuel e opts src (windows + 1) t)"

text \<open>The service's loop: a step that fails is logged and tried again. A restart of the process starts from the stored
  database with the window at its largest.\<close>

datatype index_turn = Turn log_source | Restart

definition new_indexer :: "indexer_opts \<Rightarrow> index_db \<Rightarrow> indexer" where
  "new_indexer opts d = \<lparr>in_db = d, in_window = io_maxWindow opts\<rparr>"

fun indexer_turn :: "index_env \<Rightarrow> indexer_opts \<Rightarrow> index_turn \<Rightarrow> indexer \<Rightarrow> indexer" where
  "indexer_turn e opts (Turn src) s = snd (step e opts src s)"
| "indexer_turn e opts Restart s = new_indexer opts (in_db s)"

definition indexer_run :: "index_env \<Rightarrow> indexer_opts \<Rightarrow> index_turn list \<Rightarrow> indexer \<Rightarrow> indexer" where
  "indexer_run e opts turns s = fold (indexer_turn e opts) turns s"

section \<open>Rebuild\<close>

definition event_key :: "event_row \<Rightarrow> int \<times> int" where
  "event_key r = (se_blockNumber r, se_logIndex r)"

definition event_order :: "event_row \<Rightarrow> event_row \<Rightarrow> int" where
  "event_order x y = (if se_blockNumber x = se_blockNumber y then se_logIndex x - se_logIndex y
     else if se_blockNumber x < se_blockNumber y then -1 else 1)"

text \<open>One page of stored events after a key.\<close>

definition events_page :: "string \<Rightarrow> int \<times> int \<Rightarrow> nat \<Rightarrow> index_db \<Rightarrow> event_row list" where
  "events_page network after n d = take n (js_sort event_order
     (filter (\<lambda>r. se_network r = network \<and> log_before after (event_key r)) (ix_events d)))"

fun project_page :: "index_env \<Rightarrow> event_row list \<Rightarrow> int \<Rightarrow> int query" where
  "project_page e [] applied = act_ret applied"
| "project_page e (r # rs) applied = act_bind (project e r) (\<lambda>b. project_page e rs (if b then applied + 1 else applied))"

text \<open>The paging loop, \<open>None\<close> out of fuel; an empty full page (a batch of zero) fails on its last row.\<close>

fun rebuild_loop :: "nat \<Rightarrow> index_env \<Rightarrow> string \<Rightarrow> nat \<Rightarrow> int \<times> int \<Rightarrow> int \<Rightarrow> index_db \<Rightarrow> ((index_error + int) \<times> index_db) option" where
  "rebuild_loop 0 e network n after applied d = None"
| "rebuild_loop (Suc fuel) e network n after applied d = (let rows = events_page network after n d in
     case project_page e rows applied d of (Inl err, d') \<Rightarrow> Some (Inl err, d')
     | (Inr applied', d') \<Rightarrow>
         if length rows < n then Some (Inr applied', d')
         else if rows = [] then Some (Inl (Type_error ''blockNumber''), d')
         else rebuild_loop fuel e network n (event_key (last rows)) applied' d')"

definition rebuild :: "nat \<Rightarrow> index_env \<Rightarrow> indexer_opts \<Rightarrow> nat \<Rightarrow> index_db \<Rightarrow> ((index_error + int) \<times> index_db) option" where
  "rebuild fuel e opts batchSize d =
     (case rebuild_loop fuel e (io_network opts) batchSize (-1, 0) 0 (resetProjections (io_network opts) d) of
        None \<Rightarrow> None
      | Some (Inl err, _) \<Rightarrow> Some (Inl err, d)
      | Some (Inr applied, d') \<Rightarrow> Some (Inr applied, d'))"

end
