(* ===== verification/Projection_Replay.thy ===== *)
theory Projection_Replay
  imports Indexer
begin

text \<open>
  Running the same projections on two databases. \<open>tracks R m\<close>: whenever two databases are related and \<open>m\<close> succeeds on the
  first, it succeeds on the second with the same value and leaves them related. The locale states what a relation must respect, one
  statement of the handlers each, and concludes that applying an event respects it. It is used twice: for databases that differ
  in what the projections never touch, and for a live database and the one a rebuild replays into.
\<close>

section \<open>Related runs\<close>

named_theorems act_tracks \<open>the sequencing constructs on related states\<close>

definition tracks :: "('s \<Rightarrow> 's \<Rightarrow> bool) \<Rightarrow> ('s, 'e, 'a) act \<Rightarrow> bool" where
  "tracks R m \<longleftrightarrow> (\<forall>L B x L'. R L B \<longrightarrow> m L = (Inr x, L') \<longrightarrow> (\<exists>B'. m B = (Inr x, B') \<and> R L' B'))"

lemma tracksI: "(\<And>L B x L'. R L B \<Longrightarrow> m L = (Inr x, L') \<Longrightarrow> \<exists>B'. m B = (Inr x, B') \<and> R L' B') \<Longrightarrow> tracks R m"
  by (simp add: tracks_def)

lemma tracksD: "tracks R m \<Longrightarrow> R L B \<Longrightarrow> m L = (Inr x, L') \<Longrightarrow> \<exists>B'. m B = (Inr x, B') \<and> R L' B'"
  by (simp add: tracks_def)

lemma tracks_ret [act_tracks]: "tracks R (act_ret x)"
  by (simp add: tracks_def act_ret_def)

lemma tracks_throw [act_tracks]: "tracks R (act_throw e)"
  by (simp add: tracks_def act_throw_def)

lemma tracks_mod: "(\<And>L B. R L B \<Longrightarrow> R (f L) (f B)) \<Longrightarrow> tracks R (act_mod f)"
  by (simp add: tracks_def act_mod_def)

lemma bind_Inr: "act_bind m f s = (Inr y, u) \<longleftrightarrow> (\<exists>x t. m s = (Inr x, t) \<and> f x t = (Inr y, u))"
  by (auto simp: act_bind_def split: prod.splits sum.splits)

lemma then_Inr: "act_then m k s = (Inr y, u) \<longleftrightarrow> (\<exists>x t. m s = (Inr x, t) \<and> k t = (Inr y, u))"
  by (simp add: act_then_def bind_Inr)

lemma mod_Inr: "act_mod f s = (Inr y, u) \<longleftrightarrow> u = f s"
  by (auto simp: act_mod_def)

lemma ret_Inr: "act_ret x s = (Inr y, u) \<longleftrightarrow> y = x \<and> u = s"
  by (auto simp: act_ret_def)

lemma get_Inr: "act_get f s = (Inr y, u) \<longleftrightarrow> y = f s \<and> u = s"
  by (auto simp: act_get_def)

lemma throw_Inr: "\<not> act_throw e s = (Inr y, u)"
  by (simp add: act_throw_def)

lemma lift_Inr: "act_lift r s = (Inr y, u) \<longleftrightarrow> r = Inr y \<and> u = s"
  by (auto simp: act_lift_def)

lemmas act_Inr = bind_Inr then_Inr mod_Inr ret_Inr get_Inr throw_Inr lift_Inr

lemma tracks_bind [act_tracks]:
  assumes "tracks R m" and "\<And>x. tracks R (f x)"
  shows "tracks R (act_bind m f)"
proof (rule tracksI)
  fix L B y U
  assume R: "R L B" and "act_bind m f L = (Inr y, U)"
  then obtain x T where mx: "m L = (Inr x, T)" and fx: "f x T = (Inr y, U)" by (auto simp: bind_Inr)
  from tracksD [OF assms(1) R mx] obtain V where "m B = (Inr x, V)" "R T V" by blast
  with tracksD [OF assms(2) _ fx] show "\<exists>B'. act_bind m f B = (Inr y, B') \<and> R U B'" by (auto simp: bind_Inr)
qed

text \<open>A parameter of the statement: known when it is reached.\<close>

lemma tracks_lift_bind [act_tracks]:
  assumes "\<And>x. r = Inr x \<Longrightarrow> tracks R (f x)"
  shows "tracks R (act_bind (act_lift r) f)"
proof (rule tracksI)
  fix L B y U
  assume R: "R L B" and "act_bind (act_lift r) f L = (Inr y, U)"
  then obtain x where x: "r = Inr x" and fx: "f x L = (Inr y, U)" by (auto simp: bind_Inr lift_Inr)
  from tracksD [OF assms [OF x] R fx] x show "\<exists>B'. act_bind (act_lift r) f B = (Inr y, B') \<and> R U B'" by (auto simp: bind_Inr lift_Inr)
qed

lemma tracks_then [act_tracks]: "tracks R m \<Longrightarrow> tracks R k \<Longrightarrow> tracks R (act_then m k)"
  unfolding act_then_def by (rule tracks_bind)

lemma tracks_if [act_tracks]: "(b \<Longrightarrow> tracks R m) \<Longrightarrow> (\<not> b \<Longrightarrow> tracks R k) \<Longrightarrow> tracks R (if b then m else k)"
  by simp

lemma tracks_option [act_tracks]:
  "(r = None \<Longrightarrow> tracks R m) \<Longrightarrow> (\<And>x. r = Some x \<Longrightarrow> tracks R (f x)) \<Longrightarrow> tracks R (case r of None \<Rightarrow> m | Some x \<Rightarrow> f x)"
  by (simp split: option.splits)

lemma tracks_each [act_tracks]: "(\<And>x. x \<in> set xs \<Longrightarrow> tracks R (f x)) \<Longrightarrow> tracks R (act_each f xs)"
  by (induction xs) (simp_all add: tracks_ret tracks_then)

section \<open>What a relation must respect\<close>

definition same_market_key :: "market_proj \<Rightarrow> market_proj \<Rightarrow> bool" where
  "same_market_key m n \<longleftrightarrow> mj_network m = mj_network n \<and> mj_id m = mj_id n \<and> mj_symbol m = mj_symbol n"

definition reject_fills :: "string \<Rightarrow> hex \<Rightarrow> string \<Rightarrow> index_db \<Rightarrow> index_db" where
  "reject_fills network i why d = d\<lparr>ix_fills := map (\<lambda>f. if fj_network f = network \<and> fj_fillId f = i \<and> fj_status f \<noteq> SETTLED
     then f\<lparr>fj_status := REJECTED, fj_rejectReason := Some why\<rparr> else f) (ix_fills d)\<rparr>"

definition lists_market :: "string option \<Rightarrow> stored_event \<Rightarrow> int \<Rightarrow> bool" where
  "lists_market contract ev i \<longleftrightarrow> (\<exists>c. contract = Some c \<and> c @ ''.'' @ se_eventName ev = ''riskParams.MarketListed'')
     \<and> as_int (n_arg (se_args ev) ''marketId'') = Inr i"

locale replay_relation =
  fixes R :: "index_db \<Rightarrow> index_db \<Rightarrow> bool" and network :: string and listable :: "int \<Rightarrow> bool"
  assumes log: "se_network ev = network \<Longrightarrow> tracks R (insertRow tbl ev cols)"
    and account: "R L B \<Longrightarrow> R (add_account network a L) (add_account network a B)"
    and account_update: "has_account network a L \<Longrightarrow> (\<And>r. aj_network (f r) = aj_network r \<and> aj_address (f r) = aj_address r) \<Longrightarrow> R L B
      \<Longrightarrow> R (update_account network a f L) (update_account network a f B)"
    and market: "listable i \<Longrightarrow> tracks R (put_market network i symbol oracleId)"
    and market_map: "(\<And>m. same_market_key (g m) m) \<Longrightarrow> R L B
      \<Longrightarrow> R (L\<lparr>ix_markets := map g (ix_markets L)\<rparr>) (B\<lparr>ix_markets := map g (ix_markets B)\<rparr>)"
    and interest: "R L B \<Longrightarrow> R (refresh_interest network i L) (refresh_interest network i B)"
    and position: "pj_network ps = network \<Longrightarrow> tracks R (put_position ps)"
    and fill: "fj_network fl = network \<Longrightarrow> fj_status fl = SETTLED \<Longrightarrow> tracks R (put_fill fl)"
    and refresh: "R L B \<Longrightarrow> R (refreshOrders network hs L) (refreshOrders network hs B)"
    and rejected: "R L B \<Longrightarrow> R (reject_fills network fillId why L) (reject_fills network fillId why B)"
    and cancelled: "(\<And>r st. p (r\<lparr>ow_status := st\<rparr>) = p r) \<Longrightarrow> (\<And>r. p r \<Longrightarrow> ow_network r = network) \<Longrightarrow> R L B \<Longrightarrow> R (cancel_orders p L) (cancel_orders p B)"
    and governance_update: "(\<And>r. same_operation r (w r)) \<Longrightarrow> R L B \<Longrightarrow> R (update_governance network opId w L) (update_governance network opId w B)"
    and operation: "go_network op = network \<Longrightarrow> R L B \<Longrightarrow> R (put_operation first op L) (put_operation first op B)"
begin

lemma market_update: "(\<And>m. same_market_key (f m) m) \<Longrightarrow> R L B \<Longrightarrow> R (update_market network i f L) (update_market network i f B)"
  unfolding update_market_def by (rule market_map) (simp_all add: same_market_key_def)

lemma tracks_ensureAccount: "tracks R (ensureAccount network a)"
  unfolding ensureAccount_def by (intro tracks_mod account)

lemma tracks_pnl: "se_network ev = network \<Longrightarrow> tracks R (pnl ev a i kind amount sz price)"
  unfolding pnl_def by (intro act_tracks log)

lemma tracks_account_update:
  assumes "\<And>x r. aj_network (f x r) = aj_network r \<and> aj_address (f x r) = aj_address r" and "\<And>x. tracks R (k x)"
  shows "tracks R (act_then (ensureAccount network a) (act_bind (act_lift q) (\<lambda>x. act_then (act_mod (update_account network a (f x))) (k x))))"
proof (rule tracksI)
  fix L B y U
  assume R: "R L B"
    and run: "act_then (ensureAccount network a) (act_bind (act_lift q) (\<lambda>x. act_then (act_mod (update_account network a (f x))) (k x))) L = (Inr y, U)"
  then obtain x where x: "q = Inr x" and kx: "k x (update_account network a (f x) (add_account network a L)) = (Inr y, U)"
    by (auto simp: ensureAccount_def act_Inr)
  have known: "has_account network a (add_account network a L)" by (auto simp: add_account_def has_account_def)
  have "R (update_account network a (f x) (add_account network a L)) (update_account network a (f x) (add_account network a B))"
    by (rule account_update [OF known assms(1) account [OF R]])
  from tracksD [OF assms(2) this kx] x
  show "\<exists>B'. act_then (ensureAccount network a) (act_bind (act_lift q) (\<lambda>x. act_then (act_mod (update_account network a (f x))) (k x))) B = (Inr y, B') \<and> R U B'"
    by (auto simp: ensureAccount_def act_Inr)
qed

lemma act_mod_ret: "act_mod f = act_then (act_mod f) (act_ret ())"
  by (simp add: fun_eq_iff act_defs)

lemma tracks_log_handlers:
  assumes "se_network ev = network"
  shows "tracks R (deposited e ev)" "tracks R (withdrawn e ev)" "tracks R (internal_transfer e ev)" "tracks R (liquidated e ev)"
    "tracks R (deleveraged e ev)" "tracks R (backstop_unwound e ev)" "tracks R (fee_accrued e ev)" "tracks R (fee_claimed e ev)"
    "tracks R (funding_settled e ev)"
  unfolding deposited_def withdrawn_def internal_transfer_def liquidated_def deleveraged_def backstop_unwound_def fee_accrued_def
    fee_claimed_def funding_settled_def Let_def
  by (intro act_tracks log tracks_pnl assms | simp split: prod.split; (intro conjI allI impI)?)+

lemma tracks_market_handlers:
  assumes "se_network ev = network"
  shows "tracks R (market_params_set e ev)" "tracks R (market_active_set e ev)" "tracks R (market_fees_set e ev)"
    "tracks R (price_updated e ev)" "tracks R (funding_updated e ev)"
  unfolding market_params_set_def market_active_set_def market_fees_set_def price_updated_def funding_updated_def Let_def assms
  by (intro act_tracks log tracks_mod market_update market_map assms
      | (simp add: same_market_key_def; fail) | (simp split: option.split json.split; intro conjI allI impI))+

lemma tracks_market_listed:
  assumes "se_network ev = network" and "\<And>i. as_int (n_arg (se_args ev) ''marketId'') = Inr i \<Longrightarrow> listable i"
  shows "tracks R (market_listed e ev)"
  unfolding market_listed_def Let_def assms(1) by (intro act_tracks market assms(2))

lemma tracks_position_changed:
  assumes "se_network ev = network"
  shows "tracks R (position_changed e ev)"
  unfolding position_changed_def Let_def assms
  by (intro act_tracks position tracks_ensureAccount tracks_pnl tracks_mod interest assms) (simp_all add: assms)

lemma tracks_order_handlers:
  assumes "se_network ev = network"
  shows "tracks R (on_fill_settled e ev)" "tracks R (fill_rejected e ev)" "tracks R (order_cancelled e ev)"
    "tracks R (nonces_cancelled_up_to e ev)"
  unfolding on_fill_settled_def fill_rejected_def order_cancelled_def nonces_cancelled_up_to_def Let_def assms reject_fills_def [symmetric]
  by (intro tracks_account_update | intro act_tracks fill tracks_mod refresh rejected cancelled | simp; fail)+

lemma tracks_fee_tier_set:
  assumes "se_network ev = network"
  shows "tracks R (fee_tier_set e ev)"
proof -
  have upd: "tracks R (act_then (ensureAccount network a) (act_bind (act_lift q) (\<lambda>tier. act_mod (update_account network a (\<lambda>r. r\<lparr>aj_feeTier := tier\<rparr>)))))" for a q
    using tracks_account_update [where f = "\<lambda>tier r. r\<lparr>aj_feeTier := tier\<rparr>" and k = "\<lambda>_. act_ret ()" and a = a and q = q]
    by (simp add: act_mod_ret [symmetric] tracks_ret)
  then show ?thesis unfolding fee_tier_set_def Let_def assms by (intro tracks_then log assms upd)
qed

lemma tracks_governance_handlers:
  assumes "se_network ev = network"
  shows "tracks R (call_scheduled e ev)" "tracks R (call_salt e ev)" "tracks R (call_executed e ev)" "tracks R (call_cancelled e ev)"
  unfolding call_scheduled_def call_salt_def call_executed_def call_cancelled_def Let_def assms
  by (intro act_tracks tracks_mod governance_update operation | (simp add: same_operation_def; fail))+

lemma tracks_handler:
  assumes "(k, h) \<in> set HANDLERS" and "se_network ev = network"
    and "k = ''riskParams.MarketListed'' \<Longrightarrow> \<forall>i. as_int (n_arg (se_args ev) ''marketId'') = Inr i \<longrightarrow> listable i"
  shows "tracks R (h e ev)"
  using assms(1,3) tracks_log_handlers [OF assms(2)] tracks_market_handlers [OF assms(2)] tracks_market_listed [OF assms(2)]
    tracks_position_changed [OF assms(2)] tracks_order_handlers [OF assms(2)] tracks_fee_tier_set [OF assms(2)] tracks_governance_handlers [OF assms(2)]
  by (auto simp: HANDLERS_def)

lemma tracks_applyEvent:
  assumes "se_network ev = network" and "\<And>i. lists_market contract ev i \<Longrightarrow> listable i"
  shows "tracks R (applyEvent e contract ev)"
  unfolding applyEvent_def
proof (intro act_tracks)
  fix h
  assume "handler_of contract ev = Some h"
  then obtain c where c: "contract = Some c" and "map_of HANDLERS (c @ ''.'' @ se_eventName ev) = Some h"
    by (auto simp: handler_of_def split: option.splits)
  then have "(c @ ''.'' @ se_eventName ev, h) \<in> set HANDLERS" by (intro map_of_SomeD)
  then show "tracks R (h e ev)"
    by (rule tracks_handler [OF _ assms(1)]) (use assms(2) c in \<open>auto simp: lists_market_def\<close>)
qed

end

section \<open>What the projections never touch\<close>

text \<open>Two databases that differ in the cursors and the stored events only: the handlers neither read nor write those.\<close>

definition aside :: "(string \<times> string \<Rightarrow> (int \<times> hex) option) \<Rightarrow> (string \<times> string \<Rightarrow> (int \<times> hex) option) \<Rightarrow> event_row list
    \<Rightarrow> event_row list \<Rightarrow> index_db \<Rightarrow> index_db \<Rightarrow> bool" where
  "aside x y es fs L B \<longleftrightarrow> ix_cursor L = x \<and> ix_events L = es \<and> B = L\<lparr>ix_cursor := y, ix_events := fs\<rparr>"

lemma aside_queries [simp]:
  "has_market n i (d\<lparr>ix_cursor := y, ix_events := fs\<rparr>) = has_market n i d"
  "has_account n a (d\<lparr>ix_cursor := y, ix_events := fs\<rparr>) = has_account n a d"
  by (simp_all add: has_market_def has_account_def)

lemmas statement_defs = insertRow_def add_log_def add_account_def update_account_def put_market_def update_market_def refresh_interest_def
  put_position_def put_fill_def refreshOrders_def reject_fills_def cancel_orders_def update_governance_def put_operation_def

interpretation aside: replay_relation "aside x y es fs" network "\<lambda>_. True" for x y es fs network
proof (unfold_locales, goal_cases)
  case (1 ev tbl cols)
  show ?case by (rule tracksI) (auto simp: statement_defs act_Inr aside_def split: option.splits if_splits)
next
  case (4 i symbol oracleId)
  show ?case by (rule tracksI) (auto simp: statement_defs act_Inr aside_def split: option.splits if_splits)
next
  case (7 p)
  show ?case by (rule tracksI) (auto simp: statement_defs act_Inr aside_def split: option.splits if_splits)
next
  case (8 f)
  show ?case by (rule tracksI) (auto simp: statement_defs act_Inr aside_def split: option.splits if_splits)
qed (auto simp: aside_def statement_defs)

lemma project_aside: "tracks (aside x y es fs) (project e row)"
  unfolding project_def by (rule aside.tracks_applyEvent) simp_all

lemma project_frame:
  assumes "project e row d = (Inr b, d')"
  shows "ix_events d' = ix_events d" and "ix_cursor d' = ix_cursor d"
proof -
  have "aside (ix_cursor d) (ix_cursor d) (ix_events d) (ix_events d) d d" by (simp add: aside_def)
  from tracksD [OF project_aside this assms] show "ix_events d' = ix_events d" and "ix_cursor d' = ix_cursor d"
    by (auto simp: aside_def)
qed

lemma project_elsewhere:
  assumes "project e row d = (Inr b, d')"
  shows "project e row (d\<lparr>ix_cursor := y, ix_events := fs\<rparr>) = (Inr b, d'\<lparr>ix_cursor := y, ix_events := fs\<rparr>)"
proof -
  have "aside (ix_cursor d) y (ix_events d) fs d (d\<lparr>ix_cursor := y, ix_events := fs\<rparr>)" by (simp add: aside_def)
  from tracksD [OF project_aside this assms] show ?thesis by (auto simp: aside_def)
qed

end
