(* ===== verification/Index_Windows.thy ===== *)
theory Index_Windows
  imports Projection_Replay
begin

text \<open>
  What the indexer's windows add up to. Whatever windows the provider imposes, whatever steps fail and however often the
  process restarts, the database is the one a single pass over the chain's logs from the start block to the cursor leaves: no log is
  missed, none is stored or projected twice. And with a provider that answers small enough ranges, \<open>catchUp\<close> reaches the head.
\<close>

section \<open>The reference: one pass\<close>

definition in_range :: "int \<Rightarrow> int \<Rightarrow> raw_log \<Rightarrow> bool" where
  "in_range f t l \<longleftrightarrow> f \<le> rl_blockNumber l \<and> rl_blockNumber l \<le> t"

definition logs_between :: "int \<Rightarrow> int \<Rightarrow> raw_log list \<Rightarrow> raw_log list" where
  "logs_between f t chain = js_sort log_order (filter (in_range f t) chain)"

definition index_log :: "index_env \<Rightarrow> indexer_opts \<Rightarrow> (int \<Rightarrow> hex \<times> int) \<Rightarrow> raw_log \<Rightarrow> unit query" where
  "index_log e opts block l = store_event e (event_of e opts (block (rl_blockNumber l)) l)"

definition one_pass :: "index_env \<Rightarrow> indexer_opts \<Rightarrow> (int \<Rightarrow> hex \<times> int) \<Rightarrow> raw_log list \<Rightarrow> int \<Rightarrow> int \<Rightarrow> unit query" where
  "one_pass e opts block chain f t = act_then (act_each (index_log e opts block) (logs_between f t chain))
     (act_mod (setCursor (io_network opts) t (fst (block t))))"

text \<open>The chain's logs are numbered within their block. A provider is honest when the logs of a range it answers up to its
  head are those of the chain, in any order, and its blocks are the chain's; any read may fail.\<close>

definition log_key :: "raw_log \<Rightarrow> int \<times> int" where
  "log_key l = (rl_blockNumber l, rl_logIndex l)"

definition honest_source :: "index_env \<Rightarrow> (int \<Rightarrow> hex \<times> int) \<Rightarrow> raw_log list \<Rightarrow> log_source \<Rightarrow> bool" where
  "honest_source e block chain src \<longleftrightarrow>
     (\<forall>h f t ls. ls_getBlockNumber src = Inr h \<longrightarrow> t \<le> h \<longrightarrow> ls_getLogs src (registry_addresses e) f t = Inr ls
        \<longrightarrow> mset ls = mset (filter (in_range f t) chain))
     \<and> (\<forall>b x. ls_getBlock src b = Inr x \<longrightarrow> x = block b)"

interpretation log_priority: keyed_comparator log_order log_key
  by unfold_locales (auto simp: log_order_def log_key_def split: if_splits)

lemma logs_of_range:
  assumes "distinct (map log_key chain)" and "mset ls = mset (filter (in_range f t) chain)"
  shows "js_sort log_order ls = logs_between f t chain"
  unfolding logs_between_def
proof (rule log_priority.js_sort_perm [OF assms(2)])
  have "set ls \<subseteq> set chain" using mset_eq_setD [OF assms(2)] by auto
  then show "inj_on log_key (set ls)" using assms(1) by (auto simp: distinct_map intro: inj_on_subset)
qed

lemma logs_between_append:
  assumes "distinct (map log_key chain)" and "f \<le> c + 1" and "c \<le> t"
  shows "logs_between f c chain @ logs_between (c + 1) t chain = logs_between f t chain"
proof (rule log_priority.sorted_unique)
  have upper: "rl_blockNumber x \<le> c" if "x \<in> set (logs_between f c chain)" for x
    using that by (auto simp: logs_between_def in_range_def)
  have lower: "c < rl_blockNumber x" if "x \<in> set (logs_between (c + 1) t chain)" for x
    using that by (auto simp: logs_between_def in_range_def)
  have "log_order x y \<le> 0" if "x \<in> set (logs_between f c chain)" "y \<in> set (logs_between (c + 1) t chain)" for x y
    using upper [OF that(1)] lower [OF that(2)] by (simp add: log_order_def)
  then show "sorted_wrt (\<lambda>x y. log_order x y \<le> 0) (logs_between f c chain @ logs_between (c + 1) t chain)"
    by (simp add: sorted_wrt_append logs_between_def log_priority.js_sort_sorted)
  show "sorted_wrt (\<lambda>x y. log_order x y \<le> 0) (logs_between f t chain)"
    by (simp add: logs_between_def log_priority.js_sort_sorted)
  have "mset (filter (in_range f c) chain) + mset (filter (in_range (c + 1) t) chain) = mset (filter (in_range f t) chain)"
    using assms(2,3) by (induction chain) (auto simp: in_range_def)
  then show "mset (logs_between f c chain @ logs_between (c + 1) t chain) = mset (logs_between f t chain)"
    by (simp add: logs_between_def)
  show "inj_on log_key (set (logs_between f c chain @ logs_between (c + 1) t chain))"
    using assms(1) by (auto simp: logs_between_def distinct_map intro: inj_on_subset)
qed

section \<open>A window\<close>

lemma read_blocks_honest:
  assumes "\<forall>b x. ls_getBlock src b = Inr x \<longrightarrow> x = block b" and "read_blocks src bs = Inr m" and "b \<in> set bs"
  shows "m b = Some (block b)"
  using assms(2,3)
proof (induction bs arbitrary: m)
  case (Cons c bs)
  then obtain x m' where x: "ls_getBlock src c = Inr x" and m': "read_blocks src bs = Inr m'" "m = m'(c \<mapsto> x)"
    by (auto split: sum.splits)
  show ?case
  proof (cases "b = c")
    case True
    moreover have "x = block c" using assms(1) x by blast
    ultimately show ?thesis using m' by simp
  next
    case False
    then show ?thesis using Cons m' by simp
  qed
qed simp

lemma set_unique_first [simp]: "set (unique_first xs) = set xs"
  by (simp add: unique_first_def)

lemma act_each_cong: "(\<And>x. x \<in> set xs \<Longrightarrow> f x = g x) \<Longrightarrow> act_each f xs = act_each g xs"
  by (induction xs) simp_all

lemma act_each_append: "act_each f (xs @ ys) d = (Inr u, d') \<longleftrightarrow> (\<exists>v t. act_each f xs d = (Inr v, t) \<and> act_each f ys t = (Inr u, d'))"
  by (induction xs arbitrary: d) (auto simp: act_Inr)

lemma atomic_Inr: "act_atomic m s = (Inr y, u) \<longleftrightarrow> m s = (Inr y, u)"
  by (auto simp: act_atomic_def split: prod.splits sum.splits)

text \<open>With its reads done, a window's transaction is the pass over its blocks.\<close>

lemma window_transaction:
  assumes "\<forall>b x. ls_getBlock src b = Inr x \<longrightarrow> x = block b" and "js_sort log_order ls = logs_between f t chain"
    and "read_blocks src (unique_first (map rl_blockNumber (logs_between f t chain) @ [t])) = Inr m"
  shows "act_then (act_each (record_log e opts m f t) (logs_between f t chain)) (case m t of None \<Rightarrow> act_throw (Type_error ''block'')
        | Some (h, _) \<Rightarrow> act_mod (setCursor (io_network opts) t h)) = one_pass e opts block chain f t"
proof -
  have m: "m b = Some (block b)" if "b \<in> insert t (rl_blockNumber ` set (logs_between f t chain))" for b
    using read_blocks_honest [OF assms(1,3)] that by simp
  have "record_log e opts m f t l = index_log e opts block l" if "l \<in> set (logs_between f t chain)" for l
    using that m by (auto simp: record_log_def index_log_def logs_between_def in_range_def)
  then have "act_each (record_log e opts m f t) (logs_between f t chain) = act_each (index_log e opts block) (logs_between f t chain)"
    by (rule act_each_cong)
  then show ?thesis using m [of t] by (cases "block t") (simp add: one_pass_def)
qed

lemma commit_is_pass:
  assumes "\<forall>b x. ls_getBlock src b = Inr x \<longrightarrow> x = block b" and "js_sort log_order ls = logs_between f t chain"
    and "commit e opts src f t ls d = (Inr u, d')"
  shows "one_pass e opts block chain f t d = (Inr u, d')"
proof -
  obtain m where m: "read_blocks src (unique_first (map rl_blockNumber (logs_between f t chain) @ [t])) = Inr m"
    and tr: "act_then (act_each (record_log e opts m f t) (logs_between f t chain)) (case m t of None \<Rightarrow> act_throw (Type_error ''block'')
        | Some (h, _) \<Rightarrow> act_mod (setCursor (io_network opts) t h)) d = (Inr u, d')"
    using assms(3) by (auto simp: commit_def Let_def assms(2) bind_Inr lift_Inr atomic_Inr)
  from tr show ?thesis unfolding window_transaction [OF assms(1,2) m] .
qed

lemma commit_rolls_back: "commit e opts src f t ls d = (Inl err, d') \<Longrightarrow> d' = d"
  by (auto simp: commit_def Let_def act_bind_def act_lift_def act_atomic_def split: prod.splits sum.splits)

section \<open>Windows in sequence\<close>

text \<open>The cursor plays no part in what a log does, so two windows are one.\<close>

definition recursored :: "(string \<times> string \<Rightarrow> (int \<times> hex) option) \<Rightarrow> (string \<times> string \<Rightarrow> (int \<times> hex) option) \<Rightarrow> index_db \<Rightarrow> index_db \<Rightarrow> bool" where
  "recursored x y L B \<longleftrightarrow> ix_cursor L = x \<and> B = L\<lparr>ix_cursor := y\<rparr>"

lemma project_recursored: "tracks (recursored x y) (project e row)"
proof (rule tracksI)
  fix L B b L'
  assume R: "recursored x y L B" and p: "project e row L = (Inr b, L')"
  have "L\<lparr>ix_cursor := y, ix_events := ix_events L\<rparr> = B" using R by (simp add: recursored_def)
  then show "\<exists>B'. project e row B = (Inr b, B') \<and> recursored x y L' B'"
    using project_elsewhere [OF p, where y = y and fs = "ix_events L"] project_frame [OF p] R by (auto simp: recursored_def)
qed

lemma index_log_recursored: "tracks (recursored x y) (index_log e opts block l)"
  unfolding index_log_def store_event_def
proof (rule tracksI)
  fix L B v L' and r :: event_row
  let ?k = "\<lambda>stored. if stored then act_ret () else act_then (act_mod (\<lambda>d. d\<lparr>ix_events := ix_events d @ [r]\<rparr>)) (act_then (project e r) (act_ret ()))"
  assume R: "recursored x y L B" and run: "act_bind (act_get (\<lambda>d. list_ex (same_event r) (ix_events d))) ?k L = (Inr v, L')"
  have k: "tracks (recursored x y) (?k b)" for b
    by (intro act_tracks project_recursored tracks_mod) (simp add: recursored_def)
  have same: "list_ex (same_event r) (ix_events B) = list_ex (same_event r) (ix_events L)" using R by (simp add: recursored_def)
  from run have "?k (list_ex (same_event r) (ix_events L)) L = (Inr v, L')" by (simp add: bind_Inr get_Inr)
  from tracksD [OF k R this] same show "\<exists>B'. act_bind (act_get (\<lambda>d. list_ex (same_event r) (ix_events d))) ?k B = (Inr v, B') \<and> recursored x y L' B'"
    by (simp add: bind_Inr get_Inr)
qed

lemma logs_elsewhere:
  assumes "act_each (index_log e opts block) ls d = (Inr u, d')"
  shows "ix_cursor d' = ix_cursor d" and "act_each (index_log e opts block) ls (d\<lparr>ix_cursor := y\<rparr>) = (Inr u, d'\<lparr>ix_cursor := y\<rparr>)"
proof -
  have R: "recursored (ix_cursor d) y d (d\<lparr>ix_cursor := y\<rparr>)" by (simp add: recursored_def)
  have "tracks (recursored (ix_cursor d) y) (act_each (index_log e opts block) ls)" by (intro act_tracks index_log_recursored)
  from tracksD [OF this R assms] show "ix_cursor d' = ix_cursor d"
    and "act_each (index_log e opts block) ls (d\<lparr>ix_cursor := y\<rparr>) = (Inr u, d'\<lparr>ix_cursor := y\<rparr>)" by (auto simp: recursored_def)
qed

lemma one_pass_Inr:
  "one_pass e opts block chain f t d = (Inr u, d') \<longleftrightarrow> (\<exists>m. act_each (index_log e opts block) (logs_between f t chain) d = (Inr (), m)
     \<and> d' = m\<lparr>ix_cursor := (ix_cursor d)((io_network opts, CURSOR_STREAM) \<mapsto> (t, lower (fst (block t))))\<rparr>)"
  using logs_elsewhere(1) by (fastforce simp: one_pass_def then_Inr mod_Inr setCursor_def)

lemma passes_compose:
  assumes "distinct (map log_key chain)" and "f \<le> c + 1" and "c \<le> t"
    and "one_pass e opts block chain f c d = (Inr u, d1)"
  shows "one_pass e opts block chain (c + 1) t d1 = (Inr u', d2) \<longleftrightarrow> one_pass e opts block chain f t d = (Inr u', d2)"
proof -
  obtain m where m: "act_each (index_log e opts block) (logs_between f c chain) d = (Inr (), m)"
    and d1: "d1 = m\<lparr>ix_cursor := (ix_cursor d)((io_network opts, CURSOR_STREAM) \<mapsto> (c, lower (fst (block c))))\<rparr>"
    using assms(4) by (auto simp: one_pass_Inr)
  have undone: "d1\<lparr>ix_cursor := ix_cursor d\<rparr> = m" using d1 logs_elsewhere(1) [OF m] by simp
  have later: "(\<exists>m'. act_each (index_log e opts block) (logs_between (c + 1) t chain) d1 = (Inr (), m') \<and> Q (m'\<lparr>ix_cursor := z\<rparr>))
      \<longleftrightarrow> (\<exists>m'. act_each (index_log e opts block) (logs_between (c + 1) t chain) m = (Inr (), m') \<and> Q (m'\<lparr>ix_cursor := z\<rparr>))" for Q z
  proof
    assume "\<exists>m'. act_each (index_log e opts block) (logs_between (c + 1) t chain) d1 = (Inr (), m') \<and> Q (m'\<lparr>ix_cursor := z\<rparr>)"
    then obtain m' where r: "act_each (index_log e opts block) (logs_between (c + 1) t chain) d1 = (Inr (), m')" and "Q (m'\<lparr>ix_cursor := z\<rparr>)" by blast
    then show "\<exists>m'. act_each (index_log e opts block) (logs_between (c + 1) t chain) m = (Inr (), m') \<and> Q (m'\<lparr>ix_cursor := z\<rparr>)"
      using logs_elsewhere(2) [OF r, where y = "ix_cursor d"] unfolding undone by auto
  next
    assume "\<exists>m'. act_each (index_log e opts block) (logs_between (c + 1) t chain) m = (Inr (), m') \<and> Q (m'\<lparr>ix_cursor := z\<rparr>)"
    then obtain m' where r: "act_each (index_log e opts block) (logs_between (c + 1) t chain) m = (Inr (), m')" and "Q (m'\<lparr>ix_cursor := z\<rparr>)" by blast
    then show "\<exists>m'. act_each (index_log e opts block) (logs_between (c + 1) t chain) d1 = (Inr (), m') \<and> Q (m'\<lparr>ix_cursor := z\<rparr>)"
      using logs_elsewhere(2) [OF r, where y = "ix_cursor d1"] d1 by auto
  qed
  have cur: "(ix_cursor d1)((io_network opts, CURSOR_STREAM) \<mapsto> (t, lower (fst (block t))))
      = (ix_cursor d)((io_network opts, CURSOR_STREAM) \<mapsto> (t, lower (fst (block t))))" by (simp add: d1)
  have whole: "act_each (index_log e opts block) (logs_between f t chain) d = (Inr (), m')
      \<longleftrightarrow> act_each (index_log e opts block) (logs_between (c + 1) t chain) m = (Inr (), m')" for m'
    unfolding logs_between_append [OF assms(1-3), symmetric] act_each_append using m by auto
  show ?thesis unfolding one_pass_Inr cur whole by (rule later [where Q = "\<lambda>x. d2 = x"])
qed

section \<open>Steps\<close>

lemma fetch_result:
  "fetch src addrs head f w = (r, w') \<Longrightarrow> 1 \<le> w \<Longrightarrow> 1 \<le> w' \<and> w' \<le> w
     \<and> (\<forall>t ls. r = Inr (t, ls) \<longrightarrow> t = min head (f + w' - 1) \<and> ls_getLogs src addrs f t = Inr ls)"
proof (induction src addrs head f w rule: fetch.induct)
  case (1 src addrs head f w)
  let ?t = "min head (f + w - 1)"
  show ?case
  proof (cases "\<exists>e. ls_getLogs src addrs f ?t = Inl e \<and> w > 1 \<and> isRangeError e")
    case True
    then obtain e where e: "ls_getLogs src addrs f ?t = Inl e" "w > 1" "isRangeError e" by blast
    have half: "1 \<le> w sdiv 2" "w sdiv 2 \<le> w" using e(2) by (simp_all add: sdiv_nonneg)
    have "fetch src addrs head f (w sdiv 2) = (r, w')" using 1(2) e by (simp add: fetch.simps [of src addrs head f w])
    with 1(1) [OF refl e(1)] e half show ?thesis by force
  next
    case False
    with 1(2,3) show ?thesis by (cases "ls_getLogs src addrs f ?t") (auto simp: fetch.simps [of src addrs head f w] Let_def split: if_splits)
  qed
qed

definition indexed :: "index_env \<Rightarrow> indexer_opts \<Rightarrow> (int \<Rightarrow> hex \<times> int) \<Rightarrow> raw_log list \<Rightarrow> index_db \<Rightarrow> index_db \<Rightarrow> bool" where
  "indexed e opts block chain d0 d \<longleftrightarrow> d = d0
     \<or> (\<exists>c. io_startBlock opts \<le> c \<and> cursor opts d = Some c \<and> one_pass e opts block chain (io_startBlock opts) c d0 = (Inr (), d))"

lemma pass_cursor: "one_pass e opts block chain f t d = (Inr u, d') \<Longrightarrow> cursor opts d' = Some t"
  by (auto simp: one_pass_Inr cursor_def)

lemma next_window:
  assumes "distinct (map log_key chain)" and "cursor opts d0 = None" and "indexed e opts block chain d0 d"
    and "first_block opts d \<le> t"
  shows "one_pass e opts block chain (first_block opts d) t d = (Inr u, d') \<longleftrightarrow> one_pass e opts block chain (io_startBlock opts) t d0 = (Inr u, d')"
proof (cases "d = d0")
  case True
  then show ?thesis using assms(2) by (simp add: first_block_def)
next
  case False
  with assms(3) obtain c where c: "io_startBlock opts \<le> c" "cursor opts d = Some c"
    "one_pass e opts block chain (io_startBlock opts) c d0 = (Inr (), d)" by (auto simp: indexed_def)
  have first: "first_block opts d = c + 1" by (simp add: first_block_def c(2))
  show ?thesis unfolding first by (rule passes_compose [OF assms(1) _ _ c(3)]) (use c(1) assms(4) first in simp_all)
qed

lemma indexed_by_pass:
  assumes "distinct (map log_key chain)" and "cursor opts d0 = None" and "indexed e opts block chain d0 d"
    and "first_block opts d \<le> t" and "one_pass e opts block chain (first_block opts d) t d = (Inr u, d')"
  shows "indexed e opts block chain d0 d'"
proof -
  have "io_startBlock opts \<le> first_block opts d" using assms(2,3) by (auto simp: indexed_def first_block_def)
  then show ?thesis using assms(4,5) next_window [OF assms(1-4)] pass_cursor by (fastforce simp: indexed_def)
qed

text \<open>A step either leaves the database alone or commits the next window of the chain.\<close>

lemma step_window:
  assumes "distinct (map log_key chain)" and "honest_source e block chain src" and "1 \<le> in_window s" and "step e opts src s = (r, s')"
  shows "in_db s' = in_db s \<or> (\<exists>t. first_block opts (in_db s) \<le> t
     \<and> one_pass e opts block chain (first_block opts (in_db s)) t (in_db s) = (Inr (), in_db s'))"
    and "1 \<le> in_window s'"
proof -
  let ?f = "first_block opts (in_db s)"
  have both: "(in_db s' = in_db s \<or> (\<exists>t. ?f \<le> t \<and> one_pass e opts block chain ?f t (in_db s) = (Inr (), in_db s'))) \<and> 1 \<le> in_window s'"
  proof (cases "ls_getBlockNumber src")
    case (Inl m)
    then show ?thesis using assms(3,4) by (auto simp: step_def act_defs)
  next
    case head: (Inr head)
    show ?thesis
    proof (cases "?f > head")
      case True
      then show ?thesis using assms(3,4) head by (auto simp: step_def act_defs)
    next
      case False
      obtain res w where fw: "fetch src (registry_addresses e) head ?f (in_window s) = (res, w)" by fastforce
      note w = fetch_result [OF fw assms(3)]
      show ?thesis
      proof (cases res)
        case (Inl err)
        then show ?thesis using assms(4) head False fw w by (auto simp: step_def act_defs)
      next
        case (Inr tl)
        obtain t ls where tl: "tl = (t, ls)" by fastforce
        have t: "t = min head (?f + w - 1)" "ls_getLogs src (registry_addresses e) ?f t = Inr ls" "1 \<le> w"
          using w unfolding Inr tl by blast+
        have le: "?f \<le> t" "t \<le> head" using t(1,3) False by auto
        have "mset ls = mset (filter (in_range ?f t) chain)" using assms(2) head t(2) le(2) by (simp add: honest_source_def)
        note ordered = logs_of_range [OF assms(1) this]
        have blocks: "\<forall>b x. ls_getBlock src b = Inr x \<longrightarrow> x = block b" using assms(2) by (simp add: honest_source_def)
        obtain rc d' where cm: "commit e opts src ?f t ls (in_db s) = (rc, d')" by fastforce
        show ?thesis
        proof (cases rc)
          case (Inl err)
          then have "d' = in_db s" using commit_rolls_back cm by blast
          then show ?thesis using assms(4) head False fw Inr tl cm Inl t(3) by (auto simp: step_def act_defs on_index_def)
        next
          case ok: (Inr u)
          have "one_pass e opts block chain ?f t (in_db s) = (Inr (), d')"
            using commit_is_pass [OF blocks ordered] cm ok by simp
          moreover have "in_db s' = d'" "1 \<le> in_window s'"
            using assms(4) head False fw Inr tl cm ok t(3) w
            by (auto simp: step_def act_defs on_index_def grow_window_def)
          ultimately show ?thesis using le(1) by blast
        qed
      qed
    qed
  qed
  show "in_db s' = in_db s \<or> (\<exists>t. ?f \<le> t \<and> one_pass e opts block chain ?f t (in_db s) = (Inr (), in_db s'))" "1 \<le> in_window s'"
    using both by blast+
qed

lemma step_indexed:
  assumes "distinct (map log_key chain)" and "cursor opts d0 = None" and "honest_source e block chain src" and "1 \<le> in_window s"
    and "indexed e opts block chain d0 (in_db s)"
  shows "indexed e opts block chain d0 (in_db (snd (step e opts src s)))" and "1 \<le> in_window (snd (step e opts src s))"
proof -
  obtain r s' where st: "step e opts src s = (r, s')" by fastforce
  note sw = step_window [OF assms(1,3,4) st]
  show "indexed e opts block chain d0 (in_db (snd (step e opts src s)))"
    using sw(1) assms(5) indexed_by_pass [OF assms(1,2,5)] by (auto simp: st)
  show "1 \<le> in_window (snd (step e opts src s))" using sw(2) by (simp add: st)
qed

section \<open>Every log once\<close>

definition log_id :: "raw_log \<Rightarrow> hex \<times> int" where
  "log_id l = (lower (rl_transactionHash l), rl_logIndex l)"

text \<open>The chain: a log is identified by its place in a block and by its place in a transaction.\<close>

definition chain_ok :: "raw_log list \<Rightarrow> bool" where
  "chain_ok chain \<longleftrightarrow> distinct (map log_key chain) \<and> distinct (map log_id chain)"

definition no_events :: "string \<Rightarrow> index_db \<Rightarrow> bool" where
  "no_events network d \<longleftrightarrow> (\<forall>r \<in> set (ix_events d). se_network r \<noteq> network)"

definition events_of :: "index_env \<Rightarrow> indexer_opts \<Rightarrow> (int \<Rightarrow> hex \<times> int) \<Rightarrow> raw_log list \<Rightarrow> event_row list" where
  "events_of e opts block ls = map (\<lambda>l. event_of e opts (block (rl_blockNumber l)) l) ls"

lemma event_of_sel [simp]:
  "se_network (event_of e opts b l) = io_network opts" "se_txHash (event_of e opts b l) = lower (rl_transactionHash l)"
  "se_logIndex (event_of e opts b l) = rl_logIndex l" "se_blockNumber (event_of e opts b l) = rl_blockNumber l"
  by (simp_all add: event_of_def Let_def split: prod.split)

lemma store_new:
  assumes "\<not> list_ex (same_event r) (ix_events d)"
  shows "store_event e r d = (Inr u, d') \<longleftrightarrow> (\<exists>b. project e r (d\<lparr>ix_events := ix_events d @ [r]\<rparr>) = (Inr b, d'))"
  using assms by (auto simp: store_event_def act_Inr)

lemma stored_once:
  assumes "act_each (index_log e opts block) ls d = (Inr u, d')" and "distinct (map log_id ls)"
    and "\<forall>r \<in> set (ix_events d). se_network r = io_network opts \<longrightarrow> (se_txHash r, se_logIndex r) \<notin> log_id ` set ls"
  shows "ix_events d' = ix_events d @ events_of e opts block ls"
  using assms
proof (induction ls arbitrary: d)
  case Nil
  then show ?case by (simp add: events_of_def ret_Inr)
next
  case (Cons l ls)
  let ?r = "event_of e opts (block (rl_blockNumber l)) l"
  have new: "\<not> list_ex (same_event ?r) (ix_events d)" using Cons.prems(3) by (auto simp: list_ex_iff same_event_def log_id_def)
  obtain v t where first: "index_log e opts block l d = (Inr v, t)" and rest: "act_each (index_log e opts block) ls t = (Inr u, d')"
    using Cons.prems(1) by (auto simp: then_Inr)
  from first obtain b where "project e ?r (d\<lparr>ix_events := ix_events d @ [?r]\<rparr>) = (Inr b, t)"
    unfolding index_log_def store_new [OF new] by blast
  from project_frame(1) [OF this] have t: "ix_events t = ix_events d @ [?r]" by simp
  have "ix_events d' = ix_events t @ events_of e opts block ls"
  proof (rule Cons.IH [OF rest])
    show "distinct (map log_id ls)" using Cons.prems(2) by simp
    show "\<forall>r \<in> set (ix_events t). se_network r = io_network opts \<longrightarrow> (se_txHash r, se_logIndex r) \<notin> log_id ` set ls"
      using Cons.prems(2,3) by (auto simp: t log_id_def)
  qed
  then show ?case by (simp add: t events_of_def)
qed

lemma distinct_between: "distinct (map g chain) \<Longrightarrow> distinct (map g (logs_between f t chain))"
  by (auto simp: logs_between_def distinct_map intro: inj_on_subset)

lemma pass_events:
  assumes "chain_ok chain" and "no_events (io_network opts) d" and "one_pass e opts block chain f t d = (Inr u, d')"
  shows "ix_events d' = ix_events d @ events_of e opts block (logs_between f t chain)"
proof -
  obtain m where m: "act_each (index_log e opts block) (logs_between f t chain) d = (Inr (), m)" and d': "ix_events d' = ix_events m"
    using assms(3) by (auto simp: one_pass_Inr)
  show ?thesis unfolding d'
    by (rule stored_once [OF m]) (use assms(1,2) in \<open>auto simp: chain_ok_def no_events_def intro: distinct_between\<close>)
qed

section \<open>The service\<close>

definition turn_ok :: "index_env \<Rightarrow> (int \<Rightarrow> hex \<times> int) \<Rightarrow> raw_log list \<Rightarrow> index_turn \<Rightarrow> bool" where
  "turn_ok e block chain t \<longleftrightarrow> (case t of Turn src \<Rightarrow> honest_source e block chain src | Restart \<Rightarrow> True)"

lemma run_indexed:
  assumes "distinct (map log_key chain)" and "cursor opts d0 = None" and "1 \<le> io_maxWindow opts" and "list_all (turn_ok e block chain) turns"
    and "indexed e opts block chain d0 (in_db s)" and "1 \<le> in_window s"
  shows "indexed e opts block chain d0 (in_db (indexer_run e opts turns s))"
  using assms(4-6)
proof (induction turns arbitrary: s)
  case Nil
  then show ?case by (simp add: indexer_run_def)
next
  case (Cons t ts)
  have "indexed e opts block chain d0 (in_db (indexer_turn e opts t s)) \<and> 1 \<le> in_window (indexer_turn e opts t s)"
  proof (cases t)
    case (Turn src)
    then have "honest_source e block chain src" using Cons.prems(1) by (simp add: turn_ok_def)
    from step_indexed [OF assms(1,2) this Cons.prems(3,2)] show ?thesis using Turn by simp
  next
    case Restart
    then show ?thesis using Cons.prems(2) assms(3) by (simp add: new_indexer_def)
  qed
  then show ?case using Cons by (simp add: indexer_run_def)
qed

section \<open>Catching up\<close>

text \<open>A provider at head \<open>h\<close> whose reads succeed, ranges of more than \<open>limit\<close> blocks excepted, which it may refuse as too large.\<close>

definition serves :: "index_env \<Rightarrow> int \<Rightarrow> int \<Rightarrow> log_source \<Rightarrow> bool" where
  "serves e h limit src \<longleftrightarrow> ls_getBlockNumber src = Inr h \<and> (\<forall>b. \<exists>x. ls_getBlock src b = Inr x)
     \<and> (\<forall>f t err. ls_getLogs src (registry_addresses e) f t = Inl err \<longrightarrow> limit < t - f + 1 \<and> isRangeError err)"

lemma fetch_serves:
  "serves e h limit src \<Longrightarrow> 1 \<le> limit \<Longrightarrow> 1 \<le> w \<Longrightarrow> f \<le> h \<Longrightarrow> \<exists>tl w'. fetch src (registry_addresses e) h f w = (Inr tl, w')"
proof (induction src "registry_addresses e" h f w rule: fetch.induct)
  case (1 src head f w)
  let ?t = "min head (f + w - 1)"
  show ?case
  proof (cases "ls_getLogs src (registry_addresses e) f ?t")
    case (Inl err)
    then have err: "limit < ?t - f + 1" "isRangeError err" using 1(2) by (auto simp: serves_def)
    then have w: "w > 1" using 1(3) by auto
    then have "1 \<le> w sdiv 2" by (simp add: sdiv_nonneg)
    from 1(1) [OF refl Inl] w err(2) 1(2,3,5) this
    have "\<exists>tl w'. fetch src (registry_addresses e) head f (w sdiv 2) = (Inr tl, w')" by blast
    then show ?thesis using Inl w err(2) by (simp add: fetch.simps [of src "registry_addresses e" head f w])
  next
    case (Inr ls)
    then show ?thesis by (simp add: fetch.simps [of src "registry_addresses e" head f w] Let_def)
  qed
qed

lemma read_blocks_serves: "(\<forall>b. \<exists>x. ls_getBlock src b = Inr x) \<Longrightarrow> \<exists>m. read_blocks src bs = Inr m"
proof (induction bs)
  case (Cons b bs)
  then obtain m x where "read_blocks src bs = Inr m" "ls_getBlock src b = Inr x" by blast
  then show ?case by simp
qed simp

lemma pass_commits:
  assumes "\<forall>b x. ls_getBlock src b = Inr x \<longrightarrow> x = block b" and "\<forall>b. \<exists>x. ls_getBlock src b = Inr x"
    and "js_sort log_order ls = logs_between f t chain" and "one_pass e opts block chain f t d = (Inr u, d')"
  shows "commit e opts src f t ls d = (Inr u, d')"
proof -
  obtain m where m: "read_blocks src (unique_first (map rl_blockNumber (logs_between f t chain) @ [t])) = Inr m"
    using read_blocks_serves [OF assms(2)] by blast
  show ?thesis using assms(4) unfolding window_transaction [OF assms(1,3) m, symmetric]
    by (simp add: commit_def Let_def assms(3) m bind_Inr lift_Inr atomic_Inr)
qed

lemma pass_prefix:
  assumes "distinct (map log_key chain)" and "f \<le> t + 1" and "t \<le> h" and "one_pass e opts block chain f h d = (Inr u, d')"
  shows "\<exists>d1. one_pass e opts block chain f t d = (Inr (), d1)"
  using assms(4) unfolding one_pass_Inr logs_between_append [OF assms(1-3), symmetric] act_each_append by auto

lemma step_advances:
  assumes "distinct (map log_key chain)" and "cursor opts d0 = None" and "honest_source e block chain src" and "serves e h limit src"
    and "1 \<le> limit" and "1 \<le> in_window s" and "indexed e opts block chain d0 (in_db s)" and "first_block opts (in_db s) \<le> h"
    and "one_pass e opts block chain (io_startBlock opts) h d0 = (Inr (), dh)"
  shows "\<exists>t w s'. first_block opts (in_db s) \<le> t \<and> t \<le> h \<and> step e opts src s = (Inr (Some w), s')
     \<and> one_pass e opts block chain (io_startBlock opts) t d0 = (Inr (), in_db s') \<and> 1 \<le> in_window s'"
proof -
  let ?f = "first_block opts (in_db s)"
  have head: "ls_getBlockNumber src = Inr h" using assms(4) by (simp add: serves_def)
  obtain tl w where fw: "fetch src (registry_addresses e) h ?f (in_window s) = (Inr tl, w)"
    using fetch_serves [OF assms(4,5,6,8)] by blast
  obtain t ls where tl: "tl = (t, ls)" by fastforce
  have t: "t = min h (?f + w - 1)" "ls_getLogs src (registry_addresses e) ?f t = Inr ls" "1 \<le> w"
    using fetch_result [OF fw assms(6)] unfolding tl by blast+
  have le: "?f \<le> t" "t \<le> h" using t(1,3) assms(8) by auto
  have "mset ls = mset (filter (in_range ?f t) chain)" using assms(3) head t(2) le(2) by (simp add: honest_source_def)
  note ordered = logs_of_range [OF assms(1) this]
  have blocks: "\<forall>b x. ls_getBlock src b = Inr x \<longrightarrow> x = block b" "\<forall>b. \<exists>x. ls_getBlock src b = Inr x"
    using assms(3,4) by (simp_all add: honest_source_def serves_def)
  have "io_startBlock opts \<le> ?f" using assms(2,7) by (auto simp: indexed_def first_block_def)
  then have "io_startBlock opts \<le> t + 1" using le(1) by simp
  from pass_prefix [OF assms(1) this le(2) assms(9)] obtain d1 where
    d1: "one_pass e opts block chain (io_startBlock opts) t d0 = (Inr (), d1)" by blast
  then have "one_pass e opts block chain ?f t (in_db s) = (Inr (), d1)" using next_window [OF assms(1,2,7) le(1)] by simp
  from pass_commits [OF blocks ordered this] have cm: "commit e opts src ?f t ls (in_db s) = (Inr (), d1)" .
  have "\<exists>s'. step e opts src s = (Inr (Some \<lparr>wr_fromBlock = ?f, wr_toBlock = t, wr_logs = int (length ls)\<rparr>), s')
      \<and> in_db s' = d1 \<and> 1 \<le> in_window s'"
    using head assms(8) fw tl cm t(3) by (simp add: step_def act_defs on_index_def grow_window_def)
  then show ?thesis using le d1 by blast
qed

lemma catchUp_indexes:
  assumes "distinct (map log_key chain)" and "cursor opts d0 = None" and "honest_source e block chain src" and "serves e h limit src"
    and "1 \<le> limit" and "one_pass e opts block chain (io_startBlock opts) h d0 = (Inr (), dh)" and "io_startBlock opts \<le> h"
    and "1 \<le> in_window s" and "indexed e opts block chain d0 (in_db s)" and "first_block opts (in_db s) \<le> h + 1"
    and "nat (h + 1 - first_block opts (in_db s)) < fuel"
  shows "\<exists>n s'. catchUp fuel e opts src windows s = Some (Inr n, s') \<and> in_db s' = dh"
  using assms(8-)
proof (induction fuel arbitrary: windows s)
  case (Suc fuel)
  show ?case
  proof (cases "first_block opts (in_db s) \<le> h")
    case True
    from step_advances [OF assms(1-5) Suc.prems(1,2) True assms(6)] obtain t w s' where
      t: "first_block opts (in_db s) \<le> t" "t \<le> h" and st: "step e opts src s = (Inr (Some w), s')"
      and pass: "one_pass e opts block chain (io_startBlock opts) t d0 = (Inr (), in_db s')" and win: "1 \<le> in_window s'" by blast
    have "io_startBlock opts \<le> first_block opts (in_db s)" using assms(2) Suc.prems(2) by (auto simp: indexed_def first_block_def)
    then have "indexed e opts block chain d0 (in_db s')" using t(1) pass pass_cursor [OF pass] by (auto simp: indexed_def)
    moreover have "first_block opts (in_db s') = t + 1" using pass_cursor [OF pass] by (simp add: first_block_def)
    ultimately have "\<exists>n s''. catchUp fuel e opts src (windows + 1) s' = Some (Inr n, s'') \<and> in_db s'' = dh"
      using Suc.IH [of s' "windows + 1"] win t Suc.prems(4) by simp
    then show ?thesis using st by simp
  next
    case False
    have "ls_getBlockNumber src = Inr h" using assms(4) by (simp add: serves_def)
    then have "step e opts src s = (Inr None, s)" using False by (simp add: step_def act_defs)
    moreover have "in_db s = dh"
    proof -
      obtain c where c: "cursor opts (in_db s) = Some c" "one_pass e opts block chain (io_startBlock opts) c d0 = (Inr (), in_db s)"
        using Suc.prems(2) False assms(2,7) by (auto simp: indexed_def first_block_def)
      then have "c = h" using False Suc.prems(3) by (simp add: first_block_def)
      with c(2) assms(6) show ?thesis by simp
    qed
    ultimately show ?thesis by simp
  qed
qed simp

section \<open>Properties\<close>

text \<open>C22. Windows do not matter. Run the service from a database that holds nothing of the network yet, with any sequence of
  steps against honest providers, each of which may refuse ranges, fail half way or advance, and any restarts. Then the
  database is untouched, or it is exactly what one pass over the chain's logs from the start block to its cursor leaves, in log order and each
  log stored once.\<close>

theorem windows_are_one_pass:
  assumes "chain_ok chain" and "no_events (io_network opts) d0" and "cursor opts d0 = None" and "1 \<le> io_maxWindow opts"
    and "list_all (turn_ok e block chain) turns" and "d = in_db (indexer_run e opts turns (new_indexer opts d0))"
  shows "d = d0 \<or> (\<exists>c. cursor opts d = Some c \<and> io_startBlock opts \<le> c
    \<and> one_pass e opts block chain (io_startBlock opts) c d0 = (Inr (), d)
    \<and> ix_events d = ix_events d0 @ events_of e opts block (logs_between (io_startBlock opts) c chain))"
proof -
  have "distinct (map log_key chain)" using assms(1) by (simp add: chain_ok_def)
  from run_indexed [OF this assms(3-5), of "new_indexer opts d0"] have "indexed e opts block chain d0 d"
    using assms(4,6) by (simp add: new_indexer_def indexed_def)
  then show ?thesis using pass_events [OF assms(1,2)] by (auto simp: indexed_def)
qed

definition sample_env :: index_env where
  "sample_env = \<lparr>xe_contracts = [(''vault'', ''0xAA''), (''feeRouter'', ''0xBB'')],
     xe_decodeEventLog = (\<lambda>name topics data. if name = ''feeRouter'' then Some (Some ''FeeTierSet'',
         Some (JS_object [(''account'', JS_string ''0xC''), (''tier'', JS_number 2)]))
       else if topics = [] then None else Some (Some ''Deposited'', Some (JS_object [(''account'', JS_string ''0xC''), (''payer'', JS_string ''0xD''),
         (''amount'', JS_bigint 5), (''internalAmount'', JS_bigint 50)]))),
     xe_decodeErrorResult = (\<lambda>_. None), xe_hexToString = Some\<rparr>"

definition sample_opts :: indexer_opts where
  "sample_opts = \<lparr>io_network = ''arc'', io_startBlock = 4, io_maxWindow = 16\<rparr>"

definition logs_sample :: "raw_log list" where
  "logs_sample = [\<lparr>rl_address = ''0xaa'', rl_blockNumber = 5, rl_transactionHash = ''0xF1'', rl_logIndex = 0, rl_topics = [''0x01''], rl_data = ''0x''\<rparr>,
     \<lparr>rl_address = ''0xBB'', rl_blockNumber = 5, rl_transactionHash = ''0xF1'', rl_logIndex = 1, rl_topics = [''0x02''], rl_data = ''0x''\<rparr>,
     \<lparr>rl_address = ''0xaa'', rl_blockNumber = 7, rl_transactionHash = ''0xF2'', rl_logIndex = 0, rl_topics = [], rl_data = ''0xEE''\<rparr>]"

definition sample_block :: "int \<Rightarrow> hex \<times> int" where "sample_block b = (''0xB'', b * 2)"

definition provider_sample :: log_source where
  "provider_sample = \<lparr>ls_getBlockNumber = Inr 8, ls_getBlock = (\<lambda>b. Inr (sample_block b)),
     ls_getLogs = (\<lambda>addrs f t. if 2 < t - f + 1 then Inl \<lparr>pv_details = None, pv_message = ''Block range too large''\<rparr>
       else Inr (filter (in_range f t) logs_sample))\<rparr>"

definition empty_index :: index_db where
  "empty_index = \<lparr>ix_events = [], ix_cursor = Map.empty, ix_logs = (\<lambda>_. []), ix_markets = [], ix_accounts = [], ix_positions = [],
     ix_orders = [], ix_fills = [], ix_governance = []\<rparr>"

lemma sample_chain_ok: "chain_ok logs_sample"
  by code_simp

lemma sample_fresh: "no_events (io_network sample_opts) empty_index" "cursor sample_opts empty_index = None"
  by (simp_all add: no_events_def cursor_def empty_index_def)

lemma sample_honest: "honest_source e sample_block logs_sample provider_sample"
  by (auto simp: honest_source_def provider_sample_def split: if_splits)

lemma sample_range_error: "isRangeError \<lparr>pv_details = None, pv_message = ''Block range too large''\<rparr>"
  by code_simp

lemma sample_serves: "serves e 8 2 provider_sample"
  by (auto simp: serves_def provider_sample_def sample_range_error split: if_splits)

theorem windows_are_one_pass_witness:
  "let d = in_db (indexer_run sample_env sample_opts [Turn provider_sample, Restart, Turn provider_sample] (new_indexer sample_opts empty_index)) in
    cursor sample_opts d = Some 7
    \<and> (d = empty_index \<or> (\<exists>c. cursor sample_opts d = Some c \<and> io_startBlock sample_opts \<le> c
      \<and> one_pass sample_env sample_opts sample_block logs_sample (io_startBlock sample_opts) c empty_index = (Inr (), d)
      \<and> ix_events d = ix_events empty_index @ events_of sample_env sample_opts sample_block (logs_between (io_startBlock sample_opts) c logs_sample)))"
  unfolding Let_def
proof (intro conjI windows_are_one_pass [OF sample_chain_ok sample_fresh _ _ refl])
  show "cursor sample_opts (in_db (indexer_run sample_env sample_opts [Turn provider_sample, Restart, Turn provider_sample]
    (new_indexer sample_opts empty_index))) = Some 7" by code_simp
qed (simp_all add: sample_opts_def turn_ok_def sample_honest)

text \<open>C25. Catching up ends. Against an honest provider at head \<open>h\<close> that answers every range of at most \<open>limit\<close> blocks and
  refuses larger ones with a range error, \<open>catchUp\<close> started from a fresh database returns, with fuel of one step a block, and the
  database is that of one pass to the head, whenever the logs can be projected at all.\<close>

theorem catch_up_reaches_the_head:
  assumes "chain_ok chain" and "cursor opts d0 = None" and "1 \<le> io_maxWindow opts" and "honest_source e block chain src"
    and "serves e h limit src" and "1 \<le> limit" and "io_startBlock opts \<le> h" and "nat (h + 1 - io_startBlock opts) < fuel"
    and "one_pass e opts block chain (io_startBlock opts) h d0 = (Inr (), dh)"
  shows "\<exists>n s. catchUp fuel e opts src 0 (new_indexer opts d0) = Some (Inr n, s) \<and> in_db s = dh \<and> cursor opts dh = Some h"
proof -
  have "distinct (map log_key chain)" using assms(1) by (simp add: chain_ok_def)
  from catchUp_indexes [OF this assms(2,4-6,9,7), of "new_indexer opts d0"] assms(2,3,7,8) pass_cursor [OF assms(9)] show ?thesis
    by (simp add: new_indexer_def indexed_def first_block_def)
qed

lemma sample_pass: "fst (one_pass sample_env sample_opts sample_block logs_sample (io_startBlock sample_opts) 8 empty_index) = Inr ()"
  by code_simp

theorem catch_up_reaches_the_head_witness:
  "\<exists>dh. one_pass sample_env sample_opts sample_block logs_sample (io_startBlock sample_opts) 8 empty_index = (Inr (), dh)
    \<and> (\<exists>n s. catchUp 6 sample_env sample_opts provider_sample 0 (new_indexer sample_opts empty_index) = Some (Inr n, s)
         \<and> in_db s = dh \<and> cursor sample_opts dh = Some 8)"
proof (rule exI, rule conjI)
  let ?dh = "snd (one_pass sample_env sample_opts sample_block logs_sample (io_startBlock sample_opts) 8 empty_index)"
  show pass: "one_pass sample_env sample_opts sample_block logs_sample (io_startBlock sample_opts) 8 empty_index = (Inr (), ?dh)"
    using sample_pass by (simp add: prod_eq_iff)
  show "\<exists>n s. catchUp 6 sample_env sample_opts provider_sample 0 (new_indexer sample_opts empty_index) = Some (Inr n, s)
         \<and> in_db s = ?dh \<and> cursor sample_opts ?dh = Some 8"
    by (rule catch_up_reaches_the_head [OF sample_chain_ok sample_fresh(2) _ sample_honest sample_serves _ _ _ pass])
      (simp_all add: sample_opts_def)
qed

end
