(* ===== verification/Rebuild_Replay.thy ===== *)
theory Rebuild_Replay
  imports Index_Windows
begin

text \<open>
  A rebuild: its pages are one pass over the stored events in log order, whatever the batch size, and it arrives
  where live indexing stands. The live database and the one the rebuild replays into are related event by event: the tables
  only events fill agree on the network's rows, settled fills and accounts agree, and an order differs at most by having been
  cancelled already, which the live run then does later on.
\<close>

section \<open>Pages\<close>

definition stored_in_order :: "string \<Rightarrow> index_db \<Rightarrow> event_row list" where
  "stored_in_order network d = js_sort event_order (filter (\<lambda>r. se_network r = network) (ix_events d))"

definition remaining_events :: "string \<Rightarrow> int \<times> int \<Rightarrow> index_db \<Rightarrow> event_row list" where
  "remaining_events network after d = js_sort event_order (filter (\<lambda>r. se_network r = network \<and> log_before after (event_key r)) (ix_events d))"

interpretation stored_order: keyed_comparator event_order event_key
  by unfold_locales (auto simp: event_order_def event_key_def split: if_splits)

lemma log_before_trans: "log_before x y \<Longrightarrow> log_before y z \<Longrightarrow> log_before x z"
  by (auto simp: log_before_def)

lemma event_order_le: "event_order x y \<le> 0 \<longleftrightarrow> event_key x = event_key y \<or> log_before (event_key x) (event_key y)"
  by (auto simp: event_order_def event_key_def log_before_def)

lemma not_before_self [simp]: "\<not> log_before x x"
  by (simp add: log_before_def)

lemma strictly_sorted:
  "sorted_wrt (\<lambda>x y. event_order x y \<le> 0) xs \<Longrightarrow> distinct (map event_key xs)
   \<Longrightarrow> sorted_wrt (\<lambda>x y. log_before (event_key x) (event_key y)) xs"
  by (induction xs) (force simp: event_order_le)+

definition keys_distinct :: "string \<Rightarrow> index_db \<Rightarrow> bool" where
  "keys_distinct network d \<longleftrightarrow> distinct (map event_key (filter (\<lambda>r. se_network r = network) (ix_events d)))"

lemma remaining_distinct:
  "keys_distinct network d \<Longrightarrow> distinct (map event_key (remaining_events network after d))"
proof -
  have same: "filter (\<lambda>r. se_network r = network \<and> log_before after (event_key r)) xs
      = filter (\<lambda>r. log_before after (event_key r)) (filter (\<lambda>r. se_network r = network) xs)" for xs
    by (simp add: conj_commute)
  assume "keys_distinct network d"
  then have "distinct (map event_key (filter (\<lambda>r. log_before after (event_key r)) (filter (\<lambda>r. se_network r = network) (ix_events d))))"
    unfolding keys_distinct_def by (rule distinct_map_filter)
  then show ?thesis unfolding same [symmetric] by (simp add: remaining_events_def distinct_map)
qed

lemma remaining_sorted:
  "keys_distinct network d \<Longrightarrow> sorted_wrt (\<lambda>x y. log_before (event_key x) (event_key y)) (remaining_events network after d)"
  by (rule strictly_sorted [OF _ remaining_distinct]) (simp_all add: remaining_events_def stored_order.js_sort_sorted)

lemma set_remaining: "x \<in> set (remaining_events network after d) \<longleftrightarrow> x \<in> set (ix_events d) \<and> se_network x = network \<and> log_before after (event_key x)"
  by (auto simp: remaining_events_def)

text \<open>After a page, what remains is what the page left.\<close>

lemma remaining_after_page:
  assumes "keys_distinct network d" and "remaining_events network after d = ps @ qs" and "ps \<noteq> []"
  shows "remaining_events network (event_key (last ps)) d = qs"
proof (rule stored_order.sorted_unique)
  have sorted: "sorted_wrt (\<lambda>x y. log_before (event_key x) (event_key y)) (ps @ qs)" using remaining_sorted [OF assms(1), of after] assms(2) by simp
  have dist: "distinct (map event_key (ps @ qs))" using remaining_distinct [OF assms(1), of after] assms(2) by simp
  then have dqs: "distinct qs" by (auto simp: distinct_map)
  have sides: "set (remaining_events network (event_key (last ps)) d) = set qs"
  proof (rule set_eqI)
    fix x
    have lastps: "last ps \<in> set ps" using assms(3) by simp
    have low: "\<not> log_before (event_key (last ps)) (event_key y)" if "y \<in> set ps" for y
    proof -
      obtain us where us: "ps = us @ [last ps]" using assms(3) by (metis append_butlast_last_id)
      have "y = last ps \<or> log_before (event_key y) (event_key (last ps))" using that sorted us
        by (metis in_set_conv_decomp sorted_wrt_append set_append Un_iff empty_iff empty_set list.set_intros(1) set_ConsD)
      then show ?thesis by (auto simp: log_before_def)
    qed
    have high: "log_before (event_key (last ps)) (event_key y)" if "y \<in> set qs" for y
      using sorted lastps that by (auto simp: sorted_wrt_append)
    have past: "log_before after (event_key (last ps))"
      using lastps set_remaining [of "last ps" network after d] assms(2) by simp
    have all: "x \<in> set ps \<or> x \<in> set qs \<longleftrightarrow> x \<in> set (ix_events d) \<and> se_network x = network \<and> log_before after (event_key x)"
      using set_remaining [of x network after d] assms(2) by simp
    show "x \<in> set (remaining_events network (event_key (last ps)) d) \<longleftrightarrow> x \<in> set qs"
      unfolding set_remaining using all low [of x] high [of x] log_before_trans [OF past] by blast
  qed
  have "distinct (remaining_events network (event_key (last ps)) d)"
    using remaining_distinct [OF assms(1)] by (auto simp: distinct_map)
  with sides dqs show "mset (remaining_events network (event_key (last ps)) d) = mset qs"
    by (simp add: set_eq_iff_mset_eq_distinct)
  show "sorted_wrt (\<lambda>x y. event_order x y \<le> 0) (remaining_events network (event_key (last ps)) d)"
    by (simp add: remaining_events_def stored_order.js_sort_sorted)
  show "sorted_wrt (\<lambda>x y. event_order x y \<le> 0) qs"
    using sorted by (auto simp: sorted_wrt_append event_order_le elim: sorted_wrt_mono_rel [rotated])
  show "inj_on event_key (set (remaining_events network (event_key (last ps)) d))"
    using remaining_distinct [OF assms(1)] by (simp add: distinct_map)
qed

lemma project_page_append:
  "project_page e (xs @ ys) a d = (case project_page e xs a d of (Inl err, t) \<Rightarrow> (Inl err, t) | (Inr b, t) \<Rightarrow> project_page e ys b t)"
  by (induction xs arbitrary: a d) (auto simp: act_defs split: prod.splits sum.splits)

lemma project_page_frame:
  "project_page e rs a d = (Inr b, d') \<Longrightarrow> ix_events d' = ix_events d \<and> ix_cursor d' = ix_cursor d"
proof (induction rs arbitrary: a d)
  case Nil
  then show ?case by (simp add: ret_Inr)
next
  case (Cons r rs)
  from Cons.prems obtain x t where x: "project e r d = (Inr x, t)" and rest: "project_page e rs (if x then a + 1 else a) t = (Inr b, d')"
    by (auto simp: bind_Inr)
  from Cons.IH [OF rest] project_frame [OF x] show ?case by simp
qed

lemma rebuild_loop_pass:
  assumes "1 \<le> n" and "keys_distinct network d" and "length (remaining_events network after d) < fuel"
  shows "rebuild_loop fuel e network n after a d = Some (project_page e (remaining_events network after d) a d)"
  using assms(2,3)
proof (induction fuel arbitrary: after a d)
  case (Suc fuel)
  let ?all = "remaining_events network after d"
  have page: "events_page network after n d = take n ?all" by (simp add: events_page_def remaining_events_def)
  obtain r t where r: "project_page e (take n ?all) a d = (r, t)" by fastforce
  have split: "project_page e ?all a d = (case (r, t) of (Inl err, t) \<Rightarrow> (Inl err, t) | (Inr b, t) \<Rightarrow> project_page e (drop n ?all) b t)"
    using project_page_append [of e "take n ?all" "drop n ?all" a d] r by simp
  show ?case
  proof (cases r)
    case (Inl err)
    then show ?thesis using r split by (simp add: page Let_def)
  next
    case (Inr b)
    show ?thesis
    proof (cases "length (take n ?all) < n")
      case True
      then have "length ?all < n" by (simp add: min_def split: if_splits)
      then show ?thesis using r split Inr by (simp add: page Let_def)
    next
      case False
      then have ne: "take n ?all \<noteq> []" using assms(1) by auto
      have events: "ix_events t = ix_events d" using project_page_frame r Inr by blast
      then have kd: "keys_distinct network t" using Suc.prems(1) by (simp add: keys_distinct_def)
      have rem: "remaining_events network (event_key (last (take n ?all))) t = drop n ?all"
        using remaining_after_page [OF Suc.prems(1) _ ne, of after "drop n ?all"] events by (simp add: remaining_events_def)
      have "length (remaining_events network (event_key (last (take n ?all))) t) < fuel"
        unfolding rem using Suc.prems(2) assms(1) False by simp
      from Suc.IH [OF kd this, of b] show ?thesis using r split Inr False ne by (simp add: page Let_def rem)
    qed
  qed
qed simp

lemma fold_delete_other [simp]:
  "ix_events (fold (delete_from network) tbls d) = ix_events d" "ix_cursor (fold (delete_from network) tbls d) = ix_cursor d"
  "ix_fills (fold (delete_from network) tbls d) = ix_fills d" "ix_orders (fold (delete_from network) tbls d) = ix_orders d"
  "ix_accounts (fold (delete_from network) tbls d) = ix_accounts d" "ix_markets (fold (delete_from network) tbls d) = ix_markets d"
  by (induction tbls arbitrary: d) (simp_all add: delete_from_def)

lemma reset_sel [simp]:
  "ix_events (resetProjections network d) = ix_events d" "ix_cursor (resetProjections network d) = ix_cursor d"
  "ix_fills (resetProjections network d) = map (\<lambda>f. if fj_network f = network then reset_fill f else f) (ix_fills d)"
  "ix_orders (resetProjections network d) = map (\<lambda>r. if ow_network r = network then reset_order r else r) (ix_orders d)"
  "ix_accounts (resetProjections network d) = map (\<lambda>r. if aj_network r = network then reset_account r else r) (ix_accounts d)"
  "ix_markets (resetProjections network d) = map (\<lambda>m. if mj_network m = network then reset_market m else m) (ix_markets d)"
  by (simp_all add: resetProjections_def Let_def)

lemma remaining_from_start:
  assumes "\<forall>r \<in> set (ix_events d). se_network r = network \<longrightarrow> 0 \<le> se_blockNumber r"
  shows "remaining_events network (-1, 0) d = stored_in_order network d"
proof -
  have "filter (\<lambda>r. se_network r = network \<and> log_before (-1, 0) (event_key r)) (ix_events d) = filter (\<lambda>r. se_network r = network) (ix_events d)"
    by (rule filter_cong [OF refl]) (use assms in \<open>auto simp: log_before_def event_key_def\<close>)
  then show ?thesis by (simp add: remaining_events_def stored_in_order_def)
qed

section \<open>The live database and the replayed one\<close>

definition rows_of :: "string \<Rightarrow> string \<Rightarrow> index_db \<Rightarrow> log_row list" where
  "rows_of network tbl d = filter (\<lambda>r. lr_network r = network) (ix_logs d tbl)"

definition positions_of :: "string \<Rightarrow> index_db \<Rightarrow> position_proj list" where
  "positions_of network d = filter (\<lambda>p. pj_network p = network) (ix_positions d)"

definition governance_of :: "string \<Rightarrow> index_db \<Rightarrow> governance_op list" where
  "governance_of network d = filter (\<lambda>g. go_network g = network) (ix_governance d)"

text \<open>The fee tier and lowest valid nonce of an account, those of a new one when it has no row.\<close>

definition account_of :: "string \<Rightarrow> address \<Rightarrow> index_db \<Rightarrow> int \<times> int" where
  "account_of network a d = (case find (\<lambda>r. aj_network r = network \<and> aj_address r = a) (ix_accounts d) of
     None \<Rightarrow> (0, 0) | Some r \<Rightarrow> (aj_feeTier r, aj_minValidNonce r))"

definition settled_fills :: "string \<Rightarrow> index_db \<Rightarrow> fill_proj set" where
  "settled_fills network d = {f \<in> set (ix_fills d). fj_network f = network \<and> fj_status f = SETTLED}"

definition fill_proj_key :: "fill_proj \<Rightarrow> string \<times> hex" where
  "fill_proj_key f = (fj_network f, fj_fillId f)"

definition shadows :: "hex set \<Rightarrow> order_row \<Rightarrow> order_row \<Rightarrow> bool" where
  "shadows K l b \<longleftrightarrow> b = l \<or> ow_orderHash l \<in> K \<and> b = l\<lparr>ow_status := CANCELLED\<rparr>"

definition same_derived :: "string \<Rightarrow> index_db \<Rightarrow> index_db \<Rightarrow> bool" where
  "same_derived network L B \<longleftrightarrow> (\<forall>tbl \<in> set LOG_TABLES. rows_of network tbl L = rows_of network tbl B)
     \<and> positions_of network L = positions_of network B \<and> governance_of network L = governance_of network B"

definition same_accounts :: "string \<Rightarrow> index_db \<Rightarrow> index_db \<Rightarrow> bool" where
  "same_accounts network L B \<longleftrightarrow> (\<forall>a. (has_account network a L \<longrightarrow> has_account network a B) \<and> account_of network a L = account_of network a B)"

definition markets_within :: "string \<Rightarrow> int set \<Rightarrow> index_db \<Rightarrow> index_db \<Rightarrow> bool" where
  "markets_within network G L B \<longleftrightarrow> (\<forall>i. has_market network i L \<or> i \<in> G \<longrightarrow> has_market network i B)"

definition same_fills :: "string \<Rightarrow> index_db \<Rightarrow> index_db \<Rightarrow> bool" where
  "same_fills network L B \<longleftrightarrow> settled_fills network L = settled_fills network B
     \<and> distinct (map fill_proj_key (ix_fills L)) \<and> distinct (map fill_proj_key (ix_fills B))
     \<and> (\<forall>f \<in> set (ix_fills B). fj_network f = network \<longrightarrow> fj_txHash f \<noteq> None \<longrightarrow> fj_status f = SETTLED)"

definition replays :: "string \<Rightarrow> hex set \<Rightarrow> int set \<Rightarrow> index_db \<Rightarrow> index_db \<Rightarrow> bool" where
  "replays network K G L B \<longleftrightarrow> same_derived network L B \<and> same_accounts network L B \<and> markets_within network G L B
     \<and> same_fills network L B \<and> list_all2 (shadows K) (ix_orders L) (ix_orders B)"

subsection \<open>Statements on rows of the network\<close>

lemma find_append_iff: "find P (xs @ ys) = (case find P xs of None \<Rightarrow> find P ys | Some x \<Rightarrow> Some x)"
  by (induction xs) auto

lemma found: "find P xs = Some x \<Longrightarrow> x \<in> set xs \<and> P x"
  by (induction xs) (auto split: if_splits)

lemma find_filter: "(\<And>x. P x \<Longrightarrow> Q x) \<Longrightarrow> find P xs = find P (filter Q xs)"
  by (induction xs) auto

lemma account_of_add: "account_of network a (add_account network b d) = account_of network a d"
  by (auto simp: account_of_def add_account_def find_append_iff has_account_def find_None_iff dest!: found split: option.splits)

lemma has_account_add: "has_account network a (add_account network b d) \<longleftrightarrow> has_account network a d \<or> a = b"
  by (auto simp: has_account_def add_account_def)

lemma list_ex_filter: "(\<And>x. P x \<Longrightarrow> Q x) \<Longrightarrow> list_ex P xs = list_ex P (filter Q xs)"
  by (induction xs) auto

lemma find_map_update:
  "(\<And>r. P (f r) = P r) \<Longrightarrow> find P (map (\<lambda>r. if Q r then f r else r) xs) = map_option (\<lambda>r. if Q r then f r else r) (find P xs)"
  by (induction xs) auto

lemma find_has_account: "has_account network a d \<Longrightarrow> \<exists>r. find (\<lambda>r. aj_network r = network \<and> aj_address r = a) (ix_accounts d) = Some r
    \<and> aj_network r = network \<and> aj_address r = a"
  by (cases "find (\<lambda>r. aj_network r = network \<and> aj_address r = a) (ix_accounts d)")
    (auto simp: has_account_def find_None_iff dest: found)

lemma account_of_update:
  assumes "\<And>r. aj_network (f r) = aj_network r \<and> aj_address (f r) = aj_address r" and "has_account network a d"
  shows "account_of network b (update_account network a f d) = (if b = a then (let r = f \<lparr>aj_network = network, aj_address = a,
    aj_feeTier = fst (account_of network a d), aj_minValidNonce = snd (account_of network a d)\<rparr> in (aj_feeTier r, aj_minValidNonce r))
    else account_of network b d)"
proof -
  have map: "find (\<lambda>r. aj_network r = network \<and> aj_address r = b) (ix_accounts (update_account network a f d))
    = map_option (\<lambda>r. if aj_network r = network \<and> aj_address r = a then f r else r) (find (\<lambda>r. aj_network r = network \<and> aj_address r = b) (ix_accounts d))"
    by (simp add: update_account_def find_map_update assms(1))
  show ?thesis
  proof (cases "b = a")
    case True
    obtain r where r: "find (\<lambda>r. aj_network r = network \<and> aj_address r = a) (ix_accounts d) = Some r" "aj_network r = network" "aj_address r = a"
      using find_has_account [OF assms(2)] by blast
    have row: "\<lparr>aj_network = network, aj_address = a, aj_feeTier = fst (account_of network a d), aj_minValidNonce = snd (account_of network a d)\<rparr> = r"
      using r by (cases r) (simp add: account_of_def)
    have "account_of network a (update_account network a f d) = (aj_feeTier (f r), aj_minValidNonce (f r))"
      using map True r by (simp add: account_of_def)
    then show ?thesis by (simp add: True row Let_def)
  next
    case False
    then show ?thesis using map by (auto simp: account_of_def dest!: found split: option.splits)
  qed
qed

lemma bex_map_update: "(\<And>r. P (f r) = P r) \<Longrightarrow> (\<exists>x \<in> set (map (\<lambda>r. if Q r then f r else r) xs). P x) = (\<exists>x \<in> set xs. P x)"
  by (induction xs) auto

lemma account_list: "ix_accounts (d\<lparr>ix_accounts := xs\<rparr>) = xs"
  by simp

lemma has_account_update:
  "(\<And>r. aj_network (f r) = aj_network r \<and> aj_address (f r) = aj_address r) \<Longrightarrow> has_account network b (update_account network a f d) = has_account network b d"
  unfolding has_account_def update_account_def account_list by (rule bex_map_update) simp

lemma has_market_map: "(\<And>m. same_market_key (g m) m) \<Longrightarrow> has_market network i (d\<lparr>ix_markets := map g (ix_markets d)\<rparr>) = has_market network i d"
  by (auto simp: has_market_def same_market_key_def)

lemma list_ex_rows: "lr_network row = network \<Longrightarrow> list_ex (same_log_row tbl row) (ix_logs d tbl) = list_ex (same_log_row tbl row) (rows_of network tbl d)"
  unfolding rows_of_def by (rule list_ex_filter) (simp add: same_log_row_def)

lemma rows_of_add: "lr_network row = network \<Longrightarrow> rows_of network tbl' (add_log tbl row d) =
    (if tbl' = tbl \<and> \<not> list_ex (same_log_row tbl row) (rows_of network tbl d) then rows_of network tbl d @ [row] else rows_of network tbl' d)"
  unfolding add_log_def list_ex_rows by (simp add: rows_of_def)

lemma find_position: "pj_network p = network \<Longrightarrow> find (same_position p) (ix_positions d) = find (same_position p) (positions_of network d)"
  unfolding positions_of_def by (rule find_filter) (auto simp: same_position_def)

lemma filter_map_update:
  "(\<And>r. S r \<Longrightarrow> P (g r) = P r) \<Longrightarrow> filter P (map (\<lambda>r. if S r then g r else r) xs) = map (\<lambda>r. if S r then g r else r) (filter P xs)"
  by (induction xs) auto

lemma put_position_Inr:
  "put_position p d = (Inr b, d') \<longleftrightarrow> (case find (same_position p) (ix_positions d) of
      None \<Rightarrow> has_market (pj_network p) (pj_marketId p) d \<and> has_account (pj_network p) (pj_trader p) d \<and> b
        \<and> d' = d\<lparr>ix_positions := ix_positions d @ [p]\<rparr>
    | Some r \<Rightarrow> (if log_before (pj_log r) (pj_log p) then b \<and> d' = d\<lparr>ix_positions := map (\<lambda>r. if same_position p r
        then p\<lparr>pj_realizedPnlCum := pj_realizedPnlCum r + pj_realizedPnlCum p\<rparr> else r) (ix_positions d)\<rparr> else \<not> b \<and> d' = d))"
  by (auto simp: put_position_def act_Inr split: option.splits if_splits)

definition with_fill :: "fill_proj \<Rightarrow> index_db \<Rightarrow> index_db" where
  "with_fill f d = d\<lparr>ix_fills := (if list_ex (same_fill f) (ix_fills d) then map (\<lambda>r. if same_fill f r then f else r) (ix_fills d)
     else ix_fills d @ [f])\<rparr>"

definition fill_taken :: "fill_proj \<Rightarrow> index_db \<Rightarrow> bool" where
  "fill_taken f d \<longleftrightarrow> (\<exists>r \<in> set (ix_fills d). \<not> same_fill f r \<and> fj_network r = fj_network f \<and> fj_txHash r \<noteq> None \<and> fj_logIndex r \<noteq> None
     \<and> fj_txHash r = fj_txHash f \<and> fj_logIndex r = fj_logIndex f)"

lemma put_fill_Inr:
  "put_fill f d = (Inr u, d') \<longleftrightarrow> \<not> fill_taken f d \<and> has_market (fj_network f) (fj_marketId f) d \<and> d' = with_fill f d"
  by (auto simp: put_fill_def act_Inr fill_taken_def with_fill_def list_ex_iff split: if_splits)

lemma put_market_known: "has_market network i d \<Longrightarrow> put_market network i symbol o' d
    = (Inr (), update_market network i (\<lambda>m. m\<lparr>mj_oracleId := o'\<rparr>) d)"
  by (simp add: put_market_def act_defs)

lemma put_market_keeps: "put_market network i symbol o' d = (Inr u, d') \<Longrightarrow> \<exists>ms. d' = d\<lparr>ix_markets := ms\<rparr>"
  by (auto simp: put_market_def act_Inr update_market_def split: if_splits)

lemma has_market_update: "(\<And>m. same_market_key (f m) m) \<Longrightarrow> has_market n j (update_market network i f d) = has_market n j d"
  unfolding update_market_def by (rule has_market_map) (simp add: same_market_key_def)

lemma put_market_has:
  assumes "put_market network i symbol o' d = (Inr u, d')"
  shows "has_market n j d' \<longleftrightarrow> has_market n j d \<or> n = network \<and> j = i"
proof (cases "has_market network i d")
  case True
  then have "d' = update_market network i (\<lambda>m. m\<lparr>mj_oracleId := o'\<rparr>) d" using assms by (simp add: put_market_known)
  then have "has_market n j d' = has_market n j d" by (simp add: has_market_update same_market_key_def)
  then show ?thesis using True by auto
next
  case False
  then show ?thesis using assms by (auto simp: put_market_def act_Inr has_market_def split: if_splits)
qed

lemma insertRow_Inr:
  "insertRow tbl ev cols d = (Inr u, d') \<longleftrightarrow> cells_error cols = None
     \<and> (tbl = ''FundingUpdate'' \<longrightarrow> (case market_cell cols of None \<Rightarrow> False | Some i \<Rightarrow> has_market (se_network ev) i d))
     \<and> d' = add_log tbl \<lparr>lr_network = se_network ev, lr_blockNumber = se_blockNumber ev,
           lr_txHash = se_txHash ev, lr_logIndex = se_logIndex ev, lr_cols = cols\<rparr> d"
  by (auto simp: insertRow_def act_Inr split: option.splits if_splits)

lemma settled_with:
  "fj_network f = network \<Longrightarrow> fj_status f = SETTLED \<Longrightarrow>
   settled_fills network (with_fill f d) = insert f {r \<in> settled_fills network d. \<not> same_fill f r}"
  by (auto simp: settled_fills_def with_fill_def list_ex_iff image_iff)

lemma keys_with: "distinct (map fill_proj_key (ix_fills d)) \<Longrightarrow> distinct (map fill_proj_key (ix_fills (with_fill f d)))"
proof -
  have "map fill_proj_key (map (\<lambda>r. if same_fill f r then f else r) xs) = map fill_proj_key xs" for xs
    by (induction xs) (auto simp: fill_proj_key_def same_fill_def)
  note same = this
  assume dist: "distinct (map fill_proj_key (ix_fills d))"
  show ?thesis
  proof (cases "list_ex (same_fill f) (ix_fills d)")
    case True
    then have "map fill_proj_key (ix_fills (with_fill f d)) = map fill_proj_key (ix_fills d)" by (simp add: with_fill_def same del: map_map)
    then show ?thesis using dist by simp
  next
    case False
    then have "fill_proj_key f \<notin> fill_proj_key ` set (ix_fills d)" by (auto simp: list_ex_iff same_fill_def fill_proj_key_def)
    then show ?thesis using False dist by (simp add: with_fill_def)
  qed
qed

lemma settled_for_sum:
  assumes "distinct (map fill_proj_key (ix_fills d))"
  shows "settled_for network h (ix_fills d) = sum fj_size {f \<in> settled_fills network d. fj_makerOrderHash f = h \<or> fj_takerOrderHash f = h}"
proof -
  have "distinct (ix_fills d)" using assms by (simp add: distinct_map)
  then have "settled_for network h (ix_fills d) = sum fj_size (set (filter (\<lambda>f. fj_network f = network \<and> fj_status f = SETTLED
     \<and> (fj_makerOrderHash f = h \<or> fj_takerOrderHash f = h)) (ix_fills d)))"
    unfolding settled_for_def by (intro sum_list_distinct_conv_sum_set) simp
  also have "set (filter (\<lambda>f. fj_network f = network \<and> fj_status f = SETTLED
     \<and> (fj_makerOrderHash f = h \<or> fj_takerOrderHash f = h)) (ix_fills d)) = {f \<in> settled_fills network d. fj_makerOrderHash f = h \<or> fj_takerOrderHash f = h}"
    by (auto simp: settled_fills_def)
  finally show ?thesis .
qed

lemma refreshed_cancelled: "refreshed n (l\<lparr>ow_status := CANCELLED\<rparr>) = (refreshed n l)\<lparr>ow_status := CANCELLED\<rparr>"
  by (simp add: refreshed_def)

lemma refreshed_key [simp]: "ow_orderHash (refreshed n l) = ow_orderHash l" "ow_network (refreshed n l) = ow_network l"
  by (simp_all add: refreshed_def)

lemma shadows_refreshed: "shadows K l b \<Longrightarrow> shadows K (refreshed n l) (refreshed n b)"
  unfolding shadows_def by (elim disjE conjE) (simp_all only: refreshed_cancelled refreshed_key simp_thms)

lemma shadows_key: "shadows K l b \<Longrightarrow> ow_network b = ow_network l \<and> ow_orderHash b = ow_orderHash l"
  unfolding shadows_def by (elim disjE conjE) simp_all

lemma shadows_cancel:
  assumes "shadows K l b" and "\<And>r st. p (r\<lparr>ow_status := st\<rparr>) = p r"
  shows "shadows K (if p l \<and> ow_status l \<in> set TRADEABLE then l\<lparr>ow_status := CANCELLED\<rparr> else l)
    (if p b \<and> ow_status b \<in> set TRADEABLE then b\<lparr>ow_status := CANCELLED\<rparr> else b)"
proof (cases "b = l")
  case False
  then have "ow_orderHash l \<in> K" and b: "b = l\<lparr>ow_status := CANCELLED\<rparr>" using assms(1) by (simp_all add: shadows_def)
  moreover have "ow_status b \<notin> set TRADEABLE" unfolding b by (simp add: TRADEABLE_def)
  ultimately show ?thesis by (simp add: shadows_def)
qed (simp add: shadows_def)

lemma list_all2_map_both: "list_all2 P xs ys \<Longrightarrow> (\<And>x y. P x y \<Longrightarrow> P (f x) (g y)) \<Longrightarrow> list_all2 P (map f xs) (map g ys)"
  by (induction rule: list_all2_induct) auto

subsection \<open>Every statement keeps the two related\<close>

lemmas table_views = rows_of_def positions_of_def governance_of_def account_of_def has_account_def has_market_def settled_fills_def

lemma same_derived_cong:
  "\<lbrakk>ix_logs L' = ix_logs L; ix_positions L' = ix_positions L; ix_governance L' = ix_governance L;
    ix_logs B' = ix_logs B; ix_positions B' = ix_positions B; ix_governance B' = ix_governance B\<rbrakk>
   \<Longrightarrow> same_derived network L' B' = same_derived network L B"
  by (simp add: same_derived_def table_views)

lemma same_accounts_cong:
  "ix_accounts L' = ix_accounts L \<Longrightarrow> ix_accounts B' = ix_accounts B \<Longrightarrow> same_accounts network L' B' = same_accounts network L B"
  by (simp add: same_accounts_def table_views)

lemma markets_within_cong:
  "(\<And>i. has_market network i L' = has_market network i L) \<Longrightarrow> (\<And>i. has_market network i B' = has_market network i B)
   \<Longrightarrow> markets_within network G L' B' = markets_within network G L B"
  by (simp add: markets_within_def)

lemma same_fills_cong:
  "ix_fills L' = ix_fills L \<Longrightarrow> ix_fills B' = ix_fills B \<Longrightarrow> same_fills network L' B' = same_fills network L B"
  by (simp add: same_fills_def table_views)

lemma has_market_cong: "ix_markets d' = ix_markets d \<Longrightarrow> has_market n i d' = has_market n i d"
  by (simp add: has_market_def)

lemmas replays_congs = same_derived_cong same_accounts_cong markets_within_cong same_fills_cong has_market_cong

text \<open>A statement on one table only.\<close>

lemma replays_tables:
  assumes "replays network K G L B"
  shows "ix_logs L' = ix_logs L \<Longrightarrow> ix_positions L' = ix_positions L \<Longrightarrow> ix_governance L' = ix_governance L \<Longrightarrow>
      ix_logs B' = ix_logs B \<Longrightarrow> ix_positions B' = ix_positions B \<Longrightarrow> ix_governance B' = ix_governance B \<Longrightarrow> same_derived network L' B'"
    and "ix_accounts L' = ix_accounts L \<Longrightarrow> ix_accounts B' = ix_accounts B \<Longrightarrow> same_accounts network L' B'"
    and "(\<And>i. has_market network i L' = has_market network i L) \<Longrightarrow> (\<And>i. has_market network i B' = has_market network i B)
      \<Longrightarrow> markets_within network G L' B'"
    and "ix_fills L' = ix_fills L \<Longrightarrow> ix_fills B' = ix_fills B \<Longrightarrow> same_fills network L' B'"
    and "ix_orders L' = ix_orders L \<Longrightarrow> ix_orders B' = ix_orders B \<Longrightarrow> list_all2 (shadows K) (ix_orders L') (ix_orders B')"
  using assms same_derived_cong [of L' L B' B] same_accounts_cong [of L' L B' B] markets_within_cong [of network L' L B' B]
    same_fills_cong [of L' L B' B] unfolding replays_def by simp_all

lemma replaysI:
  "same_derived network L B \<Longrightarrow> same_accounts network L B \<Longrightarrow> markets_within network G L B \<Longrightarrow> same_fills network L B
   \<Longrightarrow> list_all2 (shadows K) (ix_orders L) (ix_orders B) \<Longrightarrow> replays network K G L B"
  by (simp add: replays_def)

lemma add_log_sel [simp]: "ix_markets (add_log t r d) = ix_markets d" "ix_accounts (add_log t r d) = ix_accounts d"
  "ix_positions (add_log t r d) = ix_positions d" "ix_orders (add_log t r d) = ix_orders d" "ix_fills (add_log t r d) = ix_fills d"
  "ix_governance (add_log t r d) = ix_governance d"
  by (simp_all add: add_log_def)

lemma add_account_sel [simp]: "ix_markets (add_account n a d) = ix_markets d" "ix_logs (add_account n a d) = ix_logs d"
  "ix_positions (add_account n a d) = ix_positions d" "ix_orders (add_account n a d) = ix_orders d" "ix_fills (add_account n a d) = ix_fills d"
  "ix_governance (add_account n a d) = ix_governance d"
  by (simp_all add: add_account_def)

lemma replays_log:
  assumes "replays network K G L B" and "lr_network row = network"
  shows "replays network K G (add_log tbl row L) (add_log tbl row B)"
proof (rule replaysI)
  have "same_derived network L B" using assms(1) by (simp add: replays_def)
  then have rows: "rows_of network t L = rows_of network t B" if "t \<in> set LOG_TABLES" for t using that by (simp add: same_derived_def)
  have "rows_of network t (add_log tbl row L) = rows_of network t (add_log tbl row B)" if "t \<in> set LOG_TABLES" for t
    unfolding rows_of_add [OF assms(2)] using rows [OF that] by auto
  then show "same_derived network (add_log tbl row L) (add_log tbl row B)"
    using assms(1) by (simp add: replays_def same_derived_def positions_of_def governance_of_def)
qed (rule replays_tables [OF assms(1)]; (rule has_market_cong)?; simp)+

lemma replays_account:
  assumes "replays network K G L B"
  shows "replays network K G (add_account network a L) (add_account network a B)"
proof (rule replaysI)
  show "same_accounts network (add_account network a L) (add_account network a B)"
    using assms by (simp add: replays_def same_accounts_def account_of_add has_account_add)
qed (rule replays_tables [OF assms(1)]; (rule has_market_cong)?; simp)+

lemma replays_account_update:
  assumes "replays network K G L B" and "has_account network a L" and "\<And>r. aj_network (f r) = aj_network r \<and> aj_address (f r) = aj_address r"
  shows "replays network K G (update_account network a f L) (update_account network a f B)"
proof (rule replaysI)
  have "has_account network a B" using assms(1,2) by (simp add: replays_def same_accounts_def)
  then show "same_accounts network (update_account network a f L) (update_account network a f B)"
    using assms by (simp add: replays_def same_accounts_def account_of_update has_account_update)
qed (rule replays_tables [OF assms(1)]; (rule has_market_cong)?; simp add: update_account_def)+

lemma replays_markets:
  assumes "replays network K G L B" and "\<And>m. same_market_key (g m) m" and "\<And>m. same_market_key (h m) m"
  shows "replays network K G (L\<lparr>ix_markets := map g (ix_markets L)\<rparr>) (B\<lparr>ix_markets := map h (ix_markets B)\<rparr>)"
  by (rule replaysI; rule replays_tables [OF assms(1)]; simp add: has_market_map assms(2,3))

lemma position_list: "ix_positions (d\<lparr>ix_positions := xs\<rparr>) = xs"
  by simp

lemma order_list: "ix_orders (d\<lparr>ix_orders := xs\<rparr>) = xs"
  by simp

lemma replays_position:
  assumes "pj_network p = network"
  shows "tracks (replays network K G) (put_position p)"
proof (rule tracksI)
  fix L B b L'
  assume R: "replays network K G L B" and run: "put_position p L = (Inr b, L')"
  have parts: "positions_of network L = positions_of network B" "\<And>i. has_market network i L \<Longrightarrow> has_market network i B"
    "\<And>a. has_account network a L \<Longrightarrow> has_account network a B"
    using R by (auto simp: replays_def same_derived_def markets_within_def same_accounts_def)
  have found: "find (same_position p) (ix_positions B) = find (same_position p) (ix_positions L)"
    by (simp only: find_position [OF assms] parts(1))
  let ?up = "\<lambda>r. p\<lparr>pj_realizedPnlCum := pj_realizedPnlCum r + pj_realizedPnlCum p\<rparr>"
  have moved: "positions_of network (d\<lparr>ix_positions := map (\<lambda>r. if same_position p r then ?up r else r) (ix_positions d)\<rparr>)
      = map (\<lambda>r. if same_position p r then ?up r else r) (positions_of network d)" for d
    unfolding positions_of_def position_list by (rule filter_map_update) (simp add: same_position_def assms)
  have moves: "replays network K G (L\<lparr>ix_positions := ps\<rparr>) (B\<lparr>ix_positions := qs\<rparr>)"
    if "positions_of network (L\<lparr>ix_positions := ps\<rparr>) = positions_of network (B\<lparr>ix_positions := qs\<rparr>)" for ps qs
  proof (rule replaysI)
    show "same_derived network (L\<lparr>ix_positions := ps\<rparr>) (B\<lparr>ix_positions := qs\<rparr>)"
      using R that by (simp add: replays_def same_derived_def rows_of_def governance_of_def)
  qed (rule replays_tables [OF R]; (rule has_market_cong)?; simp)+
  show "\<exists>B'. put_position p B = (Inr b, B') \<and> replays network K G L' B'"
  proof (cases "find (same_position p) (ix_positions L)")
    case None
    then have "b" "L' = L\<lparr>ix_positions := ix_positions L @ [p]\<rparr>" "has_market network (pj_marketId p) L" "has_account network (pj_trader p) L"
      using run by (simp_all add: put_position_Inr assms)
    moreover have "replays network K G (L\<lparr>ix_positions := ix_positions L @ [p]\<rparr>) (B\<lparr>ix_positions := ix_positions B @ [p]\<rparr>)"
      by (rule moves) (use parts(1) in \<open>simp add: positions_of_def\<close>)
    ultimately show ?thesis using None found parts(2,3) by (simp add: put_position_Inr assms)
  next
    case (Some r)
    show ?thesis
    proof (cases "log_before (pj_log r) (pj_log p)")
      case True
      have "replays network K G (L\<lparr>ix_positions := map (\<lambda>r. if same_position p r then ?up r else r) (ix_positions L)\<rparr>)
          (B\<lparr>ix_positions := map (\<lambda>r. if same_position p r then ?up r else r) (ix_positions B)\<rparr>)"
        by (rule moves) (simp only: moved parts(1))
      then show ?thesis using run Some True found by (simp add: put_position_Inr)
    next
      case False
      then show ?thesis using run Some found R by (simp add: put_position_Inr)
    qed
  qed
qed

lemma replays_fill:
  assumes "fj_network f = network" and "fj_status f = SETTLED"
  shows "tracks (replays network K G) (put_fill f)"
proof (rule tracksI)
  fix L B u L'
  assume R: "replays network K G L B" and "put_fill f L = (Inr u, L')"
  then have free: "\<not> fill_taken f L" and linked: "has_market network (fj_marketId f) L" and L': "L' = with_fill f L"
    by (simp_all add: put_fill_Inr assms(1))
  have F: "same_fills network L B" and M: "has_market network (fj_marketId f) B"
    using R linked by (auto simp: replays_def markets_within_def)
  have "r \<in> set (ix_fills L)" if "r \<in> set (ix_fills B)" "fj_network r = network" "fj_txHash r \<noteq> None" for r
  proof -
    have "r \<in> settled_fills network B" using F that by (simp add: same_fills_def settled_fills_def)
    then have "r \<in> settled_fills network L" using F by (simp add: same_fills_def)
    then show ?thesis by (simp add: settled_fills_def)
  qed
  then have "\<not> fill_taken f B" using free assms(1) by (auto simp: fill_taken_def)
  then have run: "put_fill f B = (Inr u, with_fill f B)" using M by (simp add: put_fill_Inr assms(1))
  have "replays network K G (with_fill f L) (with_fill f B)"
  proof (rule replaysI)
    have "fj_status r = SETTLED" if "r \<in> set (ix_fills (with_fill f B))" "fj_network r = network" "fj_txHash r \<noteq> None" for r
      using that F assms(2) by (auto simp: with_fill_def same_fills_def split: if_splits)
    then show "same_fills network (with_fill f L) (with_fill f B)"
      using F by (simp add: same_fills_def settled_with [OF assms] keys_with)
  qed (rule replays_tables [OF R]; (rule has_market_cong)?; simp add: with_fill_def)+
  then show "\<exists>B'. put_fill f B = (Inr u, B') \<and> replays network K G L' B'" using run L' by blast
qed

lemma replays_refresh:
  assumes "replays network K G L B"
  shows "replays network K G (refreshOrders network hs L) (refreshOrders network hs B)"
proof (rule replaysI)
  have same: "settled_for network h (ix_fills B) = settled_for network h (ix_fills L)" for h
    using assms by (simp add: replays_def same_fills_def settled_for_sum)
  have R: "list_all2 (shadows K) (ix_orders L) (ix_orders B)" using assms by (simp add: replays_def)
  show "list_all2 (shadows K) (ix_orders (refreshOrders network hs L)) (ix_orders (refreshOrders network hs B))"
    unfolding refreshOrders_def order_list same
  proof (rule list_all2_map_both [OF R])
    fix l b
    assume lb: "shadows K l b"
    have both: "shadows K (if c then refreshed n l else l) (if c then refreshed n b else b)" for c n
      using lb by (cases c) (simp_all only: if_True if_False shadows_refreshed)
    show "shadows K (if ow_network l = network \<and> ow_orderHash l \<in> set hs then refreshed (settled_for network (ow_orderHash l) (ix_fills L)) l else l)
      (if ow_network b = network \<and> ow_orderHash b \<in> set hs then refreshed (settled_for network (ow_orderHash b) (ix_fills L)) b else b)"
      unfolding conjunct1 [OF shadows_key [OF lb]] conjunct2 [OF shadows_key [OF lb]] by (rule both)
  qed
qed (rule replays_tables [OF assms]; (rule has_market_cong)?; simp add: refreshOrders_def)+

lemma select_map_update: "(\<And>r. Q r \<Longrightarrow> \<not> P r \<and> \<not> P (u r)) \<Longrightarrow> {f \<in> set (map (\<lambda>r. if Q r then u r else r) xs). P f} = {f \<in> set xs. P f}"
  by (induction xs) auto

lemma fill_list: "ix_fills (d\<lparr>ix_fills := xs\<rparr>) = xs"
  by simp

lemma replays_reject:
  assumes "replays network K G L B"
  shows "replays network K G (reject_fills network i why L) (reject_fills network i why B)"
proof (rule replaysI)
  have settled: "settled_fills network (reject_fills network i why d) = settled_fills network d" for d
    unfolding settled_fills_def reject_fills_def fill_list by (rule select_map_update) simp
  have keys: "map fill_proj_key (ix_fills (reject_fills network i why d)) = map fill_proj_key (ix_fills d)" for d
    by (simp add: reject_fills_def fill_proj_key_def)
  have F: "same_fills network L B" using assms by (simp add: replays_def)
  have "fj_status f = SETTLED" if "f \<in> set (ix_fills (reject_fills network i why B))" "fj_network f = network" "fj_txHash f \<noteq> None" for f
  proof (rule ccontr)
    assume not: "fj_status f \<noteq> SETTLED"
    let ?g = "\<lambda>r. if fj_network r = network \<and> fj_fillId r = i \<and> fj_status r \<noteq> SETTLED
        then r\<lparr>fj_status := REJECTED, fj_rejectReason := Some why\<rparr> else r"
    have "f \<in> ?g ` set (ix_fills B)" using that(1) unfolding reject_fills_def fill_list set_map .
    then obtain r where r: "r \<in> set (ix_fills B)" and f: "f = (if fj_network r = network \<and> fj_fillId r = i \<and> fj_status r \<noteq> SETTLED
        then r\<lparr>fj_status := REJECTED, fj_rejectReason := Some why\<rparr> else r)"
      by fast
    have "fj_network r = network" "fj_txHash r \<noteq> None" using that(2,3) f by (simp_all split: if_splits)
    with r F have "fj_status r = SETTLED" by (simp add: same_fills_def)
    then show False using f not by simp
  qed
  then show "same_fills network (reject_fills network i why L) (reject_fills network i why B)"
    using F by (simp add: same_fills_def settled keys)
qed (rule replays_tables [OF assms]; (rule has_market_cong)?; simp add: reject_fills_def)+

lemma replays_cancel:
  assumes "replays network K G L B" and "\<And>r st. p (r\<lparr>ow_status := st\<rparr>) = p r"
  shows "replays network K G (cancel_orders p L) (cancel_orders p B)"
proof (rule replaysI)
  have R: "list_all2 (shadows K) (ix_orders L) (ix_orders B)" using assms(1) by (simp add: replays_def)
  show "list_all2 (shadows K) (ix_orders (cancel_orders p L)) (ix_orders (cancel_orders p B))"
    unfolding cancel_orders_def order_list by (rule list_all2_map_both [OF R shadows_cancel [OF _ assms(2)]])
qed (rule replays_tables [OF assms(1)]; (rule has_market_cong)?; simp add: cancel_orders_def)+

lemma replays_governance:
  assumes "replays network K G L B"
    and "governance_of network (L\<lparr>ix_governance := gs\<rparr>) = governance_of network (B\<lparr>ix_governance := hs\<rparr>)"
  shows "replays network K G (L\<lparr>ix_governance := gs\<rparr>) (B\<lparr>ix_governance := hs\<rparr>)"
proof (rule replaysI)
  show "same_derived network (L\<lparr>ix_governance := gs\<rparr>) (B\<lparr>ix_governance := hs\<rparr>)"
    using assms by (simp add: replays_def same_derived_def rows_of_def positions_of_def)
qed (rule replays_tables [OF assms(1)]; (rule has_market_cong)?; simp)+

lemma replays_market:
  assumes "i \<in> G"
  shows "tracks (replays network K G) (put_market network i symbol o')"
proof (rule tracksI)
  fix L B u L'
  assume R: "replays network K G L B" and run: "put_market network i symbol o' L = (Inr u, L')"
  let ?B = "update_market network i (\<lambda>m. m\<lparr>mj_oracleId := o'\<rparr>) B"
  have M: "markets_within network G L B" using R by (simp add: replays_def)
  then have known: "has_market network i B" using assms by (simp add: markets_within_def)
  obtain ms where L': "L' = L\<lparr>ix_markets := ms\<rparr>" using put_market_keeps [OF run] by blast
  have ids: "has_market network j ?B = has_market network j B" for j by (rule has_market_update) (simp add: same_market_key_def)
  have "replays network K G L' ?B"
  proof (rule replaysI)
    show "markets_within network G L' ?B"
      using M assms by (auto simp: markets_within_def put_market_has [OF run] ids)
  qed (rule replays_tables [OF R]; simp add: L' update_market_def)+
  then show "\<exists>B'. put_market network i symbol o' B = (Inr u, B') \<and> replays network K G L' B'"
    using put_market_known [OF known] by simp
qed

lemma governance_updated:
  "(\<And>r. same_operation r (w r)) \<Longrightarrow> governance_of network (update_governance network i w d)
   = map (\<lambda>r. if go_network r = network \<and> go_operationId r = i then w r else r) (governance_of network d)"
  by (simp add: governance_of_def update_governance_def same_operation_def filter_map_update)

lemma operation_put:
  assumes "go_network g = network"
  shows "governance_of network (put_operation first g d) = (if list_ex (same_operation g) (governance_of network d)
    then map (\<lambda>r. if same_operation g r then reschedule first g r else r) (governance_of network d) else governance_of network d @ [g])"
proof -
  have known: "list_ex (same_operation g) (ix_governance d) = list_ex (same_operation g) (governance_of network d)"
    unfolding governance_of_def by (rule list_ex_filter) (simp add: same_operation_def assms)
  have moved: "filter (\<lambda>r. go_network r = network) (map (\<lambda>r. if same_operation g r then reschedule first g r else r) (ix_governance d))
      = map (\<lambda>r. if same_operation g r then reschedule first g r else r) (governance_of network d)"
    unfolding governance_of_def by (rule filter_map_update) (simp add: same_operation_def reschedule_def)
  show ?thesis
  proof (cases "list_ex (same_operation g) (ix_governance d)")
    case True
    then show ?thesis using moved known by (simp add: put_operation_def) (simp add: governance_of_def)
  next
    case False
    then show ?thesis using known assms by (simp add: put_operation_def) (simp add: governance_of_def)
  qed
qed

lemma governance_change:
  assumes "replays network K G L B" and "L' = L\<lparr>ix_governance := gs\<rparr>" and "B' = B\<lparr>ix_governance := hs\<rparr>"
    and "governance_of network L' = governance_of network B'"
  shows "replays network K G L' B'"
  using replays_governance [OF assms(1)] assms(2-4) by simp

lemma replays_same_governance: "replays network K G L B \<Longrightarrow> governance_of network L = governance_of network B"
  by (simp add: replays_def same_derived_def)

lemma put_operation_form: "\<exists>gs. put_operation first g d = d\<lparr>ix_governance := gs\<rparr>"
  by (auto simp: put_operation_def)

interpretation replay: replay_relation "replays network K G" network "\<lambda>i. i \<in> G" for network K G
proof (unfold_locales, goal_cases)
  case (1 ev tbl cols)
  show ?case
  proof (rule tracksI)
    fix L B u L'
    assume R: "replays network K G L B" and run: "insertRow tbl ev cols L = (Inr u, L')"
    have "has_market network i L \<Longrightarrow> has_market network i B" for i using R by (simp add: replays_def markets_within_def)
    then show "\<exists>B'. insertRow tbl ev cols B = (Inr u, B') \<and> replays network K G L' B'"
      using run 1 replays_log [OF R] by (auto simp: insertRow_Inr split: option.splits)
  qed
next
  case (2 L B a)
  then show ?case by (rule replays_account)
next
  case (3 a L f B)
  then show ?case by (intro replays_account_update)
next
  case (4 i symbol oracleId)
  then show ?case by (rule replays_market)
next
  case (5 g L B)
  then show ?case by (intro replays_markets)
next
  case (6 L B i)
  then show ?case unfolding refresh_interest_def update_market_def by (rule replays_markets) (simp_all add: same_market_key_def)
next
  case (7 ps)
  then show ?case by (rule replays_position)
next
  case (8 fl)
  then show ?case by (rule replays_fill)
next
  case (9 L B hs)
  then show ?case by (rule replays_refresh)
next
  case (10 L B fillId why)
  then show ?case by (rule replays_reject)
next
  case (11 p L B)
  then show ?case by (intro replays_cancel)
next
  case (12 w L B opId)
  then show ?case
    by (intro governance_change [OF 12(2) update_governance_def update_governance_def])
      (simp add: governance_updated replays_same_governance)
next
  case (13 op L B first)
  obtain gs hs where forms: "put_operation first op L = L\<lparr>ix_governance := gs\<rparr>" "put_operation first op B = B\<lparr>ix_governance := hs\<rparr>"
    using put_operation_form by metis
  show ?case
    by (rule governance_change [OF 13(2) forms]) (simp only: operation_put [OF 13(1)] replays_same_governance [OF 13(2)])
qed

section \<open>What a live run keeps\<close>

text \<open>Markets and accounts stay, fill keys stay distinct, and an order changes in its filled size and status only: it stays
  cancelled once it is, and the projections never expire one.\<close>

definition order_terms :: "order_row \<Rightarrow> order_row" where
  "order_terms r = r\<lparr>ow_filledSize := 0, ow_status := OPEN\<rparr>"

definition evolves :: "string \<Rightarrow> order_row \<Rightarrow> order_row \<Rightarrow> bool" where
  "evolves network l r \<longleftrightarrow> order_terms r = order_terms l \<and> (ow_network l \<noteq> network \<longrightarrow> r = l)
     \<and> (ow_status l = CANCELLED \<longrightarrow> ow_status r = CANCELLED) \<and> (ow_status r = EXPIRED \<longleftrightarrow> ow_status l = EXPIRED)"

definition grown_from :: "string \<Rightarrow> index_db \<Rightarrow> index_db \<Rightarrow> bool" where
  "grown_from network d0 d \<longleftrightarrow> (\<forall>i. has_market network i d0 \<longrightarrow> has_market network i d)
     \<and> (\<forall>a. has_account network a d0 \<longrightarrow> has_account network a d)
     \<and> distinct (map fill_proj_key (ix_fills d)) \<and> list_all2 (evolves network) (ix_orders d0) (ix_orders d)"

definition live_from :: "string \<Rightarrow> index_db \<Rightarrow> index_db \<Rightarrow> index_db \<Rightarrow> bool" where
  "live_from network d0 L B \<longleftrightarrow> B = L \<and> grown_from network d0 L"

lemma order_terms_key: "order_terms r = order_terms l \<Longrightarrow> ow_network r = ow_network l \<and> ow_orderHash r = ow_orderHash l"
  by (cases l, cases r) (simp add: order_terms_def)

lemma evolves_key: "evolves network l r \<Longrightarrow> ow_network r = ow_network l \<and> ow_orderHash r = ow_orderHash l"
  by (rule order_terms_key) (simp add: evolves_def)

lemma order_terms_update: "order_terms (r\<lparr>ow_filledSize := n, ow_status := st\<rparr>) = order_terms r"
  by (simp add: order_terms_def)

lemma evolves_step:
  assumes "evolves network l r" and "ow_network r = network" and "ow_status r = CANCELLED \<longrightarrow> st = CANCELLED" and "st = EXPIRED \<longleftrightarrow> ow_status r = EXPIRED"
  shows "evolves network l (r\<lparr>ow_filledSize := n, ow_status := st\<rparr>)"
proof -
  have "ow_network l = network" using evolves_key [OF assms(1)] assms(2) by simp
  then show ?thesis using assms(1,3,4) order_terms_update [where n = n and st = st and r = r] by (auto simp: evolves_def)
qed

lemma evolves_refreshed: "evolves network l r \<Longrightarrow> ow_network r = network \<Longrightarrow> evolves network l (refreshed n r)"
  unfolding refreshed_def by (rule evolves_step) auto

lemma list_all2_map_right: "list_all2 P xs ys \<Longrightarrow> (\<And>x y. P x y \<Longrightarrow> P x (f y)) \<Longrightarrow> list_all2 P xs (map f ys)"
  by (induction rule: list_all2_induct) auto

lemma grown_cong:
  "grown_from network d0 L \<Longrightarrow> (\<And>i. has_market network i L \<Longrightarrow> has_market network i L') \<Longrightarrow> (\<And>a. has_account network a L \<Longrightarrow> has_account network a L')
   \<Longrightarrow> map fill_proj_key (ix_fills L') = map fill_proj_key (ix_fills L) \<Longrightarrow> ix_orders L' = ix_orders L \<Longrightarrow> grown_from network d0 L'"
  unfolding grown_from_def by metis

lemma live_from_tracks:
  assumes "\<And>L x L'. grown_from network d0 L \<Longrightarrow> m L = (Inr x, L') \<Longrightarrow> grown_from network d0 L'"
  shows "tracks (live_from network d0) m"
  by (rule tracksI) (use assms in \<open>auto simp: live_from_def\<close>)

lemma grown_market_map: "(\<And>m. same_market_key (g m) m) \<Longrightarrow> grown_from network d0 L \<Longrightarrow> grown_from network d0 (L\<lparr>ix_markets := map g (ix_markets L)\<rparr>)"
  by (erule grown_cong) (simp_all add: has_market_map has_account_def)

lemma grown_orders:
  assumes "grown_from network d0 L" and "\<And>l r. evolves network l r \<Longrightarrow> evolves network l (f r)"
  shows "grown_from network d0 (L\<lparr>ix_orders := map f (ix_orders L)\<rparr>)"
proof -
  have "list_all2 (evolves network) (ix_orders d0) (map f (ix_orders L))"
    by (rule list_all2_map_right) (use assms in \<open>simp_all add: grown_from_def\<close>)
  then show ?thesis using assms(1) by (simp add: grown_from_def has_market_def has_account_def)
qed

lemma grown_other: "grown_from network d0 L \<Longrightarrow> grown_from network d0 (add_log tbl row L)"
  "grown_from network d0 L \<Longrightarrow> grown_from network d0 (L\<lparr>ix_positions := ps\<rparr>)"
  "grown_from network d0 L \<Longrightarrow> grown_from network d0 (L\<lparr>ix_governance := gs\<rparr>)"
  by (simp_all add: grown_from_def has_market_def has_account_def)

lemma grown_account: "grown_from network d0 L \<Longrightarrow> grown_from network d0 (add_account network a L)"
  by (erule grown_cong) (simp add: has_market_def, simp add: has_account_add, simp, simp)

lemma grown_account_update:
  assumes "\<And>r. aj_network (f r) = aj_network r \<and> aj_address (f r) = aj_address r" and "grown_from network d0 L"
  shows "grown_from network d0 (update_account network a f L)"
  by (rule grown_cong [OF assms(2)])
    (simp add: has_market_def update_account_def, simp add: has_account_update assms(1), simp add: update_account_def, simp add: update_account_def)

lemma grown_reject: "grown_from network d0 L \<Longrightarrow> grown_from network d0 (reject_fills network i why L)"
  by (erule grown_cong) (simp_all add: reject_fills_def has_market_def has_account_def fill_proj_key_def)

interpretation live: replay_relation "live_from network d0" network "\<lambda>_. True" for network d0
proof (unfold_locales, goal_cases)
  case (1 ev tbl cols)
  show ?case by (rule live_from_tracks) (simp add: insertRow_Inr grown_other)
next
  case (2 L B a)
  then show ?case by (simp add: live_from_def grown_account)
next
  case (3 a L f B)
  then show ?case by (simp add: live_from_def grown_account_update)
next
  case (4 i symbol oracleId)
  show ?case
  proof (rule live_from_tracks)
    fix L x L'
    assume g: "grown_from network d0 L" and run: "put_market network i symbol oracleId L = (Inr x, L')"
    obtain ms where L': "L' = L\<lparr>ix_markets := ms\<rparr>" using put_market_keeps [OF run] by blast
    show "grown_from network d0 L'"
      by (rule grown_cong [OF g]) (simp_all add: put_market_has [OF run], simp_all add: L' has_account_def)
  qed
next
  case (5 g L B)
  then show ?case by (simp add: live_from_def grown_market_map)
next
  case (6 L B i)
  have "grown_from network d0 (refresh_interest network i L)"
    unfolding refresh_interest_def update_market_def by (rule grown_market_map) (use 6 in \<open>simp_all add: live_from_def same_market_key_def\<close>)
  then show ?case using 6 by (simp add: live_from_def)
next
  case (7 ps)
  show ?case by (rule live_from_tracks) (auto simp: put_position_Inr grown_other split: option.splits if_splits)
next
  case (8 fl)
  show ?case
    by (rule live_from_tracks)
      (auto simp: put_fill_Inr grown_from_def keys_with, simp_all add: with_fill_def has_market_def has_account_def)
next
  case (9 L B hs)
  have "grown_from network d0 (refreshOrders network hs L)"
    unfolding refreshOrders_def by (rule grown_orders) (use 9 in \<open>auto simp: live_from_def evolves_refreshed\<close>)
  then show ?case using 9 by (simp add: live_from_def)
next
  case (10 L B fillId why)
  then show ?case by (simp add: live_from_def grown_reject)
next
  case (11 p L B)
  have "evolves network l (if p r \<and> ow_status r \<in> set TRADEABLE then r\<lparr>ow_status := CANCELLED\<rparr> else r)" if "evolves network l r" for l r
  proof (cases "p r \<and> ow_status r \<in> set TRADEABLE")
    case True
    then have "evolves network l (r\<lparr>ow_filledSize := ow_filledSize r, ow_status := CANCELLED\<rparr>)"
      using 11(2) by (intro evolves_step [OF that]) (auto simp: TRADEABLE_def)
    then show ?thesis using True by simp
  qed (simp only: if_False that)
  then have "grown_from network d0 (cancel_orders p L)"
    unfolding cancel_orders_def by (intro grown_orders) (use 11 in \<open>simp_all add: live_from_def\<close>)
  then show ?case using 11(3) by (simp add: live_from_def)
next
  case (12 w L B opId)
  then show ?case by (simp add: live_from_def update_governance_def grown_other)
next
  case (13 op L B first)
  then show ?case by (simp add: live_from_def put_operation_def grown_other)
qed

section \<open>Runs over stored rows\<close>

definition listing :: "index_env \<Rightarrow> event_row \<Rightarrow> int \<Rightarrow> bool" where
  "listing e r i \<longleftrightarrow> lists_market (nameOf e (se_contract r)) (stored_event.truncate r) i"

context replay_relation begin

lemma tracks_project_page:
  "(\<And>r. r \<in> set rs \<Longrightarrow> se_network r = network) \<Longrightarrow> (\<And>r i. r \<in> set rs \<Longrightarrow> listing e r i \<Longrightarrow> listable i) \<Longrightarrow> tracks R (project_page e rs a)"
proof (induction rs arbitrary: a)
  case Nil
  then show ?case by (simp add: tracks_ret)
next
  case (Cons r rs)
  have "se_network (stored_event.truncate r) = network" using Cons.prems(1) by (simp add: stored_event.truncate_def)
  then have "tracks R (project e r)"
    unfolding project_def by (rule tracks_applyEvent) (rule Cons.prems(2) [of r], simp_all add: listing_def)
  moreover have "tracks R (project_page e rs c)" for c by (rule Cons.IH) (auto intro: Cons.prems)
  ultimately show ?case by (simp add: tracks_bind)
qed

end

lemma page_grows:
  assumes "project_page e rs a d = (Inr b, d')" and "\<And>r. r \<in> set rs \<Longrightarrow> se_network r = network" and "distinct (map fill_proj_key (ix_fills d))"
  shows "grown_from network d d'"
proof -
  have "list_all2 (evolves network) (ix_orders d) (ix_orders d)" by (rule list.rel_refl) (simp add: evolves_def)
  then have "live_from network d d d" using assms(3) by (simp add: live_from_def grown_from_def)
  from tracksD [OF live.tracks_project_page this assms(1)] assms(2) show ?thesis by (auto simp: live_from_def)
qed

lemma page_elsewhere:
  "project_page e rs a d = (Inr b, d') \<Longrightarrow> project_page e rs a (d\<lparr>ix_cursor := y, ix_events := fs\<rparr>) = (Inr b, d'\<lparr>ix_cursor := y, ix_events := fs\<rparr>)"
proof (induction rs arbitrary: a d)
  case Nil
  then show ?case by (auto simp: ret_Inr)
next
  case (Cons r rs)
  from Cons.prems obtain x t where x: "project e r d = (Inr x, t)" and rest: "project_page e rs (if x then a + 1 else a) t = (Inr b, d')"
    by (auto simp: bind_Inr)
  from Cons.IH [OF rest] project_elsewhere [OF x] show ?case by (simp add: bind_Inr)
qed

text \<open>The live run, stored events left out, is the run over the rows it stores.\<close>

lemma live_run_is_page:
  assumes "act_each (index_log e opts block) ls d = (Inr u, d')" and "distinct (map log_id ls)"
    and "\<forall>r \<in> set (ix_events d). se_network r = io_network opts \<longrightarrow> (se_txHash r, se_logIndex r) \<notin> log_id ` set ls"
  shows "\<exists>b. project_page e (events_of e opts block ls) a d = (Inr b, d'\<lparr>ix_events := ix_events d\<rparr>)"
  using assms
proof (induction ls arbitrary: d a)
  case Nil
  then show ?case by (auto simp: events_of_def ret_Inr)
next
  case (Cons l ls)
  let ?r = "event_of e opts (block (rl_blockNumber l)) l"
  have new: "\<not> list_ex (same_event ?r) (ix_events d)" using Cons.prems(3) by (auto simp: list_ex_iff same_event_def log_id_def)
  obtain v t where first: "index_log e opts block l d = (Inr v, t)" and rest: "act_each (index_log e opts block) ls t = (Inr u, d')"
    using Cons.prems(1) by (auto simp: then_Inr)
  from first obtain b where p: "project e ?r (d\<lparr>ix_events := ix_events d @ [?r]\<rparr>) = (Inr b, t)"
    unfolding index_log_def store_new [OF new] by blast
  have t: "ix_events t = ix_events d @ [?r]" "ix_cursor t = ix_cursor d" using project_frame [OF p] by simp_all
  have here: "project e ?r d = (Inr b, t\<lparr>ix_events := ix_events d\<rparr>)"
    using project_elsewhere [OF p, where y = "ix_cursor d" and fs = "ix_events d"] t(2) by simp
  have dist: "distinct (map log_id ls)" using Cons.prems(2) by simp
  have fresh: "\<forall>r \<in> set (ix_events t). se_network r = io_network opts \<longrightarrow> (se_txHash r, se_logIndex r) \<notin> log_id ` set ls"
    using Cons.prems(2,3) by (auto simp: t log_id_def)
  obtain c where c: "project_page e (events_of e opts block ls) (if b then a + 1 else a) t = (Inr c, d'\<lparr>ix_events := ix_events t\<rparr>)"
    using Cons.IH [OF rest dist fresh] by blast
  have cur: "ix_cursor d' = ix_cursor t" using logs_elsewhere(1) [OF rest] .
  have "project_page e (events_of e opts block ls) (if b then a + 1 else a) (t\<lparr>ix_events := ix_events d\<rparr>) = (Inr c, d'\<lparr>ix_events := ix_events d\<rparr>)"
    using page_elsewhere [OF c, where y = "ix_cursor t" and fs = "ix_events d"] cur by simp
  then show ?case using here by (simp add: events_of_def bind_Inr)
qed

lemma listing_lists:
  assumes "project e r d = (Inr b, d')" and "listing e r i"
  shows "has_market (se_network r) i d'"
proof -
  obtain c where c: "nameOf e (se_contract r) = Some c" "c @ ''.'' @ se_eventName (stored_event.truncate r) = ''riskParams.MarketListed''"
    "as_int (n_arg (se_args (stored_event.truncate r)) ''marketId'') = Inr i" using assms(2) by (auto simp: listing_def lists_market_def)
  have "map_of HANDLERS ''riskParams.MarketListed'' = Some market_listed" by (simp add: HANDLERS_def)
  then have "handler_of (nameOf e (se_contract r)) (stored_event.truncate r) = Some market_listed" by (simp only: handler_of_def c option.case)
  then have "market_listed e (stored_event.truncate r) d = (Inr (), d')" using assms(1) by (simp add: project_def applyEvent_def act_Inr)
  then obtain symbol o' where "put_market (se_network (stored_event.truncate r)) i symbol o' d = (Inr (), d')"
    by (auto simp: market_listed_def Let_def act_Inr c(3))
  from put_market_has [OF this] show ?thesis by (simp add: stored_event.truncate_def)
qed

lemma listed_stays:
  assumes "project_page e rs a d = (Inr b, d')" and "\<And>r. r \<in> set rs \<Longrightarrow> se_network r = network" and "distinct (map fill_proj_key (ix_fills d))"
    and "r \<in> set rs" and "listing e r i"
  shows "has_market network i d'"
proof -
  obtain xs ys where rs: "rs = (xs @ [r]) @ ys" using assms(4) by (auto dest: split_list)
  obtain c t where t: "project_page e (xs @ [r]) a d = (Inr c, t)" and rest: "project_page e ys c t = (Inr b, d')"
    using assms(1) unfolding rs project_page_append [of e "xs @ [r]"] by (auto split: prod.splits sum.splits)
  have tr: "grown_from network d t" by (rule page_grows [OF t _ assms(3)]) (use assms(2) rs in auto)
  obtain c' t' where "project_page e xs a d = (Inr c', t')" and "project_page e [r] c' t' = (Inr c, t)"
    using t unfolding project_page_append [of e xs] by (auto split: prod.splits sum.splits)
  then obtain x where "project e r t' = (Inr x, t)" by (auto simp: bind_Inr ret_Inr)
  from listing_lists [OF this assms(5)] assms(2,4) have "has_market network i t" by simp
  moreover have "grown_from network t d'"
    by (rule page_grows [OF rest]) (use assms(2) rs tr in \<open>auto simp: grown_from_def\<close>)
  ultimately show ?thesis by (simp add: grown_from_def)
qed

section \<open>The start of the replay\<close>

lemma rows_after_delete:
  "tbl \<notin> {''Position'', ''GovernanceOperation''} \<Longrightarrow>
   rows_of network tbl (fold (delete_from network) tbls d) = (if tbl \<in> set tbls then [] else rows_of network tbl d)"
proof (induction tbls arbitrary: d)
  case (Cons t tbls)
  have "rows_of network tbl (delete_from network t d) = (if t = tbl then [] else rows_of network tbl d)"
    using Cons.prems by (auto simp: rows_of_def delete_from_def)
  then show ?case using Cons by (cases "t = tbl") simp_all
qed simp

lemma positions_after_delete:
  "positions_of network (fold (delete_from network) tbls d) = (if ''Position'' \<in> set tbls then [] else positions_of network d)"
proof (induction tbls arbitrary: d)
  case (Cons t tbls)
  have "positions_of network (delete_from network t d) = (if t = ''Position'' then [] else positions_of network d)"
    by (auto simp: positions_of_def delete_from_def)
  then show ?case using Cons by (cases "t = ''Position''") simp_all
qed simp

lemma governance_after_delete:
  "governance_of network (fold (delete_from network) tbls d) = (if ''GovernanceOperation'' \<in> set tbls then [] else governance_of network d)"
proof (induction tbls arbitrary: d)
  case (Cons t tbls)
  have "governance_of network (delete_from network t d) = (if t = ''GovernanceOperation'' then [] else governance_of network d)"
    by (auto simp: governance_of_def delete_from_def)
  then show ?case using Cons by (cases "t = ''GovernanceOperation''") simp_all
qed simp

lemma reset_derived:
  "tbl \<in> set LOG_TABLES \<Longrightarrow> rows_of network tbl (resetProjections network d) = []"
  "positions_of network (resetProjections network d) = []" "governance_of network (resetProjections network d) = []"
proof -
  let ?d1 = "fold (delete_from network) DERIVED_TABLES d"
  have views: "rows_of network tbl (resetProjections network d) = rows_of network tbl ?d1"
    "positions_of network (resetProjections network d) = positions_of network ?d1"
    "governance_of network (resetProjections network d) = governance_of network ?d1" for tbl
    by (simp_all add: resetProjections_def Let_def rows_of_def positions_of_def governance_of_def)
  show "tbl \<in> set LOG_TABLES \<Longrightarrow> rows_of network tbl (resetProjections network d) = []"
    unfolding views by (subst rows_after_delete) (auto simp: LOG_TABLES_def DERIVED_TABLES_def)
  show "positions_of network (resetProjections network d) = []" "governance_of network (resetProjections network d) = []"
    unfolding views positions_after_delete governance_after_delete by (simp_all add: DERIVED_TABLES_def)
qed

lemma account_of_reset: "account_of network a (resetProjections network d) = (0, 0)"
proof -
  have "find (\<lambda>r. aj_network r = network \<and> aj_address r = a) (ix_accounts (resetProjections network d))
      = map_option (\<lambda>r. if aj_network r = network then reset_account r else r) (find (\<lambda>r. aj_network r = network \<and> aj_address r = a) (ix_accounts d))"
    unfolding reset_sel by (rule find_map_update) (simp add: reset_account_def)
  then show ?thesis by (auto simp: account_of_def reset_account_def dest!: found split: option.splits)
qed

text \<open>A database no event of the network has touched.\<close>

definition fresh_for :: "string \<Rightarrow> index_db \<Rightarrow> bool" where
  "fresh_for network d \<longleftrightarrow> (\<forall>tbl \<in> set LOG_TABLES. rows_of network tbl d = []) \<and> positions_of network d = [] \<and> governance_of network d = []
     \<and> (\<forall>r \<in> set (ix_accounts d). aj_network r = network \<longrightarrow> aj_feeTier r = 0 \<and> aj_minValidNonce r = 0)
     \<and> (\<forall>f \<in> set (ix_fills d). fj_network f = network \<longrightarrow> fj_status f \<noteq> SETTLED) \<and> distinct (map fill_proj_key (ix_fills d))
     \<and> (\<forall>r \<in> set (ix_orders d). ow_network r = network \<longrightarrow> ow_filledSize r = 0 \<and> ow_status r \<in> {OPEN, CANCELLED, EXPIRED})
     \<and> distinct (map ow_orderHash (ix_orders d))"

definition cancelled_hashes :: "index_db \<Rightarrow> hex set" where
  "cancelled_hashes d = ow_orderHash ` {r \<in> set (ix_orders d). ow_status r = CANCELLED}"

lemma order_eqI: "order_terms r = order_terms l \<Longrightarrow> ow_filledSize r = ow_filledSize l \<Longrightarrow> ow_status r = ow_status l \<Longrightarrow> r = l"
  by (cases r, cases l) (simp add: order_terms_def)

lemma reset_status: "ow_status (reset_order r) = (case ow_status r of PARTIALLY_FILLED \<Rightarrow> OPEN | FILLED \<Rightarrow> OPEN | st \<Rightarrow> st)"
  by (cases "ow_status r") (simp_all add: reset_order_def)

lemma reset_shadows:
  assumes "evolves network l r" and "ow_network l = network \<longrightarrow> ow_filledSize l = 0 \<and> ow_status l \<in> {OPEN, CANCELLED, EXPIRED}"
    and "ow_status r = CANCELLED \<longrightarrow> ow_orderHash r \<in> K"
  shows "shadows K l (if ow_network r = network then reset_order r else r)"
proof (cases "ow_network l = network")
  case False
  then show ?thesis using assms(1) by (auto simp: evolves_def shadows_def)
next
  case True
  have terms: "order_terms (reset_order r) = order_terms l" using assms(1) by (simp add: evolves_def reset_order_def order_terms_def)
  have net: "ow_network r = network" "ow_orderHash r = ow_orderHash l" using evolves_key [OF assms(1)] True by simp_all
  have l: "ow_filledSize l = 0" "ow_status l \<in> {OPEN, CANCELLED, EXPIRED}" using assms(2) True by simp_all
  have filled: "ow_filledSize (reset_order r) = 0" by (simp add: reset_order_def)
  show ?thesis
  proof (cases "ow_status r = CANCELLED")
    case c: True
    have "reset_order r = l\<lparr>ow_status := CANCELLED\<rparr>"
      by (rule order_eqI) (use terms filled l(1) c in \<open>simp_all add: order_terms_def reset_order_def\<close>)
    then show ?thesis using net c assms(3) by (simp add: shadows_def)
  next
    case False
    have "ow_status l \<noteq> CANCELLED" "ow_status r = EXPIRED \<longleftrightarrow> ow_status l = EXPIRED" using False assms(1) by (auto simp: evolves_def)
    then have "ow_status (reset_order r) = ow_status l"
      using False l(2) unfolding reset_status by (cases "ow_status r"; cases "ow_status l") simp_all
    then have "reset_order r = l" by (rule order_eqI [OF terms, rotated]) (simp add: filled l(1))
    then show ?thesis using net by (simp add: shadows_def)
  qed
qed

lemma reset_replays:
  assumes "fresh_for network d0" and "grown_from network d0 d"
  shows "replays network (cancelled_hashes d) {i. has_market network i d} d0 (resetProjections network d)"
proof (rule replaysI)
  let ?B = "resetProjections network d"
  show "same_derived network d0 ?B" using assms(1) by (simp add: same_derived_def fresh_for_def reset_derived)
  have has: "has_account network a ?B = has_account network a d" for a
    unfolding has_account_def reset_sel by (rule bex_map_update) (simp add: reset_account_def)
  have "account_of network a d0 = (0, 0)" for a
    using assms(1) by (auto simp: account_of_def fresh_for_def dest!: found split: option.splits)
  then show "same_accounts network d0 ?B" using assms(2) by (simp add: same_accounts_def account_of_reset has grown_from_def)
  have "has_market network i ?B = has_market network i d" for i
    unfolding has_market_def reset_sel by (rule bex_map_update) (simp add: reset_market_def)
  then show "markets_within network {i. has_market network i d} d0 ?B" using assms(2) by (auto simp: markets_within_def grown_from_def)
  have none: "fj_status (reset_fill f) \<noteq> SETTLED" "fj_txHash (reset_fill f) = None" for f by (simp_all add: reset_fill_def)
  have "settled_fills network ?B = {}"
  proof -
    have "fj_status f \<noteq> SETTLED" if "f \<in> set (ix_fills ?B)" "fj_network f = network" for f
      using that none(1) unfolding reset_sel set_map by (elim imageE) (simp split: if_splits)
    then show ?thesis by (auto simp: settled_fills_def)
  qed
  moreover have "settled_fills network d0 = {}" using assms(1) by (auto simp: settled_fills_def fresh_for_def)
  moreover have "map fill_proj_key (ix_fills ?B) = map fill_proj_key (ix_fills d)" by (simp add: fill_proj_key_def reset_fill_def)
  moreover have "fj_status f = SETTLED" if "f \<in> set (ix_fills ?B)" "fj_network f = network" "fj_txHash f \<noteq> None" for f
    using that none(2) unfolding reset_sel set_map by (elim imageE) (simp split: if_splits)
  ultimately show "same_fills network d0 ?B"
    using assms by (simp add: same_fills_def fresh_for_def grown_from_def del: reset_sel)
  have "shadows (cancelled_hashes d) l (if ow_network r = network then reset_order r else r)"
    if "l \<in> set (ix_orders d0)" "r \<in> set (ix_orders d)" "evolves network l r" for l r
    by (rule reset_shadows [OF that(3)]) (use assms(1) that in \<open>auto simp: fresh_for_def cancelled_hashes_def\<close>)
  then show "list_all2 (shadows (cancelled_hashes d)) (ix_orders d0) (ix_orders ?B)"
    using assms(2) unfolding reset_sel list_all2_map2 grown_from_def by (elim conjE list.rel_mono_strong)
qed

lemma shadows_end:
  assumes "list_all2 (shadows (cancelled_hashes d)) (ix_orders d) ys" and "distinct (map ow_orderHash (ix_orders d))"
  shows "ys = ix_orders d"
proof -
  have "b = l" if "l \<in> set (ix_orders d)" "shadows (cancelled_hashes d) l b" for l b
  proof (rule ccontr)
    assume "b \<noteq> l"
    then have h: "ow_orderHash l \<in> cancelled_hashes d" and b: "b = l\<lparr>ow_status := CANCELLED\<rparr>" using that(2) by (simp_all add: shadows_def)
    from h obtain r where r: "r \<in> set (ix_orders d)" "ow_status r = CANCELLED" "ow_orderHash r = ow_orderHash l" by (auto simp: cancelled_hashes_def)
    have "r = l" using assms(2) r(1,3) that(1) by (auto simp: distinct_map inj_on_def)
    then have "b = l" using b r(2) by (cases l) simp
    with \<open>b \<noteq> l\<close> show False by simp
  qed
  note same = this
  have "list_all2 (=) (ix_orders d) ys" by (rule list.rel_mono_strong [OF assms(1)]) (rule same [symmetric])
  then show ?thesis by (simp add: list.rel_eq)
qed

section \<open>From the live run to the rebuild\<close>

lemma events_of_keys: "map event_key (events_of e opts block ls) = map log_key ls"
  by (simp add: events_of_def event_key_def log_key_def)

lemma events_network: "r \<in> set (events_of e opts block ls) \<Longrightarrow> se_network r = io_network opts"
  by (auto simp: events_of_def)

lemma pass_rows:
  assumes "chain_ok chain" and "no_events (io_network opts) d0" and "one_pass e opts block chain f t d0 = (Inr u, d)"
  shows "filter (\<lambda>r. se_network r = io_network opts) (ix_events d) = events_of e opts block (logs_between f t chain)"
proof -
  have "filter (\<lambda>r. se_network r = io_network opts) (ix_events d0) = []" using assms(2) by (auto simp: no_events_def filter_empty_conv)
  then show ?thesis unfolding pass_events [OF assms] using events_network by (auto simp: filter_id_conv)
qed

lemma pass_keys:
  assumes "chain_ok chain" and "no_events (io_network opts) d0" and "one_pass e opts block chain f t d0 = (Inr u, d)"
  shows "keys_distinct (io_network opts) d"
  using assms(1) unfolding keys_distinct_def pass_rows [OF assms] events_of_keys by (simp add: chain_ok_def distinct_between)

lemma events_sorted: "sorted_wrt (\<lambda>x y. event_order x y \<le> 0) (events_of e opts block (logs_between f t chain))"
proof -
  have "event_order (event_of e opts b x) (event_of e opts c y) = log_order x y" for b c x y by (simp add: event_order_def log_order_def)
  moreover have "sorted_wrt (\<lambda>x y. log_order x y \<le> 0) (logs_between f t chain)" by (simp add: logs_between_def log_priority.js_sort_sorted)
  ultimately show ?thesis by (simp add: events_of_def sorted_wrt_map)
qed

lemma pass_stored:
  assumes "chain_ok chain" and "no_events (io_network opts) d0" and "one_pass e opts block chain f t d0 = (Inr u, d)"
  shows "stored_in_order (io_network opts) d = events_of e opts block (logs_between f t chain)"
  unfolding stored_in_order_def pass_rows [OF assms]
proof (rule stored_order.sorted_unique)
  have "distinct (map event_key (events_of e opts block (logs_between f t chain)))"
    using assms(1) by (simp add: events_of_keys chain_ok_def distinct_between)
  then show "inj_on event_key (set (js_sort event_order (events_of e opts block (logs_between f t chain))))" by (simp add: distinct_map)
qed (simp_all add: stored_order.js_sort_sorted events_sorted)

lemma pass_run:
  assumes "chain_ok chain" and "no_events (io_network opts) d0" and "one_pass e opts block chain f t d0 = (Inr u, d)"
  shows "\<exists>a d1. project_page e (events_of e opts block (logs_between f t chain)) 0 d0 = (Inr a, d1)
    \<and> d = d1\<lparr>ix_cursor := ix_cursor d, ix_events := ix_events d\<rparr>"
proof -
  obtain m where m: "act_each (index_log e opts block) (logs_between f t chain) d0 = (Inr (), m)"
    and d: "d = m\<lparr>ix_cursor := (ix_cursor d0)((io_network opts, CURSOR_STREAM) \<mapsto> (t, lower (fst (block t))))\<rparr>"
    using assms(3) by (auto simp: one_pass_Inr)
  have "distinct (map log_id (logs_between f t chain))" using assms(1) by (simp add: chain_ok_def distinct_between)
  from live_run_is_page [OF m this] assms(2) obtain b where
    "project_page e (events_of e opts block (logs_between f t chain)) 0 d0 = (Inr b, m\<lparr>ix_events := ix_events d0\<rparr>)"
    by (fastforce simp: no_events_def)
  then show ?thesis unfolding d by auto
qed

lemma replays_end:
  assumes "replays network (cancelled_hashes d) G L B" and "ix_orders d = ix_orders L" and "distinct (map ow_orderHash (ix_orders L))"
  shows "same_derived network L B \<and> same_accounts network L B \<and> settled_fills network B = settled_fills network L \<and> ix_orders B = ix_orders L"
proof -
  have "ix_orders B = ix_orders d"
    by (rule shadows_end) (use assms in \<open>simp_all add: replays_def\<close>)
  then show ?thesis using assms by (simp add: replays_def same_fills_def)
qed

lemma evolves_hashes: "list_all2 (evolves network) xs ys \<Longrightarrow> map ow_orderHash ys = map ow_orderHash xs"
  by (induction rule: list_all2_induct) (simp_all add: evolves_key)

text \<open>The replay of the stored rows, started from the reset of the database they led to.\<close>

lemma replay_agrees:
  assumes "fresh_for network d0" and "project_page e rs 0 d0 = (Inr a, d1)" and "\<And>r. r \<in> set rs \<Longrightarrow> se_network r = network"
    and "d = d1\<lparr>ix_cursor := y, ix_events := fs\<rparr>"
  shows "\<exists>d'. project_page e rs 0 (resetProjections network d) = (Inr a, d') \<and> same_derived network d d' \<and> same_accounts network d d'
    \<and> settled_fills network d' = settled_fills network d \<and> ix_orders d' = ix_orders d"
proof -
  have keys: "distinct (map fill_proj_key (ix_fills d0))" using assms(1) by (simp add: fresh_for_def)
  have grown: "grown_from network d0 d1" by (rule page_grows [OF assms(2) _ keys]) (rule assms(3))
  then have "grown_from network d0 d" by (simp add: assms(4) grown_from_def)
  note start = reset_replays [OF assms(1) this]
  have listed: "i \<in> {i. has_market network i d}" if "r \<in> set rs" "listing e r i" for r i
    using listed_stays [OF assms(2) _ keys that] assms(3) by (simp add: assms(4))
  from tracksD [OF replay.tracks_project_page start assms(2)] listed assms(3) obtain d' where
    run: "project_page e rs 0 (resetProjections network d) = (Inr a, d')"
    and R: "replays network (cancelled_hashes d) {i. has_market network i d} d1 d'" by blast
  have hashes: "distinct (map ow_orderHash (ix_orders d1))"
    using grown assms(1) evolves_hashes [of network "ix_orders d0" "ix_orders d1"] by (simp add: grown_from_def fresh_for_def)
  have views: "same_derived network d x = same_derived network d1 x" "same_accounts network d x = same_accounts network d1 x"
    "settled_fills network d = settled_fills network d1" "ix_orders d = ix_orders d1" for x
    by (simp_all add: assms(4) same_derived_def same_accounts_def table_views)
  from replays_end [OF R views(4) hashes] run show ?thesis unfolding views by blast
qed

section \<open>Properties\<close>

text \<open>C24. The pages of a rebuild are one pass. With distinct places in the log among the network's stored events and any batch size
  above zero, a rebuild with one step of fuel an event returns what applying all of them once, in log order, to the reset
  projections gives, the number applied included; an event that fails to apply leaves the database as it was.\<close>

theorem rebuild_is_one_pass:
  assumes "1 \<le> n" and "keys_distinct (io_network opts) d" and "\<forall>r \<in> set (ix_events d). se_network r = io_network opts \<longrightarrow> 0 \<le> se_blockNumber r"
    and "length (ix_events d) < fuel"
  shows "rebuild fuel e opts n d = Some (case project_page e (stored_in_order (io_network opts) d) 0 (resetProjections (io_network opts) d) of
      (Inl err, _) \<Rightarrow> (Inl err, d) | (Inr a, d') \<Rightarrow> (Inr a, d'))"
proof -
  let ?N = "io_network opts"
  let ?B = "resetProjections ?N d"
  have "length (stored_in_order ?N d) \<le> length (ix_events d)" by (simp add: stored_in_order_def)
  moreover have rem: "remaining_events ?N (-1, 0) ?B = stored_in_order ?N d"
    using remaining_from_start [OF assms(3)] by (simp add: remaining_events_def)
  moreover have "keys_distinct ?N ?B" using assms(2) by (simp add: keys_distinct_def)
  ultimately have "rebuild_loop fuel e ?N n (-1, 0) 0 ?B = Some (project_page e (stored_in_order ?N d) 0 ?B)"
    using rebuild_loop_pass [OF assms(1), of ?N ?B "(-1, 0)" fuel e 0] assms(4) by simp
  then show ?thesis by (auto simp: rebuild_def split: prod.splits sum.splits)
qed

text \<open>C23. A rebuild reproduces live indexing. Index a chain into a database no event of the network has touched, whatever the windows
  (\<open>windows_are_one_pass\<close>), then rebuild with any batch size: the rebuild succeeds, the thirteen derived tables hold the same rows of
  the network in the same order, every account has the same fee tier and lowest valid nonce, the settled fills are the same and every
  order is in the state it was, down to its filled size and status.\<close>

theorem rebuild_reproduces_live:
  assumes "chain_ok chain" and "\<forall>l \<in> set chain. 0 \<le> rl_blockNumber l" and "no_events (io_network opts) d0" and "fresh_for (io_network opts) d0"
    and "one_pass e opts block chain f t d0 = (Inr (), d)" and "1 \<le> n" and "length (ix_events d) < fuel"
  shows "\<exists>a d'. rebuild fuel e opts n d = Some (Inr a, d') \<and> same_derived (io_network opts) d d' \<and> same_accounts (io_network opts) d d'
    \<and> settled_fills (io_network opts) d' = settled_fills (io_network opts) d \<and> ix_orders d' = ix_orders d"
proof -
  let ?N = "io_network opts"
  let ?rs = "events_of e opts block (logs_between f t chain)"
  obtain a d1 where run: "project_page e ?rs 0 d0 = (Inr a, d1)" and d: "d = d1\<lparr>ix_cursor := ix_cursor d, ix_events := ix_events d\<rparr>"
    using pass_run [OF assms(1,3,5)] by blast
  have net: "se_network r = ?N" if "r \<in> set ?rs" for r using that by (rule events_network)
  from replay_agrees [OF assms(4) run net d] obtain d' where
    d': "project_page e ?rs 0 (resetProjections ?N d) = (Inr a, d')" "same_derived ?N d d'" "same_accounts ?N d d'"
      "settled_fills ?N d' = settled_fills ?N d" "ix_orders d' = ix_orders d" by blast
  have "\<forall>r \<in> set (filter (\<lambda>r. se_network r = ?N) (ix_events d)). 0 \<le> se_blockNumber r"
    unfolding pass_rows [OF assms(1,3,5)] using assms(2) by (auto simp: events_of_def logs_between_def)
  then have blocks: "\<forall>r \<in> set (ix_events d). se_network r = ?N \<longrightarrow> 0 \<le> se_blockNumber r" by simp
  have "remaining_events ?N (-1, 0) (resetProjections ?N d) = ?rs"
    using remaining_from_start [OF blocks] pass_stored [OF assms(1,3,5)] by (simp add: remaining_events_def)
  moreover have "length ?rs \<le> length (ix_events d)" unfolding pass_rows [OF assms(1,3,5), symmetric] by simp
  moreover have "keys_distinct ?N (resetProjections ?N d)" using pass_keys [OF assms(1,3,5)] by (simp add: keys_distinct_def)
  ultimately have "rebuild_loop fuel e ?N n (-1, 0) 0 (resetProjections ?N d) = Some (project_page e ?rs 0 (resetProjections ?N d))"
    using rebuild_loop_pass [OF assms(6), of ?N "resetProjections ?N d" "(-1, 0)" fuel e 0] assms(7) by simp
  then have "rebuild fuel e opts n d = Some (Inr a, d')" using d'(1) by (simp add: rebuild_def)
  then show ?thesis using d'(2-5) by blast
qed

lemma sample_fresh_for: "fresh_for (io_network sample_opts) empty_index"
  by (simp add: fresh_for_def empty_index_def rows_of_def positions_of_def governance_of_def)

definition sample_indexed :: index_db where
  "sample_indexed = snd (one_pass sample_env sample_opts sample_block logs_sample 4 8 empty_index)"

lemma sample_indexed_pass: "one_pass sample_env sample_opts sample_block logs_sample 4 8 empty_index = (Inr (), sample_indexed)"
proof -
  have "fst (one_pass sample_env sample_opts sample_block logs_sample 4 8 empty_index) = Inr ()" by code_simp
  then show ?thesis by (simp add: sample_indexed_def prod_eq_iff)
qed

lemma sample_indexed_events: "length (ix_events sample_indexed) = 3" "keys_distinct (io_network sample_opts) sample_indexed"
  "\<forall>r \<in> set (ix_events sample_indexed). se_network r = io_network sample_opts \<longrightarrow> 0 \<le> se_blockNumber r"
  by code_simp+

theorem rebuild_is_one_pass_witness:
  "rebuild 4 sample_env sample_opts 2 sample_indexed = Some (case project_page sample_env (stored_in_order (io_network sample_opts) sample_indexed) 0
      (resetProjections (io_network sample_opts) sample_indexed) of (Inl err, _) \<Rightarrow> (Inl err, sample_indexed) | (Inr a, d') \<Rightarrow> (Inr a, d'))"
  by (rule rebuild_is_one_pass) (simp_all add: sample_indexed_events)

theorem rebuild_reproduces_live_witness:
  "\<exists>a d'. rebuild 4 sample_env sample_opts 2 sample_indexed = Some (Inr a, d') \<and> same_derived (io_network sample_opts) sample_indexed d'
    \<and> same_accounts (io_network sample_opts) sample_indexed d'
    \<and> settled_fills (io_network sample_opts) d' = settled_fills (io_network sample_opts) sample_indexed \<and> ix_orders d' = ix_orders sample_indexed"
proof (rule rebuild_reproduces_live [OF sample_chain_ok _ sample_fresh(1) sample_fresh_for sample_indexed_pass])
  show "\<forall>l \<in> set logs_sample. 0 \<le> rl_blockNumber l" by (simp add: logs_sample_def)
qed (simp_all add: sample_indexed_events)

section \<open>Where the projections and the chain part\<close>

text \<open>\<open>RiskParams.setMarket\<close> lists a second market on a feed that has one; the table wants symbols unique, and the symbol is the feed's
  name. The event cannot be projected, so its window cannot be committed.\<close>

lemma second_market_on_a_feed_refused:
  assumes "market_listed e ev d = (Inr (), d1)" and "as_int (n_arg (se_args ev2) ''marketId'') = Inr j" and "\<not> has_market (se_network ev) j d1"
    and "se_network ev2 = se_network ev" and "s_arg (se_args ev2) ''oracleId'' = s_arg (se_args ev) ''oracleId''"
    and "\<not> has_market (se_network ev) i d" and "as_int (n_arg (se_args ev) ''marketId'') = Inr i"
  shows "market_listed e ev2 d1 = (Inl (Unique_violation ''Market''), d1)"
proof -
  obtain name where name: "bytes32ToString e (s_arg (se_args ev) ''oracleId'') = Inr name"
    and run: "put_market (se_network ev) i (if name = [] then s_arg (se_args ev) ''oracleId'' else name) (s_arg (se_args ev) ''oracleId'') d = (Inr (), d1)"
    using assms(1,7) by (auto simp: market_listed_def Let_def act_Inr)
  have "\<exists>m \<in> set (ix_markets d1). mj_network m = se_network ev \<and> mj_symbol m = (if name = [] then s_arg (se_args ev) ''oracleId'' else name)"
    using run assms(6) by (auto simp: put_market_def act_Inr split: if_splits)
  then show ?thesis using assms(2-5) name by (cases "name = []") (simp_all add: market_listed_def Let_def put_market_def act_defs)
qed

text \<open>\<open>FeeRouter.setMarketFees\<close> does not ask for a listed market. Fees set first find no row, live; a rebuild finds the row already there
  and applies them, so the two disagree on the market's rates.\<close>

definition fees_env :: index_env where
  "fees_env = \<lparr>xe_contracts = [(''riskParams'', ''0xAA''), (''feeRouter'', ''0xBB'')],
     xe_decodeEventLog = (\<lambda>name topics data. if name = ''feeRouter'' then Some (Some ''MarketFeesSet'',
         Some (JS_object [(''marketId'', JS_number 2), (''makerRate'', JS_number 7), (''takerRate'', JS_number 9)]))
       else Some (Some ''MarketListed'', Some (JS_object [(''marketId'', JS_number 2), (''oracleId'', JS_string ''0x42'')]))),
     xe_decodeErrorResult = (\<lambda>_. None), xe_hexToString = (\<lambda>_. Some ''BTC'')\<rparr>"

definition fees_chain :: "raw_log list" where
  "fees_chain = [\<lparr>rl_address = ''0xBB'', rl_blockNumber = 5, rl_transactionHash = ''0xF1'', rl_logIndex = 0, rl_topics = [''0x01''], rl_data = ''0x''\<rparr>,
     \<lparr>rl_address = ''0xAA'', rl_blockNumber = 6, rl_transactionHash = ''0xF2'', rl_logIndex = 0, rl_topics = [''0x02''], rl_data = ''0x''\<rparr>]"

definition fees_live :: index_db where
  "fees_live = snd (one_pass fees_env sample_opts sample_block fees_chain 4 8 empty_index)"

lemma fees_before_listing:
  "map mj_takerRate (ix_markets fees_live) = [0]"
  "map_option (\<lambda>(r, d). (r, map mj_takerRate (ix_markets d))) (rebuild 3 fees_env sample_opts 5000 fees_live) = Some (Inr 2, [9])"
  by code_simp+

end
