(* ===== verification/Spec2Isabelle.thy ===== *)
theory Spec2Isabelle
  imports Matcher_Safety Reconciler Oracle_Contract Display_Format Order_Ticket
    Liquidation_Safety Funding_Keeper Fee_Tier_Bot Refill_Keeper
    Backstop_Keeper Publisher_Safety Intake_Gateway Rebuild_Replay
begin

text \<open>
  Kryon protocol: the off-chain services that match, settle, publish and repair.

  Orders are signed by traders, matched off chain, settled in batches by the on-chain gateway, and
  read back by an indexer. The services are TypeScript under \<open>client/lib\<close>. This development models the
  ones that decide what is sent to the chain: the matcher, the transaction sender with its job
  store, the reconciler, the keepers, the indexer, order intake and the oracle publisher, with
  the part of the oracle contract that the guards mirror.

  Parts and how they interact.
  A matcher tick (\<open>matcher/loop.ts\<close>) loads a market's book from the database, matches it with the pure
  engine, filters by the execution band, builds fills with fresh ids, sizes them into batches by a gas
  estimate, reserves each batch in the fill table, and sends it through the sender of its key. The receipt
  is decoded and applied: a rejected fill frees its size, a faulty order is retired, a failing
  order is put in a cooldown. The sender stores every transaction it signs before it is broadcast
  and watches its nonce until an attempt is mined. Keepers share that sender and refuse to decide while something is in
  flight. The reconciler sees every key's jobs, records receipts and re-sends signed bytes. The
  publisher aggregates venue prices and predicts the contract's answer before it pays for a push.

  Theories, in the order they build on each other.
  \<^item> \<open>Kryon_Prelude\<close>: truncating division, the stable sort by a comparator, maps with a default,
    lower-casing, three-way comparison; the locales \<open>comparator\<close> and \<open>keyed_comparator\<close> that every
    sort of the program interprets.
  \<^item> \<open>Kryon_Actions\<close>: an \<open>async\<close> method as a state transformer that returns or throws (\<open>act\<close>), weakest
    preconditions (\<open>act_wp\<close>) and invariants (\<open>act_keeps\<close>) of the sequencing constructs.
  \<^item> \<open>Kryon_Math\<close> (\<open>math.ts\<close>): position arithmetic; value conservation of a fill, fee rounding, the
    exact liquidation threshold.
  \<^item> \<open>Matching_Engine\<close> (\<open>market/matching-engine.ts\<close>): eligibility, the ledger, the double loop; validity,
    no overfill, reduce-only bounds, price-time priority, completeness, independence of the order of the rows.
  \<^item> \<open>Tx_Store\<close>, \<open>Tx_Store_Pg\<close> (\<open>chain/tx-store.ts\<close>, \<open>tx-store-pg.ts\<close>): the job record, the in-memory store and
    the table; the locale \<open>tx_job_store\<close> is their contract and both interpret it; the table refines the
    in-memory store, field by field.
  \<^item> \<open>Tx_Sender\<close>, \<open>Tx_Wait\<close> (\<open>chain/tx-sender.ts\<close>): nonces, signing, broadcasting, fee bumps, waiting; what is
    on record and can be resumed from, which nonces are free, what a mined nonce closes, when waiting ends.
  \<^item> \<open>Settlement\<close>, \<open>Matcher_Book\<close>, \<open>Matcher_Batch\<close>, \<open>Cooldown\<close>, \<open>Execution_Band\<close>, \<open>Matcher_Submit\<close>,
    \<open>Matcher_Apply\<close>, \<open>Matcher_Loop\<close>, \<open>Matcher_Safety\<close> (\<open>chain/settlement.ts\<close> and the files of the same name under
    \<open>matcher/\<close>): one file each, the tick and the recovery as actions over the database and the sender, and what holds of any
    run of them.
  \<^item> \<open>Keeper_Runtime\<close> (\<open>keepers/runtime.ts\<close>): counters, the tick loop, intents, the gas roll-up, start-up
    recovery and the in-flight guard.
  \<^item> \<open>Keeper_Calls\<close> (\<open>keepers/reverts.ts\<close> and what the keepers share): the state of a sending keeper, its questions and
    calls, and the trace of both; \<open>Liquidation_Keeper\<close> with \<open>Liquidation_Safety\<close>, \<open>Funding_Keeper\<close>, \<open>Fee_Tier_Bot\<close>,
    \<open>Refill_Keeper\<close> (the files of the same name under \<open>keepers/\<close>): one tick each; every call a tick makes is
    justified by what it has read, and the plans stay within their limits.
  \<^item> \<open>Backstop_Plan\<close>, \<open>Backstop_Keeper\<close> (\<open>keepers/backstop.ts\<close>): the plan that closes Insurance's positions, proved against
    the caps of \<open>Insurance.sol\<close>, and the tick that posts it as orders.
  \<^item> \<open>Reconciler_Jobs\<close>, \<open>Reconciler\<close> (\<open>reconciler/jobs.ts\<close>, \<open>fills.ts\<close>, \<open>index.ts\<close>): the pass over a key, the scan for
    unaccounted fills, the tick.
  \<^item> \<open>Oracle_Aggregate\<close>, \<open>Oracle_Guards\<close>, \<open>Oracle_Contract\<close> (\<open>oracle/aggregate.ts\<close>, \<open>guards.ts\<close>, \<open>chain.ts\<close>,
    \<open>OracleAdapter.sol\<close>) and \<open>Oracle_Sources\<close> (\<open>oracle/sources.ts\<close>): the venues behind the locale \<open>venue\<close>, the median and outlier rule, the mirror and the decision, and the contract they are proved
    against.
  \<^item> \<open>Oracle_Publisher\<close>, \<open>Publisher_Safety\<close> (\<open>oracle/publisher.ts\<close>): the tick around the guards, what it pushes, and how a refused
    push is taken apart.
  \<^item> \<open>Order_Intake\<close>, \<open>Intake_Gateway\<close> (\<open>validation.ts\<close>, the order route, \<open>OrderGateway.sol\<close>, \<open>OrderLib.sol\<close>): the checks of a submitted order
    or cancel, proved no looser than \<open>_consume\<close> and \<open>_checkNotional\<close> on a chain that still has what intake saw, and the way of an accepted order
    into the book for as long as its row is open.
  \<^item> \<open>Projections\<close>, \<open>Indexer\<close> (\<open>indexer/decode.ts\<close>, \<open>projections.ts\<close>, \<open>indexer.ts\<close>): one handler an event with the constraints of the tables, the
    window loop, the rebuild. \<open>Projection_Replay\<close> runs the same handlers on two related databases (the locale \<open>replay_relation\<close>, one law
    a statement, interpreted three times); \<open>Index_Windows\<close>: all windows are one pass over the chain, and catching up ends; \<open>Rebuild_Replay\<close>: a
    rebuild reproduces what live indexing left.
  \<^item> \<open>Order_Ticket\<close>, \<open>Display_Format\<close> (\<open>market/order-ticket.ts\<close>, \<open>format.ts\<close>): the checks the app makes before an order is
    signed and what they guarantee of the account, and the texts its inputs show and parse.

  How the code is read.
  A \<open>bigint\<close> or integral number is an \<open>int\<close>; \<open>bigint\<close> division truncates (\<open>sdiv\<close>). A table is the list of its rows, an
  SQL filter, join or order a list operation on it; an upsert and \<open>ON CONFLICT\<close> are written out. Each part
  has its own record of the tables, with the columns it reads or writes: \<open>db\<close> for the matcher and intake, \<open>index_db\<close> for the indexer. What a call
  may throw is a value of an error type, and writes made before it stay, except inside a
  transaction (\<open>act_atomic\<close>). What the code does not contain is a parameter: the node's answers (one record per pass, one field
  per call, so that two calls may disagree), the signer, keccak and ABI coding, the clock, the id
  generator, the checksum form of an address. The Solidity code is modelled with its
  128-bit overflow checks as reverts.

  Bounds and fuel.
  \<open>wait\<close> takes the number of passes to run: \<open>Tx_Wait.wait_terminates\<close> shows that timeout over poll interval plus one
  passes end it. \<open>sizeBatches\<close> is a partial function with a proof that it returns for a floor of at least one
  fill. \<open>catchUp\<close> and \<open>rebuild_loop\<close> take fuel, one step a block and one page an event are enough
  (\<open>Index_Windows.catch_up_reaches_the_head\<close>, \<open>Rebuild_Replay.rebuild_is_one_pass\<close>). \<open>settle\<close> halves a batch
  with the number of its fills as fuel, which each halving at least reduces by one. The walk over the causes of an error ends because it never visits a node twice. All other loops are
  structural or have a measure.

  Not modelled.
  Log lines, metrics exposition and the monitor; the HTTP routes other than the order route, and queries that serve the app, the web socket
  server and client stores; signers and key stores; statistics; the user interface; the Solidity contracts other than the
  part named above; the Rust reference crates; build, infrastructure and test code. Concurrency: the
  operations of one key run one at a time, as the sender's promise lock makes them, and other processes act
  between ticks.
\<close>

end
